(* ===== verification/Prelude.thy ===== *)
theory Prelude
  imports
    Main
    "HOL-Library.Char_ord"
    "HOL-Library.List_Lexorder"
    "HOL-Library.Signed_Division"
    "HOL-Library.Sublist"
begin

text \<open>
  Shared vocabulary of the development: Go byte strings, the 64-bit integers of the code with
  their wrap-around written out, error results as sums, the parts of the Go standard library
  that the modelled code calls, and the generic lemmas that the component theories reuse.
\<close>

section \<open>Proof automation collections\<close>

named_theorems result_simps \<open>inversion of error results\<close>
named_theorems int64_simps \<open>64-bit arithmetic inside its range\<close>

section \<open>Byte strings\<close>

text \<open>
  A Go \<open>string\<close> and a Go \<open>[]byte\<close> are both sequences of bytes. A HOL \<open>char\<close> is one of exactly 256
  values, so \<open>string\<close> is the type of byte sequences and its lexicographic order (by byte value)
  is \<open>bytes.Compare\<close> and the order of \<open>sort.Strings\<close>.
\<close>

type_synonym bytes = string

abbreviation NUL :: char where
  "NUL \<equiv> CHR 0x00"

definition byte_val :: "char \<Rightarrow> nat" where
  "byte_val c = (of_char c :: nat)"

lemma byte_val_less [simp]: "byte_val c < 256"
  by (simp add: byte_val_def)

lemma byte_val_inject [simp]: "byte_val c = byte_val d \<longleftrightarrow> c = d"
  by (simp add: byte_val_def)

lemma byte_val_char_of: "n < 256 \<Longrightarrow> byte_val (char_of n) = n"
  by (simp add: byte_val_def)

lemma char_less_byte_val: "c < d \<longleftrightarrow> byte_val c < byte_val d"
  by (simp add: byte_val_def less_char_def)

lemma NUL_least [simp]: "NUL \<le> c"
  by (simp add: less_eq_char_def)

lemma NUL_not_less [simp]: "\<not> c < NUL"
  by (simp add: not_less)

text \<open>\<open>bytes.IndexByte\<close> (and \<open>strings.IndexByte\<close>): the index of the first occurrence.\<close>

fun index_byte :: "bytes \<Rightarrow> char \<Rightarrow> nat option" where
  "index_byte [] c = None"
| "index_byte (x # xs) c = (if x = c then Some 0 else map_option Suc (index_byte xs c))"

lemma index_byte_Some_iff:
  "index_byte xs c = Some i \<longleftrightarrow> i < length xs \<and> xs ! i = c \<and> c \<notin> set (take i xs)"
proof (induction xs arbitrary: i)
  case Nil
  then show ?case by simp
next
  case (Cons x xs)
  then show ?case by (cases i) auto
qed

lemma index_byte_None_iff [simp]: "index_byte xs c = None \<longleftrightarrow> c \<notin> set xs"
  by (induction xs) auto

lemma index_byte_append_here: "c \<notin> set xs \<Longrightarrow> index_byte (xs @ c # ys) c = Some (length xs)"
  by (induction xs) auto

definition has_prefix :: "bytes \<Rightarrow> bytes \<Rightarrow> bool" where
  "has_prefix s p \<longleftrightarrow> take (length p) s = p"

lemma has_prefix_iff: "has_prefix s p \<longleftrightarrow> (\<exists>t. s = p @ t)"
  unfolding has_prefix_def by (metis append_eq_conv_conj append_take_drop_id)

definition has_suffix :: "bytes \<Rightarrow> bytes \<Rightarrow> bool" where
  "has_suffix s p \<longleftrightarrow> length p \<le> length s \<and> drop (length s - length p) s = p"

text \<open>\<open>strings.Join\<close> and \<open>strings.Split\<close> with a one-byte separator.\<close>

fun join :: "bytes \<Rightarrow> bytes list \<Rightarrow> bytes" where
  "join sep [] = []"
| "join sep [p] = p"
| "join sep (p # q # ps) = p @ sep @ join sep (q # ps)"

fun split_on :: "char \<Rightarrow> bytes \<Rightarrow> bytes list" where
  "split_on c [] = [[]]"
| "split_on c (x # xs) =
     (if x = c then [] # split_on c xs
      else (case split_on c xs of [] \<Rightarrow> [[x]] | p # ps \<Rightarrow> (x # p) # ps))"

section \<open>64-bit integers\<close>

text \<open>
  Go's \<open>int64\<close> (and \<open>int\<close> on the supported platforms) is a HOL \<open>int\<close> in its range; every sum or
  product that the code does not guard is wrapped.
\<close>

type_synonym int64 = int

definition max_int64 :: int where
  "max_int64 = 9223372036854775807"

definition wrap64 :: "int \<Rightarrow> int64" where
  "wrap64 x = (x + 9223372036854775808) mod 18446744073709551616 - 9223372036854775808"

definition in_int64 :: "int \<Rightarrow> bool" where
  "in_int64 x \<longleftrightarrow> - 9223372036854775808 \<le> x \<and> x \<le> max_int64"

lemma wrap64_id [int64_simps]: "in_int64 x \<Longrightarrow> wrap64 x = x"
  by (simp add: wrap64_def in_int64_def max_int64_def)

lemma wrap64_in_range [simp]: "in_int64 (wrap64 x)"
  using pos_mod_bound [of 18446744073709551616 "x + 9223372036854775808"]
    pos_mod_sign [of 18446744073709551616 "x + 9223372036854775808"]
  unfolding wrap64_def in_int64_def max_int64_def by linarith

text \<open>Go's integer division truncates towards zero.\<close>

lemma sdiv_nonneg [int64_simps]: "0 \<le> (a::int) \<Longrightarrow> 0 < b \<Longrightarrow> a sdiv b = a div b"
  by (simp add: signed_divide_int_def sgn_if)

lemma smod_nonneg [int64_simps]: "0 \<le> (a::int) \<Longrightarrow> 0 < b \<Longrightarrow> a smod b = a mod b"
  by (cases "a = 0") (simp_all add: signed_modulo_int_def sgn_if)

section \<open>Error results\<close>

text \<open>
  A Go call that returns a value and an \<open>error\<close> yields \<open>Inr\<close> of the value or \<open>Inl\<close> of the error;
  \<open>rbind\<close> is the early return \<open>if err != nil\<close>.
\<close>

definition rbind :: "'e + 'a \<Rightarrow> ('a \<Rightarrow> 'e + 'b) \<Rightarrow> 'e + 'b" where
  "rbind m f = (case m of Inl e \<Rightarrow> Inl e | Inr x \<Rightarrow> f x)"

lemma rbind_simps [simp]:
  "rbind (Inl e) f = Inl e"
  "rbind (Inr x) f = f x"
  by (simp_all add: rbind_def)

lemma rbind_Inr_iff [result_simps]: "rbind m f = Inr y \<longleftrightarrow> (\<exists>x. m = Inr x \<and> f x = Inr y)"
  by (cases m) auto

lemma rbind_Inl_iff [result_simps]:
  "rbind m f = Inl e \<longleftrightarrow> m = Inl e \<or> (\<exists>x. m = Inr x \<and> f x = Inl e)"
  by (cases m) auto

lemma rbind_cong [fundef_cong]:
  "m = m' \<Longrightarrow> (\<And>x. m' = Inr x \<Longrightarrow> f x = g x) \<Longrightarrow> rbind m f = rbind m' g"
  by (cases m') auto

text \<open>A guard that returns an error when its condition holds.\<close>

lemma map_error_Inr_iff [result_simps]:
  "(case m of Inl e \<Rightarrow> Inl (f e) | Inr x \<Rightarrow> Inr x) = Inr y \<longleftrightarrow> m = Inr y"
  by (cases m) auto

definition fail_if :: "bool \<Rightarrow> 'e \<Rightarrow> 'e + unit" where
  "fail_if b e = (if b then Inl e else Inr ())"

lemma fail_if_Inr_iff [result_simps]: "fail_if b e = Inr u \<longleftrightarrow> \<not> b"
  by (simp add: fail_if_def)

lemma fail_if_Inl_iff [result_simps]: "fail_if b e = Inl e' \<longleftrightarrow> b \<and> e' = e"
  by (auto simp add: fail_if_def)

lemma fail_if_simps [simp]:
  "fail_if True e = Inl e"
  "fail_if False e = Inr ()"
  by (simp_all add: fail_if_def)

section \<open>Decimal numbers of the standard library\<close>

definition is_digit :: "char \<Rightarrow> bool" where
  "is_digit c \<longleftrightarrow> CHR ''0'' \<le> c \<and> c \<le> CHR ''9''"

definition digit_val :: "char \<Rightarrow> nat" where
  "digit_val c = byte_val c - 48"

lemma is_digit_byte_val: "is_digit c \<longleftrightarrow> 48 \<le> byte_val c \<and> byte_val c \<le> 57"
  by (simp add: is_digit_def byte_val_def less_eq_char_def)

definition decimal_value :: "bytes \<Rightarrow> nat" where
  "decimal_value ds = foldl (\<lambda>n c. 10 * n + digit_val c) 0 ds"

text \<open>
  \<open>strconv.ParseInt(s, 10, bits)\<close>: an optional sign, at least one digit, digits only (underscores
  are accepted in base 0 only), and a value inside the signed range of that width.
\<close>

definition go_parse_int :: "bytes \<Rightarrow> nat \<Rightarrow> int option" where
  "go_parse_int s bits =
     (let neg = (s \<noteq> [] \<and> hd s = CHR ''-'');
          ds = (if s \<noteq> [] \<and> (hd s = CHR ''-'' \<or> hd s = CHR ''+'') then tl s else s);
          v = (if neg then - int (decimal_value ds) else int (decimal_value ds))
      in if ds = [] \<or> \<not> list_all is_digit ds then None
         else if - (2 ^ (bits - 1)) \<le> v \<and> v < 2 ^ (bits - 1) then Some v else None)"

text \<open>The canonical decimal rendering of a natural number, most significant digit first.\<close>

fun decimal :: "nat \<Rightarrow> bytes" where
  "decimal n = (if n < 10 then [char_of (48 + n)] else decimal (n div 10) @ [char_of (48 + n mod 10)])"

declare decimal.simps [simp del]

lemma digit_char:
  assumes "n < 10"
  shows "is_digit (char_of (48 + n))" and "digit_val (char_of (48 + n)) = n"
  using assms by (simp_all add: is_digit_byte_val digit_val_def byte_val_char_of)

lemma char_of_digit_val: "is_digit c \<Longrightarrow> char_of (48 + digit_val c) = c"
  by (simp add: is_digit_byte_val digit_val_def byte_val_def)

lemma digit_val_less: "is_digit c \<Longrightarrow> digit_val c < 10"
  unfolding is_digit_byte_val digit_val_def by linarith

lemma decimal_nonempty [simp]: "decimal n \<noteq> []"
  by (subst decimal.simps) simp

lemma decimal_digits: "list_all is_digit (decimal n)"
proof (induction n rule: decimal.induct)
  case (1 n)
  then show ?case by (subst decimal.simps) (simp add: digit_char)
qed

lemma decimal_value_snoc: "decimal_value (ds @ [c]) = 10 * decimal_value ds + digit_val c"
  by (simp add: decimal_value_def)

lemma decimal_value_decimal [simp]: "decimal_value (decimal n) = n"
proof (induction n rule: decimal.induct)
  case (1 n)
  show ?case
  proof (cases "n < 10")
    case True
    then show ?thesis
      by (subst decimal.simps) (simp add: digit_char decimal_value_def)
  next
    case False
    with 1 show ?thesis
      by (subst decimal.simps) (simp add: digit_char decimal_value_snoc)
  qed
qed

text \<open>A digit string without a leading zero is the rendering of its value.\<close>

definition no_leading_zero :: "bytes \<Rightarrow> bool" where
  "no_leading_zero ds \<longleftrightarrow> ds \<noteq> [] \<and> (length ds > 1 \<longrightarrow> hd ds \<noteq> CHR ''0'')"

lemma decimal_value_pos:
  assumes "list_all is_digit ds" "ds \<noteq> []" "hd ds \<noteq> CHR ''0''"
  shows "0 < decimal_value ds"
  using assms
proof (induction ds rule: rev_induct)
  case Nil
  then show ?case by simp
next
  case (snoc c ds)
  show ?case
  proof (cases "ds = []")
    case True
    with snoc.prems have "is_digit c" "c \<noteq> CHR ''0''" by auto
    moreover have "char_of (48 + (0::nat)) = CHR ''0''" by code_simp
    ultimately have "digit_val c \<noteq> 0"
      using char_of_digit_val [of c] by metis
    with True show ?thesis by (simp add: decimal_value_def)
  next
    case False
    with snoc show ?thesis by (simp add: decimal_value_snoc)
  qed
qed

lemma decimal_canonical:
  assumes "list_all is_digit ds" "no_leading_zero ds"
  shows "decimal (decimal_value ds) = ds"
  using assms
proof (induction ds rule: rev_induct)
  case Nil
  then show ?case by (simp add: no_leading_zero_def)
next
  case (snoc c ds)
  then have c: "is_digit c" by simp
  show ?case
  proof (cases "ds = []")
    case True
    with c show ?thesis
      by (subst decimal.simps) (simp add: decimal_value_def digit_val_less char_of_digit_val)
  next
    case False
    with snoc.prems have ds: "list_all is_digit ds" "hd ds \<noteq> CHR ''0''"
      by (auto simp: no_leading_zero_def hd_append)
    with False have "0 < decimal_value ds" by (simp add: decimal_value_pos)
    moreover have "decimal (decimal_value ds) = ds"
      using snoc.IH ds False by (simp add: no_leading_zero_def)
    ultimately show ?thesis
      using digit_val_less [OF c] char_of_digit_val [OF c]
      by (subst decimal.simps) (simp add: decimal_value_snoc)
  qed
qed

lemma decimal_no_leading_zero: "no_leading_zero (decimal n)"
proof (induction n rule: decimal.induct)
  case (1 n)
  show ?case
  proof (cases "n < 10")
    case True
    then show ?thesis by (subst decimal.simps) (simp add: no_leading_zero_def)
  next
    case False
    then have IH: "no_leading_zero (decimal (n div 10))" using 1 by simp
    have "hd (decimal (n div 10)) \<noteq> CHR ''0''"
    proof
      assume z: "hd (decimal (n div 10)) = CHR ''0''"
      with IH have "length (decimal (n div 10)) = 1"
        unfolding no_leading_zero_def by (metis One_nat_def Suc_lessI length_greater_0_conv)
      with z have "decimal (n div 10) = [CHR ''0'']"
        by (cases "decimal (n div 10)") auto
      then have "n div 10 = decimal_value [CHR ''0'']"
        by (metis decimal_value_decimal)
      with False show False by (simp add: decimal_value_def digit_val_def byte_val_def)
    qed
    with False show ?thesis
      by (subst decimal.simps) (simp add: no_leading_zero_def hd_append)
  qed
qed

section \<open>Cutting a byte sequence into blocks\<close>

lemma map2_snoc:
  "length ys < length xs \<Longrightarrow> map2 f xs (ys @ [y]) = map2 f xs ys @ [f (xs ! length ys) y]"
proof (induction ys arbitrary: xs)
  case Nil
  then show ?case by (cases xs) auto
next
  case (Cons z zs)
  then show ?case by (cases xs) auto
qed

function chunks :: "nat \<Rightarrow> bytes \<Rightarrow> bytes list" where
  "chunks n xs = (if n = 0 \<or> xs = [] then [] else take n xs # chunks n (drop n xs))"
  by pat_completeness auto
termination
  by (relation "measure (\<lambda>(_, xs). length xs)") auto

declare chunks.simps [simp del]

lemma chunks_Nil [simp]: "chunks n [] = []"
  by (simp add: chunks.simps)

lemma chunks_short: "0 < n \<Longrightarrow> xs \<noteq> [] \<Longrightarrow> length xs \<le> n \<Longrightarrow> chunks n xs = [xs]"
  by (simp add: chunks.simps [of n xs])

lemma chunks_append: "0 < n \<Longrightarrow> length xs = n \<Longrightarrow> chunks n (xs @ ys) = xs # chunks n ys"
  by (subst chunks.simps) auto

lemma concat_chunks: "0 < n \<Longrightarrow> concat (chunks n xs) = xs"
  by (induction n xs rule: chunks.induct) (subst chunks.simps, auto)

lemma chunks_length:
  "0 < n \<Longrightarrow> length (chunks n xs) = (length xs + n - 1) div n"
proof (induction n xs rule: chunks.induct)
  case (1 n xs)
  show ?case
  proof (cases "xs = []")
    case True
    with 1 show ?thesis by simp
  next
    case False
    show ?thesis
    proof (cases "n \<le> length xs")
      case True
      then obtain k where k: "length xs = n + k" using le_Suc_ex by blast
      with 1 False have "length (chunks n (drop n xs)) = (k + n - 1) div n" by simp
      moreover have "length (chunks n xs) = Suc (length (chunks n (drop n xs)))"
        using 1 False by (subst chunks.simps) simp
      moreover have "(length xs + n - 1) div n = Suc ((k + n - 1) div n)"
      proof -
        have "length xs + n - 1 = (k + n - 1) + n" using 1 k by simp
        then show ?thesis using 1 by (simp only: div_add_self2)
      qed
      ultimately show ?thesis by simp
    next
      case f: False
      with False 1 have "0 < length xs" "length xs < n" by auto
      then have "length xs + n - 1 = (length xs - 1) + n" by linarith
      then have "(length xs + n - 1) div n = 1"
        using \<open>length xs < n\<close> 1 by (simp only: div_add_self2) simp
      with f False 1 show ?thesis by (simp add: chunks_short)
    qed
  qed
qed

section \<open>The contract of a strict codec\<close>

text \<open>
  A decoder is strict when it accepts exactly the canonical encodings of the well-formed values.
  Then a value has one accepted encoding and an encoding has one value.
\<close>

locale strict_codec =
  fixes decode :: "'d \<Rightarrow> 'v option"
    and encode :: "'v \<Rightarrow> 'd"
    and well_formed :: "'v \<Rightarrow> bool"
  assumes decode_sound: "decode d = Some v \<Longrightarrow> encode v = d \<and> well_formed v"
    and decode_encode: "well_formed v \<Longrightarrow> decode (encode v) = Some v"
begin

lemma decode_iff: "decode d = Some v \<longleftrightarrow> well_formed v \<and> d = encode v"
  using decode_sound decode_encode by blast

lemma decode_inject: "decode d = Some v \<Longrightarrow> decode d' = Some v \<Longrightarrow> d = d'"
  by (simp add: decode_iff)

lemma encode_inject: "well_formed v \<Longrightarrow> well_formed w \<Longrightarrow> encode v = encode w \<Longrightarrow> v = w"
  using decode_encode by (metis option.inject)

lemma decode_None_iff: "decode d = None \<longleftrightarrow> (\<forall>v. well_formed v \<longrightarrow> encode v \<noteq> d)"
  using decode_iff by (metis not_None_eq)

end

end
