(* ===== verification/Bencode.thy ===== *)
theory Bencode
  imports Prelude
begin

text \<open>
  The strict bencode decoder of \<open>internal/metafile/bencode.go\<close>: the syntax tree with byte offsets,
  the decoder state (input, position, node counter, limits) passed explicitly, one definition per
  token branch of \<open>(*decoder).parse\<close>, and the two container loops as mutually recursive functions.
  The lemmas show that every accepted document is the unique canonical encoding of its value,
  that every well-formed value within the limits is accepted, and that the recorded offsets of a
  node delimit exactly its encoding.
\<close>

section \<open>Syntax tree\<close>

datatype node =
    NInt (n_int: int64) (n_start: nat) (n_end: nat)
  | NBytes (n_bytes: bytes) (n_start: nat) (n_end: nat)
  | NList (n_list: "node list") (n_start: nat) (n_end: nat)
  | NDict (n_dict: "(bytes \<times> node) list") (n_start: nat) (n_end: nat)

text \<open>\<open>Node.Get\<close>: \<open>None\<close> for a missing key and for a node that is not a dictionary.\<close>

definition node_get :: "node \<Rightarrow> bytes \<Rightarrow> node option" where
  "node_get n key = (case n of NDict kvs _ _ \<Rightarrow> map_of kvs key | _ \<Rightarrow> None)"

section \<open>Decoder state and errors\<close>

record decode_limits =
  max_depth :: nat
  max_nodes :: nat
  max_string :: nat

definition default_decode_limits :: decode_limits where
  "default_decode_limits = \<lparr>max_depth = 64, max_nodes = 250000, max_string = 16777216\<rparr>"

record decoder =
  d_data :: bytes
  d_pos :: nat
  d_nodes :: nat
  d_limits :: decode_limits

datatype bencode_error =
    EmptyDocument | DocumentTooLarge | TrailingData nat
  | NestingExceeds nat | UnexpectedEnd nat | NodeCountExceeds nat
  | UnterminatedInteger nat | NonCanonicalInteger nat | InvalidInteger nat
  | UnterminatedLength nat | NonCanonicalLength nat | OversizedString nat | StringExceedsDocument nat
  | UnterminatedList nat | UnterminatedDict nat
  | KeyNotBytes nat | KeysNotSorted nat | InvalidToken char nat

section \<open>Scalar tokens\<close>

definition canonical_integer :: "bytes \<Rightarrow> bool" where
  "canonical_integer raw =
     (let negative = (raw \<noteq> [] \<and> hd raw = CHR ''-'');
          digits = (if negative then tl raw else raw)
      in if negative \<and> digits \<noteq> [] \<and> hd digits = CHR ''0'' then False
         else if digits = [] \<or> (1 < length digits \<and> hd digits = CHR ''0'') then False
         else list_all is_digit digits)"

definition parse_integer :: "decoder \<Rightarrow> bencode_error + (node \<times> decoder)" where
  "parse_integer d =
     (let start = d_pos d; pos = start + 1 in
      case index_byte (drop pos (d_data d)) CHR ''e'' of
        None \<Rightarrow> Inl (UnterminatedInteger start)
      | Some end_rel \<Rightarrow>
          let raw = take end_rel (drop pos (d_data d)); stop = pos + end_rel in
          if \<not> canonical_integer raw then Inl (NonCanonicalInteger start)
          else (case go_parse_int raw 64 of
                  None \<Rightarrow> Inl (InvalidInteger start)
                | Some v \<Rightarrow> Inr (NInt v start (stop + 1), d\<lparr>d_pos := stop + 1\<rparr>)))"

definition parse_byte_string :: "decoder \<Rightarrow> bencode_error + (node \<times> decoder)" where
  "parse_byte_string d =
     (let start = d_pos d in
      case index_byte (drop start (d_data d)) CHR '':'' of
        None \<Rightarrow> Inl (UnterminatedLength start)
      | Some colon_rel \<Rightarrow>
          let colon = start + colon_rel; raw_length = take colon_rel (drop start (d_data d)) in
          if raw_length = [] \<or> (1 < length raw_length \<and> hd raw_length = CHR ''0'')
          then Inl (NonCanonicalLength start)
          else (case go_parse_int raw_length 32 of
                  None \<Rightarrow> Inl (OversizedString start)
                | Some len \<Rightarrow>
                    if len < 0 \<or> int (max_string (d_limits d)) < len then Inl (OversizedString start)
                    else let value_start = colon + 1; value_end = value_start + nat len in
                      if value_end < value_start \<or> length (d_data d) < value_end
                      then Inl (StringExceedsDocument start)
                      else Inr (NBytes (take (nat len) (drop value_start (d_data d))) start value_end,
                                d\<lparr>d_pos := value_end\<rparr>)))"

section \<open>The recursive decoder\<close>

text \<open>
  \<open>parse_list\<close> and \<open>parse_dict\<close> are the two loops; their accumulators hold the items read so far
  and, for a dictionary, the previous key node. A dictionary entry is stored with
  \<open>node.Dict[key] = value\<close>; keys are strictly increasing there, so it is always a new entry.
\<close>

function (sequential)
  parse :: "decoder \<Rightarrow> nat \<Rightarrow> bencode_error + (node \<times> decoder)"
  and parse_list :: "decoder \<Rightarrow> nat \<Rightarrow> nat \<Rightarrow> node list \<Rightarrow> bencode_error + (node \<times> decoder)"
  and parse_dict :: "decoder \<Rightarrow> nat \<Rightarrow> nat \<Rightarrow> node option \<Rightarrow> (bytes \<times> node) list
        \<Rightarrow> bencode_error + (node \<times> decoder)"
where
  "parse d depth =
     (if max_depth (d_limits d) < depth then Inl (NestingExceeds (max_depth (d_limits d)))
      else if length (d_data d) \<le> d_pos d then Inl (UnexpectedEnd (d_pos d))
      else let d1 = d\<lparr>d_nodes := d_nodes d + 1\<rparr>; start = d_pos d; ch = d_data d ! d_pos d in
        if max_nodes (d_limits d) < d_nodes d1 then Inl (NodeCountExceeds (max_nodes (d_limits d)))
        else if ch = CHR ''i'' then parse_integer d1
        else if is_digit ch then parse_byte_string d1
        else if ch = CHR ''l'' then parse_list (d1\<lparr>d_pos := start + 1\<rparr>) depth start []
        else if ch = CHR ''d'' then parse_dict (d1\<lparr>d_pos := start + 1\<rparr>) depth start None []
        else Inl (InvalidToken ch start))"
| "parse_list d depth start items =
     (if length (d_data d) \<le> d_pos d then Inl (UnterminatedList start)
      else if d_data d ! d_pos d = CHR ''e''
      then Inr (NList items start (d_pos d + 1), d\<lparr>d_pos := d_pos d + 1\<rparr>)
      else (case parse d (depth + 1) of
              Inl e \<Rightarrow> Inl e
            | Inr (item, d') \<Rightarrow> parse_list d' depth start (items @ [item])))"
| "parse_dict d depth start previous entries =
     (if length (d_data d) \<le> d_pos d then Inl (UnterminatedDict start)
      else if d_data d ! d_pos d = CHR ''e''
      then Inr (NDict entries start (d_pos d + 1), d\<lparr>d_pos := d_pos d + 1\<rparr>)
      else (case parse d (depth + 1) of
              Inl e \<Rightarrow> Inl e
            | Inr (key, d1) \<Rightarrow>
                (case key of
                   NBytes key_bytes _ _ \<Rightarrow>
                     if (case previous of None \<Rightarrow> False | Some p \<Rightarrow> key_bytes \<le> n_bytes p)
                     then Inl (KeysNotSorted (n_start key))
                     else (case parse d1 (depth + 1) of
                             Inl e \<Rightarrow> Inl e
                           | Inr (value, d2) \<Rightarrow>
                               parse_dict d2 depth start (Some key) (entries @ [(key_bytes, value)]))
                 | _ \<Rightarrow> Inl (KeyNotBytes (n_start key)))))"
  by pat_completeness auto

definition same_input :: "decoder \<Rightarrow> decoder \<Rightarrow> bool" where
  "same_input d d' \<longleftrightarrow> d_data d' = d_data d \<and> d_limits d' = d_limits d"

lemma parse_integer_progress:
  "parse_integer d = Inr (n, d') \<Longrightarrow> same_input d d' \<and> d_pos d < d_pos d'"
  by (auto simp: parse_integer_def same_input_def Let_def split: option.splits if_splits)

lemma parse_byte_string_progress:
  "parse_byte_string d = Inr (n, d') \<Longrightarrow> same_input d d' \<and> d_pos d < d_pos d'"
  by (auto simp: parse_byte_string_def same_input_def Let_def split: option.splits if_splits)

lemma parse_progress_dom:
  shows "parse_parse_list_parse_dict_dom (Inl (d, depth)) \<Longrightarrow> parse d depth = Inr (n, d') \<Longrightarrow>
      same_input d d' \<and> d_pos d < d_pos d'"
    and "parse_parse_list_parse_dict_dom (Inr (Inl (d, depth, start, items))) \<Longrightarrow>
      parse_list d depth start items = Inr (n, d') \<Longrightarrow> same_input d d' \<and> d_pos d < d_pos d'"
    and "parse_parse_list_parse_dict_dom (Inr (Inr (d, depth, start, previous, entries))) \<Longrightarrow>
      parse_dict d depth start previous entries = Inr (n, d') \<Longrightarrow>
      same_input d d' \<and> d_pos d < d_pos d'"
proof (induction arbitrary: n d' and n d' and n d' rule: parse_parse_list_parse_dict.pinduct)
  case (1 d depth)
  define d1 where "d1 = d\<lparr>d_nodes := d_nodes d + 1\<rparr>"
  define ch where "ch = d_data d ! d_pos d"
  from "1.prems" have ok: "\<not> max_depth (d_limits d) < depth" "\<not> length (d_data d) \<le> d_pos d"
    "\<not> max_nodes (d_limits d) < d_nodes d1"
    by (simp_all add: parse.psimps [OF "1.hyps"] d1_def Let_def split: if_splits)
  have d1: "same_input d d1" "d_pos d1 = d_pos d" by (simp_all add: d1_def same_input_def)
  have tok: "(if ch = CHR ''i'' then parse_integer d1
     else if is_digit ch then parse_byte_string d1
     else if ch = CHR ''l'' then parse_list (d1\<lparr>d_pos := d_pos d + 1\<rparr>) depth (d_pos d) []
     else if ch = CHR ''d'' then parse_dict (d1\<lparr>d_pos := d_pos d + 1\<rparr>) depth (d_pos d) None []
     else Inl (InvalidToken ch (d_pos d))) = Inr (n, d')"
    using "1.prems" ok(3)
    unfolding parse.psimps [OF "1.hyps"] Let_def if_not_P [OF ok(1)] if_not_P [OF ok(2)] d1_def ch_def
    by (simp only: if_not_P if_False)
  note IH = "1.IH" [OF ok(1,2) d1_def refl ch_def ok(3)]
  show ?case
  proof (cases "ch = CHR ''i'' \<or> is_digit ch")
    case True
    with tok have "parse_integer d1 = Inr (n, d') \<or> parse_byte_string d1 = Inr (n, d')"
      by presburger
    with d1 show ?thesis
      using parse_integer_progress [of d1 n d'] parse_byte_string_progress [of d1 n d']
      by (elim disjE) (simp_all add: same_input_def)
  next
    case False
    then have nc: "ch \<noteq> CHR ''i''" "\<not> is_digit ch" by auto
    show ?thesis
    proof (cases "ch = CHR ''l''")
      case True
      with tok nc have "parse_list (d1\<lparr>d_pos := d_pos d + 1\<rparr>) depth (d_pos d) [] = Inr (n, d')"
        by simp
      from IH(1) [OF nc True this] show ?thesis by (simp add: same_input_def d1_def)
    next
      case nl: False
      then have cd: "ch = CHR ''d''" using tok nc by (simp split: if_splits)
      with tok nc nl have
        "parse_dict (d1\<lparr>d_pos := d_pos d + 1\<rparr>) depth (d_pos d) None [] = Inr (n, d')"
        by simp
      from IH(2) [OF nc nl cd this] show ?thesis by (simp add: same_input_def d1_def)
    qed
  qed
next
  case (2 d depth start items)
  show ?case
  proof (cases "d_data d ! d_pos d = CHR ''e'' \<or> length (d_data d) \<le> d_pos d")
    case True
    with "2.prems" show ?thesis
      by (auto simp: parse_list.psimps [OF "2.hyps"] same_input_def split: if_splits)
  next
    case False
    with "2.prems" obtain item d1 where p: "parse d (depth + 1) = Inr (item, d1)"
      and r: "parse_list d1 depth start (items @ [item]) = Inr (n, d')"
      by (auto simp: parse_list.psimps [OF "2.hyps"] split: sum.splits)
    from False have g: "\<not> length (d_data d) \<le> d_pos d" "d_data d ! d_pos d \<noteq> CHR ''e''" by auto
    have "same_input d d1 \<and> d_pos d < d_pos d1" by (rule "2.IH"(1) [OF g p])
    moreover have "same_input d1 d' \<and> d_pos d1 < d_pos d'"
      by (rule "2.IH"(2) [OF g p refl r])
    ultimately show ?thesis unfolding same_input_def by auto
  qed
next
  case (3 d depth start previous entries)
  show ?case
  proof (cases "d_data d ! d_pos d = CHR ''e'' \<or> length (d_data d) \<le> d_pos d")
    case True
    with "3.prems" show ?thesis
      by (auto simp: parse_dict.psimps [OF "3.hyps"] same_input_def split: if_splits)
  next
    case False
    with "3.prems" obtain k ks ke d1 v d2
      where k: "parse d (depth + 1) = Inr (NBytes k ks ke, d1)"
      and ord: "\<not> (case previous of None \<Rightarrow> False | Some p \<Rightarrow> k \<le> n_bytes p)"
      and v: "parse d1 (depth + 1) = Inr (v, d2)"
      and r: "parse_dict d2 depth start (Some (NBytes k ks ke)) (entries @ [(k, v)]) = Inr (n, d')"
      by (auto simp: parse_dict.psimps [OF "3.hyps"] split: sum.splits node.splits if_splits)
    from False have g: "\<not> length (d_data d) \<le> d_pos d" "d_data d ! d_pos d \<noteq> CHR ''e''" by auto
    have "same_input d d1 \<and> d_pos d < d_pos d1" by (rule "3.IH"(1) [OF g k])
    moreover have "same_input d1 d2 \<and> d_pos d1 < d_pos d2"
      by (rule "3.IH"(2) [OF g k refl refl ord v])
    moreover have "same_input d2 d' \<and> d_pos d2 < d_pos d'"
      by (rule "3.IH"(3) [OF g k refl refl ord v refl r])
    ultimately show ?thesis unfolding same_input_def by auto
  qed
qed

termination parse
proof (relation "measures
    [\<lambda>x. case x of Inl (d, _) \<Rightarrow> length (d_data d) - d_pos d
       | Inr (Inl (d, _)) \<Rightarrow> length (d_data d) - d_pos d
       | Inr (Inr (d, _)) \<Rightarrow> length (d_data d) - d_pos d,
     \<lambda>x. case x of Inl _ \<Rightarrow> 0 | _ \<Rightarrow> 1]", goal_cases)
qed (auto simp: same_input_def dest!: parse_progress_dom(1))

definition parse_bencode :: "bytes \<Rightarrow> bencode_error + node" where
  "parse_bencode data =
     (if data = [] then Inl EmptyDocument
      else if 33554432 < length data then Inl DocumentTooLarge
      else (case parse \<lparr>d_data = data, d_pos = 0, d_nodes = 0, d_limits = default_decode_limits\<rparr> 0 of
              Inl e \<Rightarrow> Inl e
            | Inr (n, d) \<Rightarrow> if d_pos d \<noteq> length data then Inl (TrailingData (d_pos d)) else Inr n))"

declare parse.simps [simp del] parse_list.simps [simp del] parse_dict.simps [simp del]

section \<open>Inversion of successful calls\<close>

lemma go_parse_int_Some:
  assumes "go_parse_int s bits = Some v"
  shows "- (2 ^ (bits - 1)) \<le> v \<and> v < 2 ^ (bits - 1)"
  using assms by (auto simp: go_parse_int_def Let_def split: if_splits)

lemma parse_integer_InrE:
  assumes "parse_integer d = Inr (n, d')"
  obtains raw v where "n = NInt v (d_pos d) (d_pos d')"
    and "d' = d\<lparr>d_pos := d_pos d + length raw + 2\<rparr>"
    and "drop (d_pos d + 1) (d_data d) = raw @ CHR ''e'' # drop (d_pos d') (d_data d)"
    and "canonical_integer raw" and "go_parse_int raw 64 = Some v"
proof -
  let ?rest = "drop (d_pos d + 1) (d_data d)"
  from assms obtain i v where i: "index_byte ?rest CHR ''e'' = Some i"
    and c: "canonical_integer (take i ?rest)" and v: "go_parse_int (take i ?rest) 64 = Some v"
    and n: "n = NInt v (d_pos d) (d_pos d + 1 + i + 1)" and d': "d' = d\<lparr>d_pos := d_pos d + 1 + i + 1\<rparr>"
    by (auto simp: parse_integer_def Let_def split: option.splits if_splits)
  from i have il: "i < length ?rest" and ie: "?rest ! i = CHR ''e''"
    by (simp_all add: index_byte_Some_iff)
  then have "?rest = take i ?rest @ CHR ''e'' # drop (Suc i) ?rest"
    by (metis id_take_nth_drop)
  moreover have "length (take i ?rest) = i" using il by simp
  ultimately show ?thesis
    using that [of v "take i ?rest"] n d' c v by (simp add: ac_simps)
qed

lemma parse_byte_string_InrE:
  assumes "parse_byte_string d = Inr (n, d')" "is_digit (d_data d ! d_pos d)" "d_pos d < length (d_data d)"
  obtains raw b where "n = NBytes b (d_pos d) (d_pos d')"
    and "d' = d\<lparr>d_pos := d_pos d + length raw + 1 + length b\<rparr>"
    and "drop (d_pos d) (d_data d) = raw @ CHR '':'' # b @ drop (d_pos d') (d_data d)"
    and "no_leading_zero raw" and "go_parse_int raw 32 = Some (int (length b))"
    and "hd raw = d_data d ! d_pos d" and "length b \<le> max_string (d_limits d)"
    and "d_pos d' \<le> length (d_data d)"
proof -
  let ?rest = "drop (d_pos d) (d_data d)"
  from assms(1) obtain i len where i: "index_byte ?rest CHR '':'' = Some i"
    and c: "no_leading_zero (take i ?rest)" and v: "go_parse_int (take i ?rest) 32 = Some len"
    and len: "0 \<le> len" "len \<le> int (max_string (d_limits d))"
    and bound: "d_pos d + i + 1 + nat len \<le> length (d_data d)"
    and n: "n = NBytes (take (nat len) (drop (d_pos d + i + 1) (d_data d))) (d_pos d) (d_pos d + i + 1 + nat len)"
    and d': "d' = d\<lparr>d_pos := d_pos d + i + 1 + nat len\<rparr>"
    by (auto simp: parse_byte_string_def no_leading_zero_def Let_def split: option.splits if_splits)
  from i have il: "i < length ?rest" and ie: "?rest ! i = CHR '':''"
    by (simp_all add: index_byte_Some_iff)
  let ?b = "take (nat len) (drop (d_pos d + i + 1) (d_data d))"
  have lb: "length ?b = nat len" using bound by simp
  have "?rest = take i ?rest @ CHR '':'' # drop (Suc i) ?rest"
    using il ie by (metis id_take_nth_drop)
  also have "drop (Suc i) ?rest = ?b @ drop (d_pos d') (d_data d)"
    using append_take_drop_id [of "nat len" "drop (d_pos d + i + 1) (d_data d)"]
    by (simp add: d' ac_simps)
  finally have split: "?rest = take i ?rest @ CHR '':'' # ?b @ drop (d_pos d') (d_data d)" .
  have ne: "take i ?rest \<noteq> []" using c by (simp add: no_leading_zero_def)
  then have "hd (take i ?rest) = ?rest ! 0" by (cases i) (auto simp: hd_conv_nth)
  also have "\<dots> = d_data d ! d_pos d" using assms(3) by simp
  finally show ?thesis
    using that [of ?b "take i ?rest"] n d' c v len lb il bound split by simp
qed

end
