(* ===== verification/BencodeSpec.thy ===== *)
theory BencodeSpec
  imports Bencode
begin

text \<open>
  The specification of the bencode decoder: abstract values, their canonical encoding, and the
  well-formedness that the decoder enforces. The decoder accepts exactly the canonical encodings of
  well-formed values inside its limits, and the offsets it records delimit the encoding of every
  node of the tree.
\<close>

section \<open>Abstract values and their canonical encoding\<close>

datatype bvalue = BInt int | BBytes bytes | BList "bvalue list" | BDict "(bytes \<times> bvalue) list"

fun value_of :: "node \<Rightarrow> bvalue" where
  "value_of (NInt i _ _) = BInt i"
| "value_of (NBytes b _ _) = BBytes b"
| "value_of (NList ns _ _) = BList (map value_of ns)"
| "value_of (NDict kvs _ _) = BDict (map (\<lambda>(k, v). (k, value_of v)) kvs)"

definition render_int :: "int \<Rightarrow> bytes" where
  "render_int i = (if i < 0 then CHR ''-'' # decimal (nat (- i)) else decimal (nat i))"

definition encode_bytes :: "bytes \<Rightarrow> bytes" where
  "encode_bytes b = decimal (length b) @ CHR '':'' # b"

fun encode :: "bvalue \<Rightarrow> bytes" where
  "encode (BInt i) = CHR ''i'' # render_int i @ ''e''"
| "encode (BBytes b) = encode_bytes b"
| "encode (BList vs) = CHR ''l'' # concat (map encode vs) @ ''e''"
| "encode (BDict kvs) = CHR ''d'' # concat (map (\<lambda>(k, v). encode_bytes k @ encode v) kvs) @ ''e''"

fun value_ok :: "nat \<Rightarrow> bvalue \<Rightarrow> bool" where
  "value_ok m (BInt i) \<longleftrightarrow> in_int64 i"
| "value_ok m (BBytes b) \<longleftrightarrow> length b \<le> m"
| "value_ok m (BList vs) \<longleftrightarrow> (\<forall>v \<in> set vs. value_ok m v)"
| "value_ok m (BDict kvs) \<longleftrightarrow> sorted_wrt (<) (map fst kvs) \<and>
     (\<forall>(k, v) \<in> set kvs. length k \<le> m \<and> value_ok m v)"

text \<open>The nesting below a value and the number of \<open>parse\<close> calls it costs.\<close>

fun vdepth :: "bvalue \<Rightarrow> nat" where
  "vdepth (BInt _) = 0"
| "vdepth (BBytes _) = 0"
| "vdepth (BList vs) = foldr (\<lambda>v m. max (Suc (vdepth v)) m) vs 0"
| "vdepth (BDict kvs) = foldr (\<lambda>(k, v) m. max (Suc (vdepth v)) m) kvs 0"

fun node_count :: "bvalue \<Rightarrow> nat" where
  "node_count (BInt _) = 1"
| "node_count (BBytes _) = 1"
| "node_count (BList vs) = 1 + sum_list (map node_count vs)"
| "node_count (BDict kvs) = 1 + sum_list (map (\<lambda>(k, v). 1 + node_count v) kvs)"

abbreviation list_depth :: "bvalue list \<Rightarrow> nat" where
  "list_depth vs \<equiv> foldr (\<lambda>v m. max (Suc (vdepth v)) m) vs 0"

abbreviation dict_depth :: "(bytes \<times> bvalue) list \<Rightarrow> nat" where
  "dict_depth kvs \<equiv> foldr (\<lambda>(k, v) m. max (Suc (vdepth v)) m) kvs 0"

abbreviation encode_entries :: "(bytes \<times> bvalue) list \<Rightarrow> bytes" where
  "encode_entries kvs \<equiv> concat (map (\<lambda>(k, v). encode_bytes k @ encode v) kvs)"

section \<open>Byte segments\<close>

definition segment :: "bytes \<Rightarrow> nat \<Rightarrow> nat \<Rightarrow> bytes" where
  "segment data a b = take (b - a) (drop a data)"

lemma segment_append: "a \<le> b \<Longrightarrow> b \<le> c \<Longrightarrow> segment data a b @ segment data b c = segment data a c"
proof -
  assume "a \<le> b" "b \<le> c"
  then obtain i j where "b = a + i" "c = a + i + j" by (metis le_add_diff_inverse)
  then show ?thesis by (simp add: segment_def take_add add.commute)
qed

lemma segment_Cons:
  "a < length data \<Longrightarrow> a < b \<Longrightarrow> segment data a b = data ! a # segment data (Suc a) b"
  by (simp add: segment_def Cons_nth_drop_Suc [symmetric] take_Cons' Suc_diff_Suc)

lemma segment_single: "a < length data \<Longrightarrow> segment data a (Suc a) = [data ! a]"
  by (simp add: segment_def Cons_nth_drop_Suc [symmetric])

lemma segment_eqI:
  "drop a data = xs @ drop b data \<Longrightarrow> b = a + length xs \<Longrightarrow> segment data a b = xs"
  by (simp add: segment_def)

lemma segment_full: "segment data 0 (length data) = data"
  by (simp add: segment_def)

lemma drop_segment: "a \<le> b \<Longrightarrow> drop a data = segment data a b @ drop b data"
  unfolding segment_def by (metis append_take_drop_id drop_drop le_add_diff_inverse add.commute)

section \<open>Numbers\<close>

lemma canonical_integer_render: "canonical_integer (render_int i)"
proof -
  note dig = decimal_digits decimal_no_leading_zero
  have nz: "hd (decimal n) \<noteq> CHR ''0''" if "0 < n" for n
  proof
    assume z: "hd (decimal n) = CHR ''0''"
    with decimal_no_leading_zero [of n] have "length (decimal n) = 1"
      unfolding no_leading_zero_def by (metis One_nat_def Suc_lessI length_greater_0_conv)
    with z have "decimal n = [CHR ''0'']" by (cases "decimal n") auto
    then have "n = decimal_value [CHR ''0'']" by (metis decimal_value_decimal)
    with that show False by (simp add: decimal_value_def digit_val_def byte_val_def)
  qed
  have nd: "hd (decimal n) \<noteq> CHR ''-''" for n
    using decimal_digits [of n] decimal_nonempty [of n]
    by (cases "decimal n") (auto simp: is_digit_byte_val byte_val_def)
  show ?thesis
    using dig [of "nat i"] dig [of "nat (- i)"] nz [of "nat (- i)"] nd [of "nat i"]
    by (auto simp: canonical_integer_def render_int_def no_leading_zero_def Let_def)
qed

lemma go_parse_digits:
  assumes "list_all is_digit ds" "ds \<noteq> []"
  shows "go_parse_int ds bits =
    (if int (decimal_value ds) < 2 ^ (bits - 1) then Some (int (decimal_value ds)) else None)"
proof -
  have "is_digit (hd ds)" using assms by (cases ds) auto
  then have "hd ds \<noteq> CHR ''-''" "hd ds \<noteq> CHR ''+''"
    by (auto simp: is_digit_byte_val byte_val_def)
  moreover have "- (2 ^ (bits - 1)) \<le> int (decimal_value ds)"
    by (rule order_trans [of _ 0]) simp_all
  ultimately show ?thesis using assms by (simp add: go_parse_int_def Let_def)
qed

lemma go_parse_render: "in_int64 i \<Longrightarrow> go_parse_int (render_int i) 64 = Some i"
proof (cases "i < 0")
  case True
  assume "in_int64 i"
  with True show ?thesis
    using decimal_digits [of "nat (- i)"]
    by (simp add: render_int_def go_parse_int_def in_int64_def max_int64_def Let_def)
next
  case False
  assume "in_int64 i"
  with False show ?thesis
    by (simp add: render_int_def go_parse_digits decimal_digits in_int64_def max_int64_def)
qed

lemma render_canonical:
  assumes "canonical_integer raw" "go_parse_int raw 64 = Some v"
  shows "raw = render_int v \<and> in_int64 v"
proof (cases "raw \<noteq> [] \<and> hd raw = CHR ''-''")
  case True
  then obtain ds where raw: "raw = CHR ''-'' # ds" by (cases raw) auto
  with assms have ds: "list_all is_digit ds" "ds \<noteq> []" "hd ds \<noteq> CHR ''0''"
    by (auto simp: canonical_integer_def Let_def split: if_splits)
  from ds raw assms(2) have v: "v = - int (decimal_value ds)" "- (2 ^ 63) \<le> v"
    by (auto simp: go_parse_int_def Let_def split: if_splits)
  have "0 < decimal_value ds" using ds by (simp add: decimal_value_pos)
  moreover have "decimal (decimal_value ds) = ds"
    using ds by (simp add: decimal_canonical no_leading_zero_def)
  ultimately show ?thesis using v raw by (simp add: render_int_def in_int64_def max_int64_def)
next
  case False
  with assms(1) have ds: "list_all is_digit raw" "no_leading_zero raw"
    by (auto simp: canonical_integer_def no_leading_zero_def Let_def split: if_splits)
  with assms(2) have "v = int (decimal_value raw)" "v < 2 ^ 63"
    by (auto simp: go_parse_digits no_leading_zero_def split: if_splits)
  with ds show ?thesis by (simp add: render_int_def decimal_canonical in_int64_def max_int64_def)
qed

lemma length_canonical:
  assumes "no_leading_zero raw" "is_digit (hd raw)" "go_parse_int raw 32 = Some (int n)"
  shows "raw = decimal n"
proof -
  have ne: "raw \<noteq> []" using assms(1) by (simp add: no_leading_zero_def)
  with assms(2) have "hd raw \<noteq> CHR ''-''" "hd raw \<noteq> CHR ''+''"
    by (auto simp: is_digit_byte_val byte_val_def)
  with assms(3) ne have ds: "list_all is_digit raw" and v: "decimal_value raw = n"
    by (auto simp: go_parse_int_def Let_def split: if_splits)
  from decimal_canonical [OF ds assms(1)] v show ?thesis by simp
qed

section \<open>Soundness: an accepted document is a canonical encoding\<close>

text \<open>Every node of a tree carries the offsets of its own encoding.\<close>

fun spans_ok :: "bytes \<Rightarrow> node \<Rightarrow> bool" where
  "spans_ok data (NInt i s e) \<longleftrightarrow> segment data s e = encode (BInt i)"
| "spans_ok data (NBytes b s e) \<longleftrightarrow> segment data s e = encode (BBytes b)"
| "spans_ok data (NList ns s e) \<longleftrightarrow>
     segment data s e = encode (value_of (NList ns s e)) \<and> (\<forall>n \<in> set ns. spans_ok data n)"
| "spans_ok data (NDict kvs s e) \<longleftrightarrow>
     segment data s e = encode (value_of (NDict kvs s e)) \<and> (\<forall>(k, n) \<in> set kvs. spans_ok data n)"

lemma spans_ok_segment: "spans_ok data n \<Longrightarrow> segment data (n_start n) (n_end n) = encode (value_of n)"
  by (cases n) auto

lemma spans_ok_get: "spans_ok data n \<Longrightarrow> node_get n k = Some m \<Longrightarrow> spans_ok data m"
  by (cases n) (auto simp: node_get_def dest: map_of_SomeD)

text \<open>What a successful \<open>parse\<close> call establishes about the node and the decoder it returns.\<close>

definition parsed :: "decoder \<Rightarrow> nat \<Rightarrow> node \<Rightarrow> decoder \<Rightarrow> bool" where
  "parsed d depth n d' \<longleftrightarrow>
     d_data d' = d_data d \<and> d_limits d' = d_limits d \<and> d_pos d < d_pos d' \<and> d_pos d' \<le> length (d_data d) \<and>
     n_start n = d_pos d \<and> n_end n = d_pos d' \<and> spans_ok (d_data d) n \<and>
     value_ok (max_string (d_limits d)) (value_of n) \<and>
     depth + vdepth (value_of n) \<le> max_depth (d_limits d) \<and>
     d_nodes d' = d_nodes d + node_count (value_of n) \<and> d_nodes d' \<le> max_nodes (d_limits d)"

lemma parse_integer_parsed:
  assumes "parse_integer d = Inr (n, d')" "d_pos d < length (d_data d)" "d_data d ! d_pos d = CHR ''i''"
  shows "segment (d_data d) (d_pos d) (d_pos d') = encode (value_of n) \<and> spans_ok (d_data d) n \<and>
    (\<exists>v. n = NInt v (d_pos d) (d_pos d') \<and> in_int64 v) \<and> d_pos d' \<le> length (d_data d) \<and>
    d_pos d < d_pos d' \<and>
    d_data d' = d_data d \<and> d_limits d' = d_limits d \<and> d_nodes d' = d_nodes d"
proof -
  from assms(1) obtain raw v where n: "n = NInt v (d_pos d) (d_pos d')"
    and d': "d' = d\<lparr>d_pos := d_pos d + length raw + 2\<rparr>"
    and dr: "drop (d_pos d + 1) (d_data d) = raw @ CHR ''e'' # drop (d_pos d') (d_data d)"
    and c: "canonical_integer raw" "go_parse_int raw 64 = Some v"
    by (rule parse_integer_InrE)
  from render_canonical [OF c] have raw: "raw = render_int v" and v: "in_int64 v" by simp_all
  have "drop (d_pos d) (d_data d) = (CHR ''i'' # raw @ ''e'') @ drop (d_pos d') (d_data d)"
    using dr assms(2,3) by (simp add: Cons_nth_drop_Suc [symmetric])
  then have seg: "segment (d_data d) (d_pos d) (d_pos d') = CHR ''i'' # raw @ ''e''"
    by (rule segment_eqI) (simp add: d')
  have "length (drop (d_pos d + 1) (d_data d)) = length (raw @ CHR ''e'' # drop (d_pos d') (d_data d))"
    by (simp only: dr)
  then have "d_pos d' \<le> length (d_data d)" using d' by simp
  with seg n v raw d' show ?thesis by auto
qed

lemma parse_byte_string_parsed:
  assumes "parse_byte_string d = Inr (n, d')" "d_pos d < length (d_data d)" "is_digit (d_data d ! d_pos d)"
  shows "segment (d_data d) (d_pos d) (d_pos d') = encode (value_of n) \<and> spans_ok (d_data d) n \<and>
    (\<exists>b. n = NBytes b (d_pos d) (d_pos d') \<and> length b \<le> max_string (d_limits d)) \<and>
    d_pos d' \<le> length (d_data d) \<and> d_pos d < d_pos d' \<and>
    d_data d' = d_data d \<and> d_limits d' = d_limits d \<and> d_nodes d' = d_nodes d"
proof -
  from assms(1,3,2) obtain raw b where n: "n = NBytes b (d_pos d) (d_pos d')"
    and d': "d' = d\<lparr>d_pos := d_pos d + length raw + 1 + length b\<rparr>"
    and dr: "drop (d_pos d) (d_data d) = raw @ CHR '':'' # b @ drop (d_pos d') (d_data d)"
    and c: "no_leading_zero raw" "go_parse_int raw 32 = Some (int (length b))"
    and h: "hd raw = d_data d ! d_pos d" and l: "length b \<le> max_string (d_limits d)"
    and e: "d_pos d' \<le> length (d_data d)"
    by (rule parse_byte_string_InrE)
  have raw: "raw = decimal (length b)"
    using c h assms(3) by (simp add: length_canonical)
  have "drop (d_pos d) (d_data d) = encode_bytes b @ drop (d_pos d') (d_data d)"
    using dr raw by (simp add: encode_bytes_def)
  then have "segment (d_data d) (d_pos d) (d_pos d') = encode_bytes b"
    by (rule segment_eqI) (simp add: d' raw encode_bytes_def)
  with n l e d' show ?thesis by auto
qed

text \<open>The corresponding facts for the two loops, about the items still to be read.\<close>

definition parsed_list :: "decoder \<Rightarrow> nat \<Rightarrow> node list \<Rightarrow> decoder \<Rightarrow> bool" where
  "parsed_list d depth rest d' \<longleftrightarrow>
     d_data d' = d_data d \<and> d_limits d' = d_limits d \<and> d_pos d < d_pos d' \<and> d_pos d' \<le> length (d_data d) \<and>
     segment (d_data d) (d_pos d) (d_pos d') = concat (map (encode \<circ> value_of) rest) @ ''e'' \<and>
     (\<forall>m \<in> set rest. spans_ok (d_data d) m \<and> value_ok (max_string (d_limits d)) (value_of m)) \<and>
     depth + list_depth (map value_of rest) \<le> max_depth (d_limits d) \<and>
     d_nodes d' = d_nodes d + sum_list (map (node_count \<circ> value_of) rest) \<and>
     d_nodes d' \<le> max_nodes (d_limits d)"

definition parsed_dict :: "decoder \<Rightarrow> nat \<Rightarrow> node option \<Rightarrow> (bytes \<times> node) list \<Rightarrow> decoder \<Rightarrow> bool" where
  "parsed_dict d depth previous rest d' \<longleftrightarrow>
     d_data d' = d_data d \<and> d_limits d' = d_limits d \<and> d_pos d < d_pos d' \<and> d_pos d' \<le> length (d_data d) \<and>
     segment (d_data d) (d_pos d) (d_pos d') = encode_entries (map (\<lambda>(k, m). (k, value_of m)) rest) @ ''e'' \<and>
     (\<forall>(k, m) \<in> set rest. length k \<le> max_string (d_limits d) \<and> spans_ok (d_data d) m \<and>
        value_ok (max_string (d_limits d)) (value_of m)) \<and>
     sorted_wrt (<) ((case previous of None \<Rightarrow> [] | Some p \<Rightarrow> [n_bytes p]) @ map fst rest) \<and>
     depth + dict_depth (map (\<lambda>(k, m). (k, value_of m)) rest) \<le> max_depth (d_limits d) \<and>
     d_nodes d' = d_nodes d + sum_list (map (\<lambda>(k, m). 1 + node_count (value_of m)) rest) \<and>
     d_nodes d' \<le> max_nodes (d_limits d)"

lemma parsed_list_Nil:
  assumes "d_pos d < length (d_data d)" "d_data d ! d_pos d = CHR ''e''"
    "depth \<le> max_depth (d_limits d)" "d_nodes d \<le> max_nodes (d_limits d)"
  shows "parsed_list d depth [] (d\<lparr>d_pos := d_pos d + 1\<rparr>)"
  using assms by (simp add: parsed_list_def segment_single)

lemma parsed_list_Cons:
  assumes "parsed d (depth + 1) m d1" "parsed_list d1 depth rest d'"
  shows "parsed_list d depth (m # rest) d'"
proof -
  from assms have "segment (d_data d) (d_pos d) (d_pos d') = encode (value_of m) @
      concat (map (encode \<circ> value_of) rest) @ ''e''"
    using segment_append [of "d_pos d" "d_pos d1" "d_pos d'" "d_data d"]
      spans_ok_segment [of "d_data d" m]
    by (simp add: parsed_def parsed_list_def)
  with assms show ?thesis
    by (simp add: parsed_def parsed_list_def nat_add_max_right)
qed

lemma parsed_dict_Nil:
  assumes "d_pos d < length (d_data d)" "d_data d ! d_pos d = CHR ''e''"
    "depth \<le> max_depth (d_limits d)" "d_nodes d \<le> max_nodes (d_limits d)"
  shows "parsed_dict d depth previous [] (d\<lparr>d_pos := d_pos d + 1\<rparr>)"
  using assms by (simp add: parsed_dict_def segment_single split: option.split)

lemma parsed_dict_Cons:
  assumes "parsed d (depth + 1) (NBytes k s e) d1" "parsed d1 (depth + 1) v d2"
    and "parsed_dict d2 depth (Some (NBytes k s e)) rest d'"
    and "\<not> (case previous of None \<Rightarrow> False | Some p \<Rightarrow> k \<le> n_bytes p)"
  shows "parsed_dict d depth previous ((k, v) # rest) d'"
proof -
  have le: "d_pos d \<le> d_pos d1" "d_pos d1 \<le> d_pos d2" "d_pos d2 \<le> d_pos d'"
    using assms(1-3) by (simp_all add: parsed_def parsed_dict_def)
  have "segment (d_data d) (d_pos d) (d_pos d') = segment (d_data d) (d_pos d) (d_pos d1) @
      segment (d_data d) (d_pos d1) (d_pos d2) @ segment (d_data d) (d_pos d2) (d_pos d')"
    using segment_append [OF le(2,3)] segment_append [OF le(1) order_trans [OF le(2,3)]] by simp
  moreover have "segment (d_data d) (d_pos d) (d_pos d1) = encode_bytes k"
    and "segment (d_data d) (d_pos d1) (d_pos d2) = encode (value_of v)"
    using assms(1,2) spans_ok_segment [of "d_data d" v] by (auto simp: parsed_def)
  ultimately have "segment (d_data d) (d_pos d) (d_pos d') = (encode_bytes k @ encode (value_of v)) @
      encode_entries (map (\<lambda>(k, m). (k, value_of m)) rest) @ ''e''"
    using assms(1-3) by (simp add: parsed_def parsed_dict_def)
  moreover have "sorted_wrt (<) ((case previous of None \<Rightarrow> [] | Some p \<Rightarrow> [n_bytes p]) @ k # map fst rest)"
    using assms(3,4) by (fastforce simp: parsed_dict_def split: option.splits)
  ultimately show ?thesis
    using assms(1-3) by (simp add: parsed_def parsed_dict_def nat_add_max_right)
qed

text \<open>One recursive call, with the container cases reduced to the loops.\<close>

lemma parse_cases:
  assumes "parse d depth = Inr (n, d')"
  obtains (int) "parse_integer (d\<lparr>d_nodes := d_nodes d + 1\<rparr>) = Inr (n, d')" "d_data d ! d_pos d = CHR ''i''"
    | (str) "parse_byte_string (d\<lparr>d_nodes := d_nodes d + 1\<rparr>) = Inr (n, d')" "is_digit (d_data d ! d_pos d)"
    | (list) "parse_list (d\<lparr>d_nodes := d_nodes d + 1, d_pos := d_pos d + 1\<rparr>) depth (d_pos d) [] = Inr (n, d')"
        "d_data d ! d_pos d = CHR ''l''"
    | (dict) "parse_dict (d\<lparr>d_nodes := d_nodes d + 1, d_pos := d_pos d + 1\<rparr>) depth (d_pos d) None [] = Inr (n, d')"
        "d_data d ! d_pos d = CHR ''d''"
  using assms by (simp add: parse.simps Let_def split: if_splits)

lemma parse_bounds:
  assumes "parse d depth = Inr r"
  shows "depth \<le> max_depth (d_limits d) \<and> d_pos d < length (d_data d) \<and> d_nodes d + 1 \<le> max_nodes (d_limits d)"
  using assms by (simp add: parse.simps Let_def split: if_splits)

lemma parsed_of_list:
  assumes "parsed_list (d\<lparr>d_nodes := d_nodes d + 1, d_pos := d_pos d + 1\<rparr>) depth rest d'"
    and "d_pos d < length (d_data d)" "d_data d ! d_pos d = CHR ''l''"
  shows "parsed d depth (NList rest (d_pos d) (d_pos d')) d'"
  using assms segment_Cons [of "d_pos d" "d_data d" "d_pos d'"]
  by (simp add: parsed_def parsed_list_def comp_def)

lemma parsed_of_dict:
  assumes "parsed_dict (d\<lparr>d_nodes := d_nodes d + 1, d_pos := d_pos d + 1\<rparr>) depth None rest d'"
    and "d_pos d < length (d_data d)" "d_data d ! d_pos d = CHR ''d''"
  shows "parsed d depth (NDict rest (d_pos d) (d_pos d')) d'"
  using assms segment_Cons [of "d_pos d" "d_data d" "d_pos d'"]
  by (auto simp: parsed_def parsed_dict_def comp_def split_def)

lemma parse_sound:
  shows parse_sound_node: "parse d depth = Inr (n, d') \<Longrightarrow> parsed d depth n d'"
    and "parse_list d depth start items = Inr (n, d') \<Longrightarrow> depth \<le> max_depth (d_limits d) \<Longrightarrow>
      d_nodes d \<le> max_nodes (d_limits d) \<Longrightarrow>
      \<exists>rest. n = NList (items @ rest) start (d_pos d') \<and> parsed_list d depth rest d'"
    and "parse_dict d depth start previous entries = Inr (n, d') \<Longrightarrow> depth \<le> max_depth (d_limits d) \<Longrightarrow>
      d_nodes d \<le> max_nodes (d_limits d) \<Longrightarrow>
      \<exists>rest. n = NDict (entries @ rest) start (d_pos d') \<and> parsed_dict d depth previous rest d'"
proof (induction d depth and d depth start items and d depth start previous entries
    arbitrary: n d' and n d' and n d' rule: parse_parse_list_parse_dict.induct)
  case (1 d depth)
  from parse_bounds [OF "1.prems"] have b: "depth \<le> max_depth (d_limits d)"
    "d_pos d < length (d_data d)" "d_nodes d + 1 \<le> max_nodes (d_limits d)" by simp_all
  have g: "\<not> max_depth (d_limits d) < depth" "\<not> length (d_data d) \<le> d_pos d"
    "\<not> max_nodes (d_limits d) < d_nodes (d\<lparr>d_nodes := d_nodes d + 1\<rparr>)" using b by auto
  note IH = "1.IH" [OF g(1,2) refl refl refl g(3)]
  from "1.prems" show ?case
  proof (cases rule: parse_cases)
    case int
    from parse_integer_parsed [OF this(1)] int b show ?thesis by (auto simp: parsed_def)
  next
    case str
    from parse_byte_string_parsed [OF this(1)] str b show ?thesis by (auto simp: parsed_def)
  next
    case list
    have "\<exists>rest. n = NList ([] @ rest) (d_pos d) (d_pos d') \<and>
      parsed_list (d\<lparr>d_nodes := d_nodes d + 1, d_pos := d_pos d + 1\<rparr>) depth rest d'"
      by (rule IH(1)) (use list b in \<open>simp_all add: is_digit_byte_val byte_val_def\<close>)
    then show ?thesis using parsed_of_list list b by auto
  next
    case dict
    have "\<exists>rest. n = NDict ([] @ rest) (d_pos d) (d_pos d') \<and>
      parsed_dict (d\<lparr>d_nodes := d_nodes d + 1, d_pos := d_pos d + 1\<rparr>) depth None rest d'"
      by (rule IH(2)) (use dict b in \<open>simp_all add: is_digit_byte_val byte_val_def\<close>)
    then show ?thesis using parsed_of_dict dict b by auto
  qed
next
  case (2 d depth start items)
  show ?case
  proof (cases "d_data d ! d_pos d = CHR ''e'' \<or> length (d_data d) \<le> d_pos d")
    case True
    with "2.prems" have "n = NList items start (d_pos d + 1)" "d' = d\<lparr>d_pos := d_pos d + 1\<rparr>"
      "d_pos d < length (d_data d)" "d_data d ! d_pos d = CHR ''e''"
      by (auto simp: parse_list.simps split: if_splits)
    with parsed_list_Nil "2.prems"(2,3) show ?thesis by auto
  next
    case False
    with "2.prems" obtain item d1 where p: "parse d (depth + 1) = Inr (item, d1)"
      and r: "parse_list d1 depth start (items @ [item]) = Inr (n, d')"
      by (auto simp: parse_list.simps [of d] split: sum.splits)
    from False have g: "\<not> length (d_data d) \<le> d_pos d" "d_data d ! d_pos d \<noteq> CHR ''e''" by auto
    have 1: "parsed d (depth + 1) item d1" by (rule "2.IH"(1) [OF g p])
    then have "depth \<le> max_depth (d_limits d1)" "d_nodes d1 \<le> max_nodes (d_limits d1)"
      by (simp_all add: parsed_def)
    from "2.IH"(2) [OF g p refl r this] parsed_list_Cons [OF 1] show ?thesis by auto
  qed
next
  case (3 d depth start previous entries)
  show ?case
  proof (cases "d_data d ! d_pos d = CHR ''e'' \<or> length (d_data d) \<le> d_pos d")
    case True
    with "3.prems" have "n = NDict entries start (d_pos d + 1)" "d' = d\<lparr>d_pos := d_pos d + 1\<rparr>"
      "d_pos d < length (d_data d)" "d_data d ! d_pos d = CHR ''e''"
      by (auto simp: parse_dict.simps split: if_splits)
    with parsed_dict_Nil "3.prems"(2,3) show ?thesis by auto
  next
    case False
    with "3.prems" obtain k ks ke d1 v d2
      where k: "parse d (depth + 1) = Inr (NBytes k ks ke, d1)"
      and ord: "\<not> (case previous of None \<Rightarrow> False | Some p \<Rightarrow> k \<le> n_bytes p)"
      and v: "parse d1 (depth + 1) = Inr (v, d2)"
      and r: "parse_dict d2 depth start (Some (NBytes k ks ke)) (entries @ [(k, v)]) = Inr (n, d')"
      by (auto simp: parse_dict.simps [of d] split: sum.splits node.splits if_splits)
    from False have g: "\<not> length (d_data d) \<le> d_pos d" "d_data d ! d_pos d \<noteq> CHR ''e''" by auto
    have 1: "parsed d (depth + 1) (NBytes k ks ke) d1" by (rule "3.IH"(1) [OF g k])
    have 2: "parsed d1 (depth + 1) v d2" by (rule "3.IH"(2) [OF g k refl refl ord v])
    then have "depth \<le> max_depth (d_limits d2)" "d_nodes d2 \<le> max_nodes (d_limits d2)"
      by (simp_all add: parsed_def)
    from "3.IH"(3) [OF g k refl refl ord v refl r this] parsed_dict_Cons [OF 1 2 _ ord]
    show ?thesis by auto
  qed
qed

section \<open>Completeness: every canonical encoding within the limits is accepted\<close>

lemma nth_of_drop: "drop p xs = y # ys \<Longrightarrow> p < length xs \<and> xs ! p = y \<and> drop (Suc p) xs = ys"
  by (metis Cons_nth_drop_Suc drop_all list.distinct(1) list.inject linorder_not_less)

lemma render_int_no_e: "CHR ''e'' \<notin> set (render_int i)"
proof -
  have "CHR ''e'' \<notin> set (decimal n)" for n
    using decimal_digits [of n] by (auto simp: list_all_iff is_digit_byte_val byte_val_def)
  then show ?thesis by (simp add: render_int_def)
qed

lemma parse_integer_complete:
  assumes "drop (d_pos d) (d_data d) = encode (BInt i) @ rest" "in_int64 i"
  shows "parse_integer d = Inr (NInt i (d_pos d) (d_pos d + length (encode (BInt i))),
    d\<lparr>d_pos := d_pos d + length (encode (BInt i))\<rparr>)"
proof -
  have "drop (d_pos d + 1) (d_data d) = render_int i @ CHR ''e'' # rest"
    using nth_of_drop [of "d_pos d" "d_data d"] assms(1) by simp
  then show ?thesis
    using assms(2)
    by (simp add: parse_integer_def Let_def index_byte_append_here render_int_no_e
        canonical_integer_render go_parse_render)
qed

lemma parse_byte_string_complete:
  assumes "drop (d_pos d) (d_data d) = encode_bytes b @ rest"
    and "length b \<le> max_string (d_limits d)" "length b < 2 ^ 31"
  shows "parse_byte_string d = Inr (NBytes b (d_pos d) (d_pos d + length (encode_bytes b)),
    d\<lparr>d_pos := d_pos d + length (encode_bytes b)\<rparr>)"
proof -
  let ?l = "decimal (length b)"
  have "CHR '':'' \<notin> set ?l"
    using decimal_digits [of "length b"] by (auto simp: list_all_iff is_digit_byte_val byte_val_def)
  then have ix: "index_byte (drop (d_pos d) (d_data d)) CHR '':'' = Some (length ?l)"
    using assms(1) by (simp add: encode_bytes_def index_byte_append_here)
  have tk: "take (length ?l) (drop (d_pos d) (d_data d)) = ?l"
    using assms(1) by (simp add: encode_bytes_def)
  have "drop (d_pos d + length ?l + 1) (d_data d) = drop (length ?l + 1) (drop (d_pos d) (d_data d))"
    by (simp add: add.commute add.left_commute)
  also have "\<dots> = b @ rest" using assms(1) by (simp add: encode_bytes_def)
  finally have dr: "drop (Suc (d_pos d + length ?l)) (d_data d) = b @ rest" by simp
  have "length (d_data d) - d_pos d = length (encode_bytes b @ rest)"
    using assms(1) by (metis length_drop)
  then have ln: "d_pos d + length (encode_bytes b) \<le> length (d_data d)"
    by (simp add: encode_bytes_def)
  have gp: "go_parse_int ?l 32 = Some (int (length b))"
    using assms(3) by (simp add: go_parse_digits decimal_digits)
  show ?thesis
    using decimal_no_leading_zero [of "length b"] assms(2) ln
    by (simp add: parse_byte_string_def Let_def ix tk gp dr no_leading_zero_def)
      (simp add: encode_bytes_def)
qed

text \<open>What has to be shown of a value for the loops to run through it.\<close>

definition accepts :: "bvalue \<Rightarrow> bool" where
  "accepts v \<longleftrightarrow> (\<forall>d depth rest. drop (d_pos d) (d_data d) = encode v @ rest \<longrightarrow>
     value_ok (max_string (d_limits d)) v \<longrightarrow> max_string (d_limits d) < 2 ^ 31 \<longrightarrow>
     depth + vdepth v \<le> max_depth (d_limits d) \<longrightarrow>
     d_nodes d + node_count v \<le> max_nodes (d_limits d) \<longrightarrow>
     (\<exists>n. parse d depth = Inr (n, d\<lparr>d_pos := d_pos d + length (encode v),
        d_nodes := d_nodes d + node_count v\<rparr>) \<and> value_of n = v))"

lemma acceptsD:
  assumes "accepts v" "drop (d_pos d) (d_data d) = encode v @ rest"
    "value_ok (max_string (d_limits d)) v" "max_string (d_limits d) < 2 ^ 31"
    "depth + vdepth v \<le> max_depth (d_limits d)" "d_nodes d + node_count v \<le> max_nodes (d_limits d)"
  obtains n where "parse d depth = Inr (n, d\<lparr>d_pos := d_pos d + length (encode v),
        d_nodes := d_nodes d + node_count v\<rparr>)" "value_of n = v"
  using assms unfolding accepts_def by blast

lemma encode_head: "encode v = c # cs \<Longrightarrow> c \<noteq> CHR ''e''"
proof (cases v)
  case (BBytes b)
  assume "encode v = c # cs"
  with BBytes show ?thesis
    using decimal_digits [of "length b"] decimal_nonempty [of "length b"]
    by (cases "decimal (length b)") (auto simp: encode_bytes_def is_digit_byte_val byte_val_def)
qed auto

lemma encode_nonempty [simp]: "encode v \<noteq> []"
  by (cases v) (simp_all add: encode_bytes_def)

lemma drop_shift: "drop p xs = ys @ zs \<Longrightarrow> drop (p + length ys) xs = zs"
  by (metis append_eq_conv_conj drop_drop add.commute)

lemma head_not_e:
  assumes "drop p xs = encode v @ rest"
  shows "p < length xs" "xs ! p \<noteq> CHR ''e''"
proof -
  obtain c cs where c: "encode v = c # cs" by (meson encode_nonempty list.exhaust)
  with assms have "p < length xs \<and> xs ! p = c" using nth_of_drop [of p xs c] by simp
  with encode_head [OF c] show "p < length xs" "xs ! p \<noteq> CHR ''e''" by simp_all
qed

lemma parse_list_complete:
  assumes "\<forall>v \<in> set vs. accepts v \<and> value_ok (max_string (d_limits d)) v"
    and "drop (d_pos d) (d_data d) = concat (map encode vs) @ CHR ''e'' # rest"
    and "max_string (d_limits d) < 2 ^ 31" "depth + list_depth vs \<le> max_depth (d_limits d)"
    and "d_nodes d + sum_list (map node_count vs) \<le> max_nodes (d_limits d)"
  shows "\<exists>ns. parse_list d depth start items =
      Inr (NList (items @ ns) start (d_pos d + length (concat (map encode vs)) + 1),
        d\<lparr>d_pos := d_pos d + length (concat (map encode vs)) + 1,
          d_nodes := d_nodes d + sum_list (map node_count vs)\<rparr>) \<and> map value_of ns = vs"
  using assms
proof (induction vs arbitrary: d items)
  case Nil
  then show ?case
    using nth_of_drop [of "d_pos d" "d_data d" "CHR ''e''" rest] by (simp add: parse_list.simps)
next
  case (Cons v vs)
  from Cons.prems(2) have dr: "drop (d_pos d) (d_data d) =
      encode v @ (concat (map encode vs) @ CHR ''e'' # rest)" by simp
  let ?d1 = "d\<lparr>d_pos := d_pos d + length (encode v), d_nodes := d_nodes d + node_count v\<rparr>"
  have "accepts v" "value_ok (max_string (d_limits d)) v" using Cons.prems(1) by simp_all
  moreover have "depth + 1 + vdepth v \<le> max_depth (d_limits d)"
    "d_nodes d + node_count v \<le> max_nodes (d_limits d)" using Cons.prems(4,5) by simp_all
  ultimately obtain n where n: "parse d (depth + 1) = Inr (n, ?d1)" "value_of n = v"
    using acceptsD [OF _ dr] Cons.prems(3) by metis
  from drop_shift [OF dr] Cons.prems
  have "\<exists>ns. parse_list ?d1 depth start (items @ [n]) =
      Inr (NList ((items @ [n]) @ ns) start (d_pos ?d1 + length (concat (map encode vs)) + 1),
        ?d1\<lparr>d_pos := d_pos ?d1 + length (concat (map encode vs)) + 1,
          d_nodes := d_nodes ?d1 + sum_list (map node_count vs)\<rparr>) \<and> map value_of ns = vs"
    by (intro Cons.IH) simp_all
  then obtain ns where ns: "parse_list ?d1 depth start (items @ [n]) =
      Inr (NList ((items @ [n]) @ ns) start (d_pos ?d1 + length (concat (map encode vs)) + 1),
        ?d1\<lparr>d_pos := d_pos ?d1 + length (concat (map encode vs)) + 1,
          d_nodes := d_nodes ?d1 + sum_list (map node_count vs)\<rparr>)" "map value_of ns = vs" by blast
  with n head_not_e [OF dr] have "parse_list d depth start items =
      Inr (NList (items @ n # ns) start (d_pos d + length (concat (map encode (v # vs))) + 1),
        d\<lparr>d_pos := d_pos d + length (concat (map encode (v # vs))) + 1,
          d_nodes := d_nodes d + sum_list (map node_count (v # vs))\<rparr>)"
    by (simp add: parse_list.simps [of d] ac_simps)
  with n(2) ns(2) show ?case by (intro exI [of _ "n # ns"]) simp
qed

lemma parse_dict_complete:
  assumes "\<forall>(k, v) \<in> set kvs. accepts v \<and> length k \<le> max_string (d_limits d) \<and> value_ok (max_string (d_limits d)) v"
    and "drop (d_pos d) (d_data d) = encode_entries kvs @ CHR ''e'' # rest"
    and "max_string (d_limits d) < 2 ^ 31" "depth + dict_depth kvs \<le> max_depth (d_limits d)"
    and "d_nodes d + sum_list (map (\<lambda>(k, v). 1 + node_count v) kvs) \<le> max_nodes (d_limits d)"
    and "sorted_wrt (<) ((case previous of None \<Rightarrow> [] | Some p \<Rightarrow> [n_bytes p]) @ map fst kvs)"
    and "\<forall>(k, v) \<in> set kvs. accepts (BBytes k)"
  shows "\<exists>ns. parse_dict d depth start previous entries =
      Inr (NDict (entries @ ns) start (d_pos d + length (encode_entries kvs) + 1),
        d\<lparr>d_pos := d_pos d + length (encode_entries kvs) + 1,
          d_nodes := d_nodes d + sum_list (map (\<lambda>(k, v). 1 + node_count v) kvs)\<rparr>) \<and>
      map (\<lambda>(k, n). (k, value_of n)) ns = kvs"
  using assms
proof (induction kvs arbitrary: d entries previous)
  case Nil
  then show ?case
    using nth_of_drop [of "d_pos d" "d_data d" "CHR ''e''" rest] by (simp add: parse_dict.simps)
next
  case (Cons kv kvs)
  obtain k v where kv: "kv = (k, v)" by (cases kv)
  let ?tail = "encode_entries kvs @ CHR ''e'' # rest"
  from Cons.prems(2) kv have dr: "drop (d_pos d) (d_data d) = encode (BBytes k) @ (encode v @ ?tail)" by simp
  let ?d1 = "d\<lparr>d_pos := d_pos d + length (encode (BBytes k)), d_nodes := d_nodes d + node_count (BBytes k)\<rparr>"
  let ?d2 = "?d1\<lparr>d_pos := d_pos ?d1 + length (encode v), d_nodes := d_nodes ?d1 + node_count v\<rparr>"
  have ac: "accepts (BBytes k)" "accepts v" "value_ok (max_string (d_limits d)) (BBytes k)"
    "value_ok (max_string (d_limits d)) v" using Cons.prems(1,7) kv by simp_all
  have bd: "depth + 1 + vdepth (BBytes k) \<le> max_depth (d_limits d)" "depth + 1 + vdepth v \<le> max_depth (d_limits d)"
    "d_nodes d + node_count (BBytes k) \<le> max_nodes (d_limits d)"
    "d_nodes ?d1 + node_count v \<le> max_nodes (d_limits d)" using Cons.prems(4,5) kv by simp_all
  obtain kn where kn: "parse d (depth + 1) = Inr (kn, ?d1)" "value_of kn = BBytes k"
    by (rule acceptsD [OF ac(1) dr ac(3) Cons.prems(3) bd(1,3)])
  then obtain ks ke where kb: "kn = NBytes k ks ke" by (cases kn) auto
  from drop_shift [OF dr] have dr1: "drop (d_pos ?d1) (d_data ?d1) = encode v @ ?tail" by simp
  have bd1: "value_ok (max_string (d_limits ?d1)) v" "max_string (d_limits ?d1) < 2 ^ 31"
    "depth + 1 + vdepth v \<le> max_depth (d_limits ?d1)"
    "d_nodes ?d1 + node_count v \<le> max_nodes (d_limits ?d1)"
    using ac(4) bd(2,4) Cons.prems(3) by simp_all
  obtain vn where vn: "parse ?d1 (depth + 1) = Inr (vn, ?d2)" "value_of vn = v"
    by (rule acceptsD [OF ac(2) dr1 bd1])
  have ord: "\<not> (case previous of None \<Rightarrow> False | Some p \<Rightarrow> k \<le> n_bytes p)"
    using Cons.prems(6) kv by (auto split: option.splits)
  have srt: "(\<forall>x\<in>set kvs. k < fst x) \<and> sorted_wrt (<) (map fst kvs)"
    using Cons.prems(6) kv by (auto simp: sorted_wrt_append split: option.splits)
  from drop_shift [OF dr1] Cons.prems kv srt
  have "\<exists>ns. parse_dict ?d2 depth start (Some kn) (entries @ [(k, vn)]) =
      Inr (NDict ((entries @ [(k, vn)]) @ ns) start (d_pos ?d2 + length (encode_entries kvs) + 1),
        ?d2\<lparr>d_pos := d_pos ?d2 + length (encode_entries kvs) + 1,
          d_nodes := d_nodes ?d2 + sum_list (map (\<lambda>(k, v). 1 + node_count v) kvs)\<rparr>) \<and>
      map (\<lambda>(k, n). (k, value_of n)) ns = kvs"
    by (intro Cons.IH) (simp_all add: kb)
  then obtain ns where ns: "parse_dict ?d2 depth start (Some kn) (entries @ [(k, vn)]) =
      Inr (NDict ((entries @ [(k, vn)]) @ ns) start (d_pos ?d2 + length (encode_entries kvs) + 1),
        ?d2\<lparr>d_pos := d_pos ?d2 + length (encode_entries kvs) + 1,
          d_nodes := d_nodes ?d2 + sum_list (map (\<lambda>(k, v). 1 + node_count v) kvs)\<rparr>)"
      "map (\<lambda>(k, n). (k, value_of n)) ns = kvs" by blast
  have g: "\<not> length (d_data d) \<le> d_pos d" "d_data d ! d_pos d \<noteq> CHR ''e''"
    using head_not_e [OF dr] by simp_all
  have "parse_dict d depth start previous entries =
      Inr (NDict (entries @ (k, vn) # ns) start (d_pos d + length (encode_entries (kv # kvs)) + 1),
        d\<lparr>d_pos := d_pos d + length (encode_entries (kv # kvs)) + 1,
          d_nodes := d_nodes d + sum_list (map (\<lambda>(k, v). 1 + node_count v) (kv # kvs))\<rparr>)"
    unfolding parse_dict.simps [of d] if_not_P [OF g(1)] if_not_P [OF g(2)]
    using kn(1) ord vn(1) ns(1) by (simp add: kb kv ac_simps)
  with vn(2) ns(2) kv show ?case by (intro exI [of _ "(k, vn) # ns"]) simp
qed

lemma parse_token:
  assumes "depth \<le> max_depth (d_limits d)" "d_pos d < length (d_data d)"
    and "d_nodes d + 1 \<le> max_nodes (d_limits d)"
  shows "d_data d ! d_pos d = CHR ''i'' \<Longrightarrow> parse d depth = parse_integer (d\<lparr>d_nodes := d_nodes d + 1\<rparr>)"
    and "is_digit (d_data d ! d_pos d) \<Longrightarrow> parse d depth = parse_byte_string (d\<lparr>d_nodes := d_nodes d + 1\<rparr>)"
    and "d_data d ! d_pos d = CHR ''l'' \<Longrightarrow> parse d depth =
      parse_list (d\<lparr>d_nodes := d_nodes d + 1, d_pos := d_pos d + 1\<rparr>) depth (d_pos d) []"
    and "d_data d ! d_pos d = CHR ''d'' \<Longrightarrow> parse d depth =
      parse_dict (d\<lparr>d_nodes := d_nodes d + 1, d_pos := d_pos d + 1\<rparr>) depth (d_pos d) None []"
proof -
  have "is_digit c \<Longrightarrow> c \<noteq> CHR ''i'' \<and> c \<noteq> CHR ''l'' \<and> c \<noteq> CHR ''d''" for c
    by (auto simp: is_digit_byte_val byte_val_def)
  with assms show "d_data d ! d_pos d = CHR ''i'' \<Longrightarrow> parse d depth = parse_integer (d\<lparr>d_nodes := d_nodes d + 1\<rparr>)"
    and "is_digit (d_data d ! d_pos d) \<Longrightarrow> parse d depth = parse_byte_string (d\<lparr>d_nodes := d_nodes d + 1\<rparr>)"
    and "d_data d ! d_pos d = CHR ''l'' \<Longrightarrow> parse d depth =
      parse_list (d\<lparr>d_nodes := d_nodes d + 1, d_pos := d_pos d + 1\<rparr>) depth (d_pos d) []"
    and "d_data d ! d_pos d = CHR ''d'' \<Longrightarrow> parse d depth =
      parse_dict (d\<lparr>d_nodes := d_nodes d + 1, d_pos := d_pos d + 1\<rparr>) depth (d_pos d) None []"
    by (auto simp: parse.simps Let_def)
qed

lemma accepts_BBytes: "accepts (BBytes b)"
  unfolding accepts_def
proof (intro allI impI)
  fix d :: decoder and depth rest
  assume dr: "drop (d_pos d) (d_data d) = encode (BBytes b) @ rest"
    and ok: "value_ok (max_string (d_limits d)) (BBytes b)" "max_string (d_limits d) < 2 ^ 31"
    and b: "depth + vdepth (BBytes b) \<le> max_depth (d_limits d)"
      "d_nodes d + node_count (BBytes b) \<le> max_nodes (d_limits d)"
  have lt: "d_pos d < length (d_data d)" by (rule head_not_e [OF dr])
  obtain c cs where cs: "decimal (length b) = c # cs" "is_digit c"
    using decimal_digits [of "length b"] decimal_nonempty [of "length b"]
    by (cases "decimal (length b)") auto
  then have "is_digit (d_data d ! d_pos d)"
    using dr nth_of_drop [of "d_pos d" "d_data d" c] by (simp add: encode_bytes_def)
  with parse_token(2) [of depth d] lt b
  have "parse d depth = parse_byte_string (d\<lparr>d_nodes := d_nodes d + 1\<rparr>)" by simp
  with parse_byte_string_complete [of "d\<lparr>d_nodes := d_nodes d + 1\<rparr>" b rest] dr ok
  show "\<exists>n. parse d depth = Inr (n, d\<lparr>d_pos := d_pos d + length (encode (BBytes b)),
      d_nodes := d_nodes d + node_count (BBytes b)\<rparr>) \<and> value_of n = BBytes b"
    by auto
qed

lemma accepts_all: "accepts v"
proof (induction v rule: encode.induct)
  case (1 i)
  show ?case
    unfolding accepts_def
  proof (intro allI impI, goal_cases)
    case (1 d depth rest)
    then show ?case
      using parse_token(1) [of depth d] nth_of_drop [of "d_pos d" "d_data d" "CHR ''i''"]
        parse_integer_complete [of "d\<lparr>d_nodes := d_nodes d + 1\<rparr>" i rest] by auto
  qed
next
  case (2 b)
  show ?case by (rule accepts_BBytes)
next
  case (3 vs)
  show ?case
    unfolding accepts_def
  proof (intro allI impI, goal_cases)
    case (1 d depth rest)
    let ?d1 = "d\<lparr>d_nodes := d_nodes d + 1, d_pos := d_pos d + 1\<rparr>"
    from 1(1) have h: "d_pos d < length (d_data d)" "d_data d ! d_pos d = CHR ''l''"
      "drop (d_pos ?d1) (d_data ?d1) = concat (map encode vs) @ CHR ''e'' # rest"
      using nth_of_drop [of "d_pos d" "d_data d" "CHR ''l''"] by auto
    have pre: "\<forall>v \<in> set vs. accepts v \<and> value_ok (max_string (d_limits ?d1)) v"
      "max_string (d_limits ?d1) < 2 ^ 31" "depth + list_depth vs \<le> max_depth (d_limits ?d1)"
      "d_nodes ?d1 + sum_list (map node_count vs) \<le> max_nodes (d_limits ?d1)"
      using 3 1 by simp_all
    from parse_list_complete [OF pre(1) h(3) pre(2-4), of "d_pos d" "[]"]
      parse_token(3) [of depth d] 1 h
    show ?case by auto
  qed
next
  case (4 kvs)
  show ?case
    unfolding accepts_def
  proof (intro allI impI, goal_cases)
    case (1 d depth rest)
    let ?d1 = "d\<lparr>d_nodes := d_nodes d + 1, d_pos := d_pos d + 1\<rparr>"
    from 1(1) have h: "d_pos d < length (d_data d)" "d_data d ! d_pos d = CHR ''d''"
      "drop (d_pos ?d1) (d_data ?d1) = encode_entries kvs @ CHR ''e'' # rest"
      using nth_of_drop [of "d_pos d" "d_data d" "CHR ''d''"] by auto
    have pre: "\<forall>(k, v) \<in> set kvs. accepts v \<and> length k \<le> max_string (d_limits ?d1) \<and>
        value_ok (max_string (d_limits ?d1)) v"
      "max_string (d_limits ?d1) < 2 ^ 31" "depth + dict_depth kvs \<le> max_depth (d_limits ?d1)"
      "d_nodes ?d1 + sum_list (map (\<lambda>(k, v). 1 + node_count v) kvs) \<le> max_nodes (d_limits ?d1)"
      "sorted_wrt (<) ((case None of None \<Rightarrow> [] | Some p \<Rightarrow> [n_bytes p]) @ map fst kvs)"
      "\<forall>(k, v) \<in> set kvs. accepts (BBytes k)"
      using 4 1 accepts_BBytes by (auto simp: split_def)
    from parse_dict_complete [OF pre(1) h(3) pre(2-6), of "d_pos d" "[]"]
      parse_token(4) [of depth d] 1 h
    show ?case by auto
  qed
qed

section \<open>The decoder against its specification\<close>

definition acceptable_value :: "bvalue \<Rightarrow> bool" where
  "acceptable_value v \<longleftrightarrow> value_ok (max_string default_decode_limits) v \<and>
     vdepth v \<le> max_depth default_decode_limits \<and> node_count v \<le> max_nodes default_decode_limits \<and>
     length (encode v) \<le> 33554432"

definition decode_value :: "bytes \<Rightarrow> bvalue option" where
  "decode_value data = (case parse_bencode data of Inl _ \<Rightarrow> None | Inr n \<Rightarrow> Some (value_of n))"

abbreviation initial_decoder :: "bytes \<Rightarrow> decoder" where
  "initial_decoder data \<equiv> \<lparr>d_data = data, d_pos = 0, d_nodes = 0, d_limits = default_decode_limits\<rparr>"

lemma parse_bencode_Inr_iff:
  "parse_bencode data = Inr n \<longleftrightarrow> data \<noteq> [] \<and> length data \<le> 33554432 \<and>
     (\<exists>d. parse (initial_decoder data) 0 = Inr (n, d) \<and> d_pos d = length data)"
  by (auto simp: parse_bencode_def split: sum.splits if_splits)

lemma parse_bencode_parsed:
  assumes "parse_bencode data = Inr n"
  shows "encode (value_of n) = data" "acceptable_value (value_of n)" "spans_ok data n"
    "n_start n = 0" "n_end n = length data"
proof -
  from assms obtain d where d: "parse (initial_decoder data) 0 = Inr (n, d)" "d_pos d = length data"
    and l: "length data \<le> 33554432" by (auto simp: parse_bencode_Inr_iff)
  from parse_sound_node [OF d(1)] have p: "parsed (initial_decoder data) 0 n d" .
  with d(2) show s: "n_start n = 0" "n_end n = length data" "spans_ok data n"
    by (simp_all add: parsed_def)
  then show e: "encode (value_of n) = data"
    using spans_ok_segment [of data n] by (simp add: segment_full)
  from p l e show "acceptable_value (value_of n)"
    by (simp add: parsed_def acceptable_value_def)
qed

lemma parse_bencode_encode:
  assumes "acceptable_value v"
  shows "\<exists>n. parse_bencode (encode v) = Inr n \<and> value_of n = v"
proof -
  have ok: "value_ok (max_string (d_limits (initial_decoder (encode v)))) v"
    "max_string (d_limits (initial_decoder (encode v))) < 2 ^ 31"
    "0 + vdepth v \<le> max_depth (d_limits (initial_decoder (encode v)))"
    "d_nodes (initial_decoder (encode v)) + node_count v \<le> max_nodes (d_limits (initial_decoder (encode v)))"
    using assms by (simp_all add: acceptable_value_def default_decode_limits_def)
  have dr: "drop (d_pos (initial_decoder (encode v))) (d_data (initial_decoder (encode v))) = encode v @ []"
    by simp
  obtain n where "parse (initial_decoder (encode v)) 0 = Inr (n, (initial_decoder (encode v))
      \<lparr>d_pos := d_pos (initial_decoder (encode v)) + length (encode v),
       d_nodes := d_nodes (initial_decoder (encode v)) + node_count v\<rparr>)" "value_of n = v"
    by (rule acceptsD [OF accepts_all dr ok])
  with assms show ?thesis by (auto simp: parse_bencode_Inr_iff acceptable_value_def)
qed

interpretation bencode: strict_codec decode_value encode acceptable_value
proof unfold_locales
  fix data v
  assume "decode_value data = Some v"
  then obtain n where "parse_bencode data = Inr n" "v = value_of n"
    by (auto simp: decode_value_def split: sum.splits)
  then show "encode v = data \<and> acceptable_value v" by (simp add: parse_bencode_parsed)
next
  fix v
  assume "acceptable_value v"
  then show "decode_value (encode v) = Some v"
    using parse_bencode_encode by (fastforce simp: decode_value_def)
qed

lemma decode_value_Some_iff:
  "decode_value data = Some v \<longleftrightarrow> (\<exists>n. parse_bencode data = Inr n \<and> value_of n = v)"
  by (auto simp: decode_value_def split: sum.splits)

lemmas bencode_eval = parse_bencode_def parse.simps parse_list.simps parse_dict.simps Let_def
  default_decode_limits_def parse_integer_def parse_byte_string_def canonical_integer_def go_parse_int_def
  is_digit_byte_val byte_val_def decimal_value_def digit_val_def

section \<open>Properties\<close>

text \<open>
  Claim C6. The decoder accepts a document and yields a value exactly when the value is well formed
  (64-bit integers, strictly increasing keys, bounded strings, depth, node count and size) and the
  document is its canonical encoding: nothing else is accepted and nothing canonical is refused.
\<close>

theorem bencode_accepts_exactly_canonical:
  "(\<exists>n. parse_bencode data = Inr n \<and> value_of n = v) \<longleftrightarrow> acceptable_value v \<and> data = encode v"
  using bencode.decode_iff [of data v] by (simp add: decode_value_Some_iff)

text \<open>
  Claim C15. The offsets recorded for a dictionary entry delimit exactly the canonical encoding of the
  entry's value, so hashing \<open>data[info.Start:info.End]\<close> hashes the info dictionary and nothing else.
\<close>

theorem bencode_entry_span:
  assumes "parse_bencode data = Inr root" "node_get root key = Some entry"
  shows "segment data (n_start entry) (n_end entry) = encode (value_of entry)"
  using parse_bencode_parsed(3) [OF assms(1)] spans_ok_get [OF _ assms(2)] spans_ok_segment by blast

theorem bencode_entry_span_witness:
  "segment ''d4:infod1:ai1eee'' 7 15 = encode (BDict [(''a'', BInt 1)])"
proof -
  have "parse_bencode ''d4:infod1:ai1eee'' =
      Inr (NDict [(''info'', NDict [(''a'', NInt 1 11 14)] 7 15)] 0 16)" by (simp add: bencode_eval)
  from bencode_entry_span [OF this, of "''info''" "NDict [(''a'', NInt 1 11 14)] 7 15"]
  show ?thesis by (simp add: node_get_def)
qed

end
