(* ===== verification/GoLib.thy ===== *)
theory GoLib
  imports Prelude
begin

text \<open>
  The Go standard library as far as the modelled code calls it. UTF-8, hexadecimal, base64 and
  \<open>path.Clean\<close> are written out. Cryptographic digests, the Unicode tables and URL parsing are fields of
  the record \<open>golib\<close>, an argument of the definitions that use them: every theorem holds for all of
  them unless it names a hypothesis.
\<close>

section \<open>Parameters\<close>

text \<open>
  \<open>gl_fold_orbit r\<close> lists the values \<open>unicode.SimpleFold\<close> walks through from \<open>r\<close> before it returns to \<open>r\<close>;
  \<open>gl_url_parse\<close> gives scheme and host of \<open>url.Parse\<close>, or \<open>None\<close> on its error; \<open>gl_equal_fold\<close> is
  \<open>strings.EqualFold\<close>.
\<close>

record golib =
  gl_sha1 :: "bytes \<Rightarrow> bytes"
  gl_sha256 :: "bytes \<Rightarrow> bytes"
  gl_is_mn :: "nat \<Rightarrow> bool"
  gl_fold_orbit :: "nat \<Rightarrow> nat list"
  gl_to_lower :: "bytes \<Rightarrow> bytes"
  gl_to_upper :: "bytes \<Rightarrow> bytes"
  gl_url_parse :: "bytes \<Rightarrow> (bytes \<times> bytes) option"
  gl_equal_fold :: "bytes \<Rightarrow> bytes \<Rightarrow> bool"

text \<open>The documented sizes of the two digests.\<close>

definition digest_sizes :: "golib \<Rightarrow> bool" where
  "digest_sizes lib \<longleftrightarrow> (\<forall>x. length (gl_sha1 lib x) = 20) \<and> (\<forall>x. length (gl_sha256 lib x) = 32)"

text \<open>A concrete library for evaluation: digests that keep a prefix of the input, ASCII case.\<close>

definition pad_to :: "nat \<Rightarrow> bytes \<Rightarrow> bytes" where
  "pad_to n x = take n (x @ replicate n NUL)"

definition ascii_lower :: "char \<Rightarrow> char" where
  "ascii_lower c = (if 65 \<le> byte_val c \<and> byte_val c \<le> 90 then char_of (byte_val c + 32) else c)"

definition ascii_upper :: "char \<Rightarrow> char" where
  "ascii_upper c = (if 97 \<le> byte_val c \<and> byte_val c \<le> 122 then char_of (byte_val c - 32) else c)"

definition sample_lib :: golib where
  "sample_lib = \<lparr>gl_sha1 = pad_to 20, gl_sha256 = pad_to 32, gl_is_mn = (\<lambda>_. False),
     gl_fold_orbit = (\<lambda>_. []), gl_to_lower = map ascii_lower, gl_to_upper = map ascii_upper,
     gl_url_parse = (\<lambda>_. None), gl_equal_fold = (\<lambda>a b. map ascii_lower a = map ascii_lower b)\<rparr>"

lemma digest_sizes_sample: "digest_sizes sample_lib"
  by (auto simp: digest_sizes_def sample_lib_def pad_to_def)

section \<open>UTF-8\<close>

definition cont_byte :: "char \<Rightarrow> bool" where
  "cont_byte c \<longleftrightarrow> 128 \<le> byte_val c \<and> byte_val c \<le> 191"

text \<open>The first rune of a byte sequence and its width, \<open>None\<close> when the sequence starts with an invalid byte.\<close>

definition first_rune :: "bytes \<Rightarrow> (nat \<times> nat) option" where
  "first_rune bs =
     (case bs of
        [] \<Rightarrow> None
      | c # cs \<Rightarrow>
          let a = byte_val c in
          if a < 128 then Some (a, 1)
          else if 194 \<le> a \<and> a \<le> 223 then
            (case cs of
               c1 # _ \<Rightarrow> if cont_byte c1 then Some ((a - 192) * 64 + (byte_val c1 - 128), 2) else None
             | _ \<Rightarrow> None)
          else if 224 \<le> a \<and> a \<le> 239 then
            (case cs of
               c1 # c2 # _ \<Rightarrow>
                 if cont_byte c1 \<and> cont_byte c2 \<and> (a = 224 \<longrightarrow> 160 \<le> byte_val c1) \<and> (a = 237 \<longrightarrow> byte_val c1 \<le> 159)
                 then Some ((a - 224) * 4096 + (byte_val c1 - 128) * 64 + (byte_val c2 - 128), 3) else None
             | _ \<Rightarrow> None)
          else if 240 \<le> a \<and> a \<le> 244 then
            (case cs of
               c1 # c2 # c3 # _ \<Rightarrow>
                 if cont_byte c1 \<and> cont_byte c2 \<and> cont_byte c3 \<and>
                    (a = 240 \<longrightarrow> 144 \<le> byte_val c1) \<and> (a = 244 \<longrightarrow> byte_val c1 \<le> 143)
                 then Some ((a - 240) * 262144 + (byte_val c1 - 128) * 4096 +
                            (byte_val c2 - 128) * 64 + (byte_val c3 - 128), 4) else None
             | _ \<Rightarrow> None)
          else None)"

lemma first_rune_width: "first_rune bs = Some (r, w) \<Longrightarrow> 1 \<le> w \<and> w \<le> length bs"
  by (auto simp: first_rune_def Let_def split: list.splits if_splits)

function utf8_valid :: "bytes \<Rightarrow> bool" where
  "utf8_valid [] = True"
| "utf8_valid (c # cs) =
     (case first_rune (c # cs) of None \<Rightarrow> False | Some (_, w) \<Rightarrow> utf8_valid (drop (w - 1) cs))"
  by pat_completeness auto
termination
  by (relation "measure length") auto

text \<open>The runes a \<open>range\<close> loop over a string visits: an invalid byte is U+FFFD of width one.\<close>

function runes :: "bytes \<Rightarrow> nat list" where
  "runes [] = []"
| "runes (c # cs) =
     (case first_rune (c # cs) of
        None \<Rightarrow> 65533 # runes cs
      | Some (r, w) \<Rightarrow> r # runes (drop (w - 1) cs))"
  by pat_completeness auto
termination
  by (relation "measure length") auto

definition utf8_encode :: "nat \<Rightarrow> bytes" where
  "utf8_encode r =
     (if r < 128 then [char_of r]
      else if r < 2048 then [char_of (192 + r div 64), char_of (128 + r mod 64)]
      else if r > 1114111 \<or> (55296 \<le> r \<and> r \<le> 57343) then [CHR 0xEF, CHR 0xBF, CHR 0xBD]
      else if r < 65536 then
        [char_of (224 + r div 4096), char_of (128 + r div 64 mod 64), char_of (128 + r mod 64)]
      else [char_of (240 + r div 262144), char_of (128 + r div 4096 mod 64),
            char_of (128 + r div 64 mod 64), char_of (128 + r mod 64)])"

text \<open>\<open>strings.ToValidUTF8\<close>: each run of invalid bytes becomes one replacement.\<close>

function to_valid_utf8 :: "bool \<Rightarrow> bytes \<Rightarrow> bytes \<Rightarrow> bytes" where
  "to_valid_utf8 in_run repl [] = []"
| "to_valid_utf8 in_run repl (c # cs) =
     (case first_rune (c # cs) of
        None \<Rightarrow> (if in_run then [] else repl) @ to_valid_utf8 True repl cs
      | Some (_, w) \<Rightarrow> take w (c # cs) @ to_valid_utf8 False repl (drop (w - 1) cs))"
  by pat_completeness auto
termination
  by (relation "measure (\<lambda>(_, _, bs). length bs)") auto

section \<open>Hexadecimal and base64\<close>

definition hex_digit :: "nat \<Rightarrow> char" where
  "hex_digit n = (if n < 10 then char_of (48 + n) else char_of (87 + n))"

definition hex_encode :: "bytes \<Rightarrow> bytes" where
  "hex_encode bs = concat (map (\<lambda>c. [hex_digit (byte_val c div 16), hex_digit (byte_val c mod 16)]) bs)"

definition hex_digit_val :: "char \<Rightarrow> nat option" where
  "hex_digit_val c = (let n = byte_val c in
     if 48 \<le> n \<and> n \<le> 57 then Some (n - 48)
     else if 97 \<le> n \<and> n \<le> 102 then Some (n - 87)
     else if 65 \<le> n \<and> n \<le> 70 then Some (n - 55) else None)"

fun hex_decode :: "bytes \<Rightarrow> bytes option" where
  "hex_decode [] = Some []"
| "hex_decode [c] = None"
| "hex_decode (c # d # cs) =
     (case (hex_digit_val c, hex_digit_val d, hex_decode cs) of
        (Some h, Some l, Some bs) \<Rightarrow> Some (char_of (16 * h + l) # bs)
      | _ \<Rightarrow> None)"

definition base64_digit :: "nat \<Rightarrow> char" where
  "base64_digit n =
     (if n < 26 then char_of (65 + n) else if n < 52 then char_of (71 + n)
      else if n < 62 then char_of (n - 4) else if n = 62 then CHR ''+'' else CHR ''/'')"

fun base64_encode :: "bytes \<Rightarrow> bytes" where
  "base64_encode [] = []"
| "base64_encode [a] =
     (let n = byte_val a * 16 in [base64_digit (n div 64), base64_digit (n mod 64), CHR ''='', CHR ''=''])"
| "base64_encode [a, b] =
     (let n = (byte_val a * 256 + byte_val b) * 4
      in [base64_digit (n div 4096), base64_digit (n div 64 mod 64), base64_digit (n mod 64), CHR ''=''])"
| "base64_encode (a # b # c # cs) =
     (let n = byte_val a * 65536 + byte_val b * 256 + byte_val c
      in [base64_digit (n div 262144), base64_digit (n div 4096 mod 64),
          base64_digit (n div 64 mod 64), base64_digit (n mod 64)] @ base64_encode cs)"

lemma hex_digit_val_digit: "n < 16 \<Longrightarrow> hex_digit_val (hex_digit n) = Some n"
  by (simp add: hex_digit_val_def hex_digit_def byte_val_char_of Let_def)

lemma hex_decode_encode [simp]: "hex_decode (hex_encode bs) = Some bs"
  by (induction bs) (simp_all add: hex_encode_def hex_digit_val_digit less_mult_imp_div_less byte_val_def)

lemma hex_encode_inject [simp]: "hex_encode a = hex_encode b \<longleftrightarrow> a = b"
  by (metis hex_decode_encode option.inject)

lemma length_hex_encode [simp]: "length (hex_encode bs) = 2 * length bs"
  by (induction bs) (simp_all add: hex_encode_def)

section \<open>Strings and slash-separated paths\<close>

definition trim_right_byte :: "char \<Rightarrow> bytes \<Rightarrow> bytes" where
  "trim_right_byte c s = rev (dropWhile (\<lambda>x. x = c) (rev s))"

definition trim_suffix :: "bytes \<Rightarrow> bytes \<Rightarrow> bytes" where
  "trim_suffix s p = (if has_suffix s p then take (length s - length p) s else s)"

definition trim_prefix :: "bytes \<Rightarrow> bytes \<Rightarrow> bytes" where
  "trim_prefix s p = (if has_prefix s p then drop (length p) s else s)"

definition replace_byte :: "char \<Rightarrow> char \<Rightarrow> bytes \<Rightarrow> bytes" where
  "replace_byte a b = map (\<lambda>x. if x = a then b else x)"

definition contains_any :: "bytes \<Rightarrow> bytes \<Rightarrow> bool" where
  "contains_any s cs \<longleftrightarrow> list_ex (\<lambda>x. x \<in> set cs) s"

text \<open>\<open>path.Clean\<close>: empty and \<open>.\<close> elements vanish, \<open>..\<close> removes the element before it.\<close>

definition clean_step :: "bool \<Rightarrow> bytes list \<Rightarrow> bytes \<Rightarrow> bytes list" where
  "clean_step rooted st el =
     (if el = [] \<or> el = ''.'' then st
      else if el = ''..'' then
        (if st = [] \<or> last st = ''..'' then (if rooted then st else st @ [''..'']) else butlast st)
      else st @ [el])"

definition path_clean :: "bytes \<Rightarrow> bytes" where
  "path_clean p =
     (if p = [] then ''.''
      else let rooted = (hd p = CHR ''/'');
               out = join ''/'' (foldl (clean_step rooted) [] (split_on CHR ''/'' p))
           in if rooted then CHR ''/'' # out else if out = [] then ''.'' else out)"

lemma split_on_nonempty [simp]: "split_on c s \<noteq> []"
  by (induction s) (auto split: list.splits)

lemma split_on_no_sep: "p \<in> set (split_on c s) \<Longrightarrow> c \<notin> set p"
  by (induction s arbitrary: p) (auto split: list.splits if_splits)

lemma join_split_on [simp]: "join [c] (split_on c s) = s"
proof (induction s)
  case Nil
  then show ?case by simp
next
  case (Cons x s)
  obtain p ps where ps: "split_on c s = p # ps" by (cases "split_on c s") auto
  with Cons show ?case by (cases ps) auto
qed

lemma split_on_append_sep: "c \<notin> set p \<Longrightarrow> split_on c (p @ c # s) = p # split_on c s"
  by (induction p) auto

lemma split_on_single: "c \<notin> set p \<Longrightarrow> split_on c p = [p]"
  by (induction p) auto

lemma split_on_join:
  "ps \<noteq> [] \<Longrightarrow> \<forall>p \<in> set ps. c \<notin> set p \<Longrightarrow> split_on c (join [c] ps) = ps"
proof (induction ps rule: induct_list012)
  case 1
  then show ?case by simp
next
  case (2 p)
  then show ?case by (simp add: split_on_single)
next
  case (3 p q ps)
  then show ?case by (simp add: split_on_append_sep)
qed

lemma join_inject:
  assumes "ps \<noteq> []" "qs \<noteq> []" "\<forall>p \<in> set ps. c \<notin> set p" "\<forall>q \<in> set qs. c \<notin> set q"
    and "join [c] ps = join [c] qs"
  shows "ps = qs"
  using assms by (metis split_on_join)

end
