(* ===== verification/PathRules.thy ===== *)
theory PathRules
  imports GoLib
begin

text \<open>
  The lexical path rules of \<open>internal/storage/path.go\<close>: validation of manifest components under a
  target's path semantics, the collision and prefix check over a whole manifest, the namespace root
  of a downloader, and the Windows join. The lemmas show that the linear scan over sorted keys finds
  every file/directory conflict and that an accepted client root is already clean.
\<close>

section \<open>Semantics and errors\<close>

record path_semantics =
  windows :: bool
  case_sensitive :: bool
  unicode_normalization :: bool

datatype path_error =
    NoComponents | ComponentEmpty nat | ComponentSeparator nat | ComponentControl nat
  | ComponentDots nat | WindowsInvalidUtf8 nat | WindowsForbidden nat | WindowsReserved nat
  | CombiningMarks nat
  | PaddingFlagsMismatch | FileComponent nat path_error | FilesCollide nat nat | FilesPrefix nat nat
  | ClientRootEmpty | ClientRootBackslash | ClientRootNotClean | ClientRootNotAbsolute
  | ClientRootUNC | ClientRootEmptyComponent | ClientRootComponent path_error

section \<open>Component validation\<close>

text \<open>The one-rune suffix of a numbered device: an ASCII digit or a superscript one, two or three.\<close>

definition reserved_suffix :: "bytes \<Rightarrow> bool" where
  "reserved_suffix s \<longleftrightarrow>
     (case runes s of
        [r] \<Rightarrow> (48 \<le> r \<and> r \<le> 57) \<or> r = 185 \<or> r = 178 \<or> r = 179
      | _ \<Rightarrow> False)"

definition windows_reserved_device_name :: "golib \<Rightarrow> bytes \<Rightarrow> bool" where
  "windows_reserved_device_name lib component =
     (let stem = (case index_byte component CHR ''.'' of None \<Rightarrow> component | Some dot \<Rightarrow> take dot component);
          base = gl_to_upper lib (trim_right_byte CHR '' '' stem)
      in if base \<in> {''CON'', ''PRN'', ''AUX'', ''NUL'', ''CLOCK$'', ''CONIN$'', ''CONOUT$''} then True
         else if has_prefix base ''COM'' \<or> has_prefix base ''LPT''
         then reserved_suffix (drop 3 base) else False)"

definition component_error :: "golib \<Rightarrow> path_semantics \<Rightarrow> nat \<Rightarrow> bytes \<Rightarrow> path_error option" where
  "component_error lib sem index raw =
     (if raw = [] then Some (ComponentEmpty index)
      else if NUL \<in> set raw \<or> contains_any raw [CHR ''/'', CHR 0x5C] then Some (ComponentSeparator index)
      else if list_ex (\<lambda>c. byte_val c < 32 \<or> byte_val c = 127) raw then Some (ComponentControl index)
      else if raw = ''.'' \<or> raw = ''..'' then Some (ComponentDots index)
      else if windows sem \<and> \<not> utf8_valid raw then Some (WindowsInvalidUtf8 index)
      else if windows sem \<and> (contains_any raw ''<>:\"|?*'' \<or> has_suffix raw ''.'' \<or> has_suffix raw '' '')
      then Some (WindowsForbidden index)
      else if windows sem \<and> windows_reserved_device_name lib raw then Some (WindowsReserved index)
      else if unicode_normalization sem \<and> utf8_valid raw \<and> list_ex (gl_is_mn lib) (runes raw)
      then Some (CombiningMarks index)
      else None)"

fun components_error :: "golib \<Rightarrow> path_semantics \<Rightarrow> nat \<Rightarrow> bytes list \<Rightarrow> path_error option" where
  "components_error lib sem index [] = None"
| "components_error lib sem index (raw # rest) =
     (case component_error lib sem index raw of
        Some e \<Rightarrow> Some e
      | None \<Rightarrow> components_error lib sem (index + 1) rest)"

definition validate_components :: "golib \<Rightarrow> bytes list \<Rightarrow> path_semantics \<Rightarrow> path_error + unit" where
  "validate_components lib components sem =
     (if components = [] then Inl NoComponents
      else (case components_error lib sem 0 components of Some e \<Rightarrow> Inl e | None \<Rightarrow> Inr ()))"

section \<open>Manifest validation\<close>

definition windows_simple_fold_key :: "golib \<Rightarrow> bytes \<Rightarrow> bytes" where
  "windows_simple_fold_key lib value =
     concat (map (\<lambda>r. utf8_encode (foldl (\<lambda>m f. if f < m then f else m) r (gl_fold_orbit lib r)))
       (runes value))"

definition fold_component :: "golib \<Rightarrow> path_semantics \<Rightarrow> bytes \<Rightarrow> bytes" where
  "fold_component lib sem component =
     (if case_sensitive sem then component
      else if windows sem then windows_simple_fold_key lib component
      else gl_to_lower lib component)"

definition path_key :: "golib \<Rightarrow> path_semantics \<Rightarrow> bytes list \<Rightarrow> bytes" where
  "path_key lib sem components = join [NUL] (map (fold_component lib sem) components)"

text \<open>
  The first loop: \<open>seen\<close> maps a key to the first index that has it, \<open>keys\<close> collects the distinct
  keys with their index. \<open>padding\<close> is \<open>None\<close> for the nil slice.
\<close>

fun collect_keys :: "golib \<Rightarrow> path_semantics \<Rightarrow> bool list option \<Rightarrow> nat \<Rightarrow> bytes list list \<Rightarrow>
    (bytes \<rightharpoonup> nat) \<Rightarrow> (bytes \<times> nat) list \<Rightarrow> path_error + (bytes \<times> nat) list" where
  "collect_keys lib sem padding index [] seen keys = Inr keys"
| "collect_keys lib sem padding index (components # rest) seen keys =
     (case validate_components lib components sem of
        Inl e \<Rightarrow> Inl (FileComponent index e)
      | Inr _ \<Rightarrow>
          let key = path_key lib sem components in
          (case seen key of
             Some previous \<Rightarrow>
               (if (case padding of None \<Rightarrow> False | Some pads \<Rightarrow> pads ! previous \<and> pads ! index)
                then collect_keys lib sem padding (index + 1) rest seen keys
                else Inl (FilesCollide previous index))
           | None \<Rightarrow>
               collect_keys lib sem padding (index + 1) rest (seen(key \<mapsto> index)) (keys @ [(key, index)])))"

text \<open>The second loop, over the sorted keys, compares neighbours only.\<close>

fun adjacent_prefix :: "(bytes \<times> nat) list \<Rightarrow> path_error + unit" where
  "adjacent_prefix ((k1, i1) # (k2, i2) # rest) =
     (if has_prefix k2 (k1 @ [NUL]) then Inl (FilesPrefix i1 i2) else adjacent_prefix ((k2, i2) # rest))"
| "adjacent_prefix _ = Inr ()"

definition validate_manifest_paths ::
    "golib \<Rightarrow> bytes list list \<Rightarrow> bool list option \<Rightarrow> path_semantics \<Rightarrow> path_error + unit" where
  "validate_manifest_paths lib paths padding sem =
     rbind (collect_keys lib sem padding 0 paths Map.empty []) (\<lambda>keys. adjacent_prefix (sort_key fst keys))"

definition validate_manifest_paths_with_padding ::
    "golib \<Rightarrow> bytes list list \<Rightarrow> bool list \<Rightarrow> path_semantics \<Rightarrow> path_error + unit" where
  "validate_manifest_paths_with_padding lib paths padding sem =
     (if length padding \<noteq> length paths then Inl PaddingFlagsMismatch
      else validate_manifest_paths lib paths (Some padding) sem)"

section \<open>Client namespace roots\<close>

definition is_letter :: "char \<Rightarrow> bool" where
  "is_letter c \<longleftrightarrow> (CHR ''A'' \<le> c \<and> c \<le> CHR ''Z'') \<or> (CHR ''a'' \<le> c \<and> c \<le> CHR ''z'')"

abbreviation BSL :: char where
  "BSL \<equiv> CHR 0x5C"

definition client_root_parts :: "golib \<Rightarrow> bytes \<Rightarrow> bytes list \<Rightarrow> path_error + bytes" where
  "client_root_parts lib clean parts =
     (if [] \<in> set parts then Inl ClientRootEmptyComponent
      else (case (if parts = [] then Inr () else validate_components lib parts
                  \<lparr>windows = True, case_sensitive = False, unicode_normalization = False\<rparr>) of
              Inl e \<Rightarrow> Inl (ClientRootComponent e)
            | Inr _ \<Rightarrow> Inr clean))"

definition validate_client_root :: "golib \<Rightarrow> bytes \<Rightarrow> bool \<Rightarrow> path_error + bytes" where
  "validate_client_root lib root win =
     (if root = [] \<or> NUL \<in> set root then Inl ClientRootEmpty
      else if \<not> win then
        (if BSL \<in> set root then Inl ClientRootBackslash
         else let clean = path_clean root in
           if \<not> has_prefix clean ''/'' \<or> clean \<noteq> root then Inl ClientRootNotClean else Inr clean)
      else
        let normalized = replace_byte CHR ''/'' BSL root;
            drive = (3 \<le> length normalized \<and> is_letter (normalized ! 0) \<and> normalized ! 1 = CHR '':'' \<and>
                     normalized ! 2 = BSL);
            unc = has_prefix normalized [BSL, BSL]
        in if \<not> drive \<and> \<not> unc then Inl ClientRootNotAbsolute
           else if drive \<and> length normalized = 3 then Inr normalized
           else
             let clean = trim_suffix normalized [BSL] in
             if unc then
               let parts = split_on BSL (trim_prefix clean [BSL, BSL]) in
               if length parts < 2 \<or> parts ! 0 = [] \<or> parts ! 1 = [] then Inl ClientRootUNC
               else client_root_parts lib clean parts
             else client_root_parts lib clean (split_on BSL (trim_prefix (drop 3 clean) [BSL])))"

fun windows_join_loop :: "bytes \<Rightarrow> bytes list \<Rightarrow> bytes" where
  "windows_join_loop result [] = result"
| "windows_join_loop result (component # rest) =
     (if component = [] \<or> component = ''.'' then windows_join_loop result rest
      else windows_join_loop
        ((if has_suffix result [BSL] then result else result @ [BSL]) @ replace_byte CHR ''/'' BSL component) rest)"

definition windows_join :: "bytes \<Rightarrow> bytes list \<Rightarrow> bytes" where
  "windows_join root components =
     (let result = replace_byte CHR ''/'' BSL root;
          trimmed = (if length result = 3 \<and> result ! 1 = CHR '':'' \<and> result ! 2 = BSL then result
                     else trim_right_byte BSL result)
      in windows_join_loop trimmed components)"

section \<open>The neighbour scan finds every directory conflict\<close>

text \<open>NUL is the least byte, so every key between \<open>k\<close> and \<open>k NUL t\<close> extends \<open>k NUL\<close> itself.\<close>

lemma lex_between:
  "k < x \<Longrightarrow> x \<le> k @ NUL # t \<Longrightarrow> has_prefix x (k @ [NUL])"
proof (induction k arbitrary: x)
  case Nil
  then obtain c u where "x = c # u" by (cases x) auto
  moreover from this Nil.prems(2) have "c = NUL"
    using NUL_least [of c] by auto
  ultimately show ?case by (simp add: has_prefix_def)
next
  case (Cons a k)
  then obtain c u where x: "x = c # u" by (cases x) auto
  from Cons.prems x have "c = a" by auto
  with Cons x show ?case by (auto simp: has_prefix_def)
qed

definition dir_conflict :: "bytes \<Rightarrow> bytes \<Rightarrow> bool" where
  "dir_conflict a b \<longleftrightarrow> has_prefix b (a @ [NUL])"

lemma dir_conflict_less: "dir_conflict a b \<Longrightarrow> a < b"
proof -
  assume "dir_conflict a b"
  then obtain t where "b = a @ NUL # t" by (auto simp: dir_conflict_def has_prefix_iff)
  moreover have "a < a @ NUL # t" by (induction a) auto
  ultimately show ?thesis by simp
qed

lemma adjacent_prefix_sound:
  "adjacent_prefix kis = Inl e \<Longrightarrow> \<exists>a \<in> set (map fst kis). \<exists>b \<in> set (map fst kis). dir_conflict a b"
  by (induction kis rule: adjacent_prefix.induct) (auto simp: dir_conflict_def split: if_splits)

lemma adjacent_prefix_complete:
  assumes "adjacent_prefix kis = Inr ()" "sorted_wrt (<) (map fst kis)"
    and "a \<in> set (map fst kis)" "b \<in> set (map fst kis)"
  shows "\<not> dir_conflict a b"
  using assms
proof (induction kis rule: adjacent_prefix.induct)
  case (1 k1 i1 k2 i2 rest)
  then have np: "\<not> dir_conflict k1 k2" and IH: "\<lbrakk>a \<in> set (map fst ((k2, i2) # rest));
      b \<in> set (map fst ((k2, i2) # rest))\<rbrakk> \<Longrightarrow> \<not> dir_conflict a b"
    by (auto simp: dir_conflict_def split: if_splits)
  show ?case
  proof
    assume c: "dir_conflict a b"
    then have "a < b" by (rule dir_conflict_less)
    with "1.prems"(2-4) have b: "b \<in> set (map fst ((k2, i2) # rest))" by force
    show False
    proof (cases "a = k1")
      case True
      have "k1 < k2" "k2 \<le> b" using "1.prems"(2) b by (auto intro: less_imp_le)
      moreover obtain t where "b = k1 @ NUL # t"
        using c True by (auto simp: dir_conflict_def has_prefix_iff)
      ultimately have "dir_conflict k1 k2"
        unfolding dir_conflict_def by (auto intro: lex_between)
      with np show False ..
    next
      case False
      with "1.prems"(3) have "a \<in> set (map fst ((k2, i2) # rest))" by auto
      with IH b c show False by blast
    qed
  qed
qed (auto dest: dir_conflict_less)

section \<open>What the collecting loop establishes\<close>

definition is_pad :: "bool list option \<Rightarrow> nat \<Rightarrow> bool" where
  "is_pad padding i = (case padding of None \<Rightarrow> False | Some pads \<Rightarrow> pads ! i)"

abbreviation keys_of :: "golib \<Rightarrow> path_semantics \<Rightarrow> bytes list list \<Rightarrow> bytes list" where
  "keys_of lib sem paths \<equiv> map (path_key lib sem) paths"

definition shares_only_padding :: "bool list option \<Rightarrow> bytes list \<Rightarrow> bool" where
  "shares_only_padding padding ks \<longleftrightarrow>
     (\<forall>j < length ks. \<forall>i < j. ks ! i = ks ! j \<longrightarrow> is_pad padding i \<and> is_pad padding j)"

definition first_index :: "bytes list \<Rightarrow> bytes \<Rightarrow> nat \<Rightarrow> bool" where
  "first_index ks k i \<longleftrightarrow> i < length ks \<and> ks ! i = k \<and> k \<notin> set (take i ks)"

definition collect_inv :: "bytes list \<Rightarrow> (bytes \<rightharpoonup> nat) \<Rightarrow> (bytes \<times> nat) list \<Rightarrow> bool" where
  "collect_inv ks seen keys \<longleftrightarrow>
     dom seen = set ks \<and> (\<forall>k i. seen k = Some i \<longrightarrow> first_index ks k i) \<and>
     set (map fst keys) = set ks \<and> distinct (map fst keys)"

lemma first_index_snoc: "first_index ks k i \<Longrightarrow> first_index (ks @ [x]) k i"
  by (auto simp: first_index_def nth_append)

lemma collect_inv_old:
  assumes "collect_inv ks seen keys" "seen k = Some i"
  shows "collect_inv (ks @ [k]) seen keys"
  using assms by (auto simp: collect_inv_def first_index_snoc insert_absorb domI)

lemma collect_inv_new:
  assumes "collect_inv ks seen keys" "seen k = None"
  shows "collect_inv (ks @ [k]) (seen(k \<mapsto> length ks)) (keys @ [(k, length ks)])"
proof -
  from assms have "k \<notin> set ks" by (auto simp: collect_inv_def domIff)
  with assms(1) show ?thesis
    by (auto simp: collect_inv_def first_index_snoc) (auto simp: first_index_def nth_append)
qed

lemma shares_appendD: "shares_only_padding padding (xs @ ys) \<Longrightarrow> shares_only_padding padding xs"
  unfolding shares_only_padding_def
proof (intro allI impI)
  fix j i
  assume a: "\<forall>j<length (xs @ ys). \<forall>i<j. (xs @ ys) ! i = (xs @ ys) ! j \<longrightarrow> is_pad padding i \<and> is_pad padding j"
    and "j < length xs" "i < j" "xs ! i = xs ! j"
  then show "is_pad padding i \<and> is_pad padding j"
    using a [rule_format, of j i] by (simp add: nth_append)
qed

lemma shares_snoc_new:
  "k \<notin> set ks \<Longrightarrow> shares_only_padding padding (ks @ [k]) \<longleftrightarrow> shares_only_padding padding ks"
  by (auto simp: shares_only_padding_def nth_append less_Suc_eq in_set_conv_nth)

lemma shares_snoc_old:
  assumes "first_index ks k i"
  shows "shares_only_padding padding (ks @ [k]) \<longleftrightarrow>
    shares_only_padding padding ks \<and> is_pad padding i \<and> is_pad padding (length ks)"
proof
  assume a: "shares_only_padding padding (ks @ [k])"
  from a have "shares_only_padding padding ks" by (rule shares_appendD)
  moreover have "is_pad padding i \<and> is_pad padding (length ks)"
    using a [unfolded shares_only_padding_def, rule_format, of "length ks" i] assms
    by (simp add: nth_append first_index_def)
  ultimately show "shares_only_padding padding ks \<and> is_pad padding i \<and> is_pad padding (length ks)" ..
next
  assume a: "shares_only_padding padding ks \<and> is_pad padding i \<and> is_pad padding (length ks)"
  show "shares_only_padding padding (ks @ [k])"
    unfolding shares_only_padding_def
  proof (intro allI impI)
    fix j i'
    assume j: "j < length (ks @ [k])" "i' < j" and eq: "(ks @ [k]) ! i' = (ks @ [k]) ! j"
    show "is_pad padding i' \<and> is_pad padding j"
    proof (cases "j < length ks")
      case True
      with a j eq show ?thesis by (auto simp: shares_only_padding_def nth_append)
    next
      case False
      with j have jl: "j = length ks" "i' < length ks" by auto
      with eq have ki: "ks ! i' = k" by (simp add: nth_append)
      have "i \<le> i'"
      proof (rule ccontr)
        assume "\<not> i \<le> i'"
        with jl ki have "k \<in> set (take i ks)" by (auto simp: in_set_conv_nth)
        with assms show False by (simp add: first_index_def)
      qed
      have "i < i' \<Longrightarrow> is_pad padding i'"
        using a [THEN conjunct1, unfolded shares_only_padding_def, rule_format, of i' i] assms jl ki
        by (simp add: first_index_def)
      with \<open>i \<le> i'\<close> a jl show ?thesis by (cases "i = i'") auto
    qed
  qed
qed

lemma collect_keys_step:
  assumes "shares_only_padding padding (keys_of lib sem done_paths)"
    and "collect_inv (keys_of lib sem done_paths) seen keys"
  shows "(\<exists>keys'. collect_keys lib sem padding (length done_paths) paths seen keys = Inr keys') \<longleftrightarrow>
      (\<forall>p \<in> set paths. validate_components lib p sem = Inr ()) \<and>
      shares_only_padding padding (keys_of lib sem (done_paths @ paths))"
  using assms
proof (induction paths arbitrary: done_paths seen keys)
  case Nil
  then show ?case by simp
next
  case (Cons p paths)
  let ?ks = "keys_of lib sem done_paths" and ?k = "path_key lib sem p"
  show ?case
  proof (cases "validate_components lib p sem")
    case (Inl e)
    then show ?thesis by simp
  next
    case (Inr u)
    show ?thesis
    proof (cases "seen ?k")
      case None
      then have nk: "?k \<notin> set ?ks" using Cons.prems(2) by (auto simp: collect_inv_def domIff)
      have "collect_inv (keys_of lib sem (done_paths @ [p])) (seen(?k \<mapsto> length done_paths))
          (keys @ [(?k, length done_paths)])"
        using collect_inv_new [OF Cons.prems(2) None] by simp
      from Cons.IH [OF _ this] Cons.prems(1) shares_snoc_new [OF nk] Inr None
      show ?thesis by (simp add: Let_def del: fun_upd_apply)
    next
      case (Some i)
      then have fi: "first_index ?ks ?k i" using Cons.prems(2) by (simp add: collect_inv_def)
      note sh = shares_snoc_old [OF fi, of padding]
      have inv: "collect_inv (keys_of lib sem (done_paths @ [p])) seen keys"
        using collect_inv_old [OF Cons.prems(2) Some] by simp
      show ?thesis
      proof (cases "is_pad padding i \<and> is_pad padding (length done_paths)")
        case True
        with sh Cons.prems(1) have "shares_only_padding padding (keys_of lib sem (done_paths @ [p]))" by simp
        from Cons.IH [OF this inv] this Cons.prems(1) True Inr Some
        show ?thesis by (simp add: Let_def is_pad_def split: option.splits)
      next
        case False
        have "\<not> shares_only_padding padding (?ks @ ?k # keys_of lib sem paths)"
        proof
          assume "shares_only_padding padding (?ks @ ?k # keys_of lib sem paths)"
          then have "shares_only_padding padding (?ks @ [?k])"
            using shares_appendD [of padding "?ks @ [?k]"] by simp
          with sh False show False by simp
        qed
        with False Inr Some Cons.prems(1) show ?thesis
          by (auto simp add: Let_def is_pad_def split: option.splits)
      qed
    qed
  qed
qed

lemma collect_keys_inv:
  assumes "collect_keys lib sem padding (length done_paths) paths seen keys = Inr keys'"
    and "collect_inv (keys_of lib sem done_paths) seen keys"
  shows "\<exists>seen'. collect_inv (keys_of lib sem (done_paths @ paths)) seen' keys'"
  using assms
proof (induction paths arbitrary: done_paths seen keys)
  case Nil
  then show ?case by auto
next
  case (Cons p paths)
  let ?k = "path_key lib sem p"
  show ?case
  proof (cases "seen ?k")
    case None
    with Cons.prems(1) have "collect_keys lib sem padding (length (done_paths @ [p])) paths
        (seen(?k \<mapsto> length done_paths)) (keys @ [(?k, length done_paths)]) = Inr keys'"
      by (auto simp: Let_def split: sum.splits)
    from Cons.IH [OF this] collect_inv_new [OF Cons.prems(2) None] show ?thesis
      by (simp del: fun_upd_apply)
  next
    case (Some i)
    with Cons.prems(1) have "collect_keys lib sem padding (length (done_paths @ [p])) paths seen keys = Inr keys'"
      by (auto simp: Let_def split: sum.splits if_splits)
    from Cons.IH [OF this] collect_inv_old [OF Cons.prems(2) Some] show ?thesis by simp
  qed
qed

lemma adjacent_scan_iff:
  assumes "distinct (map fst kis)"
  shows "adjacent_prefix (sort_key fst kis) = Inr () \<longleftrightarrow>
    (\<forall>a \<in> set (map fst kis). \<forall>b \<in> set (map fst kis). \<not> dir_conflict a b)"
proof -
  have "distinct (map fst (sort_key fst kis))"
    using assms by (simp add: distinct_map)
  then have st: "sorted_wrt (<) (map fst (sort_key fst kis))"
    by (simp add: strict_sorted_iff)
  show ?thesis
  proof (cases "adjacent_prefix (sort_key fst kis)")
    case (Inl e)
    from adjacent_prefix_sound [OF this] Inl show ?thesis by auto
  next
    case (Inr u)
    with adjacent_prefix_complete [OF _ st] show ?thesis by auto
  qed
qed

lemma manifest_paths_accepted:
  "validate_manifest_paths lib paths padding sem = Inr () \<longleftrightarrow>
     (\<forall>p \<in> set paths. validate_components lib p sem = Inr ()) \<and>
     shares_only_padding padding (keys_of lib sem paths) \<and>
     (\<forall>p \<in> set paths. \<forall>q \<in> set paths. \<not> dir_conflict (path_key lib sem p) (path_key lib sem q))"
proof -
  have inv0: "collect_inv (keys_of lib sem []) Map.empty []" by (simp add: collect_inv_def)
  have sh0: "shares_only_padding padding (keys_of lib sem [])" by (simp add: shares_only_padding_def)
  note step = collect_keys_step [OF sh0 inv0, where paths = paths, simplified]
  show ?thesis
  proof (cases "collect_keys lib sem padding 0 paths Map.empty []")
    case (Inl e)
    with step show ?thesis by (auto simp add: validate_manifest_paths_def)
  next
    case (Inr keys)
    then obtain seen' where "collect_inv (keys_of lib sem paths) seen' keys"
      using collect_keys_inv [OF _ inv0, where paths = paths] by force
    then have "distinct (map fst keys)" "set (map fst keys) = set (keys_of lib sem paths)"
      by (simp_all add: collect_inv_def)
    with adjacent_scan_iff [of keys] have
      "adjacent_prefix (sort_key fst keys) = Inr () \<longleftrightarrow>
       (\<forall>p \<in> set paths. \<forall>q \<in> set paths. \<not> dir_conflict (path_key lib sem p) (path_key lib sem q))"
      by (simp del: set_map) simp
    with step Inr show ?thesis
      by (simp add: validate_manifest_paths_def)
  qed
qed

lemma join_append:
  "xs \<noteq> [] \<Longrightarrow> ys \<noteq> [] \<Longrightarrow> join sep (xs @ ys) = join sep xs @ sep @ join sep ys"
proof (induction xs rule: induct_list012)
  case (2 x)
  then show ?case by (cases ys) auto
qed auto

lemma path_key_case_sensitive: "case_sensitive sem \<Longrightarrow> path_key lib sem p = join [NUL] p"
proof -
  assume "case_sensitive sem"
  then have "fold_component lib sem = id" by (auto simp: fold_component_def)
  then show ?thesis by (simp add: path_key_def)
qed

lemma paths_not_nested:
  assumes "validate_manifest_paths lib paths padding sem = Inr ()" "case_sensitive sem"
    and "p \<in> set paths" "q \<in> set paths"
  shows "\<not> strict_prefix p q"
proof
  assume "strict_prefix p q"
  then obtain r rs where q: "q = p @ r # rs" by (rule strict_prefixE')
  have "validate_components lib p sem = Inr ()" "\<not> dir_conflict (path_key lib sem p) (path_key lib sem q)"
    using assms by (auto simp: manifest_paths_accepted)
  moreover from this(1) have "p \<noteq> []" by (auto simp: validate_components_def)
  then have "path_key lib sem q = path_key lib sem p @ NUL # join [NUL] (r # rs)"
    using assms(2) by (simp add: q path_key_case_sensitive join_append)
  ultimately show False by (simp add: dir_conflict_def has_prefix_def)
qed

lemma component_error_None:
  "component_error lib sem i c = None \<Longrightarrow> c \<noteq> [] \<and> c \<noteq> ''.'' \<and> c \<noteq> ''..'' \<and> CHR ''/'' \<notin> set c \<and>
     CHR 0x5C \<notin> set c \<and> NUL \<notin> set c"
proof -
  assume n: "component_error lib sem i c = None"
  have "c \<noteq> [] \<and> \<not> (NUL \<in> set c \<or> contains_any c [CHR ''/'', CHR 0x5C]) \<and> \<not> (c = ''.'' \<or> c = ''..'')"
    using n unfolding component_error_def by (simp only: split: if_splits) simp_all
  then show ?thesis by (auto simp: contains_any_def list_ex_iff)
qed

lemma validated_components_safe:
  "validate_components lib p sem = Inr () \<Longrightarrow> p \<noteq> [] \<and>
     list_all (\<lambda>c. c \<noteq> [] \<and> c \<noteq> ''.'' \<and> c \<noteq> ''..'' \<and> CHR ''/'' \<notin> set c \<and> CHR 0x5C \<notin> set c \<and> NUL \<notin> set c) p"
proof -
  have "list_all (\<lambda>c. \<exists>i. component_error lib sem i c = None) p" if "components_error lib sem i p = None" for i
    using that by (induction p arbitrary: i) (auto split: option.splits)
  then show "validate_components lib p sem = Inr () \<Longrightarrow> ?thesis"
    by (auto simp: validate_components_def list_all_iff dest!: component_error_None split: if_splits option.splits)
qed

lemma component_error_None_printable:
  "component_error lib sem i c = None \<Longrightarrow> list_all (\<lambda>b. 32 \<le> byte_val b \<and> byte_val b \<noteq> 127) c"
proof -
  assume n: "component_error lib sem i c = None"
  have "\<not> list_ex (\<lambda>b. byte_val b < 32 \<or> byte_val b = 127) c"
    using n unfolding component_error_def by (simp only: split: if_splits) simp_all
  then show ?thesis by (auto simp: list_all_iff list_ex_iff not_less)
qed

lemma validated_components_printable:
  assumes "validate_components lib p sem = Inr ()"
  shows "list_all (list_all (\<lambda>b. 32 \<le> byte_val b \<and> byte_val b \<noteq> 127)) p"
proof -
  have "list_all (list_all (\<lambda>b. 32 \<le> byte_val b \<and> byte_val b \<noteq> 127)) p" if "components_error lib sem i p = None" for i
    using that by (induction p arbitrary: i) (auto dest: component_error_None_printable split: option.splits)
  with assms show ?thesis by (auto simp: validate_components_def split: if_splits option.splits)
qed

section \<open>Properties\<close>

text \<open>
  Claim C8. A manifest is accepted exactly when every path is valid component by component, two files
  share a key under the target semantics only if both are padding, and no key is a directory
  prefix of another: the single pass over sorted neighbours decides the quadratic condition.
\<close>

theorem manifest_paths_accepted_iff:
  "validate_manifest_paths lib paths padding sem = Inr () \<longleftrightarrow>
     (\<forall>p \<in> set paths. validate_components lib p sem = Inr ()) \<and>
     shares_only_padding padding (keys_of lib sem paths) \<and>
     (\<forall>p \<in> set paths. \<forall>q \<in> set paths. \<not> dir_conflict (path_key lib sem p) (path_key lib sem q))"
  by (rule manifest_paths_accepted)

theorem manifest_paths_accepted_iff_witness:
  "shares_only_padding (Some [False, True, True])
     (keys_of sample_lib \<lparr>windows = False, case_sensitive = True, unicode_normalization = False\<rparr>
       [[''a'', ''b''], [''p''], [''p'']])"
proof -
  have "validate_manifest_paths sample_lib [[''a'', ''b''], [''p''], [''p'']] (Some [False, True, True])
     \<lparr>windows = False, case_sensitive = True, unicode_normalization = False\<rparr> = Inr ()"
    by (simp add: validate_manifest_paths_def validate_components_def component_error_def
        path_key_def fold_component_def contains_any_def byte_val_def Let_def has_prefix_def)
  then show ?thesis unfolding manifest_paths_accepted_iff by blast
qed

text \<open>
  Under case-sensitive semantics (those of \<open>Parse\<close>) no accepted path is a directory above
  another accepted path, so every file of a manifest can exist next to every other.
\<close>

theorem accepted_paths_not_nested:
  assumes "validate_manifest_paths lib paths padding sem = Inr ()" "case_sensitive sem"
    and "p \<in> set paths" "q \<in> set paths"
  shows "\<not> strict_prefix p q"
  using paths_not_nested [OF assms] .

theorem accepted_paths_not_nested_witness:
  "\<not> strict_prefix [''a'', ''b''] [''a'', ''c'']"
proof -
  have "validate_manifest_paths sample_lib [[''a'', ''b''], [''a'', ''c'']] None
     \<lparr>windows = False, case_sensitive = True, unicode_normalization = False\<rparr> = Inr ()"
    by (simp add: validate_manifest_paths_def validate_components_def component_error_def
        path_key_def fold_component_def contains_any_def byte_val_def Let_def has_prefix_def)
  from accepted_paths_not_nested [OF this] show ?thesis by simp
qed

text \<open>The components that \<open>path.Clean\<close> keeps.\<close>

definition clean_component :: "bytes \<Rightarrow> bool" where
  "clean_component c \<longleftrightarrow> c \<noteq> [] \<and> c \<noteq> ''.'' \<and> c \<noteq> ''..'' \<and> CHR ''/'' \<notin> set c"

lemma foldl_clean_rooted:
  assumes "\<forall>c \<in> set st. clean_component c" "\<forall>c \<in> set cs. CHR ''/'' \<notin> set c"
  shows "\<forall>c \<in> set (foldl (clean_step True) st cs). clean_component c"
  using assms
proof (induction cs arbitrary: st)
  case (Cons c cs)
  have "\<forall>d \<in> set (clean_step True st c). clean_component d"
    using Cons.prems by (auto simp: clean_step_def clean_component_def dest: in_set_butlastD)
  with Cons show ?case by simp
qed simp

lemma foldl_clean_id:
  "\<forall>c \<in> set cs. clean_component c \<Longrightarrow> foldl (clean_step True) st cs = st @ cs"
  by (induction cs arbitrary: st) (auto simp: clean_step_def clean_component_def)

lemma path_clean_rooted_fixpoint:
  "hd p = CHR ''/'' \<and> p \<noteq> [] \<and> path_clean p = p \<longleftrightarrow>
     (\<exists>cs. (\<forall>c \<in> set cs. clean_component c) \<and> p = CHR ''/'' # join ''/'' cs)"
proof
  assume a: "hd p = CHR ''/'' \<and> p \<noteq> [] \<and> path_clean p = p"
  let ?cs = "foldl (clean_step True) [] (split_on CHR ''/'' p)"
  from a have "path_clean p = CHR ''/'' # join ''/'' ?cs" by (simp only: path_clean_def) (simp add: Let_def)
  with a have "p = CHR ''/'' # join ''/'' ?cs" by metis
  moreover have "\<forall>c \<in> set ?cs. clean_component c"
    by (rule foldl_clean_rooted) (auto dest: split_on_no_sep)
  ultimately show "\<exists>cs. (\<forall>c \<in> set cs. clean_component c) \<and> p = CHR ''/'' # join ''/'' cs" by blast
next
  assume "\<exists>cs. (\<forall>c \<in> set cs. clean_component c) \<and> p = CHR ''/'' # join ''/'' cs"
  then obtain cs where cs: "\<forall>c \<in> set cs. clean_component c" "p = CHR ''/'' # join ''/'' cs" by blast
  have "foldl (clean_step True) [] (split_on CHR ''/'' p) = cs"
  proof (cases "cs = []")
    case True
    with cs(2) show ?thesis by (simp add: clean_step_def)
  next
    case False
    with cs have "split_on CHR ''/'' p = [] # cs"
      using split_on_join [of cs "CHR ''/''"] by (auto simp: clean_component_def)
    with foldl_clean_id [OF cs(1), of "[]"] show ?thesis by (simp add: clean_step_def)
  qed
  with cs(2) show "hd p = CHR ''/'' \<and> p \<noteq> [] \<and> path_clean p = p" by (simp add: path_clean_def)
qed

lemma posix_client_root_iff:
  "validate_client_root lib root False = Inr clean \<longleftrightarrow>
     clean = root \<and> NUL \<notin> set root \<and> BSL \<notin> set root \<and>
     (\<exists>cs. list_all clean_component cs \<and> root = CHR ''/'' # join ''/'' cs)"
proof -
  have pre: "has_prefix (path_clean root) ''/'' \<and> path_clean root = root \<longleftrightarrow>
      hd root = CHR ''/'' \<and> root \<noteq> [] \<and> path_clean root = root"
    by (cases root) (auto simp: has_prefix_def)
  have "validate_client_root lib root False = Inr clean \<longleftrightarrow>
      clean = root \<and> NUL \<notin> set root \<and> BSL \<notin> set root \<and> root \<noteq> [] \<and>
      (has_prefix (path_clean root) ''/'' \<and> path_clean root = root)"
    by (auto simp: validate_client_root_def Let_def split: if_splits)
  then show ?thesis
    unfolding pre using path_clean_rooted_fixpoint [of root] by (auto simp: list_all_iff)
qed

text \<open>
  A POSIX client root is accepted exactly when it is \<open>/\<close> followed by clean components
  (no empty, \<open>.\<close> or \<open>..\<close> element) without NUL or backslash, and it is returned unchanged.
\<close>

theorem posix_client_root_accepted_iff:
  "validate_client_root lib root False = Inr clean \<longleftrightarrow>
     clean = root \<and> NUL \<notin> set root \<and> BSL \<notin> set root \<and>
     (\<exists>cs. list_all clean_component cs \<and> root = CHR ''/'' # join ''/'' cs)"
  by (rule posix_client_root_iff)

end
