(* ===== verification/Merkle.thy ===== *)
theory Merkle
  imports GoLib "HOL-Library.While_Combinator" "HOL-Library.Countable"
begin

text \<open>
  \<open>internal/metafile/merkle.go\<close>: the BEP 52 hash tree as the code computes it, with an accumulator of 64
  levels that merges equal subtrees like a binary counter, and its agreement with the recursive tree.
\<close>

unbundle bit_operations_syntax

section \<open>The accumulator\<close>

definition v2_block_size :: int64 where
  "v2_block_size = 16384"

datatype merkle_error =
    TreeTooHigh
  | TreeNotComplete
  | TreeNoLeaves
  | InvalidPieceLength
  | LeafCountNotPositive
  | LeafCountOverflow
  | InvalidLayerLength

record merkle_accumulator =
  acc_hashes :: "bytes list"
  acc_used :: "bool list"

definition zero_hash :: bytes where
  "zero_hash = replicate 32 NUL"

definition new_accumulator :: merkle_accumulator where
  "new_accumulator = \<lparr>acc_hashes = replicate 64 zero_hash, acc_used = replicate 64 False\<rparr>"

definition v2_hash_pair :: "golib \<Rightarrow> bytes \<Rightarrow> bytes \<Rightarrow> bytes" where
  "v2_hash_pair lib left right = gl_sha256 lib (left @ right)"

function acc_add :: "golib \<Rightarrow> bytes \<Rightarrow> nat \<Rightarrow> merkle_accumulator \<Rightarrow> merkle_error + merkle_accumulator" where
  "acc_add lib hash level a =
     (if length (acc_hashes a) \<le> level then Inl TreeTooHigh
      else if \<not> acc_used a ! level then
        Inr (a\<lparr>acc_hashes := (acc_hashes a)[level := hash], acc_used := (acc_used a)[level := True]\<rparr>)
      else acc_add lib (v2_hash_pair lib (acc_hashes a ! level) hash) (level + 1)
             (a\<lparr>acc_used := (acc_used a)[level := False]\<rparr>))"
  by pat_completeness auto
termination
  by (relation "measure (\<lambda>(_, _, level, a). length (acc_hashes a) - level)") auto

declare acc_add.simps [simp del]

text \<open>The loop of \<open>root\<close>: the first used level is remembered, a second one is an error.\<close>

fun root_loop :: "(bool \<times> bytes) list \<Rightarrow> bytes option \<Rightarrow> merkle_error + bytes" where
  "root_loop [] found = (case found of None \<Rightarrow> Inl TreeNoLeaves | Some root \<Rightarrow> Inr root)"
| "root_loop ((used, hash) # rest) found =
     (if \<not> used then root_loop rest found
      else if found \<noteq> None then Inl TreeNotComplete
      else root_loop rest (Some hash))"

definition acc_root :: "merkle_accumulator \<Rightarrow> merkle_error + bytes" where
  "acc_root a = root_loop (zip (acc_used a) (acc_hashes a)) None"

definition v2_zero_hash :: "golib \<Rightarrow> nat \<Rightarrow> bytes" where
  "v2_zero_hash lib level = ((\<lambda>zero. v2_hash_pair lib zero zero) ^^ level) zero_hash"

function depth_loop :: "int64 \<Rightarrow> nat \<Rightarrow> nat" where
  "depth_loop blocks depth =
     (if blocks > 1 then depth_loop (drop_bit 1 blocks) (depth + 1) else depth)"
  by pat_completeness auto
termination
  by (relation "measure (\<lambda>(blocks, _). nat blocks)") (auto simp: drop_bit_eq_div)

declare depth_loop.simps [simp del]

definition v2_piece_layer_depth :: "int64 \<Rightarrow> merkle_error + nat" where
  "v2_piece_layer_depth piece_length =
     (if piece_length < v2_block_size \<or> piece_length AND (piece_length - 1) \<noteq> 0 \<or>
         piece_length smod v2_block_size \<noteq> 0
      then Inl InvalidPieceLength
      else Inr (depth_loop (piece_length sdiv v2_block_size) 0))"

text \<open>The loop doubles \<open>power\<close> until it reaches \<open>value\<close> or could no longer be doubled in an \<open>int64\<close>.\<close>

definition next_power_of_two :: "int64 \<Rightarrow> merkle_error + int64" where
  "next_power_of_two value =
     (if value \<le> 0 then Inl LeafCountNotPositive
      else let power = while (\<lambda>p. p < value \<and> \<not> p > max_int64 sdiv 2) (\<lambda>p. p * 2) 1
           in if power < value then Inl LeafCountOverflow else Inr power)"

fun add_layer :: "golib \<Rightarrow> nat \<Rightarrow> bytes list \<Rightarrow> merkle_accumulator \<Rightarrow> merkle_error + merkle_accumulator" where
  "add_layer lib level [] a = Inr a"
| "add_layer lib level (hash # hashes) a =
     (case acc_add lib hash level a of Inl e \<Rightarrow> Inl e | Inr a' \<Rightarrow> add_layer lib level hashes a')"

text \<open>The hash at \<open>index\<close> of a piece layer.\<close>

definition layer_hash :: "bytes \<Rightarrow> nat \<Rightarrow> bytes" where
  "layer_hash layer index = take 32 (drop (index * 32) layer)"

definition reduce_v2_piece_layer :: "golib \<Rightarrow> bytes \<Rightarrow> int64 \<Rightarrow> int64 \<Rightarrow> merkle_error + bytes" where
  "reduce_v2_piece_layer lib layer count piece_length =
     rbind (v2_piece_layer_depth piece_length) (\<lambda>depth.
     if count \<le> 0 \<or> count > max_int64 sdiv 32 \<or> int (length layer) \<noteq> count * 32
     then Inl InvalidLayerLength
     else rbind (next_power_of_two count) (\<lambda>target.
     rbind (add_layer lib depth (map (layer_hash layer) [0..<nat count]) new_accumulator) (\<lambda>a.
     rbind (add_layer lib depth (replicate (nat (target - count)) (v2_zero_hash lib depth)) a) (\<lambda>a.
     acc_root a))))"

section \<open>Hashing a segment of a file\<close>

text \<open>
  The reader and the context of \<open>hashV2Segment\<close> are operations on a state \<open>'s\<close>: \<open>poll\<close> is the
  \<open>select\<close> on \<open>ctx.Done()\<close>, \<open>read_full n\<close> is \<open>io.ReadFull\<close> of \<open>n\<close> bytes.
\<close>

record ('s, 'e) segment_io =
  io_poll :: "'s \<Rightarrow> bool \<times> 's"
  io_read_full :: "nat \<Rightarrow> 's \<Rightarrow> ('e + bytes) \<times> 's"

datatype 'e segment_error =
    SegmentNoData
  | TargetNotPowerOfTwo
  | InvalidSegmentBounds
  | SegmentCancelled
  | SegmentRead 'e
  | SegmentTree merkle_error

function segment_loop ::
  "golib \<Rightarrow> ('s, 'e) segment_io \<Rightarrow> int64 \<Rightarrow> int64 \<Rightarrow> merkle_accumulator \<Rightarrow> 's \<Rightarrow>
     ('e segment_error + merkle_accumulator) \<times> 's" where
  "segment_loop lib io leaves remaining a s =
     (if leaves \<le> 0 then (Inr a, s)
      else
        (case io_poll io s of
          (True, s) \<Rightarrow> (Inl SegmentCancelled, s)
        | (False, s) \<Rightarrow>
            let block_bytes = (if remaining < v2_block_size then remaining else v2_block_size)
            in (case io_read_full io (nat block_bytes) s of
                 (Inl e, s) \<Rightarrow> (Inl (SegmentRead e), s)
               | (Inr block, s) \<Rightarrow>
                   (case acc_add lib (gl_sha256 lib block) 0 a of
                      Inl e \<Rightarrow> (Inl (SegmentTree e), s)
                    | Inr a \<Rightarrow> segment_loop lib io (leaves - 1) (remaining - block_bytes) a s))))"
  by pat_completeness auto
termination
  by (relation "measure (\<lambda>(_, _, leaves, _). nat leaves)") auto

declare segment_loop.simps [simp del]

definition hash_v2_segment ::
  "golib \<Rightarrow> ('s, 'e) segment_io \<Rightarrow> int64 \<Rightarrow> int64 \<Rightarrow> int64 \<Rightarrow> 's \<Rightarrow>
     ('e segment_error + bytes) \<times> 's" where
  "hash_v2_segment lib io data_bytes target_leaves buffer_len s =
     (if data_bytes \<le> 0 then (Inl SegmentNoData, s)
      else if target_leaves \<le> 0 \<or> target_leaves AND (target_leaves - 1) \<noteq> 0
      then (Inl TargetNotPowerOfTwo, s)
      else
        let actual_leaves = (data_bytes - 1) sdiv v2_block_size + 1
        in if actual_leaves > target_leaves \<or> buffer_len < v2_block_size then (Inl InvalidSegmentBounds, s)
           else
             (case segment_loop lib io actual_leaves data_bytes new_accumulator s of
                (Inl e, s) \<Rightarrow> (Inl e, s)
              | (Inr a, s) \<Rightarrow>
                  (case rbind (add_layer lib 0 (replicate (nat (target_leaves - actual_leaves)) zero_hash) a)
                          acc_root of
                     Inl e \<Rightarrow> (Inl (SegmentTree e), s)
                   | Inr root \<Rightarrow> (Inr root, s))))"

section \<open>The recursive tree\<close>

text \<open>The root of a complete tree of height \<open>h\<close> over \<open>2 ^ h\<close> leaves.\<close>

fun tree_root :: "golib \<Rightarrow> nat \<Rightarrow> bytes list \<Rightarrow> bytes" where
  "tree_root lib 0 leaves = hd leaves"
| "tree_root lib (Suc h) leaves =
     v2_hash_pair lib (tree_root lib h (take (2 ^ h) leaves)) (tree_root lib h (drop (2 ^ h) leaves))"

lemma tree_root_append:
  "length xs = 2 ^ h \<Longrightarrow> tree_root lib (Suc h) (xs @ ys) =
     v2_hash_pair lib (tree_root lib h xs) (tree_root lib h ys)"
  by simp

lemma v2_zero_hash_tree: "v2_zero_hash lib level = tree_root lib level (replicate (2 ^ level) zero_hash)"
  by (induction level) (simp_all add: v2_zero_hash_def min_def)

text \<open>
  The invariant of the accumulator when leaves enter at level \<open>base\<close>: each used level holds the root of a
  complete subtree, and the subtrees read from the highest level down are the leaves in order.
\<close>

definition acc_repr ::
  "golib \<Rightarrow> nat \<Rightarrow> (nat \<Rightarrow> bytes list) \<Rightarrow> merkle_accumulator \<Rightarrow> bool" where
  "acc_repr lib base seg a \<longleftrightarrow>
     length (acc_hashes a) = 64 \<and> length (acc_used a) = 64 \<and>
     (\<forall>l < 64. if acc_used a ! l
        then base \<le> l \<and> length (seg l) = 2 ^ (l - base) \<and> acc_hashes a ! l = tree_root lib (l - base) (seg l)
        else seg l = [])"

definition acc_leaves :: "(nat \<Rightarrow> bytes list) \<Rightarrow> bytes list" where
  "acc_leaves seg = concat (map seg (rev [0..<64]))"

lemma acc_repr_new: "acc_repr lib base (\<lambda>_. []) new_accumulator"
  by (simp add: acc_repr_def new_accumulator_def)

lemma acc_leaves_new [simp]: "acc_leaves (\<lambda>_. []) = []"
  by (simp add: acc_leaves_def)

lemma acc_leaves_lowest:
  assumes "level < 64" "\<forall>l < level. seg l = []"
  shows "acc_leaves seg = concat (map seg (rev [Suc level..<64])) @ seg level"
proof -
  have "[0..<64] = [0..<level] @ level # [Suc level..<64]"
    using assms(1) upt_add_eq_append [of 0 level "64 - level"] by (simp add: upt_conv_Cons)
  moreover have "concat (map seg (rev [0..<level])) = []"
    using assms(2) by auto
  ultimately show ?thesis by (simp add: acc_leaves_def)
qed

lemma acc_add_repr:
  assumes "acc_repr lib base seg a" "base \<le> level" "level \<le> 64" "\<forall>l < level. seg l = []"
    and "length xs = 2 ^ (level - base)" "hash = tree_root lib (level - base) xs"
  shows "case acc_add lib hash level a of
           Inl e \<Rightarrow> e = TreeTooHigh \<and> 2 ^ (64 - base) \<le> length (acc_leaves seg @ xs)
         | Inr a' \<Rightarrow> (\<exists>seg'. acc_repr lib base seg' a' \<and> acc_leaves seg' = acc_leaves seg @ xs)"
  using assms
proof (induction lib hash level a arbitrary: seg xs rule: acc_add.induct)
  case (1 lib hash level a)
  have len: "length (acc_hashes a) = 64" "length (acc_used a) = 64"
    using "1.prems"(1) by (simp_all add: acc_repr_def)
  consider "level = 64" | "level < 64" "\<not> acc_used a ! level" | "level < 64" "acc_used a ! level"
    using "1.prems"(3) by linarith
  then show ?case
  proof cases
    assume l: "level = 64"
    then have "acc_add lib hash level a = Inl TreeTooHigh"
      using len by (simp add: acc_add.simps)
    with "1.prems" l show ?thesis by simp
  next
    assume l: "level < 64" "\<not> acc_used a ! level"
    let ?seg = "seg(level := xs)"
    have "seg level = []" using "1.prems"(1) l by (auto simp: acc_repr_def)
    moreover have "map ?seg (rev [Suc level..<64]) = map seg (rev [Suc level..<64])"
      by (rule map_cong) auto
    ultimately have "acc_leaves ?seg = acc_leaves seg @ xs"
      using acc_leaves_lowest [OF l(1), of seg] acc_leaves_lowest [OF l(1), of ?seg] "1.prems"(4) by simp
    moreover have "acc_repr lib base ?seg
        (a\<lparr>acc_hashes := (acc_hashes a)[level := hash], acc_used := (acc_used a)[level := True]\<rparr>)"
      using "1.prems" l len by (auto simp: acc_repr_def nth_list_update)
    ultimately show ?thesis
      using l len by (subst acc_add.simps) auto
  next
    assume l: "level < 64" "acc_used a ! level"
    let ?seg = "seg(level := [])" and ?xs = "seg level @ xs"
    let ?h = "v2_hash_pair lib (acc_hashes a ! level) hash"
    let ?a = "a\<lparr>acc_used := (acc_used a)[level := False]\<rparr>"
    have at: "base \<le> level" "length (seg level) = 2 ^ (level - base)"
      "acc_hashes a ! level = tree_root lib (level - base) (seg level)"
      using "1.prems"(1) l by (auto simp: acc_repr_def split: if_splits)
    have suc: "level + 1 - base = Suc (level - base)" using at(1) by simp
    have "map ?seg (rev [Suc level..<64]) = map seg (rev [Suc level..<64])"
      by (rule map_cong) auto
    then have leaves: "acc_leaves ?seg @ ?xs = acc_leaves seg @ xs"
      using acc_leaves_lowest [OF l(1), of seg] acc_leaves_lowest [OF l(1), of ?seg] "1.prems"(4) by simp
    have "acc_repr lib base ?seg ?a"
      using "1.prems"(1) l len by (auto simp: acc_repr_def nth_list_update)
    moreover have "\<forall>k < level + 1. ?seg k = []" using "1.prems"(4) by (auto simp: less_Suc_eq)
    moreover have "length ?xs = 2 ^ (level + 1 - base)" "?h = tree_root lib (level + 1 - base) ?xs"
      using at "1.prems"(5,6) unfolding suc by simp_all
    ultimately have "case acc_add lib ?h (level + 1) ?a of
           Inl e \<Rightarrow> e = TreeTooHigh \<and> 2 ^ (64 - base) \<le> length (acc_leaves ?seg @ ?xs)
         | Inr a' \<Rightarrow> (\<exists>seg'. acc_repr lib base seg' a' \<and> acc_leaves seg' = acc_leaves ?seg @ ?xs)"
      using "1.IH" l len at(1) by simp
    then show ?thesis
      using l len unfolding leaves acc_add.simps [of lib hash level a] by simp
  qed
qed

text \<open>Adding leaves one by one at level \<open>base\<close>; each leaf stands for itself in the tree above \<open>base\<close>.\<close>

lemma add_layer_repr:
  assumes "acc_repr lib base seg a" "base \<le> 64"
  shows "case add_layer lib base hs a of
           Inl e \<Rightarrow> e = TreeTooHigh \<and> 2 ^ (64 - base) \<le> length (acc_leaves seg @ hs)
         | Inr a' \<Rightarrow> (\<exists>seg'. acc_repr lib base seg' a' \<and> acc_leaves seg' = acc_leaves seg @ hs)"
  using assms
proof (induction hs arbitrary: seg a)
  case (Cons h hs)
  have low: "\<forall>l < base. seg l = []"
    using Cons.prems by (auto simp: acc_repr_def split: if_splits dest: order.strict_trans2)
  have step: "case acc_add lib h base a of
           Inl e \<Rightarrow> e = TreeTooHigh \<and> 2 ^ (64 - base) \<le> length (acc_leaves seg @ [h])
         | Inr a' \<Rightarrow> (\<exists>seg'. acc_repr lib base seg' a' \<and> acc_leaves seg' = acc_leaves seg @ [h])"
    using acc_add_repr [OF Cons.prems(1) order_refl Cons.prems(2) low, of "[h]" h] by simp
  show ?case
  proof (cases "acc_add lib h base a")
    case (Inl e)
    with step show ?thesis by auto
  next
    case (Inr a')
    with step obtain seg' where seg': "acc_repr lib base seg' a'" "acc_leaves seg' = acc_leaves seg @ [h]"
      by auto
    then have eq: "acc_leaves seg @ h # hs = acc_leaves seg' @ hs" by simp
    show ?thesis
      using Cons.IH [OF seg'(1) Cons.prems(2)] unfolding add_layer.simps Inr eq sum.case .
  qed
qed auto

lemma root_loop_unused: "\<forall>x \<in> set xs. \<not> fst x \<Longrightarrow> root_loop (xs @ ys) found = root_loop ys found"
  by (induction xs) (auto split: prod.splits)

lemma root_loop_unique:
  assumes "i < length xs" "\<forall>j < length xs. fst (xs ! j) \<longleftrightarrow> j = i"
  shows "root_loop xs None = Inr (snd (xs ! i))"
proof -
  have xs: "xs = take i xs @ (fst (xs ! i), snd (xs ! i)) # drop (Suc i) xs"
    using assms(1) by (simp add: id_take_nth_drop)
  have "\<not> fst x" if "x \<in> set (take i xs)" for x
    using assms that unfolding in_set_conv_nth by fastforce
  moreover have "\<not> fst x" if "x \<in> set (drop (Suc i) xs)" for x
    using assms that unfolding in_set_conv_nth by fastforce
  ultimately have "\<forall>x \<in> set (take i xs). \<not> fst x" "\<forall>x \<in> set (drop (Suc i) xs). \<not> fst x"
    by blast+
  then have "root_loop (take i xs @ (True, snd (xs ! i)) # drop (Suc i) xs) None = Inr (snd (xs ! i))"
    using root_loop_unused [of "drop (Suc i) xs" "[]"] by (simp add: root_loop_unused)
  then show ?thesis using assms xs by metis
qed

lemma acc_leaves_length: "length (acc_leaves seg) = (\<Sum>l < 64. length (seg l))"
proof -
  have "length (acc_leaves seg) = (\<Sum>l\<leftarrow>[0..<64]. length (seg l))"
    by (simp add: acc_leaves_def length_concat rev_map comp_def flip: rev_map)
  then show ?thesis by (simp add: interv_sum_list_conv_sum_set_nat atLeast0LessThan)
qed

lemma acc_leaves_bound:
  assumes "acc_repr lib base seg a" "base \<le> 64"
  shows "length (acc_leaves seg) < 2 ^ (64 - base)"
proof -
  have "length (acc_leaves seg) \<le> (\<Sum>l < 64. if base \<le> l then 2 ^ (l - base) else 0)"
    unfolding acc_leaves_length using assms(1)
    by (intro sum_mono) (auto simp: acc_repr_def split: if_splits)
  also have "\<dots> = (\<Sum>l \<in> {base..<64}. 2 ^ (l - base))"
    by (rule sum.mono_neutral_cong_right) auto
  also have "\<dots> = (\<Sum>i < 64 - base. 2 ^ i)"
    by (rule sum.reindex_bij_witness [where i = "\<lambda>i. i + base" and j = "\<lambda>l. l - base"]) (use assms(2) in auto)
  also have "\<dots> < 2 ^ (64 - base)"
    using sum_power2 [of "64 - base"] by (simp add: atLeast0LessThan)
  finally show ?thesis .
qed

lemma acc_root_complete:
  assumes "acc_repr lib base seg a" "length (acc_leaves seg) = 2 ^ k" "base + k < 64"
  shows "acc_root a = Inr (tree_root lib k (acc_leaves seg))"
proof -
  let ?used = "\<lambda>l. acc_used a ! l"
  let ?U = "{l. l < 64 \<and> ?used l}"
  have repr: "l < 64 \<Longrightarrow> if ?used l
        then base \<le> l \<and> length (seg l) = 2 ^ (l - base) \<and> acc_hashes a ! l = tree_root lib (l - base) (seg l)
        else seg l = []" for l
    using assms(1) by (simp add: acc_repr_def)
  have "length (acc_leaves seg) = (\<Sum>l < 64. length (seg l))"
    by (rule acc_leaves_length)
  also have "\<dots> = (\<Sum>l \<in> ?U. length (seg l))"
    by (rule sum.mono_neutral_right) (use repr in \<open>auto split: if_splits\<close>)
  also have "\<dots> = (\<Sum>l \<in> ?U. 2 ^ (l - base))"
    by (rule sum.cong) (use repr in \<open>auto split: if_splits\<close>)
  also have "\<dots> = set_encode ((\<lambda>l. l - base) ` ?U)"
  proof -
    have "inj_on (\<lambda>l. l - base) ?U"
      using repr by (auto simp: inj_on_def split: if_splits) (metis eq_diff_iff)
    then show ?thesis by (simp add: set_encode_def sum.reindex comp_def)
  qed
  finally have "set_encode ((\<lambda>l. l - base) ` ?U) = set_encode {k}"
    using assms(2) by (simp add: set_encode_def)
  then have shifted: "(\<lambda>l. l - base) ` ?U = {k}"
    by (rule inj_onD [OF inj_on_set_encode]) simp_all
  have only: "?used l \<longleftrightarrow> l = base + k" if "l < 64" for l
  proof
    assume "?used l"
    with that shifted have "l - base = k" by blast
    with repr [OF that] \<open>?used l\<close> show "l = base + k" by auto
  next
    assume l: "l = base + k"
    from shifted obtain m where m: "m < 64" "?used m" "m - base = k" by blast
    with repr [OF m(1)] have "m = l" by (auto simp: l)
    with m show "?used l" by simp
  qed
  have at: "?used (base + k)" "acc_hashes a ! (base + k) = tree_root lib k (seg (base + k))"
    using only [OF assms(3)] repr [OF assms(3)] by auto
  have "seg l = []" if "l < 64" "l \<noteq> base + k" for l
    using repr [OF that(1)] only [OF that(1)] that(2) by simp
  then have "acc_leaves seg = seg (base + k)"
    using acc_leaves_lowest [OF assms(3), of seg] assms(3) by (auto simp: concat_eq_Nil_conv)
  moreover have "acc_root a = Inr (acc_hashes a ! (base + k))"
    using root_loop_unique [of "base + k" "zip (acc_used a) (acc_hashes a)"] assms only
    by (simp add: acc_root_def acc_repr_def)
  ultimately show ?thesis using at by simp
qed

section \<open>Powers of two\<close>

lemma and_pred_double:
  fixes q :: int
  shows "(2 * q) AND (2 * q - 1) = 2 * (q AND (q - 1))" "(2 * q + 1) AND (2 * q) = 2 * q"
proof -
  have "(2 * q - 1) div 2 = q - 1" by simp
  then show "(2 * q) AND (2 * q - 1) = 2 * (q AND (q - 1))"
    by (simp add: and_int_rec [of "2 * q"])
  show "(2 * q + 1) AND (2 * q) = 2 * q"
    by (simp add: and_int_rec [of "2 * q + 1"])
qed

lemma and_pred_zero_iff:
  fixes p :: int
  assumes "0 < p"
  shows "p AND (p - 1) = 0 \<longleftrightarrow> (\<exists>k. p = 2 ^ k)"
  using assms
proof (induction "nat p" arbitrary: p rule: less_induct)
  case less
  show ?case
  proof (cases "even p")
    case True
    then obtain q where q: "p = 2 * q" by blast
    with less.prems have "0 < q" "nat q < nat p" by auto
    with less.hyps have "q AND (q - 1) = 0 \<longleftrightarrow> (\<exists>k. q = 2 ^ k)" by blast
    moreover have "(\<exists>k. 2 * q = 2 ^ k) \<longleftrightarrow> (\<exists>k. q = 2 ^ k)"
    proof
      assume "\<exists>k. 2 * q = 2 ^ k"
      then obtain k where k: "2 * q = 2 ^ k" by blast
      then have "k \<noteq> 0" by (intro notI) (simp, presburger)
      then obtain j where "k = Suc j" using not0_implies_Suc by blast
      with k show "\<exists>k. q = 2 ^ k" by auto
    next
      assume "\<exists>k. q = 2 ^ k"
      then show "\<exists>k. 2 * q = 2 ^ k" by (metis power_Suc)
    qed
    ultimately show ?thesis by (simp add: q and_pred_double)
  next
    case False
    then obtain q where q: "p = 2 * q + 1" using oddE by blast
    have "(\<exists>k. 2 * q + 1 = 2 ^ k) \<longleftrightarrow> q = 0"
    proof
      assume "\<exists>k. 2 * q + 1 = 2 ^ k"
      then obtain k where k: "2 * q + 1 = 2 ^ k" by blast
      then have "odd ((2::int) ^ k)" by (metis even_plus_one_iff dvd_triv_left)
      then have "k = 0" by simp
      with k show "q = 0" by simp
    qed (auto intro: exI [of _ 0])
    then show ?thesis by (simp add: q and_pred_double)
  qed
qed

lemma depth_loop_power: "depth_loop (2 ^ k) d = d + k"
proof (induction k arbitrary: d)
  case 0
  show ?case by (simp add: depth_loop.simps)
next
  case (Suc k)
  have "drop_bit 1 (2 ^ Suc k :: int) = 2 ^ k" "(1::int) < 2 ^ Suc k"
    by (simp_all add: drop_bit_eq_div one_less_power del: power_Suc) simp
  with Suc show ?case by (subst depth_loop.simps) simp
qed

lemma v2_piece_layer_depth_iff:
  "v2_piece_layer_depth p = Inr d \<longleftrightarrow> p = 2 ^ (14 + d)"
proof
  assume r: "v2_piece_layer_depth p = Inr d"
  then have p: "16384 \<le> p" "p AND (p - 1) = 0"
    by (auto simp: v2_piece_layer_depth_def v2_block_size_def split: if_splits)
  then obtain k where k: "p = 2 ^ k" using and_pred_zero_iff [of p] by auto
  have "14 \<le> k"
  proof (rule ccontr)
    assume "\<not> 14 \<le> k"
    then have "(2::int) ^ k < 2 ^ 14" by (intro power_strict_increasing) auto
    with p(1) k show False by simp
  qed
  then obtain j where j: "k = 14 + j" using le_Suc_ex by blast
  then have "p sdiv v2_block_size = 2 ^ j"
    by (simp add: k int64_simps v2_block_size_def power_add)
  with r have "d = j" by (simp add: v2_piece_layer_depth_def depth_loop_power split: if_splits)
  with k j show "p = 2 ^ (14 + d)" by simp
next
  assume p: "p = 2 ^ (14 + d)"
  then have "0 < p" "16384 \<le> p" "p = 2 ^ d * 16384" "(1::int) \<le> 2 ^ d" by (simp_all add: power_add)
  moreover from this have "p AND (p - 1) = 0" using and_pred_zero_iff [of p] p by blast
  ultimately show "v2_piece_layer_depth p = Inr d"
    by (simp add: v2_piece_layer_depth_def v2_block_size_def int64_simps depth_loop_power not_less)
qed

text \<open>The height of the smallest complete tree with at least \<open>n\<close> leaves.\<close>

fun tree_height :: "nat \<Rightarrow> nat" where
  "tree_height n = (if n \<le> 1 then 0 else Suc (tree_height ((n + 1) div 2)))"

declare tree_height.simps [simp del]

lemma tree_height_bounds:
  "n \<le> 2 ^ tree_height n \<and> (0 < tree_height n \<longrightarrow> 2 ^ (tree_height n - 1) < n)"
proof (induction n rule: tree_height.induct)
  case (1 n)
  show ?case
  proof (cases "n \<le> 1")
    case True
    then show ?thesis by (simp add: tree_height.simps [of n])
  next
    case False
    let ?m = "(n + 1) div 2"
    have ih: "?m \<le> 2 ^ tree_height ?m" "0 < tree_height ?m \<Longrightarrow> 2 ^ (tree_height ?m - 1) < ?m"
      using 1 False by auto
    show ?thesis
    proof (cases "tree_height ?m = 0")
      case True
      with ih(1) False show ?thesis by (simp add: tree_height.simps [of n])
    next
      case f: False
      then obtain j where j: "tree_height ?m = Suc j" using not0_implies_Suc by blast
      with ih(2) have "2 ^ j < ?m" by simp
      then have "2 * 2 ^ j < n" by linarith
      with ih(1) j False show ?thesis by (simp add: tree_height.simps [of n])
    qed
  qed
qed

lemma tree_height_unique:
  assumes "n \<le> 2 ^ k" "0 < k \<Longrightarrow> 2 ^ (k - 1) < n"
  shows "tree_height n = k"
proof (rule antisym)
  let ?h = "tree_height n"
  show "?h \<le> k"
  proof (rule ccontr)
    assume "\<not> ?h \<le> k"
    then have "0 < ?h" "(2::nat) ^ k \<le> 2 ^ (?h - 1)" by (auto intro: power_increasing)
    with tree_height_bounds [of n] assms(1) show False by linarith
  qed
  show "k \<le> ?h"
  proof (rule ccontr)
    assume "\<not> k \<le> ?h"
    then have "0 < k" "(2::nat) ^ ?h \<le> 2 ^ (k - 1)" by (auto intro: power_increasing)
    with tree_height_bounds [of n] assms(2) show False by linarith
  qed
qed

lemma next_power_of_two_eq:
  assumes "0 < value" "value \<le> 2 ^ 62"
  shows "next_power_of_two value = Inr (2 ^ tree_height (nat value))"
proof -
  let ?b = "\<lambda>p. p < value \<and> \<not> p > max_int64 sdiv 2"
  let ?I = "\<lambda>p. \<exists>k. p = 2 ^ k \<and> (0 < k \<longrightarrow> 2 ^ (k - 1) < value)"
  have half: "max_int64 sdiv 2 = 2 ^ 62 - 1"
    by (simp add: max_int64_def int64_simps)
  have "?I (while ?b (\<lambda>p. p * 2) 1) \<and> \<not> ?b (while ?b (\<lambda>p. p * 2) 1)"
  proof (rule while_rule [where P = ?I and r = "measure (\<lambda>p. nat (value - p))"])
    show "?I 1" by (auto intro!: exI [of _ 0])
    show "?I (p * 2)" if "?I p" "?b p" for p
    proof -
      from that(1) obtain k where "p = 2 ^ k" by blast
      with that(2) show ?thesis by (intro exI [of _ "Suc k"]) simp
    qed
    show "(p * 2, p) \<in> measure (\<lambda>p. nat (value - p))" if "?I p" "?b p" for p
    proof -
      from that(1) have "0 < p" by auto
      with that(2) show ?thesis by auto
    qed
  qed auto
  then obtain k where k: "while ?b (\<lambda>p. p * 2) 1 = 2 ^ k" "0 < k \<longrightarrow> 2 ^ (k - 1) < value"
    and "\<not> ?b (while ?b (\<lambda>p. p * 2) 1)" by blast
  from this(3) have "\<not> ?b (2 ^ k)" unfolding k(1) .
  with assms(2) have "value \<le> 2 ^ k" unfolding half by linarith
  moreover have "tree_height (nat value) = k"
    by (rule tree_height_unique) (use k(2) \<open>value \<le> 2 ^ k\<close> in \<open>simp_all add: nat_le_iff zless_nat_eq_int_zless\<close>)
  ultimately show ?thesis
    using assms(1) k(1) by (simp add: next_power_of_two_def Let_def not_less)
qed

section \<open>The piece layer against the tree\<close>

definition layer_hashes :: "bytes \<Rightarrow> nat \<Rightarrow> bytes list" where
  "layer_hashes layer n = map (layer_hash layer) [0..<n]"

definition padded_leaves :: "bytes \<Rightarrow> bytes list \<Rightarrow> bytes list" where
  "padded_leaves zero hs = hs @ replicate (2 ^ tree_height (length hs) - length hs) zero"

lemma padded_leaves_length [simp]: "length (padded_leaves zero hs) = 2 ^ tree_height (length hs)"
  using tree_height_bounds [of "length hs"] by (simp add: padded_leaves_def)

lemma padded_leaves_member: "x \<in> set (padded_leaves zero hs) \<Longrightarrow> x \<in> set hs \<or> x = zero"
  by (auto simp: padded_leaves_def)

lemma add_layer_append:
  "add_layer lib level (xs @ ys) a = rbind (add_layer lib level xs a) (add_layer lib level ys)"
  by (induction xs arbitrary: a) (auto split: sum.splits)

lemma add_layer_root:
  assumes "length hs = 2 ^ k" "base \<le> 64"
  shows "rbind (add_layer lib base hs new_accumulator) acc_root =
           (if base + k < 64 then Inr (tree_root lib k hs) else Inl TreeTooHigh)"
proof -
  note step = add_layer_repr [OF acc_repr_new assms(2), where hs = hs and lib = lib, simplified]
  show ?thesis
  proof (cases "add_layer lib base hs new_accumulator")
    case (Inl e)
    with step assms(1) have "(2::nat) ^ (64 - base) \<le> 2 ^ k" "e = TreeTooHigh" by simp_all
    then have "64 - base \<le> k" by (simp add: power_le_imp_le_exp)
    with Inl \<open>e = _\<close> show ?thesis by simp
  next
    case (Inr a)
    with step obtain seg where seg: "acc_repr lib base seg a" "acc_leaves seg = hs" by auto
    show ?thesis
    proof (cases "base + k < 64")
      case True
      with acc_root_complete [OF seg(1)] seg(2) assms(1) Inr show ?thesis by simp
    next
      case False
      then have "(2::nat) ^ (64 - base) \<le> 2 ^ k" by (intro power_increasing) auto
      with acc_leaves_bound [OF seg(1) assms(2)] seg(2) assms(1) show ?thesis by simp
    qed
  qed
qed

lemma layer_hashes_length [simp]: "length (layer_hashes layer n) = n"
  by (simp add: layer_hashes_def)

text \<open>
  Claim C7. \<open>reduceV2PieceLayer\<close> succeeds exactly when the piece length is a power of two of at least
  16 KiB, the layer is \<open>count\<close> hashes of 32 bytes and the tree is lower than 64 levels; the result is the
  root of the recursive tree over the layer, padded on the right with roots of all-padding subtrees.
\<close>

theorem reduce_v2_piece_layer_iff:
  "reduce_v2_piece_layer lib layer count piece_length = Inr r \<longleftrightarrow>
     (\<exists>d. piece_length = 2 ^ (14 + d) \<and> 0 < count \<and> count \<le> max_int64 div 32 \<and>
        int (length layer) = count * 32 \<and> d + tree_height (nat count) < 64 \<and>
        r = tree_root lib (tree_height (nat count))
              (padded_leaves (tree_root lib d (replicate (2 ^ d) zero_hash)) (layer_hashes layer (nat count))))"
    (is "?l \<longleftrightarrow> (\<exists>d. ?r d)")
proof -
  have key: "reduce_v2_piece_layer lib layer count piece_length = Inr r \<longleftrightarrow> ?r d"
    if d: "v2_piece_layer_depth piece_length = Inr d" for d
  proof (cases "0 < count \<and> count \<le> max_int64 div 32 \<and> int (length layer) = count * 32")
    case True
    let ?h = "tree_height (nat count)" and ?hs = "layer_hashes layer (nat count)"
    have "count \<le> 2 ^ 62" using True by (simp add: max_int64_def)
    then have target: "next_power_of_two count = Inr (2 ^ ?h)"
      using True by (simp add: next_power_of_two_eq)
    have pads: "nat (2 ^ ?h - count) = 2 ^ ?h - length ?hs"
      using True by (simp add: nat_diff_distrib' nat_power_eq)
    have fold: "rbind (add_layer lib d ?hs new_accumulator)
        (\<lambda>a. rbind (add_layer lib d (replicate (2 ^ ?h - length ?hs) z) a) acc_root) =
        rbind (add_layer lib d (padded_leaves z ?hs) new_accumulator) acc_root" for z
      by (simp add: padded_leaves_def add_layer_append)
         (cases "add_layer lib d ?hs new_accumulator"; simp)
    have "d < 64 \<or> 64 \<le> d" by linarith
    then have sum: "rbind (add_layer lib d (padded_leaves z ?hs) new_accumulator) acc_root =
        (if d + ?h < 64 then Inr (tree_root lib ?h (padded_leaves z ?hs)) else Inl TreeTooHigh)" for z
    proof
      assume "d < 64"
      then show ?thesis using add_layer_root [of "padded_leaves z ?hs" ?h d lib] by simp
    next
      assume "64 \<le> d"
      moreover obtain x xs where "padded_leaves z ?hs = x # xs"
        by (metis list.exhaust list.size(3) padded_leaves_length power_not_zero zero_neq_numeral)
      ultimately show ?thesis by (simp add: acc_add.simps new_accumulator_def)
    qed
    have limit: "max_int64 sdiv 32 = max_int64 div 32"
      by (simp add: max_int64_def int64_simps)
    have "reduce_v2_piece_layer lib layer count piece_length =
        rbind (add_layer lib d (padded_leaves (v2_zero_hash lib d) ?hs) new_accumulator) acc_root"
      using True d unfolding reduce_v2_piece_layer_def layer_hashes_def [symmetric]
      by (simp add: target pads fold [unfolded layer_hashes_length] limit)
    moreover have "piece_length = 2 ^ (14 + d)" using d by (simp add: v2_piece_layer_depth_iff)
    ultimately show ?thesis
      unfolding sum v2_zero_hash_tree using True by auto
  next
    case False
    then show ?thesis
      using d by (auto simp: reduce_v2_piece_layer_def int64_simps max_int64_def)
  qed
  show ?thesis
  proof
    assume ?l
    then obtain d where d: "v2_piece_layer_depth piece_length = Inr d"
      by (auto simp: reduce_v2_piece_layer_def result_simps)
    with key \<open>?l\<close> show "\<exists>d. ?r d" by blast
  next
    assume "\<exists>d. ?r d"
    then obtain d where "?r d" by blast
    then show ?l using key [of d] by (simp add: v2_piece_layer_depth_iff)
  qed
qed

text \<open>The byte sequences that are hashed on the way from the leaves to the root.\<close>

fun tree_inputs :: "golib \<Rightarrow> nat \<Rightarrow> bytes list \<Rightarrow> bytes list" where
  "tree_inputs lib 0 leaves = []"
| "tree_inputs lib (Suc h) leaves =
     (tree_root lib h (take (2 ^ h) leaves) @ tree_root lib h (drop (2 ^ h) leaves)) #
     tree_inputs lib h (take (2 ^ h) leaves) @ tree_inputs lib h (drop (2 ^ h) leaves)"

definition collide :: "golib \<Rightarrow> bytes list \<Rightarrow> bytes list \<Rightarrow> bool" where
  "collide lib xs ys \<longleftrightarrow> list_ex (\<lambda>x. list_ex (\<lambda>y. x \<noteq> y \<and> gl_sha256 lib x = gl_sha256 lib y) ys) xs"

lemma collide_iff:
  "collide lib xs ys \<longleftrightarrow> (\<exists>x \<in> set xs. \<exists>y \<in> set ys. x \<noteq> y \<and> gl_sha256 lib x = gl_sha256 lib y)"
  by (simp add: collide_def list_ex_iff)

lemma tree_root_length:
  "digest_sizes lib \<Longrightarrow> length leaves = 2 ^ h \<Longrightarrow> \<forall>x \<in> set leaves. length x = 32 \<Longrightarrow>
     length (tree_root lib h leaves) = 32"
  by (cases h; cases leaves) (auto simp: v2_hash_pair_def digest_sizes_def)

lemma tree_root_inject:
  assumes "digest_sizes lib" "length xs = 2 ^ h" "length ys = 2 ^ h"
    and "\<forall>x \<in> set xs. length x = 32" "\<forall>y \<in> set ys. length y = 32"
    and "tree_root lib h xs = tree_root lib h ys"
  shows "xs = ys \<or> collide lib (tree_inputs lib h xs) (tree_inputs lib h ys)"
  using assms(2-)
proof (induction h arbitrary: xs ys)
  case 0
  then show ?case by (cases xs; cases ys) auto
next
  case (Suc h)
  let ?l = "take (2 ^ h)" and ?r = "drop (2 ^ h)"
  have halves: "length (?l zs) = 2 ^ h" "length (?r zs) = 2 ^ h" "\<forall>z \<in> set (?l zs). length z = 32"
    "\<forall>z \<in> set (?r zs). length z = 32" if "length zs = 2 ^ Suc h" "\<forall>z \<in> set zs. length z = 32" for zs
    using that by (auto dest: in_set_takeD in_set_dropD)
  note hx = halves [OF Suc.prems(1,3)] and hy = halves [OF Suc.prems(2,4)]
  let ?R = "tree_root lib h"
  show ?case
  proof (cases "?R (?l xs) @ ?R (?r xs) = ?R (?l ys) @ ?R (?r ys)")
    case False
    with Suc.prems(5) show ?thesis by (auto simp: collide_iff v2_hash_pair_def)
  next
    case True
    moreover have "length (?R (?l xs)) = length (?R (?l ys))"
      using tree_root_length [OF assms(1)] hx hy by simp
    ultimately have eq: "?R (?l xs) = ?R (?l ys)" "?R (?r xs) = ?R (?r ys)"
      by (simp_all add: append_eq_append_conv)
    have "?l xs = ?l ys \<or> collide lib (tree_inputs lib h (?l xs)) (tree_inputs lib h (?l ys))"
      using Suc.IH [OF hx(1) hy(1) hx(3) hy(3) eq(1)] .
    moreover have "?r xs = ?r ys \<or> collide lib (tree_inputs lib h (?r xs)) (tree_inputs lib h (?r ys))"
      using Suc.IH [OF hx(2) hy(2) hx(4) hy(4) eq(2)] .
    ultimately show ?thesis
      by (auto simp: collide_iff) (metis append_take_drop_id)
  qed
qed

lemma layer_hashes_inject:
  assumes "length l1 = 32 * n" "length l2 = 32 * n" "layer_hashes l1 n = layer_hashes l2 n"
  shows "l1 = l2"
proof (rule nth_equalityI)
  show "length l1 = length l2" using assms by simp
  fix i assume i: "i < length l1"
  let ?k = "i div 32" and ?j = "i mod 32"
  have k: "?k < n" "?k * 32 + ?j = i" using i assms(1) by auto
  then have "layer_hash l1 ?k = layer_hash l2 ?k"
    using assms(3) by (auto simp: layer_hashes_def)
  then have "take 32 (drop (?k * 32) l1) ! ?j = take 32 (drop (?k * 32) l2) ! ?j"
    by (simp add: layer_hash_def)
  then show "l1 ! i = l2 ! i" using k i assms by simp
qed

lemma layer_hashes_size: "length l = 32 * n \<Longrightarrow> \<forall>h \<in> set (layer_hashes l n). length h = 32"
proof
  fix h assume "length l = 32 * n" "h \<in> set (layer_hashes l n)"
  then obtain k where k: "k < n" "h = take 32 (drop (k * 32) l)" by (auto simp: layer_hashes_def layer_hash_def)
  then have "k * 32 + 32 \<le> length l" using \<open>length l = _\<close> by simp
  then show "length h = 32" using k by simp
qed

text \<open>The leaves over which a layer is authenticated.\<close>

definition layer_leaves :: "golib \<Rightarrow> bytes \<Rightarrow> int64 \<Rightarrow> nat \<Rightarrow> bytes list" where
  "layer_leaves lib layer count depth = padded_leaves (v2_zero_hash lib depth) (layer_hashes layer (nat count))"

text \<open>
  Claim C14. A piece layer is determined by the file root it is checked against: two layers for the same
  file that reduce to the same root are equal, or hashing them meets an explicit SHA-256 collision.
\<close>

theorem piece_layer_bound_to_root:
  assumes "digest_sizes lib" "v2_piece_layer_depth piece_length = Inr d"
    and "reduce_v2_piece_layer lib l1 count piece_length = Inr r"
    and "reduce_v2_piece_layer lib l2 count piece_length = Inr r"
  shows "l1 = l2 \<or>
    collide lib (tree_inputs lib (tree_height (nat count)) (layer_leaves lib l1 count d))
                (tree_inputs lib (tree_height (nat count)) (layer_leaves lib l2 count d))"
proof -
  let ?n = "nat count"
  have layer: "length l = 32 * ?n \<and> r = tree_root lib (tree_height ?n) (layer_leaves lib l count d) \<and>
      length (layer_leaves lib l count d) = 2 ^ tree_height ?n \<and>
      (\<forall>x \<in> set (layer_leaves lib l count d). length x = 32)"
    if red: "reduce_v2_piece_layer lib l count piece_length = Inr r" for l
  proof -
    obtain d' where d': "piece_length = 2 ^ (14 + d')" "0 < count" "int (length l) = count * 32"
      "r = tree_root lib (tree_height ?n)
              (padded_leaves (tree_root lib d' (replicate (2 ^ d') zero_hash)) (layer_hashes l ?n))"
      using red unfolding reduce_v2_piece_layer_iff by blast
    have "d' = d" using assms(2) d'(1) by (simp add: v2_piece_layer_depth_iff)
    moreover have len: "length l = 32 * ?n" using d'(2,3) by simp
    moreover have "length (v2_zero_hash lib d) = 32"
      unfolding v2_zero_hash_tree by (rule tree_root_length [OF assms(1)]) (auto simp: zero_hash_def)
    ultimately show ?thesis
      using d' layer_hashes_size [OF len]
      unfolding layer_leaves_def v2_zero_hash_tree by (auto dest: padded_leaves_member)
  qed
  note a = layer [OF assms(3)] and b = layer [OF assms(4)]
  then have "layer_leaves lib l1 count d = layer_leaves lib l2 count d \<or>
      collide lib (tree_inputs lib (tree_height ?n) (layer_leaves lib l1 count d))
                  (tree_inputs lib (tree_height ?n) (layer_leaves lib l2 count d))"
    by (intro tree_root_inject [OF assms(1)]) auto
  moreover have "l1 = l2" if "layer_leaves lib l1 count d = layer_leaves lib l2 count d"
    using that a b layer_hashes_inject [of l1 ?n l2]
    by (simp add: layer_leaves_def padded_leaves_def append_eq_append_conv)
  ultimately show ?thesis by blast
qed

theorem piece_layer_bound_to_root_witness:
  "collide sample_lib
     (tree_inputs sample_lib (tree_height 2)
        (layer_leaves sample_lib (replicate 32 CHR ''a'' @ replicate 32 CHR ''b'') 2 0))
     (tree_inputs sample_lib (tree_height 2)
        (layer_leaves sample_lib (replicate 32 CHR ''a'' @ replicate 32 CHR ''c'') 2 0))"
proof -
  have d: "v2_piece_layer_depth 16384 = Inr 0" by (simp add: v2_piece_layer_depth_iff)
  have h: "tree_height 2 = 1" by (simp add: tree_height.simps)
  have red: "reduce_v2_piece_layer sample_lib (replicate 32 CHR ''a'' @ replicate 32 c) 2 16384 =
      Inr (replicate 32 CHR ''a'')" for c
    unfolding reduce_v2_piece_layer_iff
    by (rule exI [of _ 0])
       (simp add: max_int64_def h padded_leaves_def layer_hashes_def layer_hash_def upt_rec
          v2_hash_pair_def sample_lib_def pad_to_def)
  from piece_layer_bound_to_root [OF digest_sizes_sample d red [of "CHR ''b''"] red [of "CHR ''c''"]]
  show ?thesis by simp
qed

section \<open>What a segment hash commits to\<close>

text \<open>
  A reader whose deliveries can be told from its state: \<open>at s out\<close> says that \<open>out\<close> is what it has delivered so
  far, and every successful \<open>io.ReadFull\<close> adds exactly as many bytes as were asked for. Nothing is said of where
  the bytes come from, so the law also covers files that change while they are read.
\<close>

locale recording_reader =
  fixes io :: "('s, 'e) segment_io" and at :: "'s \<Rightarrow> bytes \<Rightarrow> bool"
  assumes poll_at: "at s out \<Longrightarrow> at (snd (io_poll io s)) out"
    and read_at: "at s out \<Longrightarrow> io_read_full io n s = (Inr b, s') \<Longrightarrow> length b = n \<and> at s' (out @ b)"
begin

lemma segment_loop_history:
  assumes "segment_loop lib io leaves remaining a s = (Inr a', s')"
    and "leaves = (remaining + v2_block_size - 1) div v2_block_size" "0 \<le> remaining" "at s out"
  shows "\<exists>data. at s' (out @ data) \<and> length data = nat remaining \<and>
           add_layer lib 0 (map (gl_sha256 lib) (chunks 16384 data)) a = Inr a'"
  using assms
proof (induction "nat leaves" arbitrary: leaves remaining a s out)
  case 0
  then have "remaining = 0" by (simp add: v2_block_size_def)
  with 0 show ?case by (simp add: segment_loop.simps)
next
  case (Suc k)
  let ?bs = "if remaining < v2_block_size then remaining else v2_block_size"
  from Suc.hyps(2) have pos: "\<not> leaves \<le> 0" by simp
  obtain s1 where p: "io_poll io s = (False, s1)"
    using Suc.prems(1) pos by (cases "io_poll io s") (auto simp: segment_loop.simps [of _ _ leaves] split: if_splits bool.splits)
  obtain b s2 where r: "io_read_full io (nat ?bs) s1 = (Inr b, s2)"
    using Suc.prems(1) pos p by (auto simp: segment_loop.simps [of _ _ leaves] Let_def split: prod.splits sum.splits)
  obtain a1 where a1: "acc_add lib (gl_sha256 lib b) 0 a = Inr a1"
    "segment_loop lib io (leaves - 1) (remaining - ?bs) a1 s2 = (Inr a', s')"
    using Suc.prems(1) pos p r by (auto simp: segment_loop.simps [of _ _ leaves] Let_def split: sum.splits)
  have rem: "0 < remaining"
    using Suc.prems(2,3) pos by (cases "remaining = 0") (auto simp: v2_block_size_def)
  have "leaves - 1 = (remaining - ?bs + v2_block_size - 1) div v2_block_size"
    using Suc.prems(2) rem by (auto simp: v2_block_size_def)
  moreover have "0 \<le> remaining - ?bs" "k = nat (leaves - 1)"
    using Suc.hyps(2) by (auto simp: v2_block_size_def)
  moreover have b: "length b = nat ?bs" "at s2 (out @ b)"
    using read_at [OF _ r, of out] poll_at [OF Suc.prems(4)] p by auto
  ultimately obtain data where data: "at s' ((out @ b) @ data)" "length data = nat (remaining - ?bs)"
    "add_layer lib 0 (map (gl_sha256 lib) (chunks 16384 data)) a1 = Inr a'"
    using Suc.hyps(1) [OF _ a1(2)] by blast
  have "chunks 16384 (b @ data) = b # chunks 16384 data"
  proof (cases "remaining < v2_block_size")
    case True
    with b(1) rem have "b \<noteq> []" "length b \<le> 16384" by (auto simp: v2_block_size_def)
    with True data(2) show ?thesis by (simp add: chunks_short)
  next
    case False
    with b(1) show ?thesis by (intro chunks_append) (simp_all add: v2_block_size_def)
  qed
  with data a1(1) b rem show ?case
    by (intro exI [of _ "b @ data"]) (auto simp: v2_block_size_def)
qed

text \<open>The leaves of a segment: the hash of every block, then zero hashes.\<close>

lemma hash_v2_segment_history:
  assumes "hash_v2_segment lib io data_bytes target_leaves buffer_len s = (Inr r, s')" "at s out"
  shows "\<exists>data k. at s' (out @ data) \<and> int (length data) = data_bytes \<and> target_leaves = 2 ^ k \<and>
           r = tree_root lib k (map (gl_sha256 lib) (chunks 16384 data) @
                 replicate (2 ^ k - length (chunks 16384 data)) zero_hash)"
proof -
  let ?n = "(data_bytes - 1) sdiv v2_block_size + 1"
  have pre: "0 < data_bytes" "0 < target_leaves" "target_leaves AND (target_leaves - 1) = 0"
    "?n \<le> target_leaves"
    using assms by (auto simp: hash_v2_segment_def Let_def split: if_splits)
  obtain a s1 where a: "segment_loop lib io ?n data_bytes new_accumulator s = (Inr a, s1)" "s' = s1"
    "rbind (add_layer lib 0 (replicate (nat (target_leaves - ?n)) zero_hash) a) acc_root = Inr r"
    using assms pre by (auto simp: hash_v2_segment_def Let_def split: if_splits prod.splits sum.splits)
  have n: "?n = (data_bytes + v2_block_size - 1) div v2_block_size"
    using pre(1) by (simp add: int64_simps v2_block_size_def)
  obtain data where data: "at s' (out @ data)" "length data = nat data_bytes"
    "add_layer lib 0 (map (gl_sha256 lib) (chunks 16384 data)) new_accumulator = Inr a"
    using segment_loop_history [OF a(1) n _ assms(2)] pre(1) a(2) by auto
  obtain k where k: "target_leaves = 2 ^ k" using pre(2,3) and_pred_zero_iff by blast
  have len: "int (length (chunks 16384 data)) = ?n"
    using data(2) pre(1) unfolding n by (simp add: chunks_length v2_block_size_def of_nat_diff zdiv_int)
  let ?hs = "map (gl_sha256 lib) (chunks 16384 data) @ replicate (2 ^ k - length (chunks 16384 data)) zero_hash"
  have "nat (target_leaves - ?n) = 2 ^ k - length (chunks 16384 data)"
    unfolding len [symmetric] k by (simp add: nat_diff_distrib' nat_power_eq)
  then have "rbind (add_layer lib 0 ?hs new_accumulator) acc_root = Inr r"
    using a(3) data(3) by (simp add: add_layer_append)
  moreover have "length (chunks 16384 data) \<le> 2 ^ k"
    using pre(4) len k by (metis of_nat_le_iff of_nat_numeral of_nat_power)
  then have "length ?hs = 2 ^ k" by simp
  ultimately have "r = tree_root lib k ?hs"
    using add_layer_root [of ?hs k 0 lib] by (simp split: if_splits)
  with data k pre(1) show ?thesis by auto
qed

end

end
