(* ===== verification/MetaInfo.thy ===== *)
theory MetaInfo
  imports BencodeSpec PathRules Merkle "HOL-Library.AList"
begin

text \<open>
  \<open>internal/metafile/metainfo.go\<close>: from the decoded tree of a metafile to its manifest. \<open>parse_metainfo\<close> is
  \<open>Parse\<close>, composed of the same helpers; the v1 file list, the v2 file tree, their reconciliation in a hybrid
  and the authentication of the v2 piece layers are separate definitions. An error ends the computation, so the
  partially filled structure of the Go code is returned only on success.
\<close>

section \<open>Manifest data\<close>

record file_entry =
  f_path :: "bytes list"
  f_path_raw_base64 :: "bytes list"
  f_length :: int64
  f_attribute :: bytes
  f_pieces_root :: bytes
  f_raw_path :: "bytes list"
  f_pieces_root_raw :: bytes
  f_piece_layer_raw :: bytes

record meta_info =
  m_name :: bytes
  m_name_raw_base64 :: bytes
  m_version :: bytes
  m_validation :: bytes
  m_variant_id :: bytes
  m_bytes :: int64
  m_info_hash_v1 :: bytes
  m_info_hash_v2 :: bytes
  m_private :: bool
  m_multi_file :: bool
  m_piece_length :: int64
  m_v1_piece_count :: int64
  m_total_length :: int64
  m_trackers :: "bytes list"
  m_files :: "file_entry list"
  m_name_raw :: bytes
  m_piece_hashes :: "bytes list"

datatype header_error =
    RootNotDictionary | NoInfoDictionary | NoName | AlternateDisagrees bytes
  | PieceLengthOutOfRange | NoPieceLength | InvalidPrivateFlag | UnsupportedMetaVersion int64
  | InvalidV2PieceLength | PiecesNotDivisible | NoVersion | SingleKeyDiffers

datatype list_error =
    InvalidFilesList | FileNotDictionary nat | InvalidFileLength nat | InvalidFilePath nat
  | PathDisagrees nat | InvalidPathComponent nat | InvalidSingleLength

datatype tree_error =
    NoFileTree | EmptyFileTree | TreeTooDeep | FileAndDirectory | RootIsFile | InvalidLeaf
  | InvalidLeafLength | TreePadding | BadPiecesRoot | MissingPiecesRoot | InvalidTreeComponent

datatype hybrid_error =
    HybridV2Padding | HybridFileCounts | HybridPadPlacement nat | HybridPadLength nat
  | HybridExtraFile | HybridDisagree nat | HybridUnaligned nat | HybridMissingFiles

datatype layer_error =
    LargeFileNoRoot | SharedRootDisagrees | MissingPieceLayers | LayersNotDictionary
  | LayersCount | LayerUnexpected | LayerReduction merkle_error | LayerRootMismatch

datatype meta_error =
    DecodeMetafile bencode_error | HeaderError header_error | ListError list_error | TreeError tree_error
  | SymlinkUnsupported | TotalLengthOverflow
  | HybridV2Layout meta_error | HybridError hybrid_error | LayerError layer_error
  | UnsafeManifest path_error | PieceCountOverflow | PieceCountMismatch int64 int64

section \<open>Dictionary access\<close>

abbreviation is_dictionary :: "node \<Rightarrow> bool" where
  "is_dictionary n \<equiv> is_NDict n"

fun preferred :: "node \<Rightarrow> bytes list \<Rightarrow> node option" where
  "preferred dict [] = None"
| "preferred dict (key # keys) =
     (case node_get dict key of Some n \<Rightarrow> Some n | None \<Rightarrow> preferred dict keys)"

definition preferred_bytes :: "node \<Rightarrow> bytes list \<Rightarrow> bytes option" where
  "preferred_bytes dict keys = (case preferred dict keys of Some (NBytes b _ _) \<Rightarrow> Some b | _ \<Rightarrow> None)"

definition integer_value :: "node \<Rightarrow> bytes \<Rightarrow> int64 option" where
  "integer_value dict key = (case node_get dict key of Some (NInt i _ _) \<Rightarrow> Some i | _ \<Rightarrow> None)"

definition bytes_value :: "node \<Rightarrow> bytes \<Rightarrow> bytes option" where
  "bytes_value dict key = (case node_get dict key of Some (NBytes b _ _) \<Rightarrow> Some b | _ \<Rightarrow> None)"

definition display_bytes :: "bytes \<Rightarrow> bytes" where
  "display_bytes raw = (if utf8_valid raw then raw else to_valid_utf8 False [CHR 0xEF, CHR 0xBF, CHR 0xBD] raw)"

definition validate_alternate_bytes :: "node \<Rightarrow> bytes \<Rightarrow> bytes \<Rightarrow> meta_error + unit" where
  "validate_alternate_bytes dict preferred_key legacy_key =
     (case (node_get dict preferred_key, node_get dict legacy_key) of
        (Some p, Some l) \<Rightarrow>
          (case (p, l) of
             (NBytes x _ _, NBytes y _ _) \<Rightarrow> if x = y then Inr () else Inl (HeaderError (AlternateDisagrees preferred_key))
           | _ \<Rightarrow> Inl (HeaderError (AlternateDisagrees preferred_key)))
      | _ \<Rightarrow> Inr ())"

definition same_bytes_node :: "node \<Rightarrow> node \<Rightarrow> bool" where
  "same_bytes_node p l = (case (p, l) of (NBytes x _ _, NBytes y _ _) \<Rightarrow> x = y | _ \<Rightarrow> False)"

definition validate_alternate_path :: "node \<Rightarrow> nat \<Rightarrow> meta_error + unit" where
  "validate_alternate_path dict file_index =
     (case (node_get dict ''path.utf-8'', node_get dict ''path'') of
        (Some p, Some l) \<Rightarrow>
          (case (p, l) of
             (NList xs _ _, NList ys _ _) \<Rightarrow>
               if length xs = length ys \<and> list_all2 same_bytes_node xs ys then Inr ()
               else Inl (ListError (PathDisagrees file_index))
           | _ \<Rightarrow> Inl (ListError (PathDisagrees file_index)))
      | _ \<Rightarrow> Inr ())"

section \<open>Lengths and paths of one file\<close>

definition add_length :: "meta_info \<Rightarrow> int64 \<Rightarrow> meta_error + meta_info" where
  "add_length meta len =
     (if len < 0 \<or> m_total_length meta > max_int64 - len then Inl TotalLengthOverflow
      else Inr (meta\<lparr>m_total_length := m_total_length meta + len\<rparr>))"

definition is_padding :: "file_entry \<Rightarrow> bool" where
  "is_padding file \<longleftrightarrow> CHR ''p'' \<in> set (f_attribute file)"

text \<open>A file whose three path fields are filled from the raw components.\<close>

definition file_at :: "bytes list \<Rightarrow> int64 \<Rightarrow> bytes \<Rightarrow> file_entry" where
  "file_at components len attr =
     \<lparr>f_path = map display_bytes components, f_path_raw_base64 = map base64_encode components,
      f_length = len, f_attribute = attr, f_pieces_root = [], f_raw_path = components,
      f_pieces_root_raw = [], f_piece_layer_raw = []\<rparr>"

section \<open>The v1 file list\<close>

fun path_components :: "nat \<Rightarrow> node list \<Rightarrow> meta_error + bytes list" where
  "path_components index [] = Inr []"
| "path_components index (component # rest) =
     (case component of
        NBytes b _ _ \<Rightarrow>
          if b = [] then Inl (ListError (InvalidPathComponent index))
          else rbind (path_components index rest) (\<lambda>bs. Inr (b # bs))
      | _ \<Rightarrow> Inl (ListError (InvalidPathComponent index)))"

definition parse_v1_file :: "nat \<Rightarrow> node \<Rightarrow> meta_error + file_entry" where
  "parse_v1_file index item =
     (if \<not> is_dictionary item then Inl (ListError (FileNotDictionary index))
      else (case integer_value item ''length'' of
        None \<Rightarrow> Inl (ListError (InvalidFileLength index))
      | Some len \<Rightarrow>
          if len < 0 then Inl (ListError (InvalidFileLength index))
          else (case preferred item [''path.utf-8'', ''path''] of
            Some (NList components _ _) \<Rightarrow>
              if components = [] then Inl (ListError (InvalidFilePath index))
              else rbind (validate_alternate_path item index) (\<lambda>_.
                let attr = (case bytes_value item ''attr'' of Some a \<Rightarrow> a | None \<Rightarrow> [])
                in if CHR ''l'' \<in> set attr then Inl SymlinkUnsupported
                   else rbind (path_components index components) (\<lambda>raw. Inr (file_at raw len attr)))
          | _ \<Rightarrow> Inl (ListError (InvalidFilePath index)))))"

definition append_file :: "meta_info \<Rightarrow> file_entry \<Rightarrow> meta_error + meta_info" where
  "append_file meta file =
     rbind (add_length meta (f_length file)) (\<lambda>meta. Inr (meta\<lparr>m_files := m_files meta @ [file]\<rparr>))"

fun parse_v1_list :: "nat \<Rightarrow> node list \<Rightarrow> meta_info \<Rightarrow> meta_error + meta_info" where
  "parse_v1_list index [] meta = Inr meta"
| "parse_v1_list index (item # rest) meta =
     rbind (parse_v1_file index item) (\<lambda>file.
     rbind (append_file meta file) (\<lambda>meta. parse_v1_list (index + 1) rest meta))"

definition parse_v1_files :: "meta_info \<Rightarrow> node \<Rightarrow> meta_error + meta_info" where
  "parse_v1_files meta info =
     (case node_get info ''files'' of
        Some files \<Rightarrow>
          (case files of
             NList items _ _ \<Rightarrow>
               if items = [] then Inl (ListError InvalidFilesList)
               else parse_v1_list 0 items (meta\<lparr>m_multi_file := True\<rparr>)
           | _ \<Rightarrow> Inl (ListError InvalidFilesList))
      | None \<Rightarrow>
          (case integer_value info ''length'' of
             None \<Rightarrow> Inl (ListError InvalidSingleLength)
           | Some len \<Rightarrow>
               if len < 0 then Inl (ListError InvalidSingleLength)
               else add_length
                 (meta\<lparr>m_files := [(file_at [m_name_raw meta] len [])\<lparr>f_path := [m_name meta]\<rparr>]\<rparr>) len))"

section \<open>The v2 file tree\<close>

text \<open>A leaf: the dictionary under the empty key.\<close>

definition v2_leaf :: "bytes \<Rightarrow> node \<Rightarrow> bytes list \<Rightarrow> meta_error + file_entry" where
  "v2_leaf name_raw child pre =
     (if \<not> is_dictionary child then Inl (TreeError InvalidLeaf)
      else let leaf_path = (if pre = [] then [name_raw] else pre) in
        (case integer_value child ''length'' of
          None \<Rightarrow> Inl (TreeError InvalidLeafLength)
        | Some len \<Rightarrow>
            if len < 0 then Inl (TreeError InvalidLeafLength)
            else let attr = (case bytes_value child ''attr'' of Some a \<Rightarrow> a | None \<Rightarrow> []);
                     file = file_at leaf_path len attr
              in if CHR ''p'' \<in> set attr then Inl (TreeError TreePadding)
                 else if CHR ''l'' \<in> set attr then Inl SymlinkUnsupported
                 else (case bytes_value child ''pieces root'' of
                   Some root \<Rightarrow>
                     if length root \<noteq> 32 then Inl (TreeError BadPiecesRoot)
                     else Inr (file\<lparr>f_pieces_root := hex_encode root, f_pieces_root_raw := root\<rparr>)
                 | None \<Rightarrow> if len > 0 then Inl (TreeError MissingPiecesRoot) else Inr file)))"

text \<open>
  The walk visits the entries of a dictionary node in the order of \<open>sort.Strings\<close>; that is the order in which
  the decoder keeps them, since it refuses keys that are not strictly increasing.
\<close>

fun walk_v2_tree :: "meta_info \<Rightarrow> node \<Rightarrow> bytes list \<Rightarrow> nat \<Rightarrow> meta_error + meta_info"
  and walk_v2_entries ::
    "meta_info \<Rightarrow> (bytes \<times> node) list \<Rightarrow> bytes list \<Rightarrow> nat \<Rightarrow> meta_error + meta_info" where
  "walk_v2_tree meta (NDict entries _ _) pre depth =
     (if depth > 64 then Inl (TreeError TreeTooDeep)
      else if [] \<in> fst ` set entries \<and> length entries \<noteq> 1 then Inl (TreeError FileAndDirectory)
      else walk_v2_entries meta entries pre depth)"
| "walk_v2_tree meta _ pre depth = (if depth > 64 then Inl (TreeError TreeTooDeep) else Inr meta)"
| "walk_v2_entries meta [] pre depth = Inr meta"
| "walk_v2_entries meta ((key, child) # rest) pre depth =
     (if key = [] then
        if depth = 0 then Inl (TreeError RootIsFile)
        else rbind (v2_leaf (m_name_raw meta) child pre) (\<lambda>file.
             rbind (append_file meta file) (\<lambda>meta. walk_v2_entries meta rest pre depth))
      else if \<not> is_dictionary child \<or> \<not> utf8_valid key then Inl (TreeError InvalidTreeComponent)
      else rbind (walk_v2_tree meta child (pre @ [key]) (depth + 1)) (\<lambda>meta.
           walk_v2_entries meta rest pre depth))"

definition parse_v2_files :: "meta_info \<Rightarrow> node \<Rightarrow> meta_error + meta_info" where
  "parse_v2_files meta info =
     (case node_get info ''file tree'' of
        Some (NDict entries s e) \<Rightarrow>
          rbind (walk_v2_tree (meta\<lparr>m_multi_file := True\<rparr>) (NDict entries s e) [] 0) (\<lambda>meta.
            if m_files meta = [] then Inl (TreeError EmptyFileTree)
            else if length entries = 1 \<and> length (m_files meta) = 1 \<and> length (f_raw_path (hd (m_files meta))) = 1
            then Inr (meta\<lparr>m_multi_file := False\<rparr>)
            else Inr meta)
      | _ \<Rightarrow> Inl (TreeError NoFileTree))"

section \<open>Hybrid layouts\<close>

fun same_raw_path :: "bytes list \<Rightarrow> bytes list \<Rightarrow> bool" where
  "same_raw_path a b = (length a = length b \<and> list_all2 (=) a b)"

definition non_padding_files :: "file_entry list \<Rightarrow> file_entry list" where
  "non_padding_files files = filter (\<lambda>file. \<not> is_padding file) files"

text \<open>
  The loop over the v1 files: \<open>offset\<close> is the position of the file in the v1 stream, \<open>next\<close> counts the
  non-padding files seen. A file that agrees takes over the root and the layer of its v2 counterpart.
\<close>

fun reconcile_files :: "int64 \<Rightarrow> file_entry list \<Rightarrow> nat \<Rightarrow> int64 \<Rightarrow> nat \<Rightarrow> file_entry list \<Rightarrow>
    meta_error + file_entry list \<times> nat" where
  "reconcile_files piece_length v2_files file_index offset next [] = Inr ([], next)"
| "reconcile_files piece_length v2_files file_index offset next (file # rest) =
     (if is_padding file then
        if next = 0 \<or> offset smod piece_length = 0 then Inl (HybridError (HybridPadPlacement file_index))
        else if f_length file \<noteq> piece_length - offset smod piece_length
        then Inl (HybridError (HybridPadLength file_index))
        else rbind (reconcile_files piece_length v2_files (file_index + 1) (wrap64 (offset + f_length file)) next rest)
               (\<lambda>(files, n). Inr (file # files, n))
      else if length v2_files \<le> next then Inl (HybridError HybridExtraFile)
      else let expected = v2_files ! next
        in if f_length file \<noteq> f_length expected \<or> \<not> same_raw_path (f_raw_path file) (f_raw_path expected)
           then Inl (HybridError (HybridDisagree next))
           else if f_length file > 0 \<and> offset smod piece_length \<noteq> 0
           then Inl (HybridError (HybridUnaligned next))
           else
             let file = file\<lparr>f_pieces_root := f_pieces_root expected,
                   f_pieces_root_raw := f_pieces_root_raw expected,
                   f_piece_layer_raw := f_piece_layer_raw expected\<rparr>
             in rbind (reconcile_files piece_length v2_files (file_index + 1) (wrap64 (offset + f_length file))
                         (next + 1) rest)
                  (\<lambda>(files, n). Inr (file # files, n)))"

definition reconcile_hybrid_layouts :: "meta_info \<Rightarrow> meta_info \<Rightarrow> meta_error + meta_info" where
  "reconcile_hybrid_layouts v1 v2 =
     (if list_ex is_padding (m_files v2) then Inl (HybridError HybridV2Padding)
      else let v2_files = non_padding_files (m_files v2)
        in if length (non_padding_files (m_files v1)) \<noteq> length v2_files
           then Inl (HybridError HybridFileCounts)
           else rbind (reconcile_files (m_piece_length v1) v2_files 0 0 0 (m_files v1)) (\<lambda>(files, next).
                  if next \<noteq> length v2_files then Inl (HybridError HybridMissingFiles)
                  else Inr (v1\<lparr>m_files := files\<rparr>)))"

section \<open>v2 piece layers\<close>

text \<open>The layers the manifest needs: pieces root, number of hashes, indexes of the files that share it.\<close>

fun expected_layers :: "int64 \<Rightarrow> nat \<Rightarrow> file_entry list \<Rightarrow> (bytes \<times> int64 \<times> nat list) list \<Rightarrow>
    meta_error + (bytes \<times> int64 \<times> nat list) list" where
  "expected_layers piece_length file_index [] expected = Inr expected"
| "expected_layers piece_length file_index (file # rest) expected =
     (if is_padding file \<or> f_length file \<le> piece_length
      then expected_layers piece_length (file_index + 1) rest expected
      else if length (f_pieces_root_raw file) \<noteq> 32 then Inl (LayerError LargeFileNoRoot)
      else
        let count = (f_length file - 1) sdiv piece_length + 1; key = f_pieces_root_raw file
        in (case map_of expected key of
              Some (entry_count, indexes) \<Rightarrow>
                if entry_count \<noteq> count then Inl (LayerError SharedRootDisagrees)
                else expected_layers piece_length (file_index + 1) rest
                       (AList.update key (entry_count, indexes @ [file_index]) expected)
            | None \<Rightarrow>
                expected_layers piece_length (file_index + 1) rest
                  (AList.update key (count, [file_index]) expected)))"

definition set_layer :: "bytes \<Rightarrow> nat list \<Rightarrow> file_entry list \<Rightarrow> file_entry list" where
  "set_layer layer indexes files =
     foldl (\<lambda>fs i. fs[i := (fs ! i)\<lparr>f_piece_layer_raw := layer\<rparr>]) files indexes"

text \<open>
  The loop over the layers of the metafile. Go ranges over the map in an unspecified order, which can only
  decide which of several errors is reported; here the order is that of the keys.
\<close>

fun check_layers :: "golib \<Rightarrow> int64 \<Rightarrow> (bytes \<times> int64 \<times> nat list) list \<Rightarrow> (bytes \<times> node) list \<Rightarrow>
    file_entry list \<Rightarrow> meta_error + file_entry list" where
  "check_layers lib piece_length expected [] files = Inr files"
| "check_layers lib piece_length expected ((key, layer) # rest) files =
     (case (map_of expected key, layer) of
        (Some (count, indexes), NBytes layer _ _) \<Rightarrow>
          if length key \<noteq> 32 \<or> count > max_int64 sdiv 32 \<or> int (length layer) \<noteq> count * 32
          then Inl (LayerError LayerUnexpected)
          else
            (case reduce_v2_piece_layer lib layer count piece_length of
               Inl e \<Rightarrow> Inl (LayerError (LayerReduction e))
             | Inr computed \<Rightarrow>
                 if computed \<noteq> key then Inl (LayerError LayerRootMismatch)
                 else check_layers lib piece_length expected rest (set_layer layer indexes files))
      | _ \<Rightarrow> Inl (LayerError LayerUnexpected))"

definition validate_v2_piece_layers ::
    "golib \<Rightarrow> node \<Rightarrow> file_entry list \<Rightarrow> int64 \<Rightarrow> meta_error + file_entry list" where
  "validate_v2_piece_layers lib root files piece_length =
     rbind (expected_layers piece_length 0 files []) (\<lambda>expected.
     (case node_get root ''piece layers'' of
        None \<Rightarrow> if expected \<noteq> [] then Inl (LayerError MissingPieceLayers) else Inr files
      | Some (NDict entries _ _) \<Rightarrow>
          if length entries \<noteq> length expected then Inl (LayerError LayersCount)
          else check_layers lib piece_length expected entries files
      | Some _ \<Rightarrow> Inl (LayerError LayersNotDictionary)))"

section \<open>Tracker origins\<close>

definition tracker_origin :: "golib \<Rightarrow> bytes \<Rightarrow> bytes option" where
  "tracker_origin lib raw =
     (case gl_url_parse lib raw of
        None \<Rightarrow> None
      | Some (scheme, host) \<Rightarrow>
          if (scheme \<noteq> ''https'' \<and> scheme \<noteq> ''http'' \<and> scheme \<noteq> ''udp'') \<or> host = [] then None
          else Some (gl_to_lower lib scheme @ ''://'' @ gl_to_lower lib host))"

definition tier_urls :: "node \<Rightarrow> bytes list" where
  "tier_urls tier =
     (case tier of
        NBytes b _ _ \<Rightarrow> [b]
      | NList items _ _ \<Rightarrow> concat (map (\<lambda>item. case item of NBytes b _ _ \<Rightarrow> [b] | _ \<Rightarrow> []) items)
      | _ \<Rightarrow> [])"

definition tracker_origins :: "golib \<Rightarrow> node \<Rightarrow> bytes list" where
  "tracker_origins lib root =
     (let announce = (case bytes_value root ''announce'' of Some b \<Rightarrow> [b] | None \<Rightarrow> []);
          tiers = (case node_get root ''announce-list'' of
                     Some (NList tiers _ _) \<Rightarrow> concat (map tier_urls tiers) | _ \<Rightarrow> [])
      in sort (remdups (List.map_filter (tracker_origin lib) (announce @ tiers))))"

section \<open>The whole metafile\<close>

definition manifest_paths_checked :: "golib \<Rightarrow> file_entry list \<Rightarrow> path_semantics \<Rightarrow> path_error + unit" where
  "manifest_paths_checked lib files sem =
     validate_manifest_paths_with_padding lib (map f_raw_path files) (map is_padding files) sem"

definition parse_piece_length :: "node \<Rightarrow> meta_error + int64" where
  "parse_piece_length info =
     (case integer_value info ''piece length'' of
        Some len \<Rightarrow>
          if len \<le> 0 \<or> len > 67108864 then Inl (HeaderError PieceLengthOutOfRange) else Inr len
      | None \<Rightarrow> Inl (HeaderError NoPieceLength))"

definition parse_private :: "node \<Rightarrow> meta_error + bool" where
  "parse_private info =
     (case integer_value info ''private'' of
        Some p \<Rightarrow> if p \<noteq> 0 \<and> p \<noteq> 1 then Inl (HeaderError InvalidPrivateFlag) else Inr (p = 1)
      | None \<Rightarrow> Inr False)"

definition parse_name :: "node \<Rightarrow> meta_error + bytes" where
  "parse_name info =
     (case preferred_bytes info [''name.utf-8'', ''name''] of
        None \<Rightarrow> Inl (HeaderError NoName)
      | Some name \<Rightarrow>
          if name = [] then Inl (HeaderError NoName)
          else rbind (validate_alternate_bytes info ''name.utf-8'' ''name'') (\<lambda>_. Inr name))"

text \<open>Which protocol versions the info dictionary has: v1 pieces, and meta version 2.\<close>

definition has_v1 :: "node \<Rightarrow> bool" where
  "has_v1 info \<longleftrightarrow> bytes_value info ''pieces'' \<noteq> None"

definition has_v2 :: "node \<Rightarrow> bool" where
  "has_v2 info \<longleftrightarrow> integer_value info ''meta version'' = Some 2"

definition check_versions :: "node \<Rightarrow> int64 \<Rightarrow> meta_error + unit" where
  "check_versions info piece_length =
     (case integer_value info ''meta version'' of
        Some v \<Rightarrow>
          if v \<noteq> 2 then Inl (HeaderError (UnsupportedMetaVersion v))
          else if piece_length < 16384 \<or> piece_length AND (piece_length - 1) \<noteq> 0
          then Inl (HeaderError InvalidV2PieceLength)
          else Inr ()
      | None \<Rightarrow> Inr ())"

definition split_pieces :: "bytes option \<Rightarrow> meta_error + bytes list" where
  "split_pieces pieces =
     (case pieces of
        None \<Rightarrow> Inr []
      | Some p \<Rightarrow>
          if length p mod 20 \<noteq> 0 then Inl (HeaderError PiecesNotDivisible)
          else Inr (map (\<lambda>i. take 20 (drop (i * 20) p)) [0..<length p div 20]))"

text \<open>The layout part of \<open>Parse\<close>: files, total length, roots, layers and the kind of validation done.\<close>

definition parse_layout :: "golib \<Rightarrow> node \<Rightarrow> node \<Rightarrow> meta_info \<Rightarrow> meta_error + meta_info" where
  "parse_layout lib root info meta =
     (if has_v1 info \<and> has_v2 info then
        rbind (parse_v1_files meta info) (\<lambda>meta.
        let layout = meta\<lparr>m_multi_file := False, m_total_length := 0, m_files := []\<rparr>
        in rbind (case parse_v2_files layout info of Inl e \<Rightarrow> Inl (HybridV2Layout e) | Inr l \<Rightarrow> Inr l) (\<lambda>layout.
           rbind (validate_v2_piece_layers lib root (m_files layout) (m_piece_length meta)) (\<lambda>files.
           rbind (reconcile_hybrid_layouts meta (layout\<lparr>m_files := files\<rparr>)) (\<lambda>meta.
           Inr (meta\<lparr>m_validation := ''hybrid_layout_consistent''\<rparr>)))))
      else if has_v1 info then
        rbind (parse_v1_files meta info) (\<lambda>meta. Inr (meta\<lparr>m_validation := ''v1_manifest_structural''\<rparr>))
      else
        rbind (parse_v2_files meta info) (\<lambda>meta.
          if \<not> m_multi_file meta \<and> hd (f_raw_path (hd (m_files meta))) \<noteq> m_name_raw meta
          then Inl (HeaderError SingleKeyDiffers)
          else rbind (validate_v2_piece_layers lib root (m_files meta) (m_piece_length meta)) (\<lambda>files.
               Inr (meta\<lparr>m_files := files, m_validation := ''v2_manifest_structural''\<rparr>))))"

definition expected_pieces :: "meta_info \<Rightarrow> int64" where
  "expected_pieces meta =
     (if m_total_length meta > 0 then (m_total_length meta - 1) sdiv m_piece_length meta + 1 else 0)"

definition check_piece_count :: "node \<Rightarrow> meta_info \<Rightarrow> meta_error + unit" where
  "check_piece_count info meta =
     (if has_v1 info then
        if expected_pieces meta > max_int64 then Inl PieceCountOverflow
        else if m_piece_length meta = 0 \<or> m_v1_piece_count meta \<noteq> expected_pieces meta
        then Inl (PieceCountMismatch (m_v1_piece_count meta) (expected_pieces meta))
        else Inr ()
      else Inr ())"

text \<open>The structure as far as it is known before the files are read.\<close>

definition initial_meta :: "golib \<Rightarrow> bytes \<Rightarrow> node \<Rightarrow> bytes \<Rightarrow> int64 \<Rightarrow> bool \<Rightarrow> bytes list \<Rightarrow> meta_info" where
  "initial_meta lib data info name piece_length private piece_hashes =
     (let raw_info = segment data (n_start info) (n_end info) in
      \<lparr>m_name = display_bytes name, m_name_raw_base64 = base64_encode name,
       m_version = (if has_v1 info \<and> has_v2 info then ''hybrid'' else if has_v2 info then ''v2'' else ''v1''),
       m_validation = [], m_variant_id = ''sha256:'' @ hex_encode (gl_sha256 lib data),
       m_bytes = int (length data),
       m_info_hash_v1 = (if has_v1 info then hex_encode (gl_sha1 lib raw_info) else []),
       m_info_hash_v2 = (if has_v2 info then hex_encode (gl_sha256 lib raw_info) else []),
       m_private = private, m_multi_file = False, m_piece_length = piece_length,
       m_v1_piece_count = 0, m_total_length = 0, m_trackers = [], m_files = [],
       m_name_raw = name, m_piece_hashes = piece_hashes\<rparr>)"

text \<open>The checks after the layout is read.\<close>

definition finish_parse :: "golib \<Rightarrow> node \<Rightarrow> node \<Rightarrow> meta_info \<Rightarrow> meta_error + meta_info" where
  "finish_parse lib root info meta =
     (case manifest_paths_checked lib (m_files meta)
             \<lparr>windows = False, case_sensitive = True, unicode_normalization = False\<rparr> of
        Inl e \<Rightarrow> Inl (UnsafeManifest e)
      | Inr _ \<Rightarrow>
          let meta = meta\<lparr>m_v1_piece_count := int (length (m_piece_hashes meta))\<rparr>
          in rbind (check_piece_count info meta) (\<lambda>_.
             Inr (meta\<lparr>m_trackers := tracker_origins lib root\<rparr>)))"

definition parse_info :: "golib \<Rightarrow> bytes \<Rightarrow> node \<Rightarrow> node \<Rightarrow> meta_error + meta_info" where
  "parse_info lib data root info =
     rbind (parse_name info) (\<lambda>name.
     rbind (parse_piece_length info) (\<lambda>piece_length.
     rbind (parse_private info) (\<lambda>private.
     rbind (check_versions info piece_length) (\<lambda>_.
     rbind (split_pieces (bytes_value info ''pieces'')) (\<lambda>piece_hashes.
     if \<not> has_v1 info \<and> \<not> has_v2 info then Inl (HeaderError NoVersion)
     else rbind (parse_layout lib root info (initial_meta lib data info name piece_length private piece_hashes))
            (\<lambda>meta. finish_parse lib root info meta))))))"

definition parse_metainfo :: "golib \<Rightarrow> bytes \<Rightarrow> meta_error + meta_info" where
  "parse_metainfo lib data =
     (case parse_bencode data of
        Inl e \<Rightarrow> Inl (DecodeMetafile e)
      | Inr root \<Rightarrow>
          if \<not> is_dictionary root then Inl (HeaderError RootNotDictionary)
          else (case node_get root ''info'' of
                  None \<Rightarrow> Inl (HeaderError NoInfoDictionary)
                | Some info \<Rightarrow>
                    if \<not> is_dictionary info then Inl (HeaderError NoInfoDictionary)
                    else parse_info lib data root info))"

text \<open>\<open>Read\<close>: at most 32 MiB and one byte are read from the file; \<open>content\<close> is what opening and reading it gives.\<close>

datatype read_error = OpenMetafile | ReadMetafile | MetafileTooLarge | ParseMetafile meta_error

definition read_metainfo :: "golib \<Rightarrow> (read_error + bytes) \<Rightarrow> read_error + meta_info" where
  "read_metainfo lib content =
     rbind content (\<lambda>stream.
     let data = take 33554433 stream
     in if length data > 33554432 then Inl MetafileTooLarge
        else (case parse_metainfo lib data of Inl e \<Rightarrow> Inl (ParseMetafile e) | Inr meta \<Rightarrow> Inr meta))"

section \<open>Inversion\<close>

text \<open>The structure before the layout is read.\<close>

definition parsed_header :: "golib \<Rightarrow> bytes \<Rightarrow> node \<Rightarrow> meta_info \<Rightarrow> bool" where
  "parsed_header lib data info meta \<longleftrightarrow>
     (has_v1 info \<or> has_v2 info) \<and>
     m_version meta = (if has_v1 info \<and> has_v2 info then ''hybrid'' else if has_v2 info then ''v2'' else ''v1'') \<and>
     m_info_hash_v1 meta =
       (if has_v1 info then hex_encode (gl_sha1 lib (segment data (n_start info) (n_end info))) else []) \<and>
     m_info_hash_v2 meta =
       (if has_v2 info then hex_encode (gl_sha256 lib (segment data (n_start info) (n_end info))) else []) \<and>
     parse_name info = Inr (m_name_raw meta) \<and> parse_piece_length info = Inr (m_piece_length meta) \<and>
     (has_v2 info \<longrightarrow> 16384 \<le> m_piece_length meta \<and> m_piece_length meta AND (m_piece_length meta - 1) = 0) \<and>
     split_pieces (bytes_value info ''pieces'') = Inr (m_piece_hashes meta)"

lemma parse_metainfo_InrE:
  assumes "parse_metainfo lib data = Inr m"
  obtains root info header body where
    "parse_bencode data = Inr root" "node_get root ''info'' = Some info"
    "parsed_header lib data info header" "m_total_length header = 0" "m_files header = []"
    "parse_layout lib root info header = Inr body" "finish_parse lib root info body = Inr m"
proof -
  from assms obtain root info where root: "parse_bencode data = Inr root" "node_get root ''info'' = Some info"
    and info: "parse_info lib data root info = Inr m"
    by (auto simp: parse_metainfo_def split: sum.splits option.splits if_splits)
  from info obtain name pl priv hashes where
    stages: "parse_name info = Inr name" "parse_piece_length info = Inr pl" "parse_private info = Inr priv"
      "check_versions info pl = Inr ()" "split_pieces (bytes_value info ''pieces'') = Inr hashes"
    unfolding parse_info_def by (auto simp: result_simps)
  let ?header = "initial_meta lib data info name pl priv hashes"
  have versions: "has_v1 info \<or> has_v2 info"
    and body: "rbind (parse_layout lib root info ?header) (finish_parse lib root info) = Inr m"
    using info by (simp_all add: parse_info_def stages split: if_splits)
  from body obtain body where "parse_layout lib root info ?header = Inr body"
    "finish_parse lib root info body = Inr m" by (auto simp: result_simps)
  moreover have "has_v2 info \<longrightarrow> 16384 \<le> pl \<and> pl AND (pl - 1) = 0"
    using stages(4) by (auto simp: check_versions_def has_v2_def split: if_splits)
  then have "parsed_header lib data info ?header" "m_total_length ?header = 0" "m_files ?header = []"
    using stages versions by (simp_all add: parsed_header_def initial_meta_def Let_def)
  ultimately show ?thesis using that root by blast
qed

text \<open>What the layout step keeps of the header.\<close>

definition same_header :: "meta_info \<Rightarrow> meta_info \<Rightarrow> bool" where
  "same_header a b \<longleftrightarrow> m_version a = m_version b \<and> m_info_hash_v1 a = m_info_hash_v1 b \<and>
     m_info_hash_v2 a = m_info_hash_v2 b \<and> m_piece_length a = m_piece_length b \<and>
     m_piece_hashes a = m_piece_hashes b \<and> m_name_raw a = m_name_raw b"

lemma same_header_refl [simp]: "same_header a a"
  by (simp add: same_header_def)

lemma same_header_trans: "same_header a b \<Longrightarrow> same_header b c \<Longrightarrow> same_header a c"
  by (simp add: same_header_def)

lemma append_file_Inr:
  "append_file meta file = Inr meta' \<longleftrightarrow>
     0 \<le> f_length file \<and> m_total_length meta + f_length file \<le> max_int64 \<and>
     meta' = meta\<lparr>m_total_length := m_total_length meta + f_length file, m_files := m_files meta @ [file]\<rparr>"
  by (auto simp: append_file_def add_length_def split: if_splits)

text \<open>The layout invariant: no negative length, and the total is the sum of the lengths, in range.\<close>

definition lengths_ok :: "meta_info \<Rightarrow> bool" where
  "lengths_ok meta \<longleftrightarrow> (\<forall>file \<in> set (m_files meta). 0 \<le> f_length file) \<and>
     m_total_length meta = sum_list (map f_length (m_files meta)) \<and> m_total_length meta \<le> max_int64"

lemma append_file_ok:
  "append_file meta file = Inr meta' \<Longrightarrow> lengths_ok meta \<Longrightarrow> lengths_ok meta' \<and> same_header meta meta'"
  by (auto simp: append_file_Inr lengths_ok_def same_header_def)

lemma parse_v1_list_ok:
  "parse_v1_list index items meta = Inr meta' \<Longrightarrow> lengths_ok meta \<Longrightarrow> lengths_ok meta' \<and> same_header meta meta'"
proof (induction index items meta rule: parse_v1_list.induct)
  case (2 index item rest meta)
  from "2.prems"(1) obtain fl meta1 where "parse_v1_file index item = Inr fl"
    "append_file meta fl = Inr meta1" "parse_v1_list (index + 1) rest meta1 = Inr meta'"
    by (auto simp: result_simps)
  with "2.IH" "2.prems"(2) append_file_ok same_header_trans show ?case by meson
qed simp

lemma walk_v2_ok:
  "walk_v2_tree meta node pre depth = Inr meta' \<Longrightarrow> lengths_ok meta \<Longrightarrow> lengths_ok meta' \<and> same_header meta meta'"
  "walk_v2_entries meta entries pre depth = Inr meta' \<Longrightarrow> lengths_ok meta \<Longrightarrow>
     lengths_ok meta' \<and> same_header meta meta'"
proof (induction meta node pre depth and meta entries pre depth arbitrary: meta' and meta'
    rule: walk_v2_tree_walk_v2_entries.induct)
  case (4 meta key child rest pre depth)
  show ?case
  proof (cases "key = []")
    case True
    with "4.prems"(1) obtain fl meta1 where "v2_leaf (m_name_raw meta) child pre = Inr fl"
      "append_file meta fl = Inr meta1" "walk_v2_entries meta1 rest pre depth = Inr meta'" "depth \<noteq> 0"
      by (auto simp: result_simps split: if_splits)
    with 4 True append_file_ok same_header_trans show ?thesis by meson
  next
    case False
    with "4.prems"(1) obtain meta1 where "is_dictionary child" "utf8_valid key"
      "walk_v2_tree meta child (pre @ [key]) (depth + 1) = Inr meta1"
      "walk_v2_entries meta1 rest pre depth = Inr meta'"
      by (auto simp: result_simps split: if_splits)
    with 4 False same_header_trans show ?thesis by meson
  qed
qed (auto split: if_splits)

text \<open>What neither the layers nor the reconciliation change of a file.\<close>

definition file_core :: "file_entry \<Rightarrow> int64 \<times> bytes list \<times> bytes" where
  "file_core f = (f_length f, f_raw_path f, f_attribute f)"

definition without_layer :: "file_entry \<Rightarrow> file_entry" where
  "without_layer f = f\<lparr>f_piece_layer_raw := []\<rparr>"

lemma file_core_without_layer [simp]: "file_core (without_layer f) = file_core f"
  by (simp add: without_layer_def file_core_def)

lemma without_layer_cong_core:
  assumes "map without_layer fs = map without_layer gs"
  shows "map file_core fs = map file_core gs"
proof -
  have "map file_core (map without_layer fs) = map file_core (map without_layer gs)" using assms by simp
  then show ?thesis by (simp add: comp_def)
qed

lemma set_layer_without: "map without_layer (set_layer layer indexes files) = map without_layer files"
proof (induction indexes arbitrary: files)
  case (Cons i idx)
  have "map without_layer (files[i := (files ! i)\<lparr>f_piece_layer_raw := layer\<rparr>]) = map without_layer files"
    by (cases "i < length files") (auto simp: without_layer_def list_eq_iff_nth_eq nth_list_update)
  with Cons [of "files[i := (files ! i)\<lparr>f_piece_layer_raw := layer\<rparr>]"] show ?case
    by (simp add: set_layer_def)
qed (simp add: set_layer_def)

lemma check_layers_without:
  "check_layers lib pl expected entries files = Inr files' \<Longrightarrow> map without_layer files' = map without_layer files"
  by (induction lib pl expected entries files rule: check_layers.induct)
     (auto simp: set_layer_without split: option.splits node.splits sum.splits if_splits)

lemma validate_v2_piece_layers_InrE:
  assumes "validate_v2_piece_layers lib root files pl = Inr files'"
  obtains (absent) "expected_layers pl 0 files [] = Inr []" "files' = files"
  | (present) expected entries s e where "expected_layers pl 0 files [] = Inr expected"
      "node_get root ''piece layers'' = Some (NDict entries s e)" "length entries = length expected"
      "check_layers lib pl expected entries files = Inr files'"
proof (cases "expected_layers pl 0 files []")
  case (Inl e)
  with assms show ?thesis by (simp add: validate_v2_piece_layers_def)
next
  case (Inr expected)
  show ?thesis
  proof (cases "node_get root ''piece layers''")
    case None
    with assms Inr absent show ?thesis
      by (auto simp: validate_v2_piece_layers_def split: if_splits)
  next
    case (Some layers)
    with assms Inr present show ?thesis
      by (cases layers) (auto simp: validate_v2_piece_layers_def split: if_splits)
  qed
qed

lemma validate_v2_piece_layers_without:
  "validate_v2_piece_layers lib root files pl = Inr files' \<Longrightarrow> map without_layer files' = map without_layer files"
  by (elim validate_v2_piece_layers_InrE) (auto dest: check_layers_without)

lemma reconcile_files_core:
  "reconcile_files pl v2_files i offset n files = Inr (files', n') \<Longrightarrow> map file_core files' = map file_core files"
  by (induction pl v2_files i offset n files arbitrary: files' n' rule: reconcile_files.induct)
     (auto simp: result_simps Let_def file_core_def split: if_splits)

lemma lengths_ok_core:
  "lengths_ok meta \<Longrightarrow> map file_core files = map file_core (m_files meta) \<Longrightarrow> lengths_ok (meta\<lparr>m_files := files\<rparr>)"
proof -
  assume a: "lengths_ok meta" and "map file_core files = map file_core (m_files meta)"
  then have "map f_length files = map f_length (m_files meta)"
    by (auto simp: file_core_def list_eq_iff_nth_eq)
  moreover from this have "0 \<le> f_length fl" if "fl \<in> set files" for fl
    using a that by (metis (mono_tags, lifting) imageE imageI lengths_ok_def list.set_map)
  ultimately show ?thesis using a by (simp add: lengths_ok_def)
qed

lemma parse_v1_files_ok:
  assumes "parse_v1_files meta info = Inr meta'" "m_total_length meta = 0" "m_files meta = []"
  shows "lengths_ok meta' \<and> same_header meta meta' \<and> m_files meta' \<noteq> []"
proof (cases "node_get info ''files''")
  case None
  with assms show ?thesis
    by (auto simp: parse_v1_files_def add_length_def lengths_ok_def same_header_def file_at_def
        split: option.splits if_splits)
next
  case (Some fs)
  with assms(1) obtain items s e where items: "fs = NList items s e" "items \<noteq> []"
    "parse_v1_list 0 items (meta\<lparr>m_multi_file := True\<rparr>) = Inr meta'"
    by (auto simp: parse_v1_files_def split: node.splits if_splits)
  have "lengths_ok (meta\<lparr>m_multi_file := True\<rparr>)" using assms by (simp add: lengths_ok_def max_int64_def)
  from parse_v1_list_ok [OF items(3) this] have "lengths_ok meta' \<and> same_header meta meta'"
    by (simp add: same_header_def)
  moreover have "m_files meta' \<noteq> []"
  proof -
    have "length (m_files m') = length (m_files m) + length xs"
      if "parse_v1_list i xs m = Inr m'" for i xs m m'
      using that
      by (induction i xs m rule: parse_v1_list.induct) (auto simp: result_simps append_file_Inr)
    from this [OF items(3)] items(2) show ?thesis by auto
  qed
  ultimately show ?thesis by simp
qed

lemma parse_v2_files_ok:
  assumes "parse_v2_files meta info = Inr meta'" "m_total_length meta = 0" "m_files meta = []"
  shows "lengths_ok meta' \<and> same_header meta meta' \<and> m_files meta' \<noteq> []"
proof -
  from assms(1) obtain entries s e meta1 where
    walk: "walk_v2_tree (meta\<lparr>m_multi_file := True\<rparr>) (NDict entries s e) [] 0 = Inr meta1"
    and m: "m_files meta1 \<noteq> []" "meta' = meta1 \<or> meta' = meta1\<lparr>m_multi_file := False\<rparr>"
    by (auto simp: parse_v2_files_def result_simps simp del: walk_v2_tree.simps
        split: option.splits node.splits if_splits)
  have "lengths_ok (meta\<lparr>m_multi_file := True\<rparr>)" using assms by (simp add: lengths_ok_def max_int64_def)
  from walk_v2_ok(1) [OF walk this] m show ?thesis by (auto simp: same_header_def lengths_ok_def)
qed

lemma parse_layout_InrE:
  assumes "parse_layout lib root info header = Inr body"
  obtains (hybrid) v1 v2 files m2 where "has_v1 info" "has_v2 info" "parse_v1_files header info = Inr v1"
      "parse_v2_files (v1\<lparr>m_multi_file := False, m_total_length := 0, m_files := []\<rparr>) info = Inr v2"
      "validate_v2_piece_layers lib root (m_files v2) (m_piece_length v1) = Inr files"
      "reconcile_hybrid_layouts v1 (v2\<lparr>m_files := files\<rparr>) = Inr m2"
      "body = m2\<lparr>m_validation := ''hybrid_layout_consistent''\<rparr>"
  | (v1) v1 where "has_v1 info" "\<not> has_v2 info" "parse_v1_files header info = Inr v1"
      "body = v1\<lparr>m_validation := ''v1_manifest_structural''\<rparr>"
  | (v2) v2 files where "\<not> has_v1 info" "parse_v2_files header info = Inr v2"
      "validate_v2_piece_layers lib root (m_files v2) (m_piece_length v2) = Inr files"
      "body = v2\<lparr>m_files := files, m_validation := ''v2_manifest_structural''\<rparr>"
      "\<not> m_multi_file v2 \<Longrightarrow> hd (f_raw_path (hd (m_files v2))) = m_name_raw v2"
proof -
  consider "has_v1 info" "has_v2 info" | "has_v1 info" "\<not> has_v2 info" | "\<not> has_v1 info" by blast
  then show ?thesis
  proof cases
    case 1
    with assms hybrid show ?thesis by (auto simp: parse_layout_def result_simps Let_def)
  next
    case 2
    with assms v1 show ?thesis by (auto simp: parse_layout_def result_simps)
  next
    case 3
    with assms v2 show ?thesis by (auto simp: parse_layout_def result_simps split: if_splits)
  qed
qed

lemma reconcile_hybrid_Inr:
  assumes "reconcile_hybrid_layouts v1 v2 = Inr m"
  obtains files where "\<not> list_ex is_padding (m_files v2)"
    "reconcile_files (m_piece_length v1) (non_padding_files (m_files v2)) 0 0 0 (m_files v1) =
      Inr (files, length (non_padding_files (m_files v2)))" "m = v1\<lparr>m_files := files\<rparr>"
  using assms by (auto simp: reconcile_hybrid_layouts_def result_simps Let_def split: if_splits)

lemma parse_layout_ok:
  assumes "parse_layout lib root info header = Inr body"
    and "m_total_length header = 0" "m_files header = []"
  shows "lengths_ok body \<and> same_header header body \<and> m_files body \<noteq> []"
  using assms(1)
proof (cases rule: parse_layout_InrE)
  case (hybrid v1 v2 files m2)
  from hybrid(6) obtain files' where m2: "m2 = v1\<lparr>m_files := files'\<rparr>"
    "map file_core files' = map file_core (m_files v1)"
    by (rule reconcile_hybrid_Inr) (use reconcile_files_core in blast)
  then show ?thesis
    using parse_v1_files_ok [OF hybrid(3) assms(2,3)] lengths_ok_core [of v1 files'] hybrid(7)
    by (auto simp: same_header_def lengths_ok_def)
next
  case (v1 v1)
  with parse_v1_files_ok [OF v1(3) assms(2,3)] show ?thesis by (simp add: same_header_def lengths_ok_def)
next
  case (v2 v2 files)
  have "map file_core files = map file_core (m_files v2)"
    using validate_v2_piece_layers_without [OF v2(3)] by (rule without_layer_cong_core)
  with parse_v2_files_ok [OF v2(2) assms(2,3)] lengths_ok_core [of v2 files] v2(4) show ?thesis
    by (auto simp: same_header_def lengths_ok_def)
qed

end
