(* ===== verification/MetaInfoProps.thy ===== *)
theory MetaInfoProps
  imports MetaInfo
begin

text \<open>
  What an accepted metafile guarantees: info hashes over the exact info dictionary, a total length that is the
  sum of the file lengths and fits an \<open>int64\<close>, a matching number of v1 pieces, the file tree of a v2 metafile in
  the manifest, an authenticated layer for every large v2 file, hybrid layouts aligned to pieces, and paths
  that are safe and do not nest.
\<close>

section \<open>Header\<close>

lemma finish_parse_Inr:
  "finish_parse lib root info body = Inr m \<longleftrightarrow>
     manifest_paths_checked lib (m_files body)
       \<lparr>windows = False, case_sensitive = True, unicode_normalization = False\<rparr> = Inr () \<and>
     check_piece_count info (body\<lparr>m_v1_piece_count := int (length (m_piece_hashes body))\<rparr>) = Inr () \<and>
     m = body\<lparr>m_v1_piece_count := int (length (m_piece_hashes body)), m_trackers := tracker_origins lib root\<rparr>"
  by (auto simp: finish_parse_def result_simps Let_def split: sum.splits)

lemma parsed_header_transfer: "parsed_header lib data info a \<Longrightarrow> same_header a b \<Longrightarrow> parsed_header lib data info b"
  by (simp add: parsed_header_def same_header_def)

lemma parse_metainfo_facts:
  assumes "parse_metainfo lib data = Inr m"
  obtains root info header body where
    "parse_bencode data = Inr root" "node_get root ''info'' = Some info"
    "parsed_header lib data info m" "m_total_length header = 0" "m_files header = []"
    "parse_layout lib root info header = Inr body" "finish_parse lib root info body = Inr m"
    "m_files m = m_files body" "lengths_ok m" "same_header header m" "m_files m \<noteq> []"
proof -
  from assms obtain root info header body where
    a: "parse_bencode data = Inr root" "node_get root ''info'' = Some info"
    and h: "parsed_header lib data info header" and z: "m_total_length header = 0" "m_files header = []"
    and l: "parse_layout lib root info header = Inr body" "finish_parse lib root info body = Inr m"
    by (rule parse_metainfo_InrE)
  from parse_layout_ok [OF l(1) z] l(2)
  have b: "m_files m = m_files body" "lengths_ok m" "same_header header m" "m_files m \<noteq> []"
    by (auto simp: finish_parse_Inr lengths_ok_def same_header_def)
  show ?thesis
    by (rule that [OF a parsed_header_transfer [OF h b(3)] z l b])
qed

lemma hex_digest_nonempty: "digest_sizes lib \<Longrightarrow> hex_encode (gl_sha1 lib x) \<noteq> [] \<and> hex_encode (gl_sha256 lib x) \<noteq> []"
proof -
  assume "digest_sizes lib"
  then have "length (hex_encode (gl_sha1 lib x)) = 40" "length (hex_encode (gl_sha256 lib x)) = 64"
    by (simp_all add: digest_sizes_def)
  then show ?thesis by (metis list.size(3) zero_neq_numeral)
qed

text \<open>The smallest v1 metafile used by the witnesses, and its manifest.\<close>

abbreviation sample_v1 :: bytes where
  "sample_v1 \<equiv> ''d4:infod6:lengthi1e4:name1:a12:piece lengthi1e6:pieces20:bbbbbbbbbbbbbbbbbbbbee''"

definition sample_v1_meta :: meta_info where
  "sample_v1_meta =
     \<lparr>m_name = ''a'', m_name_raw_base64 = ''YQ=='', m_version = ''v1'', m_validation = ''v1_manifest_structural'',
      m_variant_id = ''sha256:'' @ hex_encode (gl_sha256 sample_lib sample_v1), m_bytes = 79,
      m_info_hash_v1 = hex_encode (gl_sha1 sample_lib (segment sample_v1 7 78)), m_info_hash_v2 = [],
      m_private = False, m_multi_file = False, m_piece_length = 1, m_v1_piece_count = 1, m_total_length = 1,
      m_trackers = [], m_files = [file_at [''a''] 1 []], m_name_raw = ''a'',
      m_piece_hashes = [''bbbbbbbbbbbbbbbbbbbb'']\<rparr>"

lemma sample_v1_tree:
  "parse_bencode sample_v1 =
     Inr (NDict [(''info'', NDict [(''length'', NInt 1 16 19), (''name'', NBytes ''a'' 25 28),
       (''piece length'', NInt 1 43 46), (''pieces'', NBytes ''bbbbbbbbbbbbbbbbbbbb'' 54 77)] 7 78)] 0 79)"
  by (simp add: bencode_eval)

lemmas metainfo_eval = parse_metainfo_def parse_info_def parse_name_def preferred_bytes_def node_get_def
  validate_alternate_bytes_def parse_piece_length_def integer_value_def parse_private_def check_versions_def has_v1_def has_v2_def
  bytes_value_def split_pieces_def parse_layout_def parse_v1_files_def add_length_def finish_parse_def
  manifest_paths_checked_def check_piece_count_def expected_pieces_def tracker_origins_def initial_meta_def
  display_bytes_def file_at_def is_padding_def max_int64_def int64_simps

lemmas path_eval = validate_manifest_paths_with_padding_def validate_manifest_paths_def
  validate_components_def component_error_def path_key_def fold_component_def contains_any_def has_prefix_def

lemma sample_v1_parsed: "parse_metainfo sample_lib sample_v1 = Inr sample_v1_meta"
proof -
  have "base64_encode ''a'' = ''YQ==''" by code_simp
  then show ?thesis
  by (simp add: metainfo_eval path_eval sample_v1_tree sample_v1_meta_def Let_def first_rune_def byte_val_def
      map_filter_simps del: base64_encode.simps)
qed

text \<open>
  Claim C2. The info hashes of an accepted metafile are the SHA-1 (v1) and SHA-256 (v2) digests of the canonical
  encoding of its info dictionary; each is present exactly when the version has it, and an accepted metafile
  has at least one.
\<close>

theorem metainfo_info_hashes:
  assumes "parse_metainfo lib data = Inr m"
  shows "\<exists>root info.
    parse_bencode data = Inr root \<and> node_get root ''info'' = Some info \<and>
    (let v1 = (bytes_value info ''pieces'' \<noteq> None); v2 = (integer_value info ''meta version'' = Some 2);
         encoded = encode (value_of info)
     in m_info_hash_v1 m = (if v1 then hex_encode (gl_sha1 lib encoded) else []) \<and>
        m_info_hash_v2 m = (if v2 then hex_encode (gl_sha256 lib encoded) else []) \<and>
        m_version m = (if v1 \<and> v2 then ''hybrid'' else if v2 then ''v2'' else ''v1'') \<and> (v1 \<or> v2))"
proof -
  from assms obtain root info header body where
    a: "parse_bencode data = Inr root" "node_get root ''info'' = Some info"
    "parsed_header lib data info m"
    by (rule parse_metainfo_facts)
  have "segment data (n_start info) (n_end info) = encode (value_of info)"
    using parse_bencode_parsed(3) [OF a(1)] spans_ok_get [OF _ a(2)] spans_ok_segment by blast
  with a show ?thesis
    by (rule_tac exI [of _ root], rule_tac exI [of _ info])
       (simp add: Let_def parsed_header_def del: not_None_eq flip: has_v1_def has_v2_def)
qed

theorem metainfo_info_hashes_witness:
  "m_info_hash_v1 sample_v1_meta = hex_encode (gl_sha1 sample_lib
     (encode (BDict [(''length'', BInt 1), (''name'', BBytes ''a''), (''piece length'', BInt 1),
        (''pieces'', BBytes ''bbbbbbbbbbbbbbbbbbbb'')]))) \<and> m_version sample_v1_meta = ''v1''"
  using metainfo_info_hashes [OF sample_v1_parsed]
  by (simp add: sample_v1_tree node_get_def bytes_value_def integer_value_def Let_def)

text \<open>
  Claim C12. The total length of an accepted metafile is the sum of its file lengths, none of which is
  negative, and it fits an \<open>int64\<close>: the additions of the parser never wrap.
\<close>

theorem metainfo_total_length:
  assumes "parse_metainfo lib data = Inr m"
  shows "m_total_length m = sum_list (map f_length (m_files m)) \<and> in_int64 (m_total_length m) \<and>
    list_all (\<lambda>f. 0 \<le> f_length f) (m_files m)"
proof -
  from assms have "lengths_ok m" by (rule parse_metainfo_facts)
  moreover from this have "0 \<le> m_total_length m" by (auto simp: lengths_ok_def intro!: sum_list_nonneg)
  ultimately show ?thesis by (auto simp: lengths_ok_def in_int64_def max_int64_def list_all_iff)
qed

theorem metainfo_total_length_witness:
  "m_total_length sample_v1_meta = sum_list (map f_length (m_files sample_v1_meta)) \<and>
     in_int64 (m_total_length sample_v1_meta) \<and> list_all (\<lambda>f. 0 \<le> f_length f) (m_files sample_v1_meta)"
  by (rule metainfo_total_length [OF sample_v1_parsed])

lemma split_pieces_Inr:
  assumes "split_pieces (Some p) = Inr hs"
  shows "20 * length hs = length p \<and> (\<forall>h \<in> set hs. length h = 20) \<and> concat hs = p"
proof -
  from assms have d: "length p mod 20 = 0" and hs: "hs = map (\<lambda>i. take 20 (drop (i * 20) p)) [0..<length p div 20]"
    by (auto simp: split_pieces_def split: if_splits)
  have each: "length (take 20 (drop (i * 20) p)) = 20" if "i < length p div 20" for i
    using that d by simp
  have "concat (map (\<lambda>i. take 20 (drop (i * 20) p)) [0..<n]) = take (n * 20) p" if "n \<le> length p div 20" for n
    using that
  proof (induction n)
    case (Suc n)
    then have "take (20 + n * 20) p = take (n * 20) p @ take 20 (drop (n * 20) p)"
      by (metis add.commute take_add)
    with Suc show ?case by simp
  qed simp
  from this [OF order_refl] d each hs show ?thesis by auto
qed

lemma parsed_piece_hashes:
  assumes "parse_metainfo lib data = Inr m" "digest_sizes lib"
  shows "if m_info_hash_v1 m = [] then m_piece_hashes m = []
         else int (length (m_piece_hashes m)) = (m_total_length m + m_piece_length m - 1) div m_piece_length m \<and>
              list_all (\<lambda>h. length h = 20) (m_piece_hashes m)"
proof -
  from assms(1) obtain root info header body where
    a: "parsed_header lib data info m" "finish_parse lib root info body = Inr m" "lengths_ok m"
    by (rule parse_metainfo_facts)
  have pl: "0 < m_piece_length m"
    using a(1) by (auto simp: parsed_header_def parse_piece_length_def split: option.splits if_splits)
  have total: "0 \<le> m_total_length m" using a(3) by (auto simp: lengths_ok_def intro!: sum_list_nonneg)
  show ?thesis
  proof (cases "bytes_value info ''pieces''")
    case None
    with a(1) show ?thesis by (auto simp: parsed_header_def split_pieces_def has_v1_def)
  next
    case (Some p)
    then have v1: "has_v1 info" by (simp add: has_v1_def)
    have "split_pieces (Some p) = Inr (m_piece_hashes m)"
      using a(1) Some by (simp add: parsed_header_def)
    note hs = split_pieces_Inr [OF this]
    have "m_info_hash_v1 m \<noteq> []"
      using v1 a(1) hex_digest_nonempty [OF assms(2)] by (simp add: parsed_header_def)
    moreover have "int (length (m_piece_hashes m)) =
        (if m_total_length m > 0 then (m_total_length m - 1) sdiv m_piece_length m + 1 else 0)"
      using v1 a(2) by (auto simp: finish_parse_Inr check_piece_count_def expected_pieces_def split: if_splits)
    moreover have "(m_total_length m - 1) sdiv m_piece_length m + 1 =
        (m_total_length m + m_piece_length m - 1) div m_piece_length m" if "m_total_length m > 0"
    proof -
      have "m_total_length m + m_piece_length m - 1 = (m_total_length m - 1) + m_piece_length m" by simp
      then show ?thesis using that pl by (simp only: div_add_self2) (simp add: int64_simps)
    qed
    ultimately show ?thesis using hs total pl by (auto simp: list_all_iff div_pos_pos_trivial)
  qed
qed

text \<open>The pieces string of a document is the one of its info dictionary.\<close>

definition pieces_of :: "bytes \<Rightarrow> bytes option" where
  "pieces_of data = (case parse_bencode data of
     Inl e \<Rightarrow> None
   | Inr root \<Rightarrow> (case node_get root ''info'' of None \<Rightarrow> None | Some info \<Rightarrow> bytes_value info ''pieces''))"

lemma parsed_pieces_string:
  assumes "parse_metainfo lib data = Inr m"
  shows "case pieces_of data of None \<Rightarrow> m_info_hash_v1 m = []
    | Some p \<Rightarrow> concat (m_piece_hashes m) = p \<and> (\<forall>h \<in> set (m_piece_hashes m). length h = 20)"
proof -
  from assms obtain root info header body where
    r: "parse_bencode data = Inr root" "node_get root ''info'' = Some info"
    and a: "parsed_header lib data info m"
    by (rule parse_metainfo_facts)
  show ?thesis
  proof (cases "bytes_value info ''pieces''")
    case None
    with a r show ?thesis by (simp add: pieces_of_def parsed_header_def has_v1_def)
  next
    case (Some p)
    with a have "split_pieces (Some p) = Inr (m_piece_hashes m)" by (simp add: parsed_header_def)
    from split_pieces_Inr [OF this] Some r show ?thesis by (simp add: pieces_of_def)
  qed
qed

text \<open>
  Claim C13. A metafile with a v1 info hash has exactly one 20-byte piece hash for each started piece of its
  content, and the hashes put together in their order are the \<open>pieces\<close> string of the info
  dictionary: hash \<open>i\<close> is its bytes \<open>20 * i\<close> to \<open>20 * i + 19\<close>. A pure v2 metafile
  has none.
\<close>

theorem metainfo_piece_hashes:
  assumes "parse_metainfo lib data = Inr m" "digest_sizes lib"
  shows "if m_info_hash_v1 m = [] then m_piece_hashes m = []
         else int (length (m_piece_hashes m)) = (m_total_length m + m_piece_length m - 1) div m_piece_length m \<and>
              list_all (\<lambda>h. length h = 20) (m_piece_hashes m) \<and>
              pieces_of data = Some (concat (m_piece_hashes m))"
  using parsed_piece_hashes [OF assms] parsed_pieces_string [OF assms(1)]
  by (auto split: option.splits if_splits)

theorem metainfo_piece_hashes_witness:
  "int (length (m_piece_hashes sample_v1_meta)) =
     (m_total_length sample_v1_meta + m_piece_length sample_v1_meta - 1) div m_piece_length sample_v1_meta \<and>
   pieces_of sample_v1 = Some (concat (m_piece_hashes sample_v1_meta))"
proof -
  have "m_info_hash_v1 sample_v1_meta \<noteq> []"
    using hex_digest_nonempty [OF digest_sizes_sample] by (simp add: sample_v1_meta_def)
  with metainfo_piece_hashes [OF sample_v1_parsed digest_sizes_sample] show ?thesis by simp
qed

section \<open>The file tree\<close>

text \<open>The leaves of a v2 file tree in key order: path, length and pieces root.\<close>

definition leaf_of :: "bytes list \<Rightarrow> node \<Rightarrow> bytes list \<times> int64 \<times> bytes" where
  "leaf_of pre child =
     (pre, (case integer_value child ''length'' of Some len \<Rightarrow> len | None \<Rightarrow> 0),
      (case bytes_value child ''pieces root'' of Some root \<Rightarrow> root | None \<Rightarrow> []))"

fun tree_leaves :: "bytes list \<Rightarrow> node \<Rightarrow> (bytes list \<times> int64 \<times> bytes) list"
  and entry_leaves :: "bytes list \<Rightarrow> (bytes \<times> node) list \<Rightarrow> (bytes list \<times> int64 \<times> bytes) list" where
  "tree_leaves pre (NDict entries s e) = entry_leaves pre entries"
| "tree_leaves pre _ = []"
| "entry_leaves pre [] = []"
| "entry_leaves pre ((key, child) # rest) =
     (if key = [] then [leaf_of pre child] else tree_leaves (pre @ [key]) child) @ entry_leaves pre rest"

definition file_leaf :: "file_entry \<Rightarrow> bytes list \<times> int64 \<times> bytes" where
  "file_leaf f = (f_raw_path f, f_length f, f_pieces_root_raw f)"

lemma v2_leaf_Inr:
  assumes "v2_leaf name child pre = Inr fl" "pre \<noteq> []"
  shows "file_leaf fl = leaf_of pre child \<and> \<not> is_padding fl \<and> f_piece_layer_raw fl = []"
  using assms
  by (auto simp: v2_leaf_def Let_def leaf_of_def file_leaf_def is_padding_def file_at_def
      split: option.splits if_splits)

lemma walk_v2_leaves:
  "walk_v2_tree meta node pre depth = Inr meta' \<Longrightarrow> length pre = depth \<Longrightarrow>
     \<exists>new. m_files meta' = m_files meta @ new \<and> map file_leaf new = tree_leaves pre node \<and>
       (\<forall>f \<in> set new. \<not> is_padding f)"
  "walk_v2_entries meta entries pre depth = Inr meta' \<Longrightarrow> length pre = depth \<Longrightarrow>
     \<exists>new. m_files meta' = m_files meta @ new \<and> map file_leaf new = entry_leaves pre entries \<and>
       (\<forall>f \<in> set new. \<not> is_padding f)"
proof (induction meta node pre depth and meta entries pre depth arbitrary: meta' and meta'
    rule: walk_v2_tree_walk_v2_entries.induct)
  case (4 meta key child rest pre depth)
  show ?case
  proof (cases "key = []")
    case True
    with "4.prems"(1) obtain fl meta1 where fl: "v2_leaf (m_name_raw meta) child pre = Inr fl"
      "append_file meta fl = Inr meta1" "walk_v2_entries meta1 rest pre depth = Inr meta'" "depth \<noteq> 0"
      by (auto simp: result_simps split: if_splits)
    from "4.IH"(1) [OF True fl(4,1,2,3) "4.prems"(2)] obtain new where
      new: "m_files meta' = m_files meta1 @ new" "map file_leaf new = entry_leaves pre rest"
      "\<forall>f \<in> set new. \<not> is_padding f" by blast
    moreover have "m_files meta1 = m_files meta @ [fl]" using fl(2) by (simp add: append_file_Inr)
    moreover have "pre \<noteq> []" using fl(4) "4.prems"(2) by auto
    ultimately show ?thesis
      using v2_leaf_Inr [OF fl(1)] True by (intro exI [of _ "fl # new"]) simp
  next
    case False
    with "4.prems"(1) obtain meta1 where child: "\<not> (\<not> is_dictionary child \<or> \<not> utf8_valid key)"
      "walk_v2_tree meta child (pre @ [key]) (depth + 1) = Inr meta1"
      "walk_v2_entries meta1 rest pre depth = Inr meta'"
      by (auto simp: result_simps split: if_splits)
    from "4.IH"(2) [OF False child(1,2)] "4.prems"(2) obtain new1 where
      new1: "m_files meta1 = m_files meta @ new1" "map file_leaf new1 = tree_leaves (pre @ [key]) child"
      "\<forall>f \<in> set new1. \<not> is_padding f" by auto
    from "4.IH"(3) [OF False child(1,2,3) "4.prems"(2)] obtain new2 where
      new2: "m_files meta' = m_files meta1 @ new2" "map file_leaf new2 = entry_leaves pre rest"
      "\<forall>f \<in> set new2. \<not> is_padding f" by blast
    from new1 new2 False show ?thesis by (intro exI [of _ "new1 @ new2"]) auto
  qed
qed (auto split: if_splits)

lemma parse_v2_files_leaves:
  assumes "parse_v2_files meta info = Inr meta'" "m_files meta = []"
  shows "\<exists>tree. node_get info ''file tree'' = Some tree \<and> map file_leaf (m_files meta') = tree_leaves [] tree \<and>
    (\<forall>f \<in> set (m_files meta'). \<not> is_padding f)"
proof -
  from assms(1) obtain entries s e meta1 where tree: "node_get info ''file tree'' = Some (NDict entries s e)"
    "walk_v2_tree (meta\<lparr>m_multi_file := True\<rparr>) (NDict entries s e) [] 0 = Inr meta1"
    "m_files meta' = m_files meta1"
    by (auto simp: parse_v2_files_def result_simps simp del: walk_v2_tree.simps
        split: option.splits node.splits if_splits)
  from walk_v2_leaves(1) [OF tree(2)] assms(2) tree(1,3) show ?thesis by auto
qed

section \<open>Piece layers\<close>

definition needs_layer :: "int64 \<Rightarrow> file_entry \<Rightarrow> bool" where
  "needs_layer pl f \<longleftrightarrow> \<not> is_padding f \<and> pl < f_length f"

definition piece_count :: "int64 \<Rightarrow> file_entry \<Rightarrow> int64" where
  "piece_count pl f = (f_length f - 1) sdiv pl + 1"

text \<open>The collected layers against the files seen so far.\<close>

definition layers_inv :: "int64 \<Rightarrow> file_entry list \<Rightarrow> (bytes \<times> int64 \<times> nat list) list \<Rightarrow> bool" where
  "layers_inv pl files expected \<longleftrightarrow> distinct (map fst expected) \<and>
     (\<forall>i < length files. needs_layer pl (files ! i) \<longrightarrow>
        (\<exists>indexes. map_of expected (f_pieces_root_raw (files ! i)) = Some (piece_count pl (files ! i), indexes) \<and>
           i \<in> set indexes)) \<and>
     (\<forall>key count indexes. map_of expected key = Some (count, indexes) \<longrightarrow>
        (\<forall>i \<in> set indexes. i < length files \<and> f_pieces_root_raw (files ! i) = key))"

lemma layers_inv_skip: "layers_inv pl files expected \<Longrightarrow> \<not> needs_layer pl f \<Longrightarrow> layers_inv pl (files @ [f]) expected"
  unfolding layers_inv_def by (auto simp: nth_append less_Suc_eq)

lemma layers_inv_add:
  assumes "layers_inv pl files expected"
    and "case map_of expected (f_pieces_root_raw f) of
           Some (c, indexes) \<Rightarrow> c = piece_count pl f \<and> old = indexes | None \<Rightarrow> old = []"
  shows "layers_inv pl (files @ [f])
    (AList.update (f_pieces_root_raw f) (piece_count pl f, old @ [length files]) expected)"
proof -
  let ?k = "f_pieces_root_raw f" and ?v = "(piece_count pl f, old @ [length files])"
  let ?E = "AList.update ?k ?v expected" and ?files = "files @ [f]"
  note inv = assms(1) [unfolded layers_inv_def]
  have upd: "map_of ?E = (map_of expected)(?k \<mapsto> ?v)" by (rule update_conv')
  have "\<exists>indexes. map_of ?E (f_pieces_root_raw (?files ! i)) = Some (piece_count pl (?files ! i), indexes) \<and>
           i \<in> set indexes" if i: "i < length ?files" "needs_layer pl (?files ! i)" for i
  proof (cases "i = length files")
    case True
    then show ?thesis by (simp add: upd)
  next
    case False
    with i have l: "i < length files" "needs_layer pl (files ! i)" by (auto simp: nth_append)
    with inv obtain indexes where "map_of expected (f_pieces_root_raw (files ! i)) =
        Some (piece_count pl (files ! i), indexes)" "i \<in> set indexes" by blast
    with l(1) assms(2) show ?thesis by (auto simp: upd nth_append)
  qed
  moreover have "i < length ?files \<and> f_pieces_root_raw (?files ! i) = key"
    if "map_of ?E key = Some (count, indexes)" "i \<in> set indexes" for key count indexes i
  proof (cases "key = ?k \<and> i = length files")
    case False
    with that have "\<exists>count indexes. map_of expected key = Some (count, indexes) \<and> i \<in> set indexes"
      using assms(2) by (auto simp: upd split: if_splits option.splits)
    with inv have "i < length files \<and> f_pieces_root_raw (files ! i) = key" by blast
    then show ?thesis by (simp add: nth_append)
  qed simp
  ultimately show ?thesis
    using inv unfolding layers_inv_def by (auto intro!: distinct_update)
qed

lemma expected_layers_inv:
  assumes "expected_layers pl (length files) rest expected = Inr result" "layers_inv pl files expected"
  shows "layers_inv pl (files @ rest) result"
  using assms
proof (induction rest arbitrary: files expected)
  case (Cons f rest)
  have step: "expected_layers pl (length (files @ [f])) rest E = Inr result \<Longrightarrow> layers_inv pl (files @ [f]) E \<Longrightarrow>
      layers_inv pl (files @ f # rest) result" for E
    using Cons.IH [of "files @ [f]" E] by simp
  show ?case
  proof (cases "needs_layer pl f")
    case False
    with Cons.prems show ?thesis
      by (intro step [of expected] layers_inv_skip) (auto simp: needs_layer_def not_less)
  next
    case True
    then have n: "\<not> (is_padding f \<or> f_length f \<le> pl)" by (auto simp: needs_layer_def)
    let ?k = "f_pieces_root_raw f"
    show ?thesis
    proof (cases "map_of expected ?k")
      case None
      with Cons.prems(1) n have "expected_layers pl (length (files @ [f])) rest
          (AList.update ?k (piece_count pl f, [length files]) expected) = Inr result"
        by (auto simp: Let_def piece_count_def split: if_splits)
      then show ?thesis
        by (rule step) (use layers_inv_add [OF Cons.prems(2), where f = f and old = "[]"] None in simp)
    next
      case (Some e)
      then obtain c idx where e: "e = (c, idx)" by fastforce
      with Some Cons.prems(1) n have "c = piece_count pl f" "expected_layers pl (length (files @ [f])) rest
          (AList.update ?k (piece_count pl f, idx @ [length files]) expected) = Inr result"
        by (auto simp: Let_def piece_count_def split: if_splits)
      then show ?thesis
        using layers_inv_add [OF Cons.prems(2), where f = f and old = idx] Some e by (intro step) auto
    qed
  qed
qed simp

lemma set_layer_nth:
  assumes "\<forall>j \<in> set indexes. j < length files" "i < length files"
  shows "set_layer layer indexes files ! i =
    (if i \<in> set indexes then (files ! i)\<lparr>f_piece_layer_raw := layer\<rparr> else files ! i)"
  using assms
proof (induction indexes arbitrary: files)
  case (Cons j js)
  let ?files = "files[j := (files ! j)\<lparr>f_piece_layer_raw := layer\<rparr>]"
  have "set_layer layer (j # js) files = set_layer layer js ?files" by (simp add: set_layer_def)
  with Cons.IH [of ?files] Cons.prems show ?case by (auto simp: nth_list_update)
qed (simp add: set_layer_def)

lemma set_layer_length [simp]: "length (set_layer layer indexes files) = length files"
  using arg_cong [OF set_layer_without, of length] by simp

lemma check_layers_sets:
  assumes "check_layers lib pl expected entries files = Inr files'" "distinct (map fst entries)"
    and "\<And>key count indexes. map_of expected key = Some (count, indexes) \<Longrightarrow>
      \<forall>i \<in> set indexes. i < length files \<and> f_pieces_root_raw (files ! i) = key"
  shows "(\<forall>key \<in> set (map fst entries). \<exists>count indexes layer. map_of expected key = Some (count, indexes) \<and>
       reduce_v2_piece_layer lib layer count pl = Inr key \<and>
       (\<forall>i \<in> set indexes. f_piece_layer_raw (files' ! i) = layer)) \<and>
     (\<forall>i < length files. f_pieces_root_raw (files ! i) \<notin> set (map fst entries) \<longrightarrow> files' ! i = files ! i) \<and>
     length files' = length files"
  using assms
proof (induction entries arbitrary: files)
  case Nil
  then show ?case by simp
next
  case (Cons e rest)
  obtain key n where e: "e = (key, n)" by fastforce
  from Cons.prems(1) e obtain count indexes layer a b where
    n: "n = NBytes layer a b" "map_of expected key = Some (count, indexes)"
    and red: "reduce_v2_piece_layer lib layer count pl = Inr key"
    and rest: "check_layers lib pl expected rest (set_layer layer indexes files) = Inr files'"
    by (auto split: option.splits node.splits sum.splits if_splits)
  let ?files = "set_layer layer indexes files"
  have idx: "\<forall>i \<in> set indexes. i < length files \<and> f_pieces_root_raw (files ! i) = key"
    using Cons.prems(3) [OF n(2)] .
  have nth: "?files ! i = (if i \<in> set indexes then (files ! i)\<lparr>f_piece_layer_raw := layer\<rparr> else files ! i)"
    if "i < length files" for i
    using idx that by (intro set_layer_nth) auto
  have inv: "\<forall>i \<in> set is. i < length ?files \<and> f_pieces_root_raw (?files ! i) = k"
    if "map_of expected k = Some (c, is)" for k c "is"
    using Cons.prems(3) [OF that] by (auto simp: nth)
  have ih: "(\<forall>key \<in> set (map fst rest). \<exists>count indexes layer. map_of expected key = Some (count, indexes) \<and>
       reduce_v2_piece_layer lib layer count pl = Inr key \<and>
       (\<forall>i \<in> set indexes. f_piece_layer_raw (files' ! i) = layer))"
    "\<forall>i < length files. f_pieces_root_raw (?files ! i) \<notin> set (map fst rest) \<longrightarrow> files' ! i = ?files ! i"
    "length files' = length files"
    using Cons.IH [OF rest _ inv] Cons.prems(2) by auto
  have root: "f_pieces_root_raw (?files ! i) = f_pieces_root_raw (files ! i)" if "i < length files" for i
    using nth [OF that] by simp
  have "\<forall>i \<in> set indexes. f_piece_layer_raw (files' ! i) = layer"
    using ih(2) idx root nth Cons.prems(2) e by fastforce
  moreover have "files' ! i = files ! i"
    if "i < length files" "f_pieces_root_raw (files ! i) \<notin> set (map fst (e # rest))" for i
    using that ih(2) root nth idx e by auto
  ultimately show ?case using ih n(2) red e by auto
qed

definition layer_authentic :: "golib \<Rightarrow> int64 \<Rightarrow> file_entry \<Rightarrow> bool" where
  "layer_authentic lib pl f \<longleftrightarrow> (needs_layer pl f \<longrightarrow>
     reduce_v2_piece_layer lib (f_piece_layer_raw f) (piece_count pl f) pl = Inr (f_pieces_root_raw f))"

lemma without_layer_eqD:
  assumes "without_layer f = without_layer g"
  shows "f_length f = f_length g" "f_attribute f = f_attribute g" "f_pieces_root_raw f = f_pieces_root_raw g"
    "f_raw_path f = f_raw_path g" "is_padding f = is_padding g" "needs_layer pl f = needs_layer pl g"
    "piece_count pl f = piece_count pl g" "file_leaf f = file_leaf g"
proof -
  from assms have "f_length (without_layer f) = f_length (without_layer g)"
    "f_attribute (without_layer f) = f_attribute (without_layer g)"
    "f_pieces_root_raw (without_layer f) = f_pieces_root_raw (without_layer g)"
    "f_raw_path (without_layer f) = f_raw_path (without_layer g)" by simp_all
  then show "f_length f = f_length g" "f_attribute f = f_attribute g"
    "f_pieces_root_raw f = f_pieces_root_raw g" "f_raw_path f = f_raw_path g" "is_padding f = is_padding g"
    "needs_layer pl f = needs_layer pl g" "piece_count pl f = piece_count pl g" "file_leaf f = file_leaf g"
    by (simp_all add: without_layer_def is_padding_def needs_layer_def piece_count_def file_leaf_def)
qed

lemma validate_v2_piece_layers_authentic:
  assumes "validate_v2_piece_layers lib root files pl = Inr files'"
    and "\<And>entries s e. node_get root ''piece layers'' = Some (NDict entries s e) \<Longrightarrow> distinct (map fst entries)"
  shows "\<forall>f \<in> set files'. layer_authentic lib pl f"
proof -
  have same: "map without_layer files' = map without_layer files"
    by (rule validate_v2_piece_layers_without [OF assms(1)])
  then have len: "length files' = length files" by (rule map_eq_imp_length_eq)
  have nth: "without_layer (files' ! i) = without_layer (files ! i)" if "i < length files" for i
    using arg_cong [OF same, of "\<lambda>xs. xs ! i"] that len by simp
  have "layers_inv pl [] []" by (simp add: layers_inv_def)
  then have inv: "expected_layers pl 0 files [] = Inr E \<Longrightarrow> layers_inv pl files E" for E
    using expected_layers_inv [of pl "[]" files "[]" E] by simp
  from assms(1) show ?thesis
  proof (cases rule: validate_v2_piece_layers_InrE)
    case absent
    with inv [of "[]"] show ?thesis by (auto simp: layers_inv_def layer_authentic_def in_set_conv_nth)
  next
    case (present expected entries s e)
    note E = inv [OF present(1), unfolded layers_inv_def]
    have sets: "(\<forall>key \<in> set (map fst entries). \<exists>count indexes layer. map_of expected key = Some (count, indexes) \<and>
       reduce_v2_piece_layer lib layer count pl = Inr key \<and>
       (\<forall>i \<in> set indexes. f_piece_layer_raw (files' ! i) = layer))"
      using check_layers_sets [OF present(4) assms(2) [OF present(2)]] E by blast
    have "set (map fst entries) \<subseteq> set (map fst expected)"
      using sets by (metis map_of_eq_None_iff option.distinct(1) set_map subsetI)
    moreover have "card (set (map fst entries)) = card (set (map fst expected))"
      using assms(2) [OF present(2)] E present(3) by (simp only: distinct_card length_map)
    ultimately have keys: "set (map fst entries) = set (map fst expected)"
      by (intro card_subset_eq) auto
    have "layer_authentic lib pl (files' ! i)" if i: "i < length files" for i
    proof (cases "needs_layer pl (files ! i)")
      case True
      let ?k = "f_pieces_root_raw (files ! i)"
      from E i True obtain indexes where m: "map_of expected ?k = Some (piece_count pl (files ! i), indexes)"
        "i \<in> set indexes" by blast
      then have "?k \<in> set (map fst entries)" unfolding keys by (force dest: map_of_SomeD)
      with sets m obtain layer where "reduce_v2_piece_layer lib layer (piece_count pl (files ! i)) pl = Inr ?k"
        "f_piece_layer_raw (files' ! i) = layer" by fastforce
      then show ?thesis using without_layer_eqD [OF nth [OF i]] by (simp add: layer_authentic_def)
    next
      case False
      then show ?thesis using without_layer_eqD [OF nth [OF i]] by (simp add: layer_authentic_def)
    qed
    then show ?thesis using len by (auto simp: in_set_conv_nth)
  qed
qed

lemma parsed_dict_keys:
  assumes "parse_bencode data = Inr root" "node_get root key = Some (NDict entries s e)"
  shows "distinct (map fst entries)"
proof -
  have "value_ok (max_string default_decode_limits) (value_of root)"
    using parse_bencode_parsed(2) [OF assms(1)] by (simp add: acceptable_value_def)
  with assms(2) have "value_ok (max_string default_decode_limits) (value_of (NDict entries s e))"
    by (cases root) (fastforce simp: node_get_def dest: map_of_SomeD)+
  then have "sorted_wrt (<) (map fst entries)" by (simp add: comp_def case_prod_beta)
  then show ?thesis by (simp add: strict_sorted_iff)
qed

section \<open>Hybrid layouts\<close>

text \<open>Padding fills up the current piece, and content starts on a piece boundary.\<close>

definition stream_offset :: "file_entry list \<Rightarrow> nat \<Rightarrow> int64" where
  "stream_offset files i = sum_list (map f_length (take i files))"

definition piece_aligned :: "int64 \<Rightarrow> file_entry list \<Rightarrow> nat \<Rightarrow> bool" where
  "piece_aligned pl files i \<longleftrightarrow>
     (let f = files ! i; offset = stream_offset files i in
      if is_padding f then offset mod pl \<noteq> 0 \<and> f_length f = pl - offset mod pl
      else f_length f > 0 \<longrightarrow> offset mod pl = 0)"

lemma reconcile_files_aligned:
  assumes "reconcile_files pl v2_files k offset next files = Inr (files', n)"
    and "0 < pl" "0 \<le> offset" "\<forall>f \<in> set files. 0 \<le> f_length f"
    and "offset + sum_list (map f_length files) \<le> max_int64" "i < length files'"
  shows "let o' = offset + stream_offset files' i; f = files' ! i in
      if is_padding f then o' mod pl \<noteq> 0 \<and> f_length f = pl - o' mod pl
      else f_length f > 0 \<longrightarrow> o' mod pl = 0"
  using assms
proof (induction files arbitrary: k offset "next" files' n i)
  case (Cons f rest)
  have sum: "0 \<le> sum_list (map f_length rest)" using Cons.prems(4) by (intro sum_list_nonneg) auto
  have wrap: "wrap64 (offset + f_length f) = offset + f_length f"
    using Cons.prems(3-5) sum by (intro wrap64_id) (auto simp: in_int64_def max_int64_def)
  from Cons.prems(1) obtain g rest' nxt' where fs: "files' = g # rest'"
    and g: "f_length g = f_length f" "is_padding g = is_padding f"
    and rest: "reconcile_files pl v2_files (k + 1) (offset + f_length f) nxt' rest = Inr (rest', n)"
    and head: "if is_padding f then offset mod pl \<noteq> 0 \<and> f_length f = pl - offset mod pl
      else f_length f > 0 \<longrightarrow> offset mod pl = 0"
    using Cons.prems(2,3) wrap
    by (auto simp: result_simps Let_def int64_simps is_padding_def split: if_splits)
  show ?case
  proof (cases i)
    case 0
    with head g fs show ?thesis by (simp add: stream_offset_def)
  next
    case (Suc j)
    have "let o' = offset + f_length f + stream_offset rest' j; h = rest' ! j in
      if is_padding h then o' mod pl \<noteq> 0 \<and> f_length h = pl - o' mod pl
      else f_length h > 0 \<longrightarrow> o' mod pl = 0"
      by (rule Cons.IH [OF rest]) (use Cons.prems sum Suc fs in \<open>auto simp: add.assoc\<close>)
    then show ?thesis using Suc fs g by (simp add: stream_offset_def add.assoc Let_def)
  qed
qed simp

text \<open>A file of the reconciled layout that is not padding is its counterpart of the v2 layout.\<close>

definition file_v2 :: "file_entry \<Rightarrow> bytes list \<times> int64 \<times> bytes \<times> bytes" where
  "file_v2 f = (f_raw_path f, f_length f, f_pieces_root_raw f, f_piece_layer_raw f)"

lemma reconcile_files_match:
  "reconcile_files pl v2_files k offset nxt files = Inr (files', n) \<Longrightarrow> nxt \<le> length v2_files \<Longrightarrow>
     map file_v2 (non_padding_files files') = map file_v2 (take (n - nxt) (drop nxt v2_files)) \<and>
     nxt \<le> n \<and> n \<le> length v2_files"
proof (induction files arbitrary: k offset nxt files' n)
  case (Cons f rest)
  show ?case
  proof (cases "is_padding f")
    case True
    with Cons.prems(1) obtain rest' where "files' = f # rest'"
      "reconcile_files pl v2_files (k + 1) (wrap64 (offset + f_length f)) nxt rest = Inr (rest', n)"
      by (auto simp: result_simps split: if_splits)
    with Cons.IH [OF this(2) Cons.prems(2)] True show ?thesis by (simp add: non_padding_files_def)
  next
    case False
    let ?e = "v2_files ! nxt"
    let ?g = "f\<lparr>f_pieces_root := f_pieces_root ?e, f_pieces_root_raw := f_pieces_root_raw ?e,
      f_piece_layer_raw := f_piece_layer_raw ?e\<rparr>"
    from False Cons.prems(1) obtain rest' where fs: "files' = ?g # rest'" "nxt < length v2_files"
      "f_length f = f_length ?e" "same_raw_path (f_raw_path f) (f_raw_path ?e)"
      "reconcile_files pl v2_files (k + 1) (wrap64 (offset + f_length f)) (nxt + 1) rest = Inr (rest', n)"
      by (auto simp: result_simps Let_def simp del: same_raw_path.simps split: if_splits)
    from Cons.IH [OF fs(5)] fs(2) have ih: "map file_v2 (non_padding_files rest') =
        map file_v2 (take (n - (nxt + 1)) (drop (nxt + 1) v2_files))" "nxt + 1 \<le> n" "n \<le> length v2_files"
      by auto
    have "take (n - nxt) (drop nxt v2_files) = ?e # take (n - (nxt + 1)) (drop (nxt + 1) v2_files)"
      using ih(2) fs(2) by (simp add: Cons_nth_drop_Suc [symmetric] take_Cons' Suc_diff_Suc)
    moreover have "f_raw_path f = f_raw_path ?e" using fs(4) by (simp add: list_all2_eq)
    moreover have "\<not> is_padding ?g" using False by (simp add: is_padding_def)
    ultimately have "file_v2 ?g = file_v2 ?e" "take (n - nxt) (drop nxt v2_files) = ?e # take (n - (nxt + 1)) (drop (nxt + 1) v2_files)"
      "\<not> is_padding ?g" using fs(3) by (simp_all add: file_v2_def)
    then show ?thesis using fs(1) ih by (simp add: non_padding_files_def)
  qed
qed (simp add: non_padding_files_def)

lemma reconcile_hybrid_match:
  assumes "reconcile_hybrid_layouts v1 v2 = Inr m"
  shows "map file_v2 (non_padding_files (m_files m)) = map file_v2 (m_files v2)"
  using assms
proof (rule reconcile_hybrid_Inr)
  fix files
  assume pads: "\<not> list_ex is_padding (m_files v2)"
    and rec: "reconcile_files (m_piece_length v1) (non_padding_files (m_files v2)) 0 0 0 (m_files v1) =
      Inr (files, length (non_padding_files (m_files v2)))" "m = v1\<lparr>m_files := files\<rparr>"
  have "non_padding_files (m_files v2) = m_files v2"
    using pads by (simp add: non_padding_files_def list_ex_iff filter_id_conv)
  with reconcile_files_match [OF rec(1)] rec(2) show ?thesis by simp
qed

section \<open>v2 and hybrid manifests\<close>

lemma file_v2_authentic:
  "file_v2 f = file_v2 g \<Longrightarrow> \<not> is_padding g \<Longrightarrow> layer_authentic lib pl g \<Longrightarrow> layer_authentic lib pl f"
  by (auto simp: file_v2_def layer_authentic_def needs_layer_def piece_count_def)

lemma without_layer_leaf [simp]:
  "file_leaf (without_layer f) = file_leaf f" "is_padding (without_layer f) = is_padding f"
  by (simp_all add: without_layer_def file_leaf_def is_padding_def)

lemma validated_leaves:
  assumes "validate_v2_piece_layers lib root files pl = Inr files'"
  shows "map file_leaf files' = map file_leaf files" "map is_padding files' = map is_padding files"
proof -
  have "map file_leaf (map without_layer files') = map file_leaf (map without_layer files)"
    "map is_padding (map without_layer files') = map is_padding (map without_layer files)"
    using validate_v2_piece_layers_without [OF assms] by simp_all
  then show "map file_leaf files' = map file_leaf files" "map is_padding files' = map is_padding files"
    by (simp_all add: comp_def)
qed

lemma validated_no_padding:
  assumes "validate_v2_piece_layers lib root files pl = Inr files'" "\<forall>f \<in> set files. \<not> is_padding f"
  shows "\<forall>f \<in> set files'. \<not> is_padding f"
proof -
  have "True \<notin> set (map is_padding files')" using assms(2) unfolding validated_leaves(2) [OF assms(1)] by auto
  then show ?thesis by auto
qed

lemma list_all_not_padding_filter: "\<forall>f \<in> set files. \<not> is_padding f \<Longrightarrow> non_padding_files files = files"
  by (simp add: non_padding_files_def filter_id_conv)

text \<open>The part of a v2 or hybrid manifest that comes from the file tree.\<close>

lemma parse_layout_v2:
  assumes "parse_layout lib root info header = Inr body" "has_v2 info"
    and "m_total_length header = 0" "m_files header = []" "parse_bencode data = Inr root"
  shows "\<exists>tree. node_get info ''file tree'' = Some tree \<and>
      map file_leaf (non_padding_files (m_files body)) = tree_leaves [] tree \<and>
      (\<forall>f \<in> set (m_files body). layer_authentic lib (m_piece_length header) f)"
  using assms(1)
proof (cases rule: parse_layout_InrE)
  case (hybrid v1 v2 files m2)
  have pl: "m_piece_length v1 = m_piece_length header"
    using parse_v1_files_ok [OF hybrid(3) assms(3,4)] by (simp add: same_header_def)
  obtain tree where tree: "node_get info ''file tree'' = Some tree"
    "map file_leaf (m_files v2) = tree_leaves [] tree" "\<forall>f \<in> set (m_files v2). \<not> is_padding f"
    using parse_v2_files_leaves [OF hybrid(4)] by auto
  have auth: "\<forall>f \<in> set files. layer_authentic lib (m_piece_length v1) f"
    by (rule validate_v2_piece_layers_authentic [OF hybrid(5) parsed_dict_keys [OF assms(5)]])
  have match: "map file_v2 (non_padding_files (m_files m2)) = map file_v2 files"
    using reconcile_hybrid_match [OF hybrid(6)] by simp
  have "map file_leaf (non_padding_files (m_files m2)) = map file_leaf files"
    using arg_cong [OF match, of "map (\<lambda>(a, b, c, d). (a, b, c))"]
    by (simp add: comp_def file_v2_def file_leaf_def [abs_def])
  moreover have "layer_authentic lib (m_piece_length v1) f" if "f \<in> set (m_files m2)" for f
  proof (cases "is_padding f")
    case True
    then show ?thesis by (simp add: layer_authentic_def needs_layer_def)
  next
    case False
    with that have "file_v2 f \<in> set (map file_v2 (non_padding_files (m_files m2)))"
      by (auto simp: non_padding_files_def)
    then obtain g where "g \<in> set files" "file_v2 f = file_v2 g" unfolding match by auto
    with auth validated_no_padding [OF hybrid(5) tree(3)] show ?thesis by (blast intro: file_v2_authentic)
  qed
  ultimately show ?thesis
    using tree validated_leaves(1) [OF hybrid(5)] hybrid(7) pl by auto
next
  case (v1 v1)
  with assms(2) show ?thesis by simp
next
  case (v2 v2 files)
  have pl: "m_piece_length v2 = m_piece_length header"
    using parse_v2_files_ok [OF v2(2) assms(3,4)] by (simp add: same_header_def)
  obtain tree where tree: "node_get info ''file tree'' = Some tree"
    "map file_leaf (m_files v2) = tree_leaves [] tree" "\<forall>f \<in> set (m_files v2). \<not> is_padding f"
    using parse_v2_files_leaves [OF v2(2) assms(4)] by auto
  show ?thesis
    using tree(1,2) validated_leaves(1) [OF v2(3)] v2(4) pl
      list_all_not_padding_filter [OF validated_no_padding [OF v2(3) tree(3)]]
      validate_v2_piece_layers_authentic [OF v2(3) parsed_dict_keys [OF assms(5)]] by simp
qed

text \<open>A hybrid metafile with two one-byte files and the padding between them.\<close>

definition sample_root :: bytes where
  "sample_root = replicate 32 CHR ''r''"

definition sample_hybrid :: bvalue where
  "sample_hybrid =
     (let leaf = BDict [([], BDict [(''length'', BInt 1), (''pieces root'', BBytes sample_root)])];
          file = (\<lambda>name. BDict [(''length'', BInt 1), (''path'', BList [BBytes name])]);
          pad = BDict [(''attr'', BBytes ''p''), (''length'', BInt 16383),
                  (''path'', BList [BBytes ''.pad'', BBytes ''0''])]
      in BDict [(''info'', BDict [(''file tree'', BDict [(''a'', leaf), (''b'', leaf)]),
           (''files'', BList [file ''a'', pad, file ''b'']),
           (''meta version'', BInt 2), (''name'', BBytes ''t''), (''piece length'', BInt 16384),
           (''pieces'', BBytes (replicate 40 CHR ''h''))])])"

lemma value_of_iff:
  "value_of n = BInt i \<longleftrightarrow> (\<exists>s e. n = NInt i s e)"
  "value_of n = BBytes b \<longleftrightarrow> (\<exists>s e. n = NBytes b s e)"
  "value_of n = BList vs \<longleftrightarrow> (\<exists>ns s e. n = NList ns s e \<and> map value_of ns = vs)"
  "value_of n = BDict kvs \<longleftrightarrow> (\<exists>ns s e. n = NDict ns s e \<and> map (\<lambda>(k, v). (k, value_of v)) ns = kvs)"
  by (cases n; auto)+

lemma sample_hybrid_acceptable: "acceptable_value sample_hybrid"
  by (simp add: acceptable_value_def sample_hybrid_def default_decode_limits_def in_int64_def max_int64_def
      sample_root_def Let_def encode_bytes_def render_int_def decimal.simps)

lemma sample_hybrid_tree:
  "\<exists>n. parse_bencode (encode sample_hybrid) = Inr n \<and> value_of n = sample_hybrid"
  by (rule parse_bencode_encode [OF sample_hybrid_acceptable])

definition sample_file :: "bytes \<Rightarrow> file_entry" where
  "sample_file name = (file_at [name] 1 [])\<lparr>f_pieces_root := hex_encode sample_root, f_pieces_root_raw := sample_root\<rparr>"

lemma sample_hybrid_manifest:
  assumes "parse_bencode data = Inr n" "value_of n = sample_hybrid"
  shows "\<exists>m. parse_metainfo sample_lib data = Inr m \<and> m_version m = ''hybrid'' \<and>
     m_files m = [sample_file ''a'', file_at [''.pad'', ''0''] 16383 ''p'', sample_file ''b''] \<and>
     m_piece_length m = 16384"
  using assms
  by (auto simp: sample_hybrid_def Let_def value_of_iff map_eq_Cons_conv)
     (simp add: metainfo_eval path_eval first_rune_def Let_def byte_val_def parse_v2_files_def sample_root_def
       v2_leaf_def append_file_def validate_alternate_path_def parse_v1_file_def upt_rec map_filter_simps
       validate_v2_piece_layers_def reconcile_hybrid_layouts_def non_padding_files_def sample_file_def wrap64_def)

lemma sample_hybrid_parsed:
  obtains m where "parse_metainfo sample_lib (encode sample_hybrid) = Inr m" "m_version m = ''hybrid''"
    "m_files m = [sample_file ''a'', file_at [''.pad'', ''0''] 16383 ''p'', sample_file ''b'']"
    "m_piece_length m = 16384"
  using sample_hybrid_tree sample_hybrid_manifest by blast

text \<open>
  Claim C10. The files of an accepted v2 or hybrid metafile that are not padding are exactly the leaves of the
  file tree in its info dictionary, in key order, with the paths, lengths and roots found there.
\<close>

theorem metainfo_files_are_tree_leaves:
  assumes "parse_metainfo lib data = Inr m" "m_version m \<noteq> ''v1''"
  shows "\<exists>root info tree. parse_bencode data = Inr root \<and> node_get root ''info'' = Some info \<and>
    node_get info ''file tree'' = Some tree \<and>
    map file_leaf (non_padding_files (m_files m)) = tree_leaves [] tree"
proof -
  from assms(1) obtain root info header body where
    a: "parse_bencode data = Inr root" "node_get root ''info'' = Some info" "parsed_header lib data info m"
    and z: "m_total_length header = 0" "m_files header = []"
    and l: "parse_layout lib root info header = Inr body" and f: "m_files m = m_files body"
    by (rule parse_metainfo_facts)
  have "has_v2 info" using a(3) assms(2) by (auto simp: parsed_header_def split: if_splits)
  from parse_layout_v2 [OF l this z a(1)] a(1,2) f show ?thesis by auto
qed

theorem metainfo_files_are_tree_leaves_witness:
  "\<exists>m root info tree. parse_metainfo sample_lib (encode sample_hybrid) = Inr m \<and>
    parse_bencode (encode sample_hybrid) = Inr root \<and> node_get root ''info'' = Some info \<and>
    node_get info ''file tree'' = Some tree \<and>
    map file_leaf (non_padding_files (m_files m)) = tree_leaves [] tree"
proof -
  obtain m where m: "parse_metainfo sample_lib (encode sample_hybrid) = Inr m" "m_version m = ''hybrid''"
    by (rule sample_hybrid_parsed)
  then have "m_version m \<noteq> ''v1''" by simp
  from metainfo_files_are_tree_leaves [OF m(1) this] m(1) show ?thesis by blast
qed

text \<open>
  Claim C5. In an accepted v2 or hybrid metafile every file larger than one piece carries a piece layer that
  hashes to the pieces root of the file tree; no layer is missing and none is taken on trust.
\<close>

theorem metainfo_layers_authentic:
  assumes "parse_metainfo lib data = Inr m" "m_version m \<noteq> ''v1''"
    and "f \<in> set (m_files m)" "\<not> is_padding f" "m_piece_length m < f_length f"
  shows "reduce_v2_piece_layer lib (f_piece_layer_raw f) ((f_length f - 1) div m_piece_length m + 1)
           (m_piece_length m) = Inr (f_pieces_root_raw f)"
proof -
  from assms(1) obtain root info header body where
    a: "parse_bencode data = Inr root" "parsed_header lib data info m"
    and z: "m_total_length header = 0" "m_files header = []" and h: "same_header header m"
    and l: "parse_layout lib root info header = Inr body" and f: "m_files m = m_files body"
    by (rule parse_metainfo_facts)
  have v2: "has_v2 info" using a(2) assms(2) by (auto simp: parsed_header_def split: if_splits)
  have pl: "m_piece_length header = m_piece_length m" "0 < m_piece_length m"
    using h a(2) v2 by (auto simp: same_header_def parsed_header_def)
  have "layer_authentic lib (m_piece_length m) f"
    using parse_layout_v2 [OF l v2 z a(1)] assms(3) f pl(1) by auto
  with assms(4,5) pl(2) show ?thesis
    by (simp add: layer_authentic_def needs_layer_def piece_count_def int64_simps)
qed

text \<open>A v2 metafile with one file of two pieces and its layer, under a digest that keeps the first 32 bytes.\<close>

definition sample_v2 :: bvalue where
  "sample_v2 =
     (let leaf = BDict [([], BDict [(''length'', BInt 16385), (''pieces root'', BBytes sample_root)])]
      in BDict [(''info'', BDict [(''file tree'', BDict [(''a'', leaf)]),
           (''meta version'', BInt 2), (''name'', BBytes ''a''), (''piece length'', BInt 16384)]),
         (''piece layers'', BDict [(sample_root, BBytes (replicate 64 CHR ''r''))])])"

definition sample_v2_file :: file_entry where
  "sample_v2_file = (file_at [''a''] 16385 [])\<lparr>f_pieces_root := hex_encode sample_root,
     f_pieces_root_raw := sample_root, f_piece_layer_raw := replicate 64 CHR ''r''\<rparr>"

lemma sample_v2_acceptable: "acceptable_value sample_v2"
  by (simp add: acceptable_value_def sample_v2_def default_decode_limits_def in_int64_def max_int64_def
      sample_root_def Let_def encode_bytes_def render_int_def decimal.simps less_list_code)

lemma sample_layer_reduces:
  "reduce_v2_piece_layer sample_lib (replicate 64 CHR ''r'') 2 16384 = Inr (replicate 32 CHR ''r'')"
  unfolding reduce_v2_piece_layer_iff
  by (rule exI [of _ 0])
     (simp add: max_int64_def tree_height.simps padded_leaves_def layer_hashes_def layer_hash_def upt_rec
        v2_hash_pair_def sample_lib_def pad_to_def)

lemma sample_v2_manifest:
  assumes "parse_bencode data = Inr n" "value_of n = sample_v2"
  shows "\<exists>m. parse_metainfo sample_lib data = Inr m \<and> m_version m = ''v2'' \<and>
     m_files m = [sample_v2_file] \<and> m_piece_length m = 16384"
  using assms
  by (auto simp: sample_v2_def Let_def value_of_iff map_eq_Cons_conv)
     (simp add: metainfo_eval path_eval first_rune_def Let_def byte_val_def parse_v2_files_def sample_root_def
       v2_leaf_def append_file_def map_filter_simps validate_v2_piece_layers_def sample_layer_reduces
       sample_v2_file_def set_layer_def)

lemma sample_v2_parsed:
  obtains m where "parse_metainfo sample_lib (encode sample_v2) = Inr m" "m_version m = ''v2''"
    "m_files m = [sample_v2_file]" "m_piece_length m = 16384"
  using parse_bencode_encode [OF sample_v2_acceptable] sample_v2_manifest by blast

theorem metainfo_layers_authentic_witness:
  "\<exists>m f. parse_metainfo sample_lib (encode sample_v2) = Inr m \<and> f \<in> set (m_files m) \<and>
     reduce_v2_piece_layer sample_lib (f_piece_layer_raw f) ((f_length f - 1) div m_piece_length m + 1)
           (m_piece_length m) = Inr (f_pieces_root_raw f)"
proof -
  obtain m where m: "parse_metainfo sample_lib (encode sample_v2) = Inr m" "m_version m = ''v2''"
    "m_files m = [sample_v2_file]" "m_piece_length m = 16384"
    by (rule sample_v2_parsed)
  then have "m_version m \<noteq> ''v1''" "sample_v2_file \<in> set (m_files m)" "\<not> is_padding sample_v2_file"
    "m_piece_length m < f_length sample_v2_file"
    by (simp_all add: sample_v2_file_def file_at_def is_padding_def)
  from metainfo_layers_authentic [OF m(1) this] m(1) this(2) show ?thesis by blast
qed

text \<open>
  Claim C9. In an accepted hybrid metafile every non-empty file starts on a piece boundary of the v1 stream, and
  every padding file starts inside a piece and ends exactly at its boundary, so the v1 pieces never span files.
\<close>

theorem metainfo_hybrid_piece_aligned:
  assumes "parse_metainfo lib data = Inr m" "m_version m = ''hybrid''" "i < length (m_files m)"
  shows "piece_aligned (m_piece_length m) (m_files m) i"
proof -
  from assms(1) obtain root info header body where
    a: "parsed_header lib data info m"
    and z: "m_total_length header = 0" "m_files header = []" and h: "same_header header m"
    and l: "parse_layout lib root info header = Inr body" and f: "m_files m = m_files body" "lengths_ok m"
    by (rule parse_metainfo_facts)
  have v: "has_v1 info" "has_v2 info" "0 < m_piece_length m"
    using a assms(2) by (auto simp: parsed_header_def split: if_splits)
  from l show ?thesis
  proof (cases rule: parse_layout_InrE)
    case (hybrid v1 v2 files m2)
    note v1 = parse_v1_files_ok [OF hybrid(3) z]
    then have pl: "m_piece_length v1 = m_piece_length m" "0 < m_piece_length v1"
      using h v(3) by (simp_all add: same_header_def)
    from hybrid(6) obtain files' where
      rec: "reconcile_files (m_piece_length v1) (non_padding_files files) 0 0 0 (m_files v1) =
        Inr (files', length (non_padding_files files))" and m2: "m2 = v1\<lparr>m_files := files'\<rparr>"
      by (rule reconcile_hybrid_Inr) simp
    have files: "m_files m = files'" using f(1) hybrid(7) m2 by simp
    have "\<forall>f \<in> set (m_files v1). 0 \<le> f_length f" "0 + sum_list (map f_length (m_files v1)) \<le> max_int64"
      using v1 by (auto simp: lengths_ok_def)
    have "i < length files'" using assms(3) files by simp
    from reconcile_files_aligned [OF rec pl(2) order_refl \<open>\<forall>f \<in> set (m_files v1). 0 \<le> f_length f\<close>
        \<open>0 + _ \<le> max_int64\<close> this]
    show ?thesis unfolding piece_aligned_def Let_def files pl(1) [symmetric] add_0 .
  qed (use v in simp_all)
qed

theorem metainfo_hybrid_piece_aligned_witness:
  "\<exists>m. parse_metainfo sample_lib (encode sample_hybrid) = Inr m \<and>
     piece_aligned (m_piece_length m) (m_files m) 1 \<and> is_padding (m_files m ! 1)"
proof -
  obtain m where m: "parse_metainfo sample_lib (encode sample_hybrid) = Inr m" "m_version m = ''hybrid''"
    "m_files m = [sample_file ''a'', file_at [''.pad'', ''0''] 16383 ''p'', sample_file ''b'']"
    by (rule sample_hybrid_parsed)
  then have "1 < length (m_files m)" "is_padding (m_files m ! 1)" by (simp_all add: is_padding_def file_at_def)
  with metainfo_hybrid_piece_aligned [OF m(1,2)] m(1) show ?thesis by blast
qed

text \<open>
  Claim C11. Every path of an accepted metafile is a non-empty list of components that are non-empty, are not
  dot names and contain no separator, no NUL and no control byte (below 32, or 127), and no path lies below another: the files of a
  manifest cannot leave their directory or overwrite one another through nesting.
\<close>

theorem metainfo_paths_safe:
  assumes "parse_metainfo lib data = Inr m" "f \<in> set (m_files m)"
  shows "f_raw_path f \<noteq> [] \<and>
    list_all (\<lambda>c. c \<noteq> [] \<and> c \<noteq> ''.'' \<and> c \<noteq> ''..'' \<and> CHR ''/'' \<notin> set c \<and> CHR 0x5C \<notin> set c \<and>
      NUL \<notin> set c \<and> list_all (\<lambda>b. 32 \<le> byte_val b \<and> byte_val b \<noteq> 127) c) (f_raw_path f) \<and>
    list_all (\<lambda>g. \<not> strict_prefix (f_raw_path f) (f_raw_path g)) (m_files m)"
proof -
  obtain root info header body where fin: "finish_parse lib root info body = Inr m" "m_files m = m_files body"
    using assms(1) by (rule parse_metainfo_facts)
  let ?sem = "\<lparr>windows = False, case_sensitive = True, unicode_normalization = False\<rparr>"
  have acc: "validate_manifest_paths lib (map f_raw_path (m_files m)) (Some (map is_padding (m_files m))) ?sem = Inr ()"
    using fin by (simp add: finish_parse_Inr manifest_paths_checked_def validate_manifest_paths_with_padding_def)
  then have "validate_components lib (f_raw_path f) ?sem = Inr ()"
    using assms(2) by (auto simp: manifest_paths_accepted)
  from validated_components_safe [OF this] validated_components_printable [OF this] paths_not_nested [OF acc]
    assms(2) show ?thesis
    by (auto simp: list_all_iff)
qed

theorem metainfo_paths_safe_witness:
  "list_all (\<lambda>b. 32 \<le> byte_val b \<and> byte_val b \<noteq> 127) ''a'' \<and>
    list_all (\<lambda>g. \<not> strict_prefix [''a''] (f_raw_path g)) (m_files sample_v1_meta)"
proof -
  have "file_at [''a''] 1 [] \<in> set (m_files sample_v1_meta)" by (simp add: sample_v1_meta_def)
  from metainfo_paths_safe [OF sample_v1_parsed this] show ?thesis by (simp add: file_at_def)
qed

end
