(* ===== verification/Actions.thy ===== *)
theory Actions
  imports Prelude
begin

text \<open>
  Actions on a state that may fail: what a Go function is that returns a value and an error and acts on the
  system. The simplification rules in \<open>act_simps\<close> invert a successful run.
\<close>

section \<open>Actions that may fail\<close>

type_synonym ('w, 'e, 'a) act = "'w \<Rightarrow> ('e + 'a) \<times> 'w"

definition ret :: "'a \<Rightarrow> ('w, 'e, 'a) act" where
  "ret x w = (Inr x, w)"

definition fail :: "'e \<Rightarrow> ('w, 'e, 'a) act" where
  "fail e w = (Inl e, w)"

definition bnd :: "('w, 'e, 'a) act \<Rightarrow> ('a \<Rightarrow> ('w, 'e, 'b) act) \<Rightarrow> ('w, 'e, 'b) act" where
  "bnd m f w = (case m w of (Inl e, w) \<Rightarrow> (Inl e, w) | (Inr x, w) \<Rightarrow> f x w)"

text \<open>\<open>guard b e\<close> fails with \<open>e\<close> unless \<open>b\<close>.\<close>

definition guard :: "bool \<Rightarrow> 'e \<Rightarrow> ('w, 'e, unit) act" where
  "guard b e = (if b then ret () else fail e)"

named_theorems act_simps

lemma ret_eq [act_simps]: "ret x w = (r, w') \<longleftrightarrow> r = Inr x \<and> w' = w"
  by (auto simp: ret_def)

lemma fail_eq [act_simps]: "fail e w = (r, w') \<longleftrightarrow> r = Inl e \<and> w' = w"
  by (auto simp: fail_def)

lemma bnd_Inr [act_simps]: "bnd m f w = (Inr y, w') \<longleftrightarrow> (\<exists>x w1. m w = (Inr x, w1) \<and> f x w1 = (Inr y, w'))"
  by (auto simp: bnd_def split: prod.splits sum.splits)

lemma guard_Inr [act_simps]: "guard b e w = (Inr u, w') \<longleftrightarrow> b \<and> w' = w"
  by (auto simp: guard_def ret_def fail_def)

lemma bnd_cong [fundef_cong]:
  "w = w' \<Longrightarrow> m w' = m' w' \<Longrightarrow> (\<And>x w1. m' w' = (Inr x, w1) \<Longrightarrow> f x w1 = f' x w1) \<Longrightarrow> bnd m f w = bnd m' f' w'"
  by (auto simp: bnd_def split: prod.splits sum.splits)

text \<open>\<open>os.FileInfo\<close>: \<open>fi_id\<close> is what \<open>os.SameFile\<close> compares.\<close>

record file_info =
  fi_id :: nat
  fi_size :: int64
  fi_mtime :: int
  fi_regular :: bool
  fi_link_like :: bool
  fi_dir :: bool

text \<open>Lifting the calls: an error of the call becomes the given error.\<close>

definition call :: "('w \<Rightarrow> 'a option \<times> 'w) \<Rightarrow> 'e \<Rightarrow> ('w, 'e, 'a) act" where
  "call f e w = (case f w of (None, w) \<Rightarrow> (Inl e, w) | (Some x, w) \<Rightarrow> (Inr x, w))"

lemma call_Inr [act_simps]: "call f e w = (Inr x, w') \<longleftrightarrow> f w = (Some x, w')"
  by (auto simp: call_def split: prod.splits option.splits)

end
