(* ===== verification/PathJoin.thy ===== *)
theory PathJoin
  imports PathRules Actions
begin

text \<open>
  The part of \<open>internal/storage/path.go\<close> that asks the file system: joining a manifest path below a root without
  following links, planning a path that does not exist yet, and mapping a host path into a downloader's namespace.
  \<open>filepath\<close> is modelled for a host with POSIX paths. What the file system answers is a parameter.
\<close>

section \<open>filepath\<close>

definition path_join :: "bytes list \<Rightarrow> bytes" where
  "path_join elems =
     (let es = dropWhile (\<lambda>e. e = []) elems in if es = [] then [] else path_clean (join ''/'' es))"

definition path_dir :: "bytes \<Rightarrow> bytes" where
  "path_dir p = path_clean (rev (dropWhile (\<lambda>c. c \<noteq> CHR ''/'') (rev p)))"

definition path_base :: "bytes \<Rightarrow> bytes" where
  "path_base p =
     (if p = [] then ''.''
      else let q = dropWhile (\<lambda>c. c = CHR ''/'') (rev p)
           in if q = [] then ''/'' else rev (takeWhile (\<lambda>c. c \<noteq> CHR ''/'') q))"

text \<open>The elements of a clean path as \<open>filepath.Rel\<close> walks them.\<close>

definition path_elements :: "bytes \<Rightarrow> bytes list" where
  "path_elements p = (if p = [] then [] else if p = ''/'' then [[]] else split_on CHR ''/'' p)"

fun strip_common :: "bytes list \<Rightarrow> bytes list \<Rightarrow> bytes list \<times> bytes list" where
  "strip_common (x # xs) (y # ys) = (if x = y then strip_common xs ys else (x # xs, y # ys))"
| "strip_common xs ys = (xs, ys)"

definition path_rel :: "bytes \<Rightarrow> bytes \<Rightarrow> bytes option" where
  "path_rel base targ =
     (let base = path_clean base; targ = path_clean targ
      in if targ = base then Some ''.''
         else
           let base = (if base = ''.'' then [] else base)
           in if has_prefix base ''/'' \<noteq> has_prefix targ ''/'' then None
              else (case strip_common (path_elements base) (path_elements targ) of
                      (b, t) \<Rightarrow>
                        if b \<noteq> [] \<and> t \<noteq> [] \<and> hd b = ''..'' then None
                        else Some (join ''/'' (replicate (length b) ''..'' @ t))))"

section \<open>What the file system answers\<close>

datatype lookup_error = NotExist | OtherError

text \<open>\<open>filepath.Abs\<close>, \<open>filepath.EvalSymlinks\<close> and \<open>os.Lstat\<close>.\<close>

record 'w names =
  nm_abs :: "bytes \<Rightarrow> 'w \<Rightarrow> bytes option \<times> 'w"
  nm_eval :: "bytes \<Rightarrow> 'w \<Rightarrow> (lookup_error + bytes) \<times> 'w"
  nm_lstat :: "bytes \<Rightarrow> 'w \<Rightarrow> (lookup_error + file_info) \<times> 'w"

definition lookup :: "('w \<Rightarrow> (lookup_error + 'a) \<times> 'w) \<Rightarrow> 'e \<Rightarrow> ('w, 'e, 'a) act" where
  "lookup f e w = (case f w of (Inl _, w) \<Rightarrow> (Inl e, w) | (Inr x, w) \<Rightarrow> (Inr x, w))"

lemma lookup_Inr [act_simps]: "lookup f e w = (Inr x, w') \<longleftrightarrow> f w = (Inr x, w')"
  by (auto simp: lookup_def split: prod.splits sum.splits)

datatype join_error =
    JoinComponents path_error | ResolveRoot | InspectRoot | RootIsLink | EvalRoot | EscapesRoot nat
  | InspectComponent nat | ComponentIsLink nat | EvalComponent nat | ResolvesOutside nat | PlannedEscapes
  | InvalidClientRoot path_error | ResolveHostPath | EvalHostPath | HostPathOutsideRoot
  | ClientPathUnrepresentable path_error | PrefixNotDirectory | EvalPrefix | InspectPrefix
  | HostRootEmpty | HostRootNotDirectory

section \<open>Joining\<close>

definition confined_relative_path :: "bytes \<Rightarrow> bytes \<Rightarrow> bytes option" where
  "confined_relative_path root path =
     (case path_rel root path of
        None \<Rightarrow> None
      | Some rel \<Rightarrow> if rel = ''..'' \<or> has_prefix rel ''../'' \<or> has_prefix rel ''/'' then None else Some rel)"

fun secure_join_loop :: "'w names \<Rightarrow> bytes \<Rightarrow> nat \<Rightarrow> bytes list \<Rightarrow> bytes \<Rightarrow> ('w, join_error, bytes) act" where
  "secure_join_loop ns root index [] current = ret current"
| "secure_join_loop ns root index (raw # rest) current =
     (let current = path_join [current, raw] in
      bnd (guard (confined_relative_path root current \<noteq> None) (EscapesRoot index)) (\<lambda>_.
      bnd (lookup (nm_lstat ns current) (InspectComponent index)) (\<lambda>info.
      bnd (guard (\<not> fi_link_like info) (ComponentIsLink index)) (\<lambda>_.
      bnd (lookup (nm_eval ns current) (EvalComponent index)) (\<lambda>resolved.
      bnd (guard (confined_relative_path root resolved \<noteq> None) (ResolvesOutside index)) (\<lambda>_.
      secure_join_loop ns root (index + 1) rest resolved))))))"

definition secure_join_existing :: "golib \<Rightarrow> 'w names \<Rightarrow> bytes \<Rightarrow> bytes list \<Rightarrow> path_semantics \<Rightarrow>
    ('w, join_error, bytes) act" where
  "secure_join_existing lib ns root components sem =
     (case validate_components lib components sem of
        Inl e \<Rightarrow> fail (JoinComponents e)
      | Inr _ \<Rightarrow>
          bnd (call (nm_abs ns root) ResolveRoot) (\<lambda>abs_root.
          bnd (lookup (nm_lstat ns abs_root) InspectRoot) (\<lambda>info.
          bnd (guard (\<not> fi_link_like info) RootIsLink) (\<lambda>_.
          bnd (lookup (nm_eval ns abs_root) EvalRoot) (\<lambda>resolved.
          secure_join_loop ns resolved 0 components resolved)))))"

definition planned_join :: "golib \<Rightarrow> 'w names \<Rightarrow> bytes \<Rightarrow> bytes list \<Rightarrow> path_semantics \<Rightarrow> ('w, join_error, bytes) act" where
  "planned_join lib ns root components sem =
     (case validate_components lib components sem of
        Inl e \<Rightarrow> fail (JoinComponents e)
      | Inr _ \<Rightarrow>
          bnd (call (nm_abs ns root) ResolveRoot) (\<lambda>abs_root.
          let target = path_join (abs_root # components)
          in bnd (guard (confined_relative_path abs_root target \<noteq> None) PlannedEscapes) (\<lambda>_. ret target)))"

section \<open>Lengths of clean paths\<close>

text \<open>What \<open>path.Clean\<close> keeps is never longer than what it was given.\<close>

definition stack_size :: "bytes list \<Rightarrow> nat" where
  "stack_size st = sum_list (map (Suc \<circ> length) st)"

lemma stack_size_simps [simp]:
  "stack_size [] = 0" "stack_size (x # xs) = Suc (length x) + stack_size xs"
  "stack_size (xs @ ys) = stack_size xs + stack_size ys"
  by (simp_all add: stack_size_def)

lemma stack_size_butlast: "stack_size (butlast st) \<le> stack_size st"
  by (cases st rule: rev_cases) simp_all

lemma clean_step_size: "stack_size (clean_step rooted st el) \<le> stack_size st + (if el = [] then 0 else Suc (length el))"
  using stack_size_butlast [of st] by (auto simp: clean_step_def)

lemma foldl_clean_size: "stack_size (foldl (clean_step rooted) st els) \<le> stack_size st + stack_size els"
proof (induction els arbitrary: st)
  case (Cons el els)
  from Cons [of "clean_step rooted st el"] clean_step_size [of rooted st el] show ?case
    by (simp split: if_splits)
qed simp

lemma join_size: "length (join [c] ps) = stack_size ps - 1"
  by (induction "[c]" ps rule: join.induct) auto

lemma split_on_size: "stack_size (split_on c p) = Suc (length p)"
  by (induction p) (auto split: list.splits)

lemma path_clean_length: "p \<noteq> [] \<Longrightarrow> length (path_clean p) \<le> length p"
proof -
  assume p: "p \<noteq> []"
  let ?st = "\<lambda>r. foldl (clean_step r) [] (split_on CHR ''/'' p)"
  have any: "stack_size (?st r) \<le> Suc (length p)" for r
    using foldl_clean_size [of r "[]" "split_on CHR ''/'' p"] split_on_size [of "CHR ''/''" p] by simp
  have "length (join ''/'' (?st r)) \<le> length p" for r using any [of r] by (simp add: join_size)
  moreover have "Suc (length (join ''/'' (?st True))) \<le> length p" if rooted: "hd p = CHR ''/''"
  proof -
    obtain q where q: "p = CHR ''/'' # q" using p rooted by (cases p) auto
    then have "?st True = foldl (clean_step True) [] (split_on CHR ''/'' q)" by (simp add: clean_step_def)
    then have "stack_size (?st True) \<le> Suc (length q)"
      using foldl_clean_size [of True "[]" "split_on CHR ''/'' q"] split_on_size [of "CHR ''/''" q] by simp
    with q show ?thesis by (simp add: join_size)
  qed
  ultimately show ?thesis using p by (auto simp: path_clean_def Let_def Suc_le_eq)
qed

lemma foldl_clean_nonempty:
  "\<forall>c \<in> set st. c \<noteq> [] \<and> CHR ''/'' \<notin> set c \<Longrightarrow> \<forall>c \<in> set els. CHR ''/'' \<notin> set c \<Longrightarrow>
     \<forall>c \<in> set (foldl (clean_step r) st els). c \<noteq> [] \<and> CHR ''/'' \<notin> set c"
proof (induction els arbitrary: st)
  case (Cons el els)
  have "\<forall>c \<in> set (clean_step r st el). c \<noteq> [] \<and> CHR ''/'' \<notin> set c"
    using Cons.prems by (simp add: clean_step_def) (metis in_set_butlastD)
  from Cons.IH [OF this] Cons.prems(2) show ?case by simp
qed simp

lemma join_last: "ps \<noteq> [] \<Longrightarrow> last ps \<noteq> [] \<Longrightarrow> join sep ps \<noteq> [] \<and> last (join sep ps) = last (last ps)"
  by (induction sep ps rule: join.induct) (auto simp: last_append)

lemma path_clean_last: "path_clean p \<noteq> ''/'' \<Longrightarrow> last (path_clean p) \<noteq> CHR ''/''"
proof -
  assume not_root: "path_clean p \<noteq> ''/''"
  let ?st = "\<lambda>r. foldl (clean_step r) [] (split_on CHR ''/'' p)"
  have comps: "\<forall>c \<in> set (?st r). c \<noteq> [] \<and> CHR ''/'' \<notin> set c" for r
    by (rule foldl_clean_nonempty) (auto dest: split_on_no_sep)
  have "last (join ''/'' (?st r)) \<noteq> CHR ''/'' \<and> join ''/'' (?st r) \<noteq> []" if "?st r \<noteq> []" for r
    using join_last [OF that, of "''/''"] comps [of r] that last_in_set [of "?st r"] by (metis last_in_set)
  then show ?thesis
    using not_root by (cases "?st (hd p = CHR ''/'') = []") (auto simp: path_clean_def Let_def split: if_splits)
qed

section \<open>Mapping a host path to the client\<close>

text \<open>
  \<open>resolvePlannedHostPath\<close> walks up to the nearest existing ancestor. \<open>path.Dir\<close> shortens a path until it is
  its own parent, so the walk ends.
\<close>

lemma upto_slash_last: "rev (dropWhile (\<lambda>c. c \<noteq> CHR ''/'') (rev p)) = q \<Longrightarrow> q \<noteq> [] \<Longrightarrow> last q = CHR ''/''"
  using hd_dropWhile [of "\<lambda>c. c \<noteq> CHR ''/''" "rev p"] by (auto simp: last_rev)

lemma path_dir_decreases:
  assumes "path_dir p \<noteq> p"
  shows "(path_dir p, p) \<in> measures [\<lambda>p. if p = ''.'' then 0 else Suc (length p), \<lambda>p. if last p = CHR ''/'' then 1 else 0]"
proof -
  define q where "q = rev (dropWhile (\<lambda>c. c \<noteq> CHR ''/'') (rev p))"
  have dir: "path_dir p = path_clean q" by (simp add: path_dir_def q_def)
  have "p = q @ rev (takeWhile (\<lambda>c. c \<noteq> CHR ''/'') (rev p))"
    unfolding q_def by (metis rev_append rev_rev_ident takeWhile_dropWhile_id)
  then obtain r where split: "p = q @ r" by blast
  show ?thesis
  proof (cases "q = []")
    case True
    then have "path_dir p = ''.''" using dir by (simp add: path_clean_def)
    with assms show ?thesis by simp
  next
    case False
    note slash = upto_slash_last [OF q_def [symmetric] False]
    have len: "length (path_dir p) \<le> length q" using path_clean_length [OF False] dir by simp
    have dot: "p \<noteq> ''.''" using slash split False by (cases q) (auto split: if_splits)
    show ?thesis
    proof (cases "length (path_dir p) < length p")
      case True
      with dot show ?thesis by simp
    next
      case eq: False
      have "length p = length q + length r" using split by simp
      with eq len have "length r = 0" and same: "length (path_dir p) = length p" by linarith+
      then have r: "r = []" by simp
      have "path_dir p \<noteq> ''/''"
      proof
        assume root: "path_dir p = ''/''"
        with same obtain c where "p = [c]" by (cases p) auto
        with slash split r have "p = ''/''" by (metis append_Nil2 last.simps)
        with root assms show False by simp
      qed
      then have "last (path_dir p) \<noteq> CHR ''/''" using path_clean_last [of q] dir by simp
      with same dot slash split r show ?thesis by simp
    qed
  qed
qed

function resolve_planned_host_path :: "'w names \<Rightarrow> bytes \<Rightarrow> bytes \<Rightarrow> bytes list \<Rightarrow> ('w, join_error, bytes) act" where
  "resolve_planned_host_path ns root current missing w =
     (case nm_lstat ns current w of
        (Inr info, w) \<Rightarrow>
          bnd (guard (\<not> (missing \<noteq> [] \<and> (\<not> fi_dir info \<or> fi_link_like info))) PrefixNotDirectory) (\<lambda>_.
          bnd (lookup (nm_eval ns current) EvalPrefix) (\<lambda>resolved.
          bnd (guard (confined_relative_path root resolved \<noteq> None) HostPathOutsideRoot) (\<lambda>_.
          let resolved = foldl (\<lambda>p name. path_join [p, name]) resolved (rev missing) in
          bnd (guard (confined_relative_path root resolved \<noteq> None) HostPathOutsideRoot) (\<lambda>_.
          ret resolved)))) w
      | (Inl OtherError, w) \<Rightarrow> (Inl InspectPrefix, w)
      | (Inl NotExist, w) \<Rightarrow>
          if path_dir current = current then (Inl HostPathOutsideRoot, w)
          else resolve_planned_host_path ns root (path_dir current) (missing @ [path_base current]) w)"
  by pat_completeness auto
termination resolve_planned_host_path
proof (relation "inv_image (measures [\<lambda>p. if p = ''.'' then 0 else Suc (length p), \<lambda>p. if last p = CHR ''/'' then 1 else 0])
    (\<lambda>(ns, root, current, missing, w). current)", goal_cases)
  case 1
  show ?case by (simp add: wf_inv_image)
next
  case (2 ns root current missing w)
  with path_dir_decreases [of current] show ?case by (simp del: in_measures)
qed

declare resolve_planned_host_path.simps [simp del]

record path_mapping =
  pm_host_root :: bytes
  pm_client_root :: bytes
  pm_host_path :: bytes
  pm_client_path :: bytes

text \<open>Where the host path really is, with its path relative to the resolved root.\<close>

definition locate_host_path :: "'w names \<Rightarrow> bytes \<Rightarrow> bytes \<Rightarrow> bytes \<Rightarrow> ('w, join_error, bytes \<times> bytes) act" where
  "locate_host_path ns input_root root input_path w =
     (case nm_eval ns input_path w of
        (Inr path, w) \<Rightarrow>
          (case confined_relative_path root path of
             None \<Rightarrow> (Inl HostPathOutsideRoot, w)
           | Some rel \<Rightarrow> (Inr (path, rel), w))
      | (Inl OtherError, w) \<Rightarrow> (Inl EvalHostPath, w)
      | (Inl NotExist, w) \<Rightarrow>
          (case (case confined_relative_path root input_path of
                   Some rel \<Rightarrow> Some rel
                 | None \<Rightarrow> confined_relative_path input_root input_path) of
             None \<Rightarrow> (Inl HostPathOutsideRoot, w)
           | Some rel \<Rightarrow>
               bnd (resolve_planned_host_path ns root (path_join [root, rel]) []) (\<lambda>path.
               case confined_relative_path root path of
                 None \<Rightarrow> fail HostPathOutsideRoot
               | Some rel \<Rightarrow> ret (path, rel)) w))"

definition client_path_of :: "bytes \<Rightarrow> bool \<Rightarrow> bytes list \<Rightarrow> bytes" where
  "client_path_of client_root client_windows parts =
     (if client_windows then windows_join client_root parts
      else if parts \<noteq> [] then path_join (client_root # parts) else client_root)"

definition map_host_to_client :: "golib \<Rightarrow> 'w names \<Rightarrow> bytes \<Rightarrow> bytes \<Rightarrow> bytes \<Rightarrow> bool \<Rightarrow> ('w, join_error, path_mapping) act" where
  "map_host_to_client lib ns host_root host_path client_root client_windows =
     (case validate_client_root lib client_root client_windows of
        Inl e \<Rightarrow> fail (InvalidClientRoot e)
      | Inr client_root \<Rightarrow>
          bnd (call (nm_abs ns host_root) ResolveRoot) (\<lambda>input_root.
          bnd (lookup (nm_eval ns input_root) EvalRoot) (\<lambda>root.
          bnd (call (nm_abs ns host_path) ResolveHostPath) (\<lambda>input_path.
          bnd (locate_host_path ns input_root root input_path) (\<lambda>(path, rel).
          let parts = (if rel = ''.'' \<or> rel = [] then [] else split_on CHR ''/'' rel) in
          case (if parts = [] then Inr ()
                else validate_components lib parts
                  \<lparr>windows = client_windows, case_sensitive = \<not> client_windows, unicode_normalization = False\<rparr>) of
            Inl e \<Rightarrow> fail (ClientPathUnrepresentable e)
          | Inr _ \<Rightarrow>
              ret \<lparr>pm_host_root = root, pm_client_root = client_root, pm_host_path = path,
                   pm_client_path = client_path_of client_root client_windows parts\<rparr>)))))"

definition validate_path_mapping_config :: "golib \<Rightarrow> 'w names \<Rightarrow> bytes \<Rightarrow> bytes \<Rightarrow> bool \<Rightarrow> ('w, join_error, unit) act" where
  "validate_path_mapping_config lib ns host_root client_root client_windows =
     (case validate_client_root lib client_root client_windows of
        Inl e \<Rightarrow> fail (InvalidClientRoot e)
      | Inr _ \<Rightarrow>
          if host_root = [] then fail HostRootEmpty
          else
            bnd (call (nm_abs ns host_root) ResolveRoot) (\<lambda>abs.
            bnd (lookup (nm_lstat ns abs) InspectRoot) (\<lambda>info.
            guard (fi_dir info \<and> \<not> fi_link_like info) HostRootNotDirectory)))"

section \<open>Clean absolute paths\<close>

definition abs_path :: "bytes list \<Rightarrow> bytes" where
  "abs_path cs = CHR ''/'' # join ''/'' cs"

abbreviation clean_components :: "bytes list \<Rightarrow> bool" where
  "clean_components cs \<equiv> \<forall>c \<in> set cs. clean_component c"

lemma path_clean_abs [simp]: "clean_components cs \<Longrightarrow> path_clean (abs_path cs) = abs_path cs"
  using path_clean_rooted_fixpoint [of "abs_path cs"] by (auto simp: abs_path_def)

lemma abs_path_inject:
  assumes "clean_components cs" "clean_components ds" "abs_path cs = abs_path ds"
  shows "cs = ds"
proof -
  have e: "join ''/'' cs = [] \<longleftrightarrow> cs = []" if "clean_components cs" for cs
    using that by (cases cs; cases "tl cs") (auto simp: clean_component_def)
  have "join ''/'' cs = join ''/'' ds" using assms(3) by (simp add: abs_path_def)
  then show ?thesis
    using e [OF assms(1)] e [OF assms(2)] join_inject [of cs ds "CHR ''/''"] assms(1,2)
    by (cases "cs = []"; cases "ds = []") (auto simp: clean_component_def)
qed

lemma path_elements_abs: "clean_components cs \<Longrightarrow> path_elements (abs_path cs) = [] # cs"
  using split_on_join [of cs "CHR ''/''"]
  by (cases cs; cases "tl cs") (auto simp: path_elements_def abs_path_def clean_component_def)

lemma strip_common_append: "strip_common xs (xs @ ys) = ([], ys)"
  by (induction xs) (cases ys; simp)+

lemma strip_common_fst: "strip_common xs ys = ([], zs) \<Longrightarrow> ys = xs @ zs"
  by (induction xs ys rule: strip_common.induct) (auto split: if_splits)

lemma strip_common_subset: "strip_common xs ys = (us, vs) \<Longrightarrow> set us \<subseteq> set xs \<and> set vs \<subseteq> set ys"
  by (induction xs ys rule: strip_common.induct) (auto split: if_splits)

lemma join_no_leading:
  assumes "clean_components cs"
  shows "\<not> has_prefix (join ''/'' cs) ''/'' \<and> join ''/'' cs \<noteq> ''..'' \<and> \<not> has_prefix (join ''/'' cs) ''../''"
proof (cases "cs = []")
  case False
  with assms have s: "split_on CHR ''/'' (join ''/'' cs) = cs"
    by (intro split_on_join) (auto simp: clean_component_def)
  have hd: "hd cs \<noteq> []" "hd cs \<noteq> ''..''" using assms False by (auto simp: clean_component_def)
  have "split_on CHR ''/'' (''/'' @ v) = [] # split_on CHR ''/'' v"
    "split_on CHR ''/'' (''../'' @ v) = ''..'' # split_on CHR ''/'' v" "split_on CHR ''/'' ''..'' = [''..'']" for v by simp_all
  with s hd show ?thesis unfolding has_prefix_iff by (metis list.sel(1))
qed (simp add: has_prefix_def)

text \<open>Confinement is what it should be: the components of the root come first.\<close>

lemma confined_abs:
  assumes "clean_components rs" "clean_components ps"
  shows "confined_relative_path (abs_path rs) (abs_path ps) =
    (if ps = rs then Some ''.'' else if take (length rs) ps = rs then Some (join ''/'' (drop (length rs) ps)) else None)"
proof (cases "ps = rs")
  case True
  then show ?thesis using assms by (simp add: confined_relative_path_def path_rel_def has_prefix_def)
next
  case False
  then have ne: "abs_path ps \<noteq> abs_path rs" using abs_path_inject assms by metis
  have slash: "has_prefix (abs_path cs) ''/''" "abs_path cs \<noteq> ''.''" for cs by (simp_all add: abs_path_def has_prefix_def)
  obtain b t where bt: "strip_common rs ps = (b, t)" by fastforce
  have rel: "path_rel (abs_path rs) (abs_path ps) =
      (if b \<noteq> [] \<and> t \<noteq> [] \<and> hd b = ''..'' then None else Some (join ''/'' (replicate (length b) ''..'' @ t)))"
    using ne slash bt assms by (simp add: path_rel_def path_elements_abs)
  show ?thesis
  proof (cases "take (length rs) ps = rs")
    case True
    define zs where "zs = drop (length rs) ps"
    have ps: "ps = rs @ zs" using True unfolding zs_def by (metis append_take_drop_id)
    with bt have "b = []" "t = zs" using strip_common_append [of rs zs] by simp_all
    moreover have "clean_components zs" using assms(2) ps by simp
    ultimately show ?thesis using rel False True join_no_leading [of zs]
      by (simp add: confined_relative_path_def flip: zs_def)
  next
    case no: False
    have "b \<noteq> []" using strip_common_fst [of rs ps t] bt no by auto
    moreover have "hd b \<noteq> ''..''"
      using strip_common_subset [OF bt] \<open>b \<noteq> []\<close> assms(1) hd_in_set [of b] unfolding clean_component_def by blast
    moreover have "join ''/'' (replicate (length b) ''..'' @ t) = ''..'' \<or>
        has_prefix (join ''/'' (replicate (length b) ''..'' @ t)) ''../''"
      using \<open>b \<noteq> []\<close> by (cases b; cases "replicate (length (tl b)) ''..'' @ t") (auto simp: has_prefix_def)
    ultimately show ?thesis using rel no False by (auto simp: confined_relative_path_def)
  qed
qed

lemma path_join_abs:
  assumes "clean_components rs" "clean_components cs" "cs \<noteq> []"
  shows "path_join (abs_path rs # cs) = abs_path (rs @ cs)"
proof -
  have slashless: "\<forall>c \<in> set cs'. CHR ''/'' \<notin> set c" if "clean_components cs'" for cs'
    using that by (auto simp: clean_component_def)
  have "split_on CHR ''/'' (join ''/'' (abs_path rs # cs)) =
      (if rs = [] then [[], []] else [] # rs) @ cs"
  proof -
    have j: "join ''/'' (abs_path rs # cs) = CHR ''/'' # join ''/'' rs @ CHR ''/'' # join ''/'' cs"
      using assms(3) by (cases cs) (simp_all add: abs_path_def)
    have "split_on CHR ''/'' (join ''/'' xs @ CHR ''/'' # u) = xs @ split_on CHR ''/'' u"
      if "xs \<noteq> []" "\<forall>c \<in> set xs. CHR ''/'' \<notin> set c" for xs u
      using that by (induction "''/''" xs rule: join.induct) (auto simp: split_on_append_sep)
    with assms slashless show ?thesis unfolding j by (simp add: split_on_join)
  qed
  then have "foldl (clean_step True) [] (split_on CHR ''/'' (join ''/'' (abs_path rs # cs))) = rs @ cs"
    using foldl_clean_id [of rs "[]"] foldl_clean_id [of cs rs] foldl_clean_id [of cs "[]"] assms by (simp add: clean_step_def)
  moreover have "join ''/'' (abs_path rs # cs) \<noteq> []" "hd (join ''/'' (abs_path rs # cs)) = CHR ''/''"
    using assms(3) by (cases cs; simp add: abs_path_def)+
  ultimately show ?thesis by (simp add: path_join_def path_clean_def abs_path_def)
qed

lemma validated_clean: "validate_components lib cs sem = Inr () \<Longrightarrow> clean_components cs \<and> cs \<noteq> []"
  using validated_components_safe [of lib cs sem] by (auto simp: list_all_iff clean_component_def)

lemma planned_join_value:
  assumes "nm_abs ns root w = (Some (abs_path rs), w1)" "clean_components rs"
  shows "planned_join lib ns root components sem w =
    (case validate_components lib components sem of
       Inl e \<Rightarrow> (Inl (JoinComponents e), w) | Inr _ \<Rightarrow> (Inr (abs_path (rs @ components)), w1))"
proof (cases "validate_components lib components sem")
  case (Inl e)
  then show ?thesis by (simp add: planned_join_def fail_def)
next
  case (Inr u)
  then have c: "clean_components components" "components \<noteq> []" using validated_clean [of lib components sem] by auto
  have "confined_relative_path (abs_path rs) (abs_path (rs @ components)) \<noteq> None"
    using c assms(2) by (subst confined_abs) auto
  with Inr assms c show ?thesis
    by (simp add: planned_join_def bnd_def call_def path_join_abs guard_def ret_def)
qed

text \<open>A resolved path is clean and absolute, as \<open>filepath.EvalSymlinks\<close> documents for an absolute path.\<close>

definition resolves_clean :: "'w names \<Rightarrow> bool" where
  "resolves_clean ns \<longleftrightarrow>
     (\<forall>p w q w'. nm_eval ns p w = (Inr q, w') \<longrightarrow> (\<exists>cs. clean_components cs \<and> q = abs_path cs))"

lemma secure_join_loop_below:
  assumes "secure_join_loop ns (abs_path rs) i components (abs_path cs) w = (Inr p, w')"
    and "resolves_clean ns" "clean_components rs" "clean_components cs" "take (length rs) cs = rs"
  shows "\<exists>xs. clean_components xs \<and> p = abs_path (rs @ xs)"
  using assms(1,4,5)
proof (induction components arbitrary: i cs w)
  case Nil
  define xs where "xs = drop (length rs) cs"
  have "cs = rs @ xs" using Nil.prems(3) unfolding xs_def by (metis append_take_drop_id)
  with Nil show ?case by (intro exI [of _ xs]) (auto simp: act_simps)
next
  case (Cons raw rest)
  then obtain q w1 w2 where
    q: "nm_eval ns (path_join [abs_path cs, raw]) w1 = (Inr q, w2)"
      "confined_relative_path (abs_path rs) q \<noteq> None"
      "secure_join_loop ns (abs_path rs) (i + 1) rest q w2 = (Inr p, w')"
    by (auto simp: act_simps Let_def)
  then obtain ds where ds: "clean_components ds" "q = abs_path ds" using assms(2) unfolding resolves_clean_def by blast
  then have "take (length rs) ds = rs" using q(2) confined_abs [OF assms(3), of ds] by (auto split: if_splits)
  with Cons.IH q(3) ds show ?case by simp
qed

text \<open>Joining anything to a clean absolute path gives one.\<close>

lemma path_join_rooted: "\<exists>ds. clean_components ds \<and> path_join (abs_path cs # elems) = abs_path ds"
proof -
  let ?p = "join ''/'' (abs_path cs # elems)"
  let ?ds = "foldl (clean_step True) [] (split_on CHR ''/'' ?p)"
  have "?p \<noteq> []" "hd ?p = CHR ''/''" by (cases elems; simp add: abs_path_def)+
  then have "path_clean ?p = abs_path ?ds" by (simp add: path_clean_def Let_def abs_path_def)
  moreover have "clean_components ?ds" by (rule foldl_clean_rooted) (auto dest: split_on_no_sep)
  ultimately show ?thesis by (auto simp: path_join_def abs_path_def)
qed

text \<open>The elements of a relative path that was found to be confined.\<close>

definition rel_parts :: "bytes \<Rightarrow> bytes list" where
  "rel_parts rel = (if rel = ''.'' \<or> rel = [] then [] else split_on CHR ''/'' rel)"

lemma confined_parts:
  assumes "confined_relative_path (abs_path rs) (abs_path ps) = Some rel" "clean_components rs" "clean_components ps"
  shows "ps = rs @ rel_parts rel"
proof (cases "ps = rs")
  case True
  with assms(1) have "Some ''.'' = Some rel" unfolding confined_abs [OF assms(2,3)] by simp
  then have "rel = ''.''" by simp
  then have "rel_parts rel = []" unfolding rel_parts_def by simp
  with True show ?thesis by simp
next
  case False
  with assms(1) have some: "(if take (length rs) ps = rs then Some (join ''/'' (drop (length rs) ps)) else None) = Some rel"
    unfolding confined_abs [OF assms(2,3)] by simp
  define xs where "xs = drop (length rs) ps"
  have "take (length rs) ps = rs" and rel: "rel = join ''/'' xs"
    using some unfolding xs_def by (cases "take (length rs) ps = rs", simp_all)+
  then have ps: "ps = rs @ xs" unfolding xs_def by (metis append_take_drop_id)
  have "xs \<noteq> []" using ps False by simp
  moreover have xs: "clean_components xs" using assms(3) unfolding ps by simp
  ultimately have split: "split_on CHR ''/'' rel = xs"
    unfolding rel by (intro split_on_join) (auto simp: clean_component_def)
  have ne: "xs \<noteq> [''.'']" "xs \<noteq> [[]]" using xs unfolding clean_component_def by (metis list.set_intros(1))+
  have rel_ne: "rel \<noteq> c" if "split_on CHR ''/'' c \<noteq> xs" for c using that split by blast
  have "rel \<noteq> ''.''" by (rule rel_ne) (use ne(1) in simp)
  moreover have "rel \<noteq> []" by (rule rel_ne) (use ne(2) in simp)
  ultimately have "rel_parts rel = split_on CHR ''/'' rel" unfolding rel_parts_def by simp
  then show ?thesis using split ps by (simp only:)
qed

text \<open>Joining names one after the other.\<close>

lemma foldl_join_rooted:
  "\<exists>ds. clean_components ds \<and> foldl (\<lambda>p name. path_join [p, name]) (abs_path cs) names = abs_path ds"
  if "clean_components cs"
  using that
proof (induction names arbitrary: cs)
  case (Cons name names)
  obtain ds where "clean_components ds" "path_join [abs_path cs, name] = abs_path ds"
    using path_join_rooted [of cs "[name]"] by blast
  with Cons.IH [of ds] show ?case by simp
qed auto

lemma resolve_planned_clean:
  assumes "resolve_planned_host_path ns root current missing w = (Inr p, w')" "resolves_clean ns"
  shows "\<exists>ps. clean_components ps \<and> p = abs_path ps"
  using assms
proof (induction ns root current missing w rule: resolve_planned_host_path.induct)
  case (1 ns root current missing w)
  show ?case
  proof (cases "nm_lstat ns current w")
    case (Pair res w1)
    show ?thesis
    proof (cases res)
      case (Inr info)
      with Pair "1.prems"(1) obtain resolved w2 where "nm_eval ns current w1 = (Inr resolved, w2)"
        "p = foldl (\<lambda>p name. path_join [p, name]) resolved (rev missing)"
        by (subst (asm) resolve_planned_host_path.simps) (auto simp: act_simps Let_def)
      with "1.prems"(2) foldl_join_rooted show ?thesis unfolding resolves_clean_def by metis
    next
      case (Inl e)
      with Pair "1.prems"(1) have "e = NotExist" "path_dir current \<noteq> current"
        "resolve_planned_host_path ns root (path_dir current) (missing @ [path_base current]) w1 = (Inr p, w')"
        by (subst (asm) resolve_planned_host_path.simps, auto split: lookup_error.splits if_splits)+
      with "1.IH" [OF Pair [symmetric] _ _ this(2)] "1.prems"(2) Inl show ?thesis by simp
    qed
  qed
qed

lemma locate_host_path_below:
  assumes "locate_host_path ns input_root (abs_path rs) input_path w = (Inr (path, rel), w')" "resolves_clean ns"
    and "clean_components rs"
  shows "clean_components (rs @ rel_parts rel) \<and> path = abs_path (rs @ rel_parts rel)"
proof -
  have "\<exists>ps. clean_components ps \<and> path = abs_path ps \<and> confined_relative_path (abs_path rs) path = Some rel"
  proof (cases "nm_eval ns input_path w")
    case (Pair res w1)
    show ?thesis
    proof (cases res)
      case (Inr q)
      with Pair assms show ?thesis
        unfolding resolves_clean_def by (fastforce simp: locate_host_path_def split: option.splits)
    next
      case (Inl e)
      with Pair assms(1) obtain start w2 where
        "resolve_planned_host_path ns (abs_path rs) start [] w1 = (Inr path, w2)"
        "confined_relative_path (abs_path rs) path = Some rel"
        by (auto simp: locate_host_path_def act_simps split: lookup_error.splits option.splits)
      with resolve_planned_clean [OF _ assms(2)] show ?thesis by blast
    qed
  qed
  then obtain ps where "clean_components ps" "path = abs_path ps"
    "confined_relative_path (abs_path rs) (abs_path ps) = Some rel" by blast
  with confined_parts [OF this(3) assms(3) this(1)] show ?thesis by simp
qed

text \<open>
  A Windows client root: a drive with one separator (or two, which the code lets through in front of a
  component) or the two separators of a UNC name, which has a server and a share, and then the components.
\<close>

definition windows_root :: "bytes \<Rightarrow> bytes list \<Rightarrow> bool" where
  "windows_root pre cs \<longleftrightarrow>
     (\<exists>d. is_letter d \<and> (pre = [d, CHR '':'', BSL] \<or> pre = [d, CHR '':'', BSL, BSL] \<and> cs \<noteq> [])) \<or>
     pre = [BSL, BSL] \<and> 2 \<le> length cs"

abbreviation windows_components :: "bytes list \<Rightarrow> bool" where
  "windows_components cs \<equiv> \<forall>c \<in> set cs. clean_component c \<and> BSL \<notin> set c"

lemma validated_windows_components:
  "validate_components lib cs sem = Inr () \<Longrightarrow> windows_components cs"
  using validated_components_safe [of lib cs sem] by (auto simp: list_all_iff clean_component_def)

lemma has_suffix_byte: "has_suffix s [c] \<longleftrightarrow> s \<noteq> [] \<and> last s = c"
  by (cases s rule: rev_cases) (auto simp: has_suffix_def)

lemma join_windows_last:
  assumes "windows_components cs" "cs \<noteq> []"
  shows "join [BSL] cs \<noteq> [] \<and> last (join [BSL] cs) \<noteq> BSL"
proof -
  have "clean_component (last cs)" "BSL \<notin> set (last cs)" using assms by simp_all
  then have "last cs \<noteq> []" "last (last cs) \<noteq> BSL" by (auto simp: clean_component_def) (metis last_in_set)
  with join_last [OF assms(2), of "[BSL]"] show ?thesis by simp
qed

lemma join_snoc: "join [c] (ps @ [p]) = (if ps = [] then p else join [c] ps @ c # p)"
  by (induction "[c]" ps rule: join.induct) auto

lemma windows_join_loop_join:
  assumes "has_suffix pre [BSL]"
  shows "windows_components cs \<Longrightarrow> windows_components xs \<Longrightarrow>
    windows_join_loop (pre @ join [BSL] cs) xs = pre @ join [BSL] (cs @ xs)"
proof (induction xs arbitrary: cs)
  case (Cons x xs)
  then have x: "x \<noteq> []" "x \<noteq> ''.''" "replace_byte CHR ''/'' BSL x = x"
    by (auto simp: clean_component_def replace_byte_def intro: map_idI)
  have last: "last (pre @ join [BSL] cs) \<noteq> BSL" if "cs \<noteq> []"
    using join_windows_last [OF Cons.prems(1) that] by simp
  have "(if has_suffix (pre @ join [BSL] cs) [BSL] then pre @ join [BSL] cs else (pre @ join [BSL] cs) @ [BSL]) @ x =
      pre @ join [BSL] (cs @ [x])"
  proof (cases "cs = []")
    case False
    with last show ?thesis by (simp add: has_suffix_byte join_snoc)
  qed (use assms in simp)
  with x Cons.IH [of "cs @ [x]"] Cons.prems show ?case by simp
qed simp

lemma windows_root_join:
  assumes "windows_root pre cs" "windows_components cs" "windows_components xs"
  shows "windows_join (pre @ join [BSL] cs) xs = pre @ join [BSL] (cs @ xs)"
proof -
  let ?r = "pre @ join [BSL] cs"
  have pre: "has_suffix pre [BSL]" "CHR ''/'' \<notin> set pre"
    using assms(1) by (auto simp: windows_root_def has_suffix_byte is_letter_def)
  have "CHR ''/'' \<notin> set (join [BSL] cs)"
    using assms(2) by (induction "[BSL]" cs rule: join.induct) (auto simp: clean_component_def)
  with pre(2) have norm: "replace_byte CHR ''/'' BSL ?r = ?r"
    by (auto simp: replace_byte_def intro!: map_idI)
  have "(if length ?r = 3 \<and> ?r ! 1 = CHR '':'' \<and> ?r ! 2 = BSL then ?r else trim_right_byte BSL ?r) = ?r"
  proof (cases "cs = []")
    case True
    with assms(1) show ?thesis by (auto simp: windows_root_def)
  next
    case False
    have "last (join [BSL] cs) \<noteq> BSL" "join [BSL] cs \<noteq> []" using join_windows_last [OF assms(2) False] by simp_all
    then have "trim_right_byte BSL ?r = ?r"
      by (cases "join [BSL] cs" rule: rev_cases) (auto simp: trim_right_byte_def)
    then show ?thesis by simp
  qed
  with norm windows_join_loop_join [OF pre(1) assms(2,3)] show ?thesis
    by (simp only: windows_join_def Let_def)
qed

lemma client_root_parts_Inr:
  assumes "client_root_parts lib clean parts = Inr c"
  shows "c = clean \<and> windows_components parts \<and> [] \<notin> set parts"
  using assms validated_windows_components
  by (auto simp: client_root_parts_def split: if_splits sum.splits)

lemma windows_client_root:
  assumes "validate_client_root lib root True = Inr clean"
  shows "\<exists>pre cs. windows_root pre cs \<and> windows_components cs \<and> clean = pre @ join [BSL] cs \<and>
    (replace_byte CHR ''/'' BSL root = clean \<or> replace_byte CHR ''/'' BSL root = clean @ [BSL])"
proof -
  let ?n = "replace_byte CHR ''/'' BSL root"
  let ?c = "trim_suffix ?n [BSL]"
  let ?drive = "3 \<le> length ?n \<and> is_letter (?n ! 0) \<and> ?n ! 1 = CHR '':'' \<and> ?n ! 2 = BSL"
  have trim: "?n = ?c \<or> ?n = ?c @ [BSL]"
    by (cases ?n rule: rev_cases) (auto simp: trim_suffix_def has_suffix_def)
  consider (bare) "?drive" "length ?n = 3" "clean = ?n"
    | (unc) "has_prefix ?n [BSL, BSL]" "2 \<le> length (split_on BSL (trim_prefix ?c [BSL, BSL]))"
        "split_on BSL (trim_prefix ?c [BSL, BSL]) ! 0 \<noteq> []"
        "client_root_parts lib ?c (split_on BSL (trim_prefix ?c [BSL, BSL])) = Inr clean"
    | (drive) "?drive" "3 < length ?n"
        "client_root_parts lib ?c (split_on BSL (trim_prefix (drop 3 ?c) [BSL])) = Inr clean"
    using assms unfolding validate_client_root_def Let_def by (auto split: if_splits simp: not_less)
  then show ?thesis
  proof cases
    case bare
    then obtain d where "clean = [d, CHR '':'', BSL]" "is_letter d"
      by (auto simp: numeral_3_eq_3 length_Suc_conv)
    with bare show ?thesis by (intro exI [of _ clean] exI [of _ "[]"]) (auto simp: windows_root_def)
  next
    case unc
    let ?p = "split_on BSL (trim_prefix ?c [BSL, BSL])"
    note p = client_root_parts_Inr [OF unc(4)]
    have "has_prefix ?c [BSL, BSL]"
    proof (rule ccontr)
      assume "\<not> has_prefix ?c [BSL, BSL]"
      with unc(1) trim have "?c = [BSL]" by (cases ?c; cases "tl ?c") (auto simp: has_prefix_def)
      with unc(3) show False by (simp add: trim_prefix_def has_prefix_def)
    qed
    then have "?c = [BSL, BSL] @ join [BSL] ?p" by (auto simp: trim_prefix_def has_prefix_iff)
    with p unc(2) trim show ?thesis
      by (intro exI [of _ "[BSL, BSL]"] exI [of _ ?p]) (auto simp: windows_root_def)
  next
    case drive
    let ?p = "split_on BSL (trim_prefix (drop 3 ?c) [BSL])"
    note p = client_root_parts_Inr [OF drive(3)]
    obtain d t where c: "?c = d # CHR '':'' # BSL # t" "is_letter d"
    proof -
      from drive(1) obtain d t where n: "?n = d # CHR '':'' # BSL # t" "is_letter d"
        by (cases ?n; cases "tl ?n"; cases "tl (tl ?n)") auto
      with drive(2) trim have "\<exists>t'. ?c = d # CHR '':'' # BSL # t'"
        by (cases ?c; cases "tl ?c"; cases "tl (tl ?c)") auto
      with n(2) that show ?thesis by blast
    qed
    define pre where "pre = d # CHR '':'' # BSL # (if has_prefix t [BSL] then [BSL] else [])"
    have "?c = pre @ join [BSL] ?p"
      using c(1) by (auto simp: pre_def trim_prefix_def has_prefix_iff)
    moreover have "windows_root pre ?p"
      using c(2) by (auto simp: pre_def windows_root_def)
    ultimately show ?thesis using p trim by (intro exI [of _ pre] exI [of _ ?p]) auto
  qed
qed

lemma map_host_to_client_parts:
  assumes "map_host_to_client lib ns host_root host_path client_root win w = (Inr m, w')" "resolves_clean ns"
  shows "\<exists>clean rs xs. validate_client_root lib client_root win = Inr clean \<and> clean_components (rs @ xs) \<and>
    (win \<longrightarrow> windows_components xs) \<and> pm_host_root m = abs_path rs \<and> pm_host_path m = abs_path (rs @ xs) \<and>
    pm_client_root m = clean \<and> pm_client_path m = client_path_of clean win xs"
proof -
  from assms(1) obtain clean where cl: "validate_client_root lib client_root win = Inr clean"
    by (cases "validate_client_root lib client_root win") (auto simp: map_host_to_client_def act_simps)
  from assms(1) cl obtain input_root input_path root w1 w2 w3 path rel where
    root: "nm_eval ns input_root w1 = (Inr root, w2)"
    and loc: "locate_host_path ns input_root root input_path w3 = (Inr (path, rel), w')"
    and ok: "rel_parts rel = [] \<or> validate_components lib (rel_parts rel)
                  \<lparr>windows = win, case_sensitive = \<not> win, unicode_normalization = False\<rparr> = Inr ()"
    and m: "m = \<lparr>pm_host_root = root, pm_client_root = clean, pm_host_path = path,
                   pm_client_path = client_path_of clean win (rel_parts rel)\<rparr>"
    by (auto simp: map_host_to_client_def act_simps Let_def rel_parts_def split: if_splits sum.splits)
  from root assms(2) obtain rs where rs: "clean_components rs" "root = abs_path rs" unfolding resolves_clean_def by blast
  from ok have "windows_components (rel_parts rel)"
  proof
    assume "rel_parts rel = []"
    then show ?thesis by simp
  qed (rule validated_windows_components)
  with locate_host_path_below [OF loc [unfolded rs(2)] assms(2) rs(1)] cl rs m show ?thesis
    by (intro exI [of _ clean] exI [of _ rs] exI [of _ "rel_parts rel"]) simp
qed

text \<open>A file system without links in which every clean absolute path is a directory.\<close>

definition sample_names :: "unit names" where
  "sample_names =
     \<lparr>nm_abs = (\<lambda>p w. (Some p, w)),
      nm_eval = (\<lambda>p w. (if p \<noteq> [] \<and> hd p = CHR ''/'' \<and> path_clean p = p then Inr p else Inl OtherError, w)),
      nm_lstat = (\<lambda>p w. (Inr \<lparr>fi_id = 1, fi_size = 0, fi_mtime = 0, fi_regular = False, fi_link_like = False,
        fi_dir = True\<rparr>, w))\<rparr>"

abbreviation posix_semantics :: path_semantics where
  "posix_semantics \<equiv> \<lparr>windows = False, case_sensitive = True, unicode_normalization = False\<rparr>"

lemma resolves_clean_sample: "resolves_clean sample_names"
  using path_clean_rooted_fixpoint by (auto simp: resolves_clean_def sample_names_def abs_path_def split: if_splits)

lemma sample_validate: "validate_components sample_lib [''a''] posix_semantics = Inr ()"
  by (simp add: validate_components_def component_error_def contains_any_def byte_val_def)

lemma sample_abs: "abs_path [''srv''] = ''/srv''" "abs_path [''srv'', ''a''] = ''/srv/a''" "abs_path [''data''] = ''/data''"
  by (simp_all add: abs_path_def)

text \<open>
  Claim C26. A path that \<open>PlannedJoin\<close> returns is the absolute root's components followed by the given ones; the only
  other outcome, once the root is absolute and clean, is the rejection of the components: the check that the result
  stays below the root never fails for components that passed validation.
\<close>

theorem planned_join_below_root:
  assumes "nm_abs ns root w = (Some (abs_path rs), w1)" "clean_components rs"
  shows "planned_join lib ns root components sem w =
    (case validate_components lib components sem of
       Inl e \<Rightarrow> (Inl (JoinComponents e), w) | Inr _ \<Rightarrow> (Inr (abs_path (rs @ components)), w1))"
  using planned_join_value [OF assms] .

theorem planned_join_below_root_witness:
  "planned_join sample_lib sample_names ''/srv'' [''a''] posix_semantics () = (Inr ''/srv/a'', ())"
  using planned_join_below_root [of sample_names "''/srv''" "()" "[''srv'']" "()" sample_lib "[''a'']" posix_semantics]
  by (simp add: sample_validate sample_names_def abs_path_def clean_component_def)

text \<open>
  Claim C24. A path that \<open>SecureJoinExisting\<close> returns lies below the resolved root, whatever the file system
  answers, as long as resolving yields clean absolute paths.
\<close>

theorem secure_join_below_root:
  assumes "resolves_clean ns" "secure_join_existing lib ns root components sem w = (Inr p, w')"
  shows "\<exists>abs_root w1 w2 rs xs. fst (nm_abs ns root w) = Some abs_root \<and> nm_eval ns abs_root w1 = (Inr (abs_path rs), w2) \<and>
    clean_components (rs @ xs) \<and> p = abs_path (rs @ xs)"
proof -
  from assms(2) obtain abs_root w1 resolved w2 where
    r: "nm_eval ns abs_root w1 = (Inr resolved, w2)" "fst (nm_abs ns root w) = Some abs_root" "secure_join_loop ns resolved 0 components resolved w2 = (Inr p, w')"
    by (auto simp: secure_join_existing_def act_simps split: sum.splits)
  from r(1) assms(1) obtain rs where "clean_components rs" "resolved = abs_path rs" unfolding resolves_clean_def by blast
  with r secure_join_loop_below [OF _ assms(1), of rs 0 components rs w2 p w'] show ?thesis by fastforce
qed

theorem secure_join_below_root_witness:
  "\<exists>abs_root w1 w2 rs xs. fst (nm_abs sample_names ''/srv'' ()) = Some abs_root \<and>
    nm_eval sample_names abs_root w1 = (Inr (abs_path rs), w2) \<and> clean_components (rs @ xs) \<and> ''/srv/a'' = abs_path (rs @ xs)"
proof -
  have j: "path_join [''/srv'', ''a''] = ''/srv/a''"
    using path_join_abs [of "[''srv'']" "[''a'']"] by (simp add: clean_component_def sample_abs)
  have c: "confined_relative_path ''/srv'' ''/srv/a'' = Some ''a''"
    using confined_abs [of "[''srv'']" "[''srv'', ''a'']"] by (simp add: clean_component_def sample_abs)
  have e: "nm_eval sample_names ''/srv'' () = (Inr ''/srv'', ())" "nm_eval sample_names ''/srv/a'' () = (Inr ''/srv/a'', ())"
    using path_clean_abs [of "[''srv'']"] path_clean_abs [of "[''srv'', ''a'']"]
    by (simp_all add: sample_names_def clean_component_def sample_abs)
  have a: "nm_abs sample_names p w = (Some p, w)" "\<exists>info. nm_lstat sample_names p w = (Inr info, w) \<and> \<not> fi_link_like info" for p w
    by (simp_all add: sample_names_def)
  then obtain info where l: "\<And>p. nm_lstat sample_names p () = (Inr info, ())" "\<not> fi_link_like info"
    by (simp add: sample_names_def)
  have "secure_join_existing sample_lib sample_names ''/srv'' [''a''] posix_semantics () = (Inr ''/srv/a'', ())"
    by (simp add: secure_join_existing_def sample_validate bnd_def call_def lookup_def guard_def ret_def e j c a(1) l Let_def)
  from secure_join_below_root [OF resolves_clean_sample this] show ?thesis .
qed

text \<open>
  Claim C25. A mapping names the same file on both sides, also when the host path does not exist yet and its
  nearest ancestor was resolved: the host path is the host root followed by components, and the client path
  is the client root followed by the same components, with slashes for a POSIX client and, for a Windows
  client, with backslashes after its drive or UNC prefix, whatever separators the root was given with.
\<close>

theorem mapping_same_relative_path:
  assumes "map_host_to_client lib ns host_root host_path client_root client_windows w = (Inr m, w')" "resolves_clean ns"
  shows "\<exists>rs cs xs. clean_components (rs @ xs) \<and> clean_components cs \<and> pm_host_root m = abs_path rs \<and>
    pm_host_path m = abs_path (rs @ xs) \<and>
    (if client_windows
     then \<exists>pre. windows_root pre cs \<and> (\<forall>c \<in> set (cs @ xs). BSL \<notin> set c) \<and> pm_client_root m = pre @ join [BSL] cs \<and>
       (replace_byte CHR ''/'' BSL client_root = pm_client_root m \<or>
        replace_byte CHR ''/'' BSL client_root = pm_client_root m @ [BSL]) \<and>
       pm_client_path m = pre @ join [BSL] (cs @ xs)
     else pm_client_root m = abs_path cs \<and> client_root = abs_path cs \<and> pm_client_path m = abs_path (cs @ xs))"
proof -
  from map_host_to_client_parts [OF assms] obtain clean rs xs where
    cl: "validate_client_root lib client_root client_windows = Inr clean"
    and xs: "clean_components (rs @ xs)" "client_windows \<longrightarrow> windows_components xs"
    and m: "pm_host_root m = abs_path rs" "pm_host_path m = abs_path (rs @ xs)"
      "pm_client_root m = clean" "pm_client_path m = client_path_of clean client_windows xs" by blast
  show ?thesis
  proof (cases client_windows)
    case True
    with cl have "validate_client_root lib client_root True = Inr clean" by simp
    from windows_client_root [OF this] obtain pre cs where r: "windows_root pre cs" "windows_components cs"
      "clean = pre @ join [BSL] cs"
      "replace_byte CHR ''/'' BSL client_root = clean \<or> replace_byte CHR ''/'' BSL client_root = clean @ [BSL]" by blast
    from windows_root_join [OF r(1,2)] xs(2) True have "client_path_of clean client_windows xs = pre @ join [BSL] (cs @ xs)"
      by (simp add: client_path_of_def r(3))
    with True r m xs show ?thesis by (intro exI [of _ rs] exI [of _ cs] exI [of _ xs]) auto
  next
    case False
    with cl obtain cs where cs: "clean_components cs" "client_root = abs_path cs" "clean = abs_path cs"
      using posix_client_root_iff [of lib client_root clean] by (auto simp: abs_path_def list_all_iff)
    then have "client_path_of clean client_windows xs = abs_path (cs @ xs)"
      using False xs(1) by (auto simp: client_path_of_def path_join_abs)
    with False cs m xs show ?thesis by (intro exI [of _ rs] exI [of _ cs] exI [of _ xs]) simp
  qed
qed

abbreviation windows_semantics :: path_semantics where
  "windows_semantics \<equiv> \<lparr>windows = True, case_sensitive = False, unicode_normalization = False\<rparr>"

lemma sample_windows_component:
  "validate_components sample_lib [''a''] windows_semantics = Inr ()"
  "validate_components sample_lib [''data''] windows_semantics = Inr ()"
  by (simp_all add: validate_components_def component_error_def contains_any_def byte_val_def first_rune_def has_suffix_def
      windows_reserved_device_name_def reserved_suffix_def trim_right_byte_def sample_lib_def ascii_upper_def has_prefix_def)

lemma sample_windows_root:
  "validate_client_root sample_lib ''C:/data'' True = Inr ([CHR ''C'', CHR '':'', BSL] @ ''data'')"
  by (simp add: validate_client_root_def replace_byte_def is_letter_def has_prefix_def has_suffix_def trim_suffix_def
      trim_prefix_def client_root_parts_def sample_windows_component less_eq_char_def)

theorem mapping_same_relative_path_witness:
  "\<exists>rs pre cs xs. clean_components (rs @ xs) \<and> clean_components cs \<and> ''/srv'' = abs_path rs \<and>
    ''/srv/a'' = abs_path (rs @ xs) \<and> windows_root pre cs \<and>
    [CHR ''C'', CHR '':'', BSL] @ ''data'' = pre @ join [BSL] cs \<and>
    [CHR ''C'', CHR '':'', BSL] @ ''data'' @ BSL # ''a'' = pre @ join [BSL] (cs @ xs)"
proof -
  have c: "confined_relative_path ''/srv'' ''/srv/a'' = Some ''a''"
    using confined_abs [of "[''srv'']" "[''srv'', ''a'']"] by (simp add: clean_component_def sample_abs)
  have e: "nm_eval sample_names ''/srv'' () = (Inr ''/srv'', ())" "nm_eval sample_names ''/srv/a'' () = (Inr ''/srv/a'', ())"
    using path_clean_abs [of "[''srv'']"] path_clean_abs [of "[''srv'', ''a'']"]
    by (simp_all add: sample_names_def clean_component_def sample_abs)
  have j: "client_path_of ([CHR ''C'', CHR '':'', BSL] @ ''data'') True [''a''] = [CHR ''C'', CHR '':'', BSL] @ ''data'' @ BSL # ''a''"
    by (simp add: client_path_of_def windows_join_def replace_byte_def trim_right_byte_def has_suffix_def)
  have a: "nm_abs sample_names p w = (Some p, w)" for p w by (simp add: sample_names_def)
  have "map_host_to_client sample_lib sample_names ''/srv'' ''/srv/a'' ''C:/data'' True () =
      (Inr \<lparr>pm_host_root = ''/srv'', pm_client_root = [CHR ''C'', CHR '':'', BSL] @ ''data'', pm_host_path = ''/srv/a'',
        pm_client_path = [CHR ''C'', CHR '':'', BSL] @ ''data'' @ BSL # ''a''\<rparr>, ())"
    unfolding map_host_to_client_def sample_windows_root
    using j by (simp add: locate_host_path_def bnd_def call_def lookup_def ret_def e c a sample_windows_component)
  from mapping_same_relative_path [OF this resolves_clean_sample] show ?thesis by simp blast
qed

end
