(* ===== verification/SourceFiles.thy ===== *)
theory SourceFiles
  imports MetaInfo PathJoin
begin

text \<open>
  The files a verification reads, as \<open>internal/metafile/verify.go\<close> sees them: an operating system whose
  operations are a parameter (each may fail, and the state they act on may change between any two calls), the
  \<open>fileSpec\<close> of a manifest entry, \<open>io.ReadFull\<close>, the checks around opening, and \<open>sequenceReader\<close>, which presents
  all files and the virtual padding as one stream. The locale \<open>recording_os\<close> states what the proofs need of
  the system: that it can tell which bytes its reads delivered.
\<close>

section \<open>The operating system\<close>

datatype read_result = Data bytes | Eof | ReadFail

text \<open>
  The system calls, on a state \<open>'w\<close>. \<open>os_open\<close> is \<open>storage.OpenRegular\<close>, \<open>os_open_bound k\<close> the opener with
  number \<open>k\<close> that a caller put into a \<open>fileSpec\<close>; handles are numbers; \<open>None\<close> is an error. \<open>ctx_done\<close> polls the
  context. \<open>os_lstat\<close> does not follow links, \<open>os_stat\<close> does.
\<close>

record 'w os =
  ctx_done :: "'w \<Rightarrow> bool \<times> 'w"
  os_open :: "bytes \<Rightarrow> 'w \<Rightarrow> nat option \<times> 'w"
  os_open_bound :: "nat \<Rightarrow> 'w \<Rightarrow> nat option \<times> 'w"
  os_fstat :: "nat \<Rightarrow> 'w \<Rightarrow> file_info option \<times> 'w"
  os_lstat :: "bytes \<Rightarrow> 'w \<Rightarrow> file_info option \<times> 'w"
  os_stat :: "bytes \<Rightarrow> 'w \<Rightarrow> file_info option \<times> 'w"
  os_read :: "nat \<Rightarrow> nat \<Rightarrow> 'w \<Rightarrow> read_result \<times> 'w"
  os_close :: "nat \<Rightarrow> 'w \<Rightarrow> bool \<times> 'w"

record file_spec =
  s_path :: bytes
  s_length :: int64
  s_padding :: bool
  s_empty :: bool
  s_open :: "nat option"
  s_size_before :: int64
  s_mod_before :: int
  s_info_before :: file_info

datatype file_fault =
    OpenContent | StatContent | NotNamedPath | ChangedBeforeHashing | ChangedWhileHashing | CloseContent
  | ResolvePath | NotRegular | WrongSize

datatype verify_error =
    Cancelled | FileFault file_fault bytes | EndOfFile | UnexpectedEndOfFile | NoProgress | ReadFailed
  | UnsupportedVersion bytes | V1Unavailable | V2Unavailable | InvalidPieceSize | LayoutMismatch
  | NegativeRemaining | ReadPiece nat verify_error | BytesUnverified int64 | ContentBeyondManifest
  | NoPiecesRoot | NoPieceLayer | MerkleFailed merkle_error | SegmentFailed "verify_error segment_error"
  | PieceBoundary | BeyondPieceManifest | ProofsUnobserved int64 | ProofStreamLength int64 int64
  | HybridIncomplete | PieceCountOverflowsInt
  | UnsafeManifestPaths path_error | UnsafeContentPath join_error | ContentSymlink | NotDirectory | NoSnapshotAuthority
  | SnapshotMismatch bytes
  | BindingOutsideManifest int | BindingDuplicated int | BindingOfPadding int | BindingNotAbsolute int | FileUnbound nat
  | NoPhysicalBinding int | NoReverification | ChangedBeforeReverification | ChangedDuringReverification
  | ConsumerFailed | ConsumerStoppedEarly | LengthChanged | ConsumedSourceChanged | NoLongerMatchesProof
  | ObservationNeedsLength | ObservationNotAbsolute

definition check_ctx :: "'w os \<Rightarrow> ('w, verify_error, unit) act" where
  "check_ctx os w = (case ctx_done os w of (True, w) \<Rightarrow> (Inl Cancelled, w) | (False, w) \<Rightarrow> (Inr (), w))"

definition close_file :: "'w os \<Rightarrow> nat \<Rightarrow> bytes \<Rightarrow> ('w, verify_error, unit) act" where
  "close_file os h path w = (case os_close os h w of (ok, w) \<Rightarrow> (if ok then Inr () else Inl (FileFault CloseContent path), w))"

text \<open>\<open>Close\<close> on an error path: the error is kept whatever \<open>Close\<close> returns.\<close>

definition closing :: "'w os \<Rightarrow> nat \<Rightarrow> ('w, verify_error, 'a) act \<Rightarrow> ('w, verify_error, 'a) act" where
  "closing os h m w =
     (case m w of (Inr x, w) \<Rightarrow> (Inr x, w) | (Inl e, w) \<Rightarrow> (Inl e, snd (os_close os h w)))"

lemma closing_Inr [act_simps]: "closing os h m w = (Inr x, w') \<longleftrightarrow> m w = (Inr x, w')"
  by (auto simp: closing_def split: prod.splits sum.splits)

text \<open>\<open>os.File.Read\<close>: never more than asked for, and no bytes without an error is the end of the file.\<close>

definition file_read :: "'w os \<Rightarrow> nat \<Rightarrow> nat \<Rightarrow> 'w \<Rightarrow> read_result \<times> 'w" where
  "file_read os h n w =
     (case os_read os h n w of
        (Data b, w) \<Rightarrow> (if take n b = [] then Eof else Data (take n b), w)
      | (r, w) \<Rightarrow> (r, w))"

text \<open>A system with a log of the bytes its reads delivered.\<close>

definition logged :: "('w \<Rightarrow> 'a \<times> 'w) \<Rightarrow> ('a \<Rightarrow> bytes) \<Rightarrow> 'w \<times> bytes \<Rightarrow> 'a \<times> 'w \<times> bytes" where
  "logged f out s = (case f (fst s) of (x, w) \<Rightarrow> (x, (w, snd s @ out x)))"

definition logging :: "'w os \<Rightarrow> ('w \<times> bytes) os" where
  "logging os =
     \<lparr>ctx_done = logged (ctx_done os) (\<lambda>_. []), os_open = (\<lambda>p. logged (os_open os p) (\<lambda>_. [])),
      os_open_bound = (\<lambda>k. logged (os_open_bound os k) (\<lambda>_. [])), os_fstat = (\<lambda>h. logged (os_fstat os h) (\<lambda>_. [])),
      os_lstat = (\<lambda>p. logged (os_lstat os p) (\<lambda>_. [])), os_stat = (\<lambda>p. logged (os_stat os p) (\<lambda>_. [])),
      os_read = (\<lambda>h n. logged (os_read os h n) (\<lambda>r. case r of Data b \<Rightarrow> take n b | _ \<Rightarrow> [])),
      os_close = (\<lambda>h. logged (os_close os h) (\<lambda>_. []))\<rparr>"

definition logging_names :: "'w names \<Rightarrow> ('w \<times> bytes) names" where
  "logging_names ns =
     \<lparr>nm_abs = (\<lambda>p. logged (nm_abs ns p) (\<lambda>_. [])), nm_eval = (\<lambda>p. logged (nm_eval ns p) (\<lambda>_. [])),
      nm_lstat = (\<lambda>p. logged (nm_lstat ns p) (\<lambda>_. []))\<rparr>"

section \<open>io.ReadFull\<close>

datatype 'e read_status = Ok | AtEof | Failed 'e

text \<open>
  A reader gives the bytes it delivered and a status. A reader that delivers nothing without an error would be
  asked again for ever; the readers below never do (\<open>file_reader_progress\<close>, \<open>seq_read_progress\<close>).
\<close>

function read_full :: "(nat \<Rightarrow> 's \<Rightarrow> (bytes \<times> verify_error read_status) \<times> 's) \<Rightarrow> nat \<Rightarrow> bytes \<Rightarrow> 's \<Rightarrow>
    (verify_error + bytes) \<times> 's" where
  "read_full read need got s =
     (if need = 0 then (Inr got, s)
      else
        (case read need s of
           ((b, status), s) \<Rightarrow>
             if need \<le> length b then (Inr (got @ take need b), s)
             else (case status of
                     Ok \<Rightarrow> if b = [] then (Inl NoProgress, s) else read_full read (need - length b) (got @ b) s
                   | AtEof \<Rightarrow> (Inl (if got @ b = [] then EndOfFile else UnexpectedEndOfFile), s)
                   | Failed e \<Rightarrow> (Inl e, s))))"
  by pat_completeness auto
termination
  by (relation "measure (\<lambda>(_, need, _, _). need)") auto

declare read_full.simps [simp del]

text \<open>A file as a reader.\<close>

definition file_reader :: "'w os \<Rightarrow> nat \<Rightarrow> nat \<Rightarrow> 'w \<Rightarrow> (bytes \<times> verify_error read_status) \<times> 'w" where
  "file_reader os h n w =
     (case file_read os h n w of
        (Data b, w) \<Rightarrow> ((b, Ok), w)
      | (Eof, w) \<Rightarrow> (([], AtEof), w)
      | (ReadFail, w) \<Rightarrow> (([], Failed ReadFailed), w))"

lemma file_reader_progress: "file_reader os h n w = ((b, Ok), w') \<Longrightarrow> b \<noteq> []"
  by (auto simp: file_reader_def file_read_def split: prod.splits read_result.splits if_splits)

section \<open>Opening and checking a file\<close>

definition open_file_spec :: "'w os \<Rightarrow> file_spec \<Rightarrow> ('w, verify_error, nat) act" where
  "open_file_spec os spec =
     (case s_open spec of
        Some k \<Rightarrow> call (os_open_bound os k) (FileFault OpenContent (s_path spec))
      | None \<Rightarrow> call (os_open os (s_path spec)) (FileFault OpenContent (s_path spec)))"

definition stat_opened_content_path :: "'w os \<Rightarrow> bytes \<Rightarrow> nat \<Rightarrow> ('w, verify_error, file_info) act" where
  "stat_opened_content_path os path h =
     bnd (call (os_fstat os h) (FileFault StatContent path)) (\<lambda>info.
     bnd (call (os_lstat os path) (FileFault StatContent path)) (\<lambda>path_info.
     bnd (guard (\<not> fi_link_like path_info \<and> fi_regular path_info) (FileFault NotNamedPath path)) (\<lambda>_.
     bnd (guard (fi_id info = fi_id path_info) (FileFault NotNamedPath path)) (\<lambda>_.
     ret info))))"

text \<open>The identity, size and modification time recorded before hashing.\<close>

definition same_snapshot :: "file_spec \<Rightarrow> file_info \<Rightarrow> bool" where
  "same_snapshot spec info \<longleftrightarrow>
     fi_id (s_info_before spec) = fi_id info \<and> fi_size info = s_size_before spec \<and> fi_mtime info = s_mod_before spec"

definition same_info :: "file_info \<Rightarrow> file_info \<Rightarrow> bool" where
  "same_info before after \<longleftrightarrow>
     fi_id before = fi_id after \<and> fi_size after = fi_size before \<and> fi_mtime after = fi_mtime before"

definition reads_content :: "file_spec \<Rightarrow> bool" where
  "reads_content spec \<longleftrightarrow> \<not> s_padding spec \<and> \<not> s_empty spec"

section \<open>The sequence reader\<close>

record seq_reader =
  sr_index :: nat
  sr_current :: "nat option"
  sr_before :: "file_info option"
  sr_remain :: int64
  sr_pending :: "verify_error option"

definition new_sequence_reader :: seq_reader where
  "new_sequence_reader = \<lparr>sr_index = 0, sr_current = None, sr_before = None, sr_remain = 0, sr_pending = None\<rparr>"

text \<open>\<open>advance\<close>: the finished file must still be the one that was opened; the error is kept for later reads.\<close>

definition seq_advance :: "'w os \<Rightarrow> file_spec list \<Rightarrow> seq_reader \<Rightarrow> 'w \<Rightarrow> verify_error option \<times> seq_reader \<times> 'w" where
  "seq_advance os specs r w =
     (let path = s_path (specs ! sr_index r);
          (result, w) =
            (case sr_current r of
               None \<Rightarrow> (None, w)
             | Some h \<Rightarrow>
                 (let (after, w) = os_fstat os h w;
                      result = (case after of
                          None \<Rightarrow> Some (FileFault StatContent path)
                        | Some info \<Rightarrow>
                            if same_info (the (sr_before r)) info then None
                            else Some (FileFault ChangedWhileHashing path));
                      (ok, w) = os_close os h w
                  in (if result = None \<and> \<not> ok then Some (FileFault CloseContent path) else result, w)))
      in (result,
          r\<lparr>sr_current := None, sr_before := None, sr_remain := 0, sr_index := sr_index r + 1,
            sr_pending := (if result = None then sr_pending r else result)\<rparr>,
          w))"

text \<open>Starting the file at the current index: \<open>currentRemain\<close> is set, and a content file is opened and checked.\<close>

definition seq_open :: "'w os \<Rightarrow> file_spec \<Rightarrow> seq_reader \<Rightarrow> ('w, verify_error, seq_reader) act" where
  "seq_open os spec r =
     (let r = r\<lparr>sr_remain := s_length spec\<rparr>
      in if reads_content spec \<and> sr_current r = None then
           bnd (open_file_spec os spec) (\<lambda>h.
           bnd (closing os h (stat_opened_content_path os (s_path spec) h)) (\<lambda>before.
           bnd (closing os h (guard (same_snapshot spec before) (FileFault ChangedBeforeHashing (s_path spec)))) (\<lambda>_.
           ret (r\<lparr>sr_current := Some h, sr_before := Some before\<rparr>))))
         else ret r)"

text \<open>The part of \<open>Read\<close> that delivers bytes: zeros of a padding file, or one read of the open file.\<close>

definition seq_take :: "'w os \<Rightarrow> file_spec list \<Rightarrow> nat \<Rightarrow> seq_reader \<Rightarrow> 'w \<Rightarrow>
    (bytes \<times> verify_error read_status) \<times> seq_reader \<times> 'w" where
  "seq_take os specs n r w =
     (let spec = specs ! sr_index r;
          limit = (if sr_remain r < int n then sr_remain r else int n);
          deliver = (\<lambda>b r w.
            if sr_remain r = 0
            then (case seq_advance os specs r w of
                    (Some e, r, w) \<Rightarrow> ((b, Failed e), r, w)
                  | (None, r, w) \<Rightarrow> ((b, Ok), r, w))
            else ((b, Ok), r, w))
      in if s_padding spec
         then deliver (replicate (nat limit) NUL) (r\<lparr>sr_remain := sr_remain r - limit\<rparr>) w
         else (case sr_current r of
                 None \<Rightarrow> (([], Failed ReadFailed), r, w)
               | Some h \<Rightarrow>
                   (case file_read os h (nat limit) w of
                      (Data b, w) \<Rightarrow> deliver b (r\<lparr>sr_remain := sr_remain r - int (length b)\<rparr>) w
                    | (Eof, w) \<Rightarrow> (([], Failed UnexpectedEndOfFile), r, w)
                    | (ReadFail, w) \<Rightarrow> (([], Failed ReadFailed), r, w))))"

lemma seq_advance_index: "seq_advance os specs r w = (e, r', w') \<Longrightarrow> sr_index r' = sr_index r + 1"
  by (auto simp: seq_advance_def Let_def split: option.splits prod.splits)

lemma seq_open_index: "seq_open os spec r w = (Inr r', w') \<Longrightarrow> sr_index r' = sr_index r"
  by (auto simp: seq_open_def Let_def act_simps split: if_splits)

function seq_read_loop :: "'w os \<Rightarrow> file_spec list \<Rightarrow> nat \<Rightarrow> seq_reader \<Rightarrow> 'w \<Rightarrow>
    (bytes \<times> verify_error read_status) \<times> seq_reader \<times> 'w" where
  "seq_read_loop os specs n r w =
     (if n = 0 then (([], Ok), r, w)
      else if length specs \<le> sr_index r then (([], AtEof), r, w)
      else
        let spec = specs ! sr_index r
        in if sr_remain r = 0 then
             (case seq_open os spec r w of
                (Inl e, w) \<Rightarrow> (([], Failed e), r\<lparr>sr_remain := s_length spec\<rparr>, w)
              | (Inr r1, w) \<Rightarrow>
                  if s_length spec = 0 then
                    (case seq_advance os specs r1 w of
                       (Some e, r2, w) \<Rightarrow> (([], Failed e), r2, w)
                     | (None, r2, w) \<Rightarrow> seq_read_loop os specs n r2 w)
                  else seq_take os specs n r1 w)
           else seq_take os specs n r w)"
  by pat_completeness auto
termination
proof (relation "measure (\<lambda>(os, specs, n, r, w). length specs - sr_index r)", goal_cases)
  case (2 os specs n r w spec x x1 r1 y xa r2 ya)
  then have "sr_index r1 = sr_index r" "sr_index r2 = sr_index r1 + 1"
    by (metis seq_open_index, metis seq_advance_index)
  with 2 show ?case by auto
qed auto

declare seq_read_loop.simps [simp del]

text \<open>\<open>Read\<close> as a reader on the pair of the reader's state and the system.\<close>

definition seq_read :: "'w os \<Rightarrow> file_spec list \<Rightarrow> nat \<Rightarrow> seq_reader \<times> 'w \<Rightarrow>
    (bytes \<times> verify_error read_status) \<times> seq_reader \<times> 'w" where
  "seq_read os specs n rw =
     (case sr_pending (fst rw) of
        Some e \<Rightarrow> (([], Failed e), rw)
      | None \<Rightarrow> seq_read_loop os specs n (fst rw) (snd rw))"

text \<open>\<open>Close\<close> of the sequence reader: the open file, if any.\<close>

definition seq_close :: "'w os \<Rightarrow> seq_reader \<times> 'w \<Rightarrow> 'w" where
  "seq_close os rw = (case sr_current (fst rw) of None \<Rightarrow> snd rw | Some h \<Rightarrow> snd (os_close os h (snd rw)))"

section \<open>What the stream of a sequence reader is\<close>

text \<open>The bytes one entry contributes to the stream, and the part of them that is read from a file.\<close>

definition seg_ok :: "file_spec \<Rightarrow> bytes \<Rightarrow> bool" where
  "seg_ok spec seg \<longleftrightarrow> int (length seg) = s_length spec \<and> (s_padding spec \<longrightarrow> seg = replicate (length seg) NUL)"

definition from_file :: "file_spec \<Rightarrow> bytes \<Rightarrow> bytes" where
  "from_file spec seg = (if s_padding spec then [] else seg)"

lemma from_file_simps [simp]:
  "from_file spec [] = []" "from_file spec (a @ b) = from_file spec a @ from_file spec b"
  by (simp_all add: from_file_def)

text \<open>
  \<open>seq_inv specs r out files\<close>: what the reader has delivered so far is the segments of the entries before its
  index and a part of the current one; \<open>files\<close> is the portion that came from files.
\<close>

definition seq_inv :: "file_spec list \<Rightarrow> seq_reader \<Rightarrow> bytes \<Rightarrow> bytes \<Rightarrow> bool" where
  "seq_inv specs r out files \<longleftrightarrow>
     (\<exists>segs part. length segs = sr_index r \<and> sr_index r \<le> length specs \<and>
        list_all2 seg_ok (take (sr_index r) specs) segs \<and> out = concat segs @ part \<and>
        files = concat (map2 from_file specs segs) @
          (if sr_index r < length specs then from_file (specs ! sr_index r) part else []) \<and>
        (if sr_remain r = 0 then part = []
         else sr_index r < length specs \<and> 0 < sr_remain r \<and>
           int (length part) + sr_remain r = s_length (specs ! sr_index r) \<and>
           (s_padding (specs ! sr_index r) \<longrightarrow> part = replicate (length part) NUL)))"

lemma seq_inv_new: "seq_inv specs new_sequence_reader [] []"
  by (auto simp: seq_inv_def new_sequence_reader_def)

text \<open>Entering an entry with content left to deliver.\<close>

lemma seq_inv_enter:
  assumes "seq_inv specs r out files" "sr_remain r = 0" "sr_index r < length specs" "0 \<le> s_length (specs ! sr_index r)"
    and "sr_index r' = sr_index r" "sr_remain r' = s_length (specs ! sr_index r)"
  shows "seq_inv specs r' out files"
  using assms unfolding seq_inv_def by (cases "s_length (specs ! sr_index r) = 0") (auto intro: order.not_eq_order_implies_strict)

text \<open>Moving on: the current entry is complete.\<close>

lemma seq_inv_advance:
  assumes "seq_inv specs r out files" "sr_index r < length specs" "sr_remain r = 0"
    and "s_length (specs ! sr_index r) = 0"
    and "sr_index r' = sr_index r + 1" "sr_remain r' = 0"
  shows "seq_inv specs r' out files"
proof -
  let ?i = "sr_index r"
  from assms(1,2,3) obtain segs where s: "length segs = ?i" "list_all2 seg_ok (take ?i specs) segs"
    "out = concat segs" "files = concat (map2 from_file specs segs)"
    by (auto simp: seq_inv_def)
  have "seg_ok (specs ! ?i) []" using assms(4) by (simp add: seg_ok_def)
  then have "list_all2 seg_ok (take (Suc ?i) specs) (segs @ [[]])"
    using s(2) assms(2) by (simp add: take_Suc_conv_app_nth list_all2_appendI)
  moreover have "concat (map2 from_file specs (segs @ [[]])) = files"
    using s assms(2) by (simp add: map2_snoc)
  ultimately show ?thesis
    unfolding seq_inv_def using s assms by (intro exI [of _ "segs @ [[]]"] exI [of _ "[]"]) auto
qed

text \<open>Delivering \<open>b\<close> from the current entry, and moving on when nothing of it remains.\<close>

lemma seq_inv_deliver:
  assumes "seq_inv specs r out files" "sr_remain r \<noteq> 0" "int (length b) \<le> sr_remain r"
    and "s_padding (specs ! sr_index r) \<Longrightarrow> b = replicate (length b) NUL"
    and "sr_index r' = (if sr_remain r = int (length b) then sr_index r + 1 else sr_index r)"
    and "sr_remain r' = sr_remain r - int (length b)"
  shows "seq_inv specs r' (out @ b) (files @ from_file (specs ! sr_index r) b)"
proof -
  let ?i = "sr_index r"
  from assms(1,2) obtain segs part where s: "length segs = ?i" "list_all2 seg_ok (take ?i specs) segs"
    "out = concat segs @ part" "?i < length specs"
    "files = concat (map2 from_file specs segs) @ from_file (specs ! ?i) part"
    "int (length part) + sr_remain r = s_length (specs ! ?i)" "0 < sr_remain r"
    "s_padding (specs ! ?i) \<Longrightarrow> part = replicate (length part) NUL"
    by (auto simp: seq_inv_def)
  have pad: "part @ b = replicate (length (part @ b)) NUL" if "s_padding (specs ! ?i)"
    using s(8) [OF that] assms(4) [OF that] by (metis length_append replicate_add)
  show ?thesis
  proof (cases "sr_remain r = int (length b)")
    case False
    then show ?thesis
      unfolding seq_inv_def using s assms(3,5,6) pad
      by (intro exI [of _ segs] exI [of _ "part @ b"]) auto
  next
    case True
    have "seg_ok (specs ! ?i) (part @ b)" using s(6) True pad by (simp add: seg_ok_def)
    then have "list_all2 seg_ok (take (Suc ?i) specs) (segs @ [part @ b])"
      using s(2,4) by (simp add: take_Suc_conv_app_nth list_all2_appendI)
    moreover have "concat (map2 from_file specs (segs @ [part @ b])) = files @ from_file (specs ! ?i) b"
      using s by (simp add: map2_snoc)
    ultimately show ?thesis
      unfolding seq_inv_def using s assms(5,6) True
      by (intro exI [of _ "segs @ [part @ b]"] exI [of _ "[]"]) auto
  qed
qed

lemma seq_inv_complete:
  assumes "seq_inv specs r out files" "length specs \<le> sr_index r"
  shows "\<exists>segs. list_all2 seg_ok specs segs \<and> out = concat segs \<and> files = concat (map2 from_file specs segs)"
  using assms by (auto simp: seq_inv_def split: if_splits)

section \<open>Systems that record what they deliver\<close>

locale recording_os =
  fixes os :: "'w os" and log :: "'w \<Rightarrow> bytes"
  assumes log_ctx: "log (snd (ctx_done os w)) = log w"
    and log_open: "log (snd (os_open os p w)) = log w"
    and log_open_bound: "log (snd (os_open_bound os k w)) = log w"
    and log_fstat: "log (snd (os_fstat os h w)) = log w"
    and log_lstat: "log (snd (os_lstat os p w)) = log w"
    and log_stat: "log (snd (os_stat os p w)) = log w"
    and log_close: "log (snd (os_close os h w)) = log w"
    and log_read: "log (snd (os_read os h n w)) =
      log w @ (case fst (os_read os h n w) of Data b \<Rightarrow> take n b | _ \<Rightarrow> [])"
begin

lemma log_ops:
  "os_close os h w = (ok, w') \<Longrightarrow> log w' = log w" "os_fstat os h w = (info, w') \<Longrightarrow> log w' = log w"
  using log_close [of h w] log_fstat [of h w] by auto

lemma log_file_read:
  "file_read os h n w = (r, w') \<Longrightarrow> log w' = log w @ (case r of Data b \<Rightarrow> b | _ \<Rightarrow> []) \<and>
     (\<forall>b. r = Data b \<longrightarrow> b \<noteq> [] \<and> length b \<le> n)"
  using log_read [of h n w]
  by (auto simp: file_read_def split: prod.splits read_result.splits if_splits)

lemma log_call:
  "call (os_open os p) e w = (r, w') \<Longrightarrow> log w' = log w"
  "call (os_open_bound os k) e w = (r, w') \<Longrightarrow> log w' = log w"
  "call (os_fstat os h) e w = (r', w') \<Longrightarrow> log w' = log w"
  "call (os_lstat os p) e w = (r', w') \<Longrightarrow> log w' = log w"
  "call (os_stat os p) e w = (r', w') \<Longrightarrow> log w' = log w"
  using log_open [of p w] log_open_bound [of k w] log_fstat [of h w] log_lstat [of p w] log_stat [of p w]
  by (auto simp: call_def split: prod.splits option.splits)

lemma log_check_ctx: "check_ctx os w = (r, w') \<Longrightarrow> log w' = log w"
  using log_ctx [of w] by (auto simp: check_ctx_def split: prod.splits bool.splits)

lemma log_close_file: "close_file os h p w = (r, w') \<Longrightarrow> log w' = log w"
  using log_close [of h w] by (auto simp: close_file_def split: prod.splits)

lemma log_closing: "(\<And>r w1. m w = (r, w1) \<Longrightarrow> log w1 = log w) \<Longrightarrow> closing os h m w = (r, w') \<Longrightarrow> log w' = log w"
  by (cases "m w") (auto simp: closing_def log_close split: prod.splits sum.splits)

lemma log_bnd:
  "bnd m f w = (r, w') \<Longrightarrow> (\<And>r w1. m w = (r, w1) \<Longrightarrow> log w1 = log w) \<Longrightarrow>
     (\<And>x w1 r w2. f x w1 = (r, w2) \<Longrightarrow> log w2 = log w1) \<Longrightarrow> log w' = log w"
  by (cases "m w") (fastforce simp: bnd_def split: sum.splits)

lemma log_guard: "guard b e w = (r, w') \<Longrightarrow> log w' = log w"
  by (auto simp: guard_def ret_def fail_def split: if_splits)

lemma log_open_file_spec: "open_file_spec os spec w = (r, w') \<Longrightarrow> log w' = log w"
  by (auto simp: open_file_spec_def split: option.splits dest: log_call)

lemma log_stat_opened: "stat_opened_content_path os p h w = (r, w') \<Longrightarrow> log w' = log w"
  unfolding stat_opened_content_path_def
  by (erule log_bnd, erule log_call, erule log_bnd, erule log_call, erule log_bnd, erule log_guard,
      erule log_bnd, erule log_guard, simp add: ret_def)

lemma log_seq_open: "seq_open os spec r w = (x, w') \<Longrightarrow> log w' = log w"
proof -
  have ret: "ret y v = (z, v') \<Longrightarrow> log v' = log v" for y v z v' by (simp add: ret_def)
  assume "seq_open os spec r w = (x, w')"
  then show ?thesis
    unfolding seq_open_def Let_def
    by (auto split: if_splits elim!: log_bnd dest!: log_open_file_spec
        intro: log_closing log_stat_opened log_guard ret)
qed

lemma log_seq_advance: "seq_advance os specs r w = (e, r', w') \<Longrightarrow> log w' = log w"
  by (auto simp: seq_advance_def Let_def split: option.splits prod.splits dest!: log_ops)

lemma seq_advance_state:
  "seq_advance os specs r w = (e, r', w') \<Longrightarrow> sr_index r' = sr_index r + 1 \<and> sr_remain r' = 0"
  by (auto simp: seq_advance_def Let_def split: option.splits prod.splits)

lemma seq_open_state:
  "seq_open os spec r w = (Inr r', w') \<Longrightarrow> sr_index r' = sr_index r \<and> sr_remain r' = s_length spec"
  by (auto simp: seq_open_def Let_def act_simps split: if_splits)

text \<open>The reader's invariant together with the log, which held \<open>base\<close> when the reader was new.\<close>

definition seq_at :: "file_spec list \<Rightarrow> bytes \<Rightarrow> seq_reader \<Rightarrow> 'w \<Rightarrow> bytes \<Rightarrow> bool" where
  "seq_at specs base r w out \<longleftrightarrow> (\<exists>files. seq_inv specs r out files \<and> log w = base @ files)"

lemma seq_take_at:
  assumes "seq_take os specs n r w = ((b, st), r', w')" "seq_at specs base r w out" "sr_remain r \<noteq> 0"
  shows "seq_at specs base r' w' (out @ b) \<and> length b \<le> n \<and> (st = Ok \<longrightarrow> 0 < n \<longrightarrow> b \<noteq> []) \<and> st \<noteq> AtEof"
proof -
  from assms(2) obtain files where inv: "seq_inv specs r out files" and lg: "log w = base @ files"
    by (auto simp: seq_at_def)
  from inv assms(3) have pos: "0 < sr_remain r" by (auto simp: seq_inv_def)
  let ?spec = "specs ! sr_index r"
  define limit where "limit = (if sr_remain r < int n then sr_remain r else int n)"
  have lim: "0 \<le> limit" "limit \<le> sr_remain r" "nat limit \<le> n" "0 < n \<longrightarrow> 0 < limit"
    using pos by (auto simp: limit_def)
  have deliver: "seq_at specs base r2 w2 (out @ d)"
    if d: "r1 = r\<lparr>sr_remain := sr_remain r - int (length d)\<rparr>" "int (length d) \<le> sr_remain r"
      "s_padding ?spec \<Longrightarrow> d = replicate (length d) NUL" "log w1 = log w @ from_file ?spec d"
      and fin: "if sr_remain r1 = 0 then \<exists>e. seq_advance os specs r1 w1 = (e, r2, w2) else r2 = r1 \<and> w2 = w1"
    for d r1 r2 w1 w2
  proof -
    have "sr_index r2 = (if sr_remain r = int (length d) then sr_index r + 1 else sr_index r)"
      "sr_remain r2 = sr_remain r - int (length d)" "log w2 = log w1"
      using d fin by (auto split: if_splits dest: seq_advance_state log_seq_advance)
    with seq_inv_deliver [OF inv assms(3) d(2,3)] d(4) lg show ?thesis
      by (auto simp: seq_at_def)
  qed
  show ?thesis
  proof (cases "s_padding ?spec")
    case True
    let ?d = "replicate (nat limit) NUL"
    have b: "b = ?d" and "st \<noteq> AtEof" and st: "st = Ok \<longrightarrow> 0 < n \<longrightarrow> b \<noteq> []"
      using assms(1) True lim by (auto simp: seq_take_def Let_def limit_def [symmetric] split: if_splits prod.splits option.splits)
    have "seq_at specs base r' w' (out @ ?d)"
      by (rule deliver [of "r\<lparr>sr_remain := sr_remain r - limit\<rparr>" _ w])
         (use True assms(1) lim in \<open>auto simp: seq_take_def Let_def limit_def [symmetric] from_file_def
            split: if_splits prod.splits option.splits\<close>)
    with b st \<open>st \<noteq> AtEof\<close> lim show ?thesis by simp
  next
    case False
    show ?thesis
    proof (cases "sr_current r")
      case None
      with assms False show ?thesis by (auto simp: seq_take_def Let_def)
    next
      case (Some h)
      obtain res w1 where fr: "file_read os h (nat limit) w = (res, w1)" by fastforce
      note lf = log_file_read [OF fr]
      show ?thesis
      proof (cases res)
        case (Data d)
        have b: "b = d" "st \<noteq> AtEof"
          using assms(1) False Some fr Data
          by (auto simp: seq_take_def Let_def limit_def [symmetric] split: if_splits prod.splits option.splits)
        have "seq_at specs base r' w' (out @ d)"
          by (rule deliver [of "r\<lparr>sr_remain := sr_remain r - int (length d)\<rparr>" _ w1])
             (use False Some fr Data assms(1) lim lf in \<open>auto simp: seq_take_def Let_def limit_def [symmetric]
                from_file_def split: if_splits prod.splits option.splits\<close>)
        with b lf Data lim show ?thesis by auto
      next
        case Eof
        with assms(1,2) False Some fr lf show ?thesis
          by (auto simp: seq_take_def Let_def limit_def [symmetric] seq_at_def)
      next
        case ReadFail
        with assms(1,2) False Some fr lf show ?thesis
          by (auto simp: seq_take_def Let_def limit_def [symmetric] seq_at_def)
      qed
    qed
  qed
qed

text \<open>One \<open>Read\<close>: it delivers at most \<open>n\<close> bytes, at least one unless it fails or the stream is at its end.\<close>

lemma seq_read_loop_at:
  assumes "seq_read_loop os specs n r w = ((b, st), r', w')" "seq_at specs base r w out"
    and "\<forall>spec \<in> set specs. 0 \<le> s_length spec"
  shows "seq_at specs base r' w' (out @ b) \<and> length b \<le> n \<and> (st = Ok \<longrightarrow> 0 < n \<longrightarrow> b \<noteq> []) \<and>
    (st = AtEof \<longrightarrow> b = [] \<and> length specs \<le> sr_index r')"
  using assms
proof (induction "length specs - sr_index r" arbitrary: r w rule: less_induct)
  case less
  consider "n = 0" | "n \<noteq> 0" "length specs \<le> sr_index r" | "n \<noteq> 0" "sr_index r < length specs" by linarith
  then show ?case
  proof cases
    case 3
    let ?spec = "specs ! sr_index r"
    from less.prems(2) obtain files where inv: "seq_inv specs r out files" "log w = base @ files"
      by (auto simp: seq_at_def)
    have nonneg: "0 \<le> s_length ?spec" using less.prems(3) 3(2) by simp
    show ?thesis
    proof (cases "sr_remain r = 0")
      case False
      with less.prems(1) 3 have "seq_take os specs n r w = ((b, st), r', w')"
        by (subst (asm) seq_read_loop.simps) simp
      from seq_take_at [OF this less.prems(2) False] show ?thesis by auto
    next
      case True
      obtain res w1 where op: "seq_open os ?spec r w = (res, w1)" by fastforce
      note lg = log_seq_open [OF op]
      have enter: "seq_at specs base r1 w1 out"
        if "sr_index r1 = sr_index r" "sr_remain r1 = s_length ?spec" for r1
        using seq_inv_enter [OF inv(1) True 3(2) nonneg that] inv(2) lg by (auto simp: seq_at_def)
      show ?thesis
      proof (cases res)
        case (Inl e)
        then have "b = []" "st = Failed e" "r' = r\<lparr>sr_remain := s_length ?spec\<rparr>" "w' = w1"
          using less.prems(1) 3 True op by (subst (asm) seq_read_loop.simps, simp)+
        then show ?thesis using enter [of r'] by simp
      next
        case (Inr r1)
        with op have r1: "sr_index r1 = sr_index r" "sr_remain r1 = s_length ?spec"
          by (auto dest: seq_open_state)
        show ?thesis
        proof (cases "s_length ?spec = 0")
          case False
          then have "seq_take os specs n r1 w1 = ((b, st), r', w')"
            using less.prems(1) 3 True op Inr by (subst (asm) seq_read_loop.simps) simp
          from seq_take_at [OF this enter [OF r1]] False r1 show ?thesis by auto
        next
          case zero: True
          obtain e r2 w2 where ad: "seq_advance os specs r1 w1 = (e, r2, w2)" by (cases "seq_advance os specs r1 w1")
          have r2: "sr_index r2 = sr_index r + 1" "sr_remain r2 = 0" "log w2 = log w1"
            using seq_advance_state [OF ad] log_seq_advance [OF ad] r1 by simp_all
          have inv2: "seq_inv specs r2 out files"
            by (rule seq_inv_advance [OF inv(1) 3(2) True zero r2(1,2)])
          then have at2: "seq_at specs base r2 w2 out" using inv(2) lg r2(3) by (auto simp: seq_at_def)
          show ?thesis
          proof (cases e)
            case (Some err)
            then have "b = []" "st = Failed err" "r' = r2" "w' = w2"
              using less.prems(1) 3 True op Inr zero ad by (subst (asm) seq_read_loop.simps, simp)+
            then show ?thesis using at2 by simp
          next
            case None
            then have "seq_read_loop os specs n r2 w2 = ((b, st), r', w')"
              using less.prems(1) 3 True op Inr zero ad by (subst (asm) seq_read_loop.simps) simp
            from less.hyps [OF _ this at2 less.prems(3)] 3(2) r2(1) show ?thesis by simp
          qed
        qed
      qed
    qed
  next
    case 1
    with less.prems show ?thesis by (subst (asm) seq_read_loop.simps) simp
  next
    case 2
    with less.prems show ?thesis by (subst (asm) seq_read_loop.simps) simp
  qed
qed

lemma seq_read_at:
  assumes "seq_read os specs n (r, w) = ((b, st), r', w')" "seq_at specs base r w out"
    and "\<forall>spec \<in> set specs. 0 \<le> s_length spec"
  shows "seq_at specs base r' w' (out @ b) \<and> length b \<le> n \<and> (st = Ok \<longrightarrow> 0 < n \<longrightarrow> b \<noteq> []) \<and>
    (st = AtEof \<longrightarrow> b = [] \<and> length specs \<le> sr_index r')"
proof (cases "sr_pending r")
  case None
  with assms(1) have "seq_read_loop os specs n r w = ((b, st), r', w')" by (simp add: seq_read_def)
  then show ?thesis by (rule seq_read_loop_at [OF _ assms(2,3)])
next
  case (Some e)
  with assms show ?thesis by (auto simp: seq_read_def)
qed

text \<open>\<open>io.ReadFull\<close> on the sequence reader delivers exactly the next bytes of the stream.\<close>

lemma seq_read_full_at:
  assumes "read_full (seq_read os specs) need got (r, w) = (Inr data, r', w')" "seq_at specs base r w out"
    and "\<forall>spec \<in> set specs. 0 \<le> s_length spec"
  shows "\<exists>b. data = got @ b \<and> length b = need \<and> seq_at specs base r' w' (out @ b)"
  using assms
proof (induction need arbitrary: got r w out rule: less_induct)
  case (less need)
  show ?case
  proof (cases "need = 0")
    case True
    with less.prems show ?thesis by (simp add: read_full.simps)
  next
    case False
    obtain b st r1 w1 where rd: "seq_read os specs need (r, w) = ((b, st), r1, w1)" by (metis prod.exhaust)
    note at = seq_read_at [OF rd less.prems(2,3)]
    show ?thesis
    proof (cases "need \<le> length b")
      case True
      with less.prems(1) rd False at show ?thesis by (subst (asm) read_full.simps) auto
    next
      case short: False
      with less.prems(1) rd False have st: "st = Ok" "b \<noteq> []"
        "read_full (seq_read os specs) (need - length b) (got @ b) (r1, w1) = (Inr data, r', w')"
        by (subst (asm) read_full.simps, auto split: read_status.splits if_splits)+
      from less.IH [OF _ st(3) _ less.prems(3), of "out @ b"] at st(2) False obtain b' where
        "data = (got @ b) @ b'" "length b' = need - length b" "seq_at specs base r' w' ((out @ b) @ b')"
        by auto
      with short show ?thesis by (intro exI [of _ "b @ b'"]) auto
    qed
  qed
qed

end

text \<open>Every system becomes one that records what it delivers.\<close>

interpretation logging: recording_os "logging os" snd for os
  by unfold_locales (simp_all add: logging_def logged_def split: prod.splits)

end
