(* ===== verification/Verify.thy ===== *)
theory Verify
  imports SourceFiles
begin

text \<open>
  \<open>internal/metafile/verify.go\<close>: the exact verifiers. \<open>verify_v1_resolved\<close> hashes the sequence of all files,
  \<open>verify_v2_resolved\<close> hashes each file and can mirror what it reads to the v1 proof stream, and
  \<open>verify_hybrid_resolved\<close> uses that mirror to check both protocols on one read. \<open>preflight\<close> and \<open>ensure_stable\<close>
  record and re-check identity, size and modification time. The counters are Go \<open>int\<close> and \<open>int64\<close>; they count
  pieces, files and bytes of the manifest, whose sum \<open>addLength\<close> keeps in range, so no wrap-around is written.
  On an error the Go functions also return the partial result; only the error is kept here.
\<close>

section \<open>Results\<close>

record verification_check =
  vc_algorithm :: bytes
  vc_evidence :: bytes
  vc_verified :: bool
  vc_bytes_verified :: int64
  vc_proof_stream_bytes :: int64
  vc_files_checked :: nat
  vc_padding_bytes :: int64
  vc_pieces_expected :: nat
  vc_pieces_matched :: nat
  vc_roots_expected :: nat
  vc_roots_matched :: nat
  vc_mismatch_pieces :: "nat list"
  vc_mismatch_overflow :: nat

record verification_result =
  vr_version :: bytes
  vr_evidence :: bytes
  vr_verified :: bool
  vr_bytes_verified :: int64
  vr_proof_stream_bytes :: int64
  vr_files_checked :: nat
  vr_padding_bytes :: int64
  vr_source_snapshot_id :: bytes
  vr_stability_assurance :: bytes
  vr_pieces_expected :: nat
  vr_pieces_matched :: nat
  vr_roots_expected :: nat
  vr_roots_matched :: nat
  vr_mismatch_pieces :: "nat list"
  vr_mismatch_overflow :: nat
  vr_checks :: "verification_check list"
  vr_snapshots :: "(bytes \<times> file_info) list"
  vr_snapshot_authority :: bool

definition empty_result :: "bytes \<Rightarrow> bytes \<Rightarrow> bytes \<Rightarrow> nat \<Rightarrow> verification_result" where
  "empty_result version evidence assurance expected =
     \<lparr>vr_version = version, vr_evidence = evidence, vr_verified = False, vr_bytes_verified = 0,
      vr_proof_stream_bytes = 0, vr_files_checked = 0, vr_padding_bytes = 0, vr_source_snapshot_id = [],
      vr_stability_assurance = assurance, vr_pieces_expected = expected, vr_pieces_matched = 0,
      vr_roots_expected = 0, vr_roots_matched = 0, vr_mismatch_pieces = [], vr_mismatch_overflow = 0,
      vr_checks = [], vr_snapshots = [], vr_snapshot_authority = False\<rparr>"

definition public_copy :: "verification_result \<Rightarrow> verification_result" where
  "public_copy r = r\<lparr>vr_snapshots := [], vr_snapshot_authority := False\<rparr>"

definition record_mismatch :: "verification_result \<Rightarrow> nat \<Rightarrow> verification_result" where
  "record_mismatch r piece =
     (if length (vr_mismatch_pieces r) < 100
      then r\<lparr>vr_mismatch_pieces := vr_mismatch_pieces r @ [piece]\<rparr>
      else r\<lparr>vr_mismatch_overflow := vr_mismatch_overflow r + 1\<rparr>)"

text \<open>Counting one compared piece.\<close>

definition count_piece :: "bool \<Rightarrow> nat \<Rightarrow> verification_result \<Rightarrow> verification_result" where
  "count_piece matches index r =
     (if matches then r\<lparr>vr_pieces_matched := vr_pieces_matched r + 1\<rparr> else record_mismatch r index)"

definition verification_check_of :: "bytes \<Rightarrow> verification_result \<Rightarrow> verification_check" where
  "verification_check_of algorithm r =
     \<lparr>vc_algorithm = algorithm, vc_evidence = vr_evidence r, vc_verified = vr_verified r,
      vc_bytes_verified = vr_bytes_verified r, vc_proof_stream_bytes = vr_proof_stream_bytes r,
      vc_files_checked = vr_files_checked r, vc_padding_bytes = vr_padding_bytes r,
      vc_pieces_expected = vr_pieces_expected r, vc_pieces_matched = vr_pieces_matched r,
      vc_roots_expected = vr_roots_expected r, vc_roots_matched = vr_roots_matched r,
      vc_mismatch_pieces = vr_mismatch_pieces r, vc_mismatch_overflow = vr_mismatch_overflow r\<rparr>"

section \<open>Snapshots\<close>

definition source_snapshot_id :: "golib \<Rightarrow> file_spec list \<Rightarrow> bytes" where
  "source_snapshot_id lib specs =
     ''sha256:'' @ hex_encode (gl_sha256 lib (concat (map
       (\<lambda>spec. path_clean (s_path spec) @ NUL # render_int (s_size_before spec) @ NUL #
          render_int (s_mod_before spec) @ [CHR 0x0A])
       (filter reads_content specs))))"

definition spec_snapshots :: "file_spec list \<Rightarrow> (bytes \<times> file_info) list" where
  "spec_snapshots specs = map (\<lambda>spec. (s_path spec, s_info_before spec)) (filter reads_content specs)"

text \<open>Opening a bound file only to look at it: it is closed in every case.\<close>

definition inspect_bound :: "'w os \<Rightarrow> nat \<Rightarrow> bytes \<Rightarrow> ('w, verify_error, file_info) act" where
  "inspect_bound os k path =
     bnd (call (os_open_bound os k) (FileFault OpenContent path)) (\<lambda>h w.
       case stat_opened_content_path os path h w of
         (Inl e, w) \<Rightarrow> (Inl e, snd (os_close os h w))
       | (Inr info, w) \<Rightarrow> bnd (close_file os h path) (\<lambda>_. ret info) w)"

definition preflight_spec :: "'w os \<Rightarrow> file_spec \<Rightarrow> ('w, verify_error, file_spec) act" where
  "preflight_spec os spec =
     bnd (check_ctx os) (\<lambda>_.
     if \<not> reads_content spec then ret spec
     else bnd (case s_open spec of
                 Some k \<Rightarrow> inspect_bound os k (s_path spec)
               | None \<Rightarrow>
                   bnd (call (os_lstat os (s_path spec)) (FileFault StatContent (s_path spec))) (\<lambda>info.
                   bnd (guard (\<not> fi_link_like info) (FileFault NotRegular (s_path spec))) (\<lambda>_. ret info))) (\<lambda>info.
          bnd (guard (fi_regular info) (FileFault NotRegular (s_path spec))) (\<lambda>_.
          bnd (guard (fi_size info = s_length spec) (FileFault WrongSize (s_path spec))) (\<lambda>_.
          ret (spec\<lparr>s_size_before := fi_size info, s_mod_before := fi_mtime info, s_info_before := info\<rparr>)))))"

fun preflight :: "'w os \<Rightarrow> file_spec list \<Rightarrow> ('w, verify_error, file_spec list) act" where
  "preflight os [] = ret []"
| "preflight os (spec # specs) =
     bnd (preflight_spec os spec) (\<lambda>spec. bnd (preflight os specs) (\<lambda>specs. ret (spec # specs)))"

fun ensure_stable :: "'w os \<Rightarrow> file_spec list \<Rightarrow> ('w, verify_error, unit) act" where
  "ensure_stable os [] = ret ()"
| "ensure_stable os (spec # specs) =
     (if \<not> reads_content spec then ensure_stable os specs
      else bnd (case s_open spec of
                  Some k \<Rightarrow> inspect_bound os k (s_path spec)
                | None \<Rightarrow> call (os_stat os (s_path spec)) (FileFault StatContent (s_path spec))) (\<lambda>info.
           bnd (guard (same_snapshot spec info) (FileFault ChangedWhileHashing (s_path spec))) (\<lambda>_.
           ensure_stable os specs)))"

section \<open>The v1 verifier\<close>

text \<open>The state of a v1 run is the sequence reader and the system.\<close>

definition on_system :: "('w, 'e, 'a) act \<Rightarrow> ('t \<times> 'w, 'e, 'a) act" where
  "on_system m s = (case m (snd s) of (r, w) \<Rightarrow> (r, (fst s, w)))"

fun v1_pieces :: "golib \<Rightarrow> 'w os \<Rightarrow> file_spec list \<Rightarrow> int64 \<Rightarrow> nat \<Rightarrow> bytes list \<Rightarrow> int64 \<Rightarrow> verification_result \<Rightarrow>
    (seq_reader \<times> 'w, verify_error, int64 \<times> verification_result) act" where
  "v1_pieces lib os specs piece_length index [] remaining r = ret (remaining, r)"
| "v1_pieces lib os specs piece_length index (expected # rest) remaining r =
     bnd (on_system (check_ctx os)) (\<lambda>_.
     let piece_bytes = (if remaining < piece_length then remaining else piece_length)
     in if piece_bytes < 0 then fail NegativeRemaining
        else bnd (\<lambda>s. case read_full (seq_read os specs) (nat piece_bytes) [] s of
                    (Inl e, s) \<Rightarrow> (Inl (ReadPiece index e), s)
                  | (Inr data, s) \<Rightarrow> (Inr data, s)) (\<lambda>data.
             let r = count_piece (gl_sha1 lib data = expected) index r;
                 r = r\<lparr>vr_proof_stream_bytes := vr_proof_stream_bytes r + piece_bytes\<rparr>
             in v1_pieces lib os specs piece_length (index + 1) rest (remaining - piece_bytes) r))"

text \<open>One byte more is asked for: only the end of the stream is acceptable.\<close>

definition no_extra :: "'w os \<Rightarrow> file_spec list \<Rightarrow> (seq_reader \<times> 'w, verify_error, unit) act" where
  "no_extra os specs s =
     (case seq_read os specs 1 s of
        ((b, status), s) \<Rightarrow>
          (if b \<noteq> [] \<or> (case status of Failed _ \<Rightarrow> True | _ \<Rightarrow> False) then Inl ContentBeyondManifest else Inr (), s))"

definition count_files :: "file_spec list \<Rightarrow> verification_result \<Rightarrow> verification_result" where
  "count_files specs r =
     foldl (\<lambda>r spec.
        if s_padding spec then r\<lparr>vr_padding_bytes := vr_padding_bytes r + s_length spec\<rparr>
        else if \<not> s_empty spec then r\<lparr>vr_files_checked := vr_files_checked r + 1\<rparr> else r) r specs"

definition finish_v1 :: "golib \<Rightarrow> file_spec list \<Rightarrow> verification_result \<Rightarrow> verification_result" where
  "finish_v1 lib specs r =
     (let r = r\<lparr>vr_source_snapshot_id := source_snapshot_id lib specs,
           vr_snapshots := vr_snapshots r @ spec_snapshots specs, vr_snapshot_authority := True,
           vr_bytes_verified := vr_proof_stream_bytes r - vr_padding_bytes r,
           vr_verified := (vr_pieces_matched r = vr_pieces_expected r)\<rparr>
      in r\<lparr>vr_checks := [verification_check_of ''bt-v1'' r]\<rparr>)"

definition verify_v1_resolved :: "golib \<Rightarrow> 'w os \<Rightarrow> meta_info \<Rightarrow> file_spec list \<Rightarrow>
    ('w, verify_error, verification_result) act" where
  "verify_v1_resolved lib os meta specs w =
     (let r = empty_result (m_version meta) ''v1-sha1-pieces'' ''file_identity_size_mtime_checked_non_atomic''
            (length (m_piece_hashes meta))
      in if m_info_hash_v1 meta = [] then fail V1Unavailable w
         else if m_piece_length meta \<le> 0 \<or> m_piece_length meta > 67108864 then fail InvalidPieceSize w
         else if length specs \<noteq> length (m_files meta) then fail LayoutMismatch w
         else
           (case bnd (v1_pieces lib os specs (m_piece_length meta) 0 (m_piece_hashes meta) (m_total_length meta)
                        (count_files specs r)) (\<lambda>(remaining, r).
                 bnd (guard (remaining = 0) (BytesUnverified remaining)) (\<lambda>_.
                 bnd (no_extra os specs) (\<lambda>_.
                 bnd (on_system (ensure_stable os specs)) (\<lambda>_.
                 ret (finish_v1 lib specs r))))) (new_sequence_reader, w) of
              (outcome, s) \<Rightarrow> (outcome, seq_close os s)))"

section \<open>The v1 proof stream\<close>

text \<open>
  \<open>ps_hasher\<close> holds what was written to the SHA-1 state since its last reset; a \<open>hash.Hash\<close> documents that
  \<open>Write\<close> never returns an error and takes all bytes, so those branches have no counterpart.
\<close>

record v1_stream =
  ps_piece_length :: int64
  ps_expected :: "bytes list"
  ps_hasher :: bytes
  ps_piece_bytes :: int64
  ps_piece_index :: nat
  ps_result :: verification_result

definition new_v1_proof_stream :: "meta_info \<Rightarrow> v1_stream" where
  "new_v1_proof_stream meta =
     \<lparr>ps_piece_length = m_piece_length meta, ps_expected = m_piece_hashes meta, ps_hasher = [],
      ps_piece_bytes = 0, ps_piece_index = 0,
      ps_result = empty_result (m_version meta) ''v1-sha1-pieces'' [] (length (m_piece_hashes meta))\<rparr>"

definition finish_piece :: "golib \<Rightarrow> v1_stream \<Rightarrow> verify_error + v1_stream" where
  "finish_piece lib st =
     (if length (ps_expected st) \<le> ps_piece_index st then Inl BeyondPieceManifest
      else Inr (st\<lparr>ps_result := count_piece (gl_sha1 lib (ps_hasher st) = ps_expected st ! ps_piece_index st)
                     (ps_piece_index st) (ps_result st),
                 ps_piece_index := ps_piece_index st + 1, ps_piece_bytes := 0, ps_hasher := []\<rparr>))"

definition complete_stream :: "golib \<Rightarrow> v1_stream \<Rightarrow> verify_error + v1_stream" where
  "complete_stream lib st =
     rbind (if ps_piece_bytes st > 0 then finish_piece lib st else Inr st) (\<lambda>st.
       if ps_piece_index st \<noteq> length (ps_expected st)
       then Inl (ProofsUnobserved (int (length (ps_expected st)) - int (ps_piece_index st)))
       else Inr st)"

text \<open>\<open>Write\<close>: the count of bytes taken and the error, if any; the context is polled before each chunk.\<close>

function stream_write :: "golib \<Rightarrow> 'w os \<Rightarrow> bytes \<Rightarrow> nat \<Rightarrow> v1_stream \<Rightarrow> 'w \<Rightarrow>
    (nat \<times> verify_error option) \<times> v1_stream \<times> 'w" where
  "stream_write lib os data written st w =
     (if data = [] then ((written, None), st, w)
      else
        (case ctx_done os w of
           (True, w) \<Rightarrow> ((written, Some Cancelled), st, w)
         | (False, w) \<Rightarrow>
             let piece_remaining = ps_piece_length st - ps_piece_bytes st
             in if piece_remaining \<le> 0 then ((written, Some PieceBoundary), st, w)
                else
                  let chunk = (if int (length data) > piece_remaining then nat piece_remaining else length data);
                      st = st\<lparr>ps_hasher := ps_hasher st @ take chunk data,
                            ps_piece_bytes := ps_piece_bytes st + int chunk,
                            ps_result := (ps_result st)\<lparr>vr_proof_stream_bytes :=
                              vr_proof_stream_bytes (ps_result st) + int chunk\<rparr>\<rparr>
                  in if ps_piece_bytes st = ps_piece_length st then
                       (case finish_piece lib st of
                          Inl e \<Rightarrow> ((written + chunk, Some e), st, w)
                        | Inr st \<Rightarrow> stream_write lib os (drop chunk data) (written + chunk) st w)
                     else stream_write lib os (drop chunk data) (written + chunk) st w))"
  by pat_completeness auto
termination
  by (relation "measure (\<lambda>(_, _, data, _). length data)") auto

declare stream_write.simps [simp del]

text \<open>\<open>writeZeroBytes\<close> with a buffer of \<open>buffer_len\<close> zeros.\<close>

function write_zero_bytes :: "golib \<Rightarrow> 'w os \<Rightarrow> nat \<Rightarrow> int64 \<Rightarrow> v1_stream \<Rightarrow> 'w \<Rightarrow>
    verify_error option \<times> v1_stream \<times> 'w" where
  "write_zero_bytes lib os buffer_len count st w =
     (if count \<le> 0 \<or> buffer_len = 0 then (None, st, w)
      else
        (case ctx_done os w of
           (True, w) \<Rightarrow> (Some Cancelled, st, w)
         | (False, w) \<Rightarrow>
             let chunk = (if count < int buffer_len then nat count else buffer_len)
             in (case stream_write lib os (replicate chunk NUL) 0 st w of
                   ((n, Some e), st, w) \<Rightarrow> (Some e, st, w)
                 | ((n, None), st, w) \<Rightarrow> write_zero_bytes lib os buffer_len (count - int chunk) st w)))"
  by pat_completeness auto
termination
  by (relation "measure (\<lambda>(_, _, _, count, _). nat count)") auto

declare write_zero_bytes.simps [simp del]

end
