(* ===== verification/VerifyV2.thy ===== *)
theory VerifyV2
  imports Verify
begin

text \<open>
  The v2 and hybrid verifiers of \<open>internal/metafile/verify.go\<close>. A run's state is the optional v1 proof stream and the
  system. Each content file is opened, compared with its snapshot, hashed block by block through a reader that
  mirrors its bytes to the proof stream, and checked once more before it is closed.
\<close>

section \<open>Reading with a mirror\<close>

text \<open>\<open>io.TeeReader(file, proofStream)\<close>, or the file itself without a proof stream.\<close>

definition tee_read :: "golib \<Rightarrow> 'w os \<Rightarrow> nat \<Rightarrow> nat \<Rightarrow> v1_stream option \<times> 'w \<Rightarrow>
    (bytes \<times> verify_error read_status) \<times> v1_stream option \<times> 'w" where
  "tee_read lib os h n s =
     (case file_reader os h n (snd s) of
        ((b, status), w) \<Rightarrow>
          (case fst s of
             None \<Rightarrow> ((b, status), None, w)
           | Some st \<Rightarrow>
               if b = [] then ((b, status), Some st, w)
               else (case stream_write lib os b 0 st w of
                       ((written, Some e), st, w) \<Rightarrow> ((take written b, Failed e), Some st, w)
                     | ((written, None), st, w) \<Rightarrow> ((b, status), Some st, w))))"

definition content_io :: "golib \<Rightarrow> 'w os \<Rightarrow> nat \<Rightarrow> (v1_stream option \<times> 'w, verify_error) segment_io" where
  "content_io lib os h =
     \<lparr>io_poll = (\<lambda>s. case ctx_done os (snd s) of (stop, w) \<Rightarrow> (stop, (fst s, w))),
      io_read_full = (\<lambda>n s. read_full (tee_read lib os h) n [] s)\<rparr>"

text \<open>Merkle steps as actions.\<close>

definition merkle :: "merkle_error + 'a \<Rightarrow> ('s, verify_error, 'a) act" where
  "merkle m s = (case m of Inl e \<Rightarrow> (Inl (MerkleFailed e), s) | Inr x \<Rightarrow> (Inr x, s))"

definition hash_segment :: "golib \<Rightarrow> 'w os \<Rightarrow> nat \<Rightarrow> int64 \<Rightarrow> int64 \<Rightarrow> (v1_stream option \<times> 'w, verify_error, bytes) act" where
  "hash_segment lib os h data_bytes target_leaves s =
     (case hash_v2_segment lib (content_io lib os h) data_bytes target_leaves v2_block_size s of
        (Inl e, s) \<Rightarrow> (Inl (SegmentFailed e), s)
      | (Inr root, s) \<Rightarrow> (Inr root, s))"

text \<open>An action whose error path closes the file and ignores the result of \<open>Close\<close>.\<close>

definition or_close :: "'w os \<Rightarrow> nat \<Rightarrow> ('t \<times> 'w, verify_error, 'a) act \<Rightarrow> ('t \<times> 'w, verify_error, 'a) act" where
  "or_close os h m s =
     (case m s of
        (Inr x, s) \<Rightarrow> (Inr x, s)
      | (Inl e, (t, w)) \<Rightarrow> (Inl e, (t, snd (os_close os h w))))"

lemma or_close_Inr [act_simps]: "or_close os h m s = (Inr x, s') \<longleftrightarrow> m s = (Inr x, s')"
  by (auto simp: or_close_def split: prod.splits sum.splits)

lemma merkle_Inr [act_simps]: "merkle m s = (Inr x, s') \<longleftrightarrow> m = Inr x \<and> s' = s"
  by (auto simp: merkle_def split: sum.splits)

lemma hash_segment_Inr [act_simps]:
  "hash_segment lib os h n t s = (Inr x, s') \<longleftrightarrow> hash_v2_segment lib (content_io lib os h) n t v2_block_size s = (Inr x, s')"
  by (auto simp: hash_segment_def split: prod.splits sum.splits)

lemma on_system_Inr [act_simps]: "on_system m s = (Inr x, s') \<longleftrightarrow> (\<exists>w. m (snd s) = (Inr x, w) \<and> s' = (fst s, w))"
  by (auto simp: on_system_def split: prod.splits)

section \<open>One content file\<close>

text \<open>
  A compared v2 piece. Its index in the report is the number of pieces expected so far, which grows by one
  whether it matches or not.
\<close>

definition compare_piece :: "bool \<Rightarrow> int64 \<Rightarrow> verification_result \<Rightarrow> verification_result" where
  "compare_piece matches len r =
     (let index = vr_pieces_expected r; r = r\<lparr>vr_pieces_expected := index + 1\<rparr>; r = count_piece matches index r
      in r\<lparr>vr_bytes_verified := vr_bytes_verified r + len\<rparr>)"

text \<open>A file of at most one piece: its root is the root of its blocks.\<close>

definition hash_small_file :: "golib \<Rightarrow> 'w os \<Rightarrow> nat \<Rightarrow> file_spec \<Rightarrow> file_entry \<Rightarrow> verification_result \<Rightarrow>
    (v1_stream option \<times> 'w, verify_error, bytes \<times> verification_result) act" where
  "hash_small_file lib os h spec meta_file r =
     (let blocks = (s_length spec - 1) sdiv v2_block_size + 1 in
      bnd (merkle (next_power_of_two blocks)) (\<lambda>target.
      bnd (hash_segment lib os h (s_length spec) target) (\<lambda>root.
      ret (root, compare_piece (root = f_pieces_root_raw meta_file) (s_length spec) r))))"

text \<open>The pieces of a larger file, each compared with the authenticated layer and added to the root.\<close>

function hash_pieces :: "golib \<Rightarrow> 'w os \<Rightarrow> nat \<Rightarrow> int64 \<Rightarrow> int64 \<Rightarrow> nat \<Rightarrow> bytes \<Rightarrow> int64 \<Rightarrow> int64 \<Rightarrow> int64 \<Rightarrow>
    merkle_accumulator \<Rightarrow> verification_result \<Rightarrow>
    (v1_stream option \<times> 'w, verify_error, merkle_accumulator \<times> verification_result) act" where
  "hash_pieces lib os h piece_length blocks depth layer local_piece piece_count remaining acc r s =
     (if piece_count \<le> local_piece then (Inr (acc, r), s)
      else
        let piece_bytes = (if remaining < piece_length then remaining else piece_length) in
        (case hash_segment lib os h piece_bytes blocks s of
           (Inl e, s) \<Rightarrow> (Inl e, s)
         | (Inr root, s) \<Rightarrow>
             let r = compare_piece (root = layer_hash layer (nat local_piece)) piece_bytes r in
             (case acc_add lib root depth acc of
                Inl e \<Rightarrow> (Inl (MerkleFailed e), s)
              | Inr acc \<Rightarrow>
                  hash_pieces lib os h piece_length blocks depth layer (local_piece + 1) piece_count
                    (remaining - piece_bytes) acc r s)))"
  by pat_completeness auto
termination
  by (relation "measure (\<lambda>(_, _, _, _, _, _, _, local_piece, piece_count, _). nat (piece_count - local_piece))") auto

declare hash_pieces.simps [simp del]

definition hash_large_file :: "golib \<Rightarrow> 'w os \<Rightarrow> nat \<Rightarrow> int64 \<Rightarrow> nat \<Rightarrow> file_spec \<Rightarrow> file_entry \<Rightarrow> verification_result \<Rightarrow>
    (v1_stream option \<times> 'w, verify_error, bytes \<times> verification_result) act" where
  "hash_large_file lib os h piece_length depth spec meta_file r =
     (let piece_count = (s_length spec - 1) sdiv piece_length + 1 in
      bnd (guard (\<not> (piece_count > max_int64 \<or> int (length (f_piece_layer_raw meta_file)) \<noteq> piece_count * 32))
             NoPieceLayer) (\<lambda>_.
      bnd (hash_pieces lib os h piece_length (piece_length sdiv v2_block_size) depth (f_piece_layer_raw meta_file)
             0 piece_count (s_length spec) new_accumulator r) (\<lambda>(acc, r).
      bnd (merkle (next_power_of_two piece_count)) (\<lambda>target.
      bnd (merkle (rbind (add_layer lib depth (replicate (nat (target - piece_count)) (v2_zero_hash lib depth)) acc)
             acc_root)) (\<lambda>root.
      ret (root, r))))))"

text \<open>Hashing the content of an open file; the flag says whether all roots so far agree.\<close>

definition hash_content :: "golib \<Rightarrow> 'w os \<Rightarrow> nat \<Rightarrow> int64 \<Rightarrow> nat \<Rightarrow> file_spec \<Rightarrow> file_entry \<Rightarrow> bool \<Rightarrow>
    verification_result \<Rightarrow> (v1_stream option \<times> 'w, verify_error, bool \<times> verification_result) act" where
  "hash_content lib os h piece_length depth spec meta_file roots_match r =
     (if s_length spec > 0 then
        bnd (guard (length (f_pieces_root_raw meta_file) = 32) NoPiecesRoot) (\<lambda>_.
        let r = r\<lparr>vr_roots_expected := vr_roots_expected r + 1\<rparr> in
        bnd (if s_length spec \<le> piece_length then hash_small_file lib os h spec meta_file r
             else hash_large_file lib os h piece_length depth spec meta_file r) (\<lambda>(root, r).
        if root = f_pieces_root_raw meta_file
        then ret (roots_match, r\<lparr>vr_roots_matched := vr_roots_matched r + 1\<rparr>)
        else ret (False, r)))
      else ret (roots_match, r))"

text \<open>After hashing: no byte may follow, and identity, size and modification time are those from before.\<close>

definition check_after :: "'w os \<Rightarrow> nat \<Rightarrow> bytes \<Rightarrow> file_info \<Rightarrow> ('w, verify_error, unit) act" where
  "check_after os h path before =
     bnd (\<lambda>w. case file_read os h 1 w of
            (Eof, w) \<Rightarrow> (Inr (), w)
          | (_, w) \<Rightarrow> (Inl ContentBeyondManifest, w)) (\<lambda>_.
     bnd (call (os_fstat os h) (FileFault StatContent path)) (\<lambda>after.
     guard (same_info before after) (FileFault ChangedWhileHashing path)))"

definition verify_v2_content :: "golib \<Rightarrow> 'w os \<Rightarrow> int64 \<Rightarrow> nat \<Rightarrow> file_spec \<Rightarrow> file_entry \<Rightarrow> bool \<Rightarrow>
    verification_result \<Rightarrow> (v1_stream option \<times> 'w, verify_error, bool \<times> verification_result) act" where
  "verify_v2_content lib os piece_length depth spec meta_file roots_match r =
     bnd (on_system (open_file_spec os spec)) (\<lambda>h.
     bnd (or_close os h (
       bnd (on_system (stat_opened_content_path os (s_path spec) h)) (\<lambda>before.
       bnd (guard (same_snapshot spec before) (FileFault ChangedBeforeHashing (s_path spec))) (\<lambda>_.
       bnd (hash_content lib os h piece_length depth spec meta_file roots_match r) (\<lambda>result.
       bnd (on_system (check_after os h (s_path spec) before)) (\<lambda>_.
       ret result)))))) (\<lambda>result.
     bnd (on_system (close_file os h (s_path spec))) (\<lambda>_. ret result)))"

section \<open>All files\<close>

text \<open>A padding file only feeds zeros to the proof stream.\<close>

definition mirror_padding :: "golib \<Rightarrow> 'w os \<Rightarrow> int64 \<Rightarrow> (v1_stream option \<times> 'w, verify_error, unit) act" where
  "mirror_padding lib os len s =
     (case fst s of
        None \<Rightarrow> (Inr (), s)
      | Some st \<Rightarrow>
          (case write_zero_bytes lib os (nat v2_block_size) len st (snd s) of
             (Some e, st, w) \<Rightarrow> (Inl e, (Some st, w))
           | (None, st, w) \<Rightarrow> (Inr (), (Some st, w))))"

fun verify_v2_files :: "golib \<Rightarrow> 'w os \<Rightarrow> int64 \<Rightarrow> nat \<Rightarrow> (file_spec \<times> file_entry) list \<Rightarrow> bool \<Rightarrow>
    verification_result \<Rightarrow> (v1_stream option \<times> 'w, verify_error, bool \<times> verification_result) act" where
  "verify_v2_files lib os piece_length depth [] roots_match r = ret (roots_match, r)"
| "verify_v2_files lib os piece_length depth ((spec, meta_file) # rest) roots_match r =
     bnd (on_system (check_ctx os)) (\<lambda>_.
     if s_padding spec then
       bnd (mirror_padding lib os (s_length spec)) (\<lambda>_.
       verify_v2_files lib os piece_length depth rest roots_match
         (r\<lparr>vr_padding_bytes := vr_padding_bytes r + s_length spec\<rparr>))
     else if s_empty spec then verify_v2_files lib os piece_length depth rest roots_match r
     else
       bnd (verify_v2_content lib os piece_length depth spec meta_file roots_match
              (r\<lparr>vr_files_checked := vr_files_checked r + 1\<rparr>)) (\<lambda>(roots_match, r).
       verify_v2_files lib os piece_length depth rest roots_match r))"

definition finish_v2 :: "golib \<Rightarrow> file_spec list \<Rightarrow> bool \<Rightarrow> verification_result \<Rightarrow> verification_result" where
  "finish_v2 lib specs roots_match r =
     (let r = r\<lparr>vr_source_snapshot_id := source_snapshot_id lib specs,
           vr_snapshots := vr_snapshots r @ spec_snapshots specs, vr_snapshot_authority := True,
           vr_verified := (roots_match \<and> vr_pieces_matched r = vr_pieces_expected r \<and>
             vr_roots_matched r = vr_roots_expected r),
           vr_proof_stream_bytes := vr_bytes_verified r\<rparr>
      in r\<lparr>vr_checks := [verification_check_of ''bt-v2'' r]\<rparr>)"

definition verify_v2_resolved :: "golib \<Rightarrow> 'w os \<Rightarrow> meta_info \<Rightarrow> file_spec list \<Rightarrow>
    (v1_stream option \<times> 'w, verify_error, verification_result) act" where
  "verify_v2_resolved lib os meta specs =
     (if m_info_hash_v2 meta = [] then fail V2Unavailable
      else bnd (merkle (v2_piece_layer_depth (m_piece_length meta))) (\<lambda>depth.
        if length specs \<noteq> length (m_files meta) then fail LayoutMismatch
        else bnd (verify_v2_files lib os (m_piece_length meta) depth (zip specs (m_files meta)) True
               (empty_result (m_version meta) ''v2-sha256-merkle'' ''file_identity_size_mtime_checked_non_atomic'' 0))
             (\<lambda>(roots_match, r).
             bnd (on_system (ensure_stable os specs)) (\<lambda>_.
             ret (finish_v2 lib specs roots_match r)))))"

section \<open>Hybrids\<close>

definition combine_hybrid :: "verification_result \<Rightarrow> verification_result \<Rightarrow> verification_result" where
  "combine_hybrid stream_result v2 =
     (let v1 = stream_result\<lparr>vr_files_checked := vr_files_checked v2, vr_padding_bytes := vr_padding_bytes v2,
           vr_bytes_verified := vr_bytes_verified v2, vr_source_snapshot_id := vr_source_snapshot_id v2,
           vr_snapshots := vr_snapshots v2, vr_snapshot_authority := vr_snapshot_authority v2,
           vr_verified := (vr_pieces_matched stream_result = vr_pieces_expected stream_result)\<rparr>;
         v1 = v1\<lparr>vr_checks := [verification_check_of ''bt-v1'' v1]\<rparr>
      in \<lparr>vr_version = ''hybrid'', vr_evidence = ''v1-sha1-pieces+v2-sha256-merkle'',
          vr_verified = (vr_verified v1 \<and> vr_verified v2), vr_bytes_verified = vr_bytes_verified v2,
          vr_proof_stream_bytes = vr_proof_stream_bytes v1, vr_files_checked = vr_files_checked v2,
          vr_padding_bytes = vr_padding_bytes v1, vr_source_snapshot_id = vr_source_snapshot_id v2,
          vr_stability_assurance = ''single_read_file_identity_size_mtime_checked_non_atomic'',
          vr_pieces_expected = vr_pieces_expected v1 + vr_pieces_expected v2,
          vr_pieces_matched = vr_pieces_matched v1 + vr_pieces_matched v2,
          vr_roots_expected = vr_roots_expected v2, vr_roots_matched = vr_roots_matched v2,
          vr_mismatch_pieces = [], vr_mismatch_overflow = 0,
          vr_checks = vr_checks v1 @ vr_checks v2, vr_snapshots = vr_snapshots v2,
          vr_snapshot_authority = vr_snapshot_authority v2\<rparr>)"

definition verify_hybrid_resolved :: "golib \<Rightarrow> 'w os \<Rightarrow> meta_info \<Rightarrow> file_spec list \<Rightarrow>
    ('w, verify_error, verification_result) act" where
  "verify_hybrid_resolved lib os meta specs w =
     (if m_info_hash_v1 meta = [] \<or> m_info_hash_v2 meta = [] then fail HybridIncomplete w
      else
        (case verify_v2_resolved lib os meta specs (Some (new_v1_proof_stream meta), w) of
           (Inl e, (_, w)) \<Rightarrow> (Inl e, w)
         | (Inr v2, (stream, w)) \<Rightarrow>
             (rbind (complete_stream lib (the stream)) (\<lambda>st.
              let v1 = ps_result st
              in if vr_proof_stream_bytes v1 \<noteq> m_total_length meta
                 then Inl (ProofStreamLength (vr_proof_stream_bytes v1) (m_total_length meta))
                 else if int (vr_pieces_expected v1) > max_int64 - int (vr_pieces_expected v2) \<or>
                         int (vr_pieces_matched v1) > max_int64 - int (vr_pieces_matched v2)
                 then Inl PieceCountOverflowsInt
                 else Inr (combine_hybrid v1 v2)), w)))"

text \<open>\<open>Verify\<close> dispatches on the version, with the specs that resolving the content path gives.\<close>

definition verify_resolved :: "golib \<Rightarrow> 'w os \<Rightarrow> meta_info \<Rightarrow> file_spec list \<Rightarrow> ('w, verify_error, verification_result) act" where
  "verify_resolved lib os meta specs w =
     (if m_version meta = ''v1'' then verify_v1_resolved lib os meta specs w
      else if m_version meta = ''v2'' then
        (case verify_v2_resolved lib os meta specs (None, w) of (r, (_, w)) \<Rightarrow> (r, w))
      else if m_version meta = ''hybrid'' then verify_hybrid_resolved lib os meta specs w
      else fail (UnsupportedVersion (m_version meta)) w)"

end
