(* ===== verification/Resolve.thy ===== *)
theory Resolve
  imports VerifyV2
begin

text \<open>
  From a content path to the files of a verification (\<open>resolveFiles\<close>), the three verifiers on top of it and the
  dispatch by version, and the check of a planned source against a verified snapshot. Resolving reads no content,
  and the specs it returns mirror the manifest entry by entry.
\<close>

definition padding_spec :: "int64 \<Rightarrow> file_spec" where
  "padding_spec len = \<lparr>s_path = [], s_length = len, s_padding = True, s_empty = False, s_open = None,
     s_size_before = 0, s_mod_before = 0,
     s_info_before = \<lparr>fi_id = 0, fi_size = 0, fi_mtime = 0, fi_regular = False, fi_link_like = False, fi_dir = False\<rparr>\<rparr>"

definition content_spec :: "bytes \<Rightarrow> int64 \<Rightarrow> bool \<Rightarrow> file_spec" where
  "content_spec path len padding = (padding_spec len)\<lparr>s_path := path, s_padding := padding\<rparr>"

definition as_verify :: "('w, join_error, 'a) act \<Rightarrow> ('w, verify_error, 'a) act" where
  "as_verify m w = (case m w of (Inl e, w) \<Rightarrow> (Inl (UnsafeContentPath e), w) | (Inr x, w) \<Rightarrow> (Inr x, w))"

lemma as_verify_Inr [act_simps]: "as_verify m w = (Inr x, w') \<longleftrightarrow> m w = (Inr x, w')"
  by (auto simp: as_verify_def split: prod.splits sum.splits)

definition resolve_single :: "golib \<Rightarrow> 'w names \<Rightarrow> path_semantics \<Rightarrow> file_entry \<Rightarrow> bytes \<Rightarrow> ('w, verify_error, file_spec list) act" where
  "resolve_single lib ns sem entry content_path =
     bnd (lookup (nm_lstat ns content_path) (FileFault StatContent content_path)) (\<lambda>info.
     bnd (if fi_dir info then as_verify (secure_join_existing lib ns content_path (f_raw_path entry) sem)
          else bnd (guard (\<not> fi_link_like info) ContentSymlink) (\<lambda>_. ret content_path)) (\<lambda>path.
     bnd (call (nm_abs ns path) (FileFault ResolvePath path)) (\<lambda>path.
     bnd (lookup (nm_eval ns path) (FileFault ResolvePath path)) (\<lambda>path.
     ret [content_spec path (f_length entry) (is_padding entry)]))))"

fun resolve_multi :: "golib \<Rightarrow> 'w names \<Rightarrow> path_semantics \<Rightarrow> bytes \<Rightarrow> file_entry list \<Rightarrow> ('w, verify_error, file_spec list) act" where
  "resolve_multi lib ns sem content_path [] = ret []"
| "resolve_multi lib ns sem content_path (entry # entries) =
     bnd (if is_padding entry then ret (padding_spec (f_length entry))
          else bnd (as_verify (secure_join_existing lib ns content_path (f_raw_path entry) sem)) (\<lambda>path.
               ret (content_spec path (f_length entry) False))) (\<lambda>spec.
     bnd (resolve_multi lib ns sem content_path entries) (\<lambda>specs. ret (spec # specs)))"

definition resolve_files :: "golib \<Rightarrow> 'w names \<Rightarrow> 'w os \<Rightarrow> path_semantics \<Rightarrow> meta_info \<Rightarrow> bytes \<Rightarrow>
    ('w, verify_error, file_spec list) act" where
  "resolve_files lib ns os sem meta content_path =
     (case manifest_paths_checked lib (m_files meta) sem of
        Inl e \<Rightarrow> fail (UnsafeManifestPaths e)
      | Inr _ \<Rightarrow>
          if \<not> m_multi_file meta then
            bnd (resolve_single lib ns sem (hd (m_files meta)) content_path) (preflight os)
          else
            bnd (call (os_stat os content_path) (FileFault StatContent content_path)) (\<lambda>info.
            bnd (guard (fi_dir info) NotDirectory) (\<lambda>_.
            bnd (resolve_multi lib ns sem content_path (m_files meta)) (preflight os))))"

definition verify_v1 :: "golib \<Rightarrow> 'w names \<Rightarrow> 'w os \<Rightarrow> path_semantics \<Rightarrow> meta_info \<Rightarrow> bytes \<Rightarrow>
    ('w, verify_error, verification_result) act" where
  "verify_v1 lib ns os sem meta content_path =
     (if m_info_hash_v1 meta = [] then fail V1Unavailable
      else if m_piece_length meta \<le> 0 \<or> m_piece_length meta > 67108864 then fail InvalidPieceSize
      else bnd (resolve_files lib ns os sem meta content_path) (verify_v1_resolved lib os meta))"

definition verify_v2 :: "golib \<Rightarrow> 'w names \<Rightarrow> 'w os \<Rightarrow> path_semantics \<Rightarrow> meta_info \<Rightarrow> bytes \<Rightarrow>
    ('w, verify_error, verification_result) act" where
  "verify_v2 lib ns os sem meta content_path =
     (if m_info_hash_v2 meta = [] then fail V2Unavailable
      else bnd (resolve_files lib ns os sem meta content_path) (\<lambda>specs w.
        case verify_v2_resolved lib os meta specs (None, w) of (r, (_, w)) \<Rightarrow> (r, w)))"

definition verify_hybrid :: "golib \<Rightarrow> 'w names \<Rightarrow> 'w os \<Rightarrow> path_semantics \<Rightarrow> meta_info \<Rightarrow> bytes \<Rightarrow>
    ('w, verify_error, verification_result) act" where
  "verify_hybrid lib ns os sem meta content_path =
     (if m_info_hash_v1 meta = [] \<or> m_info_hash_v2 meta = [] then fail HybridIncomplete
      else bnd (resolve_files lib ns os sem meta content_path) (verify_hybrid_resolved lib os meta))"

definition verify :: "golib \<Rightarrow> 'w names \<Rightarrow> 'w os \<Rightarrow> path_semantics \<Rightarrow> meta_info \<Rightarrow> bytes \<Rightarrow>
    ('w, verify_error, verification_result) act" where
  "verify lib ns os sem meta content_path =
     (if m_version meta = ''v1'' then verify_v1 lib ns os sem meta content_path
      else if m_version meta = ''v2'' then verify_v2 lib ns os sem meta content_path
      else if m_version meta = ''hybrid'' then verify_hybrid lib ns os sem meta content_path
      else fail (UnsupportedVersion (m_version meta)))"

section \<open>Matching a planned source\<close>

definition same_snapshot_path :: "golib \<Rightarrow> path_semantics \<Rightarrow> bytes \<Rightarrow> bytes \<Rightarrow> bool" where
  "same_snapshot_path lib sem a b =
     (if case_sensitive sem then path_clean a = path_clean b else gl_equal_fold lib (path_clean a) (path_clean b))"

text \<open>A \<open>SourcePrecondition\<close> is the size and the modification time of the file.\<close>

type_synonym source_precondition = "int64 \<times> int"

definition snapshot_matches :: "golib \<Rightarrow> path_semantics \<Rightarrow> (bytes \<times> file_info) list \<Rightarrow> bytes \<Rightarrow> file_info \<Rightarrow> bool" where
  "snapshot_matches lib sem snapshots path info =
     list_ex (\<lambda>(p, before). same_snapshot_path lib sem p path \<and> same_info before info) snapshots"

definition match_source_snapshot :: "golib \<Rightarrow> path_semantics \<Rightarrow> 'w os \<Rightarrow> verification_result \<Rightarrow> bytes \<Rightarrow>
    ('w, verify_error, source_precondition) act" where
  "match_source_snapshot lib sem os r path =
     (if \<not> vr_snapshot_authority r then fail NoSnapshotAuthority
      else bnd (call (os_stat os path) (FileFault StatContent path)) (\<lambda>info.
        if snapshot_matches lib sem (vr_snapshots r) path info
        then ret (fi_size info, fi_mtime info) else fail (SnapshotMismatch path)))"

section \<open>What resolving returns\<close>

text \<open>A spec and the entry it stands for.\<close>

definition spec_for :: "file_entry \<Rightarrow> file_spec \<Rightarrow> bool" where
  "spec_for entry spec \<longleftrightarrow> s_length spec = f_length entry \<and> s_padding spec = is_padding entry \<and>
     (s_empty spec \<longrightarrow> f_length entry = 0)"

lemma spec_for_simps [simp]:
  "spec_for entry (content_spec path len padding) \<longleftrightarrow> len = f_length entry \<and> padding = is_padding entry"
  "spec_for entry (padding_spec len) \<longleftrightarrow> len = f_length entry \<and> is_padding entry"
  by (auto simp: spec_for_def content_spec_def padding_spec_def)

lemma resolve_multi_specs:
  "resolve_multi lib ns sem path entries w = (Inr specs, w') \<Longrightarrow> list_all2 spec_for entries specs"
proof (induction entries arbitrary: w specs)
  case (Cons entry entries)
  then show ?case by (cases "is_padding entry") (auto simp: act_simps)
qed (simp add: ret_eq)

lemma preflight_spec_for: "preflight_spec os spec w = (Inr spec', w') \<Longrightarrow> spec_for entry spec \<Longrightarrow> spec_for entry spec'"
  by (auto simp: preflight_spec_def act_simps spec_for_def split: if_splits)

lemma preflight_specs:
  "preflight os specs w = (Inr specs', w') \<Longrightarrow> list_all2 spec_for entries specs \<Longrightarrow> list_all2 spec_for entries specs'"
proof (induction specs arbitrary: w specs' entries)
  case (Cons spec specs)
  then obtain entry rest where "entries = entry # rest" "spec_for entry spec" "list_all2 spec_for rest specs"
    by (auto simp: list_all2_Cons2)
  with Cons show ?case by (auto simp: act_simps dest: preflight_spec_for)
qed (auto simp: ret_eq)

lemma resolve_files_specs:
  assumes "resolve_files lib ns os sem meta path w = (Inr specs, w')" "length specs = length (m_files meta)"
  shows "list_all2 spec_for (m_files meta) specs"
proof (cases "m_multi_file meta")
  case True
  with assms(1) show ?thesis
    by (auto simp: resolve_files_def act_simps split: sum.splits dest!: resolve_multi_specs preflight_specs)
next
  case False
  with assms(1) have one: "list_all2 spec_for [hd (m_files meta)] specs"
    by (auto simp: resolve_files_def resolve_single_def act_simps split: sum.splits
        dest!: preflight_specs [where entries = "[hd (m_files meta)]"])
  then have "length (m_files meta) = 1" using assms(2) by (auto dest: list_all2_lengthD)
  then obtain entry where "m_files meta = [entry]" by (auto simp: length_Suc_conv)
  with one show ?thesis by simp
qed

end
