(* ===== verification/Source.thy ===== *)
theory Source
  imports Resolve
begin

text \<open>
  \<open>internal/metafile/source.go\<close>: a source map binds manifest entries to files anywhere on disk. Verifying it gives
  a \<open>VerifiedSource\<close>, from which files can be reopened and consumed under the checks that tie them to the verified
  snapshot. \<open>observe_v2_file_root\<close> computes the BEP 52 root of a single file.
\<close>

section \<open>Bindings\<close>

record source_binding =
  sb_index :: int
  sb_path :: bytes
  sb_open :: "nat option"

record verified_source =
  vs_variant :: bytes
  vs_bindings :: "source_binding list"
  vs_result :: verification_result

definition is_abs :: "bytes \<Rightarrow> bool" where
  "is_abs path \<longleftrightarrow> has_prefix path ''/''"

text \<open>The first loop of \<open>specsFromSourceMap\<close>.\<close>

fun collect_bindings :: "file_entry list \<Rightarrow> source_binding list \<Rightarrow> (nat \<rightharpoonup> source_binding) \<Rightarrow>
    verify_error + (nat \<rightharpoonup> source_binding)" where
  "collect_bindings files [] by_index = Inr by_index"
| "collect_bindings files (b # rest) by_index =
     (if sb_index b < 0 \<or> sb_index b \<ge> int (length files) then Inl (BindingOutsideManifest (sb_index b))
      else
        let i = nat (sb_index b) in
        if by_index i \<noteq> None then Inl (BindingDuplicated (sb_index b))
        else if is_padding (files ! i) then Inl (BindingOfPadding (sb_index b))
        else if sb_path b = [] \<or> \<not> is_abs (sb_path b) then Inl (BindingNotAbsolute (sb_index b))
        else collect_bindings files rest (by_index(i \<mapsto> b\<lparr>sb_path := path_clean (sb_path b)\<rparr>)))"

definition empty_spec :: file_spec where
  "empty_spec = (padding_spec 0)\<lparr>s_padding := False, s_empty := True\<rparr>"

definition bound_spec :: "source_binding \<Rightarrow> int64 \<Rightarrow> file_spec" where
  "bound_spec b len = (content_spec (sb_path b) len False)\<lparr>s_open := sb_open b\<rparr>"

text \<open>The second loop: a spec for every entry, and the bindings in manifest order.\<close>

fun bound_specs :: "(nat \<rightharpoonup> source_binding) \<Rightarrow> nat \<Rightarrow> file_entry list \<Rightarrow> verify_error + (file_spec list \<times> source_binding list)" where
  "bound_specs by_index i [] = Inr ([], [])"
| "bound_specs by_index i (entry # rest) =
     (if is_padding entry then
        rbind (bound_specs by_index (i + 1) rest) (\<lambda>(specs, bs). Inr (padding_spec (f_length entry) # specs, bs))
      else (case by_index i of
              None \<Rightarrow>
                if f_length entry = 0
                then rbind (bound_specs by_index (i + 1) rest) (\<lambda>(specs, bs). Inr (empty_spec # specs, bs))
                else Inl (FileUnbound i)
            | Some b \<Rightarrow>
                rbind (bound_specs by_index (i + 1) rest)
                  (\<lambda>(specs, bs). Inr (bound_spec b (f_length entry) # specs, b\<lparr>sb_index := int i\<rparr> # bs))))"

definition source_specs :: "file_entry list \<Rightarrow> source_binding list \<Rightarrow> verify_error + (file_spec list \<times> source_binding list)" where
  "source_specs files bindings =
     rbind (collect_bindings files bindings Map.empty) (\<lambda>by_index. bound_specs by_index 0 files)"

definition specs_from_source_map :: "'w os \<Rightarrow> meta_info \<Rightarrow> source_binding list \<Rightarrow>
    ('w, verify_error, file_spec list \<times> source_binding list) act" where
  "specs_from_source_map os meta bindings =
     (case source_specs (m_files meta) bindings of
        Inl e \<Rightarrow> fail e
      | Inr (specs, bs) \<Rightarrow> bnd (preflight os specs) (\<lambda>specs. ret (specs, bs)))"

definition verify_source_map :: "golib \<Rightarrow> 'w os \<Rightarrow> meta_info \<Rightarrow> source_binding list \<Rightarrow> ('w, verify_error, verified_source) act" where
  "verify_source_map lib os meta bindings =
     bnd (specs_from_source_map os meta bindings) (\<lambda>(specs, bs).
     bnd (verify_resolved lib os meta specs) (\<lambda>r.
     ret \<lparr>vs_variant = m_variant_id meta, vs_bindings = bs, vs_result = r\<rparr>))"

definition content_bindings :: "file_spec list \<Rightarrow> source_binding list" where
  "content_bindings specs =
     map (\<lambda>(i, spec). \<lparr>sb_index = int i, sb_path = path_clean (s_path spec), sb_open = None\<rparr>)
       (filter (\<lambda>(i, spec). \<not> s_padding spec \<and> \<not> s_empty spec \<and> s_path spec \<noteq> []) (zip [0..<length specs] specs))"

definition verify_content_source :: "golib \<Rightarrow> 'w names \<Rightarrow> 'w os \<Rightarrow> path_semantics \<Rightarrow> meta_info \<Rightarrow> bytes \<Rightarrow>
    ('w, verify_error, verified_source) act" where
  "verify_content_source lib ns os sem meta content_path =
     bnd (resolve_files lib ns os sem meta content_path) (\<lambda>specs.
     bnd (verify_resolved lib os meta specs) (\<lambda>r.
     ret \<lparr>vs_variant = m_variant_id meta, vs_bindings = content_bindings specs, vs_result = r\<rparr>))"

section \<open>Looking up a binding\<close>

definition source_for :: "verified_source \<Rightarrow> meta_info \<Rightarrow> bool" where
  "source_for source meta \<longleftrightarrow> vs_variant source \<noteq> [] \<and> vs_variant source = m_variant_id meta"

definition public_bindings :: "verified_source \<Rightarrow> source_binding list" where
  "public_bindings source = map (\<lambda>b. b\<lparr>sb_open := None\<rparr>) (vs_bindings source)"

text \<open>\<open>sort.Search\<close>: binary search for the first index in \<open>[i, j)\<close> at which \<open>f\<close> holds.\<close>

function sort_search :: "(nat \<Rightarrow> bool) \<Rightarrow> nat \<Rightarrow> nat \<Rightarrow> nat" where
  "sort_search f i j =
     (if i < j then let h = (i + j) div 2 in if \<not> f h then sort_search f (h + 1) j else sort_search f i h else i)"
  by pat_completeness auto
termination
  by (relation "measure (\<lambda>(f, i, j). j - i)") auto

declare sort_search.simps [simp del]

definition find_binding :: "source_binding list \<Rightarrow> int \<Rightarrow> source_binding option" where
  "find_binding bindings file_index =
     (let position = sort_search (\<lambda>i. sb_index (bindings ! i) \<ge> file_index) 0 (length bindings)
      in if position \<ge> length bindings \<or> sb_index (bindings ! position) \<noteq> file_index then None
         else Some (bindings ! position))"

definition source_path :: "verified_source \<Rightarrow> int \<Rightarrow> bytes option" where
  "source_path source file_index = map_option sb_path (find_binding (vs_bindings source) file_index)"

definition source_precondition_of :: "golib \<Rightarrow> path_semantics \<Rightarrow> 'w os \<Rightarrow> verified_source \<Rightarrow> int \<Rightarrow>
    ('w, verify_error, source_precondition) act" where
  "source_precondition_of lib sem os source file_index =
     (case find_binding (vs_bindings source) file_index of
        None \<Rightarrow> fail (NoPhysicalBinding file_index)
      | Some b \<Rightarrow>
          (case sb_open b of
             None \<Rightarrow> match_source_snapshot lib sem os (vs_result source) (sb_path b)
           | Some k \<Rightarrow>
               bnd (inspect_bound os k (sb_path b)) (\<lambda>info.
               if snapshot_matches lib sem (vr_snapshots (vs_result source)) (sb_path b) info
               then ret (fi_size info, fi_mtime info) else fail (SnapshotMismatch (sb_path b)))))"

section \<open>Verifying again\<close>

fun preconditions_of :: "golib \<Rightarrow> path_semantics \<Rightarrow> 'w os \<Rightarrow> verified_source \<Rightarrow> source_binding list \<Rightarrow>
    (int \<rightharpoonup> source_precondition) \<Rightarrow> ('w, verify_error, int \<rightharpoonup> source_precondition) act" where
  "preconditions_of lib sem os source [] before = ret before"
| "preconditions_of lib sem os source (b # rest) before =
     bnd (check_ctx os) (\<lambda>_ w.
       case source_precondition_of lib sem os source (sb_index b) w of
         (Inl _, w) \<Rightarrow> (Inl ChangedBeforeReverification, w)
       | (Inr p, w) \<Rightarrow> preconditions_of lib sem os source rest (before(sb_index b \<mapsto> p)) w)"

fun compare_preconditions :: "golib \<Rightarrow> path_semantics \<Rightarrow> 'w os \<Rightarrow> verified_source \<Rightarrow> verified_source \<Rightarrow>
    (int \<rightharpoonup> source_precondition) \<Rightarrow> source_binding list \<Rightarrow> ('w, verify_error, unit) act" where
  "compare_preconditions lib sem os source reverified before [] = ret ()"
| "compare_preconditions lib sem os source reverified before (b # rest) =
     bnd (check_ctx os) (\<lambda>_ w.
       case source_precondition_of lib sem os source (sb_index b) w of (original, w) \<Rightarrow>
         (case source_precondition_of lib sem os reverified (sb_index b) w of (current, w) \<Rightarrow>
            (case (original, current, before (sb_index b)) of
               (Inr p, Inr q, Some expected) \<Rightarrow>
                 if p = expected \<and> q = expected
                 then compare_preconditions lib sem os source reverified before rest w
                 else (Inl ChangedDuringReverification, w)
             | _ \<Rightarrow> (Inl ChangedDuringReverification, w))))"

definition reverify :: "golib \<Rightarrow> path_semantics \<Rightarrow> 'w os \<Rightarrow> meta_info \<Rightarrow> verified_source \<Rightarrow> ('w, verify_error, verified_source) act" where
  "reverify lib sem os meta source =
     (if \<not> source_for source meta \<or> \<not> vr_verified (vs_result source) \<or> \<not> vr_snapshot_authority (vs_result source)
      then fail NoReverification
      else
        bnd (preconditions_of lib sem os source (vs_bindings source) Map.empty) (\<lambda>before.
        bnd (verify_source_map lib os meta (vs_bindings source)) (\<lambda>reverified.
        bnd (compare_preconditions lib sem os source reverified before (vs_bindings source)) (\<lambda>_.
        ret reverified))))"

section \<open>Consuming a verified file\<close>

text \<open>
  The callback as a strategy: it asks for bytes and goes on with what it gets, or it finishes, with success or
  not. A read of no bytes makes no progress; any other read of a file delivers bytes or a status
  (\<open>file_reader_progress\<close>), so \<open>io.ErrNoProgress\<close> arises in no other way.
\<close>

datatype consumer = Finish bool | Ask nat "bytes \<times> verify_error read_status \<Rightarrow> consumer"

definition bounded_read :: "'w os \<Rightarrow> nat \<Rightarrow> nat \<Rightarrow> int64 \<times> 'w \<Rightarrow> (bytes \<times> verify_error read_status) \<times> int64 \<times> 'w" where
  "bounded_read os h n s =
     (case check_ctx os (snd s) of
        (Inl e, w) \<Rightarrow> (([], Failed e), (fst s, w))
      | (Inr _, w) \<Rightarrow>
          if fst s = 0 then (([], AtEof), (fst s, w))
          else if n = 0 then (([], Failed NoProgress), (fst s, w))
          else
            (case file_reader os h (if int n > fst s then nat (fst s) else n) w of
               ((b, st), w) \<Rightarrow> ((b, st), (fst s - int (length b), w))))"

primrec run_consumer :: "'w os \<Rightarrow> nat \<Rightarrow> consumer \<Rightarrow> int64 \<times> 'w \<Rightarrow> bool \<times> int64 \<times> 'w" where
  "run_consumer os h (Finish ok) = (\<lambda>s. (ok, s))"
| "run_consumer os h (Ask n go_on) = (\<lambda>s. case bounded_read os h n s of (got, s) \<Rightarrow> run_consumer os h (go_on got) s)"

definition open_source_binding :: "'w os \<Rightarrow> source_binding \<Rightarrow> ('w, verify_error, nat) act" where
  "open_source_binding os b =
     (case sb_open b of
        Some k \<Rightarrow> call (os_open_bound os k) (FileFault OpenContent (sb_path b))
      | None \<Rightarrow> call (os_open os (sb_path b)) (FileFault OpenContent (sb_path b)))"

definition recheck_source_binding :: "'w os \<Rightarrow> source_binding \<Rightarrow> file_info \<Rightarrow> ('w, verify_error, unit) act" where
  "recheck_source_binding os b expected =
     bnd (open_source_binding os b) (\<lambda>h.
     bnd (closing os h (stat_opened_content_path os (sb_path b) h)) (\<lambda>info.
     bnd (close_file os h (sb_path b)) (\<lambda>_.
     guard (same_info expected info) (FileFault ChangedWhileHashing (sb_path b)))))"

text \<open>The callback and the checks after it: the error of the callback comes first.\<close>

definition consume_checked :: "'w os \<Rightarrow> nat \<Rightarrow> file_info \<Rightarrow> consumer \<Rightarrow> 'w \<Rightarrow> verify_error option \<times> 'w" where
  "consume_checked os h before consume w =
     (case run_consumer os h consume (fi_size before, w) of
        (False, (_, w)) \<Rightarrow> (Some ConsumerFailed, w)
      | (True, (remaining, w)) \<Rightarrow>
          if remaining \<noteq> 0 then (Some ConsumerStoppedEarly, w)
          else (case file_read os h 1 w of
                  (Eof, w) \<Rightarrow> (None, w)
                | (_, w) \<Rightarrow> (Some LengthChanged, w)))"

definition consume_open :: "'w os \<Rightarrow> bytes \<Rightarrow> nat \<Rightarrow> file_info \<Rightarrow> consumer \<Rightarrow> ('w, verify_error, unit) act" where
  "consume_open os path h before consume w =
     (let (consumed, w) = consume_checked os h before consume w;
          (after, w) = stat_opened_content_path os path h w;
          (closed, w) = os_close os h w
      in ((case consumed of
             Some e \<Rightarrow> Inl e
           | None \<Rightarrow>
               (case after of
                  Inl e \<Rightarrow> Inl e
                | Inr info \<Rightarrow>
                    if \<not> same_info before info then Inl ConsumedSourceChanged
                    else if \<not> closed then Inl (FileFault CloseContent path) else Inr ())), w))"

definition consume_verified_file :: "golib \<Rightarrow> path_semantics \<Rightarrow> 'w os \<Rightarrow> verified_source \<Rightarrow> int \<Rightarrow> consumer \<Rightarrow>
    ('w, verify_error, source_precondition) act" where
  "consume_verified_file lib sem os source file_index consume =
     (if \<not> vr_verified (vs_result source) \<or> \<not> vr_snapshot_authority (vs_result source) then fail NoSnapshotAuthority
      else bnd (check_ctx os) (\<lambda>_.
        case find_binding (vs_bindings source) file_index of
          None \<Rightarrow> fail (NoPhysicalBinding file_index)
        | Some b \<Rightarrow>
            bnd (open_source_binding os b) (\<lambda>h.
            bnd (closing os h (stat_opened_content_path os (sb_path b) h)) (\<lambda>before.
            bnd (closing os h (guard (snapshot_matches lib sem (vr_snapshots (vs_result source)) (sb_path b) before)
                   NoLongerMatchesProof)) (\<lambda>_.
            bnd (consume_open os (sb_path b) h before consume) (\<lambda>_.
            bnd (recheck_source_binding os b before) (\<lambda>_.
            ret (fi_size before, fi_mtime before))))))))"

section \<open>The root of one file\<close>

record v2_observation =
  vo_pieces_root :: bytes
  vo_bytes_read :: int64
  vo_precondition :: source_precondition

definition observe_v2_file_root :: "golib \<Rightarrow> 'w os \<Rightarrow> bytes \<Rightarrow> int64 \<Rightarrow> nat option \<Rightarrow> ('w, verify_error, v2_observation) act" where
  "observe_v2_file_root lib os path expected_length opener =
     (if expected_length \<le> 0 then fail ObservationNeedsLength
      else if path = [] \<or> \<not> is_abs path then fail ObservationNotAbsolute
      else
        bnd (preflight os [(content_spec (path_clean path) expected_length False)\<lparr>s_open := opener\<rparr>]) (\<lambda>specs.
        let spec = hd specs in
        bnd (open_file_spec os spec) (\<lambda>h.
        bnd (closing os h (
          bnd (stat_opened_content_path os (s_path spec) h) (\<lambda>before.
          bnd (guard (same_snapshot spec before) (FileFault ChangedBeforeHashing (s_path spec))) (\<lambda>_.
          bnd (merkle (next_power_of_two ((expected_length - 1) sdiv v2_block_size + 1))) (\<lambda>target.
          bnd (\<lambda>w. case hash_segment lib os h expected_length target (None, w) of (r, (_, w)) \<Rightarrow> (r, w)) (\<lambda>root.
          bnd (check_after os h (s_path spec) before) (\<lambda>_.
          ret (root, before)))))))) (\<lambda>(root, before).
        bnd (close_file os h (s_path spec)) (\<lambda>_.
        bnd (ensure_stable os specs) (\<lambda>_.
        ret \<lparr>vo_pieces_root = hex_encode root, vo_bytes_read = expected_length,
             vo_precondition = (expected_length, fi_mtime before)\<rparr>))))))"

end
