(* ===== verification/Match.thy ===== *)
theory Match
  imports Source "HOL-Library.Product_Lexorder"
begin

text \<open>
  \<open>internal/metafile/match.go\<close>: the search for files on disk that a manifest describes. Candidate sets are checked
  and cut to the limits, v2 roots filter single files, v1 pieces prune assignments as soon as a completed piece
  disagrees, and a complete assignment is returned only when the ordinary verifier accepts it. The matcher's state is
  threaded through; cloning a SHA-1 state is copying it, which the standard library's implementation supports.
\<close>

section \<open>Limits, statistics and results\<close>

record source_candidate =
  sc_id :: bytes
  sc_rank :: int
  sc_path :: bytes
  sc_open :: "nat option"

record file_candidates =
  fc_index :: int
  fc_candidates :: "source_candidate list"
  fc_edges :: int
  fc_stop :: bytes

record match_limits =
  ml_candidates_per_file :: int
  ml_candidate_edges :: int
  ml_states :: int
  ml_verified_layouts :: int
  ml_proof_work :: int64
  ml_issues :: int

definition default_source_match_limits :: match_limits where
  "default_source_match_limits =
     \<lparr>ml_candidates_per_file = 64, ml_candidate_edges = 50000, ml_states = 10000, ml_verified_layouts = 20,
      ml_proof_work = 2 ^ 40, ml_issues = 50\<rparr>"

datatype match_error =
    LimitOutOfRange bytes | TooManySets | IndexOutsideManifest int | NeedsNoCandidates int | SetDuplicated int
  | SetTooLarge int | EdgesInconsistent int | CandidateEmpty int | CandidateNotAbsolute bytes | CandidateInconsistent bytes

definition limit_checks :: "match_limits \<Rightarrow> (bytes \<times> int \<times> int) list" where
  "limit_checks l =
     [(''max candidates per file'', ml_candidates_per_file l, 256), (''max candidate edges'', ml_candidate_edges l, 250000),
      (''max candidate states'', ml_states l, 100000), (''max verified layouts'', ml_verified_layouts l, 100),
      (''max proof work bytes'', ml_proof_work l, 2 ^ 50), (''max match issues'', ml_issues l, 200)]"

definition validate_limits :: "match_limits \<Rightarrow> match_error + unit" where
  "validate_limits l =
     (case List.find (\<lambda>(name, value, hard). value \<le> 0 \<or> value > hard) (limit_checks l) of
        None \<Rightarrow> Inr ()
      | Some (name, _) \<Rightarrow> Inl (LimitOutOfRange name))"

record match_stats =
  ms_edges :: int
  ms_roots_observed :: int
  ms_candidates_rejected :: int
  ms_states :: int
  ms_full_verifications :: int
  ms_layouts_rejected :: int
  ms_verified_layouts :: int
  ms_work :: int64
  ms_issue_overflow :: int

record match_issue =
  mi_code :: bytes
  mi_candidate :: bytes
  mi_message :: bytes

record matched_binding =
  mb_index :: nat
  mb_candidate :: bytes

record source_match =
  sm_id :: bytes
  sm_bindings :: "matched_binding list"
  sm_verification :: verification_result
  sm_source :: verified_source

record match_result =
  mr_complete :: bool
  mr_limits :: match_limits
  mr_stats :: match_stats
  mr_stop_reasons :: "bytes list"
  mr_issues :: "match_issue list"
  mr_matches :: "source_match list"

record cache_entry =
  ce_path :: bytes
  ce_length :: int64
  ce_root :: bytes
  ce_valid :: bool

record matcher =
  mt_result :: match_result
  mt_by_file :: "nat \<rightharpoonup> source_candidate list"
  mt_cache :: "bytes \<rightharpoonup> cache_entry"
  mt_bindings :: "source_binding list"
  mt_matched :: "matched_binding list"
  mt_stop :: bool

definition empty_stats :: match_stats where
  "empty_stats = \<lparr>ms_edges = 0, ms_roots_observed = 0, ms_candidates_rejected = 0, ms_states = 0, ms_full_verifications = 0,
     ms_layouts_rejected = 0, ms_verified_layouts = 0, ms_work = 0, ms_issue_overflow = 0\<rparr>"

definition initial_result :: "match_limits \<Rightarrow> match_result" where
  "initial_result limits = \<lparr>mr_complete = True, mr_limits = limits, mr_stats = empty_stats, mr_stop_reasons = [], mr_issues = [],
     mr_matches = []\<rparr>"

definition new_matcher :: "match_limits \<Rightarrow> matcher" where
  "new_matcher limits = \<lparr>mt_result = initial_result limits, mt_by_file = Map.empty, mt_cache = Map.empty, mt_bindings = [],
     mt_matched = [], mt_stop = False\<rparr>"

text \<open>The limits are those of the result.\<close>

abbreviation mt_limits :: "matcher \<Rightarrow> match_limits" where
  "mt_limits m \<equiv> mr_limits (mt_result m)"

definition map_stats :: "(match_stats \<Rightarrow> match_stats) \<Rightarrow> matcher \<Rightarrow> matcher" where
  "map_stats f m = m\<lparr>mt_result := (mt_result m)\<lparr>mr_stats := f (mr_stats (mt_result m))\<rparr>\<rparr>"

definition mark_incomplete :: "bytes \<Rightarrow> matcher \<Rightarrow> matcher" where
  "mark_incomplete reason m =
     m\<lparr>mt_result := (mt_result m)\<lparr>mr_complete := False,
        mr_stop_reasons := (if reason \<in> set (mr_stop_reasons (mt_result m)) then mr_stop_reasons (mt_result m)
          else mr_stop_reasons (mt_result m) @ [reason])\<rparr>\<rparr>"

definition halt :: "bytes \<Rightarrow> matcher \<Rightarrow> matcher" where
  "halt reason m = (mark_incomplete reason m)\<lparr>mt_stop := True\<rparr>"

definition add_issue :: "bytes \<Rightarrow> bytes \<Rightarrow> bytes \<Rightarrow> matcher \<Rightarrow> matcher" where
  "add_issue code candidate message m =
     (if int (length (mr_issues (mt_result m))) < ml_issues (mt_limits m)
      then m\<lparr>mt_result := (mt_result m)\<lparr>mr_issues := mr_issues (mt_result m) @
             [\<lparr>mi_code = code, mi_candidate = candidate, mi_message = message\<rparr>]\<rparr>\<rparr>
      else map_stats (\<lambda>s. s\<lparr>ms_issue_overflow := ms_issue_overflow s + 1\<rparr>) m)"

text \<open>\<open>charge\<close> and \<open>enterState\<close>: the flag says whether to go on.\<close>

definition charge :: "int64 \<Rightarrow> bytes \<Rightarrow> matcher \<Rightarrow> bool \<times> matcher" where
  "charge amount reason m =
     (if amount < 0 \<or> amount > ml_proof_work (mt_limits m) - ms_work (mr_stats (mt_result m))
      then (False, halt reason m)
      else (True, map_stats (\<lambda>s. s\<lparr>ms_work := ms_work s + amount\<rparr>) m))"

definition enter_state :: "'w os \<Rightarrow> matcher \<times> 'w \<Rightarrow> bool \<times> matcher \<times> 'w" where
  "enter_state os s =
     (case ctx_done os (snd s) of
        (True, w) \<Rightarrow> (False, (halt ''context_cancelled'' (fst s), w))
      | (False, w) \<Rightarrow>
          if ms_states (mr_stats (mt_result (fst s))) \<ge> ml_states (mt_limits (fst s))
          then (False, (halt ''max_candidate_states'' (fst s), w))
          else (True, (map_stats (\<lambda>t. t\<lparr>ms_states := ms_states t + 1\<rparr>) (fst s), w)))"

definition reject_layout :: "matcher \<Rightarrow> matcher" where
  "reject_layout = map_stats (\<lambda>s. s\<lparr>ms_layouts_rejected := ms_layouts_rejected s + 1\<rparr>)"

section \<open>Preparing the candidate sets\<close>

text \<open>Sets and candidates are sorted; \<open>sort.Slice\<close> leaves the order of equal keys open, here it is kept.\<close>

definition candidate_key :: "source_candidate \<Rightarrow> int \<times> bytes \<times> bytes" where
  "candidate_key c = (sc_rank c, sc_id c, sc_path c)"

fun unique_candidates :: "int \<Rightarrow> int64 \<Rightarrow> source_candidate list \<Rightarrow> (bytes \<rightharpoonup> bytes \<times> int64) \<Rightarrow> source_candidate list \<Rightarrow>
    match_error + (source_candidate list \<times> (bytes \<rightharpoonup> bytes \<times> int64))" where
  "unique_candidates i len [] seen unique = Inr (unique, seen)"
| "unique_candidates i len (c # rest) seen unique =
     (if sc_id c = [] \<or> sc_path c = [] then Inl (CandidateEmpty i)
      else if \<not> is_abs (sc_path c) then Inl (CandidateNotAbsolute (sc_id c))
      else if (case seen (sc_id c) of Some e \<Rightarrow> e \<noteq> (sc_path c, len) | None \<Rightarrow> False) then Inl (CandidateInconsistent (sc_id c))
      else
        let seen = (if seen (sc_id c) = None then seen(sc_id c \<mapsto> (sc_path c, len)) else seen)
        in unique_candidates i len rest seen
             (if unique \<noteq> [] \<and> sc_id (last unique) = sc_id c then unique else unique @ [c]))"

text \<open>The checks of one set: its edge count, or the error.\<close>

definition set_edges :: "meta_info \<Rightarrow> file_candidates \<Rightarrow> int set \<Rightarrow> match_error + int" where
  "set_edges meta fc seen_set =
     (let i = fc_index fc; n = int (length (fc_candidates fc)) in
      if i < 0 \<or> i \<ge> int (length (m_files meta)) then Inl (IndexOutsideManifest i)
      else if is_padding (m_files meta ! nat i) \<or> f_length (m_files meta ! nat i) = 0 then Inl (NeedsNoCandidates i)
      else if i \<in> seen_set then Inl (SetDuplicated i)
      else if n > 257 then Inl (SetTooLarge i)
      else
        let edges = (if fc_edges fc = 0 \<and> fc_stop fc = [] then n else fc_edges fc)
        in if edges < 0 \<or> edges < n \<or> edges > 250001 then Inl (EdgesInconsistent i) else Inr edges)"

definition stop_preparation :: "bytes \<Rightarrow> matcher \<Rightarrow> matcher" where
  "stop_preparation reason m =
     (if reason = [] then m
      else if reason = ''context_cancelled'' then halt reason m else mark_incomplete reason m)"

definition count_edges :: "int \<Rightarrow> matcher \<Rightarrow> matcher" where
  "count_edges edges m =
     (if ms_edges (mr_stats (mt_result m)) \<le> ml_candidate_edges (mt_limits m)
      then map_stats (\<lambda>s. s\<lparr>ms_edges := ms_edges s + min edges (ml_candidate_edges (mt_limits m) + 1 - ms_edges s)\<rparr>) m
      else m)"

definition take_int :: "int \<Rightarrow> 'a list \<Rightarrow> 'a list" where
  "take_int n xs = (if int (length xs) > n then take (nat n) xs else xs)"

fun prepare_sets :: "meta_info \<Rightarrow> file_candidates list \<Rightarrow> int set \<Rightarrow> (bytes \<rightharpoonup> bytes \<times> int64) \<Rightarrow> int \<Rightarrow> matcher \<Rightarrow>
    match_error option \<times> matcher" where
  "prepare_sets meta [] seen_set seen_id edges_remaining m = (None, m)"
| "prepare_sets meta (fc # rest) seen_set seen_id edges_remaining m =
     (case set_edges meta fc seen_set of
        Inl e \<Rightarrow> (Some e, m)
      | Inr edges \<Rightarrow>
          let i = fc_index fc; seen_set = insert i seen_set;
              m = stop_preparation (fc_stop fc) m;
              allowed = min edges edges_remaining;
              m = (if edges > edges_remaining then mark_incomplete ''max_candidate_edges'' m else m);
              m = count_edges edges m
          in if edges_remaining = 0 \<or> mt_stop m
             then prepare_sets meta rest seen_set seen_id edges_remaining (m\<lparr>mt_by_file := (mt_by_file m)(nat i \<mapsto> [])\<rparr>)
             else
               (case unique_candidates i (f_length (m_files meta ! nat i)) (sort_key candidate_key (fc_candidates fc)) seen_id [] of
                  Inl e \<Rightarrow> (Some e, m)
                | Inr (unique, seen_id) \<Rightarrow>
                    let m = (if int (length unique) > ml_candidates_per_file (mt_limits m)
                             then mark_incomplete ''max_candidates_per_file'' m else m);
                        unique = take_int allowed (take_int (ml_candidates_per_file (mt_limits m)) unique)
                    in prepare_sets meta rest seen_set seen_id (edges_remaining - allowed)
                         (m\<lparr>mt_by_file := (mt_by_file m)(nat i \<mapsto> unique)\<rparr>)))"

text \<open>Every entry that needs candidates gets a list.\<close>

definition needs_candidates :: "file_entry \<Rightarrow> bool" where
  "needs_candidates entry \<longleftrightarrow> \<not> is_padding entry \<and> f_length entry \<noteq> 0"

definition fill_missing :: "meta_info \<Rightarrow> matcher \<Rightarrow> matcher" where
  "fill_missing meta m =
     m\<lparr>mt_by_file := (\<lambda>i. if i < length (m_files meta) \<and> needs_candidates (m_files meta ! i) \<and> mt_by_file m i = None
        then Some [] else mt_by_file m i)\<rparr>"

definition prepare :: "meta_info \<Rightarrow> file_candidates list \<Rightarrow> matcher \<Rightarrow> match_error option \<times> matcher" where
  "prepare meta sets m =
     (if length sets > length (m_files meta) then (Some TooManySets, m)
      else (case prepare_sets meta (sort_key fc_index sets) {} Map.empty (ml_candidate_edges (mt_limits m)) m of
              (Some e, m) \<Rightarrow> (Some e, m)
            | (None, m) \<Rightarrow> (None, fill_missing meta m)))"

definition candidates_of :: "matcher \<Rightarrow> nat \<Rightarrow> source_candidate list" where
  "candidates_of m i = (case mt_by_file m i of None \<Rightarrow> [] | Some cs \<Rightarrow> cs)"

definition has_missing_candidates :: "meta_info \<Rightarrow> matcher \<Rightarrow> bool" where
  "has_missing_candidates meta m \<longleftrightarrow>
     list_ex (\<lambda>(i, entry). needs_candidates entry \<and> candidates_of m i = []) (zip [0..<length (m_files meta)] (m_files meta))"

section \<open>Filtering by v2 roots\<close>

text \<open>
  \<open>errors.Is(err, context.Canceled)\<close> or \<open>DeadlineExceeded\<close>: the errors that wrap the context's. An error of opening
  or of asking for a file's state is taken not to wrap it.
\<close>

fun context_error :: "verify_error \<Rightarrow> bool" where
  "context_error Cancelled = True"
| "context_error (ReadPiece i e) = context_error e"
| "context_error (SegmentFailed SegmentCancelled) = True"
| "context_error (SegmentFailed (SegmentRead e)) = context_error e"
| "context_error e = False"

abbreviation observation_message :: bytes where
  "observation_message \<equiv> ''candidate changed or could not be read''"

text \<open>The candidates of one entry: \<open>filtered\<close> is what passed so far.\<close>

fun filter_candidates :: "golib \<Rightarrow> 'w os \<Rightarrow> file_entry \<Rightarrow> source_candidate list \<Rightarrow> source_candidate list \<Rightarrow> matcher \<times> 'w \<Rightarrow>
    source_candidate list \<times> matcher \<times> 'w" where
  "filter_candidates lib os entry [] filtered s = (filtered, s)"
| "filter_candidates lib os entry (c # cs) filtered (m, w) =
     (let decide = (\<lambda>e m w.
        if ce_valid e \<and> ce_root e = f_pieces_root entry then filter_candidates lib os entry cs (filtered @ [c]) (m, w)
        else if ce_valid e
        then filter_candidates lib os entry cs filtered
               (map_stats (\<lambda>t. t\<lparr>ms_candidates_rejected := ms_candidates_rejected t + 1\<rparr>) m, w)
        else filter_candidates lib os entry cs filtered (m, w))
      in if mt_stop m then (filtered, (m, w))
         else (case mt_cache m (sc_id c) of
                 Some e \<Rightarrow> decide e m w
               | None \<Rightarrow>
                   (case charge (f_length entry) ''max_proof_work_bytes'' m of
                      (False, m) \<Rightarrow> (filtered, (m, w))
                    | (True, m) \<Rightarrow>
                        (case observe_v2_file_root lib os (sc_path c) (f_length entry) (sc_open c) w of
                           (outcome, w) \<Rightarrow>
                             let m = map_stats (\<lambda>t. t\<lparr>ms_roots_observed := ms_roots_observed t + 1\<rparr>) m in
                             (case outcome of
                                Inl e \<Rightarrow>
                                  if context_error e then (filtered, (halt ''context_cancelled'' m, w))
                                  else
                                    let m = add_issue ''candidate.v2_observation'' (sc_id c) observation_message
                                              (mark_incomplete ''candidate_io_error'' m)
                                    in filter_candidates lib os entry cs filtered
                                         (m\<lparr>mt_cache := (mt_cache m)(sc_id c \<mapsto>
                                            \<lparr>ce_path = sc_path c, ce_length = f_length entry, ce_root = [], ce_valid = False\<rparr>)\<rparr>, w)
                              | Inr observation \<Rightarrow>
                                  let e = \<lparr>ce_path = sc_path c, ce_length = f_length entry,
                                           ce_root = vo_pieces_root observation, ce_valid = True\<rparr>
                                  in decide e (m\<lparr>mt_cache := (mt_cache m)(sc_id c \<mapsto> e)\<rparr>) w)))))"

fun filter_v2 :: "golib \<Rightarrow> 'w os \<Rightarrow> nat \<Rightarrow> file_entry list \<Rightarrow> matcher \<times> 'w \<Rightarrow> matcher \<times> 'w" where
  "filter_v2 lib os i [] s = s"
| "filter_v2 lib os i (entry # rest) s =
     (if mt_stop (fst s) then s
      else if \<not> needs_candidates entry then filter_v2 lib os (i + 1) rest s
      else (case filter_candidates lib os entry (candidates_of (fst s) i) [] s of
              (filtered, (m, w)) \<Rightarrow>
                filter_v2 lib os (i + 1) rest (m\<lparr>mt_by_file := (mt_by_file m)(i \<mapsto> filtered)\<rparr>, w)))"

section \<open>The v1 candidate state\<close>

record v1_state =
  cs_piece_index :: nat
  cs_piece_bytes :: int64
  cs_hasher :: bytes

definition new_v1_state :: v1_state where
  "new_v1_state = \<lparr>cs_piece_index = 0, cs_piece_bytes = 0, cs_hasher = []\<rparr>"

text \<open>\<open>finishV1Piece\<close>: \<open>None\<close> when the piece is not the manifest's.\<close>

definition finish_v1_piece :: "golib \<Rightarrow> meta_info \<Rightarrow> v1_state \<Rightarrow> v1_state option" where
  "finish_v1_piece lib meta st =
     (if length (m_piece_hashes meta) \<le> cs_piece_index st then None
      else if gl_sha1 lib (cs_hasher st) \<noteq> m_piece_hashes meta ! cs_piece_index st then None
      else Some (st\<lparr>cs_piece_index := cs_piece_index st + 1, cs_piece_bytes := 0, cs_hasher := []\<rparr>))"

text \<open>\<open>feedV1\<close>: an error, or the state after the data if every piece it completes matches.\<close>

function feed_v1 :: "golib \<Rightarrow> meta_info \<Rightarrow> bytes \<Rightarrow> v1_state \<Rightarrow> verify_error + v1_state option" where
  "feed_v1 lib meta data st =
     (if data = [] then Inr (Some st)
      else
        let remaining = m_piece_length meta - cs_piece_bytes st in
        if remaining \<le> 0 then Inl PieceBoundary
        else
          let chunk = (if int (length data) > remaining then nat remaining else length data);
              st = st\<lparr>cs_hasher := cs_hasher st @ take chunk data, cs_piece_bytes := cs_piece_bytes st + int chunk\<rparr>
          in if cs_piece_bytes st = m_piece_length meta then
               (case finish_v1_piece lib meta st of
                  None \<Rightarrow> Inr None
                | Some st \<Rightarrow> feed_v1 lib meta (drop chunk data) st)
             else feed_v1 lib meta (drop chunk data) st)"
  by pat_completeness auto
termination feed_v1
  by (relation "measure (\<lambda>(_, _, data, _). length data)") auto

declare feed_v1.simps [simp del]

text \<open>\<open>advanceV1Zeros\<close> with a buffer of 16 KiB.\<close>

function advance_v1_zeros :: "golib \<Rightarrow> 'w os \<Rightarrow> meta_info \<Rightarrow> int64 \<Rightarrow> v1_state \<Rightarrow> ('w, verify_error, v1_state option) act" where
  "advance_v1_zeros lib os meta count st w =
     (if count \<le> 0 then (Inr (Some st), w)
      else
        (case check_ctx os w of
           (Inl e, w) \<Rightarrow> (Inl e, w)
         | (Inr _, w) \<Rightarrow>
             let chunk = (if count < 16384 then count else 16384) in
             (case feed_v1 lib meta (replicate (nat chunk) NUL) st of
                Inl e \<Rightarrow> (Inl e, w)
              | Inr None \<Rightarrow> (Inr None, w)
              | Inr (Some st) \<Rightarrow> advance_v1_zeros lib os meta (count - chunk) st w)))"
  by pat_completeness auto
termination advance_v1_zeros
  by (relation "measure (\<lambda>(_, _, _, count, _). nat count)") auto

declare advance_v1_zeros.simps [simp del]

text \<open>The reading loop of \<open>advanceV1File\<close>, 256 KiB at a time, until a piece disagrees.\<close>

function feed_v1_file :: "golib \<Rightarrow> 'w os \<Rightarrow> meta_info \<Rightarrow> nat \<Rightarrow> int64 \<Rightarrow> v1_state \<Rightarrow> ('w, verify_error, v1_state option) act" where
  "feed_v1_file lib os meta h remaining st w =
     (if remaining \<le> 0 then (Inr (Some st), w)
      else
        (case check_ctx os w of
           (Inl e, w) \<Rightarrow> (Inl e, w)
         | (Inr _, w) \<Rightarrow>
             let chunk = (if remaining < 262144 then remaining else 262144) in
             (case read_full (file_reader os h) (nat chunk) [] w of
                (Inl e, w) \<Rightarrow> (Inl e, w)
              | (Inr data, w) \<Rightarrow>
                  (case feed_v1 lib meta data st of
                     Inl e \<Rightarrow> (Inl e, w)
                   | Inr None \<Rightarrow> (Inr None, w)
                   | Inr (Some st) \<Rightarrow> feed_v1_file lib os meta h (remaining - chunk) st w))))"
  by pat_completeness auto
termination feed_v1_file
  by (relation "measure (\<lambda>(_, _, _, _, remaining, _). nat remaining)") auto

declare feed_v1_file.simps [simp del]

definition advance_v1_file :: "golib \<Rightarrow> 'w os \<Rightarrow> meta_info \<Rightarrow> source_candidate \<Rightarrow> int64 \<Rightarrow> v1_state \<Rightarrow>
    ('w, verify_error, v1_state option) act" where
  "advance_v1_file lib os meta c len st =
     bnd (preflight os [(content_spec (sc_path c) len False)\<lparr>s_open := sc_open c\<rparr>]) (\<lambda>specs.
     let spec = hd specs in
     bnd (open_file_spec os spec) (\<lambda>h.
     bnd (closing os h (
       bnd (stat_opened_content_path os (s_path spec) h) (\<lambda>before.
       bnd (guard (same_snapshot spec before) (FileFault ChangedBeforeHashing (s_path spec))) (\<lambda>_.
       bnd (feed_v1_file lib os meta h len st) (\<lambda>next_state.
       bnd (if next_state = None then ret ()
            else (\<lambda>w. case file_read os h 1 w of
                    (Eof, w) \<Rightarrow> (Inr (), w)
                  | (_, w) \<Rightarrow> (Inl ContentBeyondManifest, w))) (\<lambda>_.
       ret (before, next_state))))))) (\<lambda>(before, next_state) w.
     let (after, w) = os_fstat os h w;
         (closed, w) = os_close os h w
     in ((case after of
            None \<Rightarrow> Inl (FileFault StatContent (s_path spec))
          | Some info \<Rightarrow>
              if \<not> same_info before info then Inl (FileFault ChangedWhileHashing (s_path spec))
              else if \<not> closed then Inl (FileFault CloseContent (s_path spec)) else Inr next_state), w))))"

definition finish_v1_state :: "golib \<Rightarrow> meta_info \<Rightarrow> v1_state \<Rightarrow> bool" where
  "finish_v1_state lib meta st =
     (case (if cs_piece_bytes st > 0 then finish_v1_piece lib meta st else Some st) of
        None \<Rightarrow> False
      | Some st \<Rightarrow> cs_piece_index st = length (m_piece_hashes meta))"

section \<open>Verifying a layout\<close>

definition full_verification_work_bytes :: "meta_info \<Rightarrow> int64" where
  "full_verification_work_bytes meta =
     foldl (\<lambda>total entry.
       if f_length entry = 0 \<or> (m_info_hash_v1 meta = [] \<and> is_padding entry) then total
       else if total = max_int64 \<or> total > max_int64 - f_length entry then max_int64
       else total + f_length entry) 0 (m_files meta)"

definition source_match_id :: "golib \<Rightarrow> bytes \<Rightarrow> matched_binding list \<Rightarrow> bytes" where
  "source_match_id lib variant bindings =
     ''sha256:'' @ hex_encode (gl_sha256 lib (variant @ [CHR 0x0A] @
       concat (map (\<lambda>b. render_int (int (mb_index b)) @ NUL # mb_candidate b @ [CHR 0x0A]) bindings)))"

definition verify_layout :: "golib \<Rightarrow> 'w os \<Rightarrow> meta_info \<Rightarrow> matcher \<times> 'w \<Rightarrow> matcher \<times> 'w" where
  "verify_layout lib os meta s =
     (if mt_stop (fst s) then s
      else
        (case charge (full_verification_work_bytes meta) ''max_proof_work_bytes'' (fst s) of
           (False, m) \<Rightarrow> (m, snd s)
         | (True, m) \<Rightarrow>
             let m = map_stats (\<lambda>t. t\<lparr>ms_full_verifications := ms_full_verifications t + 1\<rparr>) m in
             (case verify_source_map lib os meta (mt_bindings m) (snd s) of
                (Inl e, w) \<Rightarrow>
                  if context_error e then (halt ''context_cancelled'' m, w)
                  else (add_issue ''candidate.final_verification'' []
                          ''source layout changed or could not be read during final verification''
                          (mark_incomplete ''candidate_io_error'' m), w)
              | (Inr verified, w) \<Rightarrow>
                  if \<not> vr_verified (vs_result verified) then (reject_layout m, w)
                  else
                    let m = map_stats (\<lambda>t. t\<lparr>ms_verified_layouts := ms_verified_layouts t + 1\<rparr>) m in
                    if ms_verified_layouts (mr_stats (mt_result m)) > ml_verified_layouts (mt_limits m)
                    then (halt ''max_verified_layouts'' m, w)
                    else
                      let bs = sort_key mb_index (mt_matched m)
                      in (m\<lparr>mt_result := (mt_result m)\<lparr>mr_matches := mr_matches (mt_result m) @
                           [\<lparr>sm_id = source_match_id lib (m_variant_id meta) bs, sm_bindings = bs,
                             sm_verification = vs_result verified, sm_source = verified\<rparr>]\<rparr>\<rparr>, w))))"

section \<open>The search\<close>

definition push_binding :: "nat \<Rightarrow> source_candidate \<Rightarrow> matcher \<Rightarrow> matcher" where
  "push_binding i c m =
     m\<lparr>mt_bindings := mt_bindings m @ [\<lparr>sb_index = int i, sb_path = sc_path c, sb_open = sc_open c\<rparr>],
       mt_matched := mt_matched m @ [\<lparr>mb_index = i, mb_candidate = sc_id c\<rparr>]\<rparr>"

definition pop_binding :: "matcher \<Rightarrow> matcher" where
  "pop_binding m = m\<lparr>mt_bindings := butlast (mt_bindings m), mt_matched := butlast (mt_matched m)\<rparr>"

text \<open>The poll at the entry of both searches; \<open>k\<close> is the body.\<close>

definition search_entry :: "'w os \<Rightarrow> (matcher \<times> 'w \<Rightarrow> matcher \<times> 'w) \<Rightarrow> matcher \<times> 'w \<Rightarrow> matcher \<times> 'w" where
  "search_entry os k s =
     (if mt_stop (fst s) then s
      else (case ctx_done os (snd s) of
              (True, w) \<Rightarrow> (halt ''context_cancelled'' (fst s), w)
            | (False, w) \<Rightarrow> k (fst s, w)))"

text \<open>The loop over the candidates of entry \<open>i\<close>; \<open>go_on\<close> searches the entries after it.\<close>

fun v1_candidates :: "golib \<Rightarrow> 'w os \<Rightarrow> meta_info \<Rightarrow> nat \<Rightarrow> file_entry \<Rightarrow> v1_state \<Rightarrow>
    (v1_state \<Rightarrow> matcher \<times> 'w \<Rightarrow> matcher \<times> 'w) \<Rightarrow> source_candidate list \<Rightarrow> matcher \<times> 'w \<Rightarrow> matcher \<times> 'w" where
  "v1_candidates lib os meta i entry st go_on [] s = s"
| "v1_candidates lib os meta i entry st go_on (c # cs) s =
     (if mt_stop (fst s) then s
      else
        (case enter_state os s of
           (False, s) \<Rightarrow> s
         | (True, (m, w)) \<Rightarrow>
             (case charge (f_length entry) ''max_proof_work_bytes'' m of
                (False, m) \<Rightarrow> (m, w)
              | (True, m) \<Rightarrow>
                  (case advance_v1_file lib os meta c (f_length entry) st w of
                     (Inl e, w) \<Rightarrow>
                       if context_error e then (halt ''context_cancelled'' m, w)
                       else v1_candidates lib os meta i entry st go_on cs
                              (add_issue ''candidate.v1_observation'' (sc_id c) observation_message
                                 (mark_incomplete ''candidate_io_error'' m), w)
                   | (Inr None, w) \<Rightarrow> v1_candidates lib os meta i entry st go_on cs (reject_layout m, w)
                   | (Inr (Some st'), w) \<Rightarrow>
                       (case go_on st' (push_binding i c m, w) of
                          (m, w) \<Rightarrow> v1_candidates lib os meta i entry st go_on cs (pop_binding m, w))))))"

primrec search_v1 :: "golib \<Rightarrow> 'w os \<Rightarrow> meta_info \<Rightarrow> file_entry list \<Rightarrow> nat \<Rightarrow> v1_state \<Rightarrow> matcher \<times> 'w \<Rightarrow> matcher \<times> 'w" where
  "search_v1 lib os meta [] = (\<lambda>i st. search_entry os (\<lambda>s.
     if finish_v1_state lib meta st then verify_layout lib os meta s else (reject_layout (fst s), snd s)))"
| "search_v1 lib os meta (entry # rest) = (\<lambda>i st. search_entry os (\<lambda>s.
     if is_padding entry then
       (case enter_state os s of
          (False, s) \<Rightarrow> s
        | (True, (m, w)) \<Rightarrow>
            (case charge (f_length entry) ''max_proof_work_bytes'' m of
               (False, m) \<Rightarrow> (m, w)
             | (True, m) \<Rightarrow>
                 (case advance_v1_zeros lib os meta (f_length entry) st w of
                    (Inl e, w) \<Rightarrow>
                      ((add_issue ''solver.v1_padding'' [] ''virtual padding could not be evaluated''
                         (mark_incomplete ''v1_padding_error'' m))\<lparr>mt_stop := True\<rparr>, w)
                  | (Inr None, w) \<Rightarrow> (reject_layout m, w)
                  | (Inr (Some st), w) \<Rightarrow> search_v1 lib os meta rest (i + 1) st (m, w))))
     else if f_length entry = 0 then
       (case enter_state os s of
          (False, s) \<Rightarrow> s
        | (True, s) \<Rightarrow> search_v1 lib os meta rest (i + 1) st s)
     else v1_candidates lib os meta i entry st (search_v1 lib os meta rest (i + 1)) (candidates_of (fst s) i) s))"

fun v2_candidates :: "'w os \<Rightarrow> nat \<Rightarrow> (matcher \<times> 'w \<Rightarrow> matcher \<times> 'w) \<Rightarrow> source_candidate list \<Rightarrow> matcher \<times> 'w \<Rightarrow> matcher \<times> 'w" where
  "v2_candidates os i go_on [] s = s"
| "v2_candidates os i go_on (c # cs) s =
     (if mt_stop (fst s) then s
      else
        (case enter_state os s of
           (False, s) \<Rightarrow> s
         | (True, (m, w)) \<Rightarrow>
             (case go_on (push_binding i c m, w) of
                (m, w) \<Rightarrow> v2_candidates os i go_on cs (pop_binding m, w))))"

primrec search_v2_layouts :: "golib \<Rightarrow> 'w os \<Rightarrow> meta_info \<Rightarrow> file_entry list \<Rightarrow> nat \<Rightarrow> matcher \<times> 'w \<Rightarrow> matcher \<times> 'w" where
  "search_v2_layouts lib os meta [] = (\<lambda>i. search_entry os (verify_layout lib os meta))"
| "search_v2_layouts lib os meta (entry # rest) = (\<lambda>i. search_entry os (\<lambda>s.
     if \<not> needs_candidates entry then
       (case enter_state os s of
          (False, s) \<Rightarrow> s
        | (True, s) \<Rightarrow> search_v2_layouts lib os meta rest (i + 1) s)
     else v2_candidates os i (search_v2_layouts lib os meta rest (i + 1)) (candidates_of (fst s) i) s))"

definition finish_matching :: "matcher \<Rightarrow> match_result" where
  "finish_matching m =
     (mt_result m)\<lparr>mr_stop_reasons := sort (mr_stop_reasons (mt_result m)), mr_matches := sort_key sm_id (mr_matches (mt_result m))\<rparr>"

definition run_search :: "golib \<Rightarrow> 'w os \<Rightarrow> meta_info \<Rightarrow> matcher \<times> 'w \<Rightarrow> matcher \<times> 'w" where
  "run_search lib os meta s =
     (let s = (if m_info_hash_v2 meta \<noteq> [] then filter_v2 lib os 0 (m_files meta) s else s)
      in if mt_stop (fst s) \<or> has_missing_candidates meta (fst s) then s
         else if m_info_hash_v1 meta \<noteq> [] then search_v1 lib os meta (m_files meta) 0 new_v1_state s
         else search_v2_layouts lib os meta (m_files meta) 0 s)"

definition match_source_candidates :: "golib \<Rightarrow> 'w os \<Rightarrow> meta_info \<Rightarrow> file_candidates list \<Rightarrow> match_limits \<Rightarrow> 'w \<Rightarrow>
    (match_result \<times> match_error option) \<times> 'w" where
  "match_source_candidates lib os meta sets limits w =
     (case validate_limits limits of
        Inl e \<Rightarrow> ((initial_result limits, Some e), w)
      | Inr _ \<Rightarrow>
          if int (length (m_files meta)) > ml_states limits
          then (((initial_result limits)\<lparr>mr_complete := False, mr_stop_reasons := [''max_candidate_states'']\<rparr>, None), w)
          else
            (case prepare meta sets (new_matcher limits) of
               (Some e, m) \<Rightarrow> ((mt_result m, Some e), w)
             | (None, m) \<Rightarrow>
                 (case ctx_done os w of
                    (stop, w) \<Rightarrow>
                      let m = (if stop then halt ''context_cancelled'' m else m)
                      in if mt_stop m then ((finish_matching m, None), w)
                         else (case run_search lib os meta (m, w) of (m, w) \<Rightarrow> ((finish_matching m, None), w)))))"

end
