(* ===== verification/OsInvariant.thy ===== *)
theory OsInvariant
  imports Match
begin

text \<open>
  Invariants of the system under the verifiers: a predicate on the system's state that every call of the operating
  system keeps is kept by every function of \<open>Verify\<close>, \<open>VerifyV2\<close>, \<open>Source\<close> and \<open>Match\<close> that reads content,
  whatever it returns. The growth of the log of \<open>logging\<close> is the instance that places the reads of a successful
  verification in the log of a longer run.
\<close>

section \<open>Actions that keep a predicate\<close>

definition keeps :: "('s \<Rightarrow> bool) \<Rightarrow> ('s \<Rightarrow> 'r \<times> 's) \<Rightarrow> bool" where
  "keeps P f \<longleftrightarrow> (\<forall>s. P s \<longrightarrow> P (snd (f s)))"

named_theorems keeps_intros

lemma keepsI: "(\<And>s r s'. P s \<Longrightarrow> f s = (r, s') \<Longrightarrow> P s') \<Longrightarrow> keeps P f"
  unfolding keeps_def by (metis prod.collapse)

lemma keepsD: "keeps P f \<Longrightarrow> f s = (r, s') \<Longrightarrow> P s \<Longrightarrow> P s'"
  by (force simp: keeps_def)

lemma keeps_ret [keeps_intros]: "keeps P (ret x)"
  by (simp add: keeps_def ret_def)

lemma keeps_fail [keeps_intros]: "keeps P (fail e)"
  by (simp add: keeps_def fail_def)

lemma keeps_guard [keeps_intros]: "keeps P (guard b e)"
  by (simp add: guard_def keeps_intros)

lemma keeps_bnd [keeps_intros]:
  assumes "keeps P m" "\<And>x. keeps P (f x)"
  shows "keeps P (bnd m f)"
  by (rule keepsI) (auto simp: bnd_def elim!: keepsD [OF assms(1)] keepsD [OF assms(2)] split: prod.splits sum.splits)

lemma keeps_call [keeps_intros]:
  assumes "keeps P f"
  shows "keeps P (call f e)"
  by (rule keepsI) (auto simp: call_def elim!: keepsD [OF assms] split: prod.splits option.splits)

lemma keeps_if [keeps_intros]: "(b \<Longrightarrow> keeps P f) \<Longrightarrow> (\<not> b \<Longrightarrow> keeps P g) \<Longrightarrow> keeps P (if b then f else g)"
  by simp

lemma keeps_option [keeps_intros]:
  "(x = None \<Longrightarrow> keeps P f) \<Longrightarrow> (\<And>y. x = Some y \<Longrightarrow> keeps P (g y)) \<Longrightarrow> keeps P (case x of None \<Rightarrow> f | Some y \<Rightarrow> g y)"
  by (cases x) simp_all

lemma keeps_sum [keeps_intros]:
  "(\<And>e. x = Inl e \<Longrightarrow> keeps P (f e)) \<Longrightarrow> (\<And>y. x = Inr y \<Longrightarrow> keeps P (g y)) \<Longrightarrow> keeps P (case x of Inl e \<Rightarrow> f e | Inr y \<Rightarrow> g y)"
  by (cases x) simp_all

lemma keeps_prod [keeps_intros]: "(\<And>a b. keeps P (f a b)) \<Longrightarrow> keeps P (case x of (a, b) \<Rightarrow> f a b)"
  by (cases x) simp

lemma keeps_on_system [keeps_intros]:
  assumes "keeps P m"
  shows "keeps (\<lambda>s. P (snd s)) (on_system m)"
  by (rule keepsI) (auto simp: on_system_def elim!: keepsD [OF assms] split: prod.splits)

lemma keeps_merkle [keeps_intros]: "keeps P (merkle m)"
  by (auto simp: keeps_def merkle_def split: sum.splits)

text \<open>Reading in full keeps what the reader keeps.\<close>

lemma read_full_keeps:
  assumes "\<And>n. keeps P (read n)"
  shows "P s \<Longrightarrow> P (snd (read_full read need got s))"
proof (induction need arbitrary: got s rule: less_induct)
  case (less need)
  obtain b status s1 where r: "read need s = ((b, status), s1)" by (metis prod.collapse)
  from keepsD [OF assms r less.prems] have "P s1" .
  then show ?case
    using less.IH [of "need - length b" s1 "got @ b"] less.prems r
    by (auto simp: read_full.simps [of _ need] split: read_status.splits)
qed

lemma keeps_read_full [keeps_intros]: "(\<And>n. keeps P (read n)) \<Longrightarrow> keeps P (read_full read need got)"
  unfolding keeps_def [of P "read_full read need got"] by (auto intro: read_full_keeps)

lemma segment_loop_keeps:
  assumes "keeps P (io_poll io)" "\<And>n. keeps P (io_read_full io n)"
  shows "P s \<Longrightarrow> P (snd (segment_loop lib io leaves remaining a s))"
  using assms
proof (induction lib io leaves remaining a s rule: segment_loop.induct)
  case (1 lib io leaves remaining a s)
  show ?case
  proof (cases "leaves \<le> 0")
    case True
    with 1 show ?thesis by (simp add: segment_loop.simps)
  next
    case run: False
    obtain stop s1 where poll: "io_poll io s = (stop, s1)" by fastforce
    let ?n = "if remaining < v2_block_size then remaining else v2_block_size"
    obtain block s2 where read: "io_read_full io (nat ?n) s1 = (block, s2)" by fastforce
    have s1: "P s1" using keepsD [OF "1.prems"(2) poll "1.prems"(1)] .
    have s2: "P s2" using keepsD [OF "1.prems"(3) read s1] .
    show ?thesis
      using 1 run poll read s1 s2
      by (cases stop; cases block) (auto simp: segment_loop.simps [of _ _ leaves] Let_def split: sum.splits)
  qed
qed

lemma keeps_hash_v2_segment [keeps_intros]:
  assumes "keeps P (io_poll io)" "\<And>n. keeps P (io_read_full io n)"
  shows "keeps P (hash_v2_segment lib io data_bytes target_leaves buffer_len)"
  using segment_loop_keeps [OF assms] unfolding keeps_def
  by (auto simp: hash_v2_segment_def Let_def dest!: prod_eqI split: prod.splits sum.splits) (metis snd_conv)+

section \<open>The functions that read\<close>

locale os_invariant =
  fixes os :: "'w os" and P :: "'w \<Rightarrow> bool"
  assumes ctx: "keeps P (ctx_done os)"
    and os_open: "keeps P (os_open os p)"
    and open_bound: "keeps P (os_open_bound os k)"
    and fstat: "keeps P (os_fstat os h)"
    and lstat: "keeps P (os_lstat os p)"
    and stat: "keeps P (os_stat os p)"
    and read: "keeps P (os_read os h n)"
    and close: "keeps P (os_close os h)"
begin

lemmas calls [keeps_intros] = ctx os_open open_bound fstat lstat stat read close

abbreviation keeping :: "('w \<Rightarrow> 'r \<times> 'w) \<Rightarrow> bool" where
  "keeping \<equiv> keeps P"

abbreviation keeping_part :: "('t \<times> 'w \<Rightarrow> 'r \<times> 't \<times> 'w) \<Rightarrow> bool" where
  "keeping_part \<equiv> keeps (\<lambda>s. P (snd s))"

lemma check_ctx_keeps [keeps_intros]: "keeping (check_ctx os)"
  by (rule keepsI) (auto simp: check_ctx_def elim!: keepsD [OF ctx] split: prod.splits bool.splits)

lemma close_file_keeps [keeps_intros]: "keeping (close_file os h path)"
  by (rule keepsI) (auto simp: close_file_def elim!: keepsD [OF close] split: prod.splits)

lemma closed: "P w \<Longrightarrow> P (snd (os_close os h w))"
  using close by (simp add: keeps_def)

lemma closing_keeps [keeps_intros]:
  assumes "keeping m"
  shows "keeping (closing os h m)"
  by (rule keepsI) (auto simp: closing_def intro!: closed elim!: keepsD [OF assms] split: prod.splits sum.splits)

lemma file_read_keeps [keeps_intros]: "keeping (file_read os h n)"
  by (rule keepsI) (auto simp: file_read_def elim!: keepsD [OF read] split: prod.splits read_result.splits)

lemma file_reader_keeps [keeps_intros]: "keeping (file_reader os h n)"
  by (rule keepsI) (auto simp: file_reader_def elim!: keepsD [OF file_read_keeps] split: prod.splits read_result.splits)

lemma open_file_spec_keeps [keeps_intros]: "keeping (open_file_spec os spec)"
  unfolding open_file_spec_def by (intro keeps_intros)

lemma stat_opened_content_path_keeps [keeps_intros]: "keeping (stat_opened_content_path os path h)"
  unfolding stat_opened_content_path_def by (intro keeps_intros)

lemma close_after_keeps [keeps_intros]:
  assumes "keeping m" "\<And>x. keeping (k x)"
  shows "keeping (\<lambda>w. case m w of (Inl e, w) \<Rightarrow> (Inl e, snd (os_close os h w)) | (Inr x, w) \<Rightarrow> k x w)"
  by (rule keepsI)
    (auto intro!: closed elim!: keepsD [OF assms(1)] keepsD [OF assms(2)] split: prod.splits sum.splits)

lemma inspect_bound_keeps [keeps_intros]: "keeping (inspect_bound os k path)"
  unfolding inspect_bound_def by (intro keeps_intros)

lemma preflight_spec_keeps [keeps_intros]: "keeping (preflight_spec os spec)"
  unfolding preflight_spec_def by (intro keeps_intros)

lemma preflight_keeps [keeps_intros]: "keeping (preflight os specs)"
  by (induction specs) (simp_all add: keeps_intros)

lemma ensure_stable_keeps [keeps_intros]: "keeping (ensure_stable os specs)"
  by (induction specs) (auto intro!: keeps_intros)

text \<open>The sequence reader.\<close>

lemma seq_advance_keeps: "seq_advance os specs r w = (e, r', w') \<Longrightarrow> P w \<Longrightarrow> P w'"
  by (auto simp: seq_advance_def Let_def elim!: keepsD [OF close] keepsD [OF fstat] split: prod.splits option.splits)

lemma seq_open_keeps [keeps_intros]: "keeping (seq_open os spec r)"
  unfolding seq_open_def Let_def by (intro keeps_intros)

lemma seq_deliver_keeps:
  assumes "P w"
  shows "P (snd (snd (if c then (case seq_advance os specs r w of
                    (Some e, r, w) \<Rightarrow> ((b, Failed e), r, w)
                  | (None, r, w) \<Rightarrow> ((b, Ok), r, w))
            else ((b, Ok), r, w))))"
  using assms by (auto elim!: seq_advance_keeps split: prod.splits option.splits)

lemma seq_take_keeps:
  assumes "P w"
  shows "P (snd (snd (seq_take os specs n r w)))"
proof (cases "s_padding (specs ! sr_index r) \<or> sr_current r = None")
  case True
  with assms show ?thesis unfolding seq_take_def Let_def
    by (cases "s_padding (specs ! sr_index r)") (simp_all add: seq_deliver_keeps split del: if_split)
next
  case False
  then obtain h where h: "sr_current r = Some h" by auto
  obtain got w1 where read: "file_read os h (nat (if sr_remain r < int n then sr_remain r else int n)) w = (got, w1)" by fastforce
  from keepsD [OF file_read_keeps read assms] have "P w1" .
  with False h read show ?thesis unfolding seq_take_def Let_def
    by (cases got) (simp_all add: seq_deliver_keeps split del: if_split)
qed

lemma seq_read_loop_keeps: "P w \<Longrightarrow> P (snd (snd (seq_read_loop os specs n r w)))"
proof (induction "length specs - sr_index r" arbitrary: r w rule: less_induct)
  case less
  show ?case
  proof (cases "n = 0 \<or> length specs \<le> sr_index r")
    case True
    with less.prems show ?thesis by (subst seq_read_loop.simps) auto
  next
    case run: False
    show ?thesis
    proof (cases "sr_remain r = 0")
      case False
      with run seq_take_keeps less.prems show ?thesis by (subst seq_read_loop.simps) simp
    next
      case True
      obtain o1 w1 where opened: "seq_open os (specs ! sr_index r) r w = (o1, w1)" by fastforce
      have w1: "P w1" using keepsD [OF seq_open_keeps opened less.prems] .
      show ?thesis
      proof (cases o1)
        case (Inl e)
        with run True opened w1 show ?thesis by (subst seq_read_loop.simps) simp
      next
        case (Inr r1)
        obtain e r2 w2 where adv: "seq_advance os specs r1 w1 = (e, r2, w2)" by (metis prod.collapse)
        have "sr_index r2 = sr_index r + 1"
          using seq_open_index opened [unfolded Inr] seq_advance_index [OF adv] by simp
        with run have "length specs - sr_index r2 < length specs - sr_index r" by auto
        with less.hyps seq_advance_keeps [OF adv w1] have "P (snd (snd (seq_read_loop os specs n r2 w2)))" by blast
        with run True opened Inr adv seq_take_keeps [OF w1] seq_advance_keeps [OF adv w1] show ?thesis
          by (subst seq_read_loop.simps) (simp split: option.split)
      qed
    qed
  qed
qed

lemma seq_read_keeps [keeps_intros]: "keeping_part (seq_read os specs n)"
  using seq_read_loop_keeps by (auto simp: keeps_def seq_read_def split: option.splits)

lemma seq_close_keeps: "P (snd s) \<Longrightarrow> P (seq_close os s)"
  by (auto simp: seq_close_def closed split: option.splits)

section \<open>The v1 verifier\<close>

lemma keeps_wrapped [keeps_intros]:
  assumes "keeps Q m"
  shows "keeps Q (\<lambda>s. case m s of (Inl e, s) \<Rightarrow> (Inl (f e), s) | (Inr x, s) \<Rightarrow> (Inr x, s))"
  by (rule keepsI) (auto elim!: keepsD [OF assms] split: prod.splits sum.splits)

lemma v1_pieces_keeps [keeps_intros]: "keeping_part (v1_pieces lib os specs pl i hashes remaining r)"
  by (induction hashes arbitrary: i remaining r) (auto simp: Let_def intro!: keeps_intros)

lemma no_extra_keeps [keeps_intros]: "keeping_part (no_extra os specs)"
  by (rule keepsI) (auto simp: no_extra_def elim!: keepsD [OF seq_read_keeps] split: prod.splits)

lemma verify_v1_resolved_keeps [keeps_intros]: "keeping (verify_v1_resolved lib os meta specs)"
proof (rule keepsI)
  fix w r w'
  assume w: "P w" and run: "verify_v1_resolved lib os meta specs w = (r, w')"
  let ?m = "bnd (v1_pieces lib os specs (m_piece_length meta) 0 (m_piece_hashes meta) (m_total_length meta)
      (count_files specs (empty_result (m_version meta) ''v1-sha1-pieces'' ''file_identity_size_mtime_checked_non_atomic''
        (length (m_piece_hashes meta))))) (\<lambda>(remaining, r).
    bnd (guard (remaining = 0) (BytesUnverified remaining)) (\<lambda>_.
    bnd (no_extra os specs) (\<lambda>_.
    bnd (on_system (ensure_stable os specs)) (\<lambda>_.
    ret (finish_v1 lib specs r)))))"
  have "keeping_part ?m" by (intro keeps_intros)
  then have "P (seq_close os (snd (?m (new_sequence_reader, w))))"
    using w by (intro seq_close_keeps) (simp add: keeps_def)
  then show "P w'" using run w
    by (auto simp: verify_v1_resolved_def Let_def fail_def split: if_splits prod.splits)
qed

section \<open>The v2 and hybrid verifiers\<close>

lemma stream_write_keeps: "P w \<Longrightarrow> P (snd (snd (stream_write lib os data n st w)))"
proof (induction "length data" arbitrary: data n st w rule: less_induct)
  case less
  obtain stop w1 where poll: "ctx_done os w = (stop, w1)" by fastforce
  have w1: "P w1" using keepsD [OF ctx poll less.prems] .
  show ?case
  proof (cases "data = [] \<or> stop \<or> ps_piece_length st - ps_piece_bytes st \<le> 0")
    case True
    with less.prems poll w1 show ?thesis by (subst stream_write.simps) (auto split: bool.split)
  next
    case False
    let ?room = "ps_piece_length st - ps_piece_bytes st"
    define k where "k = (if int (length data) > ?room then nat ?room else length data)"
    have "length (drop k data) < length data" using False by (auto simp: k_def)
    with less.hyps w1 have "P (snd (snd (stream_write lib os (drop k data) n' st' w1)))" for n' st' by blast
    with False poll w1 show ?thesis
      by (simp add: stream_write.simps [of lib os data n st w, unfolded Let_def, folded k_def] split: sum.split)
  qed
qed

lemma write_zero_bytes_keeps: "P w \<Longrightarrow> P (snd (snd (write_zero_bytes lib os len count st w)))"
proof (induction "nat count" arbitrary: count st w rule: less_induct)
  case less
  obtain stop w1 where poll: "ctx_done os w = (stop, w1)" by fastforce
  have w1: "P w1" using keepsD [OF ctx poll less.prems] .
  let ?k = "if count < int len then nat count else len"
  obtain n e st2 w2 where put: "stream_write lib os (replicate ?k NUL) 0 st w1 = ((n, e), st2, w2)"
    by (metis prod.collapse)
  have w2: "P w2" using stream_write_keeps [OF w1, of lib "replicate ?k NUL" 0 st] unfolding put by simp
  show ?case
  proof (cases "count \<le> 0 \<or> len = 0")
    case True
    with less.prems show ?thesis by (subst write_zero_bytes.simps) simp
  next
    case False
    then have "nat (count - int ?k) < nat count" by auto
    with less.hyps w2 have "P (snd (snd (write_zero_bytes lib os len (count - int ?k) st2 w2)))" by blast
    with False poll w1 w2 put show ?thesis
      by (subst write_zero_bytes.simps) (simp add: Let_def split: bool.split option.split split del: if_split)
  qed
qed

lemma tee_read_keeps [keeps_intros]: "keeping_part (tee_read lib os h n)"
proof (rule keepsI)
  fix s x s'
  assume "P (snd s)" and run: "tee_read lib os h n s = (x, s')"
  obtain b status w1 where read: "file_reader os h n (snd s) = ((b, status), w1)" by (metis prod.collapse)
  have w1: "P w1" using keepsD [OF file_reader_keeps read \<open>P (snd s)\<close>] .
  have "P (snd (snd (stream_write lib os b 0 st w1)))" for st using stream_write_keeps [OF w1] .
  with run read w1 show "P (snd s')"
    by (auto simp: tee_read_def split: option.splits if_splits prod.splits) (metis snd_conv)+
qed

lemma content_io_keeps [keeps_intros]:
  "keeping_part (io_poll (content_io lib os h))" "keeping_part (io_read_full (content_io lib os h) n)"
proof -
  show "keeping_part (io_poll (content_io lib os h))"
    by (rule keepsI) (auto simp: content_io_def elim!: keepsD [OF ctx] split: prod.splits)
  show "keeping_part (io_read_full (content_io lib os h) n)"
    by (simp add: content_io_def keeps_intros)
qed

lemma hash_segment_keeps [keeps_intros]: "keeping_part (hash_segment lib os h n t)"
  unfolding hash_segment_def [abs_def] by (intro keeps_intros)

lemma or_close_keeps [keeps_intros]:
  assumes "keeping_part m"
  shows "keeping_part (or_close os h m)"
  by (rule keepsI) (auto simp: or_close_def intro!: closed dest: keepsD [OF assms] split: prod.splits sum.splits)

lemma hash_small_file_keeps [keeps_intros]: "keeping_part (hash_small_file lib os h spec entry r)"
  unfolding hash_small_file_def Let_def by (intro keeps_intros)

lemma hash_pieces_keeps:
  "P (snd s) \<Longrightarrow> P (snd (snd (hash_pieces lib os h pl blocks depth layer k n remaining acc r s)))"
proof (induction "nat (n - k)" arbitrary: k remaining acc r s rule: less_induct)
  case less
  let ?pb = "if remaining < pl then remaining else pl"
  obtain root s1 where seg: "hash_segment lib os h ?pb blocks s = (root, s1)" by (metis surj_pair)
  have s1: "P (snd s1)" using keepsD [OF hash_segment_keeps seg less.prems] .
  show ?case
  proof (cases "n \<le> k")
    case True
    with less.prems show ?thesis by (subst hash_pieces.simps) simp
  next
    case False
    then have "nat (n - (k + 1)) < nat (n - k)" by simp
    with less.hyps s1
    have "P (snd (snd (hash_pieces lib os h pl blocks depth layer (k + 1) n remaining' acc' r' s1)))" for remaining' acc' r'
      by blast
    with False seg s1 show ?thesis
      by (subst hash_pieces.simps) (simp add: Let_def split: sum.split split del: if_split)
  qed
qed

lemma hash_pieces_keeping [keeps_intros]:
  "keeping_part (hash_pieces lib os h pl blocks depth layer k n remaining acc r)"
  using hash_pieces_keeps by (simp add: keeps_def)

lemma hash_large_file_keeps [keeps_intros]: "keeping_part (hash_large_file lib os h pl depth spec entry r)"
  unfolding hash_large_file_def Let_def by (intro keeps_intros)

lemma hash_content_keeps [keeps_intros]: "keeping_part (hash_content lib os h pl depth spec entry matching r)"
  unfolding hash_content_def Let_def by (intro keeps_intros)

lemma expect_eof_keeps [keeps_intros]:
  "keeping (\<lambda>w. case file_read os h n w of (Eof, w) \<Rightarrow> (Inr (), w) | (_, w) \<Rightarrow> (Inl e, w))"
  by (rule keepsI) (auto elim!: keepsD [OF file_read_keeps] split: prod.splits read_result.splits)

lemma check_after_keeps [keeps_intros]: "keeping (check_after os h path before)"
  unfolding check_after_def by (intro keeps_intros)

lemma verify_v2_content_keeps [keeps_intros]: "keeping_part (verify_v2_content lib os pl depth spec entry matching r)"
  unfolding verify_v2_content_def by (intro keeps_intros)

lemma mirror_padding_keeps [keeps_intros]: "keeping_part (mirror_padding lib os len)"
proof (rule keepsI)
  fix s :: "v1_stream option \<times> 'w" and r s'
  assume "P (snd s)" and run: "mirror_padding lib os len s = (r, s')"
  then have "P (snd (snd (write_zero_bytes lib os (nat v2_block_size) len st (snd s))))" for st
    by (intro write_zero_bytes_keeps)
  with run \<open>P (snd s)\<close> show "P (snd s')"
    by (auto simp: mirror_padding_def split: option.splits prod.splits) (metis snd_conv)+
qed

lemma verify_v2_files_keeps [keeps_intros]: "keeping_part (verify_v2_files lib os pl depth files matching r)"
  by (induction files arbitrary: matching r) (auto intro!: keeps_intros)

lemma verify_v2_resolved_keeps [keeps_intros]: "keeping_part (verify_v2_resolved lib os meta specs)"
  unfolding verify_v2_resolved_def by (intro keeps_intros)

lemma verify_hybrid_resolved_keeps [keeps_intros]: "keeping (verify_hybrid_resolved lib os meta specs)"
proof (rule keepsI)
  fix w r w'
  assume w: "P w" and run: "verify_hybrid_resolved lib os meta specs w = (r, w')"
  from verify_v2_resolved_keeps have "P (snd (snd (verify_v2_resolved lib os meta specs (st, w))))" for st
    using w by (simp add: keeps_def)
  with run w show "P w'"
    by (auto simp: verify_hybrid_resolved_def fail_def split: if_splits prod.splits sum.splits) (metis snd_conv)+
qed

lemma verify_resolved_keeps [keeps_intros]: "keeping (verify_resolved lib os meta specs)"
proof (rule keepsI)
  fix w r w'
  assume w: "P w" and run: "verify_resolved lib os meta specs w = (r, w')"
  from verify_v2_resolved_keeps have "P (snd (snd (verify_v2_resolved lib os meta specs (st, w))))" for st
    using w by (simp add: keeps_def)
  with run w show "P w'"
    by (auto simp: verify_resolved_def fail_def elim: keepsD [OF verify_v1_resolved_keeps] keepsD [OF verify_hybrid_resolved_keeps]
        split: if_splits prod.splits) (metis snd_conv)+
qed

section \<open>Source maps and candidate files\<close>

lemma specs_from_source_map_keeps [keeps_intros]: "keeping (specs_from_source_map os meta bindings)"
  unfolding specs_from_source_map_def by (intro keeps_intros)

lemma verify_source_map_keeps [keeps_intros]: "keeping (verify_source_map lib os meta bindings)"
  unfolding verify_source_map_def by (intro keeps_intros)

lemma advance_v1_zeros_keeps: "P w \<Longrightarrow> P (snd (advance_v1_zeros lib os meta count st w))"
proof (induction "nat count" arbitrary: count st w rule: less_induct)
  case less
  obtain stop w1 where poll: "check_ctx os w = (stop, w1)" by fastforce
  have w1: "P w1" using keepsD [OF check_ctx_keeps poll less.prems] .
  let ?k = "if count < 16384 then count else 16384"
  show ?case
  proof (cases "count \<le> 0")
    case True
    with less.prems show ?thesis by (subst advance_v1_zeros.simps) simp
  next
    case False
    then have "nat (count - ?k) < nat count" by auto
    with less.hyps w1 have "P (snd (advance_v1_zeros lib os meta (count - ?k) st' w1))" for st' by blast
    with False poll w1 show ?thesis
      by (subst advance_v1_zeros.simps) (simp add: Let_def split: sum.split option.split split del: if_split)
  qed
qed

lemma feed_v1_file_keeps: "P w \<Longrightarrow> P (snd (feed_v1_file lib os meta h remaining st w))"
proof (induction "nat remaining" arbitrary: remaining st w rule: less_induct)
  case less
  obtain stop w1 where poll: "check_ctx os w = (stop, w1)" by fastforce
  have w1: "P w1" using keepsD [OF check_ctx_keeps poll less.prems] .
  let ?k = "if remaining < 262144 then remaining else 262144"
  obtain data w2 where read: "read_full (file_reader os h) (nat ?k) [] w1 = (data, w2)" by fastforce
  have w2: "P w2" using keepsD [OF keeps_read_full [OF file_reader_keeps] read w1] .
  show ?case
  proof (cases "remaining \<le> 0")
    case True
    with less.prems show ?thesis by (subst feed_v1_file.simps) simp
  next
    case False
    then have "nat (remaining - ?k) < nat remaining" by auto
    with less.hyps w2 have "P (snd (feed_v1_file lib os meta h (remaining - ?k) st' w2))" for st' by blast
    with False poll w1 read w2 show ?thesis
      by (subst feed_v1_file.simps) (simp add: Let_def split: sum.split option.split split del: if_split)
  qed
qed

lemma feed_v1_file_keeping [keeps_intros]: "keeping (feed_v1_file lib os meta h remaining st)"
  using feed_v1_file_keeps by (simp add: keeps_def)

lemma stat_and_close_keeps [keeps_intros]:
  "keeping (\<lambda>w. let (after, w) = os_fstat os h w; (closed, w) = os_close os h w in (f after closed, w))"
  by (rule keepsI) (auto elim!: keepsD [OF close] keepsD [OF fstat] split: prod.splits)

lemma advance_v1_file_keeps [keeps_intros]: "keeping (advance_v1_file lib os meta c len st)"
  unfolding advance_v1_file_def Let_def [of "hd _"] by (intro keeps_intros)

end

section \<open>Two invariants\<close>

lemma any_os_invariant: "os_invariant os (\<lambda>_. c)"
  by unfold_locales (simp_all add: keeps_def)

lemma logged_keeps:
  assumes "\<And>s t. Q s \<Longrightarrow> prefix (snd s) (snd t) \<Longrightarrow> Q t"
  shows "keeps Q (logged f out)"
  using assms by (auto simp: keeps_def logged_def split: prod.splits)

lemma log_monotone:
  assumes "\<And>s t. Q s \<Longrightarrow> prefix (snd s) (snd t) \<Longrightarrow> Q t"
  shows "os_invariant (logging os) Q"
  by unfold_locales (simp_all add: logging_def logged_keeps [OF assms])

text \<open>The log of \<open>logging\<close> only grows.\<close>

interpretation log_grows: os_invariant "logging os" "\<lambda>s. prefix log (snd s)"
  for os :: "'w os" and log
  by (rule log_monotone) (auto elim: prefix_order.trans)

end
