(* ===== verification/VerifyProps.thy ===== *)
theory VerifyProps
  imports VerifyV2
begin

text \<open>
  What a verification result means. For a system that records what its reads deliver, a returned result decides
  exactly whether the delivered bytes, cut into the segments of the manifest, hash to the manifest: the v1 verdict
  over the whole stream, the v2 verdict file by file, and the hybrid verdict for both on the same bytes. The v1
  proof stream does not depend on how the bytes are cut into writes.
\<close>

section \<open>Counting matches\<close>

definition matches :: "'a list \<Rightarrow> 'a list \<Rightarrow> nat" where
  "matches xs ys = length (filter (\<lambda>(x, y). x = y) (zip xs ys))"

lemma matches_simps [simp]:
  "matches [] ys = 0" "matches (x # xs) (y # ys) = (if x = y then 1 else 0) + matches xs ys"
  by (simp_all add: matches_def)

lemma matches_le: "matches xs ys \<le> length ys"
  unfolding matches_def by (metis length_filter_le length_zip min.bounded_iff)

lemma matches_all_iff: "length xs = length ys \<Longrightarrow> matches xs ys = length ys \<longleftrightarrow> xs = ys"
proof (induction xs ys rule: list_induct2)
  case (Cons x xs y ys)
  with matches_le [of xs ys] show ?case by auto
qed simp

lemma matches_append:
  "length xs = length ys \<Longrightarrow> matches (xs @ us) (ys @ vs) = matches xs ys + matches us vs"
  by (simp add: matches_def)

lemma count_piece_fields [simp]:
  "vr_pieces_matched (count_piece m i r) = vr_pieces_matched r + (if m then 1 else 0)"
  "vr_pieces_expected (count_piece m i r) = vr_pieces_expected r"
  "vr_proof_stream_bytes (count_piece m i r) = vr_proof_stream_bytes r"
  "vr_padding_bytes (count_piece m i r) = vr_padding_bytes r"
  "vr_bytes_verified (count_piece m i r) = vr_bytes_verified r"
  "vr_roots_matched (count_piece m i r) = vr_roots_matched r"
  "vr_roots_expected (count_piece m i r) = vr_roots_expected r"
  by (simp_all add: count_piece_def record_mismatch_def)

lemma count_files_fields [simp]:
  "vr_pieces_matched (count_files specs r) = vr_pieces_matched r"
  "vr_pieces_expected (count_files specs r) = vr_pieces_expected r"
  "vr_proof_stream_bytes (count_files specs r) = vr_proof_stream_bytes r"
proof -
  have "vr_pieces_matched (count_files specs r) = vr_pieces_matched r \<and>
      vr_pieces_expected (count_files specs r) = vr_pieces_expected r \<and>
      vr_proof_stream_bytes (count_files specs r) = vr_proof_stream_bytes r"
    by (induction specs arbitrary: r) (auto simp: count_files_def)
  then show "vr_pieces_matched (count_files specs r) = vr_pieces_matched r"
    "vr_pieces_expected (count_files specs r) = vr_pieces_expected r"
    "vr_proof_stream_bytes (count_files specs r) = vr_proof_stream_bytes r" by simp_all
qed

lemma ceil_div_pred: "0 < pl \<Longrightarrow> pl \<le> n \<Longrightarrow> (n - pl + pl - 1) div pl = (n + pl - 1) div pl - (1::int)"
proof -
  assume "0 < pl" "pl \<le> n"
  have "n + pl - 1 = (n - 1) + pl" by simp
  then have "(n + pl - 1) div pl = (n - 1) div pl + 1" using \<open>0 < pl\<close> by (simp only: div_add_self2)
  then show ?thesis by simp
qed

lemma ceil_div_zero: "0 < pl \<Longrightarrow> 0 \<le> n \<Longrightarrow> (n + pl - 1) div pl = 0 \<longleftrightarrow> n = (0::int)"
  by (auto simp: zdiv_eq_0_iff)

lemma ceil_div_one: "0 < n \<Longrightarrow> n < pl \<Longrightarrow> (n + pl - 1) div pl = (1::int)"
proof -
  assume "0 < n" "n < pl"
  then have "(n - 1 + pl) div pl = 1" by (simp add: div_add_self2)
  then show ?thesis by (simp add: algebra_simps)
qed

section \<open>The v1 verdict\<close>

context recording_os
begin

lemma log_inspect_bound: "inspect_bound os k p w = (r, w') \<Longrightarrow> log w' = log w"
  by (auto simp: inspect_bound_def bnd_def ret_def split: prod.splits sum.splits
      dest!: log_call log_stat_opened log_close_file) (metis log_close snd_conv)

lemma log_ensure_stable: "ensure_stable os specs w = (Inr u, w') \<Longrightarrow> log w' = log w"
proof (induction specs arbitrary: w)
  case (Cons spec specs)
  show ?case
  proof (cases "reads_content spec")
    case True
    with Cons.prems obtain info w1 where "(case s_open spec of
                  Some k \<Rightarrow> inspect_bound os k (s_path spec)
                | None \<Rightarrow> call (os_stat os (s_path spec)) (FileFault StatContent (s_path spec))) w = (Inr info, w1)"
      "ensure_stable os specs w1 = (Inr u, w')"
      by (auto simp: act_simps)
    with Cons.IH show ?thesis
      by (auto split: option.splits dest: log_inspect_bound log_call)
  next
    case False
    with Cons show ?thesis by simp
  qed
qed (simp add: ret_def)

lemma v1_pieces_at:
  assumes "v1_pieces lib os specs pl index hashes remaining r (rd, w) = (Inr (remaining', r'), (rd', w'))"
    and "seq_at specs base rd w out" "\<forall>spec \<in> set specs. 0 \<le> s_length spec"
    and "0 < pl" "0 \<le> remaining" "int (length hashes) = (remaining + pl - 1) div pl"
  shows "\<exists>data. int (length data) = remaining \<and> remaining' = 0 \<and> seq_at specs base rd' w' (out @ data) \<and>
    vr_pieces_matched r' = vr_pieces_matched r + matches (map (gl_sha1 lib) (chunks (nat pl) data)) hashes \<and>
    vr_pieces_expected r' = vr_pieces_expected r"
  using assms
proof (induction hashes arbitrary: index remaining r rd w out)
  case Nil
  then have "remaining = 0" using ceil_div_zero [of pl remaining] by simp
  with Nil show ?case by (auto simp: ret_def)
next
  case (Cons h hs)
  have rem: "0 < remaining"
    using Cons.prems(4-6) ceil_div_zero [of pl remaining] by (cases "remaining = 0") auto
  let ?n = "if remaining < pl then remaining else pl"
  from Cons.prems(1) rem Cons.prems(4) obtain w1 data rd1 w2 where
    ctx: "check_ctx os w = (Inr (), w1)"
    and full: "read_full (seq_read os specs) (nat ?n) [] (rd, w1) = (Inr data, (rd1, w2))"
    and rest: "v1_pieces lib os specs pl (index + 1) hs (remaining - ?n)
       ((count_piece (gl_sha1 lib data = h) index r)\<lparr>vr_proof_stream_bytes :=
          vr_proof_stream_bytes (count_piece (gl_sha1 lib data = h) index r) + ?n\<rparr>) (rd1, w2) =
       (Inr (remaining', r'), (rd', w'))"
    by (auto simp: act_simps Let_def split: if_splits prod.splits sum.splits)
  have "seq_at specs base rd w1 out"
    using Cons.prems(2) log_check_ctx [OF ctx] by (simp add: seq_at_def)
  from seq_read_full_at [OF full this Cons.prems(3)] have
    data: "length data = nat ?n" "seq_at specs base rd1 w2 (out @ data)" by auto
  have len: "int (length hs) = (remaining - ?n + pl - 1) div pl"
    using Cons.prems(4,6) rem ceil_div_one [of remaining pl] ceil_div_pred [of pl remaining]
    by (auto simp: ceil_div_zero)
  have nonneg: "0 \<le> remaining - ?n" using rem by auto
  from Cons.IH [OF rest data(2) Cons.prems(3,4) nonneg len] obtain data' where
    ih: "int (length data') = remaining - ?n" "remaining' = 0" "seq_at specs base rd' w' ((out @ data) @ data')"
      "vr_pieces_matched r' = vr_pieces_matched r + (if gl_sha1 lib data = h then 1 else 0) +
        matches (map (gl_sha1 lib) (chunks (nat pl) data')) hs"
      "vr_pieces_expected r' = vr_pieces_expected r"
    by auto
  have "chunks (nat pl) (data @ data') = data # chunks (nat pl) data'"
  proof (cases "remaining < pl")
    case True
    with ih(1) data(1) rem Cons.prems(4) have "data' = []" "data \<noteq> []" "length data \<le> nat pl" by auto
    then show ?thesis using Cons.prems(4) by (simp add: chunks_short)
  next
    case False
    with data(1) Cons.prems(4) show ?thesis by (intro chunks_append) auto
  qed
  with ih data(1) rem Cons.prems(4) show ?case by (intro exI [of _ "data @ data'"]) auto
qed

text \<open>The stream of the manifest: segments of the declared lengths, zeros for padding, the rest from the log.\<close>

definition delivered :: "file_spec list \<Rightarrow> bytes \<Rightarrow> 'w \<Rightarrow> bytes list \<Rightarrow> bool" where
  "delivered specs base w segs \<longleftrightarrow> list_all2 seg_ok specs segs \<and> log w = base @ concat (map2 from_file specs segs)"

lemma verify_v1_exact:
  assumes "verify_v1_resolved lib os meta specs w = (Inr r, w')" "\<forall>spec \<in> set specs. 0 \<le> s_length spec"
    and "0 \<le> m_total_length meta"
    and "int (length (m_piece_hashes meta)) = (m_total_length meta + m_piece_length meta - 1) div m_piece_length meta"
  shows "\<exists>segs. delivered specs (log w) w' segs \<and> int (length (concat segs)) = m_total_length meta \<and>
    (vr_verified r \<longleftrightarrow> map (gl_sha1 lib) (chunks (nat (m_piece_length meta)) (concat segs)) = m_piece_hashes meta)"
proof -
  let ?pl = "m_piece_length meta" and ?hs = "m_piece_hashes meta"
  let ?r0 = "count_files specs (empty_result (m_version meta) ''v1-sha1-pieces''
    ''file_identity_size_mtime_checked_non_atomic'' (length ?hs))"
  from assms(1) have pl: "0 < ?pl" by (auto simp: verify_v1_resolved_def Let_def fail_eq split: if_splits)
  from assms(1) obtain rd rem r1 w1 rd2 w2 rd3 w3 where
    pieces: "v1_pieces lib os specs ?pl 0 ?hs (m_total_length meta) ?r0 (new_sequence_reader, w) = (Inr (rem, r1), (rd, w1))"
    and extra: "no_extra os specs (rd, w1) = (Inr (), (rd2, w2))"
    and stable: "ensure_stable os specs w2 = (Inr (), w3)"
    and fin: "r = finish_v1 lib specs r1" "w' = seq_close os (rd2, w3)"
    by (auto simp: verify_v1_resolved_def Let_def act_simps split: if_splits prod.splits sum.splits)
  have "seq_at specs (log w) new_sequence_reader w []"
    using seq_inv_new by (auto simp: seq_at_def)
  from v1_pieces_at [OF pieces this assms(2) pl assms(3,4)] obtain data where
    data: "int (length data) = m_total_length meta" "seq_at specs (log w) rd w1 data"
    and matched: "vr_pieces_matched r1 = matches (map (gl_sha1 lib) (chunks (nat ?pl) data)) ?hs"
      "vr_pieces_expected r1 = length ?hs" by (auto simp: empty_result_def)
  from extra obtain st where rd2: "seq_read os specs 1 (rd, w1) = (([], st), (rd2, w2))" "\<And>e. st \<noteq> Failed e"
    by (auto simp: no_extra_def split: prod.splits if_splits read_status.splits)
  from seq_read_at [OF rd2(1) data(2) assms(2)] rd2(2) have at: "seq_at specs (log w) rd2 w2 data"
    "length specs \<le> sr_index rd2" by (cases st; simp)+
  then obtain files where files: "seq_inv specs rd2 data files" "log w2 = log w @ files"
    by (auto simp: seq_at_def)
  from seq_inv_complete [OF files(1) at(2)] files(2) obtain segs where
    segs: "list_all2 seg_ok specs segs" "data = concat segs" "log w2 = log w @ concat (map2 from_file specs segs)"
    by blast
  have "log w' = log w2"
    using fin(2) log_ensure_stable [OF stable] log_close by (simp add: seq_close_def split: option.splits)
  moreover have "vr_verified r \<longleftrightarrow> map (gl_sha1 lib) (chunks (nat ?pl) data) = ?hs"
  proof -
    have "int (length (chunks (nat ?pl) data)) = int (length ?hs)"
      using pl data(1) assms(4) by (simp add: chunks_length of_nat_diff zdiv_int)
    then show ?thesis
      using fin(1) matched matches_all_iff [of "map (gl_sha1 lib) (chunks (nat ?pl) data)" ?hs]
      by (simp add: finish_v1_def Let_def)
  qed
  ultimately show ?thesis using segs data(1) by (auto simp: delivered_def)
qed

end

section \<open>The v1 proof stream\<close>

text \<open>
  The stream after \<open>D\<close> was written to it: \<open>D\<close> is the finished pieces and what the hash state holds. A last
  piece may be full without being finished, when the manifest has no digest for it.
\<close>

definition stream_inv :: "golib \<Rightarrow> int64 \<Rightarrow> bytes list \<Rightarrow> bytes \<Rightarrow> v1_stream \<Rightarrow> bool" where
  "stream_inv lib pl hashes D st \<longleftrightarrow>
     ps_piece_length st = pl \<and> ps_expected st = hashes \<and> ps_piece_bytes st = int (length (ps_hasher st)) \<and>
     ps_piece_bytes st \<le> pl \<and> vr_proof_stream_bytes (ps_result st) = int (length D) \<and>
     vr_pieces_expected (ps_result st) = length hashes \<and>
     (\<exists>pieces. length pieces = ps_piece_index st \<and> ps_piece_index st \<le> length hashes \<and>
        (\<forall>piece \<in> set pieces. int (length piece) = pl) \<and> D = concat pieces @ ps_hasher st \<and>
        vr_pieces_matched (ps_result st) = matches (map (gl_sha1 lib) pieces) (take (length pieces) hashes))"

lemma stream_inv_new:
  "0 < m_piece_length meta \<Longrightarrow>
     stream_inv lib (m_piece_length meta) (m_piece_hashes meta) [] (new_v1_proof_stream meta)"
  by (simp add: stream_inv_def new_v1_proof_stream_def empty_result_def)

lemma finish_piece_inv:
  assumes "finish_piece lib st = Inr st'" "stream_inv lib pl hashes D st" "int (length (ps_hasher st)) = pl" "0 < pl"
  shows "stream_inv lib pl hashes D st'"
proof -
  from assms(2) obtain pieces where p: "length pieces = ps_piece_index st" "\<forall>piece \<in> set pieces. int (length piece) = pl"
    "D = concat pieces @ ps_hasher st" "ps_expected st = hashes"
    "vr_pieces_matched (ps_result st) = matches (map (gl_sha1 lib) pieces) (take (length pieces) hashes)"
    by (auto simp: stream_inv_def)
  have i: "length pieces < length hashes" using assms(1) p(1,4) by (auto simp: finish_piece_def split: if_splits)
  have "matches (map (gl_sha1 lib) (pieces @ [ps_hasher st])) (take (Suc (length pieces)) hashes) =
      vr_pieces_matched (ps_result st) + (if gl_sha1 lib (ps_hasher st) = hashes ! length pieces then 1 else 0)"
    using i p(5) by (simp add: take_Suc_conv_app_nth matches_append)
  then show ?thesis
    using assms p i unfolding stream_inv_def
    by (intro conjI exI [of _ "pieces @ [ps_hasher st]"]) (auto simp: finish_piece_def split: if_splits)
qed

lemma stream_write_inv:
  assumes "stream_write lib os data written st w = ((n, err), st', w')" "stream_inv lib pl hashes D st" "0 < pl"
  shows "\<exists>k \<le> length data. n = written + k \<and> stream_inv lib pl hashes (D @ take k data) st' \<and>
    (err = None \<longrightarrow> k = length data)"
  using assms(1,2)
proof (induction "length data" arbitrary: data written st w D rule: less_induct)
  case less
  show ?case
  proof (cases "data = []")
    case True
    with less.prems show ?thesis by (auto simp: stream_write.simps)
  next
    case data: False
    obtain stop w1 where ctx: "ctx_done os w = (stop, w1)" by fastforce
    show ?thesis
    proof (cases "stop \<or> ps_piece_length st - ps_piece_bytes st \<le> 0")
      case True
      with less.prems ctx data show ?thesis
        by (intro exI [of _ 0]) (auto simp: stream_write.simps [of _ _ data] Let_def split: bool.splits if_splits)
    next
      case False
      let ?room = "ps_piece_length st - ps_piece_bytes st"
      define k where "k = (if int (length data) > ?room then nat ?room else length data)"
      define st1 where "st1 = st\<lparr>ps_hasher := ps_hasher st @ take k data, ps_piece_bytes := ps_piece_bytes st + int k,
        ps_result := (ps_result st)\<lparr>vr_proof_stream_bytes := vr_proof_stream_bytes (ps_result st) + int k\<rparr>\<rparr>"
      have k: "0 < k" "k \<le> length data" "int k \<le> ?room" using data False by (auto simp: k_def)
      have inv1: "stream_inv lib pl hashes (D @ take k data) st1"
        using less.prems(2) k by (auto simp: stream_inv_def st1_def)
      note unfolded = less.prems(1) [unfolded stream_write.simps [of _ _ data] Let_def, folded k_def, folded st1_def]
      have rest: "?thesis" if "stream_write lib os (drop k data) (written + k) st2 w1 = ((n, err), st', w')"
        "stream_inv lib pl hashes (D @ take k data) st2" for st2
      proof -
        from less.hyps [OF _ that] k data obtain j where j: "j \<le> length (drop k data)" "n = written + k + j"
          "stream_inv lib pl hashes ((D @ take k data) @ take j (drop k data)) st'"
          "err = None \<longrightarrow> j = length (drop k data)" by auto
        with k show ?thesis by (intro exI [of _ "k + j"]) (auto simp: take_add)
      qed
      show ?thesis
      proof (cases "ps_piece_bytes st1 = ps_piece_length st1")
        case False
        with unfolded ctx \<open>\<not> (stop \<or> _)\<close> data rest [OF _ inv1] show ?thesis by simp
      next
        case full: True
        show ?thesis
        proof (cases "finish_piece lib st1")
          case (Inl e)
          with unfolded ctx \<open>\<not> (stop \<or> _)\<close> data full have "n = written + k" "err = Some e" "st' = st1" "w' = w1" by auto
          with k inv1 show ?thesis by (intro exI [of _ k]) auto
        next
          case (Inr st2)
          have "int (length (ps_hasher st1)) = pl" using inv1 full by (simp add: stream_inv_def)
          from finish_piece_inv [OF Inr inv1 this assms(3)] unfolded ctx \<open>\<not> (stop \<or> _)\<close> data full Inr rest
          show ?thesis by simp
        qed
      qed
    qed
  qed
qed

lemma write_zero_bytes_inv:
  assumes "write_zero_bytes lib os buffer_len count st w = (None, st', w')" "stream_inv lib pl hashes D st" "0 < pl"
    and "0 < buffer_len"
  shows "stream_inv lib pl hashes (D @ replicate (nat count) NUL) st'"
  using assms(1,2)
proof (induction "nat count" arbitrary: count st w D rule: less_induct)
  case less
  show ?case
  proof (cases "count \<le> 0")
    case True
    with less.prems show ?thesis by (simp add: write_zero_bytes.simps)
  next
    case False
    define k where "k = (if count < int buffer_len then nat count else buffer_len)"
    have k: "0 < k" "int k \<le> count" using False assms(4) by (auto simp: k_def)
    from less.prems(1) False assms(4) obtain w1 n st1 w2 where
      ctx: "ctx_done os w = (False, w1)" and wr: "stream_write lib os (replicate k NUL) 0 st w1 = ((n, None), st1, w2)"
      and rest: "write_zero_bytes lib os buffer_len (count - int k) st1 w2 = (None, st', w')"
      by (auto simp: write_zero_bytes.simps [of _ _ _ count] Let_def k_def [symmetric]
          split: prod.splits bool.splits option.splits)
    from stream_write_inv [OF wr less.prems(2) assms(3)] have
      inv: "stream_inv lib pl hashes (D @ replicate k NUL) st1" by auto
    have "replicate k NUL @ replicate (nat (count - int k)) NUL = replicate (nat count) NUL"
      using k by (simp add: replicate_add [symmetric] nat_diff_distrib')
    then show ?thesis using less.hyps [OF _ rest inv] k False by simp
  qed
qed

context recording_os
begin

lemma stream_write_Nil: "stream_write lib os [] n st w = ((n, None), st, w)"
  by (simp add: stream_write.simps)

lemma log_stream_write: "stream_write lib os data written st w = (r, st', w') \<Longrightarrow> log w' = log w"
proof (induction "length data" arbitrary: data written st w rule: less_induct)
  case less
  obtain stop w1 where ctx: "ctx_done os w = (stop, w1)" by fastforce
  then have lg: "log w1 = log w" using log_ctx [of w] by simp
  have rest: "log w' = log w" if "stream_write lib os (drop k data) n st2 w1 = (r, st', w')" "0 < k" "data \<noteq> []" for k n st2
    using less.hyps [OF _ that(1)] that(2,3) lg by simp
  from less.prems ctx lg show ?case
    by (subst (asm) stream_write.simps)
       (auto simp: Let_def stream_write_Nil split: if_splits bool.splits sum.splits elim!: rest)
qed

lemma log_write_zero_bytes:
  "write_zero_bytes lib os n count st w = (None, st', w') \<Longrightarrow> log w' = log w"
proof (induction "nat count" arbitrary: count st w rule: less_induct)
  case less
  show ?case
  proof (cases "count \<le> 0 \<or> n = 0")
    case False
    define k where "k = (if count < int n then nat count else n)"
    have "0 < k" using False by (auto simp: k_def)
    from less.prems False obtain w1 m st1 w2 where
      "ctx_done os w = (False, w1)" "stream_write lib os (replicate k NUL) 0 st w1 = ((m, None), st1, w2)"
      "write_zero_bytes lib os n (count - int k) st1 w2 = (None, st', w')"
      by (auto simp: write_zero_bytes.simps [of _ _ _ count] Let_def k_def [symmetric]
          split: prod.splits bool.splits option.splits)
    moreover from this(1) have "log w1 = log w" using log_ctx [of w] by simp
    ultimately show ?thesis using less.hyps [of "count - int k"] log_stream_write \<open>0 < k\<close> False by fastforce
  qed (use less.prems in \<open>simp add: write_zero_bytes.simps\<close>)
qed

end

lemma chunks_concat_full:
  "0 < n \<Longrightarrow> \<forall>x \<in> set xs. length x = n \<Longrightarrow> chunks n (concat xs @ ys) = xs @ chunks n ys"
  by (induction xs) (simp_all add: chunks_append)

text \<open>Writing a list of byte strings one after the other.\<close>

fun stream_writes :: "golib \<Rightarrow> 'w os \<Rightarrow> bytes list \<Rightarrow> v1_stream \<Rightarrow> 'w \<Rightarrow> verify_error option \<times> v1_stream \<times> 'w" where
  "stream_writes lib os [] st w = (None, st, w)"
| "stream_writes lib os (data # rest) st w =
     (case stream_write lib os data 0 st w of
        ((n, Some e), st, w) \<Rightarrow> (Some e, st, w)
      | ((n, None), st, w) \<Rightarrow> stream_writes lib os rest st w)"

lemma stream_writes_inv:
  "stream_writes lib os ws st w = (None, st', w') \<Longrightarrow> stream_inv lib pl hashes D st \<Longrightarrow> 0 < pl \<Longrightarrow>
     stream_inv lib pl hashes (D @ concat ws) st'"
proof (induction ws arbitrary: st w D)
  case (Cons data rest)
  from Cons.prems(1) obtain n st1 w1 where wr: "stream_write lib os data 0 st w = ((n, None), st1, w1)"
    "stream_writes lib os rest st1 w1 = (None, st', w')" by (auto split: prod.splits option.splits)
  from stream_write_inv [OF wr(1) Cons.prems(2,3)] Cons.IH [OF wr(2) _ Cons.prems(3), of "D @ data"] show ?case by auto
qed simp

text \<open>\<open>complete\<close> accepts only when there was one digest for every piece of the stream.\<close>

lemma complete_stream_exact:
  assumes "complete_stream lib st = Inr st'" "stream_inv lib pl hashes D st" "0 < pl"
  shows "length (chunks (nat pl) D) = length hashes \<and> vr_pieces_expected (ps_result st') = length hashes \<and>
    vr_proof_stream_bytes (ps_result st') = int (length D) \<and>
    vr_pieces_matched (ps_result st') = matches (map (gl_sha1 lib) (chunks (nat pl) D)) hashes"
proof -
  from assms(2) obtain pieces where q: "\<forall>piece \<in> set pieces. int (length piece) = pl" "int (length (ps_hasher st)) \<le> pl"
    and p0: "length pieces = ps_piece_index st" "D = concat pieces @ ps_hasher st" "ps_expected st = hashes"
    "ps_piece_bytes st = int (length (ps_hasher st))" "length pieces \<le> length hashes"
    "vr_pieces_matched (ps_result st) = matches (map (gl_sha1 lib) pieces) (take (length pieces) hashes)"
    "vr_proof_stream_bytes (ps_result st) = int (length D)" "vr_pieces_expected (ps_result st) = length hashes"
    by (auto simp: stream_inv_def)
  have p: "\<forall>piece \<in> set pieces. length piece = nat pl" "length (ps_hasher st) \<le> nat pl" using q by auto
  have c: "chunks (nat pl) D = pieces @ chunks (nat pl) (ps_hasher st)"
    unfolding p0(2) by (rule chunks_concat_full) (use assms(3) p(1) in auto)
  show ?thesis
  proof (cases "ps_hasher st = []")
    case True
    with assms(1) p0 c show ?thesis by (auto simp: complete_stream_def split: if_splits)
  next
    case False
    then have one: "chunks (nat pl) (ps_hasher st) = [ps_hasher st]" using p(2) assms(3) by (intro chunks_short) auto
    from assms(1) False p0 have len: "length hashes = Suc (length pieces)"
      by (auto simp: complete_stream_def finish_piece_def result_simps split: if_splits)
    have "take (length pieces) hashes @ [hashes ! length pieces] = hashes"
      using len by (metis lessI order_refl take_Suc_conv_app_nth take_all)
    then have "matches (map (gl_sha1 lib) pieces @ [gl_sha1 lib (ps_hasher st)]) hashes =
        vr_pieces_matched (ps_result st) + (if gl_sha1 lib (ps_hasher st) = hashes ! length pieces then 1 else 0)"
      using p0(6) len matches_append [of "map (gl_sha1 lib) pieces" "take (length pieces) hashes"
        "[gl_sha1 lib (ps_hasher st)]" "[hashes ! length pieces]"] by simp
    with assms(1) False p0 c one len show ?thesis
      by (auto simp: complete_stream_def finish_piece_def result_simps split: if_splits)
  qed
qed

end
