(* ===== verification/VerifyV2Props.thy ===== *)
theory VerifyV2Props
  imports VerifyProps
begin

text \<open>
  The v2 and the hybrid verdict. For a system that records what its reads deliver, a returned v2 result says
  exactly whether every file's delivered bytes have the Merkle root and the piece layer of the manifest, and a
  returned hybrid result says that and the v1 verdict about one and the same sequence of bytes. At the end the
  lemmas are applied to every system: \<open>logging\<close> adds a log to it.
\<close>

section \<open>The mirror\<close>

text \<open>\<open>hashes\<close> is the digests of the stream, or \<open>None\<close> for a run without a mirror.\<close>

definition stream_at :: "golib \<Rightarrow> int64 \<Rightarrow> bytes list option \<Rightarrow> bytes \<Rightarrow> v1_stream option \<Rightarrow> bool" where
  "stream_at lib pl hashes D stream \<longleftrightarrow>
     (case (hashes, stream) of
        (None, None) \<Rightarrow> True
      | (Some hs, Some st) \<Rightarrow> stream_inv lib pl hs D st
      | _ \<Rightarrow> False)"

lemma stream_at_simps [simp]:
  "stream_at lib pl None D None" "stream_at lib pl (Some hs) D (Some st) \<longleftrightarrow> stream_inv lib pl hs D st"
  "\<not> stream_at lib pl None D (Some st)" "\<not> stream_at lib pl (Some hs) D None"
  by (simp_all add: stream_at_def)

context recording_os
begin

text \<open>
  The state of a v2 run: \<open>files\<close> was read since the log was \<open>base\<close>, and \<open>D\<close> was written to the proof stream,
  if there is one.
\<close>

definition run_at :: "golib \<Rightarrow> int64 \<Rightarrow> bytes list option \<Rightarrow> bytes \<Rightarrow> bytes \<Rightarrow> bytes \<Rightarrow> v1_stream option \<times> 'w \<Rightarrow> bool" where
  "run_at lib pl hashes base files D s \<longleftrightarrow> 0 < pl \<and> log (snd s) = base @ files \<and> stream_at lib pl hashes D (fst s)"

definition content_at :: "golib \<Rightarrow> int64 \<Rightarrow> bytes list option \<Rightarrow> bytes \<Rightarrow> bytes \<Rightarrow> bytes \<Rightarrow> v1_stream option \<times> 'w \<Rightarrow> bytes \<Rightarrow> bool" where
  "content_at lib pl hashes base files D s out \<longleftrightarrow> run_at lib pl hashes base (files @ out) (D @ out) s"

lemma run_at_log: "run_at lib pl hashes base files D (t, w) \<Longrightarrow> log w' = log w \<Longrightarrow> run_at lib pl hashes base files D (t, w')"
  by (simp add: run_at_def)

text \<open>
  A mirrored read delivers what was read and written to the stream, or it fails with fewer bytes than were asked
  for: \<open>io.TeeReader\<close> returns the count of the write when the write fails.
\<close>

lemma tee_read_at:
  assumes "tee_read lib os h n s = ((b, status), s')" "content_at lib pl hashes base files D s out"
  shows "(content_at lib pl hashes base files D s' (out @ b) \<and> length b \<le> n) \<or> (length b < n \<and> (\<exists>e. status = Failed e))"
proof -
  obtain t w where s: "s = (t, w)" by fastforce
  obtain d st w1 where fr: "file_reader os h n w = ((d, st), w1)" by (metis prod.exhaust)
  have d: "length d \<le> n" "log w1 = log w @ d"
    using fr log_file_read [of h n w] by (auto simp: file_reader_def split: prod.splits read_result.splits)
  show ?thesis
  proof (cases "t = None \<or> d = []")
    case True
    with assms s fr d show ?thesis
      by (cases hashes) (auto simp: tee_read_def content_at_def run_at_def split: option.splits)
  next
    case False
    then obtain ps where t: "t = Some ps" by auto
    obtain k err ps' w2 where wr: "stream_write lib os d 0 ps w1 = ((k, err), ps', w2)" by (metis prod.exhaust)
    obtain hs where hs: "hashes = Some hs" using assms(2) s t by (cases hashes) (auto simp: content_at_def run_at_def)
    have pl: "0 < pl" "stream_inv lib pl hs (D @ out) ps"
      using assms(2) s t hs by (auto simp: content_at_def run_at_def)
    from stream_write_inv [OF wr pl(2,1)] have k: "k \<le> length d" "stream_inv lib pl hs ((D @ out) @ take k d) ps'"
      "err = None \<longrightarrow> k = length d" "log w2 = log w1" using log_stream_write [OF wr] by auto
    have res: "b = take k d" "s' = (Some ps', w2)" "\<And>e. err = Some e \<Longrightarrow> status = Failed e"
      using assms(1) s t fr wr k False by (auto simp: tee_read_def split: option.splits)
    show ?thesis
    proof (cases "k = length d")
      case True
      with res k d pl hs assms(2) s show ?thesis by (auto simp: content_at_def run_at_def)
    next
      case False
      with k obtain e where "err = Some e" by auto
      with res k d False show ?thesis by auto
    qed
  qed
qed

lemma read_full_tee_at:
  assumes "read_full (tee_read lib os h) need got s = (Inr data, s')" "content_at lib pl hashes base files D s out"
  shows "\<exists>b. data = got @ b \<and> length b = need \<and> content_at lib pl hashes base files D s' (out @ b)"
  using assms
proof (induction need arbitrary: got s out rule: less_induct)
  case (less need)
  show ?case
  proof (cases "need = 0")
    case True
    with less.prems show ?thesis by (simp add: read_full.simps)
  next
    case False
    obtain b st s1 where rd: "tee_read lib os h need s = ((b, st), s1)" by (metis prod.exhaust)
    note at = tee_read_at [OF rd less.prems(2)]
    show ?thesis
    proof (cases "need \<le> length b")
      case True
      with less.prems(1) rd False at show ?thesis by (subst (asm) read_full.simps) auto
    next
      case short: False
      with less.prems(1) rd False have st: "st = Ok" "b \<noteq> []"
        "read_full (tee_read lib os h) (need - length b) (got @ b) s1 = (Inr data, s')"
        by (subst (asm) read_full.simps, auto split: read_status.splits if_splits)+
      with at have "content_at lib pl hashes base files D s1 (out @ b)" by auto
      from less.IH [OF _ st(3) this] st(2) False obtain b' where
        "data = (got @ b) @ b'" "length b' = need - length b" "content_at lib pl hashes base files D s' ((out @ b) @ b')"
        by (metis diff_less length_greater_0_conv not_gr_zero)
      with short show ?thesis by (intro exI [of _ "b @ b'"]) auto
    qed
  qed
qed

end

sublocale recording_os \<subseteq> content: recording_reader "content_io lib os h" "content_at lib pl hashes base files D"
  for lib h pl hashes base files D
proof unfold_locales
  fix s out
  show "content_at lib pl hashes base files D s out \<Longrightarrow>
      content_at lib pl hashes base files D (snd (io_poll (content_io lib os h) s)) out"
    using log_ctx [of "snd s"] by (auto simp: content_io_def content_at_def run_at_def split: prod.splits)
next
  fix s out n b s'
  assume "content_at lib pl hashes base files D s out" "io_read_full (content_io lib os h) n s = (Inr b, s')"
  then show "length b = n \<and> content_at lib pl hashes base files D s' (out @ b)"
    using read_full_tee_at [of lib h n "[]" s b s'] by (auto simp: content_io_def)
qed

section \<open>Roots of files\<close>

definition block_hashes :: "golib \<Rightarrow> bytes \<Rightarrow> bytes list" where
  "block_hashes lib data = map (gl_sha256 lib) (chunks 16384 data)"

text \<open>A piece of \<open>2 ^ d\<close> blocks, and the tree over a small file's blocks or over a large file's pieces.\<close>

definition piece_root :: "golib \<Rightarrow> nat \<Rightarrow> bytes \<Rightarrow> bytes" where
  "piece_root lib d data =
     tree_root lib d (block_hashes lib data @ replicate (2 ^ d - length (block_hashes lib data)) zero_hash)"

definition piece_roots :: "golib \<Rightarrow> nat \<Rightarrow> bytes \<Rightarrow> bytes list" where
  "piece_roots lib d data = map (piece_root lib d) (chunks (2 ^ (14 + d)) data)"

definition file_root :: "golib \<Rightarrow> nat \<Rightarrow> bytes \<Rightarrow> bytes" where
  "file_root lib d data =
     (if length data \<le> 2 ^ (14 + d)
      then tree_root lib (tree_height (length (block_hashes lib data))) (padded_leaves zero_hash (block_hashes lib data))
      else tree_root lib (tree_height (length (piece_roots lib d data)))
             (padded_leaves (v2_zero_hash lib d) (piece_roots lib d data)))"

text \<open>What the manifest says of a file: its root, and above one piece the piece layer.\<close>

definition file_matches :: "golib \<Rightarrow> nat \<Rightarrow> file_entry \<Rightarrow> bytes \<Rightarrow> bool" where
  "file_matches lib d entry data \<longleftrightarrow>
     data = [] \<or>
     file_root lib d data = f_pieces_root_raw entry \<and>
     (length data \<le> 2 ^ (14 + d) \<or>
      piece_roots lib d data = layer_hashes (f_piece_layer_raw entry) (length (piece_roots lib d data)))"

text \<open>Nothing has failed to match so far.\<close>

definition intact :: "bool \<Rightarrow> verification_result \<Rightarrow> bool" where
  "intact roots_match r \<longleftrightarrow>
     roots_match \<and> vr_pieces_matched r = vr_pieces_expected r \<and> vr_roots_matched r = vr_roots_expected r"

definition counted :: "verification_result \<Rightarrow> bool" where
  "counted r \<longleftrightarrow> vr_pieces_matched r \<le> vr_pieces_expected r \<and> vr_roots_matched r \<le> vr_roots_expected r"

lemma compare_piece_fields [simp]:
  "vr_pieces_matched (compare_piece m n r) = vr_pieces_matched r + (if m then 1 else 0)"
  "vr_pieces_expected (compare_piece m n r) = vr_pieces_expected r + 1"
  "vr_roots_matched (compare_piece m n r) = vr_roots_matched r"
  "vr_roots_expected (compare_piece m n r) = vr_roots_expected r"
  "vr_bytes_verified (compare_piece m n r) = vr_bytes_verified r + n"
  by (simp_all add: compare_piece_def Let_def)

lemma block_hashes_length: "length (block_hashes lib data) = (length data + 16383) div 16384"
  by (simp add: block_hashes_def chunks_length)

text \<open>The number of chunks in the form the code computes it.\<close>

lemma ceil_sdiv: "0 < n \<Longrightarrow> 0 < pl \<Longrightarrow> (n - 1) sdiv pl + 1 = (n + pl - 1) div (pl::int)"
proof -
  assume "0 < n" "0 < pl"
  moreover have "(n - 1 + pl) div pl = (n - 1) div pl + 1" using \<open>0 < pl\<close> by (simp only: div_add_self2)
  ultimately show ?thesis by (simp add: int64_simps algebra_simps)
qed

lemma chunks_count: "0 < pl \<Longrightarrow> int (length (chunks (nat pl) data)) = (int (length data) + pl - 1) div pl"
  by (simp add: chunks_length of_nat_diff zdiv_int)

context recording_os
begin

lemma hash_pieces_at:
  assumes "hash_pieces lib os h pl blocks depth layer i n remaining acc r s = (Inr (acc', r'), s')"
    and "content_at lib pl hashes base files D s out"
    and "pl = 2 ^ (14 + d)" "blocks = 2 ^ d" "0 \<le> i" "0 \<le> remaining" "n - i = (remaining + pl - 1) div pl"
  shows "\<exists>data. content_at lib pl hashes base files D s' (out @ data) \<and> int (length data) = remaining \<and>
    add_layer lib depth (piece_roots lib d data) acc = Inr acc' \<and>
    vr_pieces_matched r' = vr_pieces_matched r + matches (piece_roots lib d data) (map (layer_hash layer) [nat i..<nat n]) \<and>
    vr_pieces_expected r' = vr_pieces_expected r + length (piece_roots lib d data) \<and>
    vr_roots_matched r' = vr_roots_matched r \<and> vr_roots_expected r' = vr_roots_expected r \<and>
    vr_bytes_verified r' = vr_bytes_verified r + remaining"
  using assms(1,2,5-7)
proof (induction "nat (n - i)" arbitrary: i remaining acc r s out)
  case 0
  have "0 < pl" using assms(3) by simp
  moreover from 0 this have "(remaining + pl - 1) div pl = 0"
    by (simp add: pos_imp_zdiv_nonneg_iff order_antisym)
  ultimately have "remaining = 0" using 0 ceil_div_zero [of pl remaining] by simp
  with 0 show ?case by (intro exI [of _ "[]"]) (simp add: hash_pieces.simps piece_roots_def)
next
  case (Suc k)
  have pl: "0 < pl" using assms(3) by simp
  have lt: "\<not> n \<le> i" using Suc.hyps(2) by simp
  have rem: "0 < remaining"
    using Suc.prems(4,5) lt ceil_div_zero [OF pl, of remaining] by (cases "remaining = 0") auto
  let ?m = "if remaining < pl then remaining else pl"
  from Suc.prems(1) lt obtain root s1 acc1 where
    seg: "hash_segment lib os h ?m blocks s = (Inr root, s1)" and add: "acc_add lib root depth acc = Inr acc1"
    and rest: "hash_pieces lib os h pl blocks depth layer (i + 1) n (remaining - ?m) acc1
      (compare_piece (root = layer_hash layer (nat i)) ?m r) s1 = (Inr (acc', r'), s')"
    by (subst (asm) hash_pieces.simps) (auto simp: Let_def split: prod.splits sum.splits)
  from content.hash_v2_segment_history [OF seg [unfolded hash_segment_Inr] Suc.prems(2)] obtain data j where
    data: "content_at lib pl hashes base files D s1 (out @ data)" "int (length data) = ?m" "blocks = 2 ^ j"
      "root = tree_root lib j (map (gl_sha256 lib) (chunks 16384 data) @
                 replicate (2 ^ j - length (chunks 16384 data)) zero_hash)" by auto
  have "j = d" using data(3) assms(4) by simp
  then have root: "root = piece_root lib d data" using data(4) by (simp add: piece_root_def block_hashes_def)
  have n: "n - (i + 1) = (remaining - ?m + pl - 1) div pl"
    using Suc.prems(5) rem pl ceil_div_one [of remaining pl] ceil_div_pred [of pl remaining]
    by (auto simp: ceil_div_zero)
  have "k = nat (n - (i + 1))" "0 \<le> i + 1" "0 \<le> remaining - ?m" using Suc.hyps(2) Suc.prems(3) rem by auto
  from Suc.hyps(1) [OF this(1) rest data(1) this(2,3) n] obtain data' where
    ih: "content_at lib pl hashes base files D s' ((out @ data) @ data')" "int (length data') = remaining - ?m"
      "add_layer lib depth (piece_roots lib d data') acc1 = Inr acc'"
      "vr_pieces_matched r' = vr_pieces_matched r + (if root = layer_hash layer (nat i) then 1 else 0) +
         matches (piece_roots lib d data') (map (layer_hash layer) [nat (i + 1)..<nat n])"
      "vr_pieces_expected r' = vr_pieces_expected r + 1 + length (piece_roots lib d data')"
      "vr_roots_matched r' = vr_roots_matched r" "vr_roots_expected r' = vr_roots_expected r"
      "vr_bytes_verified r' = vr_bytes_verified r + ?m + (remaining - ?m)"
    by auto
  have "chunks (nat pl) (data @ data') = data # chunks (nat pl) data'"
  proof (cases "remaining < pl")
    case True
    with ih(2) data(2) rem have "data' = []" "data \<noteq> []" "length data \<le> nat pl" by auto
    then show ?thesis using pl by (simp add: chunks_short)
  next
    case False
    with data(2) pl show ?thesis by (intro chunks_append) auto
  qed
  then have roots: "piece_roots lib d (data @ data') = root # piece_roots lib d data'"
    using assms(3) root by (simp add: piece_roots_def nat_power_eq)
  have "[nat i..<nat n] = nat i # [nat (i + 1)..<nat n]"
    using lt Suc.prems(3) by (simp add: upt_conv_Cons nat_add_distrib)
  with ih add roots data(2) rem show ?case by (intro exI [of _ "data @ data'"]) auto
qed

text \<open>Hashing one file of at least one byte.\<close>

lemma hash_small_file_at:
  assumes "hash_small_file lib os h spec entry r s = (Inr (root, r'), s')"
    and "content_at lib pl hashes base files D s out" "pl = 2 ^ (14 + d)"
    and "0 < s_length spec" "s_length spec \<le> pl" "s_length spec \<le> max_int64"
  shows "\<exists>data. content_at lib pl hashes base files D s' (out @ data) \<and> int (length data) = s_length spec \<and>
    root = file_root lib d data \<and> r' = compare_piece (root = f_pieces_root_raw entry) (s_length spec) r"
proof -
  let ?n = "(s_length spec - 1) sdiv v2_block_size + 1"
  from assms(1) obtain target where t: "next_power_of_two ?n = Inr target"
    and seg: "hash_v2_segment lib (content_io lib os h) (s_length spec) target v2_block_size s = (Inr root, s')"
    and r: "r' = compare_piece (root = f_pieces_root_raw entry) (s_length spec) r"
    by (auto simp: hash_small_file_def Let_def act_simps)
  from content.hash_v2_segment_history [OF seg assms(2)] obtain data k where
    data: "content_at lib pl hashes base files D s' (out @ data)" "int (length data) = s_length spec" "target = 2 ^ k"
      "root = tree_root lib k (map (gl_sha256 lib) (chunks 16384 data) @
                 replicate (2 ^ k - length (chunks 16384 data)) zero_hash)" by auto
  have n: "?n = int (length (block_hashes lib data))"
    using assms(4) data(2) ceil_sdiv [of "s_length spec" 16384] chunks_count [of 16384 data]
    by (simp add: v2_block_size_def block_hashes_def)
  have "0 < ?n" "?n \<le> 2 ^ 62"
    using assms(4,6) by (auto simp: v2_block_size_def max_int64_def int64_simps pos_imp_zdiv_nonneg_iff)
  from next_power_of_two_eq [OF this] t n data(3) have "k = tree_height (length (block_hashes lib data))" by simp
  with data(4) have "root = tree_root lib (tree_height (length (block_hashes lib data)))
      (padded_leaves zero_hash (block_hashes lib data))"
    by (simp add: padded_leaves_def block_hashes_def)
  moreover have "length data \<le> 2 ^ (14 + d)"
    using data(2) assms(3,5) by (metis of_nat_le_iff of_nat_numeral of_nat_power)
  ultimately show ?thesis using data r by (auto simp: file_root_def)
qed

lemma hash_large_file_at:
  assumes "hash_large_file lib os h pl depth spec entry r s = (Inr (root, r'), s')"
    and "content_at lib pl hashes base files D s out" "pl = 2 ^ (14 + d)" "depth = d"
    and "pl < s_length spec" "s_length spec \<le> max_int64"
  shows "\<exists>data. content_at lib pl hashes base files D s' (out @ data) \<and> int (length data) = s_length spec \<and>
    root = file_root lib d data \<and>
    vr_pieces_matched r' = vr_pieces_matched r + matches (piece_roots lib d data)
      (layer_hashes (f_piece_layer_raw entry) (length (piece_roots lib d data))) \<and>
    vr_pieces_expected r' = vr_pieces_expected r + length (piece_roots lib d data) \<and>
    vr_roots_matched r' = vr_roots_matched r \<and> vr_roots_expected r' = vr_roots_expected r \<and>
    vr_bytes_verified r' = vr_bytes_verified r + s_length spec"
proof -
  let ?n = "(s_length spec - 1) sdiv pl + 1"
  have pl: "0 < pl" "16384 \<le> pl" using assms(3) by (simp_all add: power_add)
  have pos: "0 < s_length spec" using pl assms(5) by simp
  from assms(1) obtain acc s1 target where
    pieces: "hash_pieces lib os h pl (pl sdiv v2_block_size) depth (f_piece_layer_raw entry) 0 ?n (s_length spec)
      new_accumulator r s = (Inr (acc, r'), s')"
    and t: "next_power_of_two ?n = Inr target"
    and root: "rbind (add_layer lib depth (replicate (nat (target - ?n)) (v2_zero_hash lib depth)) acc) acc_root = Inr root"
    by (auto simp: hash_large_file_def Let_def act_simps)
  have n: "?n - 0 = (s_length spec + pl - 1) div pl" using ceil_sdiv [OF pos pl(1)] by simp
  have blocks: "pl sdiv v2_block_size = 2 ^ d" using assms(3) by (simp add: v2_block_size_def int64_simps power_add)
  from hash_pieces_at [OF pieces assms(2,3) blocks _ _ n] pos obtain data where
    data: "content_at lib pl hashes base files D s' (out @ data)" "int (length data) = s_length spec"
      "add_layer lib depth (piece_roots lib d data) new_accumulator = Inr acc"
      "vr_pieces_matched r' = vr_pieces_matched r + matches (piece_roots lib d data)
         (map (layer_hash (f_piece_layer_raw entry)) [0..<nat ?n])"
      "vr_pieces_expected r' = vr_pieces_expected r + length (piece_roots lib d data)"
      "vr_roots_matched r' = vr_roots_matched r" "vr_roots_expected r' = vr_roots_expected r"
      "vr_bytes_verified r' = vr_bytes_verified r + s_length spec" by auto
  have len: "?n = int (length (piece_roots lib d data))"
    using n data(2) chunks_count [OF pl(1), of data] assms(3) by (simp add: piece_roots_def nat_power_eq)
  let ?hs = "piece_roots lib d data"
  have "?n \<le> 2 ^ 62"
  proof -
    have "(s_length spec - 1) div pl \<le> (s_length spec - 1) div 16384"
      using pl(2) pos by (intro zdiv_mono2) auto
    moreover have "(s_length spec - 1) div 16384 < 2 ^ 62" using assms(6) by (auto simp: max_int64_def)
    ultimately show ?thesis using pl(1) pos by (simp add: int64_simps)
  qed
  moreover have "0 < ?n" using pl(1) pos by (auto simp: int64_simps pos_imp_zdiv_nonneg_iff)
  ultimately have target: "target = 2 ^ tree_height (length ?hs)" using next_power_of_two_eq [of ?n] t len by simp
  have "nat (target - ?n) = 2 ^ tree_height (length ?hs) - length ?hs"
    unfolding len target by (simp add: nat_diff_distrib' nat_power_eq)
  with root data(3) have r: "rbind (add_layer lib d (padded_leaves (v2_zero_hash lib d) ?hs) new_accumulator) acc_root = Inr root"
    using assms(4) by (simp add: padded_leaves_def add_layer_append)
  have "14 + d < 63"
    by (rule power_less_imp_less_exp [of "2::int"]) (use assms(3,5,6) in \<open>simp_all add: max_int64_def\<close>)
  then have "d \<le> 64" by simp
  from add_layer_root [OF padded_leaves_length this, of lib "v2_zero_hash lib d" ?hs] r have
    "root = tree_root lib (tree_height (length ?hs)) (padded_leaves (v2_zero_hash lib d) ?hs)" by (simp split: if_splits)
  moreover have "\<not> length data \<le> 2 ^ (14 + d)"
    using data(2) assms(3,5) by (metis linorder_not_le of_nat_le_iff of_nat_numeral of_nat_power)
  ultimately show ?thesis using data len by (auto simp: file_root_def layer_hashes_def)
qed

end

section \<open>The v2 and the hybrid verdict\<close>

text \<open>Every content file's bytes have the root and the layer of the manifest.\<close>

definition files_match :: "golib \<Rightarrow> nat \<Rightarrow> file_spec list \<Rightarrow> file_entry list \<Rightarrow> bytes list \<Rightarrow> bool" where
  "files_match lib d specs entries segs \<longleftrightarrow>
     (\<forall>(spec, entry, seg) \<in> set (zip specs (zip entries segs)). s_padding spec \<or> file_matches lib d entry seg)"

lemma files_match_simps [simp]:
  "files_match lib d [] [] []"
  "files_match lib d (spec # specs) (entry # entries) (seg # segs) \<longleftrightarrow>
     (s_padding spec \<or> file_matches lib d entry seg) \<and> files_match lib d specs entries segs"
  by (simp_all add: files_match_def)

text \<open>What resolving guarantees of the specs.\<close>

definition spec_ok :: "file_spec \<Rightarrow> bool" where
  "spec_ok spec \<longleftrightarrow> 0 \<le> s_length spec \<and> s_length spec \<le> max_int64 \<and> (s_empty spec \<longrightarrow> s_length spec = 0)"

text \<open>The counters after a file: \<open>m\<close> of its \<open>n\<close> pieces matched, and \<open>ok\<close> says whether its root did.\<close>

lemma root_outcome:
  assumes "if ok then flag' = flag \<and> r' = r1\<lparr>vr_roots_matched := vr_roots_matched r1 + 1\<rparr> else \<not> flag' \<and> r' = r1"
    and "vr_pieces_matched r1 = vr_pieces_matched r + m" "vr_pieces_expected r1 = vr_pieces_expected r + n"
    and "vr_roots_matched r1 = vr_roots_matched r" "vr_roots_expected r1 = vr_roots_expected r + 1"
    and "m \<le> n" "counted r"
  shows "counted r' \<and> (intact flag' r' \<longleftrightarrow> intact flag r \<and> ok \<and> m = n) \<and> vr_bytes_verified r' = vr_bytes_verified r1"
proof (cases ok)
  case True
  with assms show ?thesis by (simp add: counted_def intact_def) linarith
next
  case False
  with assms show ?thesis by (simp add: counted_def intact_def)
qed

context recording_os
begin

lemma hash_content_steps:
  assumes "hash_content lib os h pl depth spec entry flag r s = (Inr (flag', r'), s')" "0 < s_length spec"
  shows "\<exists>root r1. (if s_length spec \<le> pl then hash_small_file lib os h spec entry (r\<lparr>vr_roots_expected := vr_roots_expected r + 1\<rparr>) s
      else hash_large_file lib os h pl depth spec entry (r\<lparr>vr_roots_expected := vr_roots_expected r + 1\<rparr>) s) =
      (Inr (root, r1), s') \<and>
    (if root = f_pieces_root_raw entry
     then flag' = flag \<and> r' = r1\<lparr>vr_roots_matched := vr_roots_matched r1 + 1\<rparr> else \<not> flag' \<and> r' = r1)"
proof -
  let ?r = "r\<lparr>vr_roots_expected := vr_roots_expected r + 1\<rparr>"
  let ?hash = "if s_length spec \<le> pl then hash_small_file lib os h spec entry ?r
      else hash_large_file lib os h pl depth spec entry ?r"
  obtain x s1 where x: "?hash s = (Inr x, s1)"
    and y: "(case x of (root, r) \<Rightarrow>
        if root = f_pieces_root_raw entry then ret (flag, r\<lparr>vr_roots_matched := vr_roots_matched r + 1\<rparr>)
        else ret (False, r)) s1 = (Inr (flag', r') :: verify_error + _, s')"
    using assms unfolding hash_content_def Let_def if_P [OF assms(2)] bnd_Inr guard_Inr by blast
  obtain root r1 where "x = (root, r1)" by fastforce
  with x y show ?thesis
    by (cases "s_length spec \<le> pl"; cases "root = f_pieces_root_raw entry") (simp_all add: ret_eq)
qed

lemma hash_content_at:
  assumes "hash_content lib os h pl depth spec entry flag r s = (Inr (flag', r'), s')"
    and "content_at lib pl hashes base files D s out" "pl = 2 ^ (14 + d)" "depth = d"
    and "0 \<le> s_length spec" "s_length spec \<le> max_int64" "counted r"
  shows "\<exists>data. content_at lib pl hashes base files D s' (out @ data) \<and> int (length data) = s_length spec \<and>
    counted r' \<and> (intact flag' r' \<longleftrightarrow> intact flag r \<and> file_matches lib d entry data) \<and>
    vr_bytes_verified r' = vr_bytes_verified r + s_length spec"
proof (cases "s_length spec = 0")
  case True
  with assms show ?thesis
    by (intro exI [of _ "[]"]) (auto simp: hash_content_def ret_def file_matches_def)
next
  case False
  with assms(5) have pos: "0 < s_length spec" by simp
  let ?r = "r\<lparr>vr_roots_expected := vr_roots_expected r + 1\<rparr>"
  show ?thesis
  proof (cases "s_length spec \<le> pl")
    case True
    then obtain root r1 where
      small: "hash_small_file lib os h spec entry ?r s = (Inr (root, r1), s')"
      and fin: "if root = f_pieces_root_raw entry
        then flag' = flag \<and> r' = r1\<lparr>vr_roots_matched := vr_roots_matched r1 + 1\<rparr> else \<not> flag' \<and> r' = r1"
      using hash_content_steps [OF assms(1) pos] by auto
    from hash_small_file_at [OF small assms(2,3) pos True assms(6)] obtain data where
      data: "content_at lib pl hashes base files D s' (out @ data)" "int (length data) = s_length spec"
        "root = file_root lib d data" "r1 = compare_piece (root = f_pieces_root_raw entry) (s_length spec) ?r" by auto
    have "length data \<le> 2 ^ (14 + d)" "data \<noteq> []"
      using data(2) True pos assms(3) by (metis of_nat_le_iff of_nat_numeral of_nat_power, auto)
    then have "file_matches lib d entry data \<longleftrightarrow> root = f_pieces_root_raw entry"
      using data(3) by (auto simp: file_matches_def)
    with root_outcome [OF fin, of r "if root = f_pieces_root_raw entry then 1 else 0" 1] data assms(7) show ?thesis
      by (intro exI [of _ data]) (simp split: if_splits)
  next
    case large: False
    then obtain root r1 where
      big: "hash_large_file lib os h pl depth spec entry ?r s = (Inr (root, r1), s')"
      and fin: "if root = f_pieces_root_raw entry
        then flag' = flag \<and> r' = r1\<lparr>vr_roots_matched := vr_roots_matched r1 + 1\<rparr> else \<not> flag' \<and> r' = r1"
      using hash_content_steps [OF assms(1) pos] by auto
    have "pl < s_length spec" using large by simp
    from hash_large_file_at [OF big assms(2-4) this assms(6)] obtain data where
      data: "content_at lib pl hashes base files D s' (out @ data)" "int (length data) = s_length spec"
        "root = file_root lib d data"
        "vr_pieces_matched r1 = vr_pieces_matched r + matches (piece_roots lib d data)
          (layer_hashes (f_piece_layer_raw entry) (length (piece_roots lib d data)))"
        "vr_pieces_expected r1 = vr_pieces_expected r + length (piece_roots lib d data)"
        "vr_roots_matched r1 = vr_roots_matched r" "vr_roots_expected r1 = vr_roots_expected r + 1"
        "vr_bytes_verified r1 = vr_bytes_verified r + s_length spec" by auto
    let ?hs = "piece_roots lib d data" and ?ls = "layer_hashes (f_piece_layer_raw entry) (length (piece_roots lib d data))"
    have "\<not> length data \<le> 2 ^ (14 + d)" "data \<noteq> []"
      using data(2) large pos assms(3) by (metis of_nat_le_iff of_nat_numeral of_nat_power, auto)
    then have fm: "file_matches lib d entry data \<longleftrightarrow> root = f_pieces_root_raw entry \<and> matches ?hs ?ls = length ?hs"
      using data(3) matches_all_iff [of ?hs ?ls] by (auto simp: file_matches_def)
    have "matches ?hs ?ls \<le> length ?hs" using matches_le [of ?hs ?ls] by simp
    with root_outcome [OF fin data(4-7) _ assms(7)] data(1,2,8) fm show ?thesis
      by (intro exI [of _ data]) simp
  qed
qed

lemma log_check_after: "check_after os h p before w = (Inr u, w') \<Longrightarrow> log w' = log w"
  by (auto simp: check_after_def act_simps split: prod.splits read_result.splits
      dest!: log_file_read log_ops)

lemma verify_v2_content_at:
  assumes "verify_v2_content lib os pl depth spec entry flag r s = (Inr (flag', r'), s')"
    and "run_at lib pl hashes base files D s" "pl = 2 ^ (14 + d)" "depth = d"
    and "0 \<le> s_length spec" "s_length spec \<le> max_int64" "counted r"
  shows "\<exists>data. run_at lib pl hashes base (files @ data) (D @ data) s' \<and> int (length data) = s_length spec \<and>
    counted r' \<and> (intact flag' r' \<longleftrightarrow> intact flag r \<and> file_matches lib d entry data) \<and>
    vr_bytes_verified r' = vr_bytes_verified r + s_length spec"
proof -
  obtain t w where s: "s = (t, w)" by fastforce
  from assms(1) obtain h w1 before w2 t3 w3 w4 w5 where
    op: "open_file_spec os spec w = (Inr h, w1)"
    and st: "stat_opened_content_path os (s_path spec) h w1 = (Inr before, w2)"
    and content: "hash_content lib os h pl depth spec entry flag r (t, w2) = (Inr (flag', r'), (t3, w3))"
    and after: "check_after os h (s_path spec) before w3 = (Inr (), w4)"
    and cl: "close_file os h (s_path spec) w4 = (Inr (), w5)" and s': "s' = (t3, w5)"
    by (auto simp: verify_v2_content_def act_simps s)
  have "log w2 = log w" using log_open_file_spec [OF op] log_stat_opened [OF st] by simp
  then have "content_at lib pl hashes base files D (t, w2) []"
    using assms(2) s by (auto simp: content_at_def intro: run_at_log)
  from hash_content_at [OF content this assms(3-7)] obtain data where
    data: "content_at lib pl hashes base files D (t3, w3) data" "int (length data) = s_length spec" "counted r'"
      "intact flag' r' \<longleftrightarrow> intact flag r \<and> file_matches lib d entry data"
      "vr_bytes_verified r' = vr_bytes_verified r + s_length spec" by auto
  have "log w5 = log w3" using log_check_after [OF after] log_close_file [OF cl] by simp
  with data s' show ?thesis by (auto simp: content_at_def intro: run_at_log)
qed

lemma mirror_padding_at:
  assumes "mirror_padding lib os n s = (Inr u, s')" "run_at lib pl hashes base files D s"
  shows "run_at lib pl hashes base files (D @ replicate (nat n) NUL) s'"
proof (cases "fst s")
  case None
  with assms show ?thesis by (cases hashes) (auto simp: mirror_padding_def run_at_def)
next
  case (Some st)
  with assms obtain st' w' where "write_zero_bytes lib os (nat v2_block_size) n st (snd s) = (None, st', w')"
    "s' = (Some st', w')"
    by (auto simp: mirror_padding_def split: prod.splits option.splits)
  note step = this
  obtain hs where "hashes = Some hs" "stream_inv lib pl hs D st" "0 < pl"
    using assms(2) Some by (cases hashes) (auto simp: run_at_def)
  with step show ?thesis
    using log_write_zero_bytes [OF step(1)] write_zero_bytes_inv [of lib os "nat v2_block_size" n st "snd s" st' w' pl hs D] assms(2)
    by (auto simp: run_at_def v2_block_size_def)
qed

lemma verify_v2_files_at:
  assumes "verify_v2_files lib os pl depth (zip specs entries) flag r s = (Inr (flag', r'), s')"
    and "run_at lib pl hashes base files D s" "pl = 2 ^ (14 + d)" "depth = d" "length specs = length entries"
    and "\<forall>spec \<in> set specs. spec_ok spec"
    and "counted r"
  shows "\<exists>segs. list_all2 seg_ok specs segs \<and> counted r' \<and>
    run_at lib pl hashes base (files @ concat (map2 from_file specs segs)) (D @ concat segs) s' \<and>
    (intact flag' r' \<longleftrightarrow> intact flag r \<and> files_match lib d specs entries segs)"
  using assms(5,1,2,6,7)
proof (induction specs entries arbitrary: flag r s files D rule: list_induct2)
  case Nil
  then show ?case by (auto simp: ret_def)
next
  case (Cons spec specs entry entries)
  obtain t w where s: "s = (t, w)" by fastforce
  from Cons.prems(1) obtain w1 where ctx: "check_ctx os w = (Inr (), w1)"
    by (auto simp: act_simps s)
  have at1: "run_at lib pl hashes base files D (t, w1)"
    using Cons.prems(2) s log_check_ctx [OF ctx] by (auto intro: run_at_log)
  have wf: "0 \<le> s_length spec" "s_length spec \<le> max_int64" "s_empty spec \<longrightarrow> s_length spec = 0"
    using Cons.prems(3) by (auto simp: spec_ok_def)
  have specs: "\<forall>spec \<in> set specs. spec_ok spec" using Cons.prems(3) by simp
  have step: ?case if rest: "verify_v2_files lib os pl depth (zip specs entries) flag1 r1 s1 = (Inr (flag', r'), s')"
    and seg: "seg_ok spec seg" "counted r1" "run_at lib pl hashes base (files @ from_file spec seg) (D @ seg) s1"
      "intact flag1 r1 \<longleftrightarrow> intact flag r \<and> (s_padding spec \<or> file_matches lib d entry seg)" for seg flag1 r1 s1
  proof -
    from Cons.IH [OF rest seg(3) specs seg(2)] obtain segs where
      "list_all2 seg_ok specs segs" "counted r'"
      "run_at lib pl hashes base ((files @ from_file spec seg) @ concat (map2 from_file specs segs)) ((D @ seg) @ concat segs) s'"
      "intact flag' r' \<longleftrightarrow> intact flag1 r1 \<and> files_match lib d specs entries segs"
      by blast
    with seg(1,4) show ?thesis by (intro exI [of _ "seg # segs"]) auto
  qed
  note unfolded = Cons.prems(1) [unfolded zip_Cons_Cons verify_v2_files.simps, unfolded bnd_Inr on_system_Inr s]
  show ?case
  proof (cases "s_padding spec")
    case True
    with unfolded ctx obtain s1 where "mirror_padding lib os (s_length spec) (t, w1) = (Inr (), s1)"
      "verify_v2_files lib os pl depth (zip specs entries) flag (r\<lparr>vr_padding_bytes := vr_padding_bytes r + s_length spec\<rparr>) s1 =
        (Inr (flag', r'), s')" by (auto simp: act_simps)
    note m = this
    show ?thesis
      by (rule step [OF m(2), of "replicate (nat (s_length spec)) NUL"])
         (use True wf Cons.prems(4) mirror_padding_at [OF m(1) at1] in
           \<open>auto simp: seg_ok_def from_file_def counted_def intact_def\<close>)
  next
    case np: False
    show ?thesis
    proof (cases "s_empty spec")
      case True
      with np unfolded ctx have "verify_v2_files lib os pl depth (zip specs entries) flag r (t, w1) = (Inr (flag', r'), s')"
        by (auto simp: act_simps)
      from step [OF this, of "[]"] True np wf at1 Cons.prems(4) show ?thesis
        by (simp add: seg_ok_def file_matches_def)
    next
      case False
      let ?r = "r\<lparr>vr_files_checked := vr_files_checked r + 1\<rparr>"
      from False np unfolded ctx obtain flag1 r1 s1 where
        c: "verify_v2_content lib os pl depth spec entry flag ?r (t, w1) = (Inr (flag1, r1), s1)"
          "verify_v2_files lib os pl depth (zip specs entries) flag1 r1 s1 = (Inr (flag', r'), s')"
        by (auto simp: act_simps)
      have "counted ?r" "intact flag ?r \<longleftrightarrow> intact flag r" using Cons.prems(4) by (simp_all add: counted_def intact_def)
      with verify_v2_content_at [OF c(1) at1 assms(3,4) wf(1,2)] obtain data where
        "run_at lib pl hashes base (files @ data) (D @ data) s1" "int (length data) = s_length spec" "counted r1"
        "intact flag1 r1 \<longleftrightarrow> intact flag r \<and> file_matches lib d entry data" by blast
      with np show ?thesis by (intro step [OF c(2), of data]) (simp_all add: seg_ok_def from_file_def)
    qed
  qed
qed

lemma verify_v2_exact:
  assumes "verify_v2_resolved lib os meta specs (t, w) = (Inr r, (t', w'))" "\<forall>spec \<in> set specs. spec_ok spec"
    and "0 < m_piece_length meta \<Longrightarrow> stream_at lib (m_piece_length meta) hashes [] t"
  shows "\<exists>d segs. m_piece_length meta = 2 ^ (14 + d) \<and> delivered specs (log w) w' segs \<and>
    stream_at lib (m_piece_length meta) hashes (concat segs) t' \<and>
    (vr_verified r \<longleftrightarrow> files_match lib d specs (m_files meta) segs)"
proof -
  let ?pl = "m_piece_length meta"
  from assms(1) obtain d flag r1 t1 w1 where depth: "v2_piece_layer_depth ?pl = Inr d"
    and len: "length specs = length (m_files meta)"
    and files: "verify_v2_files lib os ?pl d (zip specs (m_files meta)) True
      (empty_result (m_version meta) ''v2-sha256-merkle'' ''file_identity_size_mtime_checked_non_atomic'' 0) (t, w) =
      (Inr (flag, r1), (t1, w1))"
    and stable: "ensure_stable os specs w1 = (Inr (), w')" and fin: "t' = t1" "r = finish_v2 lib specs flag r1"
    by (auto simp: verify_v2_resolved_def act_simps split: if_splits)
  have pl: "?pl = 2 ^ (14 + d)" using depth by (simp add: v2_piece_layer_depth_iff)
  then have at: "run_at lib ?pl hashes (log w) [] [] (t, w)" using assms(3) by (simp add: run_at_def)
  have fresh: "counted (empty_result v e a 0)" "intact True (empty_result v e a 0)" for v e a
    by (simp_all add: counted_def intact_def empty_result_def)
  from verify_v2_files_at [OF files at pl refl len assms(2) fresh(1)] fresh(2) obtain segs where
    segs: "list_all2 seg_ok specs segs" "run_at lib ?pl hashes (log w) (concat (map2 from_file specs segs)) (concat segs) (t1, w1)"
      "intact flag r1 \<longleftrightarrow> files_match lib d specs (m_files meta) segs" by auto
  have "vr_verified r \<longleftrightarrow> intact flag r1" using fin(2) by (simp add: finish_v2_def Let_def intact_def)
  with pl segs fin(1) log_ensure_stable [OF stable] show ?thesis
    by (intro exI [of _ d] exI [of _ segs]) (simp add: delivered_def run_at_def)
qed

lemma verify_hybrid_exact:
  assumes "verify_hybrid_resolved lib os meta specs w = (Inr r, w')" "\<forall>spec \<in> set specs. spec_ok spec"
  shows "\<exists>d segs. m_piece_length meta = 2 ^ (14 + d) \<and> delivered specs (log w) w' segs \<and>
    int (length (concat segs)) = m_total_length meta \<and>
    (vr_verified r \<longleftrightarrow> files_match lib d specs (m_files meta) segs \<and>
       map (gl_sha1 lib) (chunks (nat (m_piece_length meta)) (concat segs)) = m_piece_hashes meta)"
proof -
  let ?pl = "m_piece_length meta" and ?hs = "m_piece_hashes meta"
  from assms(1) obtain v2 t st where
    v2: "verify_v2_resolved lib os meta specs (Some (new_v1_proof_stream meta), w) = (Inr v2, (t, w'))"
    and compl: "complete_stream lib (the t) = Inr st"
    and total: "vr_proof_stream_bytes (ps_result st) = m_total_length meta"
    and r: "r = combine_hybrid (ps_result st) v2"
    by (auto simp: verify_hybrid_resolved_def fail_def Let_def result_simps split: if_splits prod.splits sum.splits)
  have "stream_at lib ?pl (Some ?hs) [] (Some (new_v1_proof_stream meta))" if "0 < ?pl"
    using that by (simp add: stream_inv_new)
  from verify_v2_exact [OF v2 assms(2) this] obtain d segs where
    d: "?pl = 2 ^ (14 + d)" "delivered specs (log w) w' segs" "stream_at lib ?pl (Some ?hs) (concat segs) t"
      "vr_verified v2 \<longleftrightarrow> files_match lib d specs (m_files meta) segs" by blast
  have pl: "0 < ?pl" using d(1) by simp
  have "stream_inv lib ?pl ?hs (concat segs) (the t)" using d(3) by (cases t) auto
  from complete_stream_exact [OF compl this pl] have
    st: "length (chunks (nat ?pl) (concat segs)) = length ?hs" "vr_pieces_expected (ps_result st) = length ?hs"
      "vr_proof_stream_bytes (ps_result st) = int (length (concat segs))"
      "vr_pieces_matched (ps_result st) = matches (map (gl_sha1 lib) (chunks (nat ?pl) (concat segs))) ?hs" by blast+
  have "vr_verified r \<longleftrightarrow> vr_pieces_matched (ps_result st) = vr_pieces_expected (ps_result st) \<and> vr_verified v2"
    by (simp add: r combine_hybrid_def Let_def)
  with st matches_all_iff [of "map (gl_sha1 lib) (chunks (nat ?pl) (concat segs))" ?hs] d total show ?thesis
    by (intro exI [of _ d] exI [of _ segs]) auto
qed

end

end
