(* ===== verification/VerifyEnd.thy ===== *)
theory VerifyEnd
  imports MetaInfoProps VerifyV2Props Resolve
begin

text \<open>
  The verifiers from a parsed metafile to the verdict, on every system: resolving reads no content, so the bytes
  read are those of the proof, and the verdict says what they hash to.
\<close>

section \<open>Resolving reads nothing\<close>

locale recording_names = recording_os os log for os :: "'w os" and log :: "'w \<Rightarrow> bytes" +
  fixes ns :: "'w names"
  assumes log_abs: "log (snd (nm_abs ns p w)) = log w"
    and log_eval: "log (snd (nm_eval ns p w)) = log w"
    and log_name: "log (snd (nm_lstat ns p w)) = log w"
begin

lemma log_lookup:
  "lookup (nm_eval ns p) e w = (r, w') \<Longrightarrow> log w' = log w"
  "lookup (nm_lstat ns p) e w = (r', w') \<Longrightarrow> log w' = log w"
  "call (nm_abs ns p) e w = (r'', w') \<Longrightarrow> log w' = log w"
  using log_abs [of p w] log_eval [of p w] log_name [of p w]
  by (auto simp: lookup_def call_def split: prod.splits sum.splits option.splits)

lemma log_secure_join_loop: "secure_join_loop ns root i cs current w = (Inr p, w') \<Longrightarrow> log w' = log w"
proof (induction cs arbitrary: i current w)
  case (Cons raw rest)
  then show ?case
    unfolding secure_join_loop.simps Let_def bnd_Inr guard_Inr by (auto dest!: log_lookup)
qed (simp add: ret_eq)

lemma log_secure_join: "secure_join_existing lib ns root cs sem w = (Inr p, w') \<Longrightarrow> log w' = log w"
  by (auto simp: secure_join_existing_def bnd_Inr guard_Inr fail_eq split: sum.splits
      dest!: log_lookup log_secure_join_loop)

lemma log_resolve_multi: "resolve_multi lib ns sem path entries w = (Inr specs, w') \<Longrightarrow> log w' = log w"
proof (induction entries arbitrary: w specs)
  case (Cons entry entries)
  then show ?case
    by (cases "is_padding entry") (auto simp: bnd_Inr as_verify_Inr ret_eq dest!: log_secure_join)
qed (simp add: ret_eq)

lemma log_resolve_single: "resolve_single lib ns sem entry path w = (Inr specs, w') \<Longrightarrow> log w' = log w"
  unfolding resolve_single_def bnd_Inr
  by (auto simp: as_verify_Inr ret_eq bnd_Inr guard_Inr split: if_splits dest!: log_lookup log_secure_join)

lemma log_preflight: "preflight os specs w = (Inr specs', w') \<Longrightarrow> log w' = log w"
proof (induction specs arbitrary: w specs')
  case (Cons spec specs)
  then show ?case
    by (auto simp: bnd_Inr ret_eq guard_Inr preflight_spec_def split: if_splits option.splits
        dest!: log_check_ctx log_inspect_bound log_call)
qed (simp add: ret_eq)

lemma log_resolve_files: "resolve_files lib ns os sem meta path w = (Inr specs, w') \<Longrightarrow> log w' = log w"
  by (auto simp: resolve_files_def bnd_Inr guard_Inr fail_eq split: sum.splits if_splits
      dest!: log_resolve_multi log_resolve_single log_preflight log_call)

end

interpretation logging: recording_names "logging os" snd "logging_names ns" for os ns
  by unfold_locales (simp_all add: logging_names_def logged_def split: prod.splits)

section \<open>The bytes of a manifest\<close>

text \<open>
  \<open>manifest_bytes entries segs read\<close>: one segment per entry, of the declared length, zeros for padding; \<open>read\<close>
  is what came from files.
\<close>

definition manifest_bytes :: "file_entry list \<Rightarrow> bytes list \<Rightarrow> bytes \<Rightarrow> bool" where
  "manifest_bytes entries segs read \<longleftrightarrow>
     list_all2 (\<lambda>entry seg. int (length seg) = f_length entry \<and>
       (is_padding entry \<longrightarrow> seg = replicate (length seg) NUL)) entries segs \<and>
     read = concat (map2 (\<lambda>entry seg. if is_padding entry then [] else seg) entries segs)"

definition roots_match :: "golib \<Rightarrow> nat \<Rightarrow> file_entry list \<Rightarrow> bytes list \<Rightarrow> bool" where
  "roots_match lib d entries segs \<longleftrightarrow>
     list_all2 (\<lambda>entry seg. is_padding entry \<or> file_matches lib d entry seg) entries segs"

lemma delivered_manifest:
  assumes "list_all2 spec_for entries specs" "list_all2 seg_ok specs segs"
  shows "manifest_bytes entries segs (concat (map2 from_file specs segs))"
    and "files_match lib d specs entries segs \<longleftrightarrow> roots_match lib d entries segs"
proof -
  have "manifest_bytes entries segs (concat (map2 from_file specs segs)) \<and>
      (files_match lib d specs entries segs \<longleftrightarrow> roots_match lib d entries segs)"
    using assms
  proof (induction entries specs arbitrary: segs rule: list_all2_induct)
    case (Cons entry entries spec specs)
    then obtain seg rest where "segs = seg # rest" "seg_ok spec seg" "list_all2 seg_ok specs rest"
      by (auto simp: list_all2_Cons1)
    with Cons show ?case
      by (auto simp: manifest_bytes_def roots_match_def spec_for_def seg_ok_def from_file_def)
  qed (auto simp: manifest_bytes_def roots_match_def)
  then show "manifest_bytes entries segs (concat (map2 from_file specs segs))"
    and "files_match lib d specs entries segs \<longleftrightarrow> roots_match lib d entries segs" by simp_all
qed

lemma parsed_spec_ok:
  assumes "parse_metainfo lib data = Inr meta" "list_all2 spec_for (m_files meta) specs"
  shows "\<forall>spec \<in> set specs. spec_ok spec"
proof
  fix spec assume "spec \<in> set specs"
  then obtain entry where e: "entry \<in> set (m_files meta)" "spec_for entry spec"
    using assms(2) by (metis in_set_conv_nth list_all2_lengthD list_all2_nthD2 nth_mem)
  from assms(1) have "lengths_ok meta" by (rule parse_metainfo_facts)
  then have nonneg: "\<forall>f \<in> set (m_files meta). 0 \<le> f_length f"
    and total: "m_total_length meta = sum_list (map f_length (m_files meta))" "m_total_length meta \<le> max_int64"
    by (auto simp: lengths_ok_def)
  have "f_length entry \<le> sum_list (map f_length (m_files meta))"
    by (rule member_le_sum_list) (use e(1) nonneg in auto)
  with e nonneg total show "spec_ok spec" by (auto simp: spec_ok_def spec_for_def)
qed

section \<open>The verdicts\<close>

lemma verify_v1_decided:
  assumes "parse_metainfo lib data = Inr meta" "digest_sizes lib"
    and "verify_v1 lib (logging_names ns) (logging os) sem meta path (w, []) = (Inr r, (w', read))"
  shows "\<exists>segs. manifest_bytes (m_files meta) segs read \<and>
    (vr_verified r \<longleftrightarrow> map (gl_sha1 lib) (chunks (nat (m_piece_length meta)) (concat segs)) = m_piece_hashes meta)"
proof -
  from assms(3) obtain specs s where v1: "m_info_hash_v1 meta \<noteq> []"
    and res: "resolve_files lib (logging_names ns) (logging os) sem meta path (w, []) = (Inr specs, s)"
    and run: "verify_v1_resolved lib (logging os) meta specs s = (Inr r, (w', read))"
    by (auto simp: verify_v1_def bnd_Inr fail_eq split: if_splits)
  have len: "length specs = length (m_files meta)"
    using run by (auto simp: verify_v1_resolved_def Let_def fail_eq split: if_splits)
  note specs = resolve_files_specs [OF res len]
  note ok = parsed_spec_ok [OF assms(1) specs]
  have "lengths_ok meta" using assms(1) by (rule parse_metainfo_facts)
  then have total: "0 \<le> m_total_length meta" by (auto simp: lengths_ok_def intro!: sum_list_nonneg)
  have hashes: "int (length (m_piece_hashes meta)) = (m_total_length meta + m_piece_length meta - 1) div m_piece_length meta"
    using parsed_piece_hashes [OF assms(1,2)] v1 by simp
  have "\<forall>spec \<in> set specs. 0 \<le> s_length spec" using ok by (auto simp: spec_ok_def)
  from logging.verify_v1_exact [OF run this total hashes] obtain segs where
    segs: "logging.delivered specs (snd s) (w', read) segs"
      "vr_verified r \<longleftrightarrow> map (gl_sha1 lib) (chunks (nat (m_piece_length meta)) (concat segs)) = m_piece_hashes meta" by blast
  have "snd s = []" using logging.log_resolve_files [OF res] by simp
  with segs delivered_manifest [OF specs, of segs] show ?thesis
    by (intro exI) (auto simp: logging.delivered_def)
qed

lemma verify_v2_decided:
  assumes "parse_metainfo lib data = Inr meta"
    and "verify_v2 lib (logging_names ns) (logging os) sem meta path (w, []) = (Inr r, (w', read))"
  shows "\<exists>d segs. m_piece_length meta = 2 ^ (14 + d) \<and> manifest_bytes (m_files meta) segs read \<and>
    (vr_verified r \<longleftrightarrow> roots_match lib d (m_files meta) segs)"
proof -
  from assms(2) obtain specs s where
    res: "resolve_files lib (logging_names ns) (logging os) sem meta path (w, []) = (Inr specs, s)"
    and "(case verify_v2_resolved lib (logging os) meta specs (None, s) of (r, (_, w)) \<Rightarrow> (r, w)) = (Inr r, (w', read))"
    by (auto simp: verify_v2_def bnd_Inr fail_eq split: if_splits)
  then obtain t where run: "verify_v2_resolved lib (logging os) meta specs (None, s) = (Inr r, (t, (w', read)))"
    by (cases "verify_v2_resolved lib (logging os) meta specs (None, s)") auto
  have len: "length specs = length (m_files meta)"
    using run by (auto simp: verify_v2_resolved_def bnd_Inr fail_eq split: if_splits)
  note specs = resolve_files_specs [OF res len]
  from logging.verify_v2_exact [OF run parsed_spec_ok [OF assms(1) specs], of None] obtain d segs where
    segs: "m_piece_length meta = 2 ^ (14 + d)" "logging.delivered specs (snd s) (w', read) segs"
      "vr_verified r \<longleftrightarrow> files_match lib d specs (m_files meta) segs" by auto
  have "snd s = []" using logging.log_resolve_files [OF res] by simp
  with segs delivered_manifest [OF specs, of segs] show ?thesis
    by (intro exI) (auto simp: logging.delivered_def)
qed

lemma verify_hybrid_decided:
  assumes "parse_metainfo lib data = Inr meta"
    and "verify_hybrid lib (logging_names ns) (logging os) sem meta path (w, []) = (Inr r, (w', read))"
  shows "\<exists>d segs. m_piece_length meta = 2 ^ (14 + d) \<and> manifest_bytes (m_files meta) segs read \<and>
    (vr_verified r \<longleftrightarrow> roots_match lib d (m_files meta) segs \<and>
       map (gl_sha1 lib) (chunks (nat (m_piece_length meta)) (concat segs)) = m_piece_hashes meta)"
proof -
  from assms(2) obtain specs s where
    res: "resolve_files lib (logging_names ns) (logging os) sem meta path (w, []) = (Inr specs, s)"
    and run: "verify_hybrid_resolved lib (logging os) meta specs s = (Inr r, (w', read))"
    by (auto simp: verify_hybrid_def bnd_Inr fail_eq split: if_splits)
  have len: "length specs = length (m_files meta)"
    using run by (auto simp: verify_hybrid_resolved_def verify_v2_resolved_def bnd_Inr fail_eq
        split: if_splits prod.splits sum.splits)
  note specs = resolve_files_specs [OF res len]
  from logging.verify_hybrid_exact [OF run parsed_spec_ok [OF assms(1) specs]] obtain d segs where
    segs: "m_piece_length meta = 2 ^ (14 + d)" "logging.delivered specs (snd s) (w', read) segs"
      "vr_verified r \<longleftrightarrow> files_match lib d specs (m_files meta) segs \<and>
         map (gl_sha1 lib) (chunks (nat (m_piece_length meta)) (concat segs)) = m_piece_hashes meta" by blast
  have "snd s = []" using logging.log_resolve_files [OF res] by simp
  with segs delivered_manifest [OF specs, of segs] show ?thesis
    by (intro exI) (auto simp: logging.delivered_def)
qed

section \<open>Properties\<close>

text \<open>
  Claim C16. The v1 verdict: for every metafile that parses and every file system, a returned result decides
  whether the content hashes to the manifest. The bytes read were the segments of the content files, one per entry
  in order and of the declared length, with zeros in between for padding, and the result is verified exactly when
  the SHA-1 digests of their pieces are the manifest's. Files may change while they are read: the statement is about
  the bytes that were read, once each.
\<close>

theorem verify_v1_verdict:
  assumes "parse_metainfo lib data = Inr meta" "digest_sizes lib"
    and "verify_v1 lib (logging_names ns) (logging os) sem meta path (w, []) = (Inr r, (w', read))"
  shows "\<exists>segs. manifest_bytes (m_files meta) segs read \<and>
    (vr_verified r \<longleftrightarrow> map (gl_sha1 lib) (chunks (nat (m_piece_length meta)) (concat segs)) = m_piece_hashes meta)"
  using verify_v1_decided [OF assms] .

text \<open>
  Claim C17. The v2 verdict: a returned result is verified exactly when every content file, as it was read once, has
  the Merkle root of its entry and, above one piece, the piece layer of its entry.
\<close>

theorem verify_v2_verdict:
  assumes "parse_metainfo lib data = Inr meta"
    and "verify_v2 lib (logging_names ns) (logging os) sem meta path (w, []) = (Inr r, (w', read))"
  shows "\<exists>d segs. m_piece_length meta = 2 ^ (14 + d) \<and> manifest_bytes (m_files meta) segs read \<and>
    (vr_verified r \<longleftrightarrow> roots_match lib d (m_files meta) segs)"
  using verify_v2_decided [OF assms] .

text \<open>
  Claim C3. The hybrid verdict: one read of the content serves both proofs. The result is verified exactly when the
  same bytes have the manifest's roots and layers file by file and the manifest's SHA-1 digests piece by piece.
\<close>

theorem verify_hybrid_verdict:
  assumes "parse_metainfo lib data = Inr meta"
    and "verify_hybrid lib (logging_names ns) (logging os) sem meta path (w, []) = (Inr r, (w', read))"
  shows "\<exists>d segs. m_piece_length meta = 2 ^ (14 + d) \<and> manifest_bytes (m_files meta) segs read \<and>
    (vr_verified r \<longleftrightarrow> roots_match lib d (m_files meta) segs \<and>
       map (gl_sha1 lib) (chunks (nat (m_piece_length meta)) (concat segs)) = m_piece_hashes meta)"
  using verify_hybrid_decided [OF assms] .

text \<open>
  Claim C23. The v1 proof stream does not depend on how the bytes are cut into writes: when all writes succeed and
  the stream completes, there was one digest per piece of the concatenation, and the pieces counted as matched are
  those whose digest agrees.
\<close>

theorem proof_stream_chunking:
  assumes "stream_writes lib os ws (new_v1_proof_stream meta) w = (None, st, w')" "complete_stream lib st = Inr st'"
    and "0 < m_piece_length meta"
  shows "length (chunks (nat (m_piece_length meta)) (concat ws)) = length (m_piece_hashes meta) \<and>
    vr_pieces_matched (ps_result st') =
      matches (map (gl_sha1 lib) (chunks (nat (m_piece_length meta)) (concat ws))) (m_piece_hashes meta)"
  using complete_stream_exact [OF assms(2) _ assms(3)] stream_writes_inv [OF assms(1) stream_inv_new [OF assms(3)] assms(3)]
  by auto

section \<open>A concrete run\<close>

text \<open>One file \<open>/srv/a\<close> with the byte \<open>b\<close> and an empty directory \<open>/dst\<close>; the state is the read offset.\<close>

definition one_file_info :: file_info where
  "one_file_info = \<lparr>fi_id = 7, fi_size = 1, fi_mtime = 0, fi_regular = True, fi_link_like = False, fi_dir = False\<rparr>"

definition one_dir_info :: file_info where
  "one_dir_info = \<lparr>fi_id = 9, fi_size = 0, fi_mtime = 0, fi_regular = False, fi_link_like = False, fi_dir = True\<rparr>"

definition one_file_os :: "nat os" where
  "one_file_os =
     \<lparr>ctx_done = (\<lambda>w. (False, w)), os_open = (\<lambda>p w. (Some 3, 0)), os_open_bound = (\<lambda>k w. (None, w)),
      os_fstat = (\<lambda>h w. (Some one_file_info, w)), os_lstat = (\<lambda>p w. (Some one_file_info, w)),
      os_stat = (\<lambda>p w. (Some (if p = ''/dst'' then one_dir_info else one_file_info), w)),
      os_read = (\<lambda>h n w. if w = 0 then (Data ''b'', 1) else (Eof, w)), os_close = (\<lambda>h w. (True, w))\<rparr>"

definition one_file_names :: "nat names" where
  "one_file_names =
     \<lparr>nm_abs = (\<lambda>p w. (Some p, w)), nm_eval = (\<lambda>p w. (if p = ''/srv/a'' \<or> p = ''/dst'' then Inr p else Inl OtherError, w)),
      nm_lstat = (\<lambda>p w. (if p = ''/dst/a'' then Inl NotExist else Inr one_file_info, w))\<rparr>"

text \<open>A hybrid metafile of that file, under the sample digests.\<close>

definition one_hybrid :: bvalue where
  "one_hybrid =
     BDict [(''info'', BDict [
       (''file tree'', BDict [(''a'', BDict [([], BDict [(''length'', BInt 1), (''pieces root'', BBytes (pad_to 32 ''b''))])])]),
       (''length'', BInt 1), (''meta version'', BInt 2), (''name'', BBytes ''a''), (''piece length'', BInt 16384),
       (''pieces'', BBytes (pad_to 20 ''b''))])]"

lemma one_hybrid_acceptable: "acceptable_value one_hybrid"
  by (simp add: acceptable_value_def one_hybrid_def default_decode_limits_def in_int64_def max_int64_def pad_to_def
      Let_def encode_bytes_def render_int_def decimal.simps)

definition one_entry :: file_entry where
  "one_entry = (file_at [''a''] 1 [])\<lparr>f_pieces_root := hex_encode (pad_to 32 ''b''), f_pieces_root_raw := pad_to 32 ''b''\<rparr>"

lemma one_hybrid_manifest:
  assumes "parse_bencode data = Inr n" "value_of n = one_hybrid"
  shows "\<exists>m. parse_metainfo sample_lib data = Inr m \<and> m_version m = ''hybrid'' \<and> m_files m = [one_entry] \<and>
     m_piece_length m = 16384 \<and> m_piece_hashes m = [pad_to 20 ''b''] \<and> \<not> m_multi_file m \<and> m_total_length m = 1 \<and>
     m_info_hash_v1 m \<noteq> [] \<and> m_info_hash_v2 m \<noteq> [] \<and> m_name_raw m = ''a'' \<and> m_variant_id m \<noteq> []"
  using assms hex_digest_nonempty [OF digest_sizes_sample]
  by (auto simp: one_hybrid_def Let_def value_of_iff map_eq_Cons_conv)
     (simp add: metainfo_eval path_eval first_rune_def Let_def byte_val_def parse_v2_files_def pad_to_def
       v2_leaf_def append_file_def validate_alternate_path_def parse_v1_file_def upt_rec map_filter_simps
       validate_v2_piece_layers_def reconcile_hybrid_layouts_def non_padding_files_def one_entry_def wrap64_def)

lemma one_hybrid_parsed:
  obtains m where "parse_metainfo sample_lib (encode one_hybrid) = Inr m" "m_version m = ''hybrid''"
    "m_files m = [one_entry]" "m_piece_length m = 16384" "m_piece_hashes m = [pad_to 20 ''b'']"
    "\<not> m_multi_file m" "m_total_length m = 1" "m_info_hash_v1 m \<noteq> []" "m_info_hash_v2 m \<noteq> []"
    "m_name_raw m = ''a''" "m_variant_id m \<noteq> []"
  using parse_bencode_encode [OF one_hybrid_acceptable] one_hybrid_manifest by blast

definition one_spec :: file_spec where
  "one_spec = (content_spec ''/srv/a'' 1 False)\<lparr>s_size_before := 1, s_mod_before := 0, s_info_before := one_file_info\<rparr>"

lemma one_checked: "manifest_paths_checked sample_lib [one_entry] posix_semantics = Inr ()"
  by (simp add: manifest_paths_checked_def one_entry_def file_at_def path_eval byte_val_def is_padding_def)

lemma one_single:
  "resolve_single sample_lib (logging_names one_file_names) posix_semantics one_entry ''/srv/a'' (0, []) =
    (Inr [content_spec ''/srv/a'' 1 False], (0, []))"
  by (simp add: resolve_single_def bnd_def lookup_def call_def guard_def ret_def logging_names_def logged_def
      one_file_names_def one_file_info_def one_entry_def file_at_def is_padding_def)

lemma one_preflight:
  "preflight (logging one_file_os) [content_spec ''/srv/a'' 1 False] (w, l) = (Inr [one_spec], (w, l))"
  by (simp add: preflight_spec_def bnd_def call_def guard_def ret_def logging_def logged_def one_file_os_def
      check_ctx_def one_spec_def content_spec_def padding_spec_def reads_content_def one_file_info_def)

lemma one_resolved:
  assumes "m_files m = [one_entry]" "\<not> m_multi_file m"
  shows "resolve_files sample_lib (logging_names one_file_names) (logging one_file_os) posix_semantics m ''/srv/a'' (0, []) =
    (Inr [one_spec], (0, []))"
  using assms by (simp add: resolve_files_def one_checked bnd_def one_single one_preflight del: preflight.simps)

lemmas one_run = bnd_def call_def guard_def ret_def logging_def logged_def one_file_os_def one_file_info_def check_ctx_def
  one_spec_def content_spec_def padding_spec_def reads_content_def on_system_def close_file_def closing_def
  stat_opened_content_path_def open_file_spec_def same_snapshot_def same_info_def file_read_def Let_def

lemma one_stable: "ensure_stable (logging one_file_os) [one_spec] (w, l) = (Inr (), (w, l))"
  by (simp add: one_run)

lemma one_v1_run:
  assumes "m_files m = [one_entry]" "m_piece_length m = 16384" "m_piece_hashes m = [pad_to 20 ''b'']"
    "m_total_length m = 1" "m_info_hash_v1 m \<noteq> []"
  shows "\<exists>r. verify_v1_resolved sample_lib (logging one_file_os) m [one_spec] (w, l) = (Inr r, (1, l @ ''b'')) \<and> vr_verified r"
  using assms
  by (simp add: verify_v1_resolved_def one_run read_full.simps seq_read_def seq_read_loop.simps new_sequence_reader_def
      seq_open_def seq_take_def seq_advance_def no_extra_def seq_close_def finish_v1_def count_files_def count_piece_def
      empty_result_def sample_lib_def)

lemma one_segment:
  assumes "tree = (if stream = None then None else Some ((the stream)\<lparr>ps_hasher := ''b'', ps_piece_bytes := 1,
      ps_result := (ps_result (the stream))\<lparr>vr_proof_stream_bytes := 1\<rparr>\<rparr>))"
    and "stream = None \<or> (\<exists>hs v. stream = Some \<lparr>ps_piece_length = 16384, ps_expected = hs, ps_hasher = [],
      ps_piece_bytes = 0, ps_piece_index = 0, ps_result = empty_result v ''v1-sha1-pieces'' [] (length hs)\<rparr>)"
  shows "hash_segment sample_lib (logging one_file_os) 3 1 1 (stream, (0, l)) = (Inr (pad_to 32 ''b''), (tree, (1, l @ ''b'')))"
proof -
  have full: "io_read_full (content_io sample_lib (logging one_file_os) 3) 1 (stream, (0, l)) = (Inr ''b'', (tree, (1, l @ ''b'')))"
    using assms
    by (auto simp: content_io_def read_full.simps tee_read_def file_reader_def file_read_def logging_def logged_def
        one_file_os_def stream_write.simps empty_result_def)
  have poll: "io_poll (content_io sample_lib (logging one_file_os) 3) s = (False, s)" for s
    by (simp add: content_io_def logging_def logged_def one_file_os_def split: prod.splits)
  have sha: "gl_sha256 sample_lib ''b'' = pad_to 32 ''b''" by (simp add: sample_lib_def)
  have "rbind (add_layer sample_lib 0 [pad_to 32 ''b''] new_accumulator) acc_root = Inr (pad_to 32 ''b'')"
    using add_layer_root [of "[pad_to 32 ''b'']" 0 0 sample_lib] by simp
  then obtain a where "acc_add sample_lib (pad_to 32 ''b'') 0 new_accumulator = Inr a" "acc_root a = Inr (pad_to 32 ''b'')"
    by (auto simp: result_simps split: sum.splits)
  then show ?thesis
    by (simp add: hash_segment_def hash_v2_segment_def Let_def segment_loop.simps poll full [unfolded One_nat_def]
        v2_block_size_def sha)
qed

lemma one_v2_run:
  assumes "m_files m = [one_entry]" "m_piece_length m = 16384" "m_info_hash_v2 m \<noteq> []"
    and "tree = (if stream = None then None else Some ((the stream)\<lparr>ps_hasher := ''b'', ps_piece_bytes := 1,
      ps_result := (ps_result (the stream))\<lparr>vr_proof_stream_bytes := 1\<rparr>\<rparr>))"
    and "stream = None \<or> (\<exists>hs v. stream = Some \<lparr>ps_piece_length = 16384, ps_expected = hs, ps_hasher = [],
      ps_piece_bytes = 0, ps_piece_index = 0, ps_result = empty_result v ''v1-sha1-pieces'' [] (length hs)\<rparr>)"
  shows "\<exists>r. verify_v2_resolved sample_lib (logging one_file_os) m [one_spec] (stream, (w, l)) = (Inr r, (tree, (1, l @ ''b''))) \<and>
    vr_verified r \<and> vr_pieces_matched r = 1 \<and> vr_pieces_expected r = 1 \<and>
    vr_snapshot_authority r \<and> vr_snapshots r = [(''/srv/a'', one_file_info)]"
proof -
  have d: "v2_piece_layer_depth 16384 = Inr 0" by (simp add: v2_piece_layer_depth_iff)
  have t: "next_power_of_two 1 = Inr 1" by (simp add: next_power_of_two_eq tree_height.simps)
  have content: "\<exists>r. verify_v2_content sample_lib (logging one_file_os) 16384 0 one_spec one_entry True
      (e\<lparr>vr_files_checked := 1\<rparr>) (stream, (w, l)) = (Inr (True, r), (tree, (1, l @ ''b''))) \<and>
      vr_pieces_matched r = 1 \<and> vr_pieces_expected r = 1 \<and> vr_roots_matched r = 1 \<and> vr_roots_expected r = 1 \<and> vr_snapshots r = []"
    if "e = empty_result v ''v2-sha256-merkle'' a 0" for e v a
    using one_segment [OF assms(4,5)] that
    by (simp add: verify_v2_content_def or_close_def check_after_def hash_content_def hash_small_file_def merkle_def one_run
        one_entry_def file_at_def v2_block_size_def t compare_piece_def count_piece_def pad_to_def empty_result_def)
  then obtain r where r: "verify_v2_content sample_lib (logging one_file_os) 16384 0 one_spec one_entry True
      ((empty_result (m_version m) ''v2-sha256-merkle'' ''file_identity_size_mtime_checked_non_atomic'' 0)\<lparr>vr_files_checked := 1\<rparr>)
      (stream, (w, l)) = (Inr (True, r), (tree, (1, l @ ''b'')))"
      "vr_pieces_matched r = 1 \<and> vr_pieces_expected r = 1 \<and> vr_roots_matched r = 1 \<and> vr_roots_expected r = 1 \<and> vr_snapshots r = []" by blast
  have "check_ctx (logging one_file_os) s = (Inr (), s)" for s
    by (simp add: check_ctx_def logging_def logged_def one_file_os_def)
  moreover have "\<not> s_padding one_spec" "\<not> s_empty one_spec" by (simp_all add: one_spec_def content_spec_def padding_spec_def)
  moreover have "vr_files_checked (empty_result v e a n) = 0" for v e a n by (simp add: empty_result_def)
  moreover have "spec_snapshots [one_spec] = [(''/srv/a'', one_file_info)]"
    by (simp add: spec_snapshots_def reads_content_def one_spec_def content_spec_def padding_spec_def)
  ultimately show ?thesis
    using assms(1-3) r by (simp add: verify_v2_resolved_def bnd_def merkle_def d on_system_def ret_def one_stable
        finish_v2_def Let_def del: ensure_stable.simps)
qed

theorem verify_v1_verdict_witness:
  "\<exists>segs. manifest_bytes [one_entry] segs ''b'' \<and> map (gl_sha1 sample_lib) (chunks 16384 (concat segs)) = [pad_to 20 ''b'']"
proof (rule one_hybrid_parsed)
  fix m
  assume m: "parse_metainfo sample_lib (encode one_hybrid) = Inr m" "m_files m = [one_entry]" "m_piece_length m = 16384"
    "m_piece_hashes m = [pad_to 20 ''b'']" "\<not> m_multi_file m" "m_total_length m = 1" "m_info_hash_v1 m \<noteq> []"
  from one_v1_run [OF m(2-4,6,7), of 0 "[]"] obtain r where
    "verify_v1_resolved sample_lib (logging one_file_os) m [one_spec] (0, []) = (Inr r, (1, ''b''))" and r: "vr_verified r" by auto
  then have "verify_v1 sample_lib (logging_names one_file_names) (logging one_file_os) posix_semantics m ''/srv/a'' (0, []) =
      (Inr r, (1, ''b''))"
    using m by (simp add: verify_v1_def bnd_def one_resolved)
  from verify_v1_verdict [OF m(1) digest_sizes_sample this] r m show ?thesis by simp
qed

theorem verify_v2_verdict_witness:
  "\<exists>d segs. (16384 :: int) = 2 ^ (14 + d) \<and> manifest_bytes [one_entry] segs ''b'' \<and> roots_match sample_lib d [one_entry] segs"
proof (rule one_hybrid_parsed)
  fix m
  assume m: "parse_metainfo sample_lib (encode one_hybrid) = Inr m" "m_files m = [one_entry]" "m_piece_length m = 16384"
    "\<not> m_multi_file m" "m_info_hash_v2 m \<noteq> []"
  from one_v2_run [OF m(2,3,5) refl, of None 0 "[]"] obtain r where
    "verify_v2_resolved sample_lib (logging one_file_os) m [one_spec] (None, (0, [])) = (Inr r, (None, (1, ''b'')))"
    and r: "vr_verified r" by auto
  then have "verify_v2 sample_lib (logging_names one_file_names) (logging one_file_os) posix_semantics m ''/srv/a'' (0, []) =
      (Inr r, (1, ''b''))"
    using m by (simp add: verify_v2_def bnd_def one_resolved)
  from verify_v2_verdict [OF m(1) this] r m show ?thesis by simp
qed

lemma one_hybrid_run:
  assumes "m_files m = [one_entry]" "m_piece_length m = 16384" "m_piece_hashes m = [pad_to 20 ''b'']" "m_total_length m = 1"
    and "m_info_hash_v1 m \<noteq> []" "m_info_hash_v2 m \<noteq> []"
  shows "\<exists>r. verify_hybrid_resolved sample_lib (logging one_file_os) m [one_spec] (w, l) = (Inr r, (1, l @ ''b'')) \<and> vr_verified r \<and>
    vr_snapshot_authority r \<and> vr_snapshots r = [(''/srv/a'', one_file_info)]"
proof -
  let ?st = "new_v1_proof_stream m"
  have stream: "?st = \<lparr>ps_piece_length = 16384, ps_expected = m_piece_hashes m, ps_hasher = [],
      ps_piece_bytes = 0, ps_piece_index = 0, ps_result = empty_result (m_version m) ''v1-sha1-pieces'' [] (length (m_piece_hashes m))\<rparr>"
    using assms by (simp add: new_v1_proof_stream_def)
  let ?tree = "?st\<lparr>ps_hasher := ''b'', ps_piece_bytes := 1, ps_result := (ps_result ?st)\<lparr>vr_proof_stream_bytes := 1\<rparr>\<rparr>"
  from one_v2_run [OF assms(1,2,6), of "Some ?tree" "Some ?st" w l] stream obtain v2 where
    v2: "verify_v2_resolved sample_lib (logging one_file_os) m [one_spec] (Some ?st, (w, l)) = (Inr v2, (Some ?tree, (1, l @ ''b'')))"
      "vr_verified v2" "vr_pieces_matched v2 = 1" "vr_pieces_expected v2 = 1"
      "vr_snapshot_authority v2" "vr_snapshots v2 = [(''/srv/a'', one_file_info)]" by auto
  have "\<exists>st. complete_stream sample_lib ?tree = Inr st \<and> vr_proof_stream_bytes (ps_result st) = 1 \<and>
      vr_pieces_matched (ps_result st) = 1 \<and> vr_pieces_expected (ps_result st) = 1"
    unfolding stream using assms(3)
    by (simp add: complete_stream_def finish_piece_def count_piece_def empty_result_def sample_lib_def)
  then obtain st where "complete_stream sample_lib ?tree = Inr st" "vr_proof_stream_bytes (ps_result st) = 1"
    "vr_pieces_matched (ps_result st) = 1" "vr_pieces_expected (ps_result st) = 1" by blast
  with v2 assms(4-6) show ?thesis
    by (simp add: verify_hybrid_resolved_def Let_def combine_hybrid_def max_int64_def)
qed

theorem verify_hybrid_verdict_witness:
  "\<exists>d segs. (16384 :: int) = 2 ^ (14 + d) \<and> manifest_bytes [one_entry] segs ''b'' \<and> roots_match sample_lib d [one_entry] segs \<and>
    map (gl_sha1 sample_lib) (chunks 16384 (concat segs)) = [pad_to 20 ''b'']"
proof (rule one_hybrid_parsed)
  fix m
  assume m: "parse_metainfo sample_lib (encode one_hybrid) = Inr m" "m_files m = [one_entry]" "m_piece_length m = 16384"
    "m_piece_hashes m = [pad_to 20 ''b'']" "\<not> m_multi_file m" "m_total_length m = 1"
    "m_info_hash_v1 m \<noteq> []" "m_info_hash_v2 m \<noteq> []"
  from one_hybrid_run [OF m(2-4,6-8), of 0 "[]"] obtain r where
    "verify_hybrid_resolved sample_lib (logging one_file_os) m [one_spec] (0, []) = (Inr r, (1, ''b''))" and r: "vr_verified r" by auto
  then have "verify_hybrid sample_lib (logging_names one_file_names) (logging one_file_os) posix_semantics m ''/srv/a'' (0, []) =
      (Inr r, (1, ''b''))"
    using m by (simp add: verify_hybrid_def bnd_def one_resolved)
  from verify_hybrid_verdict [OF m(1) this] r m show ?thesis by simp
qed

theorem proof_stream_chunking_witness:
  "\<exists>m :: meta_info. m_piece_hashes m = [pad_to 20 ''b''] \<and> length (chunks 16384 ''b'') = length (m_piece_hashes m)"
proof (rule one_hybrid_parsed)
  fix m :: meta_info
  assume m: "m_piece_length m = 16384" "m_piece_hashes m = [pad_to 20 ''b'']"
  have "\<exists>st st'. stream_writes sample_lib one_file_os [''b''] (new_v1_proof_stream m) 0 = (None, st, 0) \<and>
      complete_stream sample_lib st = Inr st'"
    using m by (simp add: stream_write.simps one_file_os_def new_v1_proof_stream_def Let_def finish_piece_def
        complete_stream_def)
  then obtain st st' where "stream_writes sample_lib one_file_os [''b''] (new_v1_proof_stream m) 0 = (None, st, 0)"
    "complete_stream sample_lib st = Inr st'" by blast
  from proof_stream_chunking [OF this] m show ?thesis by auto
qed

end
