(* ===== verification/SourceProps.thy ===== *)
theory SourceProps
  imports Source VerifyEnd
begin

text \<open>
  What a verified source promises: its bindings are found again by binary search, its verdict is the one of the
  verifiers, a consumed file delivered exactly the verified length, and the root of a single file does not depend
  on the piece length, so that it filters candidates without losing any.
\<close>

section \<open>The root of a file does not depend on the piece length\<close>

lemma length_concat_same: "\<forall>g \<in> set gs. length g = k \<Longrightarrow> length (concat gs) = length gs * k"
  by (induction gs) auto

lemma tree_root_concat:
  "length gs = 2 ^ h \<Longrightarrow> \<forall>g \<in> set gs. length g = 2 ^ d \<Longrightarrow>
     tree_root lib (h + d) (concat gs) = tree_root lib h (map (tree_root lib d) gs)"
proof (induction h arbitrary: gs)
  case 0
  then obtain g where "gs = [g]" by (auto simp: length_Suc_conv)
  then show ?case by simp
next
  case (Suc h)
  let ?l = "take (2 ^ h) gs" and ?r = "drop (2 ^ h) gs"
  have l: "length ?l = 2 ^ h" "\<forall>g \<in> set ?l. length g = 2 ^ d" and r: "length ?r = 2 ^ h" "\<forall>g \<in> set ?r. length g = 2 ^ d"
    using Suc.prems by (auto dest: in_set_takeD in_set_dropD)
  have "length (concat ?l) = 2 ^ (h + d)" using length_concat_same [OF l(2)] l(1) by (simp add: power_add)
  moreover have "concat gs = concat ?l @ concat ?r" by (metis append_take_drop_id concat_append)
  ultimately have "tree_root lib (Suc h + d) (concat gs) =
      v2_hash_pair lib (tree_root lib (h + d) (concat ?l)) (tree_root lib (h + d) (concat ?r))"
    using tree_root_append [of "concat ?l" "h + d" lib "concat ?r"] by simp
  with Suc.IH [OF l] Suc.IH [OF r] show ?case by (simp add: take_map drop_map)
qed

lemma block_hashes_append: "length piece = 16384 * k \<Longrightarrow> block_hashes lib (piece @ rest) = block_hashes lib piece @ block_hashes lib rest"
proof (induction k arbitrary: piece)
  case (Suc k)
  obtain b p where piece: "piece = b @ p" "length b = 16384"
    using Suc.prems by (metis add_leE append_take_drop_id length_take min.absorb2 mult_Suc_right nat_le_iff_add)
  then have "length p = 16384 * k" using Suc.prems by simp
  moreover have "chunks 16384 (b @ u) = b # chunks 16384 u" for u by (rule chunks_append) (simp_all add: piece(2))
  ultimately show ?case using Suc.IH [of p] by (simp add: piece(1) block_hashes_def)
qed (simp add: block_hashes_def)

lemma chunks_member_length: "piece \<in> set (chunks n data) \<Longrightarrow> length piece \<le> n"
proof (induction n data rule: chunks.induct)
  case (1 n data)
  then show ?case by (cases "n = 0 \<or> data = []") (auto simp: chunks.simps [of n data])
qed

text \<open>The leaves of all pieces in order are the blocks of the file, padded at the end only.\<close>

lemma padded_pieces:
  "concat (map (\<lambda>piece. block_hashes lib piece @ replicate (2 ^ d - length (block_hashes lib piece)) zero_hash)
       (chunks (2 ^ (14 + d)) data)) =
     block_hashes lib data @
     replicate (2 ^ d * length (chunks (2 ^ (14 + d)) data) - length (block_hashes lib data)) zero_hash"
proof (induction "length data" arbitrary: data rule: less_induct)
  case less
  let ?P = "2 ^ (14 + d) :: nat"
  have P: "?P = 16384 * 2 ^ d" "0 < ?P" by (simp_all add: power_add)
  consider "data = []" | "data \<noteq> []" "length data \<le> ?P" | "?P < length data" by linarith
  then show ?case
  proof cases
    case 1
    then show ?thesis by (simp add: block_hashes_def)
  next
    case 2
    then show ?thesis by (simp add: chunks_short)
  next
    case 3
    define piece rest where "piece = take ?P data" and "rest = drop ?P data"
    have data: "data = piece @ rest" "length piece = ?P" using 3 by (simp_all add: piece_def rest_def)
    have full: "length (block_hashes lib piece) = 2 ^ d" using data(2) P(1) by (simp add: block_hashes_length)
    have blocks: "block_hashes lib data = block_hashes lib piece @ block_hashes lib rest"
      unfolding data(1) by (rule block_hashes_append) (use data(2) P(1) in simp)
    have pieces: "chunks ?P data = piece # chunks ?P rest"
      unfolding data(1) by (rule chunks_append) (use data(2) P(2) in auto)
    have "length rest < length data" using 3 P(2) unfolding rest_def length_drop by linarith
    from less [OF this] show ?thesis unfolding pieces blocks using full by simp
  qed
qed

lemma tree_height_pieces:
  assumes "2 ^ (14 + d) < length data"
  shows "tree_height (length (block_hashes lib data)) = tree_height (length (piece_roots lib d data)) + d"
proof -
  let ?n = "length (block_hashes lib data)" and ?m = "length (piece_roots lib d data)" and ?P = "2 ^ (14 + d) :: nat"
  have P: "?P = 16384 * 2 ^ d" by (simp add: power_add)
  have n: "?n = (length data + 16383) div 16384" by (rule block_hashes_length)
  have m: "?m = (length data + ?P - 1) div ?P" by (simp add: piece_roots_def chunks_length)
  have up: "length data \<le> ?P * ?m"
    using m dividend_less_div_times [of ?P "length data + ?P - 1"] by (simp add: mult.commute)
  have low: "?P * (?m - 1) < length data"
  proof -
    have "?P * ?m \<le> length data + ?P - 1" unfolding m by (simp add: mult.commute)
    then show ?thesis using assms by (simp add: right_diff_distrib')
  qed
  have "?n \<le> 2 ^ d * ?m"
  proof -
    have "length data + 16383 < 16384 * (2 ^ d * ?m) + 16384" using up P by simp
    then have "(length data + 16383) div 16384 < 2 ^ d * ?m + 1" by (simp add: less_mult_imp_div_less)
    then show ?thesis using n by simp
  qed
  moreover have "?m \<noteq> 0" "?m \<noteq> 1" using up assms by auto
  then have m1: "1 < ?m" by linarith
  have "2 ^ d * (?m - 1) < ?n"
  proof -
    have "16384 * (2 ^ d * (?m - 1)) < length data" using low P by (simp add: mult.assoc)
    then have "(2 ^ d * (?m - 1) + 1) * 16384 \<le> length data + 16383" by simp
    then have "2 ^ d * (?m - 1) + 1 \<le> (length data + 16383) div 16384" by (simp only: less_eq_div_iff_mult_less_eq)
    then show ?thesis using n by simp
  qed
  note bounds = tree_height_bounds [of ?m]
  have h: "0 < tree_height ?m" using m1 bounds by (cases "tree_height ?m") auto
  show ?thesis
  proof (rule tree_height_unique)
    show "?n \<le> 2 ^ (tree_height ?m + d)"
      unfolding power_add [of 2 "tree_height ?m"] mult.commute [of _ "2 ^ d"]
      by (rule order.trans [OF \<open>?n \<le> 2 ^ d * ?m\<close>]) (use bounds in simp)
    have "2 ^ (tree_height ?m - 1) < ?m" using bounds h by blast
    then have "2 ^ (tree_height ?m - 1) \<le> ?m - 1" by linarith
    then have "2 ^ d * 2 ^ (tree_height ?m - 1) \<le> 2 ^ d * (?m - 1)" by simp
    then show "2 ^ (tree_height ?m + d - 1) < ?n"
      using \<open>2 ^ d * (?m - 1) < ?n\<close> h by (simp add: power_add [symmetric] add.commute)
  qed
qed

text \<open>The root over the blocks of a file.\<close>

definition blocks_root :: "golib \<Rightarrow> bytes \<Rightarrow> bytes" where
  "blocks_root lib data =
     tree_root lib (tree_height (length (block_hashes lib data))) (padded_leaves zero_hash (block_hashes lib data))"

lemma file_root_blocks: "file_root lib d data = blocks_root lib data"
proof (cases "length data \<le> 2 ^ (14 + d)")
  case True
  then show ?thesis by (simp add: file_root_def blocks_root_def)
next
  case False
  let ?ps = "chunks (2 ^ (14 + d)) data" and ?bs = "block_hashes lib data"
  let ?pad = "\<lambda>piece. block_hashes lib piece @ replicate (2 ^ d - length (block_hashes lib piece)) zero_hash"
  define h where "h = tree_height (length (piece_roots lib d data))"
  have m: "length ?ps = length (piece_roots lib d data)" by (simp add: piece_roots_def)
  have le: "length ?ps \<le> 2 ^ h" using tree_height_bounds [of "length (piece_roots lib d data)"] m by (simp add: h_def)
  let ?gs = "map ?pad ?ps @ replicate (2 ^ h - length ?ps) (replicate (2 ^ d) zero_hash)"
  have sizes: "length (block_hashes lib piece) \<le> 2 ^ d" if "piece \<in> set ?ps" for piece
  proof -
    have "length piece \<le> 2 ^ (14 + d)" using that by (rule chunks_member_length)
    then have "length piece + 16383 < 16384 * 2 ^ d + 16384" by (simp add: power_add)
    then have "(length piece + 16383) div 16384 < 2 ^ d + 1" by (simp add: less_mult_imp_div_less)
    then show ?thesis by (simp add: block_hashes_length)
  qed
  have g: "length ?gs = 2 ^ h" "\<forall>g \<in> set ?gs. length g = 2 ^ d" using le sizes by auto
  have count: "length ?bs \<le> 2 ^ d * length ?ps"
  proof -
    have "\<forall>g \<in> set (map ?pad ?ps). length g = 2 ^ d" using sizes by auto
    from length_concat_same [OF this] arg_cong [OF padded_pieces [of lib d data], of length]
    have "length ?bs + (2 ^ d * length ?ps - length ?bs) = 2 ^ d * length ?ps" by (simp add: mult.commute)
    then show ?thesis by linarith
  qed
  have zeros: "concat (replicate k (replicate j z)) = replicate (k * j) z" for k j and z :: bytes
    by (induction k) (simp_all add: replicate_add)
  have "concat ?gs = ?bs @ replicate (2 ^ d * length ?ps - length ?bs + (2 ^ h - length ?ps) * 2 ^ d) zero_hash"
    using padded_pieces [of lib d data] by (simp add: zeros replicate_add)
  also have "2 ^ d * length ?ps - length ?bs + (2 ^ h - length ?ps) * 2 ^ d = 2 ^ (h + d) - length ?bs"
  proof -
    have "(2 ^ h - length ?ps) * 2 ^ d = 2 ^ (h + d) - 2 ^ d * length ?ps"
      unfolding power_add diff_mult_distrib by (simp add: mult.commute)
    moreover have "2 ^ d * length ?ps \<le> 2 ^ (h + d)"
      using mult_le_mono2 [OF le, of "2 ^ d"] by (simp add: power_add mult.commute)
    ultimately show ?thesis using count by linarith
  qed
  finally have leaves: "concat ?gs = padded_leaves zero_hash ?bs"
    using tree_height_pieces [of d data lib] False by (simp add: padded_leaves_def h_def)
  have "tree_root lib (h + d) (concat ?gs) = tree_root lib h (map (tree_root lib d) ?gs)"
    by (rule tree_root_concat [OF g])
  moreover have "map (tree_root lib d) ?gs = padded_leaves (v2_zero_hash lib d) (piece_roots lib d data)"
    by (simp add: padded_leaves_def piece_roots_def piece_root_def v2_zero_hash_tree h_def)
  ultimately show ?thesis
    using leaves tree_height_pieces [of d data lib] False m
    by (simp add: file_root_def blocks_root_def h_def)
qed

section \<open>Bindings are found again\<close>

lemma sort_search_first:
  assumes "\<And>a b. a \<le> b \<Longrightarrow> b < j \<Longrightarrow> f a \<Longrightarrow> f b" "i \<le> j"
  shows "i \<le> sort_search f i j \<and> sort_search f i j \<le> j \<and> (\<forall>k. i \<le> k \<longrightarrow> k < sort_search f i j \<longrightarrow> \<not> f k) \<and>
    (sort_search f i j < j \<longrightarrow> f (sort_search f i j))"
  using assms
proof (induction f i j rule: sort_search.induct)
  case (1 f i j)
  show ?case
  proof (cases "i < j")
    case False
    with "1.prems" show ?thesis by (subst (1 2 3 4 5) sort_search.simps) auto
  next
    case True
    define h where "h = (i + j) div 2"
    have h: "i \<le> h" "h < j" using True by (auto simp: h_def)
    show ?thesis
    proof (cases "f h")
      case True
      have eq: "sort_search f i j = sort_search f i h"
        using \<open>i < j\<close> True by (subst sort_search.simps) (simp add: h_def Let_def)
      have "i \<le> sort_search f i h \<and> sort_search f i h \<le> h \<and> (\<forall>k. i \<le> k \<longrightarrow> k < sort_search f i h \<longrightarrow> \<not> f k) \<and>
          (sort_search f i h < h \<longrightarrow> f (sort_search f i h))"
        by (rule "1.IH" (2) [OF \<open>i < j\<close> h_def]) (use "1.prems"(1) True h in auto)
      with eq h True show ?thesis by (cases "sort_search f i h = h") auto
    next
      case False
      have eq: "sort_search f i j = sort_search f (h + 1) j"
        using \<open>i < j\<close> False by (subst sort_search.simps) (simp add: h_def Let_def)
      have rec: "h + 1 \<le> sort_search f (h + 1) j \<and> sort_search f (h + 1) j \<le> j \<and>
          (\<forall>k. h + 1 \<le> k \<longrightarrow> k < sort_search f (h + 1) j \<longrightarrow> \<not> f k) \<and>
          (sort_search f (h + 1) j < j \<longrightarrow> f (sort_search f (h + 1) j))"
        by (rule "1.IH" (1) [OF \<open>i < j\<close> h_def]) (use "1.prems"(1) False h in auto)
      have "\<not> f k" if "k \<le> h" for k using "1.prems"(1) [OF that h(2)] False by blast
      moreover have "k \<le> h \<or> h + 1 \<le> k" for k by linarith
      ultimately have "\<forall>k. i \<le> k \<longrightarrow> k < sort_search f (h + 1) j \<longrightarrow> \<not> f k" using rec by blast
      with rec eq h show ?thesis by simp
    qed
  qed
qed

abbreviation sorted_bindings :: "source_binding list \<Rightarrow> bool" where
  "sorted_bindings bs \<equiv> sorted_wrt (\<lambda>a b. sb_index a < sb_index b) bs"

lemma find_binding_iff:
  assumes "sorted_bindings bs"
  shows "find_binding bs i = Some b \<longleftrightarrow> b \<in> set bs \<and> sb_index b = i"
proof -
  let ?f = "\<lambda>k. sb_index (bs ! k) \<ge> i" and ?p = "sort_search (\<lambda>k. sb_index (bs ! k) \<ge> i) 0 (length bs)"
  have less: "sb_index (bs ! a) < sb_index (bs ! c)" if "a < c" "c < length bs" for a c
    using assms that by (simp add: sorted_wrt_iff_nth_less)
  have "?f c" if "a \<le> c" "c < length bs" "?f a" for a c
    using that less [of a c] by (cases "a = c") auto
  from sort_search_first [of "length bs" ?f 0, OF this] have p: "?p \<le> length bs" "\<forall>k < ?p. \<not> ?f k" "?p < length bs \<longrightarrow> ?f ?p"
    by auto
  show ?thesis
  proof
    assume "find_binding bs i = Some b"
    then show "b \<in> set bs \<and> sb_index b = i" by (auto simp: find_binding_def Let_def split: if_splits)
  next
    assume b: "b \<in> set bs \<and> sb_index b = i"
    then obtain k where k: "k < length bs" "bs ! k = b" by (auto simp: in_set_conv_nth)
    then have "?p \<le> k" using p(2) b by (metis linorder_not_le order_refl)
    then have "?p < length bs" using k(1) by simp
    with p(3) have "i \<le> sb_index (bs ! ?p)" by simp
    with less [of ?p k] k b \<open>?p \<le> k\<close> have "?p = k" by (cases "?p = k") auto
    with k b show "find_binding bs i = Some b" by (simp add: find_binding_def)
  qed
qed

lemma collect_bindings_Inr:
  assumes "collect_bindings files bs m = Inr m'"
  shows "m' = (\<lambda>i. if \<exists>b \<in> set bs. sb_index b = int i
      then map_option (\<lambda>b. b\<lparr>sb_path := path_clean (sb_path b)\<rparr>) (List.find (\<lambda>b. sb_index b = int i) bs) else m i) \<and>
    distinct (map sb_index bs) \<and>
    (\<forall>b \<in> set bs. 0 \<le> sb_index b \<and> sb_index b < int (length files) \<and> \<not> is_padding (files ! nat (sb_index b)) \<and>
       is_abs (sb_path b) \<and> m (nat (sb_index b)) = None)"
  using assms
proof (induction bs arbitrary: m)
  case (Cons b bs)
  let ?i = "nat (sb_index b)" and ?b = "b\<lparr>sb_path := path_clean (sb_path b)\<rparr>"
  from Cons.prems have b: "0 \<le> sb_index b" "sb_index b < int (length files)" "m ?i = None" "\<not> is_padding (files ! ?i)"
    "is_abs (sb_path b)" and rest: "collect_bindings files bs (m(?i \<mapsto> ?b)) = Inr m'"
    by (auto simp: Let_def split: if_splits)
  note ih = Cons.IH [OF rest]
  have "sb_index b \<notin> set (map sb_index bs)" using ih b(1) by (auto simp: image_iff)
  with ih b show ?case by (auto simp: fun_eq_iff split: if_splits)
qed auto

lemma spec_for_bound [simp]:
  "spec_for entry empty_spec \<longleftrightarrow> f_length entry = 0 \<and> \<not> is_padding entry"
  "spec_for entry (bound_spec b len) \<longleftrightarrow> len = f_length entry \<and> \<not> is_padding entry"
  by (auto simp: spec_for_def empty_spec_def bound_spec_def content_spec_def padding_spec_def)

text \<open>The normalized bindings are those of the map at the entries that are not padding, in order.\<close>

definition bound_at :: "(nat \<rightharpoonup> source_binding) \<Rightarrow> nat \<Rightarrow> file_entry list \<Rightarrow> source_binding \<Rightarrow> bool" where
  "bound_at m i entries b \<longleftrightarrow> (\<exists>k < length entries. \<not> is_padding (entries ! k) \<and>
     map_option (\<lambda>b. b\<lparr>sb_index := int (i + k)\<rparr>) (m (i + k)) = Some b)"

lemma bound_at_simps:
  "\<not> bound_at m i [] b"
  "bound_at m i (entry # entries) b \<longleftrightarrow>
     (\<not> is_padding entry \<and> map_option (\<lambda>b. b\<lparr>sb_index := int i\<rparr>) (m i) = Some b) \<or> bound_at m (i + 1) entries b"
proof -
  have split: "(\<exists>k < length (entry # entries). P k) \<longleftrightarrow> P 0 \<or> (\<exists>k < length entries. P (Suc k))" for P
    by (metis Suc_less_eq length_Cons less_Suc_eq_0_disj)
  show "bound_at m i (entry # entries) b \<longleftrightarrow>
     (\<not> is_padding entry \<and> map_option (\<lambda>b. b\<lparr>sb_index := int i\<rparr>) (m i) = Some b) \<or> bound_at m (i + 1) entries b"
    unfolding bound_at_def split by simp
qed (simp add: bound_at_def)

lemma bound_at_index: "bound_at m i entries b \<Longrightarrow> int i \<le> sb_index b"
  by (auto simp: bound_at_def)

lemma bound_specs_Inr:
  assumes "bound_specs m i entries = Inr (specs, bs)"
  shows "list_all2 spec_for entries specs \<and> sorted_bindings bs \<and> (\<forall>b. b \<in> set bs \<longleftrightarrow> bound_at m i entries b)"
  using assms
proof (induction entries arbitrary: i specs bs)
  case (Cons entry entries)
  then obtain specs' bs' where rest: "bound_specs m (i + 1) entries = Inr (specs', bs')"
    by (auto simp: result_simps split: if_splits option.splits)
  note ih = Cons.IH [OF rest]
  have later: "int i < sb_index b" if "bound_at m (i + 1) entries b" for b using bound_at_index [OF that] by simp
  consider "is_padding entry" "bs = bs'" "specs = padding_spec (f_length entry) # specs'"
    | "\<not> is_padding entry" "m i = None" "f_length entry = 0" "bs = bs'" "specs = empty_spec # specs'"
    | b where "\<not> is_padding entry" "m i = Some b" "bs = b\<lparr>sb_index := int i\<rparr> # bs'" "specs = bound_spec b (f_length entry) # specs'"
    using Cons.prems rest by (auto simp: result_simps split: if_splits option.splits)
  then show ?case
  proof cases
    case 3
    with ih later show ?thesis by (auto simp: bound_at_simps)
  qed (use ih in \<open>auto simp: bound_at_simps\<close>)
qed (simp add: bound_at_simps)

lemma bound_specs_ok:
  "(\<exists>r. bound_specs m i entries = Inr r) \<longleftrightarrow>
     (\<forall>k < length entries. is_padding (entries ! k) \<or> f_length (entries ! k) = 0 \<or> m (i + k) \<noteq> None)"
proof (induction entries arbitrary: i)
  case (Cons entry entries)
  have split: "(\<forall>k < length (entry # entries). P k) \<longleftrightarrow> P 0 \<and> (\<forall>k < length entries. P (Suc k))" for P
    by (metis Suc_less_eq length_Cons less_Suc_eq_0_disj)
  from Cons [of "i + 1"] show ?case
    unfolding split by (auto simp: result_simps split: option.splits)
qed simp

text \<open>When a source map is accepted.\<close>

definition bindings_ok :: "file_entry list \<Rightarrow> source_binding list \<Rightarrow> bool" where
  "bindings_ok files bs \<longleftrightarrow>
     distinct (map sb_index bs) \<and>
     (\<forall>b \<in> set bs. 0 \<le> sb_index b \<and> sb_index b < int (length files) \<and> \<not> is_padding (files ! nat (sb_index b)) \<and>
        is_abs (sb_path b)) \<and>
     (\<forall>k < length files. is_padding (files ! k) \<or> f_length (files ! k) = 0 \<or> (\<exists>b \<in> set bs. sb_index b = int k))"

lemma collect_bindings_complete:
  "distinct (map sb_index bs) \<Longrightarrow>
     \<forall>b \<in> set bs. 0 \<le> sb_index b \<and> sb_index b < int (length files) \<and> \<not> is_padding (files ! nat (sb_index b)) \<and>
       is_abs (sb_path b) \<and> m (nat (sb_index b)) = None \<Longrightarrow>
     \<exists>m'. collect_bindings files bs m = Inr m'"
proof (induction bs arbitrary: m)
  case (Cons b bs)
  have "sb_path b \<noteq> []" using Cons.prems(2) by (auto simp: is_abs_def has_prefix_def)
  moreover have "\<exists>m'. collect_bindings files bs (m(nat (sb_index b) \<mapsto> b\<lparr>sb_path := path_clean (sb_path b)\<rparr>)) = Inr m'"
  proof (rule Cons.IH)
    show "distinct (map sb_index bs)" using Cons.prems(1) by simp
    have "nat (sb_index x) \<noteq> nat (sb_index b)" if "x \<in> set bs" for x
    proof -
      have "sb_index x \<noteq> sb_index b" using Cons.prems(1) that by (auto simp: image_iff)
      then show ?thesis using Cons.prems(2) that by (simp add: eq_nat_nat_iff)
    qed
    with Cons.prems(2) show "\<forall>x \<in> set bs. 0 \<le> sb_index x \<and> sb_index x < int (length files) \<and> \<not> is_padding (files ! nat (sb_index x)) \<and>
        is_abs (sb_path x) \<and> (m(nat (sb_index b) \<mapsto> b\<lparr>sb_path := path_clean (sb_path b)\<rparr>)) (nat (sb_index x)) = None" by simp
  qed
  ultimately show ?case using Cons.prems(2) by (auto simp: Let_def)
qed simp

lemma source_specs_ok: "(\<exists>r. source_specs files bs = Inr r) \<longleftrightarrow> bindings_ok files bs"
proof
  assume "\<exists>r. source_specs files bs = Inr r"
  then obtain m r where m: "collect_bindings files bs Map.empty = Inr m" and r: "bound_specs m 0 files = Inr r"
    by (auto simp: source_specs_def result_simps)
  note c = collect_bindings_Inr [OF m]
  from r bound_specs_ok [of m 0 files] have some: "\<forall>k < length files. is_padding (files ! k) \<or> f_length (files ! k) = 0 \<or> m k \<noteq> None"
    by auto
  have "\<forall>k < length files. is_padding (files ! k) \<or> f_length (files ! k) = 0 \<or> (\<exists>b \<in> set bs. sb_index b = int k)"
  proof -
    have "\<exists>b \<in> set bs. sb_index b = int k" if "m k \<noteq> None" for k using c that by (auto split: if_splits)
    with some show ?thesis by blast
  qed
  with c show "bindings_ok files bs" by (auto simp: bindings_ok_def)
next
  assume ok: "bindings_ok files bs"
  then obtain m where m: "collect_bindings files bs Map.empty = Inr m"
    using collect_bindings_complete [of bs files Map.empty] by (auto simp: bindings_ok_def)
  have "m k \<noteq> None" if "b \<in> set bs" "sb_index b = int k" for b k
  proof -
    have "List.find (\<lambda>b. sb_index b = int k) bs \<noteq> None" using that by (auto simp: find_None_iff)
    then show ?thesis using collect_bindings_Inr [OF m] that by auto
  qed
  with ok bound_specs_ok [of m 0 files] have "\<exists>r. bound_specs m 0 files = Inr r" by (auto simp: bindings_ok_def)
  with m show "\<exists>r. source_specs files bs = Inr r" by (auto simp: source_specs_def result_simps)
qed

lemma source_specs_Inr:
  assumes "source_specs files bs = Inr (specs, bs')"
  shows "list_all2 spec_for files specs \<and> sorted_bindings bs' \<and>
    (\<forall>i. map_option sb_path (find_binding bs' i) =
       map_option (\<lambda>b. path_clean (sb_path b)) (List.find (\<lambda>b. sb_index b = i) bs))"
proof -
  from assms obtain m where m: "collect_bindings files bs Map.empty = Inr m" and r: "bound_specs m 0 files = Inr (specs, bs')"
    by (auto simp: source_specs_def result_simps)
  note c = collect_bindings_Inr [OF m] and b = bound_specs_Inr [OF r]
  have "map_option sb_path (find_binding bs' i) =
      map_option (\<lambda>b. path_clean (sb_path b)) (List.find (\<lambda>b. sb_index b = i) bs)" for i
  proof (cases "List.find (\<lambda>b. sb_index b = i) bs")
    case None
    have "find_binding bs' i = None"
    proof (rule ccontr)
      assume "find_binding bs' i \<noteq> None"
      then obtain x where "x \<in> set bs'" "sb_index x = i" using find_binding_iff [of bs' i] b by auto
      with b c None show False by (auto simp: find_None_iff bound_at_def split: if_splits)
    qed
    with None show ?thesis by simp
  next
    case (Some x)
    then have x: "x \<in> set bs" "sb_index x = i" by (auto simp: find_Some_iff)
    with c have k: "0 \<le> i" "nat i < length files" "\<not> is_padding (files ! nat i)" by auto
    have "m (nat i) = Some (x\<lparr>sb_path := path_clean (sb_path x)\<rparr>)" using c x Some k(1) by auto
    then have "(x\<lparr>sb_path := path_clean (sb_path x)\<rparr>)\<lparr>sb_index := i\<rparr> \<in> set bs'"
      using b k by (auto simp: bound_at_def intro!: exI [of _ "nat i"])
    then have "find_binding bs' i = Some ((x\<lparr>sb_path := path_clean (sb_path x)\<rparr>)\<lparr>sb_index := i\<rparr>)"
      using find_binding_iff [of bs' i] b by simp
    with Some show ?thesis by simp
  qed
  with b show ?thesis by blast
qed

section \<open>The verdict on a source map\<close>

definition manifest_verdict :: "golib \<Rightarrow> meta_info \<Rightarrow> bytes list \<Rightarrow> bool" where
  "manifest_verdict lib meta segs \<longleftrightarrow>
     (m_version meta \<noteq> ''v2'' \<longrightarrow>
        map (gl_sha1 lib) (chunks (nat (m_piece_length meta)) (concat segs)) = m_piece_hashes meta) \<and>
     (m_version meta \<noteq> ''v1'' \<longrightarrow>
        (case v2_piece_layer_depth (m_piece_length meta) of
           Inl _ \<Rightarrow> False
         | Inr d \<Rightarrow> roots_match lib d (m_files meta) segs))"

lemma verify_resolved_decided:
  assumes "parse_metainfo lib data = Inr meta" "digest_sizes lib" "list_all2 spec_for (m_files meta) specs"
    and "verify_resolved lib (logging os) meta specs (w, l) = (Inr r, (w', l'))"
  shows "\<exists>segs read. l' = l @ read \<and> manifest_bytes (m_files meta) segs read \<and>
    (vr_verified r \<longleftrightarrow> manifest_verdict lib meta segs)"
proof -
  note ok = parsed_spec_ok [OF assms(1,3)]
  note man = delivered_manifest [OF assms(3)]
  have log: "\<exists>read. l' = l @ read \<and> manifest_bytes (m_files meta) segs read"
    if "logging.delivered specs l (w', l') segs" for segs
    using man(1) that by (auto simp: logging.delivered_def)
  consider "m_version meta = ''v1''" | "m_version meta = ''v2''" | "m_version meta = ''hybrid''"
    using assms(4) by (auto simp: verify_resolved_def fail_eq split: if_splits)
  then show ?thesis
  proof cases
    case 1
    then have run: "verify_v1_resolved lib (logging os) meta specs (w, l) = (Inr r, (w', l'))"
      using assms(4) by (simp add: verify_resolved_def)
    then have v1: "m_info_hash_v1 meta \<noteq> []" by (auto simp: verify_v1_resolved_def Let_def fail_eq split: if_splits)
    have "lengths_ok meta" using assms(1) by (rule parse_metainfo_facts)
    then have total: "0 \<le> m_total_length meta" by (auto simp: lengths_ok_def intro!: sum_list_nonneg)
    have hashes: "int (length (m_piece_hashes meta)) = (m_total_length meta + m_piece_length meta - 1) div m_piece_length meta"
      using parsed_piece_hashes [OF assms(1,2)] v1 by simp
    have "\<forall>spec \<in> set specs. 0 \<le> s_length spec" using ok by (auto simp: spec_ok_def)
    from logging.verify_v1_exact [OF run this total hashes] obtain segs where
      "logging.delivered specs l (w', l') segs"
      "vr_verified r \<longleftrightarrow> map (gl_sha1 lib) (chunks (nat (m_piece_length meta)) (concat segs)) = m_piece_hashes meta"
      by auto
    with log [OF this(1)] 1 show ?thesis by (auto simp: manifest_verdict_def)
  next
    case 2
    then have "(case verify_v2_resolved lib (logging os) meta specs (None, (w, l)) of (r, (_, w)) \<Rightarrow> (r, w)) = (Inr r, (w', l'))"
      using assms(4) by (simp add: verify_resolved_def)
    then obtain t where run: "verify_v2_resolved lib (logging os) meta specs (None, (w, l)) = (Inr r, (t, (w', l')))"
      by (cases "verify_v2_resolved lib (logging os) meta specs (None, (w, l))") auto
    from logging.verify_v2_exact [OF run ok, of None] obtain d segs where
      d: "m_piece_length meta = 2 ^ (14 + d)" "logging.delivered specs l (w', l') segs"
        "vr_verified r \<longleftrightarrow> files_match lib d specs (m_files meta) segs" by auto
    then have "list_all2 seg_ok specs segs" by (simp add: logging.delivered_def)
    moreover have "v2_piece_layer_depth (m_piece_length meta) = Inr d" using d(1) by (simp add: v2_piece_layer_depth_iff)
    ultimately show ?thesis using log [OF d(2)] d(3) 2 man(2) by (auto simp: manifest_verdict_def)
  next
    case 3
    then have run: "verify_hybrid_resolved lib (logging os) meta specs (w, l) = (Inr r, (w', l'))"
      using assms(4) by (simp add: verify_resolved_def)
    from logging.verify_hybrid_exact [OF run ok] obtain d segs where
      d: "m_piece_length meta = 2 ^ (14 + d)" "logging.delivered specs l (w', l') segs"
        "vr_verified r \<longleftrightarrow> files_match lib d specs (m_files meta) segs \<and>
         map (gl_sha1 lib) (chunks (nat (m_piece_length meta)) (concat segs)) = m_piece_hashes meta"
      unfolding snd_conv by blast
    then have "list_all2 seg_ok specs segs" by (simp add: logging.delivered_def)
    moreover have "v2_piece_layer_depth (m_piece_length meta) = Inr d" using d(1) by (simp add: v2_piece_layer_depth_iff)
    ultimately show ?thesis using log [OF d(2)] d(3) 3 man(2) by (auto simp: manifest_verdict_def)
  qed
qed

lemma verify_source_map_decided:
  assumes "parse_metainfo lib data = Inr meta" "digest_sizes lib"
    and "verify_source_map lib (logging os) meta bindings (w, l) = (Inr vs, (w', l'))"
  shows "\<exists>segs read. l' = l @ read \<and> manifest_bytes (m_files meta) segs read \<and>
    (vr_verified (vs_result vs) \<longleftrightarrow> manifest_verdict lib meta segs)"
proof -
  from assms(3) obtain specs0 specs bs w1 l1 where
    specs: "source_specs (m_files meta) bindings = Inr (specs0, bs)" "preflight (logging os) specs0 (w, l) = (Inr specs, (w1, l1))"
      "verify_resolved lib (logging os) meta specs (w1, l1) = (Inr (vs_result vs), (w', l'))"
    by (auto simp: verify_source_map_def specs_from_source_map_def act_simps split: sum.splits)
  have "list_all2 spec_for (m_files meta) specs"
    using preflight_specs [OF specs(2)] source_specs_Inr [OF specs(1)] by blast
  moreover have "l1 = l"
    using logging.log_preflight [OF specs(2)] by simp
  ultimately show ?thesis using verify_resolved_decided [OF assms(1,2) _ specs(3)] by simp
qed

section \<open>Consuming and observing\<close>

context recording_os
begin

lemma bounded_read_at:
  "bounded_read os h n s = ((b, st), s') \<Longrightarrow> log (snd s') = log (snd s) @ b \<and> fst s' = fst s - int (length b)"
proof -
  obtain remaining w where s: "s = (remaining, w)" by fastforce
  assume r: "bounded_read os h n s = ((b, st), s')"
  obtain c w1 where c: "check_ctx os w = (c, w1)" by fastforce
  have "log (snd (file_reader os h k w1)) = log w1 @ fst (fst (file_reader os h k w1))" for k
    using log_file_read [of h k w1] by (auto simp: file_reader_def split: prod.splits read_result.splits)
  then show ?thesis
    using r log_check_ctx [OF c] unfolding bounded_read_def s fst_conv snd_conv c
    by (auto split: sum.splits if_splits prod.splits) (metis fst_conv snd_conv)+
qed

lemma run_consumer_at:
  "run_consumer os h c s = (ok, s') \<Longrightarrow> \<exists>data. log (snd s') = log (snd s) @ data \<and> fst s' = fst s - int (length data)"
proof (induction c arbitrary: s)
  case (Ask n go_on)
  obtain got s1 where g: "bounded_read os h n s = (got, s1)" by (cases "bounded_read os h n s")
  with Ask.prems have "run_consumer os h (go_on got) s1 = (ok, s')" by simp
  from Ask.IH [OF _ this] obtain data where "log (snd s') = log (snd s1) @ data" "fst s' = fst s1 - int (length data)"
    by auto
  with bounded_read_at [of h n s "fst got" "snd got" s1] g show ?case
    by (intro exI [of _ "fst got @ data"]) auto
qed simp

lemma consume_checked_at:
  assumes "consume_checked os h before c w = (None, w')"
  shows "\<exists>data. log w' = log w @ data \<and> int (length data) = fi_size before"
proof -
  from assms obtain w1 where run: "run_consumer os h c (fi_size before, w) = (True, (0, w1))"
    and eof: "file_read os h 1 w1 = (Eof, w')"
    by (auto simp: consume_checked_def split: prod.splits bool.splits if_splits read_result.splits)
  from run_consumer_at [OF run] log_file_read [OF eof] show ?thesis by auto
qed

lemma consume_open_at:
  assumes "consume_open os path h before c w = (Inr u, w')"
  shows "\<exists>data. log w' = log w @ data \<and> int (length data) = fi_size before"
proof -
  obtain consumed w1 where c: "consume_checked os h before c w = (consumed, w1)" by fastforce
  obtain after w2 where a: "stat_opened_content_path os path h w1 = (after, w2)" by fastforce
  obtain closed w3 where cl: "os_close os h w2 = (closed, w3)" by fastforce
  from assms c a cl have "consumed = None" "w' = w3"
    by (auto simp: consume_open_def split: option.splits sum.splits if_splits)
  with consume_checked_at [of h before c w w1] c log_stat_opened [OF a] log_ops(1) [OF cl] show ?thesis by auto
qed

lemma log_recheck: "recheck_source_binding os b info w = (Inr u, w') \<Longrightarrow> log w' = log w"
  by (auto simp: recheck_source_binding_def open_source_binding_def bnd_Inr closing_Inr guard_Inr split: option.splits
      dest!: log_call log_stat_opened log_close_file)

lemma consume_verified_file_at:
  assumes "consume_verified_file lib sem os source i c w = (Inr (len, mtime), w')"
  shows "\<exists>data b before. log w' = log w @ data \<and> int (length data) = len \<and>
    find_binding (vs_bindings source) i = Some b \<and>
    snapshot_matches lib sem (vr_snapshots (vs_result source)) (sb_path b) before \<and> fi_size before = len \<and> fi_mtime before = mtime"
proof -
  from assms obtain w1 b where b: "find_binding (vs_bindings source) i = Some b" and ctx: "check_ctx os w = (Inr (), w1)"
    by (auto simp: consume_verified_file_def bnd_Inr fail_eq split: if_splits option.splits)
  from assms b ctx obtain h w2 before w3 w6 where
    op: "open_source_binding os b w1 = (Inr h, w2)" and st: "stat_opened_content_path os (sb_path b) h w2 = (Inr before, w3)"
    and snap: "snapshot_matches lib sem (vr_snapshots (vs_result source)) (sb_path b) before"
    and run: "consume_open os (sb_path b) h before c w3 = (Inr (), w6)"
    and re: "recheck_source_binding os b before w6 = (Inr (), w')"
    and len: "len = fi_size before" "mtime = fi_mtime before"
    by (auto simp: consume_verified_file_def bnd_Inr fail_eq ret_eq closing_Inr guard_Inr split: if_splits)
  from consume_open_at [OF run] obtain data where
    data: "log w6 = log w3 @ data" "int (length data) = fi_size before" by blast
  have "log w1 = log w" "log w2 = log w1"
    using log_check_ctx [OF ctx] op by (auto simp: open_source_binding_def split: option.splits dest: log_call)
  with log_stat_opened [OF st] data log_recheck [OF re] b snap len show ?thesis by auto
qed

end

lemma observe_root_decided:
  assumes "observe_v2_file_root lib (logging os) path n opener (w, l) = (Inr r, (w', l'))" "n \<le> max_int64"
  shows "\<exists>data. l' = l @ data \<and> int (length data) = n \<and> vo_pieces_root r = hex_encode (blocks_root lib data)"
proof -
  have n: "0 < n" using assms(1) by (auto simp: observe_v2_file_root_def fail_eq split: if_splits)
  from assms(1) obtain specs s1 h s2 before s3 target root t s4 s5 s6 where
    pre: "preflight (logging os) [(content_spec (path_clean path) n False)\<lparr>s_open := opener\<rparr>] (w, l) = (Inr specs, s1)"
    and op: "open_file_spec (logging os) (hd specs) s1 = (Inr h, s2)"
    and st: "stat_opened_content_path (logging os) (s_path (hd specs)) h s2 = (Inr before, s3)"
    and t: "next_power_of_two ((n - 1) sdiv v2_block_size + 1) = Inr target"
    and seg: "(case hash_segment lib (logging os) h n target (None, s3) of (r, (_, w)) \<Rightarrow> (r, w)) = (Inr root, s4)"
    and af: "check_after (logging os) h (s_path (hd specs)) before s4 = (Inr (), s5)"
    and cl: "close_file (logging os) h (s_path (hd specs)) s5 = (Inr (), s6)"
    and stable: "ensure_stable (logging os) specs s6 = (Inr (), (w', l'))"
    and r: "vo_pieces_root r = hex_encode root"
    by (auto simp: observe_v2_file_root_def act_simps Let_def split: if_splits)
  obtain u where seg': "hash_v2_segment lib (content_io lib (logging os) h) n target v2_block_size (None, s3) = (Inr root, (u, s4))"
    using seg by (cases "hash_segment lib (logging os) h n target (None, s3)") (auto simp: hash_segment_Inr)
  have "logging.content_at lib 1 None l [] [] (None, s3) []"
    using logging.log_preflight [OF pre] logging.log_open_file_spec [OF op] logging.log_stat_opened [OF st]
    by (simp add: logging.content_at_def logging.run_at_def)
  from logging.content.hash_v2_segment_history [OF seg' this] obtain data k where
    data: "snd s4 = l @ data" "int (length data) = n" "target = 2 ^ k"
      "root = tree_root lib k (map (gl_sha256 lib) (chunks 16384 data) @
                 replicate (2 ^ k - length (chunks 16384 data)) zero_hash)"
    by (auto simp: logging.content_at_def logging.run_at_def)
  have count: "(n - 1) sdiv v2_block_size + 1 = int (length (block_hashes lib data))"
    using n data(2) ceil_sdiv [of n 16384] chunks_count [of 16384 data] by (simp add: v2_block_size_def block_hashes_def)
  have "0 < (n - 1) sdiv v2_block_size + 1" "(n - 1) sdiv v2_block_size + 1 \<le> 2 ^ 62"
    using n assms(2) by (auto simp: v2_block_size_def max_int64_def int64_simps pos_imp_zdiv_nonneg_iff)
  from next_power_of_two_eq [OF this] t count data(3) have "k = tree_height (length (block_hashes lib data))" by simp
  with data(4) have "root = blocks_root lib data"
    by (simp add: blocks_root_def padded_leaves_def block_hashes_def)
  moreover have "l' = snd s4"
    using logging.log_check_after [OF af] logging.log_close_file [OF cl] logging.log_ensure_stable [OF stable] by simp
  ultimately show ?thesis using data r by auto
qed

section \<open>Properties\<close>

text \<open>
  Claim C19. A source map is accepted exactly when every entry that is not padding and not empty has a binding, no
  entry has two, and no binding is out of range, for padding or relative; every other map is an error.
\<close>

theorem source_map_accepted_iff:
  "if bindings_ok (m_files meta) bindings then \<exists>specs bs. source_specs (m_files meta) bindings = Inr (specs, bs)
   else \<exists>e. verify_source_map lib os meta bindings w = (Inl e, w)"
proof (cases "source_specs (m_files meta) bindings")
  case (Inl e)
  moreover from this have "\<not> bindings_ok (m_files meta) bindings" using source_specs_ok [of "m_files meta" bindings] by auto
  ultimately show ?thesis by (simp add: verify_source_map_def specs_from_source_map_def bnd_def fail_def)
next
  case (Inr r)
  moreover from this have "bindings_ok (m_files meta) bindings" using source_specs_ok [of "m_files meta" bindings] by auto
  ultimately show ?thesis by (cases r) simp
qed

text \<open>
  Claim C20. A verified source finds by binary search the path of exactly the entries that the map bound, as the
  map gave it but clean.
\<close>

theorem verified_source_paths:
  assumes "verify_source_map lib os meta bindings w = (Inr vs, w')"
  shows "source_path vs i = map_option (\<lambda>b. path_clean (sb_path b)) (List.find (\<lambda>b. sb_index b = i) bindings)"
proof -
  from assms obtain specs where "source_specs (m_files meta) bindings = Inr (specs, vs_bindings vs)"
    by (auto simp: verify_source_map_def specs_from_source_map_def act_simps split: sum.splits)
  from source_specs_Inr [OF this] show ?thesis by (simp add: source_path_def)
qed

text \<open>
  Claim C18. The verdict on files scattered over the disk is the one of the manifest: the bytes read from the bound
  files, with zeros for padding, hash to the piece digests and to the file roots that the version of the metafile
  has.
\<close>

theorem source_map_verdict:
  assumes "parse_metainfo lib data = Inr meta" "digest_sizes lib"
    and "verify_source_map lib (logging os) meta bindings (w, []) = (Inr vs, (w', read))"
  shows "\<exists>segs. manifest_bytes (m_files meta) segs read \<and>
    (vr_verified (vs_result vs) \<longleftrightarrow> manifest_verdict lib meta segs)"
  using verify_source_map_decided [OF assms] by auto

text \<open>
  Claim C21. Consuming a verified file succeeds only when the callback was given exactly as many bytes as the
  file has in a snapshot of the verification, whatever the callback asks for and whenever it stops.
\<close>

theorem consume_exact_length:
  assumes "consume_verified_file lib sem (logging os) source i c (w, []) = (Inr (len, mtime), (w', read))"
  shows "int (length read) = len \<and> (\<exists>b before. find_binding (vs_bindings source) i = Some b \<and>
    snapshot_matches lib sem (vr_snapshots (vs_result source)) (sb_path b) before \<and> fi_size before = len \<and> fi_mtime before = mtime)"
  using logging.consume_verified_file_at [OF assms] by auto

text \<open>
  Claim C22. The observed root of a file is the root over the 16 KiB blocks of the bytes read, which is the root that
  every piece length gives: a v2 file can be recognised before the piece length is known.
\<close>

theorem observed_root_any_piece_length:
  assumes "observe_v2_file_root lib (logging os) path n opener (w, []) = (Inr r, (w', read))" "n \<le> max_int64"
  shows "int (length read) = n \<and> vo_pieces_root r = hex_encode (file_root lib d read)"
  using observe_root_decided [OF assms] by (auto simp: file_root_blocks)

text \<open>The run on the one-file system.\<close>

definition one_binding :: source_binding where
  "one_binding = \<lparr>sb_index = 0, sb_path = ''/srv/a'', sb_open = None\<rparr>"

lemma one_path_clean: "path_clean ''/srv/a'' = ''/srv/a''"
  using path_clean_abs [of "[''srv'', ''a'']"] by (simp add: clean_component_def sample_abs)

lemma one_source_run:
  assumes "m_version m = ''hybrid''" "m_files m = [one_entry]" "m_piece_length m = 16384" "m_piece_hashes m = [pad_to 20 ''b'']"
    "m_total_length m = 1" "m_info_hash_v1 m \<noteq> []" "m_info_hash_v2 m \<noteq> []"
  shows "\<exists>vs. verify_source_map sample_lib (logging one_file_os) m [one_binding] (w, l) = (Inr vs, (1, l @ ''b'')) \<and>
    vr_verified (vs_result vs) \<and> vs_bindings vs = [one_binding]"
proof -
  from one_hybrid_run [OF assms(2-7), of w l] obtain r where
    run: "verify_hybrid_resolved sample_lib (logging one_file_os) m [one_spec] (w, l) = (Inr r, (1, l @ ''b''))"
    and r: "vr_verified r" by blast
  have "\<not> is_padding one_entry" by (simp add: one_entry_def file_at_def is_padding_def)
  moreover have "bound_spec one_binding (f_length one_entry) = content_spec ''/srv/a'' 1 False"
    by (simp add: bound_spec_def one_entry_def file_at_def content_spec_def padding_spec_def one_binding_def)
  ultimately have "source_specs (m_files m) [one_binding] = Inr ([content_spec ''/srv/a'' 1 False], [one_binding])"
    using assms(2) by (simp add: source_specs_def is_abs_def has_prefix_def one_path_clean one_binding_def)
  then show ?thesis
    using run r assms(1) by (simp add: verify_source_map_def specs_from_source_map_def bnd_def one_preflight ret_def
        verify_resolved_def del: preflight.simps)
qed

theorem verified_source_paths_witness:
  "\<exists>vs. vs_bindings vs = [one_binding] \<and> source_path vs 0 = Some ''/srv/a'' \<and> source_path vs 5 = None"
proof (rule one_hybrid_parsed)
  fix m :: meta_info
  assume m: "m_version m = ''hybrid''" "m_files m = [one_entry]" "m_piece_length m = 16384"
    "m_piece_hashes m = [pad_to 20 ''b'']" "m_total_length m = 1" "m_info_hash_v1 m \<noteq> []" "m_info_hash_v2 m \<noteq> []"
  from one_source_run [OF m, of 0 "[]"] obtain vs where
    "verify_source_map sample_lib (logging one_file_os) m [one_binding] (0, []) = (Inr vs, (1, ''b''))" "vs_bindings vs = [one_binding]"
    by auto
  with verified_source_paths [OF this(1), of 0] verified_source_paths [OF this(1), of 5] show ?thesis
    by (auto simp: one_binding_def one_path_clean)
qed

theorem source_map_verdict_witness:
  "\<exists>segs. manifest_bytes [one_entry] segs ''b'' \<and> map (gl_sha1 sample_lib) (chunks 16384 (concat segs)) = [pad_to 20 ''b''] \<and>
    roots_match sample_lib 0 [one_entry] segs"
proof (rule one_hybrid_parsed)
  fix m
  assume m: "parse_metainfo sample_lib (encode one_hybrid) = Inr m" "m_version m = ''hybrid''" "m_files m = [one_entry]"
    "m_piece_length m = 16384" "m_piece_hashes m = [pad_to 20 ''b'']" "m_total_length m = 1"
    "m_info_hash_v1 m \<noteq> []" "m_info_hash_v2 m \<noteq> []"
  from one_source_run [OF m(2-8), of 0 "[]"] obtain vs where
    run: "verify_source_map sample_lib (logging one_file_os) m [one_binding] (0, []) = (Inr vs, (1, ''b''))"
    and r: "vr_verified (vs_result vs)" by auto
  have "v2_piece_layer_depth 16384 = Inr 0" by (simp add: v2_piece_layer_depth_iff)
  with source_map_verdict [OF m(1) digest_sizes_sample run] m r show ?thesis by (auto simp: manifest_verdict_def)
qed

definition one_source :: verified_source where
  "one_source = \<lparr>vs_variant = ''v'', vs_bindings = [one_binding],
     vs_result = (empty_result ''v1'' [] [] 0)\<lparr>vr_verified := True, vr_snapshot_authority := True,
       vr_snapshots := [(''/srv/a'', one_file_info)]\<rparr>\<rparr>"

theorem consume_exact_length_witness:
  "\<exists>r. consume_verified_file sample_lib posix_semantics (logging one_file_os) one_source 0 (Ask 4 (\<lambda>_. Finish True)) (0, []) =
    (Inr (1, 0), r) \<and> length (snd r) = 1"
proof -
  have b: "find_binding [one_binding] 0 = Some one_binding"
    using find_binding_iff [of "[one_binding]" 0 one_binding] by (simp add: one_binding_def)
  have "consume_verified_file sample_lib posix_semantics (logging one_file_os) one_source 0 (Ask 4 (\<lambda>_. Finish True)) (0, []) =
      (Inr (1, 0), (0, ''b''))"
    by (simp add: consume_verified_file_def one_source_def b [unfolded one_binding_def] bnd_def ret_def check_ctx_def open_source_binding_def
        recheck_source_binding_def consume_open_def consume_checked_def bounded_read_def file_reader_def file_read_def
        stat_opened_content_path_def closing_def close_file_def call_def guard_def logging_def logged_def one_file_os_def
        one_file_info_def one_binding_def snapshot_matches_def same_snapshot_path_def same_info_def Let_def)
  with consume_exact_length [OF this] show ?thesis by auto
qed

lemma one_observation:
  "\<exists>r. observe_v2_file_root sample_lib (logging one_file_os) ''/srv/a'' 1 None (w, l) = (Inr r, (1, l @ ''b'')) \<and>
    vo_pieces_root r = hex_encode (pad_to 32 ''b'')"
proof -
  have t: "next_power_of_two 1 = Inr 1" by (simp add: next_power_of_two_eq tree_height.simps)
  have seg: "hash_segment sample_lib (logging one_file_os) 3 1 1 (None, (0, l)) = (Inr (pad_to 32 ''b''), (None, (1, l @ ''b'')))"
    using one_segment [of None None l] by simp
  have plain: "(content_spec ''/srv/a'' 1 False)\<lparr>s_open := None\<rparr> = content_spec ''/srv/a'' 1 False"
    by (simp add: content_spec_def padding_spec_def)
  show ?thesis
    using seg one_stable [of 1 "l @ ''b''"] one_preflight [of w l]
    by (simp add: observe_v2_file_root_def one_path_clean is_abs_def has_prefix_def plain bnd_def merkle_def v2_block_size_def t
        open_file_spec_def closing_def stat_opened_content_path_def call_def guard_def ret_def check_after_def close_file_def
        same_snapshot_def same_info_def file_read_def logging_def logged_def one_file_os_def one_spec_def content_spec_def
        padding_spec_def one_file_info_def Let_def del: preflight.simps ensure_stable.simps)
qed

theorem observed_root_any_piece_length_witness:
  "hex_encode (pad_to 32 ''b'') = hex_encode (file_root sample_lib 3 ''b'')"
  using one_observation [of 0 "[]"] observed_root_any_piece_length [of sample_lib one_file_os "''/srv/a''" 1 None 0 _ 1 "''b''" 3]
  by (auto simp: max_int64_def)

end
