(* ===== verification/MatchProps.thy ===== *)
theory MatchProps
  imports OsInvariant SourceProps
begin

text \<open>
  Facts about the candidate search of \<open>Match\<close>: what a locale of matcher predicates says of a whole search once the
  single steps keep it, the limits and the origin of every returned match as instances of it, and the pruning of
  \<open>feedV1\<close>, which rejects a prefix only when no continuation can have the manifest's digests.
\<close>

section \<open>Reading the matcher after a step\<close>

named_theorems matcher_simps

lemma map_stats_fields [matcher_simps, simp]:
  "mr_stats (mt_result (map_stats f m)) = f (mr_stats (mt_result m))"
  "mt_limits (map_stats f m) = mt_limits m" "mt_by_file (map_stats f m) = mt_by_file m" "mt_cache (map_stats f m) = mt_cache m"
  "mt_bindings (map_stats f m) = mt_bindings m" "mt_matched (map_stats f m) = mt_matched m" "mt_stop (map_stats f m) = mt_stop m"
  "mr_complete (mt_result (map_stats f m)) = mr_complete (mt_result m)"
  "mr_stop_reasons (mt_result (map_stats f m)) = mr_stop_reasons (mt_result m)"
  "mr_issues (mt_result (map_stats f m)) = mr_issues (mt_result m)" "mr_matches (mt_result (map_stats f m)) = mr_matches (mt_result m)"
  by (simp_all add: map_stats_def)

lemma mark_incomplete_fields [matcher_simps, simp]:
  "mr_stats (mt_result (mark_incomplete reason m)) = mr_stats (mt_result m)"
  "mt_limits (mark_incomplete reason m) = mt_limits m" "mt_by_file (mark_incomplete reason m) = mt_by_file m"
  "mt_cache (mark_incomplete reason m) = mt_cache m"
  "mt_bindings (mark_incomplete reason m) = mt_bindings m" "mt_matched (mark_incomplete reason m) = mt_matched m"
  "mt_stop (mark_incomplete reason m) = mt_stop m" "\<not> mr_complete (mt_result (mark_incomplete reason m))"
  "set (mr_stop_reasons (mt_result (mark_incomplete reason m))) = insert reason (set (mr_stop_reasons (mt_result m)))"
  "distinct (mr_stop_reasons (mt_result (mark_incomplete reason m))) = distinct (mr_stop_reasons (mt_result m))"
  "mr_issues (mt_result (mark_incomplete reason m)) = mr_issues (mt_result m)"
  "mr_matches (mt_result (mark_incomplete reason m)) = mr_matches (mt_result m)"
  by (auto simp: mark_incomplete_def)

lemma halt_fields [matcher_simps, simp]:
  "mr_stats (mt_result (halt reason m)) = mr_stats (mt_result m)"
  "mt_limits (halt reason m) = mt_limits m" "mt_by_file (halt reason m) = mt_by_file m" "mt_cache (halt reason m) = mt_cache m"
  "mt_bindings (halt reason m) = mt_bindings m" "mt_matched (halt reason m) = mt_matched m"
  "mt_stop (halt reason m)" "\<not> mr_complete (mt_result (halt reason m))"
  "set (mr_stop_reasons (mt_result (halt reason m))) = insert reason (set (mr_stop_reasons (mt_result m)))"
  "distinct (mr_stop_reasons (mt_result (halt reason m))) = distinct (mr_stop_reasons (mt_result m))"
  "mr_issues (mt_result (halt reason m)) = mr_issues (mt_result m)"
  "mr_matches (mt_result (halt reason m)) = mr_matches (mt_result m)"
  by (auto simp: halt_def)

lemma add_issue_fields [matcher_simps, simp]:
  "mt_limits (add_issue code c msg m) = mt_limits m" "mt_by_file (add_issue code c msg m) = mt_by_file m"
  "mt_cache (add_issue code c msg m) = mt_cache m"
  "mt_bindings (add_issue code c msg m) = mt_bindings m" "mt_matched (add_issue code c msg m) = mt_matched m"
  "mt_stop (add_issue code c msg m) = mt_stop m"
  "mr_complete (mt_result (add_issue code c msg m)) = mr_complete (mt_result m)"
  "mr_stop_reasons (mt_result (add_issue code c msg m)) = mr_stop_reasons (mt_result m)"
  "mr_matches (mt_result (add_issue code c msg m)) = mr_matches (mt_result m)"
  by (auto simp: add_issue_def)

lemma reject_layout_fields [matcher_simps, simp]:
  "mt_limits (reject_layout m) = mt_limits m" "mt_by_file (reject_layout m) = mt_by_file m"
  "mt_bindings (reject_layout m) = mt_bindings m" "mt_matched (reject_layout m) = mt_matched m"
  "mt_stop (reject_layout m) = mt_stop m" "mr_matches (mt_result (reject_layout m)) = mr_matches (mt_result m)"
  by (auto simp: reject_layout_def)

lemma pop_push [simp]: "pop_binding (push_binding i c m) = m"
  by (simp add: pop_binding_def push_binding_def)

text \<open>The outcomes of the two guards.\<close>

lemma charge_False: "charge amount reason m = (False, m') \<Longrightarrow> m' = halt reason m"
  by (auto simp: charge_def split: if_splits)

lemma charge_True:
  "charge amount reason m = (True, m') \<Longrightarrow> 0 \<le> amount \<and> amount \<le> ml_proof_work (mt_limits m) - ms_work (mr_stats (mt_result m)) \<and>
     m' = map_stats (\<lambda>s. s\<lparr>ms_work := ms_work s + amount\<rparr>) m"
  by (auto simp: charge_def split: if_splits)

lemma enter_state_False:
  "enter_state os s = (False, s') \<Longrightarrow> \<exists>reason. fst s' = halt reason (fst s)"
  by (auto simp: enter_state_def split: prod.splits bool.splits if_splits)

lemma enter_state_True:
  "enter_state os s = (True, s') \<Longrightarrow> ms_states (mr_stats (mt_result (fst s))) < ml_states (mt_limits (fst s)) \<and>
     fst s' = map_stats (\<lambda>t. t\<lparr>ms_states := ms_states t + 1\<rparr>) (fst s)"
  by (auto simp: enter_state_def split: prod.splits bool.splits if_splits)

lemma enter_state_system: "enter_state os s = (b, s') \<Longrightarrow> snd s' = snd (ctx_done os (snd s))"
  by (auto simp: enter_state_def split: prod.splits bool.splits if_splits)

section \<open>Predicates that a search keeps\<close>

text \<open>
  \<open>ok\<close> is about the matcher with the candidate lists \<open>cands\<close> and about the system. The assumptions are that the
  calls of the system keep it, and the single steps of the matcher; \<open>verify_layout\<close> is taken as one.
\<close>

locale search_predicate =
  fixes lib :: golib and os :: "'w os" and meta :: meta_info and cands :: "nat \<Rightarrow> source_candidate list"
    and ok :: "matcher \<Rightarrow> 'w \<Rightarrow> bool"
  assumes candidates: "ok m w \<Longrightarrow> candidates_of m = cands"
    and system: "os_invariant os (ok m)"
    and halted: "ok m w \<Longrightarrow> ok (halt reason m) w"
    and issue: "ok m w \<Longrightarrow> ok (add_issue code c msg (mark_incomplete reason m)) w"
    and rejected: "ok m w \<Longrightarrow> ok (reject_layout m) w"
    and entered: "ok m w \<Longrightarrow> ms_states (mr_stats (mt_result m)) < ml_states (mt_limits m) \<Longrightarrow>
      ok (map_stats (\<lambda>t. t\<lparr>ms_states := ms_states t + 1\<rparr>) m) w"
    and charged: "ok m w \<Longrightarrow> 0 \<le> amount \<Longrightarrow> amount \<le> ml_proof_work (mt_limits m) - ms_work (mr_stats (mt_result m)) \<Longrightarrow>
      ok (map_stats (\<lambda>s. s\<lparr>ms_work := ms_work s + amount\<rparr>) m) w"
    and pushed: "ok m w \<Longrightarrow> candidate \<in> set (cands i) \<Longrightarrow> ok (push_binding i candidate m) w"
    and popped: "ok m w \<Longrightarrow> ok (pop_binding m) w"
    and stopped: "ok m w \<Longrightarrow> \<not> mr_complete (mt_result m) \<Longrightarrow> ok (m\<lparr>mt_stop := True\<rparr>) w"
    and verified: "ok (fst s) (snd s) \<Longrightarrow> ok (fst (verify_layout lib os meta s)) (snd (verify_layout lib os meta s))"
begin

abbreviation okay :: "matcher \<times> 'w \<Rightarrow> bool" where
  "okay s \<equiv> ok (fst s) (snd s)"

lemma polled: "ctx_done os w = (b, w') \<Longrightarrow> ok m w \<Longrightarrow> ok m w'"
  using keepsD [OF os_invariant.ctx [OF system]] .

lemma advanced: "advance_v1_file lib os meta c len st w = (r, w') \<Longrightarrow> ok m w \<Longrightarrow> ok m w'"
  using keepsD [OF os_invariant.advance_v1_file_keeps [OF system]] .

lemma advanced_zeros: "advance_v1_zeros lib os meta len st w = (r, w') \<Longrightarrow> ok m w \<Longrightarrow> ok m w'"
  using os_invariant.advance_v1_zeros_keeps [OF system, of m w lib meta len st] by simp

lemma charge_ok: "ok m w \<Longrightarrow> charge amount reason m = (b, m') \<Longrightarrow> ok m' w"
  using charge_True [of amount reason m m'] charge_False [of amount reason m m'] by (cases b) (auto intro: halted charged)

lemma enter_ok: "okay s \<Longrightarrow> enter_state os s = (b, s') \<Longrightarrow> okay s'"
proof -
  assume s: "okay s" and e: "enter_state os s = (b, s')"
  have "ok (fst s) (snd s')"
    using polled [OF _ s, of "fst (ctx_done os (snd s))"] enter_state_system [OF e] by simp
  then show "okay s'"
    using enter_state_True [of os s s'] enter_state_False [of os s s'] e by (cases b) (auto intro: halted entered)
qed

lemma entry_ok:
  assumes "okay s" "\<And>s. okay s \<Longrightarrow> okay (k s)"
  shows "okay (search_entry os k s)"
proof -
  obtain b w where poll: "ctx_done os (snd s) = (b, w)" by fastforce
  note w = polled [OF poll assms(1)]
  from w assms(2) [of "(fst s, w)"] assms(1) poll show ?thesis
    by (cases b) (simp_all add: search_entry_def halted)
qed

lemma v1_candidates_ok:
  assumes "\<And>st s. okay s \<Longrightarrow> okay (go_on st s)"
  shows "okay s \<Longrightarrow> set cs \<subseteq> set (cands i) \<Longrightarrow> okay (v1_candidates lib os meta i entry st go_on cs s)"
proof (induction cs arbitrary: s)
  case (Cons c cs)
  note IH = Cons.IH [OF _ subset_trans [OF set_subset_Cons Cons.prems(2)]]
  show ?case
  proof (cases "mt_stop (fst s)")
    case run: False
    obtain b s1 where enter: "enter_state os s = (b, s1)" by (cases "enter_state os s")
    obtain m w where s1: "s1 = (m, w)" by fastforce
    have m: "ok m w" using enter_ok [OF Cons.prems(1) enter] s1 by simp
    obtain b' m1 where charge: "charge (f_length entry) ''max_proof_work_bytes'' m = (b', m1)" by fastforce
    note m1 = charge_ok [OF m charge]
    obtain outcome w1 where adv: "advance_v1_file lib os meta c (f_length entry) st w = (outcome, w1)" by fastforce
    note m1' = advanced [OF adv m1]
    show ?thesis
    proof (cases "b \<and> b'")
      case False
      then show ?thesis using run enter s1 charge m m1 Cons.prems(1) by (cases b; cases b') auto
    next
      case True
      then have eq: "v1_candidates lib os meta i entry st go_on (c # cs) s =
          (case outcome of
             Inl e \<Rightarrow>
               if context_error e then (halt ''context_cancelled'' m1, w1)
               else v1_candidates lib os meta i entry st go_on cs
                      (add_issue ''candidate.v1_observation'' (sc_id c) observation_message
                         (mark_incomplete ''candidate_io_error'' m1), w1)
           | Inr None \<Rightarrow> v1_candidates lib os meta i entry st go_on cs (reject_layout m1, w1)
           | Inr (Some st') \<Rightarrow>
               (case go_on st' (push_binding i c m1, w1) of
                  (m, w) \<Rightarrow> v1_candidates lib os meta i entry st go_on cs (pop_binding m, w)))"
        using run enter s1 charge adv by simp
      have "okay (go_on st' (push_binding i c m1, w1))" for st'
        by (rule assms) (use m1' Cons.prems(2) pushed in auto)
      then show ?thesis unfolding eq case_prod_beta
        by (cases outcome) (auto intro!: IH halted issue rejected popped m1' split: option.split)
    qed
  qed (use Cons.prems in simp)
qed simp

lemma search_v1_ok: "okay s \<Longrightarrow> okay (search_v1 lib os meta entries i st s)"
proof (induction entries arbitrary: i st s)
  case Nil
  then show ?case unfolding search_v1.simps by (rule entry_ok) (auto intro: verified rejected)
next
  case (Cons entry rest)
  show ?case unfolding search_v1.simps
  proof (rule entry_ok [OF Cons.prems])
    fix s :: "matcher \<times> 'w"
    assume s: "okay s"
    obtain b s1 where enter: "enter_state os s = (b, s1)" by (cases "enter_state os s")
    obtain m w where s1: "s1 = (m, w)" by fastforce
    note s1_ok = enter_ok [OF s enter, unfolded s1 fst_conv snd_conv]
    obtain b' m1 where charge: "charge (f_length entry) ''max_proof_work_bytes'' m = (b', m1)" by fastforce
    note m1 = charge_ok [OF s1_ok charge]
    obtain outcome w1 where adv: "advance_v1_zeros lib os meta (f_length entry) st w = (outcome, w1)" by fastforce
    note m1' = advanced_zeros [OF adv m1]
    have stop: "ok ((add_issue c1 c2 c3 (mark_incomplete r m1))\<lparr>mt_stop := True\<rparr>) w1" for c1 c2 c3 r
      by (intro stopped issue m1') simp
    show "okay (if is_padding entry then
       (case enter_state os s of
          (False, s) \<Rightarrow> s
        | (True, (m, w)) \<Rightarrow>
            (case charge (f_length entry) ''max_proof_work_bytes'' m of
               (False, m) \<Rightarrow> (m, w)
             | (True, m) \<Rightarrow>
                 (case advance_v1_zeros lib os meta (f_length entry) st w of
                    (Inl e, w) \<Rightarrow>
                      ((add_issue ''solver.v1_padding'' [] ''virtual padding could not be evaluated''
                         (mark_incomplete ''v1_padding_error'' m))\<lparr>mt_stop := True\<rparr>, w)
                  | (Inr None, w) \<Rightarrow> (reject_layout m, w)
                  | (Inr (Some st), w) \<Rightarrow> search_v1 lib os meta rest (i + 1) st (m, w))))
     else if f_length entry = 0 then
       (case enter_state os s of
          (False, s) \<Rightarrow> s
        | (True, s) \<Rightarrow> search_v1 lib os meta rest (i + 1) st s)
     else v1_candidates lib os meta i entry st (search_v1 lib os meta rest (i + 1)) (candidates_of (fst s) i) s)"
      using enter s1 charge adv s1_ok m1 m1' stop s candidates [OF s]
      by (cases b; cases b') (auto intro!: Cons.IH v1_candidates_ok rejected split: sum.split option.split)
  qed
qed

lemma v2_candidates_ok:
  assumes "\<And>s. okay s \<Longrightarrow> okay (go_on s)"
  shows "okay s \<Longrightarrow> set cs \<subseteq> set (cands i) \<Longrightarrow> okay (v2_candidates os i go_on cs s)"
proof (induction cs arbitrary: s)
  case (Cons c cs)
  obtain b s1 where enter: "enter_state os s = (b, s1)" by (cases "enter_state os s")
  obtain m w where s1: "s1 = (m, w)" by fastforce
  note m = enter_ok [OF Cons.prems(1) enter, unfolded s1 fst_conv snd_conv]
  have "okay (go_on (push_binding i c m, w))" by (rule assms) (use m Cons.prems(2) pushed in auto)
  with Cons.prems m enter s1 show ?case by (cases b) (auto simp: case_prod_beta intro!: Cons.IH popped)
qed simp

lemma search_v2_ok: "okay s \<Longrightarrow> okay (search_v2_layouts lib os meta entries i s)"
proof (induction entries arbitrary: i s)
  case Nil
  then show ?case unfolding search_v2_layouts.simps by (rule entry_ok) (rule verified)
next
  case (Cons entry rest)
  show ?case unfolding search_v2_layouts.simps
    by (rule entry_ok [OF Cons.prems])
      (auto simp: candidates intro!: Cons.IH v2_candidates_ok dest: enter_ok split: prod.split bool.split)
qed

end


section \<open>The limits\<close>

text \<open>
  What the limits promise, and how an incomplete search is recorded. Two counters may stand one above their limit, and
  only in an incomplete result: the edges offered are counted up to one over the limit, to show that there were more,
  and the layout over the limit is counted and not returned.
\<close>

definition within_limits :: "match_limits \<Rightarrow> match_stats \<Rightarrow> match_result \<Rightarrow> bool" where
  "within_limits l t r \<longleftrightarrow> mr_limits r = l \<and> mr_stats r = t \<and>
     0 \<le> ms_work t \<and> ms_work t \<le> ml_proof_work l \<and> 0 \<le> ms_states t \<and> ms_states t \<le> ml_states l \<and>
     ms_edges t \<le> ml_candidate_edges l + 1 \<and>
     int (length (mr_issues r)) \<le> ml_issues l \<and> int (length (mr_matches r)) \<le> ml_verified_layouts l \<and>
     ms_verified_layouts t \<le> ml_verified_layouts l + 1 \<and> int (length (mr_matches r)) = min (ms_verified_layouts t) (ml_verified_layouts l)"

definition recorded :: "match_result \<Rightarrow> bool" where
  "recorded r \<longleftrightarrow> distinct (mr_stop_reasons r) \<and> (mr_complete r \<longleftrightarrow> mr_stop_reasons r = []) \<and>
     (mr_complete r \<longrightarrow> mr_issues r = [] \<and> ms_issue_overflow (mr_stats r) = 0 \<and>
        ms_edges (mr_stats r) \<le> ml_candidate_edges (mr_limits r) \<and> ms_verified_layouts (mr_stats r) \<le> ml_verified_layouts (mr_limits r))"

definition search_sound :: "match_limits \<Rightarrow> (nat \<Rightarrow> source_candidate list) \<Rightarrow> matcher \<Rightarrow> bool" where
  "search_sound l cands m \<longleftrightarrow> candidates_of m = cands \<and> within_limits l (mr_stats (mt_result m)) (mt_result m) \<and> recorded (mt_result m) \<and>
     (\<not> mt_stop m \<longrightarrow> ms_verified_layouts (mr_stats (mt_result m)) \<le> ml_verified_layouts l) \<and> (mt_stop m \<longrightarrow> \<not> mr_complete (mt_result m))"

definition limits_ok :: "match_limits \<Rightarrow> matcher \<Rightarrow> bool" where
  "limits_ok l m \<longleftrightarrow> within_limits l (mr_stats (mt_result m)) (mt_result m) \<and> recorded (mt_result m) \<and>
     (\<not> mt_stop m \<longrightarrow> ms_verified_layouts (mr_stats (mt_result m)) \<le> ml_verified_layouts l) \<and> (mt_stop m \<longrightarrow> \<not> mr_complete (mt_result m))"

lemma recorded_iff:
  "recorded r \<longleftrightarrow> distinct (mr_stop_reasons r) \<and>
     (if mr_complete r then mr_stop_reasons r = [] \<and> mr_issues r = [] \<and> ms_issue_overflow (mr_stats r) = 0 \<and>
        ms_edges (mr_stats r) \<le> ml_candidate_edges (mr_limits r) \<and> ms_verified_layouts (mr_stats r) \<le> ml_verified_layouts (mr_limits r)
      else set (mr_stop_reasons r) \<noteq> {})"
  by (auto simp: recorded_def)

lemmas limits_simps = limits_ok_def within_limits_def recorded_iff

lemma limits_ok_halt: "limits_ok l m \<Longrightarrow> limits_ok l (halt reason m)"
  by (auto simp: limits_simps)

lemma limits_ok_incomplete: "limits_ok l m \<Longrightarrow> limits_ok l (mark_incomplete reason m)"
  by (auto simp: limits_simps)

lemma limits_ok_issue: "limits_ok l m \<Longrightarrow> limits_ok l (add_issue code c msg (mark_incomplete reason m))"
  using limits_ok_incomplete [of l m reason] by (auto simp: limits_simps add_issue_def)

lemma limits_ok_stats:
  assumes "limits_ok l m" "ms_work (f (mr_stats (mt_result m))) \<in> {0..ml_proof_work l}"
    "ms_states (f (mr_stats (mt_result m))) \<in> {0..ml_states l}" "ms_edges (f (mr_stats (mt_result m))) = ms_edges (mr_stats (mt_result m))"
    "ms_verified_layouts (f (mr_stats (mt_result m))) = ms_verified_layouts (mr_stats (mt_result m))"
    "ms_issue_overflow (f (mr_stats (mt_result m))) = ms_issue_overflow (mr_stats (mt_result m))"
  shows "limits_ok l (map_stats f m)"
  using assms by (auto simp: limits_simps)

lemma limits_ok_entered:
  "limits_ok l m \<Longrightarrow> ms_states (mr_stats (mt_result m)) < ml_states (mt_limits m) \<Longrightarrow>
     limits_ok l (map_stats (\<lambda>t. t\<lparr>ms_states := ms_states t + 1\<rparr>) m)"
  by (rule limits_ok_stats) (auto simp: limits_simps)

lemma limits_ok_charged:
  "limits_ok l m \<Longrightarrow> 0 \<le> amount \<Longrightarrow> amount \<le> ml_proof_work (mt_limits m) - ms_work (mr_stats (mt_result m)) \<Longrightarrow>
     limits_ok l (map_stats (\<lambda>t. t\<lparr>ms_work := ms_work t + amount\<rparr>) m)"
  by (rule limits_ok_stats) (auto simp: limits_simps)

lemma limits_ok_rejected: "limits_ok l m \<Longrightarrow> limits_ok l (reject_layout m)"
  unfolding reject_layout_def by (rule limits_ok_stats) (auto simp: limits_simps)

lemma limits_ok_fields:
  "limits_ok l (m\<lparr>mt_by_file := a\<rparr>) = limits_ok l m" "limits_ok l (m\<lparr>mt_cache := b\<rparr>) = limits_ok l m"
  "limits_ok l (push_binding i cand m) = limits_ok l m" "limits_ok l (pop_binding m) = limits_ok l m"
  by (simp_all add: limits_ok_def push_binding_def pop_binding_def)

lemma limits_ok_stop: "limits_ok l m \<Longrightarrow> \<not> mr_complete (mt_result m) \<Longrightarrow> limits_ok l (m\<lparr>mt_stop := True\<rparr>)"
  by (simp add: limits_ok_def)

text \<open>\<open>verifyLayout\<close> as one case distinction.\<close>

lemma verify_layout_cases:
  obtains (stopped) "mt_stop (fst s)" "verify_layout lib os meta s = s"
  | (charged) "\<not> mt_stop (fst s)" "verify_layout lib os meta s = (halt ''max_proof_work_bytes'' (fst s), snd s)"
  | (failed) amount m where "\<not> mt_stop (fst s)" "charge amount ''max_proof_work_bytes'' (fst s) = (True, m)"
      "fst (verify_layout lib os meta s) \<in>
         {halt ''context_cancelled'' (map_stats (\<lambda>t. t\<lparr>ms_full_verifications := ms_full_verifications t + 1\<rparr>) m),
          add_issue ''candidate.final_verification'' [] ''source layout changed or could not be read during final verification''
            (mark_incomplete ''candidate_io_error'' (map_stats (\<lambda>t. t\<lparr>ms_full_verifications := ms_full_verifications t + 1\<rparr>) m))}"
      "snd (verify_layout lib os meta s) = snd (verify_source_map lib os meta (mt_bindings (fst s)) (snd s))"
  | (rejected) amount m where "\<not> mt_stop (fst s)" "charge amount ''max_proof_work_bytes'' (fst s) = (True, m)"
      "fst (verify_layout lib os meta s) =
         reject_layout (map_stats (\<lambda>t. t\<lparr>ms_full_verifications := ms_full_verifications t + 1\<rparr>) m)"
      "snd (verify_layout lib os meta s) = snd (verify_source_map lib os meta (mt_bindings (fst s)) (snd s))"
  | (verified) amount m vs w where "\<not> mt_stop (fst s)" "charge amount ''max_proof_work_bytes'' (fst s) = (True, m)"
      "verify_source_map lib os meta (mt_bindings (fst s)) (snd s) = (Inr vs, w)" "vr_verified (vs_result vs)"
      "fst (verify_layout lib os meta s) =
         (let m = map_stats (\<lambda>t. t\<lparr>ms_verified_layouts := ms_verified_layouts t + 1\<rparr>)
            (map_stats (\<lambda>t. t\<lparr>ms_full_verifications := ms_full_verifications t + 1\<rparr>) m);
              bs = sort_key mb_index (mt_matched m)
          in if ms_verified_layouts (mr_stats (mt_result m)) > ml_verified_layouts (mt_limits m) then halt ''max_verified_layouts'' m
             else m\<lparr>mt_result := (mt_result m)\<lparr>mr_matches := mr_matches (mt_result m) @
               [\<lparr>sm_id = source_match_id lib (m_variant_id meta) bs, sm_bindings = bs,
                 sm_verification = vs_result vs, sm_source = vs\<rparr>]\<rparr>\<rparr>)"
      "snd (verify_layout lib os meta s) = w"
proof -
  obtain m0 w0 where s: "s = (m0, w0)" by fastforce
  obtain b m where c: "charge (full_verification_work_bytes meta) ''max_proof_work_bytes'' m0 = (b, m)" by fastforce
  obtain r w where v: "verify_source_map lib os meta (mt_bindings m0) w0 = (r, w)" by fastforce
  have same: "b \<Longrightarrow> mt_bindings m = mt_bindings m0" using charge_True [of "full_verification_work_bytes meta" "''max_proof_work_bytes''" m0 m] c by simp
  note def = verify_layout_def [of lib os meta s, unfolded s fst_conv snd_conv c]
  show ?thesis
  proof (cases "mt_stop m0")
    case True
    then show ?thesis using stopped s def by simp
  next
    case False
    show ?thesis
    proof (cases b)
      case False
      then show ?thesis using charged \<open>\<not> mt_stop m0\<close> s def charge_False [of _ _ m0 m] c by auto
    next
      case b: True
      note go = def [unfolded if_not_P [OF False] b case_prod_conv Let_def map_stats_fields same [OF b] v]
      show ?thesis
      proof (cases r)
        case (Inl e)
        then show ?thesis using failed [of _ m] \<open>\<not> mt_stop m0\<close> s c b go by (simp add: same v split: if_splits)
      next
        case (Inr vs)
        show ?thesis
        proof (cases "vr_verified (vs_result vs)")
          case False
          then show ?thesis using rejected [of _ m] \<open>\<not> mt_stop m0\<close> s c b go Inr by (simp add: same v)
        next
          case True
          then show ?thesis using verified [of _ m vs w] \<open>\<not> mt_stop m0\<close> s c b go Inr v by (simp add: same Let_def)
        qed
      qed
    qed
  qed
qed

text \<open>The layout over the limit is counted and not returned.\<close>

lemma limits_ok_count_layout:
  fixes m :: matcher
  defines "m' \<equiv> map_stats (\<lambda>t. t\<lparr>ms_verified_layouts := ms_verified_layouts t + 1\<rparr>) m"
  assumes "limits_ok l m" "\<not> mt_stop m"
  shows "ms_verified_layouts (mr_stats (mt_result m')) > ml_verified_layouts l \<Longrightarrow> limits_ok l (halt reason m')"
    and "\<not> ms_verified_layouts (mr_stats (mt_result m')) > ml_verified_layouts l \<Longrightarrow>
      limits_ok l (m'\<lparr>mt_result := (mt_result m')\<lparr>mr_matches := mr_matches (mt_result m') @ [x]\<rparr>\<rparr>)"
proof -
  have v: "ms_verified_layouts (mr_stats (mt_result m)) \<le> ml_verified_layouts l"
    "int (length (mr_matches (mt_result m))) = ms_verified_layouts (mr_stats (mt_result m))"
    using assms(2,3) by (simp_all add: limits_simps)
  with assms show "ms_verified_layouts (mr_stats (mt_result m')) > ml_verified_layouts l \<Longrightarrow> limits_ok l (halt reason m')"
    by (simp add: limits_simps)
  show "\<not> ms_verified_layouts (mr_stats (mt_result m')) > ml_verified_layouts l \<Longrightarrow>
      limits_ok l (m'\<lparr>mt_result := (mt_result m')\<lparr>mr_matches := mr_matches (mt_result m') @ [x]\<rparr>\<rparr>)"
    using v assms by (cases "mr_complete (mt_result m)") (auto simp: limits_simps min_def)
qed

lemma limits_ok_full_verification:
  assumes "limits_ok l m0" "charge amount reason m0 = (True, m)"
  shows "limits_ok l (map_stats (\<lambda>t. t\<lparr>ms_full_verifications := ms_full_verifications t + 1\<rparr>) m)"
proof -
  have "limits_ok l m" using charge_True [OF assms(2)] limits_ok_charged [OF assms(1)] by simp
  then show ?thesis by (rule limits_ok_stats) (use \<open>limits_ok l m\<close> in \<open>simp_all add: limits_simps\<close>)
qed

lemma limits_ok_verify_layout:
  assumes "limits_ok l (fst s)"
  shows "limits_ok l (fst (verify_layout lib os meta s))"
proof (cases rule: verify_layout_cases [of s lib os meta])
  case (failed amount m)
  from limits_ok_full_verification [OF assms failed(2)] failed(3) show ?thesis
    by (elim insertE emptyE) (simp_all add: limits_ok_halt limits_ok_issue)
next
  case (rejected amount m)
  from limits_ok_full_verification [OF assms rejected(2)] rejected(3) show ?thesis
    by (simp add: limits_ok_rejected)
next
  case (verified amount m vs w)
  note m = limits_ok_full_verification [OF assms verified(2)]
  have stop: "\<not> mt_stop (map_stats (\<lambda>t. t\<lparr>ms_full_verifications := ms_full_verifications t + 1\<rparr>) m)"
    using verified(1) charge_True [OF verified(2)] by simp
  have "mt_limits m = l" using m by (simp add: limits_ok_def within_limits_def)
  with limits_ok_count_layout [OF m stop] show ?thesis unfolding verified(5) Let_def by simp
qed (use assms limits_ok_halt in simp_all)

lemma candidates_of_cong: "mt_by_file m = mt_by_file m' \<Longrightarrow> candidates_of m = candidates_of m'"
  by (simp add: candidates_of_def fun_eq_iff)

lemma candidates_of_fields [simp]:
  "candidates_of (halt reason m) = candidates_of m" "candidates_of (mark_incomplete reason m) = candidates_of m"
  "candidates_of (add_issue code c msg m) = candidates_of m" "candidates_of (reject_layout m) = candidates_of m"
  "candidates_of (map_stats f m) = candidates_of m" "candidates_of (push_binding i cand m) = candidates_of m"
  "candidates_of (pop_binding m) = candidates_of m" "candidates_of (m\<lparr>mt_stop := b\<rparr>) = candidates_of m"
  by (rule candidates_of_cong, simp add: push_binding_def pop_binding_def)+

interpretation limits: search_predicate lib os meta cands "\<lambda>m _. candidates_of m = cands \<and> limits_ok l m"
  for lib :: golib and os :: "'w os" and meta cands l
proof (rule search_predicate.intro, goal_cases)
  case (11 s)
  have "mt_by_file (fst (verify_layout lib os meta s)) = mt_by_file (fst s)"
    by (cases rule: verify_layout_cases [of s lib os meta]) (auto simp: Let_def dest!: charge_True)
  with 11 show ?case using candidates_of_cong by (metis limits_ok_verify_layout)
qed (auto simp: limits_ok_fields any_os_invariant
      intro: limits_ok_halt limits_ok_issue limits_ok_entered limits_ok_charged limits_ok_rejected limits_ok_stop)


text \<open>The filter and the preparation.\<close>

lemma charge_by_file: "charge amount reason m = (b, m') \<Longrightarrow> mt_by_file m' = mt_by_file m"
  by (auto simp: charge_def split: if_splits)

lemma limits_ok_charge: "limits_ok l m \<Longrightarrow> charge amount reason m = (b, m') \<Longrightarrow> limits_ok l m'"
  using charge_True [of amount reason m m'] charge_False [of amount reason m m']
  by (cases b) (auto intro: limits_ok_halt limits_ok_charged)

lemma limits_ok_observed:
  assumes "limits_ok l m"
  shows "limits_ok l (map_stats (\<lambda>t. t\<lparr>ms_roots_observed := ms_roots_observed t + 1\<rparr>) m)"
    and "limits_ok l (map_stats (\<lambda>t. t\<lparr>ms_candidates_rejected := ms_candidates_rejected t + 1\<rparr>) m)"
  by (rule limits_ok_stats [OF assms]; use assms in \<open>simp add: limits_simps\<close>)+

lemma limits_ok_stop_preparation: "limits_ok l m \<Longrightarrow> limits_ok l (stop_preparation reason m)"
  by (auto simp: stop_preparation_def intro: limits_ok_halt limits_ok_incomplete)

lemma prepare_steps_fields [simp]:
  "mt_by_file (stop_preparation reason m) = mt_by_file m" "mt_by_file (count_edges edges m) = mt_by_file m"
  "mt_bindings (stop_preparation reason m) = mt_bindings m" "mt_bindings (count_edges edges m) = mt_bindings m"
  "mt_matched (stop_preparation reason m) = mt_matched m" "mt_matched (count_edges edges m) = mt_matched m"
  "mr_matches (mt_result (stop_preparation reason m)) = mr_matches (mt_result m)"
  "mr_matches (mt_result (count_edges edges m)) = mr_matches (mt_result m)"
  by (simp_all add: stop_preparation_def count_edges_def)

text \<open>Before the search no layout has been tried.\<close>

definition ready :: "match_limits \<Rightarrow> matcher \<Rightarrow> bool" where
  "ready l m \<longleftrightarrow> limits_ok l m \<and> mt_bindings m = [] \<and> mt_matched m = [] \<and> mr_matches (mt_result m) = []"

lemma ready_steps:
  assumes "ready l m"
  shows ready_halt: "ready l (halt reason m)" and ready_incomplete: "ready l (mark_incomplete reason m)"
    and ready_issue: "ready l (add_issue code c msg (mark_incomplete reason m))"
    and ready_observed: "ready l (map_stats (\<lambda>t. t\<lparr>ms_roots_observed := ms_roots_observed t + 1\<rparr>) m)"
    and ready_dropped: "ready l (map_stats (\<lambda>t. t\<lparr>ms_candidates_rejected := ms_candidates_rejected t + 1\<rparr>) m)"
    and ready_stop_preparation: "ready l (stop_preparation reason m)"
  using assms limits_ok_halt limits_ok_incomplete limits_ok_issue limits_ok_observed limits_ok_stop_preparation
  by (auto simp: ready_def)

lemma ready_charge: "ready l m \<Longrightarrow> charge amount reason m = (b, m') \<Longrightarrow> ready l m'"
  using limits_ok_charge [of l m amount reason b m'] by (auto simp: ready_def charge_def split: if_splits)

lemma ready_fields:
  "ready l (m\<lparr>mt_by_file := a\<rparr>) = ready l m" "ready l (m\<lparr>mt_cache := d\<rparr>) = ready l m"
  by (simp_all add: ready_def limits_ok_fields)

text \<open>One candidate: the loop ends, or goes on with the candidate kept or dropped.\<close>

lemma filter_candidates_step:
  assumes "ready l m"
  obtains (ended) m' w' where "filter_candidates lib os entry (c # cs) filtered (m, w) = (filtered, (m', w'))"
      "ready l m'" "mt_by_file m' = mt_by_file m"
  | (kept) m' w' where "filter_candidates lib os entry (c # cs) filtered (m, w) = filter_candidates lib os entry cs (filtered @ [c]) (m', w')"
      "ready l m'" "mt_by_file m' = mt_by_file m"
  | (dropped) m' w' where "filter_candidates lib os entry (c # cs) filtered (m, w) = filter_candidates lib os entry cs filtered (m', w')"
      "ready l m'" "mt_by_file m' = mt_by_file m"
proof -
  let ?seen = "map_stats (\<lambda>t. t\<lparr>ms_roots_observed := ms_roots_observed t + 1\<rparr>)"
  let ?reject = "map_stats (\<lambda>t. t\<lparr>ms_candidates_rejected := ms_candidates_rejected t + 1\<rparr>)"
  have decided: thesis
    if "filter_candidates lib os entry (c # cs) filtered (m, w) =
        (if ce_valid e \<and> ce_root e = f_pieces_root entry then filter_candidates lib os entry cs (filtered @ [c]) (m1, w1)
         else if ce_valid e then filter_candidates lib os entry cs filtered (?reject m1, w1)
         else filter_candidates lib os entry cs filtered (m1, w1))"
      "ready l m1" "mt_by_file m1 = mt_by_file m" for e m1 w1
  proof (cases "ce_valid e")
    case False
    show ?thesis by (rule dropped [of m1 w1]) (use that False in simp_all)
  next
    case valid: True
    show ?thesis
    proof (cases "ce_root e = f_pieces_root entry")
      case True
      show ?thesis by (rule kept [of m1 w1]) (use that valid True in simp_all)
    next
      case False
      show ?thesis by (rule dropped [of "?reject m1" w1]) (use that valid False ready_dropped [of l m1] in simp_all)
    qed
  qed
  obtain b m1 where charge: "charge (f_length entry) ''max_proof_work_bytes'' m = (b, m1)" by fastforce
  have m1: "ready l m1" "mt_by_file m1 = mt_by_file m"
    using ready_charge [OF assms charge] charge_by_file [OF charge] by simp_all
  obtain outcome w1 where obs: "observe_v2_file_root lib os (sc_path c) (f_length entry) (sc_open c) w = (outcome, w1)" by fastforce
  note seen = ready_observed [OF m1(1)]
  consider "mt_stop m" | e where "\<not> mt_stop m" "mt_cache m (sc_id c) = Some e" | "\<not> mt_stop m" "mt_cache m (sc_id c) = None" "\<not> b"
    | e where "\<not> mt_stop m" "mt_cache m (sc_id c) = None" b "outcome = Inl e"
    | v where "\<not> mt_stop m" "mt_cache m (sc_id c) = None" b "outcome = Inr v"
    by (cases "mt_stop m"; cases "mt_cache m (sc_id c)"; cases b; cases outcome) auto
  then show thesis
  proof cases
    case (2 e)
    show ?thesis by (rule decided [of e m w]) (use 2 assms in simp_all)
  next
    case (4 e)
    show ?thesis
    proof (cases "context_error e")
      case True
      show ?thesis
        by (rule ended [of "halt ''context_cancelled'' (?seen m1)" w1]) (use True 4 charge obs m1 seen ready_halt in simp_all)
    next
      case False
      show ?thesis
        by (rule dropped [of "(add_issue ''candidate.v2_observation'' (sc_id c) observation_message
            (mark_incomplete ''candidate_io_error'' (?seen m1)))\<lparr>mt_cache := (mt_cache m1)(sc_id c \<mapsto>
              \<lparr>ce_path = sc_path c, ce_length = f_length entry, ce_root = [], ce_valid = False\<rparr>)\<rparr>" w1])
          (use False 4 charge obs m1 seen in \<open>simp_all add: ready_issue ready_fields\<close>)
    qed
  next
    case (5 v)
    define e where "e = \<lparr>ce_path = sc_path c, ce_length = f_length entry, ce_root = vo_pieces_root v, ce_valid = True\<rparr>"
    show ?thesis
      by (rule decided [of e "(?seen m1)\<lparr>mt_cache := (mt_cache m1)(sc_id c \<mapsto> e)\<rparr>" w1])
        (use 5 charge obs m1 seen in \<open>simp_all add: ready_fields e_def\<close>)
  next
    case 1
    show ?thesis by (rule ended [of m w]) (use 1 assms in simp_all)
  next
    case 3
    show ?thesis by (rule ended [of m1 w]) (use 3 charge m1 in simp_all)
  qed
qed

lemma filter_candidates_ok:
  "ready l (fst s) \<Longrightarrow> filter_candidates lib os entry cs filtered s = (out, s') \<Longrightarrow>
     ready l (fst s') \<and> mt_by_file (fst s') = mt_by_file (fst s) \<and> set out \<subseteq> set filtered \<union> set cs"
proof (induction cs arbitrary: filtered s)
  case (Cons c cs)
  obtain m w where s: "s = (m, w)" by fastforce
  from Cons.prems(1) have "ready l m" using s by simp
  then show ?case
  proof (cases rule: filter_candidates_step [of l m lib os entry c cs filtered w])
    case (kept m' w')
    with Cons.prems(2) s Cons.IH [of "(m', w')" "filtered @ [c]"] show ?thesis by auto
  next
    case (dropped m' w')
    with Cons.prems(2) s Cons.IH [of "(m', w')" filtered] show ?thesis by auto
  qed (use Cons.prems(2) s in auto)
qed auto

lemma filter_v2_ok:
  "ready l (fst s) \<Longrightarrow> ready l (fst (filter_v2 lib os i entries s)) \<and>
     (\<forall>j. set (candidates_of (fst (filter_v2 lib os i entries s)) j) \<subseteq> set (candidates_of (fst s) j))"
proof (induction entries arbitrary: i s)
  case (Cons entry rest)
  obtain out m w where f: "filter_candidates lib os entry (candidates_of (fst s) i) [] s = (out, (m, w))"
    by (cases "filter_candidates lib os entry (candidates_of (fst s) i) [] s")
  from filter_candidates_ok [OF Cons.prems f] have m: "ready l m" "mt_by_file m = mt_by_file (fst s)"
    "set out \<subseteq> set (candidates_of (fst s) i)" by auto
  then have "\<forall>j. set (candidates_of (m\<lparr>mt_by_file := (mt_by_file m)(i \<mapsto> out)\<rparr>) j) \<subseteq> set (candidates_of (fst s) j)"
    by (auto simp: candidates_of_def)
  then have step: "?case" if "\<not> mt_stop (fst s)" "needs_candidates entry"
    using Cons.IH [of "(m\<lparr>mt_by_file := (mt_by_file m)(i \<mapsto> out)\<rparr>, w)" "Suc i"] f that m(1)
    by (simp add: ready_fields) (meson subset_trans)
  show ?case
    by (cases "mt_stop (fst s)"; cases "needs_candidates entry") (use step Cons.prems Cons.IH [of s "Suc i"] in simp_all)
qed simp

text \<open>
  Preparation: the candidates of an entry were offered for it. While nothing was left out, the counted edges and the
  remaining ones make up the limit.
\<close>

definition offered :: "file_candidates list \<Rightarrow> nat \<Rightarrow> source_candidate set" where
  "offered sets i = (\<Union>fc \<in> set sets. if fc_index fc = int i then set (fc_candidates fc) else {})"

definition ready_at :: "match_limits \<Rightarrow> int \<Rightarrow> matcher \<Rightarrow> bool" where
  "ready_at l remaining m \<longleftrightarrow> ready l m \<and> 0 \<le> remaining \<and>
     (mr_complete (mt_result m) \<longrightarrow> ms_edges (mr_stats (mt_result m)) + remaining = ml_candidate_edges l)"

lemma ready_at_fields:
  "ready_at l remaining (m\<lparr>mt_by_file := a\<rparr>) = ready_at l remaining m"
  by (simp add: ready_at_def ready_fields)

lemma ready_at_incomplete: "ready_at l remaining m \<Longrightarrow> ready_at l remaining (mark_incomplete reason m)"
  by (simp add: ready_at_def ready_incomplete)

lemma ready_at_stop_preparation: "ready_at l remaining m \<Longrightarrow> ready_at l remaining (stop_preparation reason m)"
  by (auto simp: stop_preparation_def ready_at_def ready_incomplete ready_halt)

text \<open>Counting the edges of a set: the result can only stay complete when they all fit.\<close>

lemma ready_count_edges:
  fixes m :: matcher and reason :: bytes
  assumes "ready_at l remaining m" "0 \<le> edges" "0 \<le> ml_candidate_edges l"
  defines "m' \<equiv> count_edges edges (if edges > remaining then mark_incomplete reason m else m)"
  shows "ready l m'" "mr_complete (mt_result m') \<Longrightarrow>
    edges \<le> remaining \<and> ms_edges (mr_stats (mt_result m')) + (remaining - edges) = ml_candidate_edges l"
proof -
  define n where "n = (if edges > remaining then mark_incomplete reason m else m)"
  have n: "ready l n" "mr_complete (mt_result n) \<Longrightarrow>
      edges \<le> remaining \<and> ms_edges (mr_stats (mt_result n)) + remaining = ml_candidate_edges l"
    using assms(1) by (auto simp: n_def ready_at_def ready_incomplete)
  have m': "m' = count_edges edges n" by (simp add: m'_def n_def)
  have limits: "mt_limits n = l" using n(1) by (simp add: ready_def limits_simps)
  have same: "mr_complete (mt_result m') = mr_complete (mt_result n)" by (simp add: m' count_edges_def)
  show complete: "edges \<le> remaining \<and> ms_edges (mr_stats (mt_result m')) + (remaining - edges) = ml_candidate_edges l"
    if "mr_complete (mt_result m')"
  proof -
    from n(2) that same have "edges \<le> remaining" "ms_edges (mr_stats (mt_result n)) + remaining = ml_candidate_edges l"
      by simp_all
    with assms(2) limits show ?thesis by (simp add: m' count_edges_def)
  qed
  have "ms_edges (mr_stats (mt_result m')) \<le> ml_candidate_edges l + 1"
    using n(1) limits by (auto simp: m' count_edges_def ready_def limits_simps)
  with n(1) complete limits assms(1) show "ready l m'"
    by (cases "mr_complete (mt_result n)") (auto simp: m' count_edges_def ready_def limits_simps ready_at_def)
qed

lemma unique_candidates_subset:
  "unique_candidates i len cs seen unique = Inr (out, seen') \<Longrightarrow> set out \<subseteq> set unique \<union> set cs"
  by (induction i len cs seen unique arbitrary: out seen' rule: unique_candidates.induct)
    (fastforce simp: Let_def split: if_splits)+

lemma set_edges_Inr:
  "set_edges meta fc seen = Inr edges \<Longrightarrow>
     0 \<le> edges \<and> 0 \<le> fc_index fc \<and> fc_index fc < int (length (m_files meta)) \<and> fc_index fc \<notin> seen"
  by (auto simp: set_edges_def Let_def split: if_splits)

lemma take_int_facts: "set (take_int n xs) \<subseteq> set xs" "0 \<le> n \<Longrightarrow> int (length (take_int n xs)) \<le> n"
  "length (take_int n xs) \<le> length xs"
  by (auto simp: take_int_def dest: in_set_takeD)

lemma offered_Cons: "offered (fc # rest) j = offered [fc] j \<union> offered rest j"
  by (auto simp: offered_def split: if_splits)

text \<open>One set: preparation fails, or goes on with a list stored for its entry, within what remained.\<close>

lemma prepare_sets_step:
  assumes run: "prepare_sets meta (fc # rest) seen_set seen_id remaining m = (e, m')" and at: "ready_at l remaining m"
    and pos: "0 \<le> ml_candidates_per_file l" "0 \<le> ml_candidate_edges l"
  obtains (failed) "ready l m'" "mt_by_file m' = mt_by_file m"
  | (stored) seen_id' remaining' m2 u where
      "prepare_sets meta rest (insert (fc_index fc) seen_set) seen_id' remaining'
         (m2\<lparr>mt_by_file := (mt_by_file m)(nat (fc_index fc) \<mapsto> u)\<rparr>) = (e, m')"
      "ready_at l remaining' m2" "set u \<subseteq> set (fc_candidates fc)" "0 \<le> fc_index fc"
      "fc_index fc < int (length (m_files meta))" "fc_index fc \<notin> seen_set"
      "int (length u) + remaining' \<le> remaining" "int (length u) \<le> ml_candidates_per_file l"
proof (cases "set_edges meta fc seen_set")
  case (Inl err)
  with run at show ?thesis by (intro failed) (auto simp: ready_at_def)
next
  case (Inr edges)
  note fc = set_edges_Inr [OF Inr]
  define m1 where "m1 = count_edges edges (if edges > remaining then mark_incomplete ''max_candidate_edges'' (stop_preparation (fc_stop fc) m)
    else stop_preparation (fc_stop fc) m)"
  note count = ready_count_edges [OF ready_at_stop_preparation [OF at, of "fc_stop fc"] conjunct1 [OF fc] pos(2),
      where reason = "''max_candidate_edges''", folded m1_def]
  have m1: "mt_by_file m1 = mt_by_file m" "mt_limits m1 = l"
    using count(1) by (auto simp: m1_def ready_def limits_simps)
  have rem: "0 \<le> remaining" using at by (simp add: ready_at_def)
  show ?thesis
  proof (cases "remaining = 0 \<or> mt_stop m1")
    case True
    have at1: "ready_at l remaining m1"
      using count True rem fc by (auto simp: ready_at_def) (simp add: ready_def limits_ok_def)
    note run' = run [unfolded prepare_sets.simps Inr sum.case Let_def, folded m1_def, unfolded if_P [OF True] m1(1)]
    show ?thesis by (rule stored [OF run' at1]) (use fc pos in simp_all)
  next
    case False
    note next_step = run [unfolded prepare_sets.simps Inr sum.case Let_def, folded m1_def, unfolded if_not_P [OF False]]
    show ?thesis
    proof (cases "unique_candidates (fc_index fc) (f_length (m_files meta ! nat (fc_index fc))) (sort_key candidate_key (fc_candidates fc)) seen_id []")
      case (Inl err)
      with next_step have "m' = m1" by simp
      then show ?thesis using count(1) m1(1) by (intro failed) simp_all
    next
      case u: (Inr out)
      obtain unique seen_id' where out: "out = (unique, seen_id')" by fastforce
      define taken where "taken = take_int (min edges remaining) (take_int (ml_candidates_per_file l) unique)"
      define m2 where "m2 = (if int (length unique) > ml_candidates_per_file l
        then mark_incomplete ''max_candidates_per_file'' m1 else m1)"
      have "set taken \<subseteq> set unique"
        unfolding taken_def by (rule order_trans [OF take_int_facts(1) take_int_facts(1)])
      with unique_candidates_subset [OF u [unfolded out]] have sub: "set taken \<subseteq> set (fc_candidates fc)" by auto
      have len: "int (length taken) \<le> min edges remaining"
        unfolding taken_def by (rule take_int_facts(2)) (use fc rem in simp)
      have "int (length taken) \<le> int (length (take_int (ml_candidates_per_file l) unique))"
        unfolding taken_def using take_int_facts(3) by simp
      also have "\<dots> \<le> ml_candidates_per_file l" using take_int_facts(2) [OF pos(1)] .
      finally have cap: "int (length taken) \<le> ml_candidates_per_file l" .
      have "ready_at l (remaining - min edges remaining) m1"
        using count rem fc by (auto simp: ready_at_def min_def)
      then have at2: "ready_at l (remaining - min edges remaining) m2"
        by (simp add: m2_def ready_at_incomplete)
      have "mt_limits m2 = l" "mt_by_file m2 = mt_by_file m" using m1 by (simp_all add: m2_def)
      with next_step have run': "prepare_sets meta rest (insert (fc_index fc) seen_set) seen_id' (remaining - min edges remaining)
          (m2\<lparr>mt_by_file := (mt_by_file m)(nat (fc_index fc) \<mapsto> taken)\<rparr>) = (e, m')"
        unfolding u sum.case out prod.case m1(2) m2_def [symmetric] by (simp add: taken_def)
      show ?thesis by (rule stored [OF run' at2 sub]) (use fc len cap in simp_all)
    qed
  qed
qed

text \<open>
  What is kept for the search: at most the limit for each entry, and together at most as many candidates as edges
  are allowed.
\<close>

definition kept_within :: "match_limits \<Rightarrow> meta_info \<Rightarrow> matcher \<Rightarrow> bool" where
  "kept_within l meta m \<longleftrightarrow>
     (\<forall>i. int (length (candidates_of m i)) \<le> ml_candidates_per_file l) \<and>
     int (\<Sum>i < length (m_files meta). length (candidates_of m i)) \<le> ml_candidate_edges l"

definition kept_at :: "match_limits \<Rightarrow> meta_info \<Rightarrow> int set \<Rightarrow> int \<Rightarrow> matcher \<Rightarrow> bool" where
  "kept_at l meta seen remaining m \<longleftrightarrow>
     (\<forall>i. candidates_of m i \<noteq> [] \<longrightarrow> int i \<in> seen) \<and> (\<forall>i. int (length (candidates_of m i)) \<le> ml_candidates_per_file l) \<and>
     int (\<Sum>i < length (m_files meta). length (candidates_of m i)) + remaining \<le> ml_candidate_edges l"

lemma kept_at_store:
  assumes "kept_at l meta seen remaining m" "0 \<le> i" "i < int (length (m_files meta))" "i \<notin> seen"
    and "int (length u) + remaining' \<le> remaining" "int (length u) \<le> ml_candidates_per_file l"
  shows "kept_at l meta (insert i seen) remaining' (m2\<lparr>mt_by_file := (mt_by_file m)(nat i \<mapsto> u)\<rparr>)"
proof -
  let ?m = "m2\<lparr>mt_by_file := (mt_by_file m)(nat i \<mapsto> u)\<rparr>"
  have new: "candidates_of ?m j = (if j = nat i then u else candidates_of m j)" for j
    by (simp add: candidates_of_def)
  have old: "candidates_of m (nat i) = []" using assms(1,2,4) unfolding kept_at_def by force
  then have "length (candidates_of ?m j) = length (candidates_of m j) + (if j = nat i then length u else 0)" for j
    by (simp add: new)
  then have "(\<Sum>j < length (m_files meta). length (candidates_of ?m j)) =
      (\<Sum>j < length (m_files meta). length (candidates_of m j)) + length u"
    using assms(2,3) by (simp add: sum.distrib nat_less_iff)
  then show ?thesis using assms unfolding kept_at_def by (auto simp: new)
qed

lemma kept_at_within: "kept_at l meta seen remaining m \<Longrightarrow> 0 \<le> remaining \<Longrightarrow> kept_within l meta m"
  by (simp add: kept_at_def kept_within_def)

lemma kept_within_cong: "mt_by_file m = mt_by_file m' \<Longrightarrow> kept_within l meta m = kept_within l meta m'"
  using candidates_of_cong [of m m'] by (simp add: kept_within_def)

lemma prepare_sets_ok:
  assumes "0 \<le> ml_candidates_per_file l" "0 \<le> ml_candidate_edges l"
  shows "ready_at l remaining m \<Longrightarrow> kept_at l meta seen_set remaining m \<Longrightarrow>
    prepare_sets meta sets seen_set seen_id remaining m = (e, m') \<Longrightarrow>
     ready l m' \<and> kept_within l meta m' \<and> (\<forall>j. set (candidates_of m' j) \<subseteq> set (candidates_of m j) \<union> offered sets j)"
proof (induction sets arbitrary: seen_set seen_id remaining m)
  case Nil
  then show ?case by (auto simp: ready_at_def kept_at_within)
next
  case (Cons fc rest)
  have within: "kept_within l meta m" using Cons.prems by (auto simp: ready_at_def kept_at_within)
  from Cons.prems(3,1) assms show ?case
  proof (cases rule: prepare_sets_step)
    case failed
    with within kept_within_cong [of m' m] candidates_of_cong [of m' m] show ?thesis by auto
  next
    case (stored seen_id' remaining' m2 u)
    let ?m = "m2\<lparr>mt_by_file := (mt_by_file m)(nat (fc_index fc) \<mapsto> u)\<rparr>"
    have ih: "ready l m'" "kept_within l meta m'" "\<forall>j. set (candidates_of m' j) \<subseteq> set (candidates_of ?m j) \<union> offered rest j"
      using Cons.IH [OF _ kept_at_store [OF Cons.prems(2) stored(4-8)] stored(1)] stored(2) by (simp_all add: ready_at_fields)
    have "set (candidates_of ?m j) \<subseteq> set (candidates_of m j) \<union> offered [fc] j" for j
      using stored(3,4) by (auto simp: candidates_of_def offered_def)
    with ih show ?thesis unfolding offered_Cons [of fc rest] by blast
  qed
qed

section \<open>Where the matches come from\<close>

text \<open>
  A pushed binding is a candidate of its entry; a match was verified with the bindings pushed at that time, in a run
  whose reads are part of the log.
\<close>

definition binding_of :: "(nat \<Rightarrow> source_candidate set) \<Rightarrow> source_binding \<Rightarrow> matched_binding \<Rightarrow> bool" where
  "binding_of cands b k \<longleftrightarrow> sb_index b = int (mb_index k) \<and>
     (\<exists>c \<in> cands (mb_index k). sc_id c = mb_candidate k \<and> sc_path c = sb_path b \<and> sc_open c = sb_open b)"

abbreviation comes_from :: "(nat \<Rightarrow> source_candidate list) \<Rightarrow> source_binding \<Rightarrow> matched_binding \<Rightarrow> bool" where
  "comes_from cands \<equiv> binding_of (\<lambda>i. set (cands i))"

lemma binding_of_mono: "binding_of A b k \<Longrightarrow> A (mb_index k) \<subseteq> B (mb_index k) \<Longrightarrow> binding_of B b k"
  by (auto simp: binding_of_def)

definition verified_match :: "golib \<Rightarrow> 'w os \<Rightarrow> meta_info \<Rightarrow> (nat \<Rightarrow> source_candidate list) \<Rightarrow> bytes \<Rightarrow> source_match \<Rightarrow> bool" where
  "verified_match lib os meta cands log x \<longleftrightarrow>
     (\<exists>bs ks s s'. list_all2 (comes_from cands) bs ks \<and> sm_bindings x = sort_key mb_index ks \<and>
        sm_id x = source_match_id lib (m_variant_id meta) (sm_bindings x) \<and>
        verify_source_map lib (logging os) meta bs s = (Inr (sm_source x), s') \<and> prefix (snd s') log \<and>
        vr_verified (vs_result (sm_source x)) \<and> sm_verification x = vs_result (sm_source x))"

definition origin :: "golib \<Rightarrow> 'w os \<Rightarrow> meta_info \<Rightarrow> (nat \<Rightarrow> source_candidate list) \<Rightarrow> matcher \<Rightarrow> 'w \<times> bytes \<Rightarrow> bool" where
  "origin lib os meta cands m w \<longleftrightarrow> candidates_of m = cands \<and> list_all2 (comes_from cands) (mt_bindings m) (mt_matched m) \<and>
     (\<forall>x \<in> set (mr_matches (mt_result m)). verified_match lib os meta cands (snd w) x)"

lemma verified_match_later:
  "verified_match lib os meta cands log x \<Longrightarrow> prefix log log' \<Longrightarrow> verified_match lib os meta cands log' x"
  unfolding verified_match_def by (meson prefix_order.trans)

lemma origin_later: "origin lib os meta cands m w \<Longrightarrow> prefix (snd w) (snd w') \<Longrightarrow> origin lib os meta cands m w'"
  by (auto simp: origin_def intro: verified_match_later)

lemma list_all2_butlast: "list_all2 P xs ys \<Longrightarrow> list_all2 P (butlast xs) (butlast ys)"
  by (auto simp: list_all2_conv_all_nth nth_butlast)

lemma origin_fields:
  assumes "origin lib os meta cands m w"
  shows "origin lib os meta cands (halt reason m) w" "origin lib os meta cands (mark_incomplete reason m) w"
    "origin lib os meta cands (add_issue code c msg m) w" "origin lib os meta cands (reject_layout m) w"
    "origin lib os meta cands (map_stats f m) w" "origin lib os meta cands (m\<lparr>mt_stop := b\<rparr>) w"
  using assms by (simp_all add: origin_def)

lemma origin_verify_layout:
  fixes os :: "'w os"
  assumes "origin lib os meta cands (fst s) (snd s)"
  defines "s' \<equiv> verify_layout lib (logging os) meta s"
  shows "origin lib os meta cands (fst s') (snd s')"
proof -
  have grown: "prefix (snd (snd s)) (snd (snd (verify_source_map lib (logging os) meta bs (snd s))))" for bs
    using log_grows.verify_source_map_keeps [where os = os and log = "snd (snd s)" and lib = lib and meta = meta and bindings = bs] by (auto dest: keepsD [OF _ prod.collapse [symmetric]])
  note later = origin_later [OF assms(1)]
  show ?thesis
  proof (cases rule: verify_layout_cases [of s lib "logging os" meta])
    case (failed amount m)
    have "origin lib os meta cands m (snd s')"
      using charge_True [OF failed(2)] later grown by (simp add: origin_fields failed(4) s'_def)
    with failed(3) show ?thesis unfolding s'_def by (elim insertE emptyE) (simp_all add: origin_fields)
  next
    case (rejected amount m)
    have "origin lib os meta cands m (snd s')"
      using charge_True [OF rejected(2)] later grown by (simp add: origin_fields rejected(4) s'_def)
    with rejected(3) show ?thesis by (simp add: origin_fields s'_def)
  next
    case (verified amount m vs w)
    have "prefix (snd (snd s)) (snd w)" using grown [of "mt_bindings (fst s)"] verified(3) by simp
    then have m: "origin lib os meta cands m w" "mt_bindings m = mt_bindings (fst s)" "mt_matched m = mt_matched (fst s)"
      using charge_True [OF verified(2)] later by (simp_all add: origin_fields)
    then have "verified_match lib os meta cands (snd w)
        \<lparr>sm_id = source_match_id lib (m_variant_id meta) (sort_key mb_index (mt_matched m)),
          sm_bindings = sort_key mb_index (mt_matched m), sm_verification = vs_result vs, sm_source = vs\<rparr>"
      unfolding verified_match_def using verified(3,4) assms(1)
      by (intro exI [of _ "mt_bindings (fst s)"] exI [of _ "mt_matched (fst s)"] exI [of _ "snd s"] exI [of _ w])
        (simp add: origin_def)
    with m show ?thesis unfolding s'_def verified(5,6) Let_def
      by (simp add: origin_def candidates_of_def [of "_ :: matcher"] fun_eq_iff)
  qed (use assms in \<open>simp_all add: origin_fields\<close>)
qed

lemma origin_push_pop:
  assumes "origin lib os meta cands m w"
  shows "c \<in> set (cands i) \<Longrightarrow> origin lib os meta cands (push_binding i c m) w" "origin lib os meta cands (pop_binding m) w"
proof -
  show "origin lib os meta cands (push_binding i c m) w" if "c \<in> set (cands i)"
  proof -
    have "comes_from cands \<lparr>sb_index = int i, sb_path = sc_path c, sb_open = sc_open c\<rparr> \<lparr>mb_index = i, mb_candidate = sc_id c\<rparr>"
      using that by (auto simp: binding_of_def)
    with assms show ?thesis
      unfolding origin_def candidates_of_fields by (simp add: push_binding_def list_all2_appendI)
  qed
  show "origin lib os meta cands (pop_binding m) w"
    using assms unfolding origin_def candidates_of_fields by (simp add: pop_binding_def list_all2_butlast)
qed

interpretation origin: search_predicate lib "logging os" meta cands "origin lib os meta cands"
  for lib :: golib and os :: "'w os" and meta cands
proof (rule search_predicate.intro, goal_cases)
  case (1 m w)
  then show ?case by (simp add: origin_def)
next
  case (2 m)
  show ?case by (rule log_monotone) (rule origin_later)
qed (simp_all add: origin_fields origin_push_pop origin_verify_layout)

section \<open>The whole search\<close>

lemma finish_matching_none [simp]: "mr_matches (mt_result m) = [] \<Longrightarrow> mr_matches (finish_matching m) = []"
  by (simp add: finish_matching_def)

lemma finish_matching_fields [simp]:
  "set (mr_matches (finish_matching m)) = set (mr_matches (mt_result m))"
  "within_limits l t (finish_matching m) = within_limits l t (mt_result m)"
  "recorded (finish_matching m) = recorded (mt_result m)" "mr_stats (finish_matching m) = mr_stats (mt_result m)"
proof -
  have "sort xs = [] \<longleftrightarrow> xs = []" for xs :: "bytes list" by (metis length_0_conv length_sort)
  then show "recorded (finish_matching m) = recorded (mt_result m)" by (simp add: finish_matching_def recorded_def)
qed (auto simp: finish_matching_def within_limits_def)

definition filtered :: "golib \<Rightarrow> 'w os \<Rightarrow> meta_info \<Rightarrow> matcher \<times> 'w \<Rightarrow> matcher \<times> 'w" where
  "filtered lib os meta s = (if m_info_hash_v2 meta \<noteq> [] then filter_v2 lib os 0 (m_files meta) s else s)"

lemma filtered_ok:
  assumes "ready l (fst s)"
  shows "ready l (fst (filtered lib os meta s))" "set (candidates_of (fst (filtered lib os meta s)) i) \<subseteq> set (candidates_of (fst s) i)"
  using filter_v2_ok [OF assms] assms by (simp_all add: filtered_def)

lemmas run_search_filtered = run_search_def [folded filtered_def]

lemma run_search_limits:
  assumes "ready l (fst s)"
  shows "limits_ok l (fst (run_search lib os meta s))"
proof -
  have "limits_ok l (fst (filtered lib os meta s))" using filtered_ok(1) [OF assms] by (simp add: ready_def)
  then show ?thesis
    using limits.search_v1_ok [of "filtered lib os meta s" "candidates_of (fst (filtered lib os meta s))"]
      limits.search_v2_ok [of "filtered lib os meta s" "candidates_of (fst (filtered lib os meta s))"]
    by (simp add: run_search_filtered Let_def)
qed

lemma run_search_origin:
  assumes "ready l (fst s)" "\<forall>i. set (candidates_of (fst s) i) \<subseteq> offers i"
  shows "\<exists>cands. (\<forall>i. set (cands i) \<subseteq> offers i) \<and> (\<forall>x \<in> set (mr_matches (mt_result (fst (run_search lib (logging os) meta s)))).
    verified_match lib os meta cands (snd (snd (run_search lib (logging os) meta s))) x)"
proof -
  let ?s = "filtered lib (logging os) meta s"
  let ?cands = "candidates_of (fst ?s)"
  have "origin lib os meta ?cands (fst ?s) (snd ?s)"
    using filtered_ok(1) [OF assms(1), of lib "logging os" meta] by (simp add: ready_def origin_def)
  then have "origin lib os meta ?cands (fst (run_search lib (logging os) meta s)) (snd (run_search lib (logging os) meta s))"
    using origin.search_v1_ok [where lib = lib and os = os and meta = meta and cands = ?cands and s = ?s]
      origin.search_v2_ok [where lib = lib and os = os and meta = meta and cands = ?cands and s = ?s]
    by (simp add: run_search_filtered Let_def)
  moreover have "\<forall>i. set (?cands i) \<subseteq> offers i" using filtered_ok(2) [OF assms(1)] assms(2) by blast
  ultimately show ?thesis unfolding origin_def by blast
qed

lemma validate_limits_Inr:
  "validate_limits l = Inr u \<Longrightarrow> 0 < ml_candidates_per_file l \<and> 0 < ml_candidate_edges l \<and> 0 < ml_states l \<and>
     0 < ml_verified_layouts l \<and> 0 < ml_proof_work l \<and> 0 < ml_issues l"
  by (auto simp: validate_limits_def limit_checks_def split: if_splits)

lemma ready_new_matcher: "validate_limits l = Inr u \<Longrightarrow> ready l (new_matcher l)"
  by (drule validate_limits_Inr) (simp add: ready_def limits_simps new_matcher_def initial_result_def empty_stats_def)

text \<open>What every outcome of \<open>MatchSourceCandidates\<close> satisfies, the error outcomes included.\<close>

lemma prepare_ok:
  assumes "validate_limits l = Inr u" "prepare meta sets (new_matcher l) = (e, m)"
  shows "ready l m \<and> kept_within l meta m \<and> (\<forall>i. set (candidates_of m i) \<subseteq> offered sets i)"
proof -
  note pos = validate_limits_Inr [OF assms(1)] and new = ready_new_matcher [OF assms(1)]
  have empty: "candidates_of (new_matcher l) i = []" "mt_limits (new_matcher l) = l" for i
    by (simp_all add: new_matcher_def candidates_of_def initial_result_def)
  have at: "ready_at l (ml_candidate_edges l) (new_matcher l)"
    using new pos by (simp add: ready_at_def new_matcher_def initial_result_def empty_stats_def)
  have kept: "kept_at l meta {} (ml_candidate_edges l) (new_matcher l)"
    using pos empty by (simp add: kept_at_def)
  show ?thesis
  proof (cases "length sets > length (m_files meta)")
    case True
    with assms(2) new kept_at_within [OF kept] pos empty show ?thesis by (auto simp: prepare_def)
  next
    case False
    obtain e1 m1 where p: "prepare_sets meta (sort_key fc_index sets) {} Map.empty (ml_candidate_edges l) (new_matcher l) = (e1, m1)"
      by fastforce
    have m1: "ready l m1" "kept_within l meta m1" "\<forall>i. set (candidates_of m1 i) \<subseteq> offered sets i"
      using prepare_sets_ok [OF _ _ at kept p] pos empty by (auto simp: offered_def)
    have fill: "candidates_of (fill_missing meta m1) = candidates_of m1"
      by (auto simp: fill_missing_def candidates_of_def fun_eq_iff)
    then have "kept_within l meta (fill_missing meta m1)" using m1(2) by (simp add: kept_within_def)
    moreover have "ready l (fill_missing meta m1)" using m1(1) by (simp add: fill_missing_def ready_fields)
    ultimately show ?thesis using assms(2) False p m1 fill empty(2) by (auto simp: prepare_def split: option.splits)
  qed
qed

text \<open>How an accepted call ends: at once, after the preparation, or with a search from a prepared matcher.\<close>

lemma match_source_candidates_cases:
  assumes "match_source_candidates lib os meta sets l w = ((r, err), w')" "validate_limits l = Inr u"
  obtains (ended) m where "limits_ok l m" "mr_matches (mt_result m) = []" "r = mt_result m \<or> r = finish_matching m"
      "err \<noteq> None \<longrightarrow> w' = w"
  | (searched) m w1 where "ready l m" "\<forall>i. set (candidates_of m i) \<subseteq> offered sets i" "err = None"
      "r = finish_matching (fst (run_search lib os meta (m, w1)))" "w' = snd (run_search lib os meta (m, w1))"
proof -
  note run = assms(1) [unfolded match_source_candidates_def assms(2) sum.case]
  show thesis
  proof (cases "int (length (m_files meta)) > ml_states l")
    case True
    let ?m = "mark_incomplete ''max_candidate_states'' (new_matcher l)"
    have "r = mt_result ?m" "err = None"
      using run True by (simp_all add: new_matcher_def mark_incomplete_def initial_result_def)
    with ready_incomplete [OF ready_new_matcher [OF assms(2)], of "''max_candidate_states''"] show ?thesis
      by (intro ended [of ?m]) (simp_all add: ready_def)
  next
    case False
    obtain e m where p: "prepare meta sets (new_matcher l) = (e, m)" by fastforce
    note m = prepare_ok [OF assms(2) p]
    show ?thesis
    proof (cases e)
      case (Some e')
      with run False p m show ?thesis by (intro ended [of m]) (auto simp: ready_def)
    next
      case None
      obtain stop w1 where ctx: "ctx_done os w = (stop, w1)" by fastforce
      define m1 where "m1 = (if stop then halt ''context_cancelled'' m else m)"
      have m1: "ready l m1" "\<forall>i. set (candidates_of m1 i) \<subseteq> offered sets i"
        using m ready_halt [of l m] by (simp_all add: m1_def)
      note run' = run [unfolded if_not_P [OF False] p None prod.case option.case ctx Let_def, folded m1_def]
      show ?thesis
      proof (cases "mt_stop m1")
        case True
        with run' m1 show ?thesis by (intro ended [of m1]) (auto simp: ready_def)
      next
        case False
        with run' m1 show ?thesis by (intro searched [of m1 w1]) (auto split: prod.splits)
      qed
    qed
  qed
qed

lemma match_source_candidates_limits:
  assumes "match_source_candidates lib os meta sets l w = ((r, err), w')" "validate_limits l = Inr u"
  shows "within_limits l (mr_stats r) r \<and> recorded r \<and> (err \<noteq> None \<longrightarrow> w' = w \<and> mr_matches r = [])"
  using assms
proof (cases rule: match_source_candidates_cases)
  case (ended m)
  then show ?thesis by (auto simp: limits_ok_def)
next
  case (searched m w1)
  then show ?thesis using run_search_limits [of l "(m, w1)" lib os meta] by (simp add: limits_ok_def)
qed

lemma match_source_candidates_origin:
  assumes "match_source_candidates lib (logging os) meta sets l w = ((r, err), w')" "validate_limits l = Inr u"
  shows "\<exists>cands. (\<forall>i. set (cands i) \<subseteq> offered sets i) \<and> (\<forall>x \<in> set (mr_matches r). verified_match lib os meta cands (snd w') x)"
  using assms
proof (cases rule: match_source_candidates_cases)
  case (ended m)
  then have "mr_matches r = []" by (auto dest: arg_cong [of _ _ set])
  then show ?thesis by (intro exI [of _ "\<lambda>_. []"]) simp
next
  case (searched m w1)
  then show ?thesis using run_search_origin [of l "(m, w1)" "offered sets" lib os meta] by simp
qed

section \<open>Pruning\<close>

text \<open>
  The state after \<open>D\<close> was fed: the full pieces of \<open>D\<close> have the first digests of the manifest, the hash state holds the rest.
\<close>

definition fed :: "golib \<Rightarrow> meta_info \<Rightarrow> bytes \<Rightarrow> v1_state \<Rightarrow> bool" where
  "fed lib meta D st \<longleftrightarrow>
     (\<exists>pieces. D = concat pieces @ cs_hasher st \<and> (\<forall>piece \<in> set pieces. int (length piece) = m_piece_length meta) \<and>
        length pieces = cs_piece_index st \<and> cs_piece_bytes st = int (length (cs_hasher st)) \<and>
        cs_piece_bytes st < m_piece_length meta \<and>
        map (gl_sha1 lib) pieces = take (length pieces) (m_piece_hashes meta) \<and> length pieces \<le> length (m_piece_hashes meta))"

lemma fed_new: "0 < m_piece_length meta \<Longrightarrow> fed lib meta [] new_v1_state"
  by (simp add: fed_def new_v1_state_def)

text \<open>Feeding ends with the state of the longer prefix, or at a piece that no continuation can repair.\<close>

lemma feed_v1_fed:
  assumes "fed lib meta D st" "0 < m_piece_length meta"
  shows "(\<exists>st'. feed_v1 lib meta data st = Inr (Some st') \<and> fed lib meta (D @ data) st') \<or>
    (feed_v1 lib meta data st = Inr None \<and>
       (\<forall>rest. map (gl_sha1 lib) (chunks (nat (m_piece_length meta)) (D @ data @ rest)) \<noteq> m_piece_hashes meta))"
  using assms(1)
proof (induction "length data" arbitrary: data st D rule: less_induct)
  case less
  let ?pl = "m_piece_length meta"
  from less.prems obtain pieces where p: "D = concat pieces @ cs_hasher st" "\<forall>piece \<in> set pieces. int (length piece) = ?pl"
    "length pieces = cs_piece_index st" "cs_piece_bytes st = int (length (cs_hasher st))" "cs_piece_bytes st < ?pl"
    "map (gl_sha1 lib) pieces = take (length pieces) (m_piece_hashes meta)" "length pieces \<le> length (m_piece_hashes meta)"
    unfolding fed_def by blast
  show ?case
  proof (cases "data = []")
    case True
    with less.prems show ?thesis by (simp add: feed_v1.simps)
  next
    case data: False
    define k where "k = (if int (length data) > ?pl - cs_piece_bytes st then nat (?pl - cs_piece_bytes st) else length data)"
    define st1 where "st1 = st\<lparr>cs_hasher := cs_hasher st @ take k data, cs_piece_bytes := cs_piece_bytes st + int k\<rparr>"
    have k: "0 < k" "k \<le> length data" "int k \<le> ?pl - cs_piece_bytes st" using data p(5) by (auto simp: k_def)
    have room: "\<not> ?pl - cs_piece_bytes st \<le> 0" using p(5) by simp
    note step = feed_v1.simps [of lib meta data st, unfolded if_not_P [OF data] Let_def if_not_P [OF room], folded k_def, folded st1_def]
    have shorter: "length (drop k data) < length data" using k by simp
    have eq: "D @ data @ rest = (D @ take k data) @ drop k data @ rest" for rest by simp
    show ?thesis
    proof (cases "cs_piece_bytes st1 = ?pl")
      case False
      have "fed lib meta (D @ take k data) st1"
        unfolding fed_def using p k False by (intro exI [of _ pieces]) (auto simp: st1_def)
      from less.hyps [OF shorter this] show ?thesis unfolding step using False by (simp add: eq)
    next
      case full: True
      define piece where "piece = cs_hasher st @ take k data"
      have len: "int (length piece) = ?pl" using full p(4) k by (simp add: st1_def piece_def)
      have D: "D @ take k data = concat (pieces @ [piece])" using p(1) by (simp add: piece_def)
      have st1: "cs_hasher st1 = piece" "cs_piece_index st1 = length pieces" using p(3) by (simp_all add: st1_def piece_def)
      show ?thesis
      proof (cases "length pieces < length (m_piece_hashes meta) \<and> gl_sha1 lib piece = m_piece_hashes meta ! length pieces")
        case True
        define st2 where "st2 = st1\<lparr>cs_piece_index := cs_piece_index st1 + 1, cs_piece_bytes := 0, cs_hasher := []\<rparr>"
        have "finish_v1_piece lib meta st1 = Some st2" using True st1 by (simp add: finish_v1_piece_def st2_def)
        moreover have "fed lib meta (D @ take k data) st2"
          unfolding fed_def D using p(2,6) True len st1 assms(2)
          by (intro exI [of _ "pieces @ [piece]"]) (auto simp: st2_def take_Suc_conv_app_nth)
        ultimately show ?thesis using less.hyps [OF shorter, of "D @ take k data" st2] unfolding step by (simp add: full eq)
      next
        case False
        then have none: "finish_v1_piece lib meta st1 = None" using st1 by (auto simp: finish_v1_piece_def)
        have "map (gl_sha1 lib) (chunks (nat ?pl) (D @ data @ rest)) \<noteq> m_piece_hashes meta" for rest
        proof
          assume *: "map (gl_sha1 lib) (chunks (nat ?pl) (D @ data @ rest)) = m_piece_hashes meta"
          have "chunks (nat ?pl) (D @ data @ rest) = (pieces @ [piece]) @ chunks (nat ?pl) (drop k data @ rest)"
            unfolding eq D by (rule chunks_concat_full) (use p(2) len assms(2) in auto)
          with * have "m_piece_hashes meta = map (gl_sha1 lib) pieces @ gl_sha1 lib piece # map (gl_sha1 lib) (chunks (nat ?pl) (drop k data @ rest))"
            by simp
          then have "length pieces < length (m_piece_hashes meta)" "m_piece_hashes meta ! length pieces = gl_sha1 lib piece"
            by (simp_all add: nth_append)
          with False show False by simp
        qed
        then show ?thesis unfolding step using none full by simp
      qed
    qed
  qed
qed

text \<open>At the end of the manifest the state is complete exactly when all digests were met.\<close>

lemma finish_v1_state_fed:
  assumes "fed lib meta D st" "0 < m_piece_length meta"
  shows "finish_v1_state lib meta st \<longleftrightarrow> map (gl_sha1 lib) (chunks (nat (m_piece_length meta)) D) = m_piece_hashes meta"
proof -
  from assms obtain pieces where p: "D = concat pieces @ cs_hasher st" "\<forall>piece \<in> set pieces. int (length piece) = m_piece_length meta"
    "length pieces = cs_piece_index st" "cs_piece_bytes st = int (length (cs_hasher st))" "cs_piece_bytes st < m_piece_length meta"
    "map (gl_sha1 lib) pieces = take (length pieces) (m_piece_hashes meta)" "length pieces \<le> length (m_piece_hashes meta)"
    unfolding fed_def by blast
  have c: "chunks (nat (m_piece_length meta)) D = pieces @ chunks (nat (m_piece_length meta)) (cs_hasher st)"
    unfolding p(1) by (rule chunks_concat_full) (use p(2) assms(2) in auto)
  show ?thesis
  proof (cases "cs_hasher st = []")
    case True
    with p c show ?thesis by (auto simp: finish_v1_state_def)
  next
    case False
    have "chunks (nat (m_piece_length meta)) (cs_hasher st) = [cs_hasher st]"
      by (rule chunks_short) (use False p(4,5) assms(2) in auto)
    with c have "map (gl_sha1 lib) (chunks (nat (m_piece_length meta)) D) = map (gl_sha1 lib) pieces @ [gl_sha1 lib (cs_hasher st)]" by simp
    moreover have "take n hs @ [x] = hs \<longleftrightarrow> length hs = Suc n \<and> hs ! n = x" if "n \<le> length hs" for n and hs :: "bytes list" and x
      using that by (metis append_eq_conv_conj append_take_drop_id length_append_singleton length_take lessI list.size(3)
        min.absorb2 nth_append_length order_refl take_Suc_conv_app_nth take_all)
    ultimately show ?thesis
      using p(3,4,7) False unfolding p(6) by (auto simp: finish_v1_state_def finish_v1_piece_def)
  qed
qed

section \<open>Properties\<close>

text \<open>
  Claim C28. The limits bound every outcome, unless they were rejected themselves. The candidates kept for the
  search are within the limit for each entry and together within the limit on edges; states, charged proof bytes,
  issues and returned matches stay within what the caller set. The counters of edges and of verified layouts may
  stand one above their limit, which says that there were more, and only in an incomplete result. The result is
  complete exactly when no stop reason was recorded, and then nothing was skipped over an error.
\<close>

theorem match_within_limits:
  "case match_source_candidates lib os meta sets l w of ((r, err), w') \<Rightarrow>
     (\<exists>name. err = Some (LimitOutOfRange name)) \<or>
     (within_limits l (mr_stats r) r \<and> recorded r \<and> kept_within l meta (snd (prepare meta sets (new_matcher l))))"
proof (cases "validate_limits l")
  case (Inl e)
  then show ?thesis
    by (auto simp: match_source_candidates_def validate_limits_def [of l] split: option.splits)
next
  case (Inr u)
  have "kept_within l meta (snd (prepare meta sets (new_matcher l)))"
    using prepare_ok [OF Inr prod.collapse [symmetric]] by blast
  with match_source_candidates_limits [OF _ Inr, of lib os meta sets w] show ?thesis by (auto split: prod.split)
qed

text \<open>
  Claim C27. Every match returned was verified with the bindings it reports. They are, entry by entry, candidates
  offered for the entries of the manifest, by identity, path and opener; the source map of exactly these bindings was
  verified in the run, and the bytes that this verification added to the run's log make up content with the
  digests and roots of the metafile.
\<close>

theorem matches_are_verified:
  assumes "parse_metainfo lib data = Inr meta" "digest_sizes lib"
    and "match_source_candidates lib (logging os) meta sets l (w, []) = ((r, None), w')" "x \<in> set (mr_matches r)"
  shows "\<exists>bs ks. list_all2 (binding_of (offered sets)) bs ks \<and> sm_bindings x = sort_key mb_index ks \<and>
    sm_id x = source_match_id lib (m_variant_id meta) (sm_bindings x) \<and>
    (\<exists>v before v' read after segs.
       verify_source_map lib (logging os) meta bs (v, before) = (Inr (sm_source x), (v', before @ read)) \<and>
       snd w' = before @ read @ after \<and> manifest_bytes (m_files meta) segs read \<and> manifest_verdict lib meta segs) \<and>
    vr_verified (sm_verification x) \<and> sm_verification x = vs_result (sm_source x)"
proof -
  from assms(3) obtain u where "validate_limits l = Inr u"
    by (cases "validate_limits l") (auto simp: match_source_candidates_def)
  from match_source_candidates_origin [OF assms(3) this] assms(4) obtain cands where
    cands: "\<forall>i. set (cands i) \<subseteq> offered sets i" "verified_match lib os meta cands (snd w') x" by blast
  from cands(2) obtain bs ks s s' where
    b: "list_all2 (comes_from cands) bs ks" "sm_bindings x = sort_key mb_index ks"
      "sm_id x = source_match_id lib (m_variant_id meta) (sm_bindings x)"
      "verify_source_map lib (logging os) meta bs s = (Inr (sm_source x), s')" "prefix (snd s') (snd w')"
      "vr_verified (vs_result (sm_source x))" "sm_verification x = vs_result (sm_source x)"
    unfolding verified_match_def by blast
  obtain v before v' l' where s: "s = (v, before)" "s' = (v', l')" by fastforce
  from verify_source_map_decided [OF assms(1,2) b(4) [unfolded s]] b(6) obtain segs read where
    r: "l' = before @ read" "manifest_bytes (m_files meta) segs read" "manifest_verdict lib meta segs" by blast
  from b(5) s r(1) obtain rest where "snd w' = before @ read @ rest" by (auto simp: prefix_def)
  moreover have "list_all2 (binding_of (offered sets)) bs ks"
    using b(1) by (rule list_all2_mono) (use cands(1) binding_of_mono in blast)
  ultimately show ?thesis using b s r by fastforce
qed

text \<open>
  Claim C29. Pruning is exact. A prefix is rejected only when no continuation has the digests of the manifest, and
  when it is kept the final test after any continuation decides whether the whole stream has them.
\<close>

theorem pruning_exact:
  assumes "0 < m_piece_length meta"
  shows "case feed_v1 lib meta data new_v1_state of
      Inl _ \<Rightarrow> False
    | Inr None \<Rightarrow> \<forall>rest. map (gl_sha1 lib) (chunks (nat (m_piece_length meta)) (data @ rest)) \<noteq> m_piece_hashes meta
    | Inr (Some st) \<Rightarrow> \<forall>rest. (case feed_v1 lib meta rest st of Inr (Some st') \<Rightarrow> finish_v1_state lib meta st' | _ \<Rightarrow> False) =
        (map (gl_sha1 lib) (chunks (nat (m_piece_length meta)) (data @ rest)) = m_piece_hashes meta)"
proof -
  from feed_v1_fed [OF fed_new [OF assms] assms, of lib data] consider
    st where "feed_v1 lib meta data new_v1_state = Inr (Some st)" "fed lib meta data st"
    | "feed_v1 lib meta data new_v1_state = Inr None"
      "\<forall>rest. map (gl_sha1 lib) (chunks (nat (m_piece_length meta)) (data @ rest)) \<noteq> m_piece_hashes meta"
    by auto
  then show ?thesis
  proof cases
    case (1 st)
    have "(case feed_v1 lib meta rest st of Inr (Some st') \<Rightarrow> finish_v1_state lib meta st' | _ \<Rightarrow> False) =
        (map (gl_sha1 lib) (chunks (nat (m_piece_length meta)) (data @ rest)) = m_piece_hashes meta)" for rest
      using feed_v1_fed [OF 1(2) assms, of rest] finish_v1_state_fed [OF _ assms, of lib "data @ rest"]
      by (elim disjE exE conjE) (auto dest: spec [of _ "[]"])
    with 1 show ?thesis by simp
  qed simp
qed

text \<open>An error of the search comes before anything was read, and returns no match.\<close>

theorem match_errors_read_nothing:
  "case match_source_candidates lib os meta sets l w of
     ((r, Some e), w') \<Rightarrow> w' = w \<and> mr_matches r = []
   | ((r, None), w') \<Rightarrow> validate_limits l = Inr ()"
proof (cases "validate_limits l")
  case (Inl e)
  then show ?thesis by (simp add: match_source_candidates_def initial_result_def)
next
  case (Inr u)
  with match_source_candidates_limits [OF _ Inr, of lib os meta sets w] show ?thesis
    by (auto split: prod.split option.split)
qed

section \<open>A search\<close>

text \<open>The one-file system of \<open>VerifyEnd\<close> and a single candidate for its file.\<close>

definition one_candidate :: source_candidate where
  "one_candidate = \<lparr>sc_id = ''c'', sc_rank = 0, sc_path = ''/srv/a'', sc_open = None\<rparr>"

definition one_set :: file_candidates where
  "one_set = \<lparr>fc_index = 0, fc_candidates = [one_candidate], fc_edges = 0, fc_stop = []\<rparr>"

lemma one_advance:
  assumes "m_piece_length m = 16384" "m_piece_hashes m = [pad_to 20 ''b'']"
  shows "advance_v1_file sample_lib (logging one_file_os) m one_candidate 1 new_v1_state (w, l) =
    (Inr (Some \<lparr>cs_piece_index = 0, cs_piece_bytes = 1, cs_hasher = ''b''\<rparr>), (1, l @ ''b''))"
proof -
  have plain: "(content_spec ''/srv/a'' 1 False)\<lparr>s_open := None\<rparr> = content_spec ''/srv/a'' 1 False"
    by (simp add: content_spec_def padding_spec_def)
  have feed: "feed_v1 sample_lib m ''b'' new_v1_state = Inr (Some \<lparr>cs_piece_index = 0, cs_piece_bytes = 1, cs_hasher = ''b''\<rparr>)"
    using assms by (simp add: feed_v1.simps new_v1_state_def Let_def)
  show ?thesis
    using feed one_preflight [of w l]
    by (simp add: advance_v1_file_def one_candidate_def plain bnd_def open_file_spec_def closing_def stat_opened_content_path_def
        call_def guard_def ret_def close_file_def same_snapshot_def same_info_def feed_v1_file.simps [of _ _ _ _ 1]
        feed_v1_file.simps [of _ _ _ _ 0] read_full.simps check_ctx_def
        file_reader_def file_read_def logging_def logged_def one_file_os_def one_spec_def content_spec_def padding_spec_def
        one_file_info_def Let_def del: preflight.simps)
qed

lemma one_entry_fields:
  "f_length one_entry = 1" "\<not> is_padding one_entry" "f_pieces_root one_entry = hex_encode (pad_to 32 ''b'')"
  by (simp_all add: one_entry_def file_at_def is_padding_def)

lemma one_prepared:
  assumes "m_files m = [one_entry]"
  shows "\<exists>mt. prepare m [one_set] (new_matcher default_source_match_limits) = (None, mt) \<and> mt_by_file mt = [0 \<mapsto> [one_candidate]] \<and>
    mt_cache mt = Map.empty \<and> mt_bindings mt = [] \<and> mt_matched mt = [] \<and> \<not> mt_stop mt \<and>
    mt_limits mt = default_source_match_limits \<and> mr_matches (mt_result mt) = [] \<and> ms_work (mr_stats (mt_result mt)) = 0 \<and>
    ms_states (mr_stats (mt_result mt)) = 0 \<and> ms_verified_layouts (mr_stats (mt_result mt)) = 0"
proof -
  have "set_edges m one_set {} = Inr 1"
    using assms by (simp add: set_edges_def one_set_def one_entry_fields)
  then show ?thesis
    using assms by (simp add: prepare_def one_set_def fun_eq_iff stop_preparation_def count_edges_def take_int_def fill_missing_def
      is_abs_def has_prefix_def one_candidate_def one_entry_fields new_matcher_def initial_result_def empty_stats_def
      default_source_match_limits_def map_stats_def Let_def)
qed

lemma one_search:
  assumes "m_version m = ''hybrid''" "m_files m = [one_entry]" "m_piece_length m = 16384" "m_piece_hashes m = [pad_to 20 ''b'']"
    "m_total_length m = 1" "m_info_hash_v1 m \<noteq> []" "m_info_hash_v2 m \<noteq> []"
  shows "\<exists>r w'. match_source_candidates sample_lib (logging one_file_os) m [one_set] default_source_match_limits (0, []) =
    ((r, None), w') \<and> map sm_bindings (mr_matches r) = [[\<lparr>mb_index = 0, mb_candidate = ''c''\<rparr>]]"
proof -
  from one_prepared [OF assms(2)] obtain mt where mt: "prepare m [one_set] (new_matcher default_source_match_limits) = (None, mt)"
    "mt_by_file mt = [0 \<mapsto> [one_candidate]]" "mt_cache mt = Map.empty" "mt_bindings mt = []" "mt_matched mt = []" "\<not> mt_stop mt"
    "mt_limits mt = default_source_match_limits" "mr_matches (mt_result mt) = []" "ms_work (mr_stats (mt_result mt)) = 0"
    "ms_states (mr_stats (mt_result mt)) = 0" "ms_verified_layouts (mr_stats (mt_result mt)) = 0" by blast
  have poll: "ctx_done (logging one_file_os) s = (False, s)" for s
    by (simp add: logging_def logged_def one_file_os_def)
  obtain v where obs: "observe_v2_file_root sample_lib (logging one_file_os) ''/srv/a'' 1 None (0, []) = (Inr v, (1, ''b''))"
    "vo_pieces_root v = hex_encode (pad_to 32 ''b'')" using one_observation [of 0 "[]"] by auto
  obtain vs where vs: "verify_source_map sample_lib (logging one_file_os) m [one_binding] (1, ''bb'') = (Inr vs, (1, ''bbb''))"
    "vr_verified (vs_result vs)" using one_source_run [OF assms, of 1 "''bb''"] by auto
  define m1 where "m1 = (map_stats (\<lambda>t. t\<lparr>ms_roots_observed := ms_roots_observed t + 1\<rparr>)
    (map_stats (\<lambda>s. s\<lparr>ms_work := ms_work s + 1\<rparr>) mt))\<lparr>mt_cache := [''c'' \<mapsto>
      \<lparr>ce_path = ''/srv/a'', ce_length = 1, ce_root = vo_pieces_root v, ce_valid = True\<rparr>], mt_by_file := [0 \<mapsto> [one_candidate]]\<rparr>"
  have "charge 1 ''max_proof_work_bytes'' mt = (True, map_stats (\<lambda>s. s\<lparr>ms_work := ms_work s + 1\<rparr>) mt)"
    using mt by (simp add: charge_def default_source_match_limits_def)
  then have filter: "filter_v2 sample_lib (logging one_file_os) 0 [one_entry] (mt, (0, [])) = (m1, (1, ''b''))"
    using mt obs by (simp add: needs_candidates_def one_entry_fields candidates_of_def one_candidate_def m1_def Let_def)
  have m1: "\<not> mt_stop m1" "mt_bindings m1 = []" "mt_matched m1 = []" "mr_matches (mt_result m1) = []"
    "mt_limits m1 = default_source_match_limits" "candidates_of m1 0 = [one_candidate]" "ms_work (mr_stats (mt_result m1)) = 1"
    "ms_states (mr_stats (mt_result m1)) = 0" "ms_verified_layouts (mr_stats (mt_result m1)) = 0"
    using mt by (simp_all add: m1_def candidates_of_def)
  have work: "full_verification_work_bytes m = 1"
    using assms by (simp add: full_verification_work_bytes_def one_entry_fields max_int64_def)
  have finish: "finish_v1_state sample_lib m \<lparr>cs_piece_index = 0, cs_piece_bytes = 1, cs_hasher = ''b''\<rparr>"
    using assms by (simp add: finish_v1_state_def finish_v1_piece_def sample_lib_def)
  have bound: "\<lparr>sb_index = 0, sb_path = ''/srv/a'', sb_open = None\<rparr> = one_binding" by (simp add: one_binding_def)
  define m2 where "m2 = push_binding 0 one_candidate (map_stats (\<lambda>s. s\<lparr>ms_work := ms_work s + 1\<rparr>)
    (map_stats (\<lambda>t. t\<lparr>ms_states := ms_states t + 1\<rparr>) m1))"
  have m2: "\<not> mt_stop m2" "mt_bindings m2 = [one_binding]" "mt_matched m2 = [\<lparr>mb_index = 0, mb_candidate = ''c''\<rparr>]"
    "mr_matches (mt_result m2) = []" "mt_limits m2 = default_source_match_limits" "ms_work (mr_stats (mt_result m2)) = 2"
    "ms_verified_layouts (mr_stats (mt_result m2)) = 0"
    using m1 by (simp_all add: m2_def push_binding_def one_candidate_def bound)
  have "charge 1 ''max_proof_work_bytes'' m2 = (True, map_stats (\<lambda>s. s\<lparr>ms_work := ms_work s + 1\<rparr>) m2)"
    using m2 by (simp add: charge_def default_source_match_limits_def)
  then have layout: "\<exists>m3. verify_layout sample_lib (logging one_file_os) m (m2, (1, ''bb'')) = (m3, (1, ''bbb'')) \<and>
      map sm_bindings (mr_matches (mt_result m3)) = [[\<lparr>mb_index = 0, mb_candidate = ''c''\<rparr>]]"
    using m2 vs work by (simp add: verify_layout_def Let_def default_source_match_limits_def)
  then obtain m3 where m3: "verify_layout sample_lib (logging one_file_os) m (m2, (1, ''bb'')) = (m3, (1, ''bbb''))"
    "map sm_bindings (mr_matches (mt_result m3)) = [[\<lparr>mb_index = 0, mb_candidate = ''c''\<rparr>]]" by (elim exE conjE)
  have "enter_state (logging one_file_os) (m1, s) = (True, (map_stats (\<lambda>t. t\<lparr>ms_states := ms_states t + 1\<rparr>) m1, s))" for s
    using m1 by (simp add: enter_state_def poll default_source_match_limits_def)
  moreover have "charge 1 ''max_proof_work_bytes'' (map_stats (\<lambda>t. t\<lparr>ms_states := ms_states t + 1\<rparr>) m1) =
      (True, map_stats (\<lambda>s. s\<lparr>ms_work := ms_work s + 1\<rparr>) (map_stats (\<lambda>t. t\<lparr>ms_states := ms_states t + 1\<rparr>) m1))"
    using m1 by (simp add: charge_def default_source_match_limits_def)
  ultimately have search: "search_v1 sample_lib (logging one_file_os) m [one_entry] 0 new_v1_state (m1, (1, ''b'')) =
      (pop_binding m3, (1, ''bbb''))"
    using m1 m2(1) m3(1) finish one_advance [OF assms(3,4), of 1 "''b''"]
    by (simp add: search_entry_def poll one_entry_fields m2_def [symmetric])
  have "run_search sample_lib (logging one_file_os) m (mt, (0, [])) = (pop_binding m3, (1, ''bbb''))"
    using filter search m1 assms by (simp add: run_search_def Let_def has_missing_candidates_def)
  moreover have "validate_limits default_source_match_limits = Inr ()"
    by (simp add: validate_limits_def limit_checks_def default_source_match_limits_def)
  ultimately have "match_source_candidates sample_lib (logging one_file_os) m [one_set] default_source_match_limits (0, []) =
      ((finish_matching (pop_binding m3), None), (1, ''bbb''))"
    using mt(1,6) assms(2) by (simp add: match_source_candidates_def poll default_source_match_limits_def)
  moreover have "map sm_bindings (mr_matches (finish_matching (pop_binding m3))) = [[\<lparr>mb_index = 0, mb_candidate = ''c''\<rparr>]]"
    using m3(2) by (auto simp: finish_matching_def pop_binding_def map_eq_Cons_conv)
  ultimately show ?thesis by (intro exI conjI)
qed

theorem matches_are_verified_witness:
  "\<exists>m bs vs v before v' read segs. list_all2 (binding_of (offered [one_set])) bs [\<lparr>mb_index = 0, mb_candidate = ''c''\<rparr>] \<and>
    verify_source_map sample_lib (logging one_file_os) m bs (v, before) = (Inr vs, (v', before @ read)) \<and>
    manifest_bytes [one_entry] segs read \<and> map (gl_sha1 sample_lib) (chunks 16384 (concat segs)) = [pad_to 20 ''b'']"
proof (rule one_hybrid_parsed)
  fix m
  assume m: "parse_metainfo sample_lib (encode one_hybrid) = Inr m" "m_version m = ''hybrid''" "m_files m = [one_entry]"
    "m_piece_length m = 16384" "m_piece_hashes m = [pad_to 20 ''b'']" "m_total_length m = 1"
    "m_info_hash_v1 m \<noteq> []" "m_info_hash_v2 m \<noteq> []"
  from one_search [OF m(2-8)] obtain r w' where run:
    "match_source_candidates sample_lib (logging one_file_os) m [one_set] default_source_match_limits (0, []) = ((r, None), w')"
    "map sm_bindings (mr_matches r) = [[\<lparr>mb_index = 0, mb_candidate = ''c''\<rparr>]]" by (elim exE conjE)
  then obtain x where x: "x \<in> set (mr_matches r)" "sm_bindings x = [\<lparr>mb_index = 0, mb_candidate = ''c''\<rparr>]"
    by (auto simp: map_eq_Cons_conv)
  from matches_are_verified [OF m(1) digest_sizes_sample run(1) x(1)] obtain bs ks v before v' read segs where
    found: "list_all2 (binding_of (offered [one_set])) bs ks" "sm_bindings x = sort_key mb_index ks"
      "verify_source_map sample_lib (logging one_file_os) m bs (v, before) = (Inr (sm_source x), (v', before @ read))"
      "manifest_bytes (m_files m) segs read" "manifest_verdict sample_lib m segs" by blast
  have "length ks = 1" using arg_cong [OF found(2), of length] x(2) by simp
  then have "ks = [\<lparr>mb_index = 0, mb_candidate = ''c''\<rparr>]" using found(2) x(2) by (cases ks) auto
  with found m show ?thesis
    by (intro exI [of _ m] exI [of _ bs] exI [of _ "sm_source x"] exI [of _ v] exI [of _ before] exI [of _ v'] exI [of _ read]
        exI [of _ segs]) (simp add: manifest_verdict_def)
qed

theorem pruning_exact_witness:
  "\<exists>m :: meta_info. m_piece_hashes m = [pad_to 20 ''b''] \<and>
    (case feed_v1 sample_lib m [] new_v1_state of Inr (Some st) \<Rightarrow>
       (case feed_v1 sample_lib m ''b'' st of Inr (Some st') \<Rightarrow> finish_v1_state sample_lib m st' | _ \<Rightarrow> False) | _ \<Rightarrow> False)"
proof (rule one_hybrid_parsed)
  fix m :: meta_info
  assume m: "m_piece_length m = 16384" "m_piece_hashes m = [pad_to 20 ''b'']"
  then have "map (gl_sha1 sample_lib) (chunks (nat (m_piece_length m)) ''b'') = m_piece_hashes m"
    by (simp add: chunks_short sample_lib_def)
  moreover have "feed_v1 sample_lib m [] new_v1_state = Inr (Some new_v1_state)" by (simp add: feed_v1.simps)
  ultimately have "case feed_v1 sample_lib m ''b'' new_v1_state of Inr (Some st') \<Rightarrow> finish_v1_state sample_lib m st' | _ \<Rightarrow> False"
    using pruning_exact [of m sample_lib "[]"] m by simp
  with m show ?thesis by (intro exI [of _ m]) (simp add: feed_v1.simps [of _ _ "[]"])
qed

end
