(* ===== verification/Program.thy ===== *)
theory Program
  imports Prelude
begin

text \<open>
  Programs as trees of atomic calls, for the parts of the code whose correctness is about what other processes do
  between two calls. A program either returns or makes a call and goes on with its reply; what the calls do is not
  fixed here, so a program can be run against any history of replies, interleaved with other programs and stopped
  anywhere. Calls and replies are type parameters.

  A \<^emph>\<open>monitor\<close> is a ghost state that the calls and their replies update, with the calls it permits in each
  state; \<open>keeps\<close> says that a program, whatever the replies are, makes only permitted calls and ends in a state that
  satisfies a postcondition. The locale \<open>monitor\<close> has the rules with which the monitors of the exchange protocol are
  discharged.
\<close>

section \<open>Programs\<close>

datatype ('c, 'r, 'a) prog =
    Return 'a
  | Call 'c "'r \<Rightarrow> ('c, 'r, 'a) prog"

primrec bind :: "('c, 'r, 'a) prog \<Rightarrow> ('a \<Rightarrow> ('c, 'r, 'b) prog) \<Rightarrow> ('c, 'r, 'b) prog" where
  "bind (Return x) f = f x"
| "bind (Call c k) f = Call c (\<lambda>r. bind (k r) f)"

definition perform :: "'c \<Rightarrow> ('r \<Rightarrow> 'a) \<Rightarrow> ('c, 'r, 'a) prog" where
  "perform c result = Call c (\<lambda>r. Return (result r))"

lemma bind_assoc: "bind (bind p f) g = bind p (\<lambda>x. bind (f x) g)"
  by (induction p) simp_all

lemma bind_Return [simp]: "bind p Return = p"
  by (induction p) simp_all

lemma bind_cong [fundef_cong]: "p = q \<Longrightarrow> (\<And>x. f x = g x) \<Longrightarrow> bind p f = bind q g"
  by presburger

section \<open>Calls of a program\<close>

primrec within :: "('c \<Rightarrow> bool) \<Rightarrow> ('c, 'r, 'a) prog \<Rightarrow> bool" where
  "within P (Return x) = True"
| "within P (Call c k) = (P c \<and> (\<forall>r. within P (k r)))"

named_theorems within_intros \<open>calls that a program makes\<close>

lemma within_bind: "within P p \<Longrightarrow> (\<And>x. within P (f x)) \<Longrightarrow> within P (bind p f)"
  by (induction p) auto

lemma within_perform: "P c \<Longrightarrow> within P (perform c f)"
  by (simp add: perform_def)

lemma within_Return: "within P (Return x)"
  by simp

lemmas within_rules = within_bind within_perform within_Return

lemma within_mono: "within P p \<Longrightarrow> (\<And>c. P c \<Longrightarrow> Q c) \<Longrightarrow> within Q p"
  by (induction p) auto

text \<open>Every result of a program, whatever the replies are.\<close>

primrec returns :: "('a \<Rightarrow> bool) \<Rightarrow> ('c, 'r, 'a) prog \<Rightarrow> bool" where
  "returns Q (Return x) = Q x"
| "returns Q (Call c k) = (\<forall>r. returns Q (k r))"

lemma returns_bind: "returns R (bind p f) = returns (\<lambda>x. returns R (f x)) p"
  by (induction p) auto

lemma returns_mono: "returns Q p \<Longrightarrow> (\<And>x. Q x \<Longrightarrow> R x) \<Longrightarrow> returns R p"
  by (induction p) auto

lemma returns_True: "(\<And>x. Q x) \<Longrightarrow> returns Q p"
  by (induction p) auto

lemma returns_bindI: "returns Q p \<Longrightarrow> (\<And>x. Q x \<Longrightarrow> returns R (f x)) \<Longrightarrow> returns R (bind p f)"
  by (simp add: returns_bind returns_mono)

lemma within_bind_returns: "within P p \<Longrightarrow> returns Q p \<Longrightarrow> (\<And>x. Q x \<Longrightarrow> within P (f x)) \<Longrightarrow> within P (bind p f)"
  by (induction p) auto

section \<open>Monitors\<close>

primrec keeps :: "('g \<Rightarrow> 'c \<Rightarrow> bool) \<Rightarrow> ('g \<Rightarrow> 'c \<Rightarrow> 'r \<Rightarrow> 'g) \<Rightarrow> ('a \<Rightarrow> 'g \<Rightarrow> bool) \<Rightarrow>
    ('c, 'r, 'a) prog \<Rightarrow> 'g \<Rightarrow> bool" where
  "keeps allow update Q (Return x) = (\<lambda>g. Q x g)"
| "keeps allow update Q (Call c k) = (\<lambda>g. allow g c \<and> (\<forall>r. keeps allow update Q (k r) (update g c r)))"

lemma keeps_bind:
  "keeps allow update Q (bind p f) g = keeps allow update (\<lambda>x. keeps allow update Q (f x)) p g"
  by (induction p arbitrary: g) auto

lemma keeps_mono:
  "keeps allow update Q p g \<Longrightarrow> (\<And>x h. Q x h \<Longrightarrow> R x h) \<Longrightarrow> keeps allow update R p g"
  by (induction p arbitrary: g) auto

lemma keeps_bindI:
  "keeps allow update R p g \<Longrightarrow> (\<And>x h. R x h \<Longrightarrow> keeps allow update Q (f x) h) \<Longrightarrow> keeps allow update Q (bind p f) g"
  by (simp add: keeps_bind keeps_mono)

lemma keeps_perform: "keeps allow update Q (perform c f) g \<longleftrightarrow> allow g c \<and> (\<forall>r. Q (f r) (update g c r))"
  by (simp add: perform_def)

lemma keeps_returns: "keeps allow update R p g \<Longrightarrow> returns Q p \<Longrightarrow> keeps allow update (\<lambda>x h. R x h \<and> Q x) p g"
  by (induction p arbitrary: g) auto

text \<open>
  A monitor whose states only grow, and whose permissions grow with them. \<open>harmless\<close> calls are permitted in every
  state and do not take the state back.
\<close>

locale monitor =
  fixes allow :: "'g \<Rightarrow> 'c \<Rightarrow> bool"
    and update :: "'g \<Rightarrow> 'c \<Rightarrow> 'r \<Rightarrow> 'g"
    and below :: "'g \<Rightarrow> 'g \<Rightarrow> bool"
    and harmless :: "'c \<Rightarrow> bool"
  assumes refl: "below g g"
    and trans: "below g h \<Longrightarrow> below h i \<Longrightarrow> below g i"
    and grows: "harmless c \<Longrightarrow> below g (update g c r)"
    and permits: "harmless c \<Longrightarrow> allow g c"
begin

lemma within_keeps: "within harmless p \<Longrightarrow> keeps allow update (\<lambda>_. below g) p g"
proof (induction p arbitrary: g)
  case (Return x)
  then show ?case by (simp add: refl)
next
  case (Call c k)
  show ?case
  proof (simp only: keeps.simps, intro conjI allI)
    show "allow g c" using Call.prems by (simp add: permits)
    fix r
    have "keeps allow update (\<lambda>_. below (update g c r)) (k r) (update g c r)"
      using Call by auto
    then show "keeps allow update (\<lambda>_. below g) (k r) (update g c r)"
      using grows [of c g r] Call.prems by (auto intro: keeps_mono trans)
  qed
qed

lemma keeps_harmless:
  "within harmless p \<Longrightarrow> (\<And>x h. below g h \<Longrightarrow> Q x h) \<Longrightarrow> keeps allow update Q p g"
  by (rule keeps_mono [OF within_keeps]) auto

lemma keeps_harmless_returns:
  "within harmless p \<Longrightarrow> returns R p \<Longrightarrow> (\<And>x h. below g h \<Longrightarrow> R x \<Longrightarrow> Q x h) \<Longrightarrow> keeps allow update Q p g"
  by (rule keeps_mono [OF keeps_returns [OF within_keeps]]) auto

lemma keeps_harmless_bind:
  "within harmless p \<Longrightarrow> (\<And>x h. below g h \<Longrightarrow> keeps allow update Q (f x) h) \<Longrightarrow>
    keeps allow update Q (bind p f) g"
  by (simp add: keeps_bind keeps_harmless)

end

end
