(* ===== verification/RecordStore.thy ===== *)
theory RecordStore
  imports Program GoLib Actions
begin

text \<open>
  The sealed records of the private metafile store: \<open>internal/metastore/record.go\<close>, \<open>record_remove.go\<close> and
  \<open>bound_records.go\<close>, with the POSIX publication and removal primitives of \<open>session_posix.go\<close>. A record is a file
  \<open>objects/record-<kind>-<digest>.sealed\<close> whose name commits to its kind and to every byte. Operations are programs
  of the calls below, so that any other process may act between two of them. What a session only carries along (the
  store information copied to receipts, effect names) is left out; an error keeps the class that \<open>errors.Is\<close> sees.
\<close>

section \<open>Calls\<close>

datatype directory = Objects | Temporary

datatype read_step = CtxDone | Chunk bytes | EndOfData | ReadError

datatype open_reply = Absent | Unsafe | Opened nat file_info

datatype link_reply = Linked | Exists | LinkFailed

datatype unlink_reply = Unlinked | Missing | UnlinkFailed

text \<open>
  \<open>CtxErr\<close> polls the context. \<open>CheckRoot\<close> is \<open>rootSession.check\<close>. \<open>OpenObject\<close> is \<open>openValidated\<close> of a file: the
  named object is absent, not a private regular file of the store, or open. \<open>ReadObject\<close> is a loop of \<open>Read\<close> calls
  with a poll of the context before each; its reply lists what each turn gave. Sites and clocks are \<open>Other\<close> calls.
\<close>

datatype 'x call =
    CtxErr
  | CheckRoot
  | OpenObject bytes
  | ReadObject nat
  | StatObject nat
  | CloseObject nat
  | OpenDirectory directory
  | ReadDirectory nat int
  | RandomSuffix
  | CreateStaging bytes
  | WriteStaging nat bytes
  | SyncStaging nat
  | LinkObject bytes bytes
  | UnlinkName bytes
  | SyncDirectory directory
  | StatName bytes
  | ReadClock
  | Other 'x

datatype 'y reply =
    Flag bool
  | OpenReply open_reply
  | Steps "read_step list"
  | Info "file_info option"
  | DirectoryReply "(nat \<times> file_info) option"
  | Names "bytes list option"
  | Random "bytes option"
  | Handle "nat option"
  | LinkReply link_reply
  | UnlinkReply unlink_reply
  | Instant int
  | OtherReply 'y

type_synonym ('x, 'y, 'a) store_prog = "('x call, 'y reply, 'a) prog"

text \<open>The typed calls. A reply that is not of the call's kind counts as its failure.\<close>

definition ctx_err :: "('x, 'y, bool) store_prog" where
  "ctx_err = perform CtxErr (\<lambda>r. case r of Flag b \<Rightarrow> b | _ \<Rightarrow> True)"

definition check_root :: "('x, 'y, bool) store_prog" where
  "check_root = perform CheckRoot (\<lambda>r. case r of Flag b \<Rightarrow> b | _ \<Rightarrow> False)"

definition open_object :: "bytes \<Rightarrow> ('x, 'y, open_reply) store_prog" where
  "open_object p = perform (OpenObject p) (\<lambda>r. case r of OpenReply o1 \<Rightarrow> o1 | _ \<Rightarrow> Unsafe)"

definition read_object :: "nat \<Rightarrow> ('x, 'y, read_step list) store_prog" where
  "read_object h = perform (ReadObject h) (\<lambda>r. case r of Steps ss \<Rightarrow> ss | _ \<Rightarrow> [])"

definition stat_object :: "nat \<Rightarrow> ('x, 'y, file_info option) store_prog" where
  "stat_object h = perform (StatObject h) (\<lambda>r. case r of Info i \<Rightarrow> i | _ \<Rightarrow> None)"

definition close_object :: "nat \<Rightarrow> ('x, 'y, bool) store_prog" where
  "close_object h = perform (CloseObject h) (\<lambda>r. case r of Flag b \<Rightarrow> b | _ \<Rightarrow> False)"

definition open_directory :: "directory \<Rightarrow> ('x, 'y, (nat \<times> file_info) option) store_prog" where
  "open_directory d = perform (OpenDirectory d) (\<lambda>r. case r of DirectoryReply i \<Rightarrow> i | _ \<Rightarrow> None)"

definition read_directory :: "nat \<Rightarrow> int \<Rightarrow> ('x, 'y, bytes list option) store_prog" where
  "read_directory h n = perform (ReadDirectory h n) (\<lambda>r. case r of Names ns \<Rightarrow> ns | _ \<Rightarrow> None)"

definition random_suffix :: "('x, 'y, bytes option) store_prog" where
  "random_suffix = perform RandomSuffix (\<lambda>r. case r of Random b \<Rightarrow> b | _ \<Rightarrow> None)"

definition create_staging :: "bytes \<Rightarrow> ('x, 'y, nat option) store_prog" where
  "create_staging p = perform (CreateStaging p) (\<lambda>r. case r of Handle h \<Rightarrow> h | _ \<Rightarrow> None)"

definition write_staging :: "nat \<Rightarrow> bytes \<Rightarrow> ('x, 'y, bool) store_prog" where
  "write_staging h b = perform (WriteStaging h b) (\<lambda>r. case r of Flag b \<Rightarrow> b | _ \<Rightarrow> False)"

definition sync_staging :: "nat \<Rightarrow> ('x, 'y, bool) store_prog" where
  "sync_staging h = perform (SyncStaging h) (\<lambda>r. case r of Flag b \<Rightarrow> b | _ \<Rightarrow> False)"

definition link_object :: "bytes \<Rightarrow> bytes \<Rightarrow> ('x, 'y, link_reply) store_prog" where
  "link_object p q = perform (LinkObject p q) (\<lambda>r. case r of LinkReply l \<Rightarrow> l | _ \<Rightarrow> LinkFailed)"

definition unlink_name :: "bytes \<Rightarrow> ('x, 'y, unlink_reply) store_prog" where
  "unlink_name p = perform (UnlinkName p) (\<lambda>r. case r of UnlinkReply u \<Rightarrow> u | _ \<Rightarrow> UnlinkFailed)"

definition sync_directory :: "directory \<Rightarrow> ('x, 'y, bool) store_prog" where
  "sync_directory d = perform (SyncDirectory d) (\<lambda>r. case r of Flag b \<Rightarrow> b | _ \<Rightarrow> False)"

definition stat_name :: "bytes \<Rightarrow> ('x, 'y, file_info option) store_prog" where
  "stat_name p = perform (StatName p) (\<lambda>r. case r of Info i \<Rightarrow> i | _ \<Rightarrow> None)"

text \<open>\<open>time.Now\<close>, in nanoseconds.\<close>

definition read_clock :: "('x, 'y, int) store_prog" where
  "read_clock = perform ReadClock (\<lambda>r. case r of Instant t \<Rightarrow> t | _ \<Rightarrow> 0)"

lemmas call_defs = stat_name_def read_clock_def ctx_err_def check_root_def open_object_def read_object_def stat_object_def close_object_def
  open_directory_def read_directory_def random_suffix_def create_staging_def write_staging_def sync_staging_def
  link_object_def unlink_name_def sync_directory_def

section \<open>Kinds, identities and limits\<close>

definition storage_profile_kind :: bytes where
  "storage_profile_kind = ''storage.profile.v1''"
definition index_data_kind :: bytes where
  "index_data_kind = ''storage.index.data.v1''"
definition index_descriptor_kind :: bytes where
  "index_descriptor_kind = ''storage.index.descriptor.v1''"
definition metafile_binding_kind :: bytes where
  "metafile_binding_kind = ''site.metafile.binding.v1''"
definition intent_kind :: bytes where
  "intent_kind = ''site.bonus.exchange.intent.v1''"
definition attempt_kind :: bytes where
  "attempt_kind = ''site.bonus.exchange.attempt.v1''"
definition outcome_kind :: bytes where
  "outcome_kind = ''site.bonus.exchange.outcome.v1''"
definition retention_kind :: bytes where
  "retention_kind = ''site.bonus.exchange.retention.v1''"
definition forget_kind :: bytes where
  "forget_kind = ''site.bonus.exchange.forget.v1''"

lemmas kind_defs = storage_profile_kind_def index_data_kind_def index_descriptor_kind_def metafile_binding_kind_def
  intent_kind_def attempt_kind_def outcome_kind_def retention_kind_def forget_kind_def

definition all_record_kinds :: "bytes list" where
  "all_record_kinds = [storage_profile_kind, index_data_kind, index_descriptor_kind, metafile_binding_kind,
     intent_kind, attempt_kind, outcome_kind, retention_kind, forget_kind]"

definition valid_record_kind :: "bytes \<Rightarrow> bool" where
  "valid_record_kind k \<longleftrightarrow> k \<in> set all_record_kinds"

text \<open>
  \<open>strings.ToLower\<close> is written for ASCII: a string with another character is not hexadecimal and is rejected by
  \<open>hex.DecodeString\<close>.
\<close>

definition lower_hex_digest :: "bytes \<Rightarrow> bool" where
  "lower_hex_digest d \<longleftrightarrow> map ascii_lower d = d \<and> (case hex_decode d of None \<Rightarrow> False | Some b \<Rightarrow> length b = 32)"

definition sha256_prefix :: bytes where
  "sha256_prefix = ''sha256:''"

definition valid_record_id :: "bytes \<Rightarrow> bool" where
  "valid_record_id v \<longleftrightarrow> length v = 71 \<and> has_prefix v sha256_prefix \<and> lower_hex_digest (drop 7 v)"

record record_ref =
  rr_kind :: bytes
  rr_id :: bytes
  rr_size :: int64

record record_limits =
  rl_record_bytes :: int64
  rl_entries :: int64
  rl_records :: int64
  rl_path_bytes :: int64

definition default_record_limits :: record_limits where
  "default_record_limits =
     \<lparr>rl_record_bytes = 67108864, rl_entries = 25000, rl_records = 10000, rl_path_bytes = 16777216\<rparr>"

definition valid_record_limits :: "record_limits \<Rightarrow> bool" where
  "valid_record_limits l \<longleftrightarrow>
     0 < rl_record_bytes l \<and> rl_record_bytes l \<le> 67108864 \<and> 0 < rl_entries l \<and> rl_entries l \<le> 100000 \<and>
     0 < rl_records l \<and> rl_records l \<le> 50000 \<and> 0 < rl_path_bytes l \<and> rl_path_bytes l \<le> 67108864"

definition record_digest_domain :: bytes where
  "record_digest_domain = ''ptctl-sealed-record-v1'' @ [NUL]"

definition record_preimage :: "bytes \<Rightarrow> bytes \<Rightarrow> bytes" where
  "record_preimage kind data = record_digest_domain @ kind @ [NUL] @ data"

definition record_id_of :: "golib \<Rightarrow> bytes \<Rightarrow> bytes \<Rightarrow> bytes" where
  "record_id_of lib kind data = sha256_prefix @ hex_encode (gl_sha256 lib (record_preimage kind data))"

definition compute_record_ref :: "golib \<Rightarrow> bytes \<Rightarrow> bytes \<Rightarrow> record_ref option" where
  "compute_record_ref lib kind payload =
     (if \<not> valid_record_kind kind \<or> length payload > 67108864 then None
      else Some \<lparr>rr_kind = kind, rr_id = record_id_of lib kind payload, rr_size = int (length payload)\<rparr>)"

section \<open>Names of objects\<close>

definition record_prefix :: bytes where
  "record_prefix = ''record-''"

definition record_suffix :: bytes where
  "record_suffix = ''.sealed''"

definition objects_dir :: bytes where
  "objects_dir = ''objects''"

definition temporary_dir :: bytes where
  "temporary_dir = ''tmp''"

definition record_relative_path :: "bytes \<Rightarrow> bytes \<Rightarrow> bytes" where
  "record_relative_path kind rid =
     objects_dir @ ''/'' @ record_prefix @ kind @ ''-'' @ trim_prefix rid sha256_prefix @ record_suffix"

definition removal_staging_path :: "record_ref \<Rightarrow> bytes" where
  "removal_staging_path r =
     temporary_dir @ ''/.record-remove-'' @ rr_kind r @ ''-'' @ trim_prefix (rr_id r) sha256_prefix @ ''.pending''"

definition import_staging_path :: "bytes \<Rightarrow> bytes" where
  "import_staging_path random = temporary_dir @ ''/.record-import-'' @ hex_encode random @ record_suffix"

definition is_artifact_object_name :: "bytes \<Rightarrow> bool" where
  "is_artifact_object_name name \<longleftrightarrow>
     length name = 72 \<and> has_suffix name ''.torrent'' \<and> lower_hex_digest (trim_suffix name ''.torrent'')"

text \<open>\<open>None\<close> is the error; \<open>Some None\<close> an artifact; \<open>Some (Some (kind, id))\<close> a record.\<close>

fun classify_kinds :: "bytes \<Rightarrow> bytes list \<Rightarrow> (bytes \<times> bytes) option option" where
  "classify_kinds name [] = None"
| "classify_kinds name (k # ks) =
     (let p = record_prefix @ k @ ''-'' in
      if \<not> has_prefix name p then classify_kinds name ks
      else let digest = trim_suffix (trim_prefix name p) record_suffix in
        if length digest \<noteq> 64 \<or> name \<noteq> p @ digest @ record_suffix then None
        else if \<not> valid_record_id (sha256_prefix @ digest) then None
        else Some (Some (k, sha256_prefix @ digest)))"

definition classify_object_name :: "bytes \<Rightarrow> (bytes \<times> bytes) option option" where
  "classify_object_name name =
     (if is_artifact_object_name name then Some None else classify_kinds name all_record_kinds)"

section \<open>Errors and receipts\<close>

datatype store_error =
    CtxCancelled
  | CorruptRecord
  | RecordNotFound
  | ConsumerIncomplete
  | DurabilityUnconfirmed
  | CleanupIncomplete
  | RemovalAmbiguous
  | RemovalDurabilityUnconfirmed
  | StoreFailed

record import_receipt =
  ir_writes :: nat
  ir_already :: bool
  ir_bytes :: int64

definition no_import :: import_receipt where
  "no_import = \<lparr>ir_writes = 0, ir_already = False, ir_bytes = 0\<rparr>"

record set_receipt =
  sr_complete :: bool
  sr_verified :: nat
  sr_bytes :: int64

record durability_receipt =
  du_complete :: bool
  du_confirmed :: bool
  du_passes :: nat
  du_verified :: nat
  du_bytes :: int64

record list_result =
  lr_complete :: bool
  lr_entries :: int64
  lr_matched :: int64
  lr_path_bytes :: int64
  lr_records :: "record_ref list"
  lr_stop :: bytes

record removal_receipt =
  rm_attempted :: bool
  rm_removed :: bool
  rm_absent :: bool
  rm_residue :: bool
  rm_writes :: nat
  rm_durable :: bool

section \<open>Reading with a running digest\<close>

text \<open>\<open>recordDigestReader\<close>: the bytes written to the hash so far and their number.\<close>

record digest_reader =
  dr_total :: int64
  dr_data :: bytes

definition new_digest_reader :: digest_reader where
  "new_digest_reader = \<lparr>dr_total = 0, dr_data = []\<rparr>"

datatype read_outcome = Delivered bytes | AtEnd | ReadFailed store_error

definition digest_read :: "int64 \<Rightarrow> digest_reader \<Rightarrow> read_step \<Rightarrow> read_outcome \<times> digest_reader" where
  "digest_read maximum d s =
     (case s of
        CtxDone \<Rightarrow> (ReadFailed CtxCancelled, d)
      | Chunk b \<Rightarrow>
          if b \<noteq> [] \<and> int (length b) > maximum - dr_total d then (ReadFailed StoreFailed, d)
          else (Delivered b, \<lparr>dr_total = dr_total d + int (length b), dr_data = dr_data d @ b\<rparr>)
      | EndOfData \<Rightarrow> (AtEnd, d)
      | ReadError \<Rightarrow> (ReadFailed StoreFailed, d))"

text \<open>\<open>drainRecordReader\<close>, \<open>zero\<close> reads in a row without progress so far; \<open>None\<close> is the end of the file.\<close>

fun drain_record_reader :: "int64 \<Rightarrow> nat \<Rightarrow> digest_reader \<Rightarrow> read_step list \<Rightarrow> store_error option \<times> digest_reader" where
  "drain_record_reader maximum zero d [] = (Some StoreFailed, d)"
| "drain_record_reader maximum zero d (s # ss) =
     (case digest_read maximum d s of
        (Delivered b, d) \<Rightarrow>
          if b \<noteq> [] then drain_record_reader maximum 0 d ss
          else if zero + 1 > 100 then (Some StoreFailed, d)
          else drain_record_reader maximum (zero + 1) d ss
      | (AtEnd, d) \<Rightarrow> (None, d)
      | (ReadFailed e, d) \<Rightarrow> (Some e, d))"

text \<open>
  \<open>recordConsumerReader\<close> under \<open>io.ReadAll\<close> or \<open>io.Copy\<close>: the bytes handed to the callback, and \<open>None\<close> when it saw
  the end of the file.
\<close>

fun consume_record_reader :: "int64 \<Rightarrow> digest_reader \<Rightarrow> read_step list \<Rightarrow> store_error option \<times> digest_reader" where
  "consume_record_reader maximum d [] = (Some StoreFailed, d)"
| "consume_record_reader maximum d (s # ss) =
     (case digest_read maximum d s of
        (Delivered b, d) \<Rightarrow> consume_record_reader maximum d ss
      | (AtEnd, d) \<Rightarrow> (None, d)
      | (ReadFailed e, d) \<Rightarrow> (Some e, d))"

definition same_object :: "file_info \<Rightarrow> file_info \<Rightarrow> bool" where
  "same_object a b \<longleftrightarrow> fi_id a = fi_id b \<and> fi_size a = fi_size b \<and> fi_mtime a = fi_mtime b"

text \<open>The object is the same before, after and under its name, and still has its size and time.\<close>

definition stable_object :: "file_info \<Rightarrow> file_info option \<Rightarrow> bool \<Rightarrow> open_reply \<Rightarrow> bool" where
  "stable_object before after closed named =
     (case (after, named) of
        (Some a, Opened h n) \<Rightarrow> closed \<and> same_object before a \<and> same_object a n
      | _ \<Rightarrow> False)"

definition close_reopened :: "open_reply \<Rightarrow> ('x, 'y, bool) store_prog" where
  "close_reopened o1 = (case o1 of Opened h i \<Rightarrow> close_object h | _ \<Rightarrow> Return True)"

text \<open>\<open>context.WithoutCancel\<close> never reports cancellation.\<close>

definition polled :: "bool \<Rightarrow> read_step list \<Rightarrow> read_step list" where
  "polled cancellable ss = (if cancellable then ss else filter (\<lambda>s. s \<noteq> CtxDone) ss)"

definition verify_record_relative :: "golib \<Rightarrow> bool \<Rightarrow> bytes \<Rightarrow> bytes \<Rightarrow> bytes \<Rightarrow> int64 \<Rightarrow>
    ('x, 'y, store_error + int64) store_prog" where
  "verify_record_relative lib cancellable relative kind expected maximum =
     bind (open_object relative) (\<lambda>opened.
       case opened of
         Absent \<Rightarrow> Return (Inl RecordNotFound)
       | Unsafe \<Rightarrow> Return (Inl CorruptRecord)
       | Opened h before \<Rightarrow>
           if fi_size before < 0 \<or> fi_size before > maximum then
             bind (close_object h) (\<lambda>_. Return (Inl CorruptRecord))
           else
             bind (read_object h) (\<lambda>steps.
             bind (stat_object h) (\<lambda>after.
             bind (close_object h) (\<lambda>closed.
             bind (open_object relative) (\<lambda>named.
             bind (close_reopened named) (\<lambda>_.
             Return (case drain_record_reader maximum 0 new_digest_reader (polled cancellable steps) of
                 (Some e, d) \<Rightarrow> Inl (if e = CtxCancelled then CtxCancelled else CorruptRecord)
               | (None, d) \<Rightarrow>
                   if stable_object before after closed named \<and> dr_total d = fi_size before \<and>
                      record_id_of lib kind (dr_data d) = expected
                   then Inr (dr_total d) else Inl CorruptRecord)))))))"

section \<open>Importing\<close>

text \<open>
  \<open>copySealedRecord\<close> from a byte slice: what is left of it and the number of bytes copied. The buffer has 32 KiB and
  shrinks to one byte more than the limit still allows.
\<close>

function copy_sealed_record :: "nat \<Rightarrow> nat \<Rightarrow> bytes \<Rightarrow> nat \<Rightarrow> ('x, 'y, store_error option \<times> nat) store_prog" where
  "copy_sealed_record h maximum source copied =
     bind ctx_err (\<lambda>cancelled.
       if cancelled then Return (Some CtxCancelled, copied)
       else if source = [] then Return (None, copied)
       else
         let remaining = maximum - copied;
             n = min (if remaining < 32767 then remaining + 1 else 32768) (length source)
         in if n > remaining then Return (Some StoreFailed, copied + n)
            else bind (write_staging h (take n source)) (\<lambda>written.
              if \<not> written then Return (Some StoreFailed, copied + n)
              else copy_sealed_record h maximum (drop n source) (copied + n)))"
  by pat_completeness auto
termination
  by (relation "measure (\<lambda>(_, _, source, _). length source)") (auto split: if_splits)

declare copy_sealed_record.simps [simp del]

definition platform_publish :: "bytes \<Rightarrow> bytes \<Rightarrow> ('x, 'y, bool \<times> store_error option) store_prog" where
  "platform_publish temporary final =
     bind (link_object temporary final) (\<lambda>linked.
       case linked of
         Exists \<Rightarrow> Return (False, None)
       | LinkFailed \<Rightarrow> Return (False, Some StoreFailed)
       | Linked \<Rightarrow>
           bind (sync_directory Objects) (\<lambda>synced.
             if \<not> synced then Return (True, Some DurabilityUnconfirmed)
             else bind (unlink_name temporary) (\<lambda>unlinked.
               if unlinked = UnlinkFailed then Return (True, Some CleanupIncomplete)
               else bind (sync_directory Temporary) (\<lambda>synced.
                 Return (True, if synced then None else Some CleanupIncomplete)))))"

definition publish_no_replace :: "bytes \<Rightarrow> bytes \<Rightarrow> ('x, 'y, bool \<times> store_error option) store_prog" where
  "publish_no_replace temporary final =
     bind check_root (\<lambda>ok.
       if \<not> ok then Return (False, Some StoreFailed)
       else bind (platform_publish temporary final) (\<lambda>(published, err).
         bind check_root (\<lambda>ok.
           Return (if ok then (published, err)
                   else (published, Some (if published then (case err of Some e \<Rightarrow> e | None \<Rightarrow> StoreFailed) else StoreFailed))))))"

definition remove_private :: "bytes \<Rightarrow> ('x, 'y, bool) store_prog" where
  "remove_private p =
     bind (unlink_name p) (\<lambda>unlinked.
       if unlinked = UnlinkFailed then Return False else sync_directory Temporary)"

definition published_error :: "store_error \<Rightarrow> store_error" where
  "published_error e = (if e = CleanupIncomplete \<or> e = DurabilityUnconfirmed then e else StoreFailed)"

text \<open>From the publication on: the receipt, the result, and whether the staging name is gone.\<close>

definition import_publish :: "golib \<Rightarrow> record_limits \<Rightarrow> record_ref \<Rightarrow> bytes \<Rightarrow> import_receipt \<Rightarrow>
    ('x, 'y, import_receipt \<times> (store_error + record_ref) \<times> bool) store_prog" where
  "import_publish lib limits ref temporary receipt =
     (let object = record_relative_path (rr_kind ref) (rr_id ref);
          verify = verify_record_relative lib False object (rr_kind ref) (rr_id ref) (rl_record_bytes limits)
      in bind (publish_no_replace temporary object) (\<lambda>(published, err).
        let receipt = (if published then receipt\<lparr>ir_writes := 1\<rparr> else receipt) in
        case err of
          Some e \<Rightarrow>
            if published then bind verify (\<lambda>_. bind check_root (\<lambda>_. Return (receipt, Inl (published_error e), True)))
            else Return (receipt, Inl StoreFailed, False)
        | None \<Rightarrow>
            bind verify (\<lambda>committed.
              if committed \<noteq> Inr (ir_bytes receipt) then Return (receipt, Inl CorruptRecord, published)
              else bind check_root (\<lambda>ok.
                if \<not> ok then Return (receipt, Inl StoreFailed, published)
                else Return (if published then receipt else receipt\<lparr>ir_already := True\<rparr>, Inr ref, published)))))"

definition import_staged :: "golib \<Rightarrow> record_limits \<Rightarrow> bytes \<Rightarrow> bytes \<Rightarrow> bytes \<Rightarrow> nat \<Rightarrow>
    ('x, 'y, import_receipt \<times> (store_error + record_ref) \<times> bool) store_prog" where
  "import_staged lib limits kind payload temporary h =
     bind (copy_sealed_record h (nat (rl_record_bytes limits)) payload 0) (\<lambda>(err, consumed).
       let receipt = no_import\<lparr>ir_bytes := int consumed\<rparr> in
       case err of
         Some e \<Rightarrow> bind (close_object h) (\<lambda>_. Return (receipt, Inl e, False))
       | None \<Rightarrow>
         bind (sync_staging h) (\<lambda>synced.
           if \<not> synced then bind (close_object h) (\<lambda>_. Return (receipt, Inl StoreFailed, False))
           else bind (close_object h) (\<lambda>closed.
             if \<not> closed then Return (receipt, Inl StoreFailed, False)
             else
               let ref = \<lparr>rr_kind = kind, rr_id = record_id_of lib kind payload, rr_size = int consumed\<rparr> in
               bind (verify_record_relative lib True temporary kind (rr_id ref) (rl_record_bytes limits)) (\<lambda>staged.
                 if staged \<noteq> Inr (int consumed) then
                   Return (receipt, Inl (if staged = Inl CtxCancelled then CtxCancelled else StoreFailed), False)
                 else
                   bind (verify_record_relative lib True (record_relative_path kind (rr_id ref)) kind (rr_id ref)
                       (rl_record_bytes limits)) (\<lambda>existing.
                     case existing of
                       Inr existing_size \<Rightarrow>
                         if existing_size \<noteq> int consumed then Return (receipt, Inl CorruptRecord, False)
                         else bind check_root (\<lambda>ok.
                           if \<not> ok then Return (receipt, Inl StoreFailed, False)
                           else Return (receipt\<lparr>ir_already := True\<rparr>, Inr ref, False))
                     | Inl e \<Rightarrow>
                         if e = RecordNotFound then import_publish lib limits ref temporary receipt
                         else Return (receipt, Inl (if e = CtxCancelled \<or> e = CorruptRecord then e else StoreFailed), False))))))"

definition import_record_session :: "golib \<Rightarrow> record_limits \<Rightarrow> bytes \<Rightarrow> bytes \<Rightarrow>
    ('x, 'y, import_receipt \<times> (store_error + record_ref)) store_prog" where
  "import_record_session lib limits kind payload =
     bind random_suffix (\<lambda>random.
       case random of
         None \<Rightarrow> Return (no_import, Inl StoreFailed)
       | Some r \<Rightarrow>
           let temporary = import_staging_path r in
           bind check_root (\<lambda>ok.
             if \<not> ok then Return (no_import, Inl StoreFailed)
             else bind (create_staging temporary) (\<lambda>created.
               case created of
                 None \<Rightarrow> Return (no_import, Inl StoreFailed)
               | Some h \<Rightarrow>
                   bind (import_staged lib limits kind payload temporary h) (\<lambda>(receipt, result, gone).
                     if gone then Return (receipt, result)
                     else bind (remove_private temporary) (\<lambda>_. Return (receipt, result))))))"

section \<open>Stale staging names\<close>

definition staging_patterns :: "(bytes \<times> bytes) list" where
  "staging_patterns = [(''.import-'', ''.torrent''), (''.init-'', ''.marker''), (''.record-import-'', record_suffix)]"

fun matches_pattern :: "bytes \<Rightarrow> (bytes \<times> bytes) list \<Rightarrow> bool" where
  "matches_pattern name [] = False"
| "matches_pattern name ((p, s) # ps) =
     (if length name \<noteq> length p + 32 + length s \<or> \<not> has_prefix name p \<or> \<not> has_suffix name s
      then matches_pattern name ps
      else list_all (\<lambda>r. \<not> ((r < 48 \<or> r > 57) \<and> (r < 97 \<or> r > 102)))
        (runes (take (length name - length s - length p) (drop (length p) name))))"

definition is_staging_residue_name :: "bytes \<Rightarrow> bool" where
  "is_staging_residue_name name = matches_pattern name staging_patterns"

text \<open>
  \<open>collectStagingResidue\<close>: of the first 256 names in \<open>tmp/\<close>, at most 16 that carry a generated name, are private
  regular files and are older than a day. Its failures are ignored.
\<close>

fun collect_residue_names :: "int \<Rightarrow> nat \<Rightarrow> bytes list \<Rightarrow> ('x, 'y, unit) store_prog" where
  "collect_residue_names cutoff removed [] = Return ()"
| "collect_residue_names cutoff removed (name # names) =
     (if removed \<ge> 16 then Return ()
      else bind ctx_err (\<lambda>cancelled.
        if cancelled then Return ()
        else if \<not> is_staging_residue_name name then collect_residue_names cutoff removed names
        else
          let relative = temporary_dir @ ''/'' @ name in
          bind (stat_name relative) (\<lambda>named.
            case named of
              None \<Rightarrow> collect_residue_names cutoff removed names
            | Some n \<Rightarrow>
                if \<not> fi_regular n \<or> \<not> fi_mtime n < cutoff then collect_residue_names cutoff removed names
                else bind (open_object relative) (\<lambda>opened.
                  case opened of
                    Opened h info \<Rightarrow>
                      bind (close_object h) (\<lambda>closed.
                        if \<not> closed \<or> fi_id n \<noteq> fi_id info \<or> \<not> fi_mtime info < cutoff
                        then collect_residue_names cutoff removed names
                        else bind (remove_private relative) (\<lambda>ok.
                          collect_residue_names cutoff (if ok then removed + 1 else removed) names))
                  | _ \<Rightarrow> collect_residue_names cutoff removed names))))"

definition collect_staging_residue :: "('x, 'y, unit) store_prog" where
  "collect_staging_residue =
     bind (open_directory Temporary) (\<lambda>opened.
       case opened of
         None \<Rightarrow> Return ()
       | Some (h, _) \<Rightarrow>
           bind (read_directory h 257) (\<lambda>names.
           bind (close_object h) (\<lambda>closed.
             case names of
               None \<Rightarrow> Return ()
             | Some ns \<Rightarrow>
                 if \<not> closed then Return ()
                 else bind read_clock (\<lambda>now. collect_residue_names (now - 86400000000000) 0 (take 256 ns)))))"

text \<open>
  \<open>Store.ImportRecord\<close>. Opening the session ends with its first check of the root; \<open>collected\<close> says that this store
  handle has collected residue before.
\<close>

definition import_record :: "golib \<Rightarrow> bool \<Rightarrow> bytes \<Rightarrow> bytes \<Rightarrow> record_limits \<Rightarrow>
    ('x, 'y, import_receipt \<times> (store_error + record_ref)) store_prog" where
  "import_record lib collected kind payload limits =
     (if \<not> valid_record_kind kind \<or> \<not> valid_record_limits limits then Return (no_import, Inl StoreFailed)
      else bind ctx_err (\<lambda>cancelled.
        if cancelled then Return (no_import, Inl CtxCancelled)
        else bind check_root (\<lambda>ok.
          if \<not> ok then Return (no_import, Inl StoreFailed)
          else bind (if collected then Return () else collect_staging_residue) (\<lambda>_.
            import_record_session lib limits kind payload))))"

section \<open>Loading\<close>

text \<open>
  What \<open>LoadRecord\<close> gives its caller: the counters of the receipt, the reference or the error, and what the callback
  returned if it was called.
\<close>

record ('e, 'v) loaded =
  ld_bytes_read :: int64
  ld_consumer_bytes :: int64
  ld_result :: "store_error + record_ref"
  ld_consumed :: "('e + 'v) option"

definition not_loaded :: "store_error \<Rightarrow> ('e, 'v) loaded" where
  "not_loaded e = \<lparr>ld_bytes_read = 0, ld_consumer_bytes = 0, ld_result = Inl e, ld_consumed = None\<rparr>"

definition load_record_session :: "golib \<Rightarrow> record_limits \<Rightarrow> bytes \<Rightarrow> bytes \<Rightarrow>
    (store_error option \<Rightarrow> bytes \<Rightarrow> 'e + 'v) \<Rightarrow> ('x, 'y, ('e, 'v) loaded) store_prog" where
  "load_record_session lib limits kind rid consume =
     (let relative = record_relative_path kind rid; maximum = rl_record_bytes limits in
      bind (open_object relative) (\<lambda>opened.
        case opened of
          Absent \<Rightarrow> Return (not_loaded RecordNotFound)
        | Unsafe \<Rightarrow> Return (not_loaded CorruptRecord)
        | Opened h before \<Rightarrow>
            if fi_size before < 0 \<or> fi_size before > maximum then
              bind (close_object h) (\<lambda>_. Return (not_loaded StoreFailed))
            else
              bind (read_object h) (\<lambda>steps.
              let (consumer_err, d) = consume_record_reader maximum new_digest_reader steps;
                  outcome = consume consumer_err (dr_data d) in
              bind (read_object h) (\<lambda>more.
              let (drain_err, d2) = drain_record_reader maximum 0 d more;
                  loaded = (\<lambda>r. \<lparr>ld_bytes_read = dr_total d2, ld_consumer_bytes = dr_total d, ld_result = r,
                                ld_consumed = Some outcome\<rparr>) in
              bind (stat_object h) (\<lambda>after.
              bind (close_object h) (\<lambda>closed.
              bind (open_object relative) (\<lambda>named.
              bind (close_reopened named) (\<lambda>_.
                case drain_err of
                  Some e \<Rightarrow> Return (loaded (Inl (if e = CtxCancelled then CtxCancelled else CorruptRecord)))
                | None \<Rightarrow>
                    if \<not> stable_object before after closed named \<or> dr_total d2 \<noteq> fi_size before \<or>
                       record_id_of lib kind (dr_data d2) \<noteq> rid
                    then Return (loaded (Inl CorruptRecord))
                    else bind check_root (\<lambda>ok.
                      Return (loaded
                        (if \<not> ok then Inl CorruptRecord
                         else if (case outcome of Inl _ \<Rightarrow> True | Inr _ \<Rightarrow> False) then Inl StoreFailed
                         else if consumer_err \<noteq> None then Inl ConsumerIncomplete
                         else Inr \<lparr>rr_kind = kind, rr_id = rid, rr_size = fi_size before\<rparr>)))))))))))"

section \<open>Verifying sets\<close>

definition record_identity_valid :: "record_ref \<Rightarrow> bool" where
  "record_identity_valid r \<longleftrightarrow> valid_record_kind (rr_kind r) \<and> valid_record_id (rr_id r) \<and> 0 \<le> rr_size r"

definition valid_record_set :: "record_ref list \<Rightarrow> record_limits \<Rightarrow> bool" where
  "valid_record_set records limits \<longleftrightarrow>
     records \<noteq> [] \<and> length records \<le> 16 \<and> valid_record_limits limits \<and>
     list_all record_identity_valid records \<and> distinct (map (\<lambda>r. (rr_kind r, rr_id r)) records)"

fun verify_records :: "golib \<Rightarrow> record_limits \<Rightarrow> record_ref list \<Rightarrow> set_receipt \<Rightarrow>
    ('x, 'y, set_receipt \<times> store_error option) store_prog" where
  "verify_records lib limits [] receipt =
     bind check_root (\<lambda>ok.
       if \<not> ok then Return (receipt, Some StoreFailed) else Return (receipt\<lparr>sr_complete := True\<rparr>, None))"
| "verify_records lib limits (r # rs) receipt =
     bind (verify_record_relative lib True (record_relative_path (rr_kind r) (rr_id r)) (rr_kind r) (rr_id r)
         (rl_record_bytes limits)) (\<lambda>verified.
       case verified of
         Inl e \<Rightarrow> Return (receipt, Some (if e = CtxCancelled then CtxCancelled else StoreFailed))
       | Inr bytes_read \<Rightarrow>
           if rr_size r \<noteq> 0 \<and> bytes_read \<noteq> rr_size r then Return (receipt, Some StoreFailed)
           else verify_records lib limits rs
             (receipt\<lparr>sr_verified := sr_verified receipt + 1, sr_bytes := sr_bytes receipt + bytes_read\<rparr>))"

definition no_set :: set_receipt where
  "no_set = \<lparr>sr_complete = False, sr_verified = 0, sr_bytes = 0\<rparr>"

definition verify_record_set_session :: "golib \<Rightarrow> record_limits \<Rightarrow> record_ref list \<Rightarrow>
    ('x, 'y, set_receipt \<times> store_error option) store_prog" where
  "verify_record_set_session lib limits records = verify_records lib limits records no_set"

section \<open>Listing\<close>

definition empty_list :: list_result where
  "empty_list = \<lparr>lr_complete = False, lr_entries = 0, lr_matched = 0, lr_path_bytes = 0, lr_records = [], lr_stop = []\<rparr>"

definition valid_record_list :: "bytes \<Rightarrow> record_limits \<Rightarrow> bool" where
  "valid_record_list kind limits \<longleftrightarrow> valid_record_kind kind \<and> valid_record_limits limits"

definition verify_list_binding :: "file_info \<Rightarrow> ('x, 'y, bool) store_prog" where
  "verify_list_binding baseline =
     bind (open_directory Objects) (\<lambda>opened.
       case opened of
         None \<Rightarrow> Return False
       | Some (h, current) \<Rightarrow>
           bind (close_object h) (\<lambda>closed.
             if \<not> closed \<or> \<not> same_object baseline current then Return False else check_root))"

text \<open>A budget stop is returned only after the directory was seen unchanged.\<close>

definition stop_list :: "file_info \<Rightarrow> list_result \<Rightarrow> bytes \<Rightarrow>
    ('x, 'y, list_result \<times> store_error option) store_prog" where
  "stop_list baseline result reason =
     bind (verify_list_binding baseline) (\<lambda>ok.
       Return (result\<lparr>lr_stop := reason\<rparr>, if ok then None else Some StoreFailed))"

fun list_entries :: "bytes \<Rightarrow> record_limits \<Rightarrow> file_info \<Rightarrow> bytes list \<Rightarrow> list_result \<Rightarrow>
    ('x, 'y, list_result \<times> store_error option) store_prog" where
  "list_entries kind limits baseline [] result =
     bind (verify_list_binding baseline) (\<lambda>ok.
       if \<not> ok then Return (result, Some StoreFailed)
       else Return (result\<lparr>lr_records := sort_key rr_id (lr_records result), lr_complete := True\<rparr>, None))"
| "list_entries kind limits baseline (name # names) result =
     bind ctx_err (\<lambda>cancelled.
       if cancelled then Return (result\<lparr>lr_stop := ''context_cancelled''\<rparr>, Some CtxCancelled)
       else
         let result = result\<lparr>lr_entries := lr_entries result + 1\<rparr>;
             path_bytes = int (length objects_dir + 1 + length name) in
         if path_bytes > rl_path_bytes limits - lr_path_bytes result then stop_list baseline result ''path_limit''
         else
           let result = result\<lparr>lr_path_bytes := lr_path_bytes result + path_bytes\<rparr> in
           case classify_object_name name of
             None \<Rightarrow> Return (result, Some CorruptRecord)
           | Some entry \<Rightarrow>
               bind (open_object (objects_dir @ ''/'' @ name)) (\<lambda>opened.
                 case opened of
                   Opened h info \<Rightarrow>
                     bind (close_object h) (\<lambda>closed.
                       if \<not> closed then Return (result, Some CorruptRecord)
                       else
                         case entry of
                           None \<Rightarrow> list_entries kind limits baseline names result
                         | Some (entry_kind, entry_id) \<Rightarrow>
                             if fi_size info < 0 \<or> fi_size info > 67108864 then Return (result, Some CorruptRecord)
                             else if entry_kind \<noteq> kind then list_entries kind limits baseline names result
                             else
                               let result = result\<lparr>lr_matched := lr_matched result + 1\<rparr> in
                               if lr_matched result > rl_records limits then stop_list baseline result ''record_limit''
                               else list_entries kind limits baseline names
                                 (result\<lparr>lr_records := lr_records result @
                                    [\<lparr>rr_kind = entry_kind, rr_id = entry_id, rr_size = fi_size info\<rparr>]\<rparr>))
                 | _ \<Rightarrow> Return (result, Some CorruptRecord)))"

text \<open>\<open>readDirectoryPrefix\<close>: at most \<open>maximum\<close> names, and whether there are more.\<close>

definition directory_prefix :: "int64 \<Rightarrow> bytes list \<Rightarrow> bytes list \<times> bool" where
  "directory_prefix maximum names =
     (if int (length names) > maximum then (take (nat maximum) names, True) else (names, False))"

definition list_records_session :: "bytes \<Rightarrow> record_limits \<Rightarrow> ('x, 'y, list_result \<times> store_error option) store_prog" where
  "list_records_session kind limits =
     bind ctx_err (\<lambda>cancelled.
       if cancelled then Return (empty_list\<lparr>lr_stop := ''context_cancelled''\<rparr>, Some CtxCancelled)
       else bind (open_directory Objects) (\<lambda>opened.
         case opened of
           None \<Rightarrow> Return (empty_list, Some StoreFailed)
         | Some (h, before) \<Rightarrow>
             bind (read_directory h (rl_entries limits + 1)) (\<lambda>names.
             bind (stat_object h) (\<lambda>after.
             bind (close_object h) (\<lambda>closed.
             bind (open_directory Objects) (\<lambda>reopened.
             bind (case reopened of Some (h2, _) \<Rightarrow> close_object h2 | None \<Rightarrow> Return True) (\<lambda>_.
               case (names, after, reopened) of
                 (Some ns, Some a, Some (h2, named)) \<Rightarrow>
                   if \<not> closed \<or> \<not> same_object before a \<or> \<not> same_object a named
                   then Return (empty_list, Some StoreFailed)
                   else
                     (case directory_prefix (rl_entries limits) ns of
                        (entries, True) \<Rightarrow>
                          stop_list a (empty_list\<lparr>lr_entries := int (length entries) + 1\<rparr>) ''entry_limit''
                      | (entries, False) \<Rightarrow> list_entries kind limits a (sort entries) empty_list)
               | _ \<Rightarrow> Return (empty_list, Some StoreFailed))))))))"

section \<open>Exact removal\<close>

definition valid_record_removal :: "record_ref \<Rightarrow> record_limits \<Rightarrow> bool" where
  "valid_record_removal r limits \<longleftrightarrow>
     record_identity_valid r \<and> valid_record_limits limits \<and> rr_size r \<le> rl_record_bytes limits"

definition verify_removal_record :: "golib \<Rightarrow> record_limits \<Rightarrow> bytes \<Rightarrow> record_ref \<Rightarrow>
    ('x, 'y, store_error + bool) store_prog" where
  "verify_removal_record lib limits relative r =
     bind (verify_record_relative lib True relative (rr_kind r) (rr_id r) (rl_record_bytes limits)) (\<lambda>verified.
       Return (case verified of
           Inl e \<Rightarrow>
             if e = RecordNotFound then Inr False
             else Inl (if e = CtxCancelled then CtxCancelled else CorruptRecord)
         | Inr n \<Rightarrow> if n \<noteq> rr_size r then Inl CorruptRecord else Inr True))"

definition stage_record_removal :: "bytes \<Rightarrow> bytes \<Rightarrow> ('x, 'y, store_error option) store_prog" where
  "stage_record_removal source staging =
     bind (link_object source staging) (\<lambda>linked.
       Return (case linked of Linked \<Rightarrow> None | Exists \<Rightarrow> Some RemovalAmbiguous | LinkFailed \<Rightarrow> Some StoreFailed))"

definition remove_record_name :: "bytes \<Rightarrow> ('x, 'y, store_error option) store_prog" where
  "remove_record_name p =
     bind (unlink_name p) (\<lambda>unlinked.
       Return (case unlinked of Unlinked \<Rightarrow> None | Missing \<Rightarrow> Some RemovalAmbiguous | UnlinkFailed \<Rightarrow> Some StoreFailed))"

definition sync_record_removal :: "('x, 'y, bool) store_prog" where
  "sync_record_removal =
     bind (sync_directory Objects) (\<lambda>synced. if \<not> synced then Return False else sync_directory Temporary)"

definition attempted :: "removal_receipt \<Rightarrow> removal_receipt" where
  "attempted receipt = receipt\<lparr>rm_attempted := True, rm_writes := rm_writes receipt + 1\<rparr>"

text \<open>Removing one name and seeing it absent.\<close>

definition remove_and_verify :: "golib \<Rightarrow> record_limits \<Rightarrow> bytes \<Rightarrow> record_ref \<Rightarrow> removal_receipt \<Rightarrow>
    ('x, 'y, removal_receipt \<times> store_error option) store_prog" where
  "remove_and_verify lib limits p r receipt =
     bind (remove_record_name p) (\<lambda>err.
       case err of
         Some e \<Rightarrow> Return (attempted receipt, Some e)
       | None \<Rightarrow>
           bind (verify_removal_record lib limits p r) (\<lambda>present.
             Return (attempted receipt,
               case present of Inl e \<Rightarrow> Some e | Inr True \<Rightarrow> Some RemovalAmbiguous | Inr False \<Rightarrow> None)))"

definition finish_removal :: "bool \<Rightarrow> removal_receipt \<Rightarrow> ('x, 'y, removal_receipt \<times> store_error option) store_prog" where
  "finish_removal had receipt =
     (let receipt = receipt\<lparr>rm_removed := had, rm_absent := \<not> had\<rparr> in
      bind sync_record_removal (\<lambda>synced.
        if \<not> synced then Return (receipt, Some RemovalDurabilityUnconfirmed)
        else bind check_root (\<lambda>ok.
          if \<not> ok then Return (receipt, Some RemovalAmbiguous)
          else Return (receipt\<lparr>rm_durable := True\<rparr>, None))))"

text \<open>The object first, then its staging name.\<close>

definition remove_names :: "golib \<Rightarrow> record_limits \<Rightarrow> record_ref \<Rightarrow> bool \<Rightarrow> bool \<Rightarrow> bool \<Rightarrow> removal_receipt \<Rightarrow>
    ('x, 'y, removal_receipt \<times> store_error option) store_prog" where
  "remove_names lib limits r had object_present staging_present receipt =
     (let object = record_relative_path (rr_kind r) (rr_id r); staging = removal_staging_path r in
      bind (if object_present then remove_and_verify lib limits object r receipt else Return (receipt, None)) (\<lambda>(receipt, err).
        case err of
          Some e \<Rightarrow> Return (receipt, Some e)
        | None \<Rightarrow>
            bind (if staging_present then remove_and_verify lib limits staging r receipt else Return (receipt, None))
              (\<lambda>(receipt, err).
                case err of
                  Some e \<Rightarrow> Return (receipt, Some e)
                | None \<Rightarrow> finish_removal had receipt)))"

definition no_removal :: removal_receipt where
  "no_removal = \<lparr>rm_attempted = False, rm_removed = False, rm_absent = False, rm_residue = False, rm_writes = 0,
     rm_durable = False\<rparr>"

definition stage_and_remove :: "golib \<Rightarrow> record_limits \<Rightarrow> record_ref \<Rightarrow> removal_receipt \<Rightarrow>
    ('x, 'y, removal_receipt \<times> store_error option) store_prog" where
  "stage_and_remove lib limits r receipt =
     (let object = record_relative_path (rr_kind r) (rr_id r); staging = removal_staging_path r in
      bind (stage_record_removal object staging) (\<lambda>err.
        case err of
          Some e \<Rightarrow> Return (attempted receipt, Some e)
        | None \<Rightarrow>
            bind (verify_removal_record lib limits object r) (\<lambda>object_present.
              case object_present of
                Inl e \<Rightarrow> Return (attempted receipt, Some e)
              | Inr object_present \<Rightarrow>
                  bind (verify_removal_record lib limits staging r) (\<lambda>staging_present.
                    case staging_present of
                      Inl e \<Rightarrow> Return (attempted receipt, Some e)
                    | Inr staging_present \<Rightarrow>
                        if \<not> staging_present then Return (attempted receipt, Some RemovalAmbiguous)
                        else remove_names lib limits r True object_present staging_present (attempted receipt)))))"

definition remove_record_session :: "golib \<Rightarrow> record_limits \<Rightarrow> record_ref \<Rightarrow>
    ('x, 'y, removal_receipt \<times> store_error option) store_prog" where
  "remove_record_session lib limits r =
     bind ctx_err (\<lambda>cancelled.
       if cancelled then Return (no_removal, Some CtxCancelled)
       else bind check_root (\<lambda>ok.
         if \<not> ok then Return (no_removal, Some StoreFailed)
         else
           bind (verify_removal_record lib limits (record_relative_path (rr_kind r) (rr_id r)) r) (\<lambda>object_present.
             case object_present of
               Inl e \<Rightarrow> Return (no_removal, Some e)
             | Inr object_present \<Rightarrow>
                 bind (verify_removal_record lib limits (removal_staging_path r) r) (\<lambda>staging_present.
                   case staging_present of
                     Inl e \<Rightarrow> Return (no_removal, Some e)
                   | Inr staging_present \<Rightarrow>
                       let receipt = no_removal\<lparr>rm_residue := staging_present\<rparr> in
                       if object_present \<and> \<not> staging_present then stage_and_remove lib limits r receipt
                       else remove_names lib limits r (object_present \<or> staging_present) object_present staging_present
                         receipt))))"

section \<open>Bound sessions\<close>

text \<open>\<open>BoundRecordSession\<close>: the store's identity and whether the session is still open.\<close>

record bound_session =
  bs_store_id :: bytes
  bs_open :: bool

definition bound_ready :: "bound_session \<Rightarrow> ('x, 'y, store_error option) store_prog" where
  "bound_ready b =
     bind ctx_err (\<lambda>cancelled.
       Return (if cancelled then Some CtxCancelled else if \<not> bs_open b then Some StoreFailed else None))"

definition bound_check :: "bound_session \<Rightarrow> ('x, 'y, store_error option) store_prog" where
  "bound_check b =
     bind (bound_ready b) (\<lambda>err.
       case err of
         Some e \<Rightarrow> Return (Some e)
       | None \<Rightarrow> bind check_root (\<lambda>ok. Return (if ok then None else Some StoreFailed)))"

definition bound_import_record :: "golib \<Rightarrow> bound_session \<Rightarrow> bytes \<Rightarrow> bytes \<Rightarrow> record_limits \<Rightarrow>
    ('x, 'y, import_receipt \<times> (store_error + record_ref)) store_prog" where
  "bound_import_record lib b kind payload limits =
     bind (bound_ready b) (\<lambda>err.
       case err of
         Some e \<Rightarrow> Return (no_import, Inl e)
       | None \<Rightarrow>
           if \<not> valid_record_kind kind \<or> \<not> valid_record_limits limits then Return (no_import, Inl StoreFailed)
           else import_record_session lib limits kind payload)"

definition bound_load_record :: "golib \<Rightarrow> bound_session \<Rightarrow> bytes \<Rightarrow> bytes \<Rightarrow> record_limits \<Rightarrow>
    (store_error option \<Rightarrow> bytes \<Rightarrow> 'e + 'v) \<Rightarrow> ('x, 'y, ('e, 'v) loaded) store_prog" where
  "bound_load_record lib b kind rid limits consume =
     bind (bound_ready b) (\<lambda>err.
       case err of
         Some e \<Rightarrow> Return (not_loaded e)
       | None \<Rightarrow>
           if \<not> valid_record_kind kind \<or> \<not> valid_record_id rid \<or> \<not> valid_record_limits limits
           then Return (not_loaded StoreFailed)
           else load_record_session lib limits kind rid consume)"

definition bound_verify_record_set :: "golib \<Rightarrow> bound_session \<Rightarrow> record_ref list \<Rightarrow> record_limits \<Rightarrow>
    ('x, 'y, set_receipt \<times> store_error option) store_prog" where
  "bound_verify_record_set lib b records limits =
     bind (bound_ready b) (\<lambda>err.
       case err of
         Some e \<Rightarrow> Return (no_set, Some e)
       | None \<Rightarrow>
           if \<not> valid_record_set records limits then Return (no_set, Some StoreFailed)
           else verify_record_set_session lib limits records)"

definition add_pass :: "durability_receipt \<Rightarrow> set_receipt \<Rightarrow> durability_receipt" where
  "add_pass receipt s =
     receipt\<lparr>du_passes := du_passes receipt + 1, du_verified := du_verified receipt + sr_verified s,
       du_bytes := du_bytes receipt + sr_bytes s\<rparr>"

definition no_durability :: durability_receipt where
  "no_durability = \<lparr>du_complete = False, du_confirmed = False, du_passes = 0, du_verified = 0, du_bytes = 0\<rparr>"

definition bound_confirm_durability :: "golib \<Rightarrow> bound_session \<Rightarrow> record_ref list \<Rightarrow> record_limits \<Rightarrow>
    ('x, 'y, durability_receipt \<times> store_error option) store_prog" where
  "bound_confirm_durability lib b records limits =
     bind (bound_ready b) (\<lambda>err.
       case err of
         Some e \<Rightarrow> Return (no_durability, Some e)
       | None \<Rightarrow>
           if \<not> valid_record_set records limits then Return (no_durability, Some StoreFailed)
           else
             bind (verify_record_set_session lib limits records) (\<lambda>(before, err).
               let receipt = add_pass no_durability before in
               if err \<noteq> None \<or> \<not> sr_complete before then Return (receipt, err)
               else bind sync_record_removal (\<lambda>synced.
                 if \<not> synced then Return (receipt, Some RemovalDurabilityUnconfirmed)
                 else bind (verify_record_set_session lib limits records) (\<lambda>(after, err).
                   let receipt = add_pass receipt after in
                   if err \<noteq> None \<or> \<not> sr_complete after then Return (receipt, err)
                   else bind check_root (\<lambda>ok.
                     if \<not> ok then Return (receipt, Some StoreFailed)
                     else Return (receipt\<lparr>du_complete := True, du_confirmed := True\<rparr>, None))))))"

definition bound_list_records :: "bound_session \<Rightarrow> bytes \<Rightarrow> record_limits \<Rightarrow>
    ('x, 'y, list_result \<times> store_error option) store_prog" where
  "bound_list_records b kind limits =
     bind (bound_ready b) (\<lambda>err.
       case err of
         Some e \<Rightarrow>
           Return (empty_list\<lparr>lr_stop := if e = CtxCancelled then ''context_cancelled'' else []\<rparr>, Some e)
       | None \<Rightarrow>
           if \<not> valid_record_list kind limits then Return (empty_list, Some StoreFailed)
           else list_records_session kind limits)"

definition bound_remove_record_exact :: "golib \<Rightarrow> bound_session \<Rightarrow> record_ref \<Rightarrow> record_limits \<Rightarrow>
    ('x, 'y, removal_receipt \<times> store_error option) store_prog" where
  "bound_remove_record_exact lib b r limits =
     bind (bound_ready b) (\<lambda>err.
       case err of
         Some e \<Rightarrow> Return (no_removal, Some e)
       | None \<Rightarrow>
           if \<not> valid_record_removal r limits then Return (no_removal, Some StoreFailed)
           else remove_record_session lib limits r)"

definition bound_close :: "bound_session \<Rightarrow> bound_session" where
  "bound_close b = b\<lparr>bs_open := False\<rparr>"

end
