(* ===== verification/RecordStoreProps.thy ===== *)
theory RecordStoreProps
  imports RecordStore
begin

text \<open>
  Facts about the sealed records: object names and identities determine each other, which names an operation creates,
  links or unlinks, what a successful load or verification has read, and what the replies of a successful import or
  removal must have been.
\<close>

section \<open>Names\<close>

lemma trim_suffix_append [simp]: "trim_suffix (a @ b) b = a"
  by (simp add: trim_suffix_def has_suffix_def)

lemma trim_prefix_append [simp]: "trim_prefix (a @ b) a = b"
  by (simp add: trim_prefix_def has_prefix_def)

lemma kind_no_dash: "valid_record_kind k \<Longrightarrow> CHR ''-'' \<notin> set k"
  by (auto simp: valid_record_kind_def all_record_kinds_def kind_defs)

lemma dash_split:
  assumes "CHR ''-'' \<notin> set k" "CHR ''-'' \<notin> set k'" "k @ CHR ''-'' # x = k' @ CHR ''-'' # t"
  shows "k = k'"
proof -
  have "split_on CHR ''-'' (k @ CHR ''-'' # x) = split_on CHR ''-'' (k' @ CHR ''-'' # t)" by (simp only: assms(3))
  then show ?thesis using assms(1,2) by (simp add: split_on_append_sep)
qed

lemma dash_prefix:
  assumes "CHR ''-'' \<notin> set k" "CHR ''-'' \<notin> set k'"
  shows "has_prefix (k @ ''-'' @ x) (k' @ ''-'') \<longleftrightarrow> k = k'"
proof
  assume "has_prefix (k @ ''-'' @ x) (k' @ ''-'')"
  then obtain t where "k @ CHR ''-'' # x = k' @ CHR ''-'' # t" by (auto simp: has_prefix_iff)
  with assms show "k = k'" by (rule dash_split)
qed (auto simp: has_prefix_iff)

lemma record_prefix_match:
  assumes "CHR ''-'' \<notin> set k" "CHR ''-'' \<notin> set k'"
  shows "has_prefix (record_prefix @ k @ ''-'' @ x) (record_prefix @ k' @ ''-'') \<longleftrightarrow> k = k'"
  using dash_prefix [OF assms, of x] by (auto simp: has_prefix_iff)

lemma record_relative_path_kind:
  assumes "valid_record_kind k" "valid_record_kind k'" "record_relative_path k i = record_relative_path k' i'"
  shows "k = k'"
proof (rule dash_split)
  show "k @ CHR ''-'' # (trim_prefix i sha256_prefix @ record_suffix) =
      k' @ CHR ''-'' # (trim_prefix i' sha256_prefix @ record_suffix)"
    using assms(3) by (simp add: record_relative_path_def)
qed (use assms(1,2) kind_no_dash in blast)+

lemma valid_record_id_iff:
  "valid_record_id v \<longleftrightarrow> (\<exists>d. v = sha256_prefix @ d \<and> length d = 64 \<and> lower_hex_digest d)"
proof
  assume v: "valid_record_id v"
  then obtain d where "v = sha256_prefix @ d" by (auto simp: valid_record_id_def has_prefix_iff)
  with v show "\<exists>d. v = sha256_prefix @ d \<and> length d = 64 \<and> lower_hex_digest d"
    by (auto simp: valid_record_id_def sha256_prefix_def)
next
  show "\<exists>d. v = sha256_prefix @ d \<and> length d = 64 \<and> lower_hex_digest d \<Longrightarrow> valid_record_id v"
    by (auto simp: valid_record_id_def has_prefix_iff sha256_prefix_def)
qed

lemma record_relative_path_inject:
  assumes "valid_record_kind k" "valid_record_kind k'" "valid_record_id i" "valid_record_id i'"
    and "record_relative_path k i = record_relative_path k' i'"
  shows "k = k' \<and> i = i'"
  using record_relative_path_kind [OF assms(1,2,5)] assms(3-5)
  by (auto simp: valid_record_id_iff record_relative_path_def)

lemma hex_digit_lower: "n < 16 \<Longrightarrow> ascii_lower (hex_digit n) = hex_digit n"
  by (auto simp: hex_digit_def ascii_lower_def byte_val_char_of)

lemma hex_encode_lower: "map ascii_lower (hex_encode bs) = hex_encode bs"
  by (induction bs) (simp_all add: hex_encode_def hex_digit_lower less_mult_imp_div_less byte_val_def)

lemma record_id_of_valid: "digest_sizes lib \<Longrightarrow> valid_record_id (record_id_of lib k d)"
  by (auto simp: valid_record_id_iff record_id_of_def lower_hex_digest_def hex_encode_lower digest_sizes_def)

lemma classify_kinds_iff:
  assumes "\<forall>k \<in> set ks. CHR ''-'' \<notin> set k"
  shows "classify_kinds name ks = Some e \<longleftrightarrow>
    (\<exists>k i. e = Some (k, i) \<and> k \<in> set ks \<and> valid_record_id i \<and>
      name = record_prefix @ k @ ''-'' @ trim_prefix i sha256_prefix @ record_suffix)"
  using assms
proof (induction ks)
  case Nil
  then show ?case by simp
next
  case (Cons k ks)
  show ?case
  proof (cases "has_prefix name (record_prefix @ k @ ''-'')")
    case False
    then have "name \<noteq> record_prefix @ k @ ''-'' @ x" for x by (auto simp: has_prefix_iff)
    with False Cons show ?thesis by (auto simp: Let_def)
  next
    case True
    then obtain t where t: "name = record_prefix @ k @ ''-'' @ t" by (auto simp: has_prefix_iff)
    have only: "k' = k" if "k' \<in> set (k # ks)" "name = record_prefix @ k' @ ''-'' @ x" for k' x
      using that True record_prefix_match [of k' k x] Cons.prems by auto
    define digest where "digest = trim_suffix t record_suffix"
    have eq: "classify_kinds name (k # ks) =
        (if length digest \<noteq> 64 \<or> t \<noteq> digest @ record_suffix then None
         else if \<not> valid_record_id (sha256_prefix @ digest) then None else Some (Some (k, sha256_prefix @ digest)))"
      using True by (simp add: Let_def digest_def t trim_prefix_def has_prefix_def)
    show ?thesis
    proof
      assume "classify_kinds name (k # ks) = Some e"
      then have "e = Some (k, sha256_prefix @ digest)" "t = digest @ record_suffix" "valid_record_id (sha256_prefix @ digest)"
        unfolding eq by (auto split: if_splits)
      with t show "\<exists>k' i. e = Some (k', i) \<and> k' \<in> set (k # ks) \<and> valid_record_id i \<and>
          name = record_prefix @ k' @ ''-'' @ trim_prefix i sha256_prefix @ record_suffix"
        by (intro exI [of _ k] exI [of _ "sha256_prefix @ digest"]) simp
    next
      assume "\<exists>k' i. e = Some (k', i) \<and> k' \<in> set (k # ks) \<and> valid_record_id i \<and>
          name = record_prefix @ k' @ ''-'' @ trim_prefix i sha256_prefix @ record_suffix"
      then obtain k' i where i: "e = Some (k', i)" "k' \<in> set (k # ks)" "valid_record_id i"
          "name = record_prefix @ k' @ ''-'' @ trim_prefix i sha256_prefix @ record_suffix" by blast
      with only have k': "k' = k" by blast
      obtain d where d: "i = sha256_prefix @ d" "length d = 64" using i(3) by (auto simp: valid_record_id_iff)
      have "t = d @ record_suffix" using i(4) t k' d by simp
      then have "digest = d" by (simp add: digest_def)
      then show "classify_kinds name (k # ks) = Some e"
        unfolding eq using i d k' \<open>t = d @ record_suffix\<close> by simp
    qed
  qed
qed

lemma has_suffix_last: "has_suffix s p \<Longrightarrow> p \<noteq> [] \<Longrightarrow> last s = last p"
  unfolding has_suffix_def by (metis append_take_drop_id last_appendR)

lemma record_name_not_artifact:
  "\<not> is_artifact_object_name (record_prefix @ k @ ''-'' @ d @ record_suffix)"
proof
  assume "is_artifact_object_name (record_prefix @ k @ ''-'' @ d @ record_suffix)"
  then have "last (record_prefix @ k @ ''-'' @ d @ record_suffix) = last ''.torrent''"
    by (intro has_suffix_last) (simp_all add: is_artifact_object_name_def)
  then show False by (simp add: record_suffix_def)
qed

lemma classify_object_name_record:
  "classify_object_name name = Some (Some (k, i)) \<longleftrightarrow>
    valid_record_kind k \<and> valid_record_id i \<and> objects_dir @ ''/'' @ name = record_relative_path k i"
  using classify_kinds_iff [of all_record_kinds name "Some (k, i)"] kind_no_dash record_name_not_artifact
  by (auto simp: classify_object_name_def valid_record_kind_def record_relative_path_def)

text \<open>
  Claim C30. Object names and record identities determine each other: the name of every valid kind and identity is
  classified as exactly that pair, and a name is classified as a record only if it is the name of the pair.
\<close>

theorem object_name_round_trip:
  "classify_object_name name = Some (Some (k, i)) \<longleftrightarrow>
    valid_record_kind k \<and> valid_record_id i \<and> objects_dir @ ''/'' @ name = record_relative_path k i"
  by (fact classify_object_name_record)

section \<open>Which names are touched\<close>

definition temporary :: "bytes \<Rightarrow> bool" where
  "temporary p \<longleftrightarrow> has_prefix p (temporary_dir @ ''/'')"

text \<open>Unlinks and links outside the staging directory are the given ones, files are created only inside it.\<close>

definition tame :: "(bytes \<Rightarrow> bool) \<Rightarrow> (bytes \<Rightarrow> bool) \<Rightarrow> ('x \<Rightarrow> bool) \<Rightarrow> 'x call \<Rightarrow> bool" where
  "tame unlinks links others c =
     (case c of
        UnlinkName p \<Rightarrow> unlinks p \<or> temporary p
      | LinkObject p q \<Rightarrow> links q \<or> temporary q
      | CreateStaging p \<Rightarrow> temporary p
      | Other x \<Rightarrow> others x
      | _ \<Rightarrow> True)"

lemma temporary_paths [simp]:
  "temporary (import_staging_path r)" "temporary (removal_staging_path r')" "temporary (temporary_dir @ CHR ''/'' # n)"
  "\<not> temporary (record_relative_path k i)"
  by (auto simp: temporary_def import_staging_path_def removal_staging_path_def record_relative_path_def has_prefix_def
      temporary_dir_def objects_dir_def)

lemma tame_store_calls [simp]:
  "tame U L X CtxErr" "tame U L X CheckRoot" "tame U L X (OpenObject p)" "tame U L X (ReadObject h)"
  "tame U L X (StatObject h)" "tame U L X (CloseObject h)" "tame U L X (OpenDirectory d)"
  "tame U L X (ReadDirectory h n)" "tame U L X RandomSuffix" "tame U L X (WriteStaging h b)"
  "tame U L X (SyncStaging h)" "tame U L X (SyncDirectory d)" "tame U L X (StatName p)" "tame U L X ReadClock"
  "tame U L X (UnlinkName p) \<longleftrightarrow> U p \<or> temporary p" "tame U L X (LinkObject p q) \<longleftrightarrow> L q \<or> temporary q"
  "tame U L X (CreateStaging p) \<longleftrightarrow> temporary p" "tame U L X (Other x) \<longleftrightarrow> X x"
  by (simp_all add: tame_def)

lemma tame_mono:
  "tame U L X c \<Longrightarrow> (\<And>p. U p \<Longrightarrow> U' p) \<Longrightarrow> (\<And>p. L p \<Longrightarrow> L' p) \<Longrightarrow> (\<And>x. X x \<Longrightarrow> X' x) \<Longrightarrow> tame U' L' X' c"
  by (cases c) (auto simp: tame_def)

lemma tame_calls [within_intros]:
  "within (tame U L X) ctx_err" "within (tame U L X) check_root" "within (tame U L X) (open_object p)"
  "within (tame U L X) (read_object h)" "within (tame U L X) (stat_object h)" "within (tame U L X) (close_object h)"
  "within (tame U L X) (open_directory d)" "within (tame U L X) (read_directory h n)"
  "within (tame U L X) random_suffix" "within (tame U L X) (write_staging h b)" "within (tame U L X) (sync_staging h)"
  "within (tame U L X) (sync_directory d)" "within (tame U L X) (stat_name p)" "within (tame U L X) read_clock"
  by (simp_all add: call_defs perform_def)

lemma tame_named_calls:
  "U p \<or> temporary p \<Longrightarrow> within (tame U L X) (unlink_name p)"
  "L q \<or> temporary q \<Longrightarrow> within (tame U L X) (link_object p q)"
  "temporary p \<Longrightarrow> within (tame U L X) (create_staging p)"
  by (simp_all add: call_defs perform_def)

lemmas store_splits = open_reply.split link_reply.split unlink_reply.split option.split sum.split prod.split bool.split

lemma tame_verify [within_intros]: "within (tame U L X) (verify_record_relative lib c p k i m)"
  by (auto simp: verify_record_relative_def close_reopened_def intro!: within_bind within_intros split: store_splits)

lemma tame_copy [within_intros]:
  "within (tame U L X) (copy_sealed_record h m s n :: ('x, 'y, store_error option \<times> nat) store_prog)"
proof (induction s arbitrary: n rule: measure_induct_rule [where f = length])
  case (less s)
  have "within (tame U L X) (copy_sealed_record h m (drop k s) n' :: ('x, 'y, store_error option \<times> nat) store_prog)"
    if "s \<noteq> []" "0 < k" for k n'
    using that by (intro less.IH) simp
  moreover have "within (tame U L X) (copy_sealed_record h m [] n' :: ('x, 'y, store_error option \<times> nat) store_prog)" for n'
    by (subst copy_sealed_record.simps) (auto intro!: within_bind within_intros)
  ultimately show ?case
    by (subst copy_sealed_record.simps) (auto simp: Let_def intro!: within_bind within_intros)
qed

lemma tame_remove_private [within_intros]: "U p \<or> temporary p \<Longrightarrow> within (tame U L X) (remove_private p)"
  by (auto simp: remove_private_def intro!: within_bind within_intros tame_named_calls)

lemma tame_import_record_session:
  assumes "L (record_relative_path k (record_id_of lib k payload))"
  shows "within (tame U L X) (import_record_session lib limits k payload)"
  using assms
  by (auto simp: import_record_session_def import_staged_def import_publish_def publish_no_replace_def
      platform_publish_def Let_def intro!: within_bind within_intros tame_named_calls split: store_splits)


lemma tame_collect_names [within_intros]: "within (tame U L X) (collect_residue_names cutoff n names)"
  by (induction names arbitrary: n)
     (auto simp: Let_def intro!: within_bind within_intros split: store_splits)

lemma tame_collect [within_intros]: "within (tame U L X) collect_staging_residue"
  by (auto simp: collect_staging_residue_def intro!: within_bind within_intros split: store_splits)

lemma tame_import_record:
  assumes "L (record_relative_path k (record_id_of lib k payload))"
  shows "within (tame U L X) (import_record lib collected k payload limits)"
  using assms by (auto simp: import_record_def intro!: within_bind within_intros tame_import_record_session)

lemma tame_load [within_intros]: "within (tame U L X) (load_record_session lib limits k i consume)"
  by (auto simp: load_record_session_def close_reopened_def Let_def intro!: within_bind within_intros split: store_splits)

lemma tame_verify_records [within_intros]: "within (tame U L X) (verify_records lib limits rs receipt)"
  by (induction rs arbitrary: receipt) (auto intro!: within_bind within_intros split: store_splits)

lemma tame_stop_list [within_intros]: "within (tame U L X) (stop_list b r reason)"
  by (auto simp: stop_list_def verify_list_binding_def intro!: within_bind within_intros split: store_splits)

lemma tame_list_entries [within_intros]: "within (tame U L X) (list_entries k limits b names r)"
  by (induction names arbitrary: r)
     (auto simp: Let_def verify_list_binding_def intro!: within_bind within_intros split: store_splits)

lemma tame_list [within_intros]: "within (tame U L X) (list_records_session k limits)"
  by (auto simp: list_records_session_def intro!: within_bind within_intros split: store_splits)

lemma tame_removal_parts [within_intros]:
  "within (tame U L X) (verify_removal_record lib limits p r)"
  "within (tame U L X) sync_record_removal"
  "within (tame U L X) (finish_removal had receipt)"
  by (auto simp: verify_removal_record_def sync_record_removal_def finish_removal_def Let_def
      intro!: within_bind within_intros split: store_splits)

lemma tame_remove_and_verify: "U p \<or> temporary p \<Longrightarrow> within (tame U L X) (remove_and_verify lib limits p r receipt)"
  by (auto simp: remove_and_verify_def remove_record_name_def intro!: within_bind within_intros tame_named_calls
      split: store_splits)

lemma tame_remove_record_session:
  assumes "U (record_relative_path (rr_kind r) (rr_id r))"
  shows "within (tame U L X) (remove_record_session lib limits r)"
  using assms
  by (auto simp: remove_record_session_def stage_and_remove_def remove_names_def stage_record_removal_def Let_def
      intro!: within_bind within_intros tame_named_calls tame_remove_and_verify split: store_splits)

lemma tame_bound_ready [within_intros]: "within (tame U L X) (bound_ready b)"
  by (auto simp: bound_ready_def intro!: within_bind within_intros)

lemma tame_bound [within_intros]:
  "within (tame U L X) (bound_check b)"
  "within (tame U L X) (bound_load_record lib b k i limits consume)"
  "within (tame U L X) (bound_verify_record_set lib b rs limits)"
  "within (tame U L X) (bound_confirm_durability lib b rs limits)"
  "within (tame U L X) (bound_list_records b k limits)"
  by (auto simp: bound_check_def bound_load_record_def bound_verify_record_set_def bound_confirm_durability_def
      bound_list_records_def verify_record_set_session_def Let_def intro!: within_bind within_intros split: store_splits)

lemma tame_bound_import:
  "L (record_relative_path k (record_id_of lib k payload)) \<Longrightarrow>
    within (tame U L X) (bound_import_record lib b k payload limits)"
  by (auto simp: bound_import_record_def intro!: within_bind within_intros tame_import_record_session split: store_splits)

lemma tame_bound_remove:
  "(valid_record_kind (rr_kind r) \<Longrightarrow> U (record_relative_path (rr_kind r) (rr_id r))) \<Longrightarrow>
    within (tame U L X) (bound_remove_record_exact lib b r limits)"
  by (auto simp: bound_remove_record_exact_def valid_record_removal_def record_identity_valid_def
      intro!: within_bind within_intros tame_remove_record_session split: store_splits)

section \<open>What a load has read\<close>

lemma digest_read_data: "digest_read m d s = (r, d') \<Longrightarrow> \<exists>x. dr_data d' = dr_data d @ x"
  by (auto simp: digest_read_def split: read_step.splits if_splits)

lemma drain_data: "drain_record_reader m z d ss = (e, d') \<Longrightarrow> \<exists>x. dr_data d' = dr_data d @ x"
proof (induction m z d ss rule: drain_record_reader.induct)
  case (2 m z d s ss)
  obtain r d1 where r: "digest_read m d s = (r, d1)" by (cases "digest_read m d s")
  with digest_read_data obtain x where x: "dr_data d1 = dr_data d @ x" by blast
  show ?case
  proof (cases r)
    case (Delivered b)
    show ?thesis
    proof (cases "b \<noteq> []")
      case True
      then have "drain_record_reader m 0 d1 ss = (e, d')" using 2(3) r Delivered by simp
      from "2.IH"(1) [OF r [symmetric] Delivered True this] x show ?thesis by auto
    next
      case False
      show ?thesis
      proof (cases "z + 1 > 100")
        case True
        then show ?thesis using 2(3) r Delivered False x by simp
      next
        case z: False
        then have "drain_record_reader m (z + 1) d1 ss = (e, d')" using 2(3) r Delivered False by simp
        from "2.IH"(2) [OF r [symmetric] Delivered False z this] x show ?thesis by auto
      qed
    qed
  qed (use 2(3) r x in auto)
qed simp

text \<open>
  A completed load: the callback was given, with the end of the file, a prefix of the bytes whose digest is the
  identity that was asked for.
\<close>

definition authentic_load :: "golib \<Rightarrow> bytes \<Rightarrow> bytes \<Rightarrow> (store_error option \<Rightarrow> bytes \<Rightarrow> 'e + 'v) \<Rightarrow> ('e, 'v) loaded \<Rightarrow> bool" where
  "authentic_load lib kind rid consume ld \<longleftrightarrow>
     (\<forall>ref. ld_result ld = Inr ref \<longrightarrow> rr_kind ref = kind \<and> rr_id ref = rid \<and>
       (\<exists>v given rest. ld_consumed ld = Some (Inr v) \<and> consume None given = Inr v \<and>
         record_id_of lib kind (given @ rest) = rid))"

lemma not_loaded_authentic [simp]: "authentic_load lib k i consume (not_loaded e)"
  by (simp add: authentic_load_def not_loaded_def)

lemma authentic_load_Inl [simp]:
  "authentic_load lib k i consume \<lparr>ld_bytes_read = a, ld_consumer_bytes = b, ld_result = Inl e, ld_consumed = c\<rparr>"
  by (simp add: authentic_load_def)

lemma authentic_load_Inr:
  assumes "drain_record_reader m 0 d steps = (None, d2)" "consume None (dr_data d) = Inr v"
  shows "authentic_load lib k (record_id_of lib k (dr_data d2)) consume
    \<lparr>ld_bytes_read = a, ld_consumer_bytes = b,
     ld_result = Inr \<lparr>rr_kind = k, rr_id = record_id_of lib k (dr_data d2), rr_size = sz\<rparr>,
     ld_consumed = Some (Inr v)\<rparr>"
proof -
  obtain x where "dr_data d2 = dr_data d @ x" using drain_data [OF assms(1)] by blast
  with assms(2) show ?thesis
    unfolding authentic_load_def by simp (metis)
qed

lemma load_authentic: "returns (authentic_load lib k i consume) (load_record_session lib limits k i consume)"
proof -
  have any: "returns (\<lambda>_. True) p" for p :: "('x, 'y, 'z) store_prog" by (rule returns_True) simp
  show ?thesis
    unfolding load_record_session_def Let_def
    by (auto intro!: returns_bindI [OF any] simp del: not_None_eq split: store_splits)
       (erule authentic_load_Inr, assumption)
qed

lemma bound_load_authentic: "returns (authentic_load lib k i consume) (bound_load_record lib b k i limits consume)"
proof -
  have any: "returns (\<lambda>_. True) p" for p :: "('x, 'y, 'z) store_prog" by (rule returns_True) simp
  show ?thesis
    unfolding bound_load_record_def
    by (auto intro!: returns_bindI [OF any] load_authentic split: store_splits)
qed

section \<open>Results\<close>

lemma any_result: "returns (\<lambda>_. True) p"
  by (rule returns_True) simp

lemma import_publish_ref:
  "returns (\<lambda>x. \<forall>ref'. fst (snd x) = Inr ref' \<longrightarrow> ref' = ref) (import_publish lib limits ref tmp receipt)"
  unfolding import_publish_def Let_def
  by (auto intro!: returns_bindI [OF any_result] split: store_splits)

lemma import_staged_ref:
  "returns (\<lambda>x. \<forall>ref. fst (snd x) = Inr ref \<longrightarrow> rr_kind ref = k \<and> rr_id ref = record_id_of lib k payload)
    (import_staged lib limits k payload tmp h)"
  unfolding import_staged_def Let_def
  by (auto intro!: returns_bindI [OF any_result] returns_mono [OF import_publish_ref] split: store_splits)

lemma import_ref:
  "returns (\<lambda>x. \<forall>ref. snd x = Inr ref \<longrightarrow> rr_kind ref = k \<and> rr_id ref = record_id_of lib k payload)
    (bound_import_record lib b k payload limits)"
  unfolding bound_import_record_def import_record_session_def Let_def
  by (auto intro!: returns_bindI [OF any_result] returns_bindI [OF import_staged_ref] split: store_splits)

lemma list_entries_kind:
  "\<forall>r \<in> set (lr_records res). rr_kind r = k \<Longrightarrow>
    returns (\<lambda>x. \<forall>r \<in> set (lr_records (fst x)). rr_kind r = k) (list_entries k limits b names res)"
proof (induction names arbitrary: res)
  case Nil
  then show ?case by (auto intro!: returns_bindI [OF any_result])
next
  case (Cons name names)
  then show ?case
    by (auto simp: Let_def stop_list_def intro!: returns_bindI [OF any_result] split: store_splits)
qed

lemma list_kind: "returns (\<lambda>x. \<forall>r \<in> set (lr_records (fst x)). rr_kind r = k) (bound_list_records b k limits)"
  unfolding bound_list_records_def list_records_session_def stop_list_def
  by (auto simp: empty_list_def intro!: returns_bindI [OF any_result] list_entries_kind split: store_splits)

end
