(* ===== verification/ExchangeTypes.thy ===== *)
theory ExchangeTypes
  imports RecordStore
begin

text \<open>
  The values of the bonus exchange: \<open>internal/site/bonus.go\<close> and \<open>bonus_exchange.go\<close> (limits, receipts, the two
  process-local authorities), \<open>internal/bonusexchange/types.go\<close> (the five sealed records and what makes them valid)
  and \<open>format.go\<close> (their canonical encoding). \<open>encoding/json\<close>, \<open>net/url\<close> and SHA-256 are fields of the record
  \<open>exlib\<close>; the scan for duplicate keys, which the code writes itself, is modelled on the token stream.
\<close>

section \<open>Time and text\<close>

text \<open>\<open>time.Time\<close>: nanoseconds since the zero time, and whether the location is UTC.\<close>

record go_time =
  t_instant :: int
  t_utc :: bool

definition time_ok :: "go_time \<Rightarrow> bool" where
  "time_ok t \<longleftrightarrow> t_instant t \<noteq> 0 \<and> t_utc t"

definition safe_text :: "bytes \<Rightarrow> nat \<Rightarrow> bool" where
  "safe_text v maximum \<longleftrightarrow>
     v \<noteq> [] \<and> length v \<le> maximum \<and> utf8_valid v \<and> list_all (\<lambda>r. \<not> (r < 32 \<or> r = 127)) (runes v)"

definition valid_sha256_id :: "bytes \<Rightarrow> bool" where
  "valid_sha256_id v \<longleftrightarrow>
     length v = 71 \<and> has_prefix v sha256_prefix \<and> map ascii_lower v = v \<and>
     (case hex_decode (trim_prefix v sha256_prefix) of None \<Rightarrow> False | Some b \<Rightarrow> length b = 32)"

definition valid_route_id :: "bytes \<Rightarrow> bool" where
  "valid_route_id v \<longleftrightarrow>
     v \<noteq> [] \<and> length v \<le> 128 \<and>
     list_all (\<lambda>c. (CHR ''a'' \<le> c \<and> c \<le> CHR ''z'') \<or> (CHR ''0'' \<le> c \<and> c \<le> CHR ''9'') \<or>
       c = CHR ''.'' \<or> c = CHR ''_'' \<or> c = CHR ''-'') v"

section \<open>Limits, usage and receipts of the site\<close>

record review_limits =
  vl_requests :: int64
  vl_response_bytes :: int64
  vl_header_bytes :: int64
  vl_forms :: int64
  vl_fields :: int64
  vl_tokens :: int64
  vl_text_bytes :: int64

definition valid_review_limits :: "review_limits \<Rightarrow> bool" where
  "valid_review_limits l \<longleftrightarrow>
     vl_requests l = 1 \<and> 0 < vl_response_bytes l \<and> vl_response_bytes l \<le> 8388608 \<and>
     0 < vl_header_bytes l \<and> vl_header_bytes l \<le> 65536 \<and>
     0 < vl_forms l \<and> vl_forms l \<le> 256 \<and> 0 < vl_fields l \<and> vl_fields l \<le> 8192 \<and>
     0 < vl_tokens l \<and> vl_tokens l \<le> 200000 \<and> 0 < vl_text_bytes l \<and> vl_text_bytes l \<le> 1048576"

definition default_review_limits :: review_limits where
  "default_review_limits = \<lparr>vl_requests = 1, vl_response_bytes = 4194304, vl_header_bytes = 65536, vl_forms = 128,
     vl_fields = 4096, vl_tokens = 100000, vl_text_bytes = 262144\<rparr>"

record review_usage =
  vu_requests :: int64
  vu_retries :: int64
  vu_redirects :: int64
  vu_response_bytes :: int64
  vu_response_known :: bool
  vu_forms :: int64
  vu_fields :: int64
  vu_tokens :: int64
  vu_text_bytes :: int64

record review_receipt =
  vr_effect :: bytes
  vr_site :: bytes
  vr_selector :: bytes
  vr_origin :: bytes
  vr_route :: bytes
  vr_start :: go_time
  vr_end :: go_time
  vr_complete :: bool
  vr_limits :: review_limits
  vr_used :: review_usage
  vr_stop :: bytes

record exchange_limits =
  xl_session_requests :: int64
  xl_submissions :: int64
  xl_fields :: int64
  xl_form_bytes :: int64
  xl_response_bytes :: int64
  xl_header_bytes :: int64

definition valid_exchange_limits :: "exchange_limits \<Rightarrow> bool" where
  "valid_exchange_limits l \<longleftrightarrow>
     xl_session_requests l = 2 \<and> xl_submissions l = 1 \<and> 0 < xl_fields l \<and> xl_fields l \<le> 256 \<and>
     0 < xl_form_bytes l \<and> xl_form_bytes l \<le> 65536 \<and> 0 < xl_response_bytes l \<and> xl_response_bytes l \<le> 8388608 \<and>
     0 < xl_header_bytes l \<and> xl_header_bytes l \<le> 65536"

definition default_exchange_limits :: exchange_limits where
  "default_exchange_limits = \<lparr>xl_session_requests = 2, xl_submissions = 1, xl_fields = 128, xl_form_bytes = 32768,
     xl_response_bytes = 4194304, xl_header_bytes = 65536\<rparr>"

record exchange_usage =
  xu_total :: int64
  xu_reviews :: int64
  xu_submissions :: int64
  xu_retries :: int64
  xu_redirects :: int64
  xu_fields :: int64
  xu_form_bytes :: int64
  xu_response_bytes :: int64
  xu_response_known :: bool

record exchange_receipt =
  xr_effect :: bytes
  xr_site :: bytes
  xr_selector :: bytes
  xr_expected_review :: bytes
  xr_fresh_review :: bytes
  xr_origin :: bytes
  xr_review_route :: bytes
  xr_action_route :: bytes
  xr_start :: go_time
  xr_end :: go_time
  xr_complete :: bool
  xr_attempted :: bool
  xr_response_complete :: bool
  xr_outcome :: bytes
  xr_confirmation :: bytes
  xr_limits :: exchange_limits
  xr_used :: exchange_usage
  xr_stop :: bytes

record exchange_config =
  xc_origin :: bytes
  xc_review_route :: bytes
  xc_action_route :: bytes

record offer_review =
  of_site :: bytes
  of_selector :: bytes
  of_review_id :: bytes
  of_balance :: bytes
  of_columns :: "bytes list"
  of_availability :: bytes
  of_input_mode :: bytes
  of_action_method :: bytes
  of_action_route :: bytes
  of_form_shape :: bytes
  of_evidence :: "bytes list"

section \<open>The sealed records\<close>

record intent_record =
  in_schema :: bytes
  in_operation :: bytes
  in_site :: bytes
  in_selector :: bytes
  in_review :: bytes
  in_origin :: bytes
  in_review_route :: bytes
  in_action_route :: bytes
  in_input_mode :: bytes
  in_created :: go_time
  in_review_limits :: review_limits
  in_exchange_limits :: exchange_limits

record attempt_record =
  at_schema :: bytes
  at_operation :: bytes
  at_intent :: bytes
  at_site :: bytes
  at_selector :: bytes
  at_review :: bytes
  at_origin :: bytes
  at_review_route :: bytes
  at_action_route :: bytes

record outcome_record =
  oc_schema :: bytes
  oc_operation :: bytes
  oc_intent :: bytes
  oc_attempt :: bytes
  oc_recorded :: go_time
  oc_receipt :: exchange_receipt

record retention_record =
  rt_schema :: bytes
  rt_basis :: bytes
  rt_store :: bytes
  rt_operation :: bytes
  rt_terminal :: bytes
  rt_intent :: intent_record
  rt_intent_ref :: record_ref
  rt_attempt :: attempt_record
  rt_attempt_ref :: record_ref
  rt_outcome :: outcome_record
  rt_outcome_ref :: record_ref

record forget_record =
  fg_schema :: bytes
  fg_basis :: bytes
  fg_store :: bytes
  fg_operation :: bytes
  fg_retention :: retention_record
  fg_retention_ref :: record_ref

section \<open>Parameters\<close>

text \<open>\<open>url.URL\<close> as far as the origin check reads it.\<close>

record parsed_url =
  pu_scheme :: bytes
  pu_host :: bytes
  pu_hostname :: bytes
  pu_port :: bytes
  pu_user :: bool
  pu_path :: bytes
  pu_raw_path :: bytes
  pu_raw_query :: bytes
  pu_fragment :: bytes

text \<open>Tokens of \<open>json.Decoder.Token\<close>: delimiters, strings, and any other scalar.\<close>

datatype json_token = Delim char | JString bytes | Scalar bytes

text \<open>\<open>json.Marshal\<close> of a record type, and a strict \<open>Decode\<close> into it (unknown fields are an error).\<close>

record 'v codec =
  cd_marshal :: "'v \<Rightarrow> bytes option"
  cd_decode :: "bytes \<Rightarrow> 'v option"

record exlib =
  ex_go :: golib
  ex_parse_url :: "bytes \<Rightarrow> parsed_url option"
  ex_json_valid :: "bytes \<Rightarrow> bool"
  ex_tokens :: "bytes \<Rightarrow> json_token list"
  ex_intent :: "intent_record codec"
  ex_attempt :: "attempt_record codec"
  ex_outcome :: "outcome_record codec"
  ex_retention :: "retention_record codec"
  ex_forget :: "forget_record codec"

section \<open>Validity of site values\<close>

definition valid_canonical_origin :: "exlib \<Rightarrow> bytes \<Rightarrow> bool" where
  "valid_canonical_origin lib origin =
     (case ex_parse_url lib origin of
        None \<Rightarrow> False
      | Some u \<Rightarrow>
          \<not> (pu_scheme u \<noteq> ''https'' \<or> pu_host u = [] \<or> pu_hostname u = [] \<or> pu_user u \<or>
             pu_path u \<noteq> [] \<or> pu_raw_path u \<noteq> [] \<or> pu_raw_query u \<noteq> [] \<or> pu_fragment u \<noteq> [] \<or>
             pu_host u \<noteq> gl_to_lower (ex_go lib) (pu_host u) \<or> has_suffix (pu_hostname u) ''.'' \<or>
             pu_port u = ''443'' \<or> origin \<noteq> ''https://'' @ pu_host u))"

definition valid_config :: "exlib \<Rightarrow> exchange_config \<Rightarrow> bool" where
  "valid_config lib c \<longleftrightarrow>
     valid_canonical_origin lib (xc_origin c) \<and> valid_route_id (xc_review_route c) \<and> valid_route_id (xc_action_route c)"

definition submit_effect :: bytes where
  "submit_effect = ''submit_site_bonus_exchange''"
definition review_effect :: bytes where
  "review_effect = ''read_site_bonus_offer_review''"
definition confirmed :: bytes where
  "confirmed = ''confirmed''"
definition rejected :: bytes where
  "rejected = ''rejected''"
definition unknown :: bytes where
  "unknown = ''unknown''"
definition not_submitted :: bytes where
  "not_submitted = ''not_submitted''"

text \<open>The switch on the outcome at the end of \<open>ValidateBonusExchangeReceipt\<close>.\<close>

definition outcome_consistent :: "exchange_receipt \<Rightarrow> bool" where
  "outcome_consistent r =
     (if xr_outcome r = confirmed then
        xr_attempted r \<and> xr_response_complete r \<and> valid_route_id (xr_confirmation r) \<and> xr_stop r = []
      else if xr_outcome r = rejected then
        xr_attempted r \<and> xr_response_complete r \<and> xr_stop r \<noteq> [] \<and> xr_confirmation r = [] \<and> valid_route_id (xr_stop r)
      else if xr_outcome r = unknown then
        xr_attempted r \<and> xr_stop r \<noteq> [] \<and> xr_confirmation r = [] \<and> valid_route_id (xr_stop r)
      else if xr_outcome r = not_submitted then
        \<not> xr_attempted r \<and> xr_stop r \<noteq> [] \<and> xr_confirmation r = [] \<and> valid_route_id (xr_stop r)
      else False)"

definition usage_consistent :: "exchange_receipt \<Rightarrow> bool" where
  "usage_consistent r =
     (let u = xr_used r in
      (if xr_attempted r then
         xu_submissions u = 1 \<and> xu_total u = 2 \<and> 0 < xu_fields u \<and> 0 < xu_form_bytes u
       else
         xu_submissions u = 0 \<and> xu_total u = 1 \<and> xu_fields u = 0 \<and> xu_form_bytes u = 0 \<and>
         \<not> xr_response_complete r \<and> \<not> xu_response_known u \<and> xu_response_bytes u = 0) \<and>
      xr_response_complete r = xu_response_known u)"

definition valid_exchange_receipt :: "exlib \<Rightarrow> exchange_receipt \<Rightarrow> bool" where
  "valid_exchange_receipt lib r =
     (let l = xr_limits r; u = xr_used r in
      xr_effect r = submit_effect \<and> xr_complete r \<and> valid_exchange_limits l \<and>
      safe_text (xr_site r) 128 \<and> safe_text (xr_selector r) 128 \<and> valid_sha256_id (xr_expected_review r) \<and>
      xr_fresh_review r = xr_expected_review r \<and> valid_sha256_id (xr_fresh_review r) \<and>
      time_ok (xr_start r) \<and> time_ok (xr_end r) \<and> \<not> t_instant (xr_end r) < t_instant (xr_start r) \<and>
      xu_reviews u = 1 \<and> 1 \<le> xu_total u \<and> xu_total u \<le> 2 \<and> xu_retries u = 0 \<and> xu_redirects u = 0 \<and>
      0 \<le> xu_fields u \<and> xu_fields u \<le> xl_fields l \<and> 0 \<le> xu_form_bytes u \<and> xu_form_bytes u \<le> xl_form_bytes l \<and>
      0 \<le> xu_response_bytes u \<and> xu_response_bytes u \<le> xl_response_bytes l \<and>
      valid_config lib \<lparr>xc_origin = xr_origin r, xc_review_route = xr_review_route r, xc_action_route = xr_action_route r\<rparr> \<and>
      usage_consistent r \<and> outcome_consistent r)"

section \<open>Authorities of the site\<close>

text \<open>
  \<open>ObservedBonusExchange\<close> and \<open>ObservedBonusReview\<close>: the number stands for the address of the object, the flag for
  the unexported authority, which a JSON round trip loses.
\<close>

record observed_exchange =
  ox_address :: nat
  ox_receipt :: exchange_receipt
  ox_authority :: bool

definition new_observed_exchange :: "exlib \<Rightarrow> nat \<Rightarrow> exchange_receipt \<Rightarrow> observed_exchange option" where
  "new_observed_exchange lib address r =
     (if valid_exchange_receipt lib r then Some \<lparr>ox_address = address, ox_receipt = r, ox_authority = True\<rparr> else None)"

definition exchange_verified :: "exlib \<Rightarrow> observed_exchange \<Rightarrow> bool" where
  "exchange_verified lib ob \<longleftrightarrow> ox_authority ob \<and> valid_exchange_receipt lib (ox_receipt ob)"

definition exchange_matches_receipt :: "exlib \<Rightarrow> observed_exchange \<Rightarrow> exchange_receipt \<Rightarrow> bool" where
  "exchange_matches_receipt lib ob r \<longleftrightarrow> exchange_verified lib ob \<and> ox_receipt ob = r"

definition exchange_matches :: "exlib \<Rightarrow> observed_exchange \<Rightarrow> bytes \<Rightarrow> bytes \<Rightarrow> bytes \<Rightarrow> exchange_config \<Rightarrow> bool" where
  "exchange_matches lib ob site selector review config =
     (let r = ox_receipt ob in
      exchange_verified lib ob \<and> valid_config lib config \<and> xr_site r = site \<and> xr_selector r = selector \<and>
      xr_expected_review r = review \<and> xr_fresh_review r = review \<and> xr_origin r = xc_origin config \<and>
      xr_review_route r = xc_review_route config \<and> xr_action_route r = xc_action_route config)"

definition valid_bonus_decimal :: "bytes \<Rightarrow> bool" where
  "valid_bonus_decimal v \<longleftrightarrow>
     v \<noteq> [] \<and> length v \<le> 128 \<and> \<not> has_prefix v ''.'' \<and> \<not> has_suffix v ''.'' \<and>
     (let rs = runes v; after = (case dropWhile (\<lambda>r. r \<noteq> 46) rs of [] \<Rightarrow> [] | _ # t \<Rightarrow> t) in
      list_all (\<lambda>r. 48 \<le> r \<and> r \<le> 57) (takeWhile (\<lambda>r. r \<noteq> 46) rs @ after))"

definition valid_review_projection :: "offer_review \<Rightarrow> bool \<Rightarrow> bool" where
  "valid_review_projection v require_evidence \<longleftrightarrow>
     safe_text (of_site v) 128 \<and> safe_text (of_selector v) 128 \<and> safe_text (of_action_method v) 16 \<and>
     valid_route_id (of_action_route v) \<and> valid_sha256_id (of_form_shape v) \<and>
     2 \<le> length (of_columns v) \<and> length (of_columns v) \<le> 16 \<and>
     of_availability v \<in> {''available'', ''disabled'', ''unknown''} \<and>
     of_input_mode v \<in> {''none'', ''requires_user_input'', ''unsupported''} \<and>
     (of_balance v \<noteq> [] \<longrightarrow> valid_bonus_decimal (of_balance v)) \<and>
     list_all (\<lambda>c. safe_text c 4096) (of_columns v) \<and> sum_list (map length (of_columns v)) \<le> 16384 \<and>
     (require_evidence \<longrightarrow> of_evidence v \<noteq> [])"

text \<open>\<open>binary.BigEndian.PutUint64\<close> of the length, then the string.\<close>

definition review_string :: "bytes \<Rightarrow> bytes" where
  "review_string v = map (\<lambda>i. char_of (length v div 256 ^ (7 - i) mod 256)) [0..<8] @ v"

definition compute_review_id :: "exlib \<Rightarrow> offer_review \<Rightarrow> bytes option" where
  "compute_review_id lib v =
     (let copied = v\<lparr>of_review_id := [], of_balance := [], of_evidence := []\<rparr> in
      if \<not> valid_review_projection copied False then None
      else Some (sha256_prefix @ hex_encode (gl_sha256 (ex_go lib)
        (''ptctl-bonus-offer-review-v1'' @ [NUL] @
         concat (map review_string ([of_site v, of_selector v, of_availability v, of_input_mode v, of_action_method v,
           of_action_route v, of_form_shape v] @ of_columns v))))))"

definition review_basis :: "bytes list" where
  "review_basis = [''authenticated_bonus_page'', ''exact_site_defined_option'', ''bounded_form_observation'',
     ''single_bounded_no_redirect_read'', ''site_claim_only'', ''form_not_submitted'']"

record observed_review =
  ov_address :: nat
  ov_review :: offer_review
  ov_receipt :: review_receipt
  ov_authority :: bool

definition valid_observed_review :: "exlib \<Rightarrow> offer_review \<Rightarrow> review_receipt \<Rightarrow> bool" where
  "valid_observed_review lib v r =
     (let l = vr_limits r; u = vr_used r in
      vr_effect r = review_effect \<and> vr_complete r \<and> vr_stop r = [] \<and> vr_site r = of_site v \<and>
      vr_selector r = of_selector v \<and> valid_review_limits l \<and> time_ok (vr_start r) \<and> time_ok (vr_end r) \<and>
      \<not> t_instant (vr_end r) < t_instant (vr_start r) \<and>
      vu_requests u = 1 \<and> vu_retries u = 0 \<and> vu_redirects u = 0 \<and> vu_response_known u \<and>
      0 < vu_response_bytes u \<and> vu_response_bytes u \<le> vl_response_bytes l \<and>
      0 < vu_forms u \<and> vu_forms u \<le> vl_forms l \<and> 0 \<le> vu_fields u \<and> vu_fields u \<le> vl_fields l \<and>
      0 < vu_tokens u \<and> vu_tokens u \<le> vl_tokens l \<and> 0 \<le> vu_text_bytes u \<and> vu_text_bytes u \<le> vl_text_bytes l \<and>
      valid_canonical_origin lib (vr_origin r) \<and> valid_route_id (vr_route r) \<and>
      valid_review_projection v True \<and> compute_review_id lib v = Some (of_review_id v) \<and>
      of_evidence v = review_basis)"

definition review_verified :: "exlib \<Rightarrow> observed_review \<Rightarrow> bool" where
  "review_verified lib ob \<longleftrightarrow> ov_authority ob \<and> valid_observed_review lib (ov_review ob) (ov_receipt ob)"

definition review_matches_receipt :: "exlib \<Rightarrow> observed_review \<Rightarrow> review_receipt \<Rightarrow> bool" where
  "review_matches_receipt lib ob r \<longleftrightarrow> review_verified lib ob \<and> ov_receipt ob = r"

definition review_matches :: "exlib \<Rightarrow> observed_review \<Rightarrow> bytes \<Rightarrow> bytes \<Rightarrow> bytes \<Rightarrow> bytes \<Rightarrow> bool" where
  "review_matches lib ob site selector origin route \<longleftrightarrow>
     review_verified lib ob \<and> of_site (ov_review ob) = site \<and> of_selector (ov_review ob) = selector \<and>
     vr_site (ov_receipt ob) = site \<and> vr_selector (ov_receipt ob) = selector \<and>
     vr_origin (ov_receipt ob) = origin \<and> vr_route (ov_receipt ob) = route"

section \<open>Limits of the repository\<close>

record exchange_store_limits =
  el_record_bytes :: int64
  el_entries :: int64
  el_records :: int64
  el_path_bytes :: int64
  el_status_bytes :: int64

definition default_store_limits :: exchange_store_limits where
  "default_store_limits = \<lparr>el_record_bytes = 65536, el_entries = 25000, el_records = 10000, el_path_bytes = 16777216,
     el_status_bytes = 16777216\<rparr>"

definition valid_store_limits :: "exchange_store_limits \<Rightarrow> bool" where
  "valid_store_limits l \<longleftrightarrow>
     0 < el_record_bytes l \<and> el_record_bytes l \<le> 262144 \<and> 0 < el_status_bytes l \<and> el_status_bytes l \<le> 67108864 \<and>
     valid_record_limits \<lparr>rl_record_bytes = el_record_bytes l, rl_entries = el_entries l, rl_records = el_records l,
       rl_path_bytes = el_path_bytes l\<rparr>"

definition record_limits_of :: "exchange_store_limits \<Rightarrow> record_limits" where
  "record_limits_of l = default_record_limits\<lparr>rl_record_bytes := el_record_bytes l\<rparr>"

definition list_limits_of :: "exchange_store_limits \<Rightarrow> record_limits" where
  "list_limits_of l = (record_limits_of l)\<lparr>rl_entries := el_entries l, rl_records := el_records l,
     rl_path_bytes := el_path_bytes l\<rparr>"

section \<open>Validity of the sealed records\<close>

definition intent_schema :: bytes where
  "intent_schema = ''ptctl.site-bonus-exchange-intent/v1''"
definition attempt_schema :: bytes where
  "attempt_schema = ''ptctl.site-bonus-exchange-attempt/v1''"
definition outcome_schema :: bytes where
  "outcome_schema = ''ptctl.site-bonus-exchange-outcome/v1''"
definition retention_schema :: bytes where
  "retention_schema = ''ptctl.site-bonus-exchange-retention/v1''"
definition forget_schema :: bytes where
  "forget_schema = ''ptctl.site-bonus-exchange-forget/v1''"
definition retention_basis :: bytes where
  "retention_basis = ''exact_terminal_bonus_exchange_record_set''"
definition forget_basis :: bytes where
  "forget_basis = ''exact_bonus_exchange_retention_selected_for_erasure''"

lemmas schema_defs = intent_schema_def attempt_schema_def outcome_schema_def retention_schema_def forget_schema_def
  retention_basis_def forget_basis_def

definition intent_config :: "intent_record \<Rightarrow> exchange_config" where
  "intent_config i = \<lparr>xc_origin = in_origin i, xc_review_route = in_review_route i, xc_action_route = in_action_route i\<rparr>"

definition valid_intent :: "exlib \<Rightarrow> intent_record \<Rightarrow> bool" where
  "valid_intent lib i \<longleftrightarrow>
     in_schema i = intent_schema \<and> valid_sha256_id (in_operation i) \<and> safe_text (in_site i) 128 \<and>
     safe_text (in_selector i) 128 \<and> valid_sha256_id (in_review i) \<and> valid_config lib (intent_config i) \<and>
     in_input_mode i = ''none'' \<and> time_ok (in_created i) \<and> valid_review_limits (in_review_limits i) \<and>
     valid_exchange_limits (in_exchange_limits i)"

definition valid_attempt :: "exlib \<Rightarrow> attempt_record \<Rightarrow> bool" where
  "valid_attempt lib a \<longleftrightarrow>
     at_schema a = attempt_schema \<and> valid_sha256_id (at_operation a) \<and> valid_record_id (at_intent a) \<and>
     safe_text (at_site a) 128 \<and> safe_text (at_selector a) 128 \<and> valid_sha256_id (at_review a) \<and>
     valid_config lib \<lparr>xc_origin = at_origin a, xc_review_route = at_review_route a, xc_action_route = at_action_route a\<rparr>"

definition attempt_matches_intent :: "exlib \<Rightarrow> attempt_record \<Rightarrow> intent_record \<Rightarrow> record_ref \<Rightarrow> bool" where
  "attempt_matches_intent lib a i ref \<longleftrightarrow>
     valid_attempt lib a \<and> valid_intent lib i \<and> rr_kind ref = intent_kind \<and> at_intent a = rr_id ref \<and>
     at_operation a = in_operation i \<and> at_site a = in_site i \<and> at_selector a = in_selector i \<and>
     at_review a = in_review i \<and> at_origin a = in_origin i \<and> at_review_route a = in_review_route i \<and>
     at_action_route a = in_action_route i"

definition valid_outcome :: "exlib \<Rightarrow> outcome_record \<Rightarrow> bool" where
  "valid_outcome lib oc \<longleftrightarrow>
     oc_schema oc = outcome_schema \<and> valid_sha256_id (oc_operation oc) \<and> valid_record_id (oc_intent oc) \<and>
     valid_record_id (oc_attempt oc) \<and> time_ok (oc_recorded oc) \<and> valid_exchange_receipt lib (oc_receipt oc)"

definition outcome_matches :: "exlib \<Rightarrow> outcome_record \<Rightarrow> intent_record \<Rightarrow> record_ref \<Rightarrow> attempt_record \<Rightarrow>
    record_ref \<Rightarrow> bool" where
  "outcome_matches lib oc i iref a aref =
     (let r = oc_receipt oc in
      valid_outcome lib oc \<and> attempt_matches_intent lib a i iref \<and> rr_kind aref = attempt_kind \<and>
      oc_operation oc = in_operation i \<and> oc_intent oc = rr_id iref \<and> oc_attempt oc = rr_id aref \<and>
      xr_site r = in_site i \<and> xr_selector r = in_selector i \<and> xr_expected_review r = in_review i \<and>
      xr_fresh_review r = in_review i \<and> xr_origin r = in_origin i \<and> xr_review_route r = in_review_route i \<and>
      xr_action_route r = in_action_route i \<and> xr_limits r = in_exchange_limits i)"

text \<open>\<open>exactRecordRef\<close>: the reference is the one of the canonical encoding of the value.\<close>

definition exact_record_ref :: "exlib \<Rightarrow> 'v codec \<Rightarrow> bytes \<Rightarrow> 'v \<Rightarrow> record_ref \<Rightarrow> bool" where
  "exact_record_ref lib codec kind value ref =
     (if rr_kind ref \<noteq> kind then False
      else case cd_marshal codec value of
          None \<Rightarrow> False
        | Some raw \<Rightarrow> compute_record_ref (ex_go lib) kind (raw @ [CHR 0x0A]) = Some ref)"

definition state_from_outcome :: "bytes \<Rightarrow> bytes" where
  "state_from_outcome oc =
     (if oc = confirmed then ''confirmed'' else if oc = rejected then ''rejected''
      else if oc = not_submitted then ''not_submitted'' else ''unknown'')"

definition terminal_state :: "bytes \<Rightarrow> bool" where
  "terminal_state s \<longleftrightarrow> s \<in> {''confirmed'', ''rejected'', ''unknown'', ''not_submitted''}"

definition valid_retention :: "exlib \<Rightarrow> retention_record \<Rightarrow> bool" where
  "valid_retention lib r \<longleftrightarrow>
     rt_schema r = retention_schema \<and> rt_basis r = retention_basis \<and> safe_text (rt_store r) 128 \<and>
     valid_intent lib (rt_intent r) \<and> valid_attempt lib (rt_attempt r) \<and> valid_outcome lib (rt_outcome r) \<and>
     rt_operation r = in_operation (rt_intent r) \<and>
     attempt_matches_intent lib (rt_attempt r) (rt_intent r) (rt_intent_ref r) \<and>
     outcome_matches lib (rt_outcome r) (rt_intent r) (rt_intent_ref r) (rt_attempt r) (rt_attempt_ref r) \<and>
     rt_terminal r = state_from_outcome (xr_outcome (oc_receipt (rt_outcome r))) \<and> terminal_state (rt_terminal r) \<and>
     exact_record_ref lib (ex_intent lib) intent_kind (rt_intent r) (rt_intent_ref r) \<and>
     exact_record_ref lib (ex_attempt lib) attempt_kind (rt_attempt r) (rt_attempt_ref r) \<and>
     exact_record_ref lib (ex_outcome lib) outcome_kind (rt_outcome r) (rt_outcome_ref r)"

definition valid_forget :: "exlib \<Rightarrow> forget_record \<Rightarrow> bool" where
  "valid_forget lib f \<longleftrightarrow>
     fg_schema f = forget_schema \<and> fg_basis f = forget_basis \<and> safe_text (fg_store f) 128 \<and>
     valid_retention lib (fg_retention f) \<and> fg_store f = rt_store (fg_retention f) \<and>
     fg_operation f = rt_operation (fg_retention f) \<and>
     exact_record_ref lib (ex_retention lib) retention_kind (fg_retention f) (fg_retention_ref f)"

section \<open>Errors\<close>

datatype exchange_error =
    InvalidExchange
  | CorruptExchange
  | AttemptAlreadyReserved
  | StatusIncomplete
  | ExchangeNotFound
  | RetentionPolicy
  | StoreError store_error
  | ExchangeFailed

section \<open>Canonical encoding\<close>

definition encode_record :: "'v codec \<Rightarrow> ('v \<Rightarrow> bool) \<Rightarrow> exchange_store_limits \<Rightarrow> 'v \<Rightarrow> exchange_error + bytes" where
  "encode_record codec valid limits v =
     (if \<not> valid_store_limits limits then Inl ExchangeFailed
      else if \<not> valid v then Inl InvalidExchange
      else case cd_marshal codec v of
          None \<Rightarrow> Inl InvalidExchange
        | Some raw \<Rightarrow>
            if int (length (raw @ [CHR 0x0A])) > el_record_bytes limits then Inl InvalidExchange
            else Inr (raw @ [CHR 0x0A]))"

text \<open>
  \<open>rejectDuplicateKeys\<close> on the tokens that are left: a value, the members of an object whose keys so far are given,
  or the elements of an array. \<open>None\<close> would be a scan that does not return; \<open>Some None\<close> is its error.
\<close>

datatype scan_mode = ScanValue | ScanMembers "bytes list" | ScanElements

text \<open>\<open>Decoder.More\<close>\<close>

definition more_tokens :: "json_token list \<Rightarrow> bool" where
  "more_tokens ts =
     (case ts of [] \<Rightarrow> False | Delim c # _ \<Rightarrow> c \<noteq> CHR ''}'' \<and> c \<noteq> CHR '']'' | _ \<Rightarrow> True)"

partial_function (option) reject_duplicate_keys :: "scan_mode \<Rightarrow> json_token list \<Rightarrow> json_token list option option" where
  "reject_duplicate_keys mode ts =
     (case mode of
        ScanValue \<Rightarrow>
          (case ts of
             [] \<Rightarrow> Some None
           | Delim c # rest \<Rightarrow>
               if c = CHR ''{'' then reject_duplicate_keys (ScanMembers []) rest
               else if c = CHR ''['' then reject_duplicate_keys ScanElements rest
               else Some None
           | _ # rest \<Rightarrow> Some (Some rest))
      | ScanMembers seen \<Rightarrow>
          if more_tokens ts then
            (case ts of
               JString key # rest \<Rightarrow>
                 if key \<in> set seen then Some None
                 else Option.bind (reject_duplicate_keys ScanValue rest) (\<lambda>r.
                   case r of None \<Rightarrow> Some None | Some rest \<Rightarrow> reject_duplicate_keys (ScanMembers (key # seen)) rest)
             | _ \<Rightarrow> Some None)
          else (case ts of [] \<Rightarrow> Some None | _ # rest \<Rightarrow> Some (Some rest))
      | ScanElements \<Rightarrow>
          if more_tokens ts then
            Option.bind (reject_duplicate_keys ScanValue ts) (\<lambda>r.
              case r of None \<Rightarrow> Some None | Some rest \<Rightarrow> reject_duplicate_keys ScanElements rest)
          else (case ts of [] \<Rightarrow> Some None | _ # rest \<Rightarrow> Some (Some rest)))"

text \<open>\<open>decodeRecord\<close> on what \<open>io.ReadAll\<close> read and the error it stopped with.\<close>

definition decode_record :: "exlib \<Rightarrow> 'v codec \<Rightarrow> ('v \<Rightarrow> bool) \<Rightarrow> exchange_store_limits \<Rightarrow> store_error option \<Rightarrow> bytes \<Rightarrow>
    exchange_error + 'v" where
  "decode_record lib codec valid limits read_err raw =
     (if \<not> valid_store_limits limits then Inl ExchangeFailed
      else case read_err of
          Some e \<Rightarrow> Inl (StoreError e)
        | None \<Rightarrow>
            if int (length raw) > el_record_bytes limits then Inl CorruptExchange
            else if raw = [] \<or> last raw \<noteq> CHR 0x0A \<or> count_list raw (CHR 0x0A) \<noteq> 1 \<or> \<not> ex_json_valid lib raw
            then Inl CorruptExchange
            else if reject_duplicate_keys ScanValue (ex_tokens lib raw) \<noteq> Some (Some []) then Inl CorruptExchange
            else case cd_decode codec raw of
                None \<Rightarrow> Inl CorruptExchange
              | Some v \<Rightarrow>
                  if \<not> valid v then Inl CorruptExchange
                  else case cd_marshal codec v of
                      None \<Rightarrow> Inl CorruptExchange
                    | Some canonical \<Rightarrow> if raw \<noteq> canonical @ [CHR 0x0A] then Inl CorruptExchange else Inr v)"

definition encode_intent :: "exlib \<Rightarrow> exchange_store_limits \<Rightarrow> intent_record \<Rightarrow> exchange_error + bytes" where
  "encode_intent lib = encode_record (ex_intent lib) (valid_intent lib)"
definition encode_attempt :: "exlib \<Rightarrow> exchange_store_limits \<Rightarrow> attempt_record \<Rightarrow> exchange_error + bytes" where
  "encode_attempt lib = encode_record (ex_attempt lib) (valid_attempt lib)"
definition encode_outcome :: "exlib \<Rightarrow> exchange_store_limits \<Rightarrow> outcome_record \<Rightarrow> exchange_error + bytes" where
  "encode_outcome lib = encode_record (ex_outcome lib) (valid_outcome lib)"
definition encode_retention :: "exlib \<Rightarrow> exchange_store_limits \<Rightarrow> retention_record \<Rightarrow> exchange_error + bytes" where
  "encode_retention lib = encode_record (ex_retention lib) (valid_retention lib)"
definition encode_forget :: "exlib \<Rightarrow> exchange_store_limits \<Rightarrow> forget_record \<Rightarrow> exchange_error + bytes" where
  "encode_forget lib = encode_record (ex_forget lib) (valid_forget lib)"

definition decode_intent :: "exlib \<Rightarrow> exchange_store_limits \<Rightarrow> store_error option \<Rightarrow> bytes \<Rightarrow> exchange_error + intent_record" where
  "decode_intent lib = decode_record lib (ex_intent lib) (valid_intent lib)"
definition decode_attempt :: "exlib \<Rightarrow> exchange_store_limits \<Rightarrow> store_error option \<Rightarrow> bytes \<Rightarrow> exchange_error + attempt_record" where
  "decode_attempt lib = decode_record lib (ex_attempt lib) (valid_attempt lib)"
definition decode_outcome :: "exlib \<Rightarrow> exchange_store_limits \<Rightarrow> store_error option \<Rightarrow> bytes \<Rightarrow> exchange_error + outcome_record" where
  "decode_outcome lib = decode_record lib (ex_outcome lib) (valid_outcome lib)"
definition decode_retention :: "exlib \<Rightarrow> exchange_store_limits \<Rightarrow> store_error option \<Rightarrow> bytes \<Rightarrow> exchange_error + retention_record" where
  "decode_retention lib = decode_record lib (ex_retention lib) (valid_retention lib)"
definition decode_forget :: "exlib \<Rightarrow> exchange_store_limits \<Rightarrow> store_error option \<Rightarrow> bytes \<Rightarrow> exchange_error + forget_record" where
  "decode_forget lib = decode_record lib (ex_forget lib) (valid_forget lib)"

end
