(* ===== verification/Exchange.thy ===== *)
theory Exchange
  imports ExchangeTypes
begin

text \<open>
  \<open>internal/bonusexchange/repository.go\<close>: preparing an intent, loading it, reserving the attempt, storing the outcome,
  the status of an operation and the list of operations; the retention scans they use are from \<open>retention.go\<close>. Every
  operation is a program of store calls. An object that only a process can hold (the authorities behind
  \<open>VerifiedIntent\<close> and \<open>ReservedAttempt\<close>) carries the address it was allocated at. Test hooks are nil and left out;
  so are fields of receipts that repeat the arguments.
\<close>

section \<open>Calls beyond the store\<close>

text \<open>
  \<open>FreshReview\<close> and \<open>SubmitExchange\<close> are \<open>ReadFreshBonusReview\<close> and \<open>SubmitFreshBonusExchange\<close> of the site session.
  The reference in \<open>SubmitExchange\<close> is not an argument of the code: it records in whose name the request is sent.
\<close>

datatype site_call =
    Entropy
  | Allocate
  | OpenSite
  | FreshReview bytes review_limits exchange_limits
  | SubmitExchange record_ref observed_review bytes exchange_limits
  | RequestsMade
  | CloseSite

datatype site_reply =
    EntropyReply "bytes option"
  | Address nat
  | SiteFlag bool
  | ReviewReply "observed_review option" review_receipt bool
  | ExchangeReply "observed_exchange option" exchange_receipt bool
  | Count int

type_synonym 'a ex_prog = "(site_call call, site_reply reply, 'a) prog"

definition entropy :: "bytes option ex_prog" where
  "entropy = perform (Other Entropy) (\<lambda>r. case r of OtherReply (EntropyReply e) \<Rightarrow> e | _ \<Rightarrow> None)"

definition allocate :: "nat ex_prog" where
  "allocate = perform (Other Allocate) (\<lambda>r. case r of OtherReply (Address a) \<Rightarrow> a | _ \<Rightarrow> 0)"

definition open_site :: "bool ex_prog" where
  "open_site = perform (Other OpenSite) (\<lambda>r. case r of OtherReply (SiteFlag b) \<Rightarrow> b | _ \<Rightarrow> False)"

definition close_site :: "bool ex_prog" where
  "close_site = perform (Other CloseSite) (\<lambda>r. case r of OtherReply (SiteFlag b) \<Rightarrow> b | _ \<Rightarrow> False)"

definition requests_made :: "int ex_prog" where
  "requests_made = perform (Other RequestsMade) (\<lambda>r. case r of OtherReply (Count n) \<Rightarrow> n | _ \<Rightarrow> 0)"

definition fresh_review :: "bytes \<Rightarrow> review_limits \<Rightarrow> exchange_limits \<Rightarrow>
    (observed_review \<times> review_receipt) option ex_prog" where
  "fresh_review selector limits xlimits = perform (Other (FreshReview selector limits xlimits)) (\<lambda>r. case r of
     OtherReply (ReviewReply (Some ob) receipt True) \<Rightarrow> Some (ob, receipt) | _ \<Rightarrow> None)"

text \<open>The observation, its receipt, and whether the call returned without an error.\<close>

definition submit_exchange :: "record_ref \<Rightarrow> observed_review \<Rightarrow> bytes \<Rightarrow> exchange_limits \<Rightarrow>
    ((observed_exchange \<times> exchange_receipt) option \<times> bool) ex_prog" where
  "submit_exchange ref ob review xlimits = perform (Other (SubmitExchange ref ob review xlimits)) (\<lambda>r. case r of
     OtherReply (ExchangeReply (Some x) receipt ok) \<Rightarrow> (Some (x, receipt), ok) | _ \<Rightarrow> (None, False))"

lemmas site_call_defs = entropy_def allocate_def open_site_def close_site_def requests_made_def fresh_review_def
  submit_exchange_def

section \<open>Repository and session\<close>

record repository =
  rp_store_id :: bytes
  rp_collected :: bool
  rp_limits :: exchange_store_limits

definition new_repository :: "bytes \<Rightarrow> bool \<Rightarrow> exchange_store_limits \<Rightarrow> repository option" where
  "new_repository store_id collected limits =
     (if store_id = [] \<or> \<not> valid_store_limits limits then None
      else Some \<lparr>rp_store_id = store_id, rp_collected = collected, rp_limits = limits\<rparr>)"

record session =
  sn_address :: nat
  sn_limits :: exchange_store_limits
  sn_bound :: bound_session
  sn_closed :: bool

abbreviation store_of :: "session \<Rightarrow> bytes" where
  "store_of s \<equiv> bs_store_id (sn_bound s)"

text \<open>\<open>OpenSession\<close>: the context, then a session whose root was checked.\<close>

definition open_session :: "repository \<Rightarrow> (exchange_error + session) ex_prog" where
  "open_session rp =
     bind ctx_err (\<lambda>cancelled.
       if cancelled then Return (Inl (StoreError CtxCancelled))
       else bind check_root (\<lambda>ok.
         if \<not> ok then Return (Inl (StoreError StoreFailed))
         else bind allocate (\<lambda>a.
           Return (Inr \<lparr>sn_address = a, sn_limits = rp_limits rp,
             sn_bound = \<lparr>bs_store_id = rp_store_id rp, bs_open = True\<rparr>, sn_closed = False\<rparr>))))"

definition close_session :: "session \<Rightarrow> session" where
  "close_session s = (if sn_closed s then s else s\<lparr>sn_closed := True, sn_bound := bound_close (sn_bound s)\<rparr>)"

definition session_ready :: "session \<Rightarrow> exchange_error option ex_prog" where
  "session_ready s =
     bind ctx_err (\<lambda>cancelled.
       Return (if cancelled then Some (StoreError CtxCancelled)
               else if sn_closed s then Some ExchangeFailed else None))"

definition session_check :: "session \<Rightarrow> exchange_error option ex_prog" where
  "session_check s =
     bind (session_ready s) (\<lambda>err.
       case err of
         Some e \<Rightarrow> Return (Some e)
       | None \<Rightarrow> bind (bound_check (sn_bound s)) (\<lambda>err. Return (map_option StoreError err)))"

text \<open>The store operations of a session, with the limits of its repository.\<close>

definition session_load :: "exlib \<Rightarrow> session \<Rightarrow> bytes \<Rightarrow> bytes \<Rightarrow>
    (store_error option \<Rightarrow> bytes \<Rightarrow> exchange_error + 'v) \<Rightarrow> (exchange_error, 'v) loaded ex_prog" where
  "session_load lib s kind rid consume =
     bound_load_record (ex_go lib) (sn_bound s) kind rid (record_limits_of (sn_limits s)) consume"

definition session_import :: "exlib \<Rightarrow> session \<Rightarrow> bytes \<Rightarrow> bytes \<Rightarrow>
    (import_receipt \<times> (store_error + record_ref)) ex_prog" where
  "session_import lib s kind raw =
     bound_import_record (ex_go lib) (sn_bound s) kind raw (record_limits_of (sn_limits s))"

definition session_verify_set :: "exlib \<Rightarrow> session \<Rightarrow> record_ref list \<Rightarrow> (set_receipt \<times> store_error option) ex_prog" where
  "session_verify_set lib s refs =
     bound_verify_record_set (ex_go lib) (sn_bound s) refs (record_limits_of (sn_limits s))"

definition session_list :: "session \<Rightarrow> bytes \<Rightarrow> (list_result \<times> store_error option) ex_prog" where
  "session_list s kind = bound_list_records (sn_bound s) kind (list_limits_of (sn_limits s))"

text \<open>The callback failed, or the record or its reading did: all are corruption to the callers that use this.\<close>

definition load_error :: "(exchange_error, 'v) loaded \<Rightarrow> store_error \<Rightarrow> exchange_error" where
  "load_error ld e =
     (if (case ld_consumed ld of Some (Inl _) \<Rightarrow> True | _ \<Rightarrow> False) \<or> e = CorruptRecord \<or> e = ConsumerIncomplete
      then CorruptExchange else StoreError e)"

definition decoded_value :: "(exchange_error, 'v) loaded \<Rightarrow> 'v option" where
  "decoded_value ld = (case ld_consumed ld of Some (Inr v) \<Rightarrow> Some v | _ \<Rightarrow> None)"

definition publication_consistent :: "record_ref \<Rightarrow> record_ref \<Rightarrow> import_receipt \<Rightarrow> bool" where
  "publication_consistent want ref r \<longleftrightarrow> ref = want \<and> ir_writes r \<le> 1 \<and> ir_already r \<noteq> (ir_writes r = 1)"

section \<open>Prepare\<close>

record prepare_input =
  pi_site :: bytes
  pi_selector :: bytes
  pi_review :: bytes
  pi_config :: exchange_config
  pi_review_limits :: review_limits
  pi_exchange_limits :: exchange_limits

definition valid_prepare_input :: "exlib \<Rightarrow> prepare_input \<Rightarrow> bool" where
  "valid_prepare_input lib i \<longleftrightarrow>
     safe_text (pi_site i) 128 \<and> safe_text (pi_selector i) 128 \<and> valid_sha256_id (pi_review i) \<and>
     valid_config lib (pi_config i) \<and> valid_review_limits (pi_review_limits i) \<and>
     valid_exchange_limits (pi_exchange_limits i)"

definition operation_id_of :: "exlib \<Rightarrow> bytes \<Rightarrow> bytes" where
  "operation_id_of lib random =
     sha256_prefix @ hex_encode (gl_sha256 (ex_go lib) (''ptctl-site-bonus-exchange-operation-v1'' @ [NUL] @ random))"

definition new_intent :: "prepare_input \<Rightarrow> bytes \<Rightarrow> int \<Rightarrow> intent_record" where
  "new_intent i operation now =
     \<lparr>in_schema = intent_schema, in_operation = operation, in_site = pi_site i, in_selector = pi_selector i,
      in_review = pi_review i, in_origin = xc_origin (pi_config i), in_review_route = xc_review_route (pi_config i),
      in_action_route = xc_action_route (pi_config i), in_input_mode = ''none'',
      in_created = \<lparr>t_instant = now, t_utc = True\<rparr>, in_review_limits = pi_review_limits i,
      in_exchange_limits = pi_exchange_limits i\<rparr>"

definition prepare :: "exlib \<Rightarrow> repository \<Rightarrow> prepare_input \<Rightarrow>
    (import_receipt \<times> (exchange_error + intent_record \<times> record_ref)) ex_prog" where
  "prepare lib rp i =
     (if \<not> valid_prepare_input lib i then Return (no_import, Inl InvalidExchange)
      else bind ctx_err (\<lambda>cancelled.
        if cancelled then Return (no_import, Inl (StoreError CtxCancelled))
        else bind entropy (\<lambda>random.
          case random of
            None \<Rightarrow> Return (no_import, Inl ExchangeFailed)
          | Some random \<Rightarrow>
              bind read_clock (\<lambda>now.
                let record_value = new_intent i (operation_id_of lib random) now in
                case encode_intent lib (rp_limits rp) record_value of
                  Inl e \<Rightarrow> Return (no_import, Inl e)
                | Inr raw \<Rightarrow>
                    bind (import_record (ex_go lib) (rp_collected rp) intent_kind raw (record_limits_of (rp_limits rp)))
                      (\<lambda>(receipt, imported).
                        case imported of
                          Inl e \<Rightarrow> Return (receipt, Inl (StoreError e))
                        | Inr ref \<Rightarrow>
                            if compute_record_ref (ex_go lib) intent_kind raw \<noteq> Some ref \<or> ir_already receipt \<or>
                               ir_writes receipt \<noteq> 1
                            then Return (receipt, Inl ExchangeFailed)
                            else Return (receipt, Inr (record_value, ref)))))))"

section \<open>Loading an intent\<close>

record intent_authority =
  ia_address :: nat
  ia_session :: nat
  ia_store :: bytes
  ia_intent :: bytes
  ia_operation :: bytes

record verified_intent =
  vi_record :: intent_record
  vi_ref :: record_ref
  vi_store :: bytes
  vi_authority :: "intent_authority option"

definition intent_verified :: "exlib \<Rightarrow> verified_intent \<Rightarrow> bool" where
  "intent_verified lib v =
     (case vi_authority v of
        None \<Rightarrow> False
      | Some a \<Rightarrow>
          valid_intent lib (vi_record v) \<and> vi_store v = ia_store a \<and> rr_id (vi_ref v) = ia_intent a \<and>
          in_operation (vi_record v) = ia_operation a \<and> rr_kind (vi_ref v) = intent_kind)"

definition session_is_open :: "session \<Rightarrow> bool" where
  "session_is_open s \<longleftrightarrow> \<not> sn_closed s"

definition intent_valid_for :: "exlib \<Rightarrow> verified_intent \<Rightarrow> session \<Rightarrow> bool" where
  "intent_valid_for lib v s \<longleftrightarrow>
     intent_verified lib v \<and> map_option ia_session (vi_authority v) = Some (sn_address s) \<and> session_is_open s"

definition load_intent :: "exlib \<Rightarrow> session \<Rightarrow> bytes \<Rightarrow> (exchange_error + verified_intent) ex_prog" where
  "load_intent lib s rid =
     bind (session_ready s) (\<lambda>err.
       case err of
         Some e \<Rightarrow> Return (Inl e)
       | None \<Rightarrow>
           if \<not> valid_record_id rid then Return (Inl ExchangeFailed)
           else bind (session_load lib s intent_kind rid (decode_intent lib (sn_limits s))) (\<lambda>ld.
             case ld_result ld of
               Inl e \<Rightarrow> Return (Inl (load_error ld e))
             | Inr ref \<Rightarrow>
                 (case decoded_value ld of
                    None \<Rightarrow> Return (Inl CorruptExchange)
                  | Some v \<Rightarrow>
                      if rr_id ref \<noteq> rid \<or> rr_kind ref \<noteq> intent_kind \<or> \<not> valid_intent lib v
                      then Return (Inl CorruptExchange)
                      else bind allocate (\<lambda>a.
                        let verified = \<lparr>vi_record = v, vi_ref = ref, vi_store = store_of s,
                              vi_authority = Some \<lparr>ia_address = a, ia_session = sn_address s, ia_store = store_of s,
                                ia_intent = rr_id ref, ia_operation = in_operation v\<rparr>\<rparr>
                        in Return (if \<not> intent_valid_for lib verified s then Inl CorruptExchange else Inr verified)))))"

section \<open>Presence of a record\<close>

text \<open>\<open>recordPresent\<close> reads and discards the whole record.\<close>

definition record_present :: "exlib \<Rightarrow> session \<Rightarrow> record_ref \<Rightarrow> (exchange_error + bool) ex_prog" where
  "record_present lib s r =
     bind (session_load lib s (rr_kind r) (rr_id r)
         (\<lambda>err _. case err of Some e \<Rightarrow> Inl (StoreError e) | None \<Rightarrow> Inr ())) (\<lambda>ld.
       Return (case ld_result ld of
           Inl e \<Rightarrow> if e = RecordNotFound then Inr False else Inl (StoreError e)
         | Inr ref \<Rightarrow> if ref \<noteq> r then Inl CorruptExchange else Inr True))"

section \<open>Scanning outcomes\<close>

record scan_usage =
  su_entries :: int64
  su_records :: nat
  su_bytes :: int64

definition no_scan :: scan_usage where
  "no_scan = \<lparr>su_entries = 0, su_records = 0, su_bytes = 0\<rparr>"

type_synonym found_outcome = "(outcome_record \<times> record_ref) option"

fun scan_candidates :: "exlib \<Rightarrow> session \<Rightarrow> intent_record \<Rightarrow> record_ref \<Rightarrow> attempt_record \<Rightarrow> record_ref \<Rightarrow>
    record_ref list \<Rightarrow> scan_usage \<Rightarrow> found_outcome \<Rightarrow>
    (scan_usage \<times> bytes \<times> (exchange_error + found_outcome)) ex_prog" where
  "scan_candidates lib s i iref a aref [] usage found = Return (usage, [], Inr found)"
| "scan_candidates lib s i iref a aref (candidate # rest) usage found =
     (if rr_size candidate < 0 \<or> rr_size candidate > el_status_bytes (sn_limits s) - su_bytes usage
      then Return (usage, ''outcome_byte_limit'', Inl StatusIncomplete)
      else bind (session_load lib s (rr_kind candidate) (rr_id candidate) (decode_outcome lib (sn_limits s))) (\<lambda>ld.
        let usage = usage\<lparr>su_records := su_records usage + 1, su_bytes := su_bytes usage + ld_bytes_read ld\<rparr> in
        case ld_result ld of
          Inl e \<Rightarrow> Return (usage, [], Inl (if e = CtxCancelled then StoreError e else load_error ld e))
        | Inr _ \<Rightarrow>
            (case decoded_value ld of
               None \<Rightarrow> Return (usage, [], Inl CorruptExchange)
             | Some oc \<Rightarrow>
                 if oc_operation oc \<noteq> in_operation i then scan_candidates lib s i iref a aref rest usage found
                 else if \<not> outcome_matches lib oc i iref a aref then Return (usage, [], Inl CorruptExchange)
                 else if found \<noteq> None then Return (usage, [], Inl CorruptExchange)
                 else scan_candidates lib s i iref a aref rest usage (Some (oc, candidate)))))"

definition scan_outcomes :: "exlib \<Rightarrow> session \<Rightarrow> intent_record \<Rightarrow> record_ref \<Rightarrow> attempt_record \<Rightarrow> record_ref \<Rightarrow>
    (scan_usage \<times> bytes \<times> (exchange_error + found_outcome)) ex_prog" where
  "scan_outcomes lib s i iref a aref =
     bind (session_list s outcome_kind) (\<lambda>(listed, err).
       let usage = no_scan\<lparr>su_entries := lr_entries listed\<rparr> in
       case err of
         Some e \<Rightarrow> Return (usage, [], Inl (StoreError e))
       | None \<Rightarrow>
           if \<not> lr_complete listed
           then Return (usage, ''outcome_inventory_'' @ lr_stop listed, Inl StatusIncomplete)
           else scan_candidates lib s i iref a aref (lr_records listed) usage None)"

section \<open>Reserving the attempt\<close>

definition attempt_from_intent :: "intent_record \<Rightarrow> record_ref \<Rightarrow> attempt_record" where
  "attempt_from_intent i ref =
     \<lparr>at_schema = attempt_schema, at_operation = in_operation i, at_intent = rr_id ref, at_site = in_site i,
      at_selector = in_selector i, at_review = in_review i, at_origin = in_origin i,
      at_review_route = in_review_route i, at_action_route = in_action_route i\<rparr>"

definition fresh_review_matches_intent :: "exlib \<Rightarrow> intent_record \<Rightarrow> observed_review option \<Rightarrow> review_receipt \<Rightarrow> bool" where
  "fresh_review_matches_intent lib i observed r =
     (case observed of
        None \<Rightarrow> False
      | Some ob \<Rightarrow>
          review_matches_receipt lib ob r \<and>
          review_matches lib ob (in_site i) (in_selector i) (in_origin i) (in_review_route i) \<and>
          vr_limits r = in_review_limits i \<and> of_review_id (ov_review ob) = in_review i \<and>
          of_availability (ov_review ob) = ''available'' \<and> of_input_mode (ov_review ob) = ''none'' \<and>
          of_action_method (ov_review ob) = ''post'' \<and> of_action_route (ov_review ob) = in_action_route i)"

record reserved_attempt =
  ra_record :: attempt_record
  ra_ref :: record_ref
  ra_store :: bytes
  ra_session :: nat
  ra_intent :: nat
  ra_authority_store :: bytes
  ra_attempt_id :: bytes
  ra_outcome :: "(nat \<times> exchange_receipt) option"

definition reserved_verified :: "exlib \<Rightarrow> reserved_attempt \<Rightarrow> bool" where
  "reserved_verified lib r \<longleftrightarrow>
     valid_attempt lib (ra_record r) \<and> rr_kind (ra_ref r) = attempt_kind \<and> rr_id (ra_ref r) = ra_attempt_id r \<and>
     ra_store r = ra_authority_store r"

definition reserved_valid_for :: "exlib \<Rightarrow> reserved_attempt \<Rightarrow> session \<Rightarrow> verified_intent \<Rightarrow> bool" where
  "reserved_valid_for lib r s v \<longleftrightarrow>
     reserved_verified lib r \<and> intent_valid_for lib v s \<and> ra_session r = sn_address s \<and>
     Some (ra_intent r) = map_option ia_address (vi_authority v) \<and>
     attempt_matches_intent lib (ra_record r) (vi_record v) (vi_ref v) \<and> session_is_open s"

record reserve_receipt =
  rs_writes :: nat
  rs_already :: bool
  rs_acquired :: bool

definition no_reserve :: reserve_receipt where
  "no_reserve = \<lparr>rs_writes = 0, rs_already = False, rs_acquired = False\<rparr>"

text \<open>The checks after the marker was published by this call.\<close>

definition confirm_reservation :: "exlib \<Rightarrow> session \<Rightarrow> verified_intent \<Rightarrow> attempt_record \<Rightarrow> record_ref \<Rightarrow>
    reserve_receipt \<Rightarrow> (reserve_receipt \<times> (exchange_error + reserved_attempt)) ex_prog" where
  "confirm_reservation lib s v a ref receipt =
     bind (scan_outcomes lib s (vi_record v) (vi_ref v) a ref) (\<lambda>(_, _, scanned).
       case scanned of
         Inl e \<Rightarrow> Return (receipt, Inl e)
       | Inr (Some _) \<Rightarrow> Return (receipt, Inl CorruptExchange)
       | Inr None \<Rightarrow>
           bind (session_verify_set lib s [vi_ref v, ref]) (\<lambda>(set, err).
             if err \<noteq> None \<or> \<not> sr_complete set \<or> sr_verified set \<noteq> 2
             then Return (receipt, Inl (if err = Some CtxCancelled then StoreError CtxCancelled else CorruptExchange))
             else bind allocate (\<lambda>_.
               let reserved = \<lparr>ra_record = a, ra_ref = ref, ra_store = store_of s, ra_session = sn_address s,
                     ra_intent = (case vi_authority v of Some i \<Rightarrow> ia_address i | None \<Rightarrow> 0),
                     ra_authority_store = store_of s, ra_attempt_id = rr_id ref, ra_outcome = None\<rparr>
               in Return (receipt\<lparr>rs_acquired := True\<rparr>,
                    if \<not> reserved_valid_for lib reserved s v then Inl CorruptExchange else Inr reserved))))"

definition reserve_attempt :: "exlib \<Rightarrow> session \<Rightarrow> verified_intent \<Rightarrow> observed_review option \<Rightarrow> review_receipt \<Rightarrow>
    (reserve_receipt \<times> (exchange_error + reserved_attempt)) ex_prog" where
  "reserve_attempt lib s v observed review =
     bind (session_ready s) (\<lambda>err.
       case err of
         Some e \<Rightarrow> Return (no_reserve, Inl e)
       | None \<Rightarrow>
           if \<not> intent_valid_for lib v s \<or> \<not> fresh_review_matches_intent lib (vi_record v) observed review
           then Return (no_reserve, Inl InvalidExchange)
           else bind (record_present lib s (vi_ref v)) (\<lambda>present.
             case present of
               Inl e \<Rightarrow> Return (no_reserve, Inl e)
             | Inr False \<Rightarrow> Return (no_reserve, Inl RetentionPolicy)
             | Inr True \<Rightarrow>
                 let a = attempt_from_intent (vi_record v) (vi_ref v) in
                 case encode_attempt lib (sn_limits s) a of
                   Inl e \<Rightarrow> Return (no_reserve, Inl e)
                 | Inr raw \<Rightarrow>
                     (case compute_record_ref (ex_go lib) attempt_kind raw of
                        None \<Rightarrow> Return (no_reserve, Inl ExchangeFailed)
                      | Some want \<Rightarrow>
                          bind (session_import lib s attempt_kind raw) (\<lambda>(imported, result).
                            let receipt = no_reserve\<lparr>rs_writes := ir_writes imported, rs_already := ir_already imported\<rparr> in
                            case result of
                              Inl e \<Rightarrow> Return (receipt, Inl (StoreError e))
                            | Inr ref \<Rightarrow>
                                if \<not> publication_consistent want ref imported then Return (receipt, Inl CorruptExchange)
                                else if ir_already imported then Return (receipt, Inl AttemptAlreadyReserved)
                                else if ir_writes imported \<noteq> 1 then Return (receipt, Inl CorruptExchange)
                                else confirm_reservation lib s v a ref receipt))))"

section \<open>Storing the outcome\<close>

record outcome_receipt =
  or_writes :: nat
  or_already :: bool
  or_durable :: bool

definition no_outcome :: outcome_receipt where
  "no_outcome = \<lparr>or_writes = 0, or_already = False, or_durable = False\<rparr>"

text \<open>An attempt is bound to the first outcome it is given.\<close>

definition bind_outcome :: "exlib \<Rightarrow> reserved_attempt \<Rightarrow> observed_exchange \<Rightarrow> exchange_receipt \<Rightarrow> reserved_attempt option" where
  "bind_outcome lib r ob receipt =
     (if \<not> exchange_matches_receipt lib ob receipt then None
      else case ra_outcome r of
          None \<Rightarrow> Some (r\<lparr>ra_outcome := Some (ox_address ob, receipt)\<rparr>)
        | Some bound \<Rightarrow> if bound = (ox_address ob, receipt) then Some r else None)"

definition outcome_from_receipt :: "verified_intent \<Rightarrow> record_ref \<Rightarrow> exchange_receipt \<Rightarrow> outcome_record" where
  "outcome_from_receipt v aref receipt =
     \<lparr>oc_schema = outcome_schema, oc_operation = in_operation (vi_record v), oc_intent = rr_id (vi_ref v),
      oc_attempt = rr_id aref, oc_recorded = xr_end receipt, oc_receipt = receipt\<rparr>"

definition publish_outcome :: "exlib \<Rightarrow> session \<Rightarrow> verified_intent \<Rightarrow> record_ref \<Rightarrow> outcome_record \<Rightarrow>
    (outcome_receipt \<times> (exchange_error + outcome_record)) ex_prog" where
  "publish_outcome lib s v aref oc =
     (case encode_outcome lib (sn_limits s) oc of
        Inl e \<Rightarrow> Return (no_outcome, Inl e)
      | Inr raw \<Rightarrow>
          (case compute_record_ref (ex_go lib) outcome_kind raw of
             None \<Rightarrow> Return (no_outcome, Inl ExchangeFailed)
           | Some want \<Rightarrow>
               bind (session_import lib s outcome_kind raw) (\<lambda>(imported, result).
                 let receipt = no_outcome\<lparr>or_writes := ir_writes imported, or_already := ir_already imported\<rparr> in
                 case result of
                   Inl e \<Rightarrow> Return (receipt, Inl (StoreError e))
                 | Inr ref \<Rightarrow>
                     if \<not> publication_consistent want ref imported then Return (receipt, Inl CorruptExchange)
                     else bind (session_verify_set lib s [vi_ref v, aref, ref]) (\<lambda>(set, err).
                       if err \<noteq> None \<or> \<not> sr_complete set \<or> sr_verified set \<noteq> 3
                       then Return (receipt, Inl (if err = Some CtxCancelled then StoreError CtxCancelled else CorruptExchange))
                       else Return (receipt\<lparr>or_durable := ir_writes imported = 1 \<and> \<not> ir_already imported\<rparr>, Inr oc)))))"

text \<open>The reserved attempt comes back because it may now be bound to this outcome.\<close>

definition store_outcome :: "exlib \<Rightarrow> session \<Rightarrow> verified_intent \<Rightarrow> reserved_attempt \<Rightarrow> observed_exchange option \<Rightarrow>
    exchange_receipt \<Rightarrow> (reserved_attempt \<times> outcome_receipt \<times> (exchange_error + outcome_record)) ex_prog" where
  "store_outcome lib s v reserved observed receipt =
     bind (session_ready s) (\<lambda>err.
       case err of
         Some e \<Rightarrow> Return (reserved, no_outcome, Inl e)
       | None \<Rightarrow>
           (case observed of
              None \<Rightarrow> Return (reserved, no_outcome, Inl InvalidExchange)
            | Some ob \<Rightarrow>
                if \<not> intent_valid_for lib v s \<or> \<not> reserved_valid_for lib reserved s v \<or>
                   \<not> exchange_matches_receipt lib ob receipt \<or>
                   \<not> exchange_matches lib ob (in_site (vi_record v)) (in_selector (vi_record v)) (in_review (vi_record v))
                     (intent_config (vi_record v))
                then Return (reserved, no_outcome, Inl InvalidExchange)
                else (case bind_outcome lib reserved ob receipt of
                    None \<Rightarrow> Return (reserved, no_outcome, Inl CorruptExchange)
                  | Some reserved \<Rightarrow>
                      let a = attempt_from_intent (vi_record v) (vi_ref v);
                          oc = outcome_from_receipt v (ra_ref reserved) receipt in
                      if \<not> attempt_matches_intent lib (ra_record reserved) (vi_record v) (vi_ref v) \<or> ra_record reserved \<noteq> a
                      then Return (reserved, no_outcome, Inl InvalidExchange)
                      else if \<not> outcome_matches lib oc (vi_record v) (vi_ref v) a (ra_ref reserved)
                      then Return (reserved, no_outcome, Inl InvalidExchange)
                      else bind (publish_outcome lib s v (ra_ref reserved) oc) (\<lambda>(receipt, result).
                        Return (reserved, receipt, result)))))"

end
