(* ===== verification/Retention.thy ===== *)
theory Retention
  imports Exchange
begin

text \<open>
  The life of an operation after its attempt: \<open>internal/bonusexchange/retention.go\<close> (the retention and forget
  inventories, \<open>Prune\<close>, \<open>Forget\<close>), \<open>Status\<close> and \<open>ListOperations\<close> of \<open>repository.go\<close>, and the command that submits
  an exchange (\<open>siteBonusExchangeSubmit\<close> in \<open>internal/cli/site_bonus_exchange.go\<close>, without flags and reports).
\<close>

section \<open>Inventories\<close>

record retention_usage =
  ru_passes :: nat
  ru_entries :: int64
  ru_records :: nat
  ru_bytes :: int64

definition no_usage :: retention_usage where
  "no_usage = \<lparr>ru_passes = 0, ru_entries = 0, ru_records = 0, ru_bytes = 0\<rparr>"

definition list_retention_kind :: "session \<Rightarrow> bytes \<Rightarrow> retention_usage \<Rightarrow>
    (retention_usage \<times> (exchange_error + record_ref list)) ex_prog" where
  "list_retention_kind s kind usage =
     bind (session_list s kind) (\<lambda>(listed, err).
       let usage = usage\<lparr>ru_passes := ru_passes usage + 1, ru_entries := ru_entries usage + lr_entries listed\<rparr> in
       Return (usage,
         case err of
           Some e \<Rightarrow> Inl (StoreError e)
         | None \<Rightarrow> if \<not> lr_complete listed then Inl StatusIncomplete else Inr (lr_records listed)))"

text \<open>A retained record and its reference. \<open>rr_size\<close> is zero when only the identity is known.\<close>

definition load_candidate :: "exlib \<Rightarrow> session \<Rightarrow> (store_error option \<Rightarrow> bytes \<Rightarrow> exchange_error + 'v) \<Rightarrow>
    ('v \<Rightarrow> bytes) \<Rightarrow> record_ref \<Rightarrow> retention_usage \<Rightarrow>
    (retention_usage \<times> (exchange_error + 'v \<times> record_ref)) ex_prog" where
  "load_candidate lib s decode store candidate usage =
     (if rr_size candidate > 0 \<and> rr_size candidate > el_status_bytes (sn_limits s) - ru_bytes usage
      then Return (usage, Inl StatusIncomplete)
      else bind (session_load lib s (rr_kind candidate) (rr_id candidate) decode) (\<lambda>ld.
        let usage = usage\<lparr>ru_records := ru_records usage + 1, ru_bytes := ru_bytes usage + ld_bytes_read ld\<rparr> in
        Return (usage,
          case ld_result ld of
            Inl e \<Rightarrow> Inl (load_error ld e)
          | Inr ref \<Rightarrow>
              (case decoded_value ld of
                 None \<Rightarrow> Inl CorruptExchange
               | Some v \<Rightarrow>
                   if rr_size candidate \<noteq> 0 \<and> ref \<noteq> candidate \<or> store v \<noteq> store_of s then Inl CorruptExchange
                   else Inr (v, ref)))))"

definition load_retention_candidate :: "exlib \<Rightarrow> session \<Rightarrow> record_ref \<Rightarrow> retention_usage \<Rightarrow>
    (retention_usage \<times> (exchange_error + retention_record \<times> record_ref)) ex_prog" where
  "load_retention_candidate lib s = load_candidate lib s (decode_retention lib (sn_limits s)) rt_store"

text \<open>The reference of a forget record is the one it was listed under.\<close>

definition load_forget_candidate :: "exlib \<Rightarrow> session \<Rightarrow> record_ref \<Rightarrow> retention_usage \<Rightarrow>
    (retention_usage \<times> (exchange_error + forget_record \<times> record_ref)) ex_prog" where
  "load_forget_candidate lib s candidate usage =
     bind (load_candidate lib s (decode_forget lib (sn_limits s)) fg_store candidate usage) (\<lambda>(usage, r).
       Return (usage, case r of Inl e \<Rightarrow> Inl e | Inr (v, _) \<Rightarrow> Inr (v, candidate)))"

definition load_retention :: "exlib \<Rightarrow> session \<Rightarrow> bytes \<Rightarrow> retention_usage \<Rightarrow>
    (retention_usage \<times> (exchange_error + retention_record \<times> record_ref)) ex_prog" where
  "load_retention lib s rid = load_retention_candidate lib s \<lparr>rr_kind = retention_kind, rr_id = rid, rr_size = 0\<rparr>"

text \<open>One pass over an inventory: at most one record may match.\<close>

fun scan_pass :: "(record_ref \<Rightarrow> retention_usage \<Rightarrow> (retention_usage \<times> (exchange_error + 'v \<times> record_ref)) ex_prog) \<Rightarrow>
    ('v \<Rightarrow> bool) \<Rightarrow> record_ref list \<Rightarrow> retention_usage \<Rightarrow> ('v \<times> record_ref) option \<Rightarrow>
    (retention_usage \<times> (exchange_error + ('v \<times> record_ref) option)) ex_prog" where
  "scan_pass load match [] usage found = Return (usage, Inr found)"
| "scan_pass load match (candidate # rest) usage found =
     bind (load candidate usage) (\<lambda>(usage, r).
       case r of
         Inl e \<Rightarrow> Return (usage, Inl e)
       | Inr (v, ref) \<Rightarrow>
           if \<not> match v then scan_pass load match rest usage found
           else if found \<noteq> None then Return (usage, Inl CorruptExchange)
           else scan_pass load match rest usage (Some (v, ref)))"

text \<open>Two passes that must list the same records; the second decides.\<close>

definition scan_stable :: "session \<Rightarrow> bytes \<Rightarrow>
    (record_ref \<Rightarrow> retention_usage \<Rightarrow> (retention_usage \<times> (exchange_error + 'v \<times> record_ref)) ex_prog) \<Rightarrow>
    ('v \<Rightarrow> bool) \<Rightarrow> retention_usage \<Rightarrow> (retention_usage \<times> (exchange_error + ('v \<times> record_ref) option)) ex_prog" where
  "scan_stable s kind load match usage =
     bind (list_retention_kind s kind usage) (\<lambda>(usage, listed).
       case listed of
         Inl e \<Rightarrow> Return (usage, Inl e)
       | Inr before \<Rightarrow>
           bind (scan_pass load match before usage None) (\<lambda>(usage, first).
             case first of
               Inl e \<Rightarrow> Return (usage, Inl e)
             | Inr _ \<Rightarrow>
                 bind (list_retention_kind s kind usage) (\<lambda>(usage, listed).
                   case listed of
                     Inl e \<Rightarrow> Return (usage, Inl e)
                   | Inr after \<Rightarrow>
                       if before \<noteq> after then Return (usage, Inl StatusIncomplete)
                       else scan_pass load match after usage None)))"

definition find_retention_by_intent :: "exlib \<Rightarrow> session \<Rightarrow> bytes \<Rightarrow> retention_usage \<Rightarrow>
    (retention_usage \<times> (exchange_error + (retention_record \<times> record_ref) option)) ex_prog" where
  "find_retention_by_intent lib s rid =
     scan_stable s retention_kind (load_retention_candidate lib s) (\<lambda>r. rr_id (rt_intent_ref r) = rid)"

definition find_forget_by_intent :: "exlib \<Rightarrow> session \<Rightarrow> bytes \<Rightarrow> retention_usage \<Rightarrow>
    (retention_usage \<times> (exchange_error + (forget_record \<times> record_ref) option)) ex_prog" where
  "find_forget_by_intent lib s rid =
     scan_stable s forget_kind (load_forget_candidate lib s) (\<lambda>f. rr_id (rt_intent_ref (fg_retention f)) = rid)"

definition find_forget_by_retention :: "exlib \<Rightarrow> session \<Rightarrow> bytes \<Rightarrow> retention_usage \<Rightarrow>
    (retention_usage \<times> (exchange_error + (forget_record \<times> record_ref) option)) ex_prog" where
  "find_forget_by_retention lib s rid =
     scan_stable s forget_kind (load_forget_candidate lib s) (\<lambda>f. rr_id (fg_retention_ref f) = rid)"

fun load_all :: "(record_ref \<Rightarrow> retention_usage \<Rightarrow> (retention_usage \<times> (exchange_error + 'v \<times> record_ref)) ex_prog) \<Rightarrow>
    record_ref list \<Rightarrow> retention_usage \<Rightarrow> ('v \<times> record_ref) list \<Rightarrow>
    (retention_usage \<times> (exchange_error + ('v \<times> record_ref) list)) ex_prog" where
  "load_all load [] usage entries = Return (usage, Inr entries)"
| "load_all load (candidate # rest) usage entries =
     bind (load candidate usage) (\<lambda>(usage, r).
       case r of Inl e \<Rightarrow> Return (usage, Inl e) | Inr entry \<Rightarrow> load_all load rest usage (entries @ [entry]))"

definition list_all_stable :: "session \<Rightarrow> bytes \<Rightarrow>
    (record_ref \<Rightarrow> retention_usage \<Rightarrow> (retention_usage \<times> (exchange_error + 'v \<times> record_ref)) ex_prog) \<Rightarrow>
    retention_usage \<Rightarrow> (retention_usage \<times> (exchange_error + ('v \<times> record_ref) list)) ex_prog" where
  "list_all_stable s kind load usage =
     bind (list_retention_kind s kind usage) (\<lambda>(usage, listed).
       case listed of
         Inl e \<Rightarrow> Return (usage, Inl e)
       | Inr before \<Rightarrow>
           bind (load_all load before usage []) (\<lambda>(usage, first).
             case first of
               Inl e \<Rightarrow> Return (usage, Inl e)
             | Inr _ \<Rightarrow>
                 bind (list_retention_kind s kind usage) (\<lambda>(usage, listed).
                   case listed of
                     Inl e \<Rightarrow> Return (usage, Inl e)
                   | Inr after \<Rightarrow>
                       if before \<noteq> after then Return (usage, Inl StatusIncomplete)
                       else load_all load after usage [])))"

section \<open>Stop reasons and presence\<close>

definition retention_stop_reason :: "exchange_error option \<Rightarrow> bytes" where
  "retention_stop_reason err =
     (case err of
        None \<Rightarrow> []
      | Some e \<Rightarrow>
          if e = StoreError CtxCancelled then ''context_cancelled''
          else if e = RetentionPolicy then ''retention_policy_blocked''
          else if e = ExchangeNotFound \<or> e = StoreError RecordNotFound then ''operation_not_found''
          else if e = StoreError RemovalDurabilityUnconfirmed \<or> e = StoreError DurabilityUnconfirmed
          then ''durability_unconfirmed''
          else if e = StoreError RemovalAmbiguous then ''removal_ambiguous''
          else if e = StatusIncomplete then ''inventory_incomplete''
          else if e = CorruptExchange \<or> e = StoreError CorruptRecord then ''integrity_failed''
          else ''operation_interrupted'')"

fun any_present :: "exlib \<Rightarrow> session \<Rightarrow> record_ref list \<Rightarrow> (exchange_error + bool) ex_prog" where
  "any_present lib s [] = Return (Inr False)"
| "any_present lib s (r # rs) =
     bind (record_present lib s r) (\<lambda>present.
       case present of
         Inl e \<Rightarrow> Return (Inl e)
       | Inr p \<Rightarrow> if p then Return (Inr True) else any_present lib s rs)"

definition retained_originals_remain :: "exlib \<Rightarrow> session \<Rightarrow> retention_record \<Rightarrow> (exchange_error + bool) ex_prog" where
  "retained_originals_remain lib s r = any_present lib s [rt_intent_ref r, rt_attempt_ref r, rt_outcome_ref r]"

definition ensure_pruned_originals_absent :: "exlib \<Rightarrow> session \<Rightarrow> retention_record \<Rightarrow> exchange_error option ex_prog" where
  "ensure_pruned_originals_absent lib s r =
     bind (retained_originals_remain lib s r) (\<lambda>remaining.
       Return (case remaining of Inl e \<Rightarrow> Some e | Inr remain \<Rightarrow> if remain then Some RetentionPolicy else None))"

section \<open>Status\<close>

record status =
  st_complete :: bool
  st_state :: bytes
  st_intent :: "(intent_record \<times> record_ref) option"
  st_attempt :: "(attempt_record \<times> record_ref) option"
  st_outcome :: "(outcome_record \<times> record_ref) option"
  st_retention :: "(retention_record \<times> record_ref) option"
  st_forget :: "(forget_record \<times> record_ref) option"
  st_scan :: scan_usage
  st_usage :: retention_usage
  st_store :: bytes
  st_stop :: bytes

definition initial_status :: "session \<Rightarrow> status" where
  "initial_status s = \<lparr>st_complete = False, st_state = ''inspection_incomplete'', st_intent = None, st_attempt = None,
     st_outcome = None, st_retention = None, st_forget = None, st_scan = no_scan, st_usage = no_usage,
     st_store = store_of s, st_stop = []\<rparr>"

definition apply_retention_status :: "status \<Rightarrow> retention_record \<Rightarrow> record_ref \<Rightarrow> status" where
  "apply_retention_status st r ref =
     st\<lparr>st_intent := Some (rt_intent r, rt_intent_ref r), st_attempt := Some (rt_attempt r, rt_attempt_ref r),
        st_outcome := Some (rt_outcome r, rt_outcome_ref r), st_retention := Some (r, ref), st_store := rt_store r\<rparr>"

text \<open>\<open>st_intent\<close> is \<open>None\<close> where the code has the zero record, whose operation is the empty string.\<close>

definition st_operation :: "status \<Rightarrow> bytes" where
  "st_operation st = (case st_intent st of Some (i, _) \<Rightarrow> in_operation i | None \<Rightarrow> [])"

type_synonym status_prog = "(status \<times> exchange_error option) ex_prog"

text \<open>The attempt marker of a live intent was loaded: its outcome, if one was found, decides the state.\<close>

definition status_of_attempt :: "exlib \<Rightarrow> session \<Rightarrow> verified_intent \<Rightarrow> attempt_record \<Rightarrow> record_ref \<Rightarrow> found_outcome \<Rightarrow>
    status \<Rightarrow> status_prog" where
  "status_of_attempt lib s v a aref found st =
     (if \<not> attempt_matches_intent lib a (vi_record v) (vi_ref v) then Return (st, Some CorruptExchange)
      else
        let st = st\<lparr>st_attempt := Some (a, aref), st_outcome := found\<rparr>;
            refs = [vi_ref v, aref] @ (case found of Some (_, ref) \<Rightarrow> [ref] | None \<Rightarrow> []) in
        bind (session_verify_set lib s refs) (\<lambda>(set, err).
          if err \<noteq> None \<or> \<not> sr_complete set \<or> sr_verified set \<noteq> length refs
          then Return (st, Some (if err = Some CtxCancelled then StoreError CtxCancelled else CorruptExchange))
          else Return (st\<lparr>st_state := (case found of
              Some (oc, _) \<Rightarrow> state_from_outcome (xr_outcome (oc_receipt oc))
            | None \<Rightarrow> ''attempt_reserved_submission_unknown''), st_complete := True\<rparr>, None)))"

definition status_of_intent :: "exlib \<Rightarrow> session \<Rightarrow> verified_intent \<Rightarrow> status \<Rightarrow> status_prog" where
  "status_of_intent lib s v st =
     (let a = attempt_from_intent (vi_record v) (vi_ref v) in
      case encode_attempt lib (sn_limits s) a of
        Inl e \<Rightarrow> Return (st, Some e)
      | Inr raw \<Rightarrow>
          (case compute_record_ref (ex_go lib) attempt_kind raw of
             None \<Rightarrow> Return (st, Some (StoreError StoreFailed))
           | Some aref \<Rightarrow>
               bind (scan_outcomes lib s (vi_record v) (vi_ref v) a aref) (\<lambda>(usage, stop, scanned).
                 let st = st\<lparr>st_scan := usage\<rparr> in
                 case scanned of
                   Inl e \<Rightarrow> Return (st\<lparr>st_stop := stop\<rparr>, Some e)
                 | Inr found \<Rightarrow>
                     bind (session_load lib s attempt_kind (rr_id aref) (decode_attempt lib (sn_limits s))) (\<lambda>ld.
                       case ld_result ld of
                         Inl e \<Rightarrow>
                           if e = RecordNotFound then
                             if found \<noteq> None then Return (st, Some CorruptExchange)
                             else bind (session_verify_set lib s [vi_ref v]) (\<lambda>(set, err).
                               if err \<noteq> None \<or> \<not> sr_complete set
                               then Return (st, Some (if err = Some CtxCancelled then StoreError CtxCancelled else CorruptExchange))
                               else Return (st\<lparr>st_state := ''prepared'', st_complete := True\<rparr>, None))
                           else Return (st, Some (if e = CtxCancelled then StoreError e else load_error ld e))
                       | Inr _ \<Rightarrow>
                           (case decoded_value ld of
                              None \<Rightarrow> Return (st, Some CorruptExchange)
                            | Some loaded \<Rightarrow> status_of_attempt lib s v loaded aref found st)))))"

definition status_of_retention :: "exlib \<Rightarrow> session \<Rightarrow> retention_record \<Rightarrow> record_ref \<Rightarrow> status \<Rightarrow> status_prog" where
  "status_of_retention lib s r ref st =
     (if rt_store r \<noteq> store_of s then Return (st, Some CorruptExchange)
      else
        let st = apply_retention_status st r ref in
        bind (retained_originals_remain lib s r) (\<lambda>remaining.
          case remaining of
            Inl e \<Rightarrow> Return (st\<lparr>st_stop := retention_stop_reason (Some e)\<rparr>, Some e)
          | Inr remain \<Rightarrow>
              Return (st\<lparr>st_state := (if remain then ''pruning'' else ''pruned''), st_complete := True\<rparr>, None)))"

definition exchange_status :: "exlib \<Rightarrow> session \<Rightarrow> bytes \<Rightarrow> status_prog" where
  "exchange_status lib s rid =
     (let st = initial_status s in
      bind (session_ready s) (\<lambda>err.
        case err of
          Some e \<Rightarrow> Return (st, Some e)
        | None \<Rightarrow>
            bind (find_forget_by_intent lib s rid no_usage) (\<lambda>(usage, forget).
              let st = st\<lparr>st_usage := usage\<rparr> in
              case forget of
                Inl e \<Rightarrow> Return (st\<lparr>st_stop := retention_stop_reason (Some e)\<rparr>, Some e)
              | Inr (Some (f, fref)) \<Rightarrow>
                  Return (if fg_store f \<noteq> store_of s then (st, Some CorruptExchange)
                    else ((apply_retention_status st (fg_retention f) (fg_retention_ref f))
                            \<lparr>st_forget := Some (f, fref), st_state := ''forgetting'', st_complete := True\<rparr>, None))
              | Inr None \<Rightarrow>
                  bind (find_retention_by_intent lib s rid usage) (\<lambda>(usage, retention).
                    let st = st\<lparr>st_usage := usage\<rparr> in
                    case retention of
                      Inl e \<Rightarrow> Return (st\<lparr>st_stop := retention_stop_reason (Some e)\<rparr>, Some e)
                    | Inr (Some (r, rref)) \<Rightarrow> status_of_retention lib s r rref st
                    | Inr None \<Rightarrow>
                        bind (load_intent lib s rid) (\<lambda>loaded.
                          case loaded of
                            Inl e \<Rightarrow> Return (st, Some e)
                          | Inr v \<Rightarrow>
                              status_of_intent lib s v (st\<lparr>st_intent := Some (vi_record v, vi_ref v), st_store := vi_store v\<rparr>))))))"

section \<open>Removing exact records\<close>

record removal_totals =
  tt_receipts :: "removal_receipt list"
  tt_removed :: nat
  tt_absent :: nat
  tt_writes :: nat

definition no_totals :: removal_totals where
  "no_totals = \<lparr>tt_receipts = [], tt_removed = 0, tt_absent = 0, tt_writes = 0\<rparr>"

definition count_removal :: "removal_totals \<Rightarrow> removal_receipt \<Rightarrow> removal_totals" where
  "count_removal t r =
     t\<lparr>tt_receipts := tt_receipts t @ [r], tt_writes := tt_writes t + rm_writes r,
       tt_removed := (if rm_removed r then tt_removed t + 1 else tt_removed t),
       tt_absent := (if rm_absent r then tt_absent t + 1 else tt_absent t)\<rparr>"

text \<open>The loop over the records to remove: the first error stops it.\<close>

fun remove_exactly :: "exlib \<Rightarrow> session \<Rightarrow> record_ref list \<Rightarrow> removal_totals \<Rightarrow>
    (removal_totals \<times> exchange_error option) ex_prog" where
  "remove_exactly lib s [] t = Return (t, None)"
| "remove_exactly lib s (r # rs) t =
     bind (bound_remove_record_exact (ex_go lib) (sn_bound s) r (record_limits_of (sn_limits s))) (\<lambda>(receipt, err).
       let t = count_removal t receipt in
       case err of
         Some e \<Rightarrow> Return (t, Some (StoreError e))
       | None \<Rightarrow> remove_exactly lib s rs t)"

text \<open>\<open>ConfirmRecordSetDurability\<close> with the stop reason and error its callers make of an incomplete one.\<close>

definition confirm_durable :: "exlib \<Rightarrow> session \<Rightarrow> record_ref list \<Rightarrow> (bytes \<times> exchange_error) option ex_prog" where
  "confirm_durable lib s refs =
     bind (bound_confirm_durability (ex_go lib) (sn_bound s) refs (record_limits_of (sn_limits s))) (\<lambda>(receipt, err).
       Return (case err of
           Some e \<Rightarrow> Some (retention_stop_reason (Some (StoreError e)), StoreError e)
         | None \<Rightarrow>
             if \<not> du_complete receipt \<or> \<not> du_confirmed receipt then Some ([], StatusIncomplete) else None))"

section \<open>Prune\<close>

record prune_receipt =
  pr_complete :: bool
  pr_state :: bytes
  pr_operation :: bytes
  pr_intent :: bytes
  pr_terminal :: bytes
  pr_site :: bytes
  pr_selector :: bytes
  pr_review :: bytes
  pr_retention :: "record_ref option"
  pr_retention_writes :: nat
  pr_totals :: removal_totals
  pr_writes :: nat
  pr_durable :: bool
  pr_used :: retention_usage
  pr_stop :: bytes

definition initial_prune :: "bytes \<Rightarrow> bytes \<Rightarrow> prune_receipt" where
  "initial_prune rid operation = \<lparr>pr_complete = False, pr_state = ''inspection_incomplete'', pr_operation = operation,
     pr_intent = rid, pr_terminal = [], pr_site = [], pr_selector = [], pr_review = [], pr_retention = None,
     pr_retention_writes = 0, pr_totals = no_totals, pr_writes = 0, pr_durable = False, pr_used = no_usage, pr_stop = []\<rparr>"

definition describe_prune :: "prune_receipt \<Rightarrow> intent_record \<Rightarrow> prune_receipt" where
  "describe_prune p i = p\<lparr>pr_site := in_site i, pr_selector := in_selector i, pr_review := in_review i\<rparr>"

type_synonym prune_prog = "(prune_receipt \<times> exchange_error option) ex_prog"

definition valid_tombstone :: "exlib \<Rightarrow> session \<Rightarrow> retention_record \<Rightarrow> record_ref \<Rightarrow> prune_receipt \<Rightarrow> bool" where
  "valid_tombstone lib s r ref p \<longleftrightarrow>
     valid_retention lib r \<and> rt_store r = store_of s \<and> rr_id (rt_intent_ref r) = pr_intent p \<and>
     rt_operation r = pr_operation p \<and> exact_record_ref lib (ex_retention lib) retention_kind r ref"

text \<open>The intent is removed first and the outcome last.\<close>

definition complete_prune :: "exlib \<Rightarrow> session \<Rightarrow> retention_record \<Rightarrow> record_ref \<Rightarrow> prune_receipt \<Rightarrow> prune_prog" where
  "complete_prune lib s r ref p =
     (let p = p\<lparr>pr_state := ''pruning'', pr_retention := Some ref, pr_terminal := rt_terminal r\<rparr> in
      if \<not> valid_tombstone lib s r ref p then Return (p, Some CorruptExchange)
      else bind (confirm_durable lib s [ref]) (\<lambda>confirmed.
        case confirmed of
          Some (stop, e) \<Rightarrow> Return (p\<lparr>pr_stop := stop\<rparr>, Some e)
        | None \<Rightarrow>
            bind (remove_exactly lib s [rt_intent_ref r, rt_attempt_ref r, rt_outcome_ref r] no_totals) (\<lambda>(t, err).
              let p = p\<lparr>pr_totals := t, pr_writes := pr_writes p + tt_writes t\<rparr> in
              case err of
                Some e \<Rightarrow> Return (p\<lparr>pr_stop := retention_stop_reason (Some e)\<rparr>, Some e)
              | None \<Rightarrow>
                  bind (confirm_durable lib s [ref]) (\<lambda>confirmed.
                    case confirmed of
                      Some (stop, e) \<Rightarrow> Return (p\<lparr>pr_stop := stop\<rparr>, Some e)
                    | None \<Rightarrow>
                        Return (p\<lparr>pr_complete := True, pr_state := ''pruned'', pr_durable := True\<rparr>, None)))))"

definition new_retention :: "session \<Rightarrow> status \<Rightarrow> bytes \<Rightarrow> intent_record \<times> record_ref \<Rightarrow> attempt_record \<times> record_ref \<Rightarrow>
    outcome_record \<times> record_ref \<Rightarrow> retention_record" where
  "new_retention s st operation i a oc =
     \<lparr>rt_schema = retention_schema, rt_basis = retention_basis, rt_store = store_of s, rt_operation = operation,
      rt_terminal = st_state st, rt_intent = fst i, rt_intent_ref = snd i, rt_attempt = fst a, rt_attempt_ref = snd a,
      rt_outcome = fst oc, rt_outcome_ref = snd oc\<rparr>"

text \<open>Publishing the tombstone of a terminal operation, then removing what it replaces.\<close>

definition prune_terminal :: "exlib \<Rightarrow> session \<Rightarrow> retention_record \<Rightarrow> prune_receipt \<Rightarrow> prune_prog" where
  "prune_terminal lib s r p =
     (case encode_retention lib (sn_limits s) r of
        Inl e \<Rightarrow> Return (p, Some e)
      | Inr raw \<Rightarrow>
          (case compute_record_ref (ex_go lib) retention_kind raw of
             None \<Rightarrow> Return (p, Some (StoreError StoreFailed))
           | Some want \<Rightarrow>
               bind (session_import lib s retention_kind raw) (\<lambda>(imported, result).
                 let p = (describe_prune p (rt_intent r))\<lparr>pr_retention_writes := ir_writes imported,
                           pr_writes := pr_writes p + ir_writes imported, pr_terminal := rt_terminal r,
                           pr_state := ''pruning''\<rparr> in
                 case result of
                   Inl e \<Rightarrow> Return (p\<lparr>pr_stop := retention_stop_reason (Some (StoreError e))\<rparr>, Some (StoreError e))
                 | Inr ref \<Rightarrow>
                     if \<not> publication_consistent want ref imported then Return (p\<lparr>pr_retention := Some ref\<rparr>, Some CorruptExchange)
                     else bind (confirm_durable lib s [ref, rt_intent_ref r, rt_attempt_ref r, rt_outcome_ref r]) (\<lambda>confirmed.
                       case confirmed of
                         Some (stop, e) \<Rightarrow> Return (p\<lparr>pr_retention := Some ref, pr_stop := stop\<rparr>, Some e)
                       | None \<Rightarrow> complete_prune lib s r ref p))))"

definition prune_live :: "exlib \<Rightarrow> session \<Rightarrow> bytes \<Rightarrow> bytes \<Rightarrow> prune_receipt \<Rightarrow> prune_prog" where
  "prune_live lib s rid operation p =
     bind (exchange_status lib s rid) (\<lambda>(st, err).
       case err of
         Some e \<Rightarrow>
           if e = StoreError RecordNotFound
           then Return (p\<lparr>pr_stop := ''operation_not_found''\<rparr>, Some ExchangeNotFound)
           else Return (p\<lparr>pr_stop := retention_stop_reason (Some e)\<rparr>, Some e)
       | None \<Rightarrow>
           let p = p\<lparr>pr_state := st_state st\<rparr>;
               p = (case st_intent st of Some (i, _) \<Rightarrow> describe_prune p i | None \<Rightarrow> p) in
           if st_operation st \<noteq> operation then Return (p, Some InvalidExchange)
           else (case (st_intent st, st_attempt st, st_outcome st) of
               (Some i, Some a, Some oc) \<Rightarrow>
                 if \<not> st_complete st \<or> \<not> terminal_state (st_state st)
                 then Return (p\<lparr>pr_stop := ''operation_not_terminal''\<rparr>, Some RetentionPolicy)
                 else prune_terminal lib s (new_retention s st operation i a oc) p
             | _ \<Rightarrow> Return (p\<lparr>pr_stop := ''operation_not_terminal''\<rparr>, Some RetentionPolicy)))"

definition prune :: "exlib \<Rightarrow> session \<Rightarrow> bytes \<Rightarrow> bytes \<Rightarrow> prune_prog" where
  "prune lib s rid operation =
     (let p = initial_prune rid operation in
      bind (session_ready s) (\<lambda>err.
        case err of
          Some e \<Rightarrow> Return (p, Some e)
        | None \<Rightarrow>
            if \<not> valid_record_id rid \<or> \<not> valid_sha256_id operation then Return (p, Some InvalidExchange)
            else bind (find_forget_by_intent lib s rid (pr_used p)) (\<lambda>(usage, forget).
              let p = p\<lparr>pr_used := usage\<rparr> in
              case forget of
                Inl e \<Rightarrow> Return (p\<lparr>pr_stop := retention_stop_reason (Some e)\<rparr>, Some e)
              | Inr (Some (f, _)) \<Rightarrow>
                  Return (if fg_operation f \<noteq> operation \<or> fg_store f \<noteq> store_of s then (p, Some CorruptExchange)
                    else ((describe_prune p (rt_intent (fg_retention f)))\<lparr>pr_state := ''forgetting'',
                            pr_retention := Some (fg_retention_ref f), pr_terminal := rt_terminal (fg_retention f),
                            pr_stop := ''forget_in_progress''\<rparr>, Some RetentionPolicy))
              | Inr None \<Rightarrow>
                  bind (find_retention_by_intent lib s rid usage) (\<lambda>(usage, retention).
                    let p = p\<lparr>pr_used := usage\<rparr> in
                    case retention of
                      Inl e \<Rightarrow> Return (p\<lparr>pr_stop := retention_stop_reason (Some e)\<rparr>, Some e)
                    | Inr (Some (r, ref)) \<Rightarrow>
                        if rt_operation r \<noteq> operation \<or> rt_store r \<noteq> store_of s then Return (p, Some CorruptExchange)
                        else complete_prune lib s r ref p
                    | Inr None \<Rightarrow> prune_live lib s rid operation p))))"

section \<open>Forget\<close>

record forget_receipt =
  fr_complete :: bool
  fr_state :: bytes
  fr_operation :: bytes
  fr_terminal :: bytes
  fr_site :: bytes
  fr_selector :: bytes
  fr_review :: bytes
  fr_retention :: record_ref
  fr_forget :: "record_ref option"
  fr_forget_writes :: nat
  fr_totals :: removal_totals
  fr_writes :: nat
  fr_durable :: bool
  fr_used :: retention_usage
  fr_stop :: bytes

type_synonym forget_prog = "(forget_receipt \<times> exchange_error option) ex_prog"

definition initial_forget :: "bytes \<Rightarrow> bytes \<Rightarrow> forget_receipt" where
  "initial_forget rid operation = \<lparr>fr_complete = False, fr_state = ''inspection_incomplete'', fr_operation = operation,
     fr_terminal = [], fr_site = [], fr_selector = [], fr_review = [],
     fr_retention = \<lparr>rr_kind = retention_kind, rr_id = rid, rr_size = 0\<rparr>, fr_forget = None,
     fr_forget_writes = 0, fr_totals = no_totals, fr_writes = 0, fr_durable = False, fr_used = no_usage, fr_stop = []\<rparr>"

text \<open>The tombstone first, the forget marker last.\<close>

definition complete_forget :: "exlib \<Rightarrow> session \<Rightarrow> retention_record \<Rightarrow> record_ref \<Rightarrow> record_ref \<Rightarrow> forget_receipt \<Rightarrow>
    forget_prog" where
  "complete_forget lib s r ref fref p =
     (let p = p\<lparr>fr_terminal := rt_terminal r, fr_site := in_site (rt_intent r), fr_selector := in_selector (rt_intent r),
               fr_review := in_review (rt_intent r)\<rparr> in
      bind (ensure_pruned_originals_absent lib s r) (\<lambda>err.
        case err of
          Some e \<Rightarrow> Return (p\<lparr>fr_stop := ''prune_incomplete''\<rparr>, Some e)
        | None \<Rightarrow>
            bind (confirm_durable lib s [fref]) (\<lambda>confirmed.
              case confirmed of
                Some (stop, e) \<Rightarrow> Return (p\<lparr>fr_stop := stop\<rparr>, Some e)
              | None \<Rightarrow>
                  bind (remove_exactly lib s [ref, fref] no_totals) (\<lambda>(t, err).
                    let p = p\<lparr>fr_totals := t, fr_writes := fr_writes p + tt_writes t\<rparr> in
                    case err of
                      Some e \<Rightarrow> Return (p\<lparr>fr_stop := retention_stop_reason (Some e)\<rparr>, Some e)
                    | None \<Rightarrow>
                        bind (bound_check (sn_bound s)) (\<lambda>err.
                          Return (case err of
                              Some e \<Rightarrow> (p\<lparr>fr_stop := retention_stop_reason (Some (StoreError e))\<rparr>, Some (StoreError e))
                            | None \<Rightarrow> (p\<lparr>fr_complete := True, fr_state := ''forgotten'', fr_durable := True\<rparr>, None)))))))"


definition new_forget :: "session \<Rightarrow> bytes \<Rightarrow> retention_record \<Rightarrow> record_ref \<Rightarrow> forget_record" where
  "new_forget s operation r ref =
     \<lparr>fg_schema = forget_schema, fg_basis = forget_basis, fg_store = store_of s, fg_operation = operation,
      fg_retention = r, fg_retention_ref = ref\<rparr>"

text \<open>No forget marker yet: the tombstone is loaded and the marker published.\<close>

definition begin_forget :: "exlib \<Rightarrow> session \<Rightarrow> bytes \<Rightarrow> bytes \<Rightarrow> forget_receipt \<Rightarrow> forget_prog" where
  "begin_forget lib s rid operation p =
     bind (load_retention lib s rid (fr_used p)) (\<lambda>(usage, loaded).
       let p = p\<lparr>fr_used := usage\<rparr> in
       case loaded of
         Inl e \<Rightarrow>
           if e = StoreError RecordNotFound
           then Return (p\<lparr>fr_stop := ''retention_not_found_unattributed''\<rparr>, Some ExchangeNotFound)
           else Return (p\<lparr>fr_stop := retention_stop_reason (Some e)\<rparr>, Some e)
       | Inr (r, ref) \<Rightarrow>
           if rt_operation r \<noteq> operation \<or> rt_store r \<noteq> store_of s then Return (p, Some InvalidExchange)
           else
             let p = p\<lparr>fr_retention := ref\<rparr> in
             bind (ensure_pruned_originals_absent lib s r) (\<lambda>err.
               case err of
                 Some e \<Rightarrow> Return (p\<lparr>fr_stop := ''prune_incomplete''\<rparr>, Some e)
               | None \<Rightarrow>
                   (case encode_forget lib (sn_limits s) (new_forget s operation r ref) of
                      Inl e \<Rightarrow> Return (p, Some e)
                    | Inr raw \<Rightarrow>
                        (case compute_record_ref (ex_go lib) forget_kind raw of
                           None \<Rightarrow> Return (p, Some (StoreError StoreFailed))
                         | Some want \<Rightarrow>
                             bind (session_import lib s forget_kind raw) (\<lambda>(imported, result).
                               let p = p\<lparr>fr_forget_writes := ir_writes imported,
                                         fr_writes := fr_writes p + ir_writes imported, fr_state := ''forgetting''\<rparr> in
                               case result of
                                 Inl e \<Rightarrow>
                                   Return (p\<lparr>fr_stop := retention_stop_reason (Some (StoreError e))\<rparr>, Some (StoreError e))
                               | Inr fref \<Rightarrow>
                                   let p = p\<lparr>fr_forget := Some fref\<rparr> in
                                   if \<not> publication_consistent want fref imported then Return (p, Some CorruptExchange)
                                   else complete_forget lib s r ref fref p)))))"

definition forget :: "exlib \<Rightarrow> session \<Rightarrow> bytes \<Rightarrow> bytes \<Rightarrow> forget_prog" where
  "forget lib s rid operation =
     (let p = initial_forget rid operation in
      bind (session_ready s) (\<lambda>err.
        case err of
          Some e \<Rightarrow> Return (p, Some e)
        | None \<Rightarrow>
            if \<not> valid_record_id rid \<or> \<not> valid_sha256_id operation then Return (p, Some InvalidExchange)
            else bind (find_forget_by_retention lib s rid (fr_used p)) (\<lambda>(usage, found).
              let p = p\<lparr>fr_used := usage\<rparr> in
              case found of
                Inl e \<Rightarrow> Return (p\<lparr>fr_stop := retention_stop_reason (Some e)\<rparr>, Some e)
              | Inr (Some (f, fref)) \<Rightarrow>
                  if fg_operation f \<noteq> operation \<or> fg_store f \<noteq> store_of s then Return (p, Some CorruptExchange)
                  else complete_forget lib s (fg_retention f) (fg_retention_ref f) fref
                         (p\<lparr>fr_forget := Some fref, fr_state := ''forgetting''\<rparr>)
              | Inr None \<Rightarrow> begin_forget lib s rid operation p)))"

section \<open>Listing operations\<close>

record operation_summary =
  os_intent :: record_ref
  os_retention :: "record_ref option"
  os_forget :: "record_ref option"
  os_operation :: bytes
  os_site :: bytes
  os_selector :: bytes
  os_review :: bytes
  os_created :: go_time
  os_status :: bytes

definition summary_of :: "intent_record \<Rightarrow> record_ref \<Rightarrow> bytes \<Rightarrow> bytes \<Rightarrow> operation_summary" where
  "summary_of i iref operation state =
     \<lparr>os_intent = iref, os_retention = None, os_forget = None, os_operation = operation, os_site = in_site i,
      os_selector = in_selector i, os_review = in_review i, os_created = in_created i, os_status = state\<rparr>"

record list_usage =
  lu_inventories :: nat
  lu_passes :: nat
  lu_entries :: int64
  lu_matched :: int64
  lu_records :: nat
  lu_bytes :: int64
  lu_retention :: retention_usage

record operation_list =
  ol_complete :: bool
  ol_used :: list_usage
  ol_operations :: "operation_summary list"
  ol_stop :: bytes

definition no_operations :: operation_list where
  "no_operations = \<lparr>ol_complete = False, ol_used = \<lparr>lu_inventories = 0, lu_passes = 0, lu_entries = 0, lu_matched = 0,
     lu_records = 0, lu_bytes = 0, lu_retention = no_usage\<rparr>, ol_operations = [], ol_stop = []\<rparr>"

type_synonym list_prog = "(operation_list \<times> exchange_error option) ex_prog"

definition add_inventory :: "operation_list \<Rightarrow> list_result \<Rightarrow> operation_list" where
  "add_inventory l listed =
     (let u = ol_used l in
      l\<lparr>ol_used := u\<lparr>lu_inventories := lu_inventories u + 1, lu_entries := lu_entries u + lr_entries listed,
        lu_matched := lu_matched u + lr_matched listed\<rparr>\<rparr>)"

text \<open>The stop reason is recorded for a cancelled context.\<close>

definition cancelled_stop :: "operation_list \<Rightarrow> exchange_error \<Rightarrow> operation_list" where
  "cancelled_stop l e = (if e = StoreError CtxCancelled then l\<lparr>ol_stop := ''context_cancelled''\<rparr> else l)"

definition intent_inventory :: "session \<Rightarrow> operation_list \<Rightarrow>
    (operation_list \<times> (exchange_error + record_ref list)) ex_prog" where
  "intent_inventory s l =
     bind (session_list s intent_kind) (\<lambda>(listed, err).
       let l = add_inventory l listed in
       Return (case err of
           Some e \<Rightarrow> (cancelled_stop l (StoreError e), Inl (StoreError e))
         | None \<Rightarrow>
             if \<not> lr_complete listed
             then (l\<lparr>ol_stop := ''intent_inventory_'' @ lr_stop listed\<rparr>, Inl StatusIncomplete)
             else (l, Inr (lr_records listed))))"

definition operation_load_error :: "(exchange_error, intent_record) loaded \<Rightarrow> store_error \<Rightarrow> bytes \<times> exchange_error" where
  "operation_load_error ld e =
     (if e = CtxCancelled then (''context_cancelled'', StoreError e)
      else if e = RecordNotFound then (''intent_inventory_changed'', StatusIncomplete)
      else if ld_consumed ld = Some (Inl CorruptExchange) \<or> e = CorruptRecord \<or> e = ConsumerIncomplete
      then ([], CorruptExchange)
      else ([], StoreError e))"

definition load_operation_intent :: "exlib \<Rightarrow> session \<Rightarrow> record_ref \<Rightarrow> operation_list \<Rightarrow>
    (operation_list \<times> (exchange_error + intent_record)) ex_prog" where
  "load_operation_intent lib s candidate l =
     bind ctx_err (\<lambda>cancelled.
       if cancelled then Return (l\<lparr>ol_stop := ''context_cancelled''\<rparr>, Inl (StoreError CtxCancelled))
       else if rr_size candidate < 0 \<or> rr_size candidate > el_status_bytes (sn_limits s) - lu_bytes (ol_used l)
       then Return (l\<lparr>ol_stop := ''intent_byte_limit''\<rparr>, Inl StatusIncomplete)
       else bind (session_load lib s (rr_kind candidate) (rr_id candidate) (decode_intent lib (sn_limits s))) (\<lambda>ld.
         let u = ol_used l;
             l = l\<lparr>ol_used := u\<lparr>lu_records := lu_records u + 1, lu_bytes := lu_bytes u + ld_bytes_read ld\<rparr>\<rparr> in
         Return (case ld_result ld of
             Inl e \<Rightarrow>
               (case operation_load_error ld e of (stop, e) \<Rightarrow> (if stop = [] then l else l\<lparr>ol_stop := stop\<rparr>, Inl e))
           | Inr ref \<Rightarrow>
               (case decoded_value ld of
                  None \<Rightarrow> (l, Inl CorruptExchange)
                | Some v \<Rightarrow> if ref \<noteq> candidate \<or> \<not> valid_intent lib v then (l, Inl CorruptExchange) else (l, Inr v)))))"

text \<open>The first pass: the live intents, whose operations must differ.\<close>

fun collect_intents :: "exlib \<Rightarrow> session \<Rightarrow> record_ref list \<Rightarrow> operation_list \<Rightarrow> list_prog" where
  "collect_intents lib s [] l = Return (l, None)"
| "collect_intents lib s (candidate # rest) l =
     bind (load_operation_intent lib s candidate l) (\<lambda>(l, loaded).
       case loaded of
         Inl e \<Rightarrow> Return (l, Some e)
       | Inr i \<Rightarrow>
           if in_operation i \<in> set (map os_operation (ol_operations l)) then Return (l, Some CorruptExchange)
           else collect_intents lib s rest
             (l\<lparr>ol_operations := ol_operations l @ [summary_of i candidate (in_operation i) ''not_inspected'']\<rparr>))"

text \<open>The second pass loads them again.\<close>

fun reload_intents :: "exlib \<Rightarrow> session \<Rightarrow> record_ref list \<Rightarrow> operation_list \<Rightarrow> list_prog" where
  "reload_intents lib s [] l = Return (l, None)"
| "reload_intents lib s (candidate # rest) l =
     bind (load_operation_intent lib s candidate l) (\<lambda>(l, loaded).
       case loaded of Inl e \<Rightarrow> Return (l, Some e) | Inr _ \<Rightarrow> reload_intents lib s rest l)"

text \<open>Folding a retained record into the list: \<open>None\<close> when it contradicts a live operation.\<close>

fun add_retained :: "retention_record \<Rightarrow> record_ref \<Rightarrow> operation_summary list \<Rightarrow> operation_summary list option" where
  "add_retained r ref [] =
     Some [(summary_of (rt_intent r) (rt_intent_ref r) (rt_operation r) ''pruned_not_inspected'')\<lparr>os_retention := Some ref\<rparr>]"
| "add_retained r ref (x # xs) =
     (if os_operation x = rt_operation r then
        if os_intent x \<noteq> rt_intent_ref r \<or> os_retention x \<noteq> None then None
        else Some (x\<lparr>os_retention := Some ref, os_status := ''pruning_not_inspected''\<rparr> # xs)
      else map_option (\<lambda>ys. x # ys) (add_retained r ref xs))"

fun add_forgotten :: "forget_record \<Rightarrow> record_ref \<Rightarrow> operation_summary list \<Rightarrow> operation_summary list option" where
  "add_forgotten f ref [] =
     Some [(summary_of (rt_intent (fg_retention f)) (rt_intent_ref (fg_retention f)) (fg_operation f)
       ''forgetting_not_inspected'')\<lparr>os_forget := Some ref\<rparr>]"
| "add_forgotten f ref (x # xs) =
     (if os_operation x = fg_operation f then
        if os_intent x \<noteq> rt_intent_ref (fg_retention f) \<or> os_forget x \<noteq> None \<or>
           (os_retention x \<noteq> None \<and> os_retention x \<noteq> Some (fg_retention_ref f)) then None
        else Some (x\<lparr>os_forget := Some ref, os_status := ''forgetting_not_inspected''\<rparr> # xs)
      else map_option (\<lambda>ys. x # ys) (add_forgotten f ref xs))"

fun merge_entries :: "('v \<Rightarrow> record_ref \<Rightarrow> operation_summary list \<Rightarrow> operation_summary list option) \<Rightarrow>
    ('v \<times> record_ref) list \<Rightarrow> operation_summary list \<Rightarrow> operation_summary list option" where
  "merge_entries add [] ops = Some ops"
| "merge_entries add ((v, ref) # rest) ops = Option.bind (add v ref ops) (merge_entries add rest)"

definition finish_list :: "session \<Rightarrow> (retention_record \<times> record_ref) list \<Rightarrow> (forget_record \<times> record_ref) list \<Rightarrow>
    operation_list \<Rightarrow> list_prog" where
  "finish_list s retained forgotten l =
     (case Option.bind (merge_entries add_retained retained (ol_operations l)) (merge_entries add_forgotten forgotten) of
        None \<Rightarrow> Return (l, Some CorruptExchange)
      | Some ops \<Rightarrow>
          if int (length ops) > el_records (sn_limits s)
          then Return (l\<lparr>ol_operations := ops, ol_stop := ''operation_limit''\<rparr>, Some StatusIncomplete)
          else
            let l = l\<lparr>ol_operations := sort_key (\<lambda>x. rr_id (os_intent x)) ops\<rparr> in
            bind (bound_check (sn_bound s)) (\<lambda>err.
              Return (case err of
                  Some e \<Rightarrow> (cancelled_stop l (StoreError e), Some (StoreError e))
                | None \<Rightarrow> (l\<lparr>ol_complete := True\<rparr>, None))))"

definition list_retained :: "exlib \<Rightarrow> session \<Rightarrow> operation_list \<Rightarrow> list_prog" where
  "list_retained lib s l =
     bind (list_all_stable s retention_kind (load_retention_candidate lib s) (lu_retention (ol_used l))) (\<lambda>(usage, retained).
       let l = l\<lparr>ol_used := (ol_used l)\<lparr>lu_retention := usage\<rparr>\<rparr> in
       case retained of
         Inl e \<Rightarrow> Return (l\<lparr>ol_stop := retention_stop_reason (Some e)\<rparr>, Some e)
       | Inr retained \<Rightarrow>
           bind (list_all_stable s forget_kind (load_forget_candidate lib s) usage) (\<lambda>(usage, forgotten).
             let l = l\<lparr>ol_used := (ol_used l)\<lparr>lu_retention := usage\<rparr>\<rparr> in
             case forgotten of
               Inl e \<Rightarrow> Return (l\<lparr>ol_stop := retention_stop_reason (Some e)\<rparr>, Some e)
             | Inr forgotten \<Rightarrow> finish_list s retained forgotten l))"

definition add_verification_pass :: "operation_list \<Rightarrow> operation_list" where
  "add_verification_pass l = l\<lparr>ol_used := (ol_used l)\<lparr>lu_passes := lu_passes (ol_used l) + 1\<rparr>\<rparr>"

definition list_operations :: "exlib \<Rightarrow> session \<Rightarrow> list_prog" where
  "list_operations lib s =
     bind (session_ready s) (\<lambda>err.
       case err of
         Some e \<Rightarrow> Return (cancelled_stop no_operations e, Some e)
       | None \<Rightarrow>
           bind (intent_inventory s no_operations) (\<lambda>(l, listed).
             case listed of
               Inl e \<Rightarrow> Return (l, Some e)
             | Inr before \<Rightarrow>
                 bind (collect_intents lib s before (add_verification_pass l)) (\<lambda>(l, err).
                   case err of
                     Some e \<Rightarrow> Return (l, Some e)
                   | None \<Rightarrow>
                       bind (intent_inventory s l) (\<lambda>(l, listed).
                         case listed of
                           Inl e \<Rightarrow> Return (l, Some e)
                         | Inr after \<Rightarrow>
                             if before \<noteq> after
                             then Return (l\<lparr>ol_stop := ''intent_inventory_changed''\<rparr>, Some StatusIncomplete)
                             else bind (reload_intents lib s after (add_verification_pass l)) (\<lambda>(l, err).
                               case err of Some e \<Rightarrow> Return (l, Some e) | None \<Rightarrow> list_retained lib s l)))))"

section \<open>The submit command\<close>

datatype submit_end =
    IntentInvalid
  | SelectorMismatch
  | StateUnverified
  | AlreadyReserved
  | SiteUnavailable
  | ReviewFailed
  | ReservationFailed
  | OutcomeNotDurable
  | CloseFailed
  | NotConfirmed bytes
  | Submitted

record invocation =
  iv_site :: bytes
  iv_selector :: bytes
  iv_review :: bytes
  iv_config :: exchange_config

definition intent_matches_invocation :: "exlib \<Rightarrow> intent_record \<Rightarrow> invocation \<Rightarrow> bool" where
  "intent_matches_invocation lib i v \<longleftrightarrow>
     valid_intent lib i \<and> in_site i = iv_site v \<and> in_selector i = iv_selector v \<and> in_review i = iv_review v \<and>
     in_origin i = xc_origin (iv_config v) \<and> in_review_route i = xc_review_route (iv_config v) \<and>
     in_action_route i = xc_action_route (iv_config v) \<and> in_review_limits i = default_review_limits \<and>
     in_exchange_limits i = default_exchange_limits \<and> in_input_mode i = ''none''"

definition bounded_counter :: "int \<Rightarrow> int \<Rightarrow> int" where
  "bounded_counter v maximum = (if v < 0 then 0 else if v > maximum then maximum else v)"

text \<open>\<open>validateFreshBonusExchangeReview\<close> and \<open>validateSuccessfulBonusReview\<close>.\<close>

definition fresh_review_acceptable :: "exlib \<Rightarrow> intent_record \<Rightarrow> observed_review \<Rightarrow> review_receipt \<Rightarrow> int \<Rightarrow> bool" where
  "fresh_review_acceptable lib i ob r requests \<longleftrightarrow>
     (let v = ov_review ob; l = in_review_limits i; u = vr_used r in
      review_matches_receipt lib ob r \<and>
      review_matches lib ob (in_site i) (in_selector i) (in_origin i) (in_review_route i) \<and>
      compute_review_id lib v = Some (of_review_id v) \<and> of_site v = in_site i \<and> of_selector v = in_selector i \<and>
      valid_canonical_origin lib (in_origin i) \<and> valid_route_id (in_review_route i) \<and> valid_review_limits l \<and>
      vr_effect r = review_effect \<and> vr_site r = in_site i \<and> vr_selector r = in_selector i \<and>
      vr_origin r = in_origin i \<and> vr_route r = in_review_route i \<and> vr_limits r = l \<and> vr_complete r \<and> vr_stop r = [] \<and>
      t_instant (vr_start r) \<noteq> 0 \<and> t_instant (vr_end r) \<noteq> 0 \<and> \<not> t_instant (vr_end r) < t_instant (vr_start r) \<and>
      requests = 1 \<and> vu_requests u = 1 \<and> vu_retries u = 0 \<and> vu_redirects u = 0 \<and> vu_response_known u \<and>
      0 < vu_response_bytes u \<and> vu_response_bytes u \<le> vl_response_bytes l \<and>
      0 < vu_forms u \<and> vu_forms u \<le> vl_forms l \<and> 0 \<le> vu_fields u \<and> vu_fields u \<le> vl_fields l \<and>
      0 < vu_tokens u \<and> vu_tokens u \<le> vl_tokens l \<and> 0 \<le> vu_text_bytes u \<and> vu_text_bytes u \<le> vl_text_bytes l \<and>
      of_review_id v = in_review i \<and> of_availability v = ''available'' \<and> of_input_mode v = ''none'' \<and>
      of_action_method v = ''post'' \<and> of_action_route v = in_action_route i)"

definition observation_acceptable :: "exlib \<Rightarrow> intent_record \<Rightarrow> (observed_exchange \<times> exchange_receipt) option \<Rightarrow> int \<Rightarrow>
    bool" where
  "observation_acceptable lib i observed requests =
     (case observed of
        None \<Rightarrow> False
      | Some (ob, r) \<Rightarrow>
          exchange_matches_receipt lib ob r \<and>
          exchange_matches lib ob (in_site i) (in_selector i) (in_review i) (intent_config i) \<and>
          valid_exchange_receipt lib r \<and> xr_limits r = in_exchange_limits i \<and> requests = xu_total (xr_used r) \<and>
          xu_reviews (xr_used r) = 1 \<and> xu_submissions (xr_used r) \<le> 1 \<and> xu_retries (xr_used r) = 0 \<and>
          xu_redirects (xr_used r) = 0)"

text \<open>After the request: the outcome is stored, the status read again and both sessions closed.\<close>

definition finish_submission :: "exlib \<Rightarrow> session \<Rightarrow> bytes \<Rightarrow> bool \<Rightarrow> bool \<Rightarrow> submit_end ex_prog" where
  "finish_submission lib s rid submit_ok stored =
     bind close_site (\<lambda>site_closed.
     bind (exchange_status lib s rid) (\<lambda>(st, status_err).
     bind (session_check s) (\<lambda>check_err.
       Return (if \<not> stored \<or> status_err \<noteq> None \<or> check_err \<noteq> None then OutcomeNotDurable
         else if \<not> site_closed then CloseFailed
         else if \<not> submit_ok \<or> st_state st \<noteq> ''confirmed'' then NotConfirmed (st_state st)
         else Submitted))))"

definition submit_reserved :: "exlib \<Rightarrow> session \<Rightarrow> bytes \<Rightarrow> verified_intent \<Rightarrow> reserved_attempt \<Rightarrow> observed_review \<Rightarrow>
    submit_end ex_prog" where
  "submit_reserved lib s rid v reserved ob =
     (let i = vi_record v in
      bind (submit_exchange (vi_ref v) ob (in_review i) (in_exchange_limits i)) (\<lambda>(observed, submit_ok).
      bind requests_made (\<lambda>requests.
        if observation_acceptable lib i observed (bounded_counter requests (xl_session_requests (in_exchange_limits i) + 1))
        then
          bind (store_outcome lib s v reserved (map_option fst observed) (snd (the observed))) (\<lambda>(_, receipt, result).
            finish_submission lib s rid submit_ok
              (or_durable receipt \<and> (case result of Inl _ \<Rightarrow> False | Inr _ \<Rightarrow> True)))
        else finish_submission lib s rid submit_ok False)))"

definition review_and_reserve :: "exlib \<Rightarrow> session \<Rightarrow> bytes \<Rightarrow> verified_intent \<Rightarrow> submit_end ex_prog" where
  "review_and_reserve lib s rid v =
     (let i = vi_record v in
      bind (fresh_review (in_selector i) (in_review_limits i) (in_exchange_limits i)) (\<lambda>review.
      bind requests_made (\<lambda>requests.
        case review of
          None \<Rightarrow> bind close_site (\<lambda>_. Return ReviewFailed)
        | Some (ob, r) \<Rightarrow>
            if \<not> fresh_review_acceptable lib i ob r (bounded_counter requests (xl_session_requests (in_exchange_limits i) + 1))
            then bind close_site (\<lambda>_. Return ReviewFailed)
            else bind (reserve_attempt lib s v (Some ob) r) (\<lambda>(receipt, reserved).
              case reserved of
                Inl _ \<Rightarrow> bind close_site (\<lambda>_. bind (exchange_status lib s rid) (\<lambda>_. Return ReservationFailed))
              | Inr reserved \<Rightarrow>
                  if \<not> rs_acquired receipt
                  then bind close_site (\<lambda>_. bind (exchange_status lib s rid) (\<lambda>_. Return ReservationFailed))
                  else submit_reserved lib s rid v reserved ob))))"

definition submit_command :: "exlib \<Rightarrow> session \<Rightarrow> bytes \<Rightarrow> invocation \<Rightarrow> submit_end ex_prog" where
  "submit_command lib s rid want =
     bind (load_intent lib s rid) (\<lambda>loaded.
       case loaded of
         Inl _ \<Rightarrow> Return IntentInvalid
       | Inr v \<Rightarrow>
           if \<not> intent_matches_invocation lib (vi_record v) want then Return SelectorMismatch
           else bind (exchange_status lib s rid) (\<lambda>(st, err).
             if err \<noteq> None \<or> \<not> st_complete st then Return StateUnverified
             else if st_state st \<noteq> ''prepared'' then Return AlreadyReserved
             else bind open_site (\<lambda>opened.
               if \<not> opened then Return SiteUnavailable else review_and_reserve lib s rid v)))"

end
