(* ===== verification/ExchangeGuards.thy ===== *)
theory ExchangeGuards
  imports RecordStoreProps Retention
begin

text \<open>
  What every command of the bonus exchange guarantees about one intent, whatever the store and the site answer. Three
  monitors watch the calls: the attempt marker is unlinked only after the absence of the intent was seen and made
  durable (\<open>clearing\<close>), a request is sent only after the marker was linked, made durable and the intent seen again
  (\<open>marking\<close>), and the name of the intent is never published except by a \<open>Prepare\<close> that draws the same operation
  identity (\<open>drawing\<close>).
\<close>

section \<open>The monitors\<close>

definition clearing :: "bytes \<Rightarrow> nat \<Rightarrow> site_call call \<Rightarrow> site_reply reply \<Rightarrow> nat" where
  "clearing ip g c r =
     (case c of
        OpenObject p \<Rightarrow> if p = ip \<and> r = OpenReply Absent \<and> g = 0 then 1 else g
      | SyncDirectory d \<Rightarrow> if d = Objects \<and> r = Flag True \<and> g = 1 then 2 else g
      | _ \<Rightarrow> g)"

definition may_unlink :: "bytes \<Rightarrow> nat \<Rightarrow> site_call call \<Rightarrow> bool" where
  "may_unlink ap g c \<longleftrightarrow> (c = UnlinkName ap \<longrightarrow> 2 \<le> g)"

definition submits :: "record_ref \<Rightarrow> site_call call \<Rightarrow> bool" where
  "submits iref c = (case c of Other x \<Rightarrow> (case x of SubmitExchange ref ob rv l \<Rightarrow> rr_id ref = rr_id iref | _ \<Rightarrow> False)
     | _ \<Rightarrow> False)"

definition marking :: "record_ref \<Rightarrow> bytes \<Rightarrow> bytes \<Rightarrow> nat \<Rightarrow> site_call call \<Rightarrow> site_reply reply \<Rightarrow> nat" where
  "marking iref ap ip g c r =
     (if submits iref c then 0
      else case c of
          LinkObject p q \<Rightarrow> if q = ap \<and> r = LinkReply Linked \<and> g = 0 then 1 else g
        | SyncDirectory d \<Rightarrow> if d = Objects \<and> r = Flag True \<and> g = 1 then 2 else g
        | OpenObject p \<Rightarrow> if p = ip \<and> (\<exists>h i. r = OpenReply (Opened h i)) \<and> g = 2 then 3 else g
        | _ \<Rightarrow> g)"

definition may_submit :: "record_ref \<Rightarrow> nat \<Rightarrow> site_call call \<Rightarrow> bool" where
  "may_submit iref g c \<longleftrightarrow> (submits iref c \<longrightarrow> 3 \<le> g)"

text \<open>The calls that would make a name appear.\<close>

definition makes :: "bytes \<Rightarrow> site_call call \<Rightarrow> bool" where
  "makes p c = (case c of LinkObject q r \<Rightarrow> r = p | CreateStaging q \<Rightarrow> q = p | _ \<Rightarrow> False)"

definition draws :: "exlib \<Rightarrow> bytes \<Rightarrow> site_call call \<Rightarrow> site_reply reply \<Rightarrow> bool" where
  "draws lib operation c r \<longleftrightarrow>
     c = Other Entropy \<and> (\<exists>e. r = OtherReply (EntropyReply (Some e)) \<and> operation_id_of lib e = operation)"

definition drawing :: "exlib \<Rightarrow> bytes \<Rightarrow> bool \<Rightarrow> site_call call \<Rightarrow> site_reply reply \<Rightarrow> bool" where
  "drawing lib operation fresh c r \<longleftrightarrow> fresh \<and> \<not> draws lib operation c r"

definition may_make :: "bytes \<Rightarrow> bool \<Rightarrow> site_call call \<Rightarrow> bool" where
  "may_make ip fresh c \<longleftrightarrow> (fresh \<longrightarrow> \<not> makes ip c)"

interpretation clearing: monitor "may_unlink ap" "clearing ip" "(\<le>)" "\<lambda>c. c \<noteq> UnlinkName ap" for ap ip
  by unfold_locales (auto simp: clearing_def may_unlink_def split: call.splits)

interpretation marking: monitor "may_submit iref" "marking iref ap ip" "(\<le>)" "\<lambda>c. \<not> submits iref c" for iref ap ip
  by unfold_locales (auto simp: marking_def may_submit_def split: call.splits)

interpretation drawing: monitor "may_make ip" "drawing lib operation" "\<lambda>g h. h \<longrightarrow> g" "\<lambda>c. \<not> makes ip c" for ip lib operation
  by unfold_locales (auto simp: drawing_def may_make_def)

section \<open>States that are never left\<close>

lemma cleared_stays: "2 \<le> g \<Longrightarrow> keeps (may_unlink ap) (clearing ip) (\<lambda>_ h. 2 \<le> h) p g"
  by (induction p arbitrary: g) (auto simp: may_unlink_def clearing_def split: call.splits)

lemma drawn_stays: "keeps (may_make ip) (drawing lib operation) (\<lambda>_ _. True) p False"
  by (induction p) (auto simp: may_make_def drawing_def)

section \<open>Calls the monitors watch\<close>

lemma link_marks:
  "keeps (may_submit iref) (marking iref ap ip) (\<lambda>l h. g \<le> h \<and> (l = Linked \<and> q = ap \<longrightarrow> 1 \<le> h)) (link_object p q) g"
  by (auto simp: link_object_def keeps_perform may_submit_def submits_def marking_def split: reply.splits)

lemma sync_marks:
  "keeps (may_submit iref) (marking iref ap ip) (\<lambda>ok h. g \<le> h \<and> (ok \<and> d = Objects \<and> 1 \<le> g \<longrightarrow> 2 \<le> h)) (sync_directory d) g"
  by (auto simp: sync_directory_def keeps_perform may_submit_def submits_def marking_def split: reply.splits)

lemma open_marks:
  "keeps (may_submit iref) (marking iref ap ip)
    (\<lambda>r h. g \<le> h \<and> ((\<exists>fh i. r = Opened fh i) \<and> p = ip \<and> 2 \<le> g \<longrightarrow> 3 \<le> h)) (open_object p) g"
  by (auto simp: open_object_def keeps_perform may_submit_def submits_def marking_def split: reply.splits)

lemma open_clears:
  "keeps (may_unlink ap) (clearing ip) (\<lambda>r h. g \<le> h \<and> (r = Absent \<and> p = ip \<longrightarrow> 1 \<le> h)) (open_object p) g"
  by (auto simp: open_object_def keeps_perform may_unlink_def clearing_def split: reply.splits)

lemma sync_clears:
  "keeps (may_unlink ap) (clearing ip) (\<lambda>ok h. g \<le> h \<and> (ok \<and> d = Objects \<and> 1 \<le> g \<longrightarrow> 2 \<le> h)) (sync_directory d) g"
  by (auto simp: sync_directory_def keeps_perform may_unlink_def clearing_def split: reply.splits)

text \<open>Which tame calls are harmless.\<close>

lemma tame_clearing: "within (tame U L X) p \<Longrightarrow> \<not> U ap \<Longrightarrow> \<not> temporary ap \<Longrightarrow> within (\<lambda>c. c \<noteq> UnlinkName ap) p"
  by (erule within_mono) auto

definition no_submit :: "site_call \<Rightarrow> bool" where
  "no_submit x = (case x of SubmitExchange ref ob rv l \<Rightarrow> False | _ \<Rightarrow> True)"

lemma tame_marking: "within (tame U L no_submit) p \<Longrightarrow> within (\<lambda>c. \<not> submits iref c) p"
  by (erule within_mono) (auto simp: submits_def no_submit_def split: call.splits site_call.splits)

lemma tame_drawing: "within (tame U L X) p \<Longrightarrow> \<not> L ip \<Longrightarrow> \<not> temporary ip \<Longrightarrow> within (\<lambda>c. \<not> makes ip c) p"
  by (erule within_mono) (auto simp: makes_def split: call.splits)

section \<open>Importing marks\<close>

lemma platform_publish_marks:
  "keeps (may_submit iref) (marking iref ap ip) (\<lambda>x h. fst x \<and> snd x = None \<longrightarrow> 2 \<le> h) (platform_publish t ap) g"
  unfolding platform_publish_def
proof (rule keeps_bindI [OF link_marks], goal_cases)
  case (1 l h)
  show ?case
  proof (cases l)
    case Linked
    with 1 have h: "1 \<le> h" by simp
    show ?thesis
      unfolding Linked link_reply.case
    proof (rule keeps_bindI [OF sync_marks], goal_cases)
      case (1 ok h')
      have "within (\<lambda>c. \<not> submits iref c)
          (bind (unlink_name t) (\<lambda>unlinked.
             if unlinked = UnlinkFailed then Return (True, Some CleanupIncomplete)
             else bind (sync_directory Temporary) (\<lambda>synced.
               Return (True, if synced then None else Some CleanupIncomplete))) :: _ ex_prog)"
        by (rule tame_marking [where U = "\<lambda>_. True" and L = "\<lambda>_. True"])
           (auto intro!: within_bind within_intros tame_named_calls)
      with 1 h show ?case by (auto intro!: marking.keeps_harmless)
    qed
  qed simp_all
qed

lemma publish_marks:
  "keeps (may_submit iref) (marking iref ap ip) (\<lambda>x h. fst x \<and> snd x = None \<longrightarrow> 2 \<le> h) (publish_no_replace t ap) g"
proof -
  have c: "within (\<lambda>c. \<not> submits iref c) (check_root :: _ ex_prog)"
    by (rule tame_marking [where U = "\<lambda>_. True" and L = "\<lambda>_. True"]) (rule within_intros)
  show ?thesis
    unfolding publish_no_replace_def
    by (auto intro!: marking.keeps_harmless_bind [OF c] keeps_bindI [OF platform_publish_marks] split: if_splits)
qed


lemmas quiet_store =
  tame_calls [where U = "\<lambda>_. True" and L = "\<lambda>_. True" and X = no_submit, THEN tame_marking]
  tame_verify [where U = "\<lambda>_. True" and L = "\<lambda>_. True" and X = no_submit, THEN tame_marking]
  tame_copy [where U = "\<lambda>_. True" and L = "\<lambda>_. True" and X = no_submit, THEN tame_marking]
  tame_bound_ready [where U = "\<lambda>_. True" and L = "\<lambda>_. True" and X = no_submit, THEN tame_marking]

lemmas quiet_ready = tame_bound_ready [where U = "\<lambda>_. True" and L = "\<lambda>_. True" and X = no_submit, THEN tame_marking]

lemma quiet_named_calls:
  "within (\<lambda>c. \<not> submits iref c) (unlink_name p)" "within (\<lambda>c. \<not> submits iref c) (link_object p q)"
  "within (\<lambda>c. \<not> submits iref c) (create_staging p)" "within (\<lambda>c. \<not> submits iref c) (remove_private p)"
  by (auto simp: remove_private_def call_defs perform_def submits_def intro!: within_bind)

text \<open>An import that published: its result is a reference and its receipt counts one write.\<close>

definition published :: "import_receipt \<times> (store_error + record_ref) \<Rightarrow> bool" where
  "published x \<longleftrightarrow> (\<exists>ref. snd x = Inr ref) \<and> ir_writes (fst x) = 1"

lemma harmless_unpublished:
  assumes "within (\<lambda>c. \<not> submits iref c) p" "returns (\<lambda>x. \<not> P x) p"
  shows "keeps (may_submit iref) (marking iref ap ip) (\<lambda>x h. P x \<longrightarrow> 2 \<le> h) p g"
  by (rule marking.keeps_harmless_returns [OF assms]) simp

lemma harmless_marked:
  assumes "within (\<lambda>c. \<not> submits iref c) p" "2 \<le> g"
  shows "keeps (may_submit iref) (marking iref ap ip) (\<lambda>x h. P x \<longrightarrow> 2 \<le> h) p g"
  by (rule marking.keeps_harmless [OF assms(1)]) (use assms(2) in simp)

lemma tame_import_publish:
  "L (record_relative_path (rr_kind ref) (rr_id ref)) \<Longrightarrow> temporary t \<Longrightarrow> within (tame U L X) (import_publish lib limits ref t receipt)"
  by (auto simp: import_publish_def publish_no_replace_def platform_publish_def Let_def
      intro!: within_bind within_intros tame_named_calls split: store_splits)

lemma import_publish_marks:
  assumes "record_relative_path (rr_kind ref) (rr_id ref) = ap" "ir_writes receipt = 0"
  shows "keeps (may_submit iref) (marking iref ap ip) (\<lambda>x h. published (fst x, fst (snd x)) \<longrightarrow> 2 \<le> h)
    (import_publish lib limits ref t receipt) g"
  unfolding import_publish_def Let_def assms(1)
proof (rule keeps_bindI [OF publish_marks], goal_cases)
  case (1 x h)
  obtain pub err where x: "x = (pub, err)" by (cases x)
  let ?verify = "verify_record_relative lib False ap (rr_kind ref) (rr_id ref) (rl_record_bytes limits) ::
    (store_error + int64) ex_prog"
  show ?case
  proof (cases "pub \<and> err = None")
    case True
    with 1 x have "2 \<le> h" by simp
    with True show ?thesis
      by (simp add: x)
         (intro harmless_marked tame_marking [where U = "\<lambda>_. True" and L = "\<lambda>_. True"];
          auto intro!: within_bind within_intros split: store_splits)
  next
    case False
    then show ?thesis
      unfolding x
      by (intro harmless_unpublished tame_marking [where U = "\<lambda>_. True" and L = "\<lambda>_. True"])
         (use assms(2) in \<open>auto simp: published_def intro!: within_bind within_intros returns_bindI [OF any_result]
            split: store_splits\<close>)
  qed
qed

lemma import_staged_marks:
  assumes "record_relative_path k (record_id_of lib k payload) = ap"
  shows "keeps (may_submit iref) (marking iref ap ip) (\<lambda>x h. published (fst x, fst (snd x)) \<longrightarrow> 2 \<le> h)
    (import_staged lib limits k payload t fh) g"
  unfolding import_staged_def Let_def
  by (auto simp: assms published_def no_import_def split_def
      intro!: marking.keeps_harmless_bind quiet_store keeps_mono [OF import_publish_marks] split: store_splits)

lemma import_marks:
  assumes "record_relative_path k (record_id_of lib k payload) = ap"
  shows "keeps (may_submit iref) (marking iref ap ip) (\<lambda>x h. published x \<longrightarrow> 2 \<le> h)
    (bound_import_record lib b k payload limits) g"
  unfolding bound_import_record_def import_record_session_def Let_def
  by (auto simp: published_def no_import_def split_def
      intro!: marking.keeps_harmless_bind quiet_store quiet_named_calls keeps_bindI [OF import_staged_marks [OF assms]]
      split: store_splits)


section \<open>Verifying marks\<close>

lemma verify_relative_marks:
  "keeps (may_submit iref) (marking iref ap ip) (\<lambda>x h. g \<le> h \<and> ((\<exists>n. x = Inr n) \<and> p = ip \<and> 2 \<le> g \<longrightarrow> 3 \<le> h))
    (verify_record_relative lib c p k i m) g"
  unfolding verify_record_relative_def close_reopened_def
proof (rule keeps_bindI [OF open_marks], goal_cases)
  case (1 r h)
  then show ?case
    by (auto intro!: marking.keeps_harmless_bind quiet_store split: open_reply.split)
qed

lemma verify_records_marks:
  assumes "record_relative_path (rr_kind r) (rr_id r) = ip" "2 \<le> g"
  shows "keeps (may_submit iref) (marking iref ap ip) (\<lambda>x h. snd x = None \<longrightarrow> 3 \<le> h)
    (bound_verify_record_set lib b (r # rs) limits) g"
proof -
  have rest: "keeps (may_submit iref) (marking iref ap ip) (\<lambda>x h. snd x = None \<longrightarrow> 3 \<le> h) (verify_records lib limits rs' s) h"
    if "3 \<le> h" for rs' s h
    using tame_verify_records [where U = "\<lambda>_. True" and L = "\<lambda>_. True", THEN tame_marking]
    by (rule marking.keeps_harmless) (use that in simp)
  show ?thesis
    unfolding bound_verify_record_set_def verify_record_set_session_def verify_records.simps
  proof (rule marking.keeps_harmless_bind [OF quiet_ready], goal_cases)
    case (1 err h)
    show ?case
    proof (cases "err = None \<and> valid_record_set (r # rs) limits")
      case True
      have "2 \<le> h" using 1 assms(2) by simp
      from True show ?thesis
        unfolding assms(1)
      proof (simp only: option.case simp_thms if_False, rule_tac keeps_bindI [OF verify_relative_marks], goal_cases)
        case (1 x h')
        then show ?case using \<open>2 \<le> h\<close> by (cases x) (auto intro!: rest)
      qed
    qed (auto split: option.split)
  qed
qed

section \<open>Calls of the exchange operations\<close>

lemma tame_site_calls [within_intros]:
  "within (tame U L no_submit) entropy" "within (tame U L no_submit) allocate"
  "within (tame U L no_submit) open_site" "within (tame U L no_submit) close_site"
  "within (tame U L no_submit) requests_made" "within (tame U L no_submit) (fresh_review s l x)"
  by (simp_all add: site_call_defs perform_def no_submit_def)

lemma tame_session [within_intros]:
  "within (tame U L no_submit) (session_ready s)"
  "within (tame U L no_submit) (session_load lib s k i consume)"
  "within (tame U L no_submit) (session_verify_set lib s rs)"
  "within (tame U L no_submit) (session_list s k)"
  by (auto simp: session_ready_def session_load_def session_verify_set_def session_list_def
      intro!: within_bind within_intros)

lemma tame_session_check [within_intros]: "within (tame U L no_submit) (session_check s)"
  by (auto simp: session_check_def intro!: within_bind within_intros split: store_splits)

lemma tame_load_intent [within_intros]: "within (tame U L no_submit) (load_intent lib s i)"
  by (auto simp: load_intent_def Let_def intro!: within_bind within_intros split: store_splits)

lemma tame_record_present [within_intros]: "within (tame U L no_submit) (record_present lib s r)"
  by (auto simp: record_present_def intro!: within_bind within_intros)

lemma tame_scan_candidates [within_intros]: "within (tame U L no_submit) (scan_candidates lib s i iref a aref rs u f)"
  by (induction rs arbitrary: u f) (auto simp: Let_def intro!: within_bind within_intros split: store_splits)

lemma tame_scan_outcomes [within_intros]: "within (tame U L no_submit) (scan_outcomes lib s i iref a aref)"
  by (auto simp: scan_outcomes_def Let_def intro!: within_bind within_intros split: store_splits)

lemma tame_confirm_reservation [within_intros]: "within (tame U L no_submit) (confirm_reservation lib s v a ref receipt)"
  by (auto simp: confirm_reservation_def Let_def intro!: within_bind within_intros split: store_splits)

lemma tame_list_retention [within_intros]: "within (tame U L no_submit) (list_retention_kind s k u)"
  by (auto simp: list_retention_kind_def Let_def intro!: within_bind within_intros split: store_splits)

lemma tame_candidates [within_intros]:
  "within (tame U L no_submit) (load_retention_candidate lib s r u)"
  "within (tame U L no_submit) (load_forget_candidate lib s r u)"
  "within (tame U L no_submit) (load_retention lib s i u)"
  by (auto simp: load_retention_candidate_def load_forget_candidate_def load_retention_def load_candidate_def Let_def
      intro!: within_bind within_intros split: store_splits)

lemma tame_scan_pass: "(\<And>r u. within P (load r u)) \<Longrightarrow> within P (scan_pass load match rs u f)"
  by (induction rs arbitrary: u f) (auto intro!: within_bind split: store_splits)

lemma tame_scan_stable: "(\<And>r u. within (tame U L no_submit) (load r u)) \<Longrightarrow>
    within (tame U L no_submit) (scan_stable s k load match u)"
  by (auto simp: scan_stable_def intro!: within_bind within_intros tame_scan_pass split: store_splits)

lemma tame_find [within_intros]:
  "within (tame U L no_submit) (find_retention_by_intent lib s i u)"
  "within (tame U L no_submit) (find_forget_by_intent lib s i u)"
  "within (tame U L no_submit) (find_forget_by_retention lib s i u)"
  by (auto simp: find_retention_by_intent_def find_forget_by_intent_def find_forget_by_retention_def
      intro!: tame_scan_stable within_intros)

lemma tame_load_all: "(\<And>r u. within P (load r u)) \<Longrightarrow> within P (load_all load rs u es)"
  by (induction rs arbitrary: u es) (auto intro!: within_bind split: store_splits)

lemma tame_list_all_stable: "(\<And>r u. within (tame U L no_submit) (load r u)) \<Longrightarrow>
    within (tame U L no_submit) (list_all_stable s k load u)"
  by (auto simp: list_all_stable_def intro!: within_bind within_intros tame_load_all split: store_splits)

lemma tame_any_present [within_intros]: "within (tame U L no_submit) (any_present lib s rs)"
  by (induction rs) (auto intro!: within_bind within_intros split: store_splits)

lemma tame_originals [within_intros]:
  "within (tame U L no_submit) (retained_originals_remain lib s r)"
  "within (tame U L no_submit) (ensure_pruned_originals_absent lib s r)"
  by (auto simp: retained_originals_remain_def ensure_pruned_originals_absent_def simp del: any_present.simps
      intro!: within_bind within_intros)

lemma tame_status_parts [within_intros]:
  "within (tame U L no_submit) (status_of_attempt lib s v a aref f st)"
  "within (tame U L no_submit) (status_of_retention lib s r ref st)"
  by (auto simp: status_of_attempt_def status_of_retention_def Let_def intro!: within_bind within_intros split: store_splits)

lemma tame_status_of_intent [within_intros]: "within (tame U L no_submit) (status_of_intent lib s v st)"
  by (auto simp: status_of_intent_def Let_def intro!: within_bind within_intros split: store_splits)

lemma tame_status [within_intros]: "within (tame U L no_submit) (exchange_status lib s i)"
  by (auto simp: exchange_status_def Let_def intro!: within_bind within_intros split: store_splits)

lemma tame_confirm [within_intros]: "within (tame U L no_submit) (confirm_durable lib s rs)"
  by (auto simp: confirm_durable_def intro!: within_bind within_intros split: store_splits)

lemma tame_operation_loads [within_intros]: "within (tame U L no_submit) (load_operation_intent lib s r l)"
  by (auto simp: load_operation_intent_def Let_def intro!: within_bind within_intros split: store_splits)

lemma tame_intent_passes [within_intros]:
  "within (tame U L no_submit) (collect_intents lib s rs l)"
  "within (tame U L no_submit) (reload_intents lib s rs l)"
  by (induction rs arbitrary: l) (auto intro!: within_bind within_intros split: store_splits)

lemma tame_list_operations [within_intros]: "within (tame U L no_submit) (list_operations lib s)"
  by (auto simp: list_operations_def intent_inventory_def list_retained_def finish_list_def Let_def
      intro!: within_bind within_intros tame_list_all_stable split: store_splits)

lemma tame_session_import:
  "L (record_relative_path k (record_id_of (ex_go lib) k raw)) \<Longrightarrow> within (tame U L X) (session_import lib s k raw)"
  by (simp add: session_import_def tame_bound_import)

lemma tame_remove_exactly:
  assumes "\<And>r. r \<in> set rs \<Longrightarrow> valid_record_kind (rr_kind r) \<Longrightarrow> U (record_relative_path (rr_kind r) (rr_id r))"
  shows "within (tame U L X) (remove_exactly lib s rs t)"
  using assms
  by (induction rs arbitrary: t) (auto simp: Let_def intro!: within_bind tame_bound_remove split: store_splits)

end
