(* ===== verification/ExchangeCommands.thy ===== *)
theory ExchangeCommands
  imports ExchangeGuards
begin

text \<open>
  The guarantees of \<open>ExchangeGuards\<close> for whole commands. A record is \<^emph>\<open>identified\<close> by a reference when no other bytes
  have its digest; the codecs are \<^emph>\<open>faithful\<close> when an encoding has no line feed and decodes to its value.
\<close>

section \<open>Records and their references\<close>

abbreviation line_feed :: char where
  "line_feed \<equiv> CHR 0x0A"

definition faithful_codec :: "'v codec \<Rightarrow> bool" where
  "faithful_codec codec \<longleftrightarrow>
     (\<forall>v raw. cd_marshal codec v = Some raw \<longrightarrow> line_feed \<notin> set raw \<and> cd_decode codec (raw @ [line_feed]) = Some v)"

definition identifies :: "exlib \<Rightarrow> 'v codec \<Rightarrow> bytes \<Rightarrow> 'v \<Rightarrow> record_ref \<Rightarrow> bool" where
  "identifies lib codec kind v ref \<longleftrightarrow>
     (\<exists>raw. cd_marshal codec v = Some raw \<and> rr_kind ref = kind \<and>
       rr_id ref = record_id_of (ex_go lib) kind (raw @ [line_feed]) \<and>
       (\<forall>d. record_id_of (ex_go lib) kind d = rr_id ref \<longrightarrow> d = raw @ [line_feed]))"

lemma faithful_inject:
  "faithful_codec codec \<Longrightarrow> cd_marshal codec v = Some raw \<Longrightarrow> cd_marshal codec w = Some raw \<Longrightarrow> v = w"
  unfolding faithful_codec_def by (metis option.inject)

lemma decode_record_Inr:
  assumes "decode_record lib codec valid limits err d = Inr v"
  shows "err = None \<and> valid v \<and> (\<exists>raw. cd_marshal codec v = Some raw \<and> d = raw @ [line_feed])"
  using assms by (auto simp: decode_record_def split: if_splits option.splits)

lemma encode_record_Inr:
  assumes "encode_record codec valid limits v = Inr raw"
  shows "valid v \<and> (\<exists>r. cd_marshal codec v = Some r \<and> raw = r @ [line_feed])"
  using assms by (auto simp: encode_record_def split: if_splits option.splits)

lemma identified_value:
  assumes "identifies lib codec kind v ref" "faithful_codec codec"
    and "cd_marshal codec w = Some raw" "record_id_of (ex_go lib) kind (raw @ [line_feed] @ rest) = rr_id ref"
  shows "w = v"
proof -
  obtain r where r: "cd_marshal codec v = Some r" "\<forall>d. record_id_of (ex_go lib) kind d = rr_id ref \<longrightarrow> d = r @ [line_feed]"
    using assms(1) by (auto simp: identifies_def)
  then have "raw @ line_feed # rest = r @ [line_feed]" using assms(4) by auto
  moreover have "line_feed \<notin> set r" using r(1) assms(2) by (auto simp: faithful_codec_def)
  ultimately have "raw = r" by (auto simp: append_eq_append_conv2 append_eq_Cons_conv Cons_eq_append_conv)
  with r(1) assms(2,3) show ?thesis using faithful_inject by metis
qed

lemma exact_record_ref_iff:
  "exact_record_ref lib codec kind v ref \<Longrightarrow>
    rr_kind ref = kind \<and> (\<exists>raw. cd_marshal codec v = Some raw \<and> rr_id ref = record_id_of (ex_go lib) kind (raw @ [line_feed]))"
  by (cases ref) (auto simp: exact_record_ref_def compute_record_ref_def split: if_splits option.splits)

lemma exact_identified:
  assumes "identifies lib codec kind v ref" "faithful_codec codec" "exact_record_ref lib codec kind w ref'"
    and "rr_id ref' = rr_id ref"
  shows "w = v"
  using exact_record_ref_iff [OF assms(3)] identified_value [OF assms(1,2), of w _ "[]"] assms(4) by auto

section \<open>What loads return\<close>

lemma session_load_authentic:
  "returns (authentic_load (ex_go lib) k i consume) (session_load lib s k i consume)"
  by (simp add: session_load_def bound_load_authentic)

definition authentic_intent :: "exlib \<Rightarrow> verified_intent \<Rightarrow> bool" where
  "authentic_intent lib v \<longleftrightarrow>
     rr_kind (vi_ref v) = intent_kind \<and>
     (\<exists>raw rest. cd_marshal (ex_intent lib) (vi_record v) = Some raw \<and>
       record_id_of (ex_go lib) intent_kind (raw @ [line_feed] @ rest) = rr_id (vi_ref v))"

lemma load_intent_authentic:
  "returns (\<lambda>r. \<forall>v. r = Inr v \<longrightarrow> authentic_intent lib v) (load_intent lib s i)"
proof -
  have step: "returns (\<lambda>r. \<forall>v. r = Inr v \<longrightarrow> authentic_intent lib v)
      (case ld_result ld of
         Inl e \<Rightarrow> Return (Inl (load_error ld e))
       | Inr ref \<Rightarrow>
           (case decoded_value ld of
              None \<Rightarrow> Return (Inl CorruptExchange)
            | Some v \<Rightarrow>
                if rr_id ref \<noteq> i \<or> rr_kind ref \<noteq> intent_kind \<or> \<not> valid_intent lib v then Return (Inl CorruptExchange)
                else bind allocate (\<lambda>a.
                  let verified = \<lparr>vi_record = v, vi_ref = ref, vi_store = store_of s,
                        vi_authority = Some \<lparr>ia_address = a, ia_session = sn_address s, ia_store = store_of s,
                          ia_intent = rr_id ref, ia_operation = in_operation v\<rparr>\<rparr>
                  in Return (if \<not> intent_valid_for lib verified s then Inl CorruptExchange else Inr verified))))"
    if a: "authentic_load (ex_go lib) intent_kind i (decode_intent lib (sn_limits s)) ld" for ld
  proof (cases "ld_result ld")
    case (Inr ref)
    then obtain v given rest where v: "rr_kind ref = intent_kind" "rr_id ref = i" "ld_consumed ld = Some (Inr v)"
        "decode_intent lib (sn_limits s) None given = Inr v"
        "record_id_of (ex_go lib) intent_kind (given @ rest) = i"
      using a by (auto simp: authentic_load_def)
    then obtain raw where raw: "cd_marshal (ex_intent lib) v = Some raw" "given = raw @ [line_feed]"
      using decode_record_Inr [OF v(4) [unfolded decode_intent_def]] by blast
    have "authentic_intent lib \<lparr>vi_record = v, vi_ref = ref, vi_store = st, vi_authority = au\<rparr>" for st au
      unfolding authentic_intent_def using raw v by auto
    then show ?thesis
      using Inr v(3) by (auto simp: decoded_value_def Let_def intro!: returns_bindI [OF any_result])
  qed simp
  show ?thesis
    unfolding load_intent_def
    by (auto intro!: returns_bindI [OF any_result] returns_bindI [OF session_load_authentic] step split: option.split
        simp del: bind.simps)
qed

lemma authentic_intent_identified:
  assumes "identifies lib (ex_intent lib) intent_kind i iref" "faithful_codec (ex_intent lib)"
    and "authentic_intent lib v" "rr_id (vi_ref v) = rr_id iref"
  shows "vi_record v = i"
  using assms(3,4) identified_value [OF assms(1,2)] by (auto simp: authentic_intent_def)

section \<open>Reserving\<close>

lemma confirm_reservation_marks:
  assumes "record_relative_path (rr_kind (vi_ref v)) (rr_id (vi_ref v)) = ip" "2 \<le> g"
  shows "keeps (may_submit iref) (marking iref ap ip) (\<lambda>x h. (\<exists>r. snd x = Inr r) \<longrightarrow> 3 \<le> h)
    (confirm_reservation lib s v a ref receipt) g"
  unfolding confirm_reservation_def
proof (rule marking.keeps_harmless_bind, goal_cases)
  case 1
  show ?case by (rule tame_marking [where U = "\<lambda>_. True" and L = "\<lambda>_. True"]) (rule within_intros)
next
  case (2 x h)
  have "2 \<le> h" using 2 assms(2) by simp
  note marks = verify_records_marks [OF assms(1) this]
  have quiet: "within (\<lambda>c. \<not> submits iref c) allocate"
    by (rule tame_marking [where U = "\<lambda>_. True" and L = "\<lambda>_. True"]) (rule within_intros)
  show ?case
    by (auto simp: session_verify_set_def Let_def intro!: keeps_bindI [OF marks] marking.keeps_harmless_bind [OF quiet]
        split: prod.split sum.split option.split)
qed

lemma reserve_marks:
  assumes "record_relative_path (rr_kind (vi_ref v)) (rr_id (vi_ref v)) = ip"
    and "cd_marshal (ex_attempt lib) (attempt_from_intent (vi_record v) (vi_ref v)) = Some araw"
    and "record_relative_path attempt_kind (record_id_of (ex_go lib) attempt_kind (araw @ [line_feed])) = ap"
  shows "keeps (may_submit iref) (marking iref ap ip) (\<lambda>x h. (\<exists>r. snd x = Inr r) \<longrightarrow> 3 \<le> h)
    (reserve_attempt lib s v ob rv) g"
proof -
  have quiet: "within (\<lambda>c. \<not> submits iref c) (session_ready s)" "within (\<lambda>c. \<not> submits iref c) (record_present lib s r)" for r
    by (rule tame_marking [where U = "\<lambda>_. True" and L = "\<lambda>_. True"], rule within_intros)+
  have raw: "record_relative_path attempt_kind (record_id_of (ex_go lib) attempt_kind raw) = ap"
    if "encode_attempt lib l (attempt_from_intent (vi_record v) (vi_ref v)) = Inr raw" for l raw
    using encode_record_Inr [OF that [unfolded encode_attempt_def]] assms(2,3) by auto
  show ?thesis
    unfolding reserve_attempt_def session_import_def Let_def
    by (auto simp: publication_consistent_def published_def intro!: marking.keeps_harmless_bind quiet
        keeps_bindI [OF import_marks [OF raw]] keeps_mono [OF confirm_reservation_marks [OF assms(1)]]
        split: option.split sum.split bool.split)
qed


section \<open>What the retention scans return\<close>

lemma load_candidate_result:
  "returns (\<lambda>x. \<forall>v ref. snd x = Inr (v, ref) \<longrightarrow> rr_kind ref = rr_kind candidate \<and> (\<exists>given. decode None given = Inr v))
    (load_candidate lib s decode store candidate usage)"
proof (cases "rr_size candidate > 0 \<and> rr_size candidate > el_status_bytes (sn_limits s) - ru_bytes usage")
  case False
  show ?thesis
    unfolding load_candidate_def if_not_P [OF False] Let_def
  proof (rule returns_bindI [OF session_load_authentic], goal_cases)
    case (1 ld)
    show ?case
    proof (cases "ld_result ld")
      case (Inr ref)
      then obtain v given where "rr_kind ref = rr_kind candidate" "decoded_value ld = Some v" "decode None given = Inr v"
        using 1 by (auto simp: authentic_load_def decoded_value_def)
      then show ?thesis using Inr by auto
    qed simp
  qed
qed (simp add: load_candidate_def)

lemma load_retention_result:
  "returns (\<lambda>x. \<forall>v ref. snd x = Inr (v, ref) \<longrightarrow> rr_kind ref = rr_kind candidate \<and> valid_retention lib v)
    (load_retention_candidate lib s candidate usage)"
  unfolding load_retention_candidate_def
  by (rule returns_mono [OF load_candidate_result]) (metis decode_retention_def decode_record_Inr)

lemma load_forget_result:
  "returns (\<lambda>x. \<forall>v ref. snd x = Inr (v, ref) \<longrightarrow> ref = candidate \<and> valid_forget lib v)
    (load_forget_candidate lib s candidate usage)"
  unfolding load_forget_candidate_def
proof (rule returns_bindI [OF load_candidate_result], goal_cases)
  case (1 x)
  obtain u r where x: "x = (u, r)" by (cases x)
  show ?case
    using 1 unfolding x
    by (cases r) (auto simp: decode_forget_def dest: decode_record_Inr)
qed

lemma scan_pass_result:
  assumes "\<And>r u. r \<in> set rs \<Longrightarrow> returns (\<lambda>x. \<forall>v ref. snd x = Inr (v, ref) \<longrightarrow> Q v ref) (load r u)"
    and "\<forall>v ref. found = Some (v, ref) \<longrightarrow> Q v ref \<and> match v"
  shows "returns (\<lambda>x. \<forall>v ref. snd x = Inr (Some (v, ref)) \<longrightarrow> Q v ref \<and> match v) (scan_pass load match rs u found)"
  using assms
proof (induction rs arbitrary: u found)
  case (Cons r rs)
  have "returns (\<lambda>x. \<forall>v ref. snd x = Inr (v, ref) \<longrightarrow> Q v ref) (load r u)" using Cons.prems(1) by simp
  then show ?case
    unfolding scan_pass.simps
  proof (rule returns_bindI, goal_cases)
    case (1 x)
    then show ?case using Cons.prems
      by (auto split: prod.split sum.split intro!: Cons.IH)
  qed
qed simp

lemma list_retention_kinds:
  "returns (\<lambda>x. \<forall>rs. snd x = Inr rs \<longrightarrow> (\<forall>r \<in> set rs. rr_kind r = k)) (list_retention_kind s k u)"
  unfolding list_retention_kind_def session_list_def Let_def
  by (rule returns_bindI [OF list_kind]) (auto split: prod.split option.split)

lemma scan_stable_result:
  assumes "\<And>r u. rr_kind r = k \<Longrightarrow> returns (\<lambda>x. \<forall>v ref. snd x = Inr (v, ref) \<longrightarrow> Q v ref) (load r u)"
  shows "returns (\<lambda>x. \<forall>v ref. snd x = Inr (Some (v, ref)) \<longrightarrow> Q v ref \<and> match v) (scan_stable s k load match u)"
proof -
  have pass: "returns (\<lambda>x. \<forall>v ref. snd x = Inr (Some (v, ref)) \<longrightarrow> Q v ref \<and> match v) (scan_pass load match rs u None)"
    if "\<forall>r \<in> set rs. rr_kind r = k" for rs u
    by (rule scan_pass_result) (use that assms in auto)
  show ?thesis
    unfolding scan_stable_def
  proof (rule returns_bindI [OF list_retention_kinds], goal_cases)
    case (1 x)
    obtain u before where x: "x = (u, before)" by (cases x)
    show ?case
    proof (cases before)
      case (Inr rs)
      show ?thesis
        unfolding x Inr prod.case sum.case
        using 1 by (intro returns_bindI [OF any_result]) (auto simp: x Inr intro!: pass returns_bindI [OF any_result]
          split: prod.split sum.split)
    qed (simp add: x)
  qed
qed

lemma find_forget_result:
  "returns (\<lambda>x. \<forall>f ref. snd x = Inr (Some (f, ref)) \<longrightarrow>
      (valid_forget lib f \<and> rr_kind ref = forget_kind) \<and> rr_id (fg_retention_ref f) = i)
    (find_forget_by_retention lib s i u)"
  unfolding find_forget_by_retention_def
  by (rule scan_stable_result [where Q = "\<lambda>f ref. valid_forget lib f \<and> rr_kind ref = forget_kind"])
     (rule returns_mono [OF load_forget_result], auto)

section \<open>Names used by the commands\<close>

lemma valid_kinds [simp]:
  "valid_record_kind intent_kind" "valid_record_kind attempt_kind" "valid_record_kind outcome_kind"
  "valid_record_kind retention_kind" "valid_record_kind forget_kind"
  by (simp_all add: valid_record_kind_def all_record_kinds_def)

lemma distinct_kinds [simp]:
  "intent_kind \<noteq> attempt_kind" "intent_kind \<noteq> outcome_kind" "intent_kind \<noteq> retention_kind" "intent_kind \<noteq> forget_kind"
  "attempt_kind \<noteq> intent_kind" "attempt_kind \<noteq> outcome_kind" "attempt_kind \<noteq> retention_kind" "attempt_kind \<noteq> forget_kind"
  "outcome_kind \<noteq> intent_kind" "retention_kind \<noteq> intent_kind" "forget_kind \<noteq> intent_kind"
  "outcome_kind \<noteq> attempt_kind" "retention_kind \<noteq> attempt_kind" "forget_kind \<noteq> attempt_kind"
  by (simp_all add: kind_defs)

text \<open>The name is not one of a record of the kind.\<close>

definition other_kind :: "bytes \<Rightarrow> bytes \<Rightarrow> bool" where
  "other_kind k p \<longleftrightarrow> (\<forall>i. p \<noteq> record_relative_path k i)"

lemma other_kind_path: "valid_record_kind k \<Longrightarrow> valid_record_kind k' \<Longrightarrow> k \<noteq> k' \<Longrightarrow> other_kind k (record_relative_path k' i)"
  unfolding other_kind_def using record_relative_path_kind by metis

lemma tame_others: "within (tame U L no_submit) p \<Longrightarrow> within (tame U L (\<lambda>_. True)) p"
  by (erule within_mono) (erule tame_mono, simp_all)

lemma tame_reserve:
  "L = other_kind intent_kind \<Longrightarrow> within (tame U L no_submit) (reserve_attempt lib s v ob rv)"
  by (auto simp: reserve_attempt_def Let_def intro!: within_bind within_intros tame_session_import other_kind_path
      split: store_splits)

lemma tame_publish_outcome: "L = other_kind intent_kind \<Longrightarrow> within (tame U L no_submit) (publish_outcome lib s v r oc)"
  by (auto simp: publish_outcome_def Let_def intro!: within_bind within_intros tame_session_import other_kind_path
      split: store_splits)

lemma tame_store_outcome: "L = other_kind intent_kind \<Longrightarrow> within (tame U L no_submit) (store_outcome lib s v r ob x)"
  by (auto simp: store_outcome_def Let_def intro!: within_bind within_intros tame_publish_outcome split: store_splits)

lemma tame_finish_submission [within_intros]: "within (tame U L no_submit) (finish_submission lib s i a b)"
  by (auto simp: finish_submission_def intro!: within_bind within_intros split: store_splits)

lemma tame_submit_reserved:
  assumes "L = other_kind intent_kind"
  shows "within (tame U L (\<lambda>_. True)) (submit_reserved lib s i v r ob)"
proof -
  have "within (tame U L (\<lambda>_. True)) (submit_exchange ref ob rv l)" for ref ob rv l
    by (simp add: submit_exchange_def perform_def)
  then show ?thesis
    unfolding submit_reserved_def Let_def
    by (intro within_bind)
       (auto intro!: within_bind tame_others tame_store_outcome assms within_intros split: prod.split)
qed

lemma tame_submit:
  assumes "L = other_kind intent_kind"
  shows "within (tame U L (\<lambda>_. True)) (submit_command lib s i want)"
  by (auto simp: submit_command_def review_and_reserve_def Let_def
      intro!: within_bind tame_others [OF within_intros(1)] tame_others [OF tame_load_intent] tame_others [OF tame_status]
        tame_others [OF tame_site_calls(3)] tame_others [OF tame_site_calls(4)] tame_others [OF tame_site_calls(5)]
        tame_others [OF tame_site_calls(6)] tame_others [OF tame_reserve [OF assms]] tame_submit_reserved [OF assms]
      split: prod.split sum.split option.split)

lemma tame_complete_prune:
  assumes "\<And>r'. r' \<in> {rt_intent_ref r, rt_attempt_ref r, rt_outcome_ref r} \<Longrightarrow>
      U (record_relative_path (rr_kind r') (rr_id r'))"
  shows "within (tame U L no_submit) (complete_prune lib s r ref p)"
  unfolding complete_prune_def Let_def
  by (auto intro!: within_bind within_intros tame_remove_exactly assms split: store_splits simp del: remove_exactly.simps)

lemma tame_prune:
  assumes "L = other_kind intent_kind"
  shows "within (tame (\<lambda>_. True) L no_submit) (prune lib s i operation)"
proof -
  have import: "within (tame (\<lambda>_. True) L no_submit) (session_import lib s retention_kind raw)" for raw
    by (rule tame_session_import) (simp add: assms other_kind_path)
  have terminal: "within (tame (\<lambda>_. True) L no_submit) (prune_terminal lib s r p)" for r p
    unfolding prune_terminal_def Let_def
    by (auto intro!: within_bind within_intros import tame_complete_prune split: store_splits)
  show ?thesis
    unfolding prune_def prune_live_def Let_def
    by (auto intro!: within_bind within_intros terminal tame_complete_prune split: store_splits)
qed

lemma tame_complete_forget:
  assumes "\<And>k j. k = retention_kind \<or> k = forget_kind \<Longrightarrow> U (record_relative_path k j)"
    and "rr_kind ref = retention_kind" "rr_kind fref = forget_kind"
  shows "within (tame U L no_submit) (complete_forget lib s r ref fref p)"
  unfolding complete_forget_def Let_def
  by (auto simp: assms intro!: within_bind within_intros tame_remove_exactly split: store_splits
      simp del: remove_exactly.simps)

lemma valid_forget_kind: "valid_forget lib f \<Longrightarrow> rr_kind (fg_retention_ref f) = retention_kind"
  by (auto simp: valid_forget_def dest: exact_record_ref_iff)

lemma tame_forget:
  assumes "L = other_kind intent_kind"
    and U: "\<And>k j. k = retention_kind \<or> k = forget_kind \<Longrightarrow> U (record_relative_path k j)"
  shows "within (tame U L no_submit) (forget lib s i operation)"
proof -
  have import: "within (tame U L no_submit) (session_import lib s forget_kind raw)" for raw
    by (rule tame_session_import) (simp add: assms other_kind_path)
  have kind: "returns (\<lambda>x. \<forall>ref. snd x = Inr ref \<longrightarrow> rr_kind ref = forget_kind) (session_import lib s forget_kind raw)" for raw
    unfolding session_import_def by (rule returns_mono [OF import_ref]) auto
  have retention: "returns (\<lambda>x. \<forall>v ref. snd x = Inr (v, ref) \<longrightarrow> rr_kind ref = retention_kind) (load_retention lib s i u)" for u
    unfolding load_retention_def by (rule returns_mono [OF load_retention_result]) auto
  have begin_f: "within (tame U L no_submit) (begin_forget lib s i operation p)" for p
    unfolding begin_forget_def Let_def
    by (auto intro!: within_bind_returns [OF tame_candidates(3) retention] within_bind within_intros
        within_bind_returns [OF import kind] tame_complete_forget U split: prod.split sum.split option.split)
  show ?thesis
    unfolding forget_def Let_def
    by (auto intro!: within_bind within_bind_returns [OF tame_find(3) find_forget_result] within_intros begin_f
        tame_complete_forget U valid_forget_kind split: prod.split sum.split option.split)
qed

end
