(* ===== verification/ExchangeProtocol.thy ===== *)
theory ExchangeProtocol
  imports ExchangeCommands
begin

text \<open>
  What each command guarantees about one prepared exchange, whatever the store and the site answer: \<open>Prune\<close> unlinks
  the attempt marker only behind the durable absence of the intent, the submit command sends only behind a durable
  marker and an intent that is still there, and only a \<open>Prepare\<close> that draws the operation's identity writes the intent.
\<close>

section \<open>One exchange\<close>

text \<open>The references of the intent and of its attempt, whose bytes are determined by their digests.\<close>

definition exchange_of :: "exlib \<Rightarrow> intent_record \<Rightarrow> record_ref \<Rightarrow> record_ref \<Rightarrow> bool" where
  "exchange_of lib i iref aref \<longleftrightarrow>
     faithful_codec (ex_intent lib) \<and> faithful_codec (ex_attempt lib) \<and>
     identifies lib (ex_intent lib) intent_kind i iref \<and>
     identifies lib (ex_attempt lib) attempt_kind (attempt_from_intent i iref) aref"

definition intent_path :: "record_ref \<Rightarrow> bytes" where
  "intent_path iref = record_relative_path intent_kind (rr_id iref)"

definition attempt_path :: "record_ref \<Rightarrow> bytes" where
  "attempt_path aref = record_relative_path attempt_kind (rr_id aref)"

lemma paths_facts [simp]:
  "attempt_path aref \<noteq> intent_path iref" "intent_path iref \<noteq> attempt_path aref"
  "\<not> temporary (intent_path iref)" "\<not> temporary (attempt_path aref)"
  "\<not> other_kind intent_kind (intent_path iref)" "\<not> other_kind attempt_kind (attempt_path aref)"
proof -
  show "attempt_path aref \<noteq> intent_path iref" "intent_path iref \<noteq> attempt_path aref"
    unfolding attempt_path_def intent_path_def
    using record_relative_path_kind [of attempt_kind intent_kind] by (metis distinct_kinds(1) valid_kinds(1,2))+
qed (auto simp: attempt_path_def intent_path_def other_kind_def)

lemma digest_paths:
  assumes "record_relative_path k (record_id_of lib k' d) = record_relative_path k (record_id_of lib k'' d')"
  shows "record_id_of lib k' d = record_id_of lib k'' d'"
  using assms by (auto simp: record_relative_path_def record_id_of_def trim_prefix_def has_prefix_def)

lemma identifies_id: "identifies lib codec k v ref \<Longrightarrow> rr_kind ref = k \<and> (\<exists>d. rr_id ref = record_id_of (ex_go lib) k d)"
  by (auto simp: identifies_def)

section \<open>Removal clears\<close>

lemma quiet_clearing:
  "within (tame (\<lambda>_. False) (\<lambda>_. True) (\<lambda>_. True)) p \<Longrightarrow> within (\<lambda>c. c \<noteq> UnlinkName (attempt_path aref)) p"
  by (erule tame_clearing) simp_all

lemma harmless_clears:
  "within (\<lambda>c. c \<noteq> UnlinkName ap) p \<Longrightarrow> returns (\<lambda>x. \<not> P x) p \<Longrightarrow>
    keeps (may_unlink ap) (clearing ip) (\<lambda>x h. g \<le> h \<and> (P x \<longrightarrow> Q h)) p g"
  by (rule clearing.keeps_harmless_returns [where R = "\<lambda>x. \<not> P x"]) auto

lemma verify_relative_clears:
  "keeps (may_unlink (attempt_path aref)) (clearing ip) (\<lambda>x h. g \<le> h \<and> (x = Inl RecordNotFound \<and> p = ip \<longrightarrow> 1 \<le> h))
    (verify_record_relative lib c p k i m) g"
  unfolding verify_record_relative_def close_reopened_def
proof (rule keeps_bindI [OF open_clears], goal_cases)
  case (1 r h)
  show ?case
  proof (cases r)
    case (Opened fh before)
    show ?thesis
      unfolding Opened open_reply.case
      by (rule keeps_mono [OF harmless_clears [where g = h and P = "\<lambda>x. x = Inl RecordNotFound" and Q = "\<lambda>h. 1 \<le> h"]],
          rule quiet_clearing)
         (use 1 in \<open>auto intro!: within_bind within_intros returns_bindI [OF any_result] split: store_splits\<close>)
  qed (use 1 in auto)
qed

lemma verify_removal_clears:
  "keeps (may_unlink (attempt_path aref)) (clearing ip) (\<lambda>x h. g \<le> h \<and> (x = Inr False \<and> p = ip \<longrightarrow> 1 \<le> h))
    (verify_removal_record lib limits p r) g"
  unfolding verify_removal_record_def
  by (rule keeps_bindI [OF verify_relative_clears]) (auto split: sum.split if_splits)

lemma remove_and_verify_clears:
  assumes "p \<noteq> attempt_path aref"
  shows "keeps (may_unlink (attempt_path aref)) (clearing ip) (\<lambda>x h. g \<le> h \<and> (snd x = None \<and> p = ip \<longrightarrow> 1 \<le> h))
    (remove_and_verify lib limits p r receipt) g"
proof -
  have quiet: "within (\<lambda>c. c \<noteq> UnlinkName (attempt_path aref)) (remove_record_name p)"
    using assms by (simp add: remove_record_name_def unlink_name_def perform_def)
  show ?thesis
    unfolding remove_and_verify_def
  proof (rule clearing.keeps_harmless_bind [OF quiet], goal_cases)
    case (1 err h)
    show ?case
    proof (cases err)
      case None
      show ?thesis
        unfolding None option.case
        by (rule keeps_bindI [OF verify_removal_clears]) (use 1 in \<open>auto split: sum.split bool.split\<close>)
    qed (use 1 in simp)
  qed
qed

lemma finish_removal_clears:
  assumes "1 \<le> g"
  shows "keeps (may_unlink (attempt_path aref)) (clearing ip) (\<lambda>x h. snd x = None \<longrightarrow> 2 \<le> h) (finish_removal had receipt) g"
proof -
  have c: "within (\<lambda>c. c \<noteq> UnlinkName (attempt_path aref)) (check_root :: bool ex_prog)"
    "within (\<lambda>c. c \<noteq> UnlinkName (attempt_path aref)) (sync_directory Temporary :: bool ex_prog)"
    by (rule quiet_clearing, rule within_intros)+
  have "keeps (may_unlink (attempt_path aref)) (clearing ip) (\<lambda>x h. x \<longrightarrow> 2 \<le> h) sync_record_removal g"
    unfolding sync_record_removal_def
    by (rule keeps_bindI [OF sync_clears]) (use assms in \<open>auto intro: clearing.keeps_harmless [OF c(2)]\<close>)
  then show ?thesis
    unfolding finish_removal_def Let_def
    by (rule keeps_bindI) (auto intro!: clearing.keeps_harmless_bind [OF c(1)])
qed

lemma remove_names_clears:
  assumes "record_relative_path (rr_kind r) (rr_id r) = intent_path iref" "object_present \<or> 1 \<le> g"
  shows "keeps (may_unlink (attempt_path aref)) (clearing (intent_path iref)) (\<lambda>x h. snd x = None \<longrightarrow> 2 \<le> h)
    (remove_names lib limits r had object_present staging_present receipt) g"
proof -
  have staging: "removal_staging_path r \<noteq> attempt_path aref"
    using temporary_paths(2,4) unfolding attempt_path_def by metis
  have rest: "keeps (may_unlink (attempt_path aref)) (clearing (intent_path iref)) (\<lambda>x h. snd x = None \<longrightarrow> 2 \<le> h)
      (bind (if staging_present then remove_and_verify lib limits (removal_staging_path r) r receipt else Return (receipt, None))
        (\<lambda>(receipt, err). case err of Some e \<Rightarrow> Return (receipt, Some e) | None \<Rightarrow> finish_removal had receipt)) h"
    if "1 \<le> h" for receipt h
  proof (cases staging_present)
    case True
    show ?thesis
      unfolding if_P [OF True]
      by (rule keeps_bindI [OF remove_and_verify_clears [OF staging]])
         (use that in \<open>auto intro!: finish_removal_clears split: prod.split option.split\<close>)
  qed (use that in \<open>auto intro!: finish_removal_clears\<close>)
  show ?thesis
  proof (cases object_present)
    case True
    show ?thesis
      unfolding remove_names_def Let_def assms(1) if_P [OF True]
      by (rule keeps_bindI [OF remove_and_verify_clears])
         (auto intro!: rest simp del: bind.simps split: prod.split option.split split del: if_split)
  next
    case False
    then show ?thesis
      using assms(2) rest [of g receipt] unfolding remove_names_def Let_def by simp
  qed
qed

lemma stage_and_remove_clears:
  assumes "record_relative_path (rr_kind r) (rr_id r) = intent_path iref"
  shows "keeps (may_unlink (attempt_path aref)) (clearing (intent_path iref)) (\<lambda>x h. snd x = None \<longrightarrow> 2 \<le> h)
    (stage_and_remove lib limits r receipt) g"
proof -
  have stage: "within (\<lambda>c. c \<noteq> UnlinkName (attempt_path aref)) (stage_record_removal p q :: _ ex_prog)" for p q
    by (simp add: stage_record_removal_def link_object_def perform_def)
  show ?thesis
    unfolding stage_and_remove_def Let_def assms
  proof (rule clearing.keeps_harmless_bind [OF stage], goal_cases)
    case (1 err h)
    show ?case
    proof (cases err)
      case None
      show ?thesis
        unfolding None option.case
      proof (rule keeps_bindI [OF verify_removal_clears], goal_cases)
        case (1 present h)
        show ?case
        proof (cases present)
          case (Inr b)
          show ?thesis
            unfolding Inr sum.case
            by (rule keeps_bindI [OF verify_removal_clears])
               (use 1 Inr in \<open>auto intro!: remove_names_clears assms split: sum.split\<close>)
        qed simp
      qed
    qed simp
  qed
qed

lemma remove_record_clears:
  assumes "record_relative_path (rr_kind r) (rr_id r) = intent_path iref"
  shows "keeps (may_unlink (attempt_path aref)) (clearing (intent_path iref)) (\<lambda>x h. snd x = None \<longrightarrow> 2 \<le> h)
    (remove_record_session lib limits r) g"
proof -
  have c: "within (\<lambda>c. c \<noteq> UnlinkName (attempt_path aref)) (ctx_err :: bool ex_prog)"
    "within (\<lambda>c. c \<noteq> UnlinkName (attempt_path aref)) (check_root :: bool ex_prog)"
    by (rule quiet_clearing, rule within_intros)+
  have present: "keeps (may_unlink (attempt_path aref)) (clearing (intent_path iref)) (\<lambda>x h. snd x = None \<longrightarrow> 2 \<le> h)
      (case present of Inl e \<Rightarrow> Return (no_removal, Some e)
       | Inr object_present \<Rightarrow>
           bind (verify_removal_record lib limits (removal_staging_path r) r) (\<lambda>staging_present.
             case staging_present of Inl e \<Rightarrow> Return (no_removal, Some e)
             | Inr staging_present \<Rightarrow>
                 if object_present \<and> \<not> staging_present
                 then stage_and_remove lib limits r (no_removal\<lparr>rm_residue := staging_present\<rparr>)
                 else remove_names lib limits r (object_present \<or> staging_present) object_present staging_present
                   (no_removal\<lparr>rm_residue := staging_present\<rparr>))) h"
    if "present = Inr False \<longrightarrow> 1 \<le> h" for present h
  proof (cases present)
    case (Inr b)
    show ?thesis
      unfolding Inr sum.case
      by (rule keeps_bindI [OF verify_removal_clears])
         (use that Inr in \<open>auto intro!: stage_and_remove_clears remove_names_clears assms split: sum.split\<close>)
  qed simp
  show ?thesis
    unfolding remove_record_session_def Let_def assms
    by (auto intro!: clearing.keeps_harmless_bind c keeps_bindI [OF verify_removal_clears] present)
qed

lemma bound_remove_clears:
  assumes "record_relative_path (rr_kind r) (rr_id r) = intent_path iref"
  shows "keeps (may_unlink (attempt_path aref)) (clearing (intent_path iref)) (\<lambda>x h. snd x = None \<longrightarrow> 2 \<le> h)
    (bound_remove_record_exact lib b r limits) g"
  unfolding bound_remove_record_exact_def
  by (rule clearing.keeps_harmless_bind, rule quiet_clearing, rule within_intros)
     (auto intro!: remove_record_clears assms split: option.split)

section \<open>Prune\<close>

lemma remove_exactly_clears:
  assumes "record_relative_path (rr_kind r) (rr_id r) = intent_path iref"
  shows "keeps (may_unlink (attempt_path aref)) (clearing (intent_path iref)) (\<lambda>_ _. True) (remove_exactly lib s (r # rs) t) g"
  unfolding remove_exactly.simps(2) Let_def
proof (rule keeps_bindI [OF bound_remove_clears [OF assms]], goal_cases)
  case (1 x h)
  show ?case
  proof (cases "snd x")
    case None
    with 1 show ?thesis by (cases x) (auto intro: keeps_mono [OF cleared_stays])
  qed (cases x, simp)
qed

lemma tombstone_of_exchange:
  assumes "exchange_of lib i iref aref" "valid_retention lib r"
    and "record_relative_path (rr_kind (rt_attempt_ref r)) (rr_id (rt_attempt_ref r)) = attempt_path aref"
  shows "record_relative_path (rr_kind (rt_intent_ref r)) (rr_id (rt_intent_ref r)) = intent_path iref"
proof -
  have exact: "exact_record_ref lib (ex_attempt lib) attempt_kind (rt_attempt r) (rt_attempt_ref r)"
    "exact_record_ref lib (ex_intent lib) intent_kind (rt_intent r) (rt_intent_ref r)"
    and "at_intent (rt_attempt r) = rr_id (rt_intent_ref r)"
    using assms(2) by (auto simp: valid_retention_def attempt_matches_intent_def)
  note ids = identifies_id [of lib "ex_attempt lib" attempt_kind "attempt_from_intent i iref" aref]
  have "rr_id (rt_attempt_ref r) = rr_id aref"
    using assms(1,3) exact_record_ref_iff [OF exact(1)] ids
    by (auto simp: exchange_of_def attempt_path_def dest!: digest_paths)
  then have "rt_attempt r = attempt_from_intent i iref"
    using assms(1) exact(1) by (auto simp: exchange_of_def intro: exact_identified)
  then show ?thesis
    using \<open>at_intent (rt_attempt r) = _\<close> exact_record_ref_iff [OF exact(2)]
    by (simp add: attempt_from_intent_def intent_path_def)
qed

lemma complete_prune_clears:
  assumes "exchange_of lib i iref aref"
  shows "keeps (may_unlink (attempt_path aref)) (clearing (intent_path iref)) (\<lambda>_ _. True) (complete_prune lib s r ref p) g"
proof (cases "record_relative_path (rr_kind (rt_attempt_ref r)) (rr_id (rt_attempt_ref r)) = attempt_path aref")
  case True
  show ?thesis
  proof (cases "valid_retention lib r")
    case valid: True
    note path = tombstone_of_exchange [OF assms valid True]
    have quiet: "within (\<lambda>c. c \<noteq> UnlinkName (attempt_path aref)) (confirm_durable lib s rs)" for rs
      by (rule quiet_clearing, rule within_mono [OF tame_confirm], erule tame_mono) auto
    show ?thesis
      unfolding complete_prune_def Let_def
      by (auto intro!: clearing.keeps_harmless_bind [OF quiet] keeps_bindI [OF remove_exactly_clears [OF path]]
          simp del: remove_exactly.simps split: prod.split option.split)
  qed (simp add: complete_prune_def valid_tombstone_def Let_def)
next
  case False
  show ?thesis
  proof (cases "valid_retention lib r")
    case True
    then have kinds: "rr_kind (rt_intent_ref r) = intent_kind" "rr_kind (rt_outcome_ref r) = outcome_kind"
      by (auto simp: valid_retention_def dest: exact_record_ref_iff)
    have other: "record_relative_path k j \<noteq> attempt_path aref" if "k = intent_kind \<or> k = outcome_kind" for k j
      unfolding attempt_path_def
      using that record_relative_path_kind [of k attempt_kind] by auto
    have "within (tame (\<lambda>q. q \<noteq> attempt_path aref) (\<lambda>_. True) no_submit) (complete_prune lib s r ref p)"
      by (rule tame_complete_prune) (use False kinds other in auto)
    then have "within (\<lambda>c. c \<noteq> UnlinkName (attempt_path aref)) (complete_prune lib s r ref p)"
      by (erule_tac tame_clearing) simp_all
    then show ?thesis by (rule clearing.keeps_harmless) simp
  qed (simp add: complete_prune_def valid_tombstone_def Let_def)
qed

lemma quiet_command:
  "within (tame (\<lambda>_. False) (\<lambda>_. True) no_submit) p \<Longrightarrow> within (\<lambda>c. c \<noteq> UnlinkName (attempt_path aref)) p"
  by (erule tame_clearing) simp_all

lemma prune_clears:
  assumes "exchange_of lib i iref aref"
  shows "keeps (may_unlink (attempt_path aref)) (clearing (intent_path iref)) (\<lambda>_ _. True) (prune lib s rid operation) g"
proof -
  note quiet = quiet_command [OF within_intros(1)]
  have import: "within (\<lambda>c. c \<noteq> UnlinkName (attempt_path aref)) (session_import lib s k raw)" for k raw
    by (rule quiet_command, rule tame_session_import) simp
  have terminal: "keeps (may_unlink (attempt_path aref)) (clearing (intent_path iref)) (\<lambda>_ _. True) (prune_terminal lib s r p) g"
    for r p g
    unfolding prune_terminal_def Let_def
    by (auto intro!: clearing.keeps_harmless_bind [OF import] clearing.keeps_harmless_bind [OF quiet_command [OF tame_confirm]]
        complete_prune_clears [OF assms] split: store_splits)
  have live: "keeps (may_unlink (attempt_path aref)) (clearing (intent_path iref)) (\<lambda>_ _. True) (prune_live lib s rid operation p) g"
    for p g
    unfolding prune_live_def Let_def
    by (auto intro!: clearing.keeps_harmless_bind [OF quiet_command [OF tame_status]] terminal split: store_splits)
  show ?thesis
    unfolding prune_def Let_def
    by (auto intro!: clearing.keeps_harmless_bind [OF quiet_command [OF tame_session(1)]]
        clearing.keeps_harmless_bind [OF quiet_command [OF tame_find(1)]]
        clearing.keeps_harmless_bind [OF quiet_command [OF tame_find(2)]]
        complete_prune_clears [OF assms] live split: store_splits)
qed

section \<open>Submit\<close>

lemma quiet_marking:
  "within (tame (\<lambda>_. True) (other_kind intent_kind) no_submit) p \<Longrightarrow> within (\<lambda>c. \<not> submits iref c) p"
  by (rule tame_marking)

lemma reserve_exchange_marks:
  assumes "exchange_of lib i iref aref" "authentic_intent lib v"
  shows "keeps (may_submit iref) (marking iref (attempt_path aref) (intent_path iref))
    (\<lambda>x h. (\<exists>r. snd x = Inr r) \<longrightarrow> rr_id (vi_ref v) \<noteq> rr_id iref \<or> 3 \<le> h) (reserve_attempt lib s v ob rv) g"
proof (cases "rr_id (vi_ref v) = rr_id iref")
  case True
  have kind: "rr_kind (vi_ref v) = intent_kind" using assms(2) by (simp add: authentic_intent_def)
  have "vi_record v = i"
    using assms True by (auto simp: exchange_of_def intro: authentic_intent_identified)
  then have same: "attempt_from_intent (vi_record v) (vi_ref v) = attempt_from_intent i iref"
    using True by (simp add: attempt_from_intent_def)
  obtain araw where "cd_marshal (ex_attempt lib) (attempt_from_intent i iref) = Some araw"
      "rr_id aref = record_id_of (ex_go lib) attempt_kind (araw @ [line_feed])"
    using assms(1) by (auto simp: exchange_of_def identifies_def)
  then show ?thesis
    using True kind
    by (intro keeps_mono [OF reserve_marks [where araw = araw]]) (auto simp: same intent_path_def attempt_path_def)
next
  case False
  have "within (\<lambda>c. \<not> submits iref c) (reserve_attempt lib s v ob rv)"
    by (rule quiet_marking, rule tame_reserve) simp
  then show ?thesis by (rule marking.keeps_harmless) (use False in simp)
qed

lemma submit_reserved_marks:
  assumes "rr_id (vi_ref v) \<noteq> rr_id iref \<or> 3 \<le> g"
  shows "keeps (may_submit iref) (marking iref ap ip) (\<lambda>_ _. True) (submit_reserved lib s rid v r ob) g"
proof -
  have rest: "within (\<lambda>c. \<not> submits iref c) (requests_made)"
    "within (\<lambda>c. \<not> submits iref c) (finish_submission lib s rid a b)"
    "within (\<lambda>c. \<not> submits iref c) (store_outcome lib s v r ob' x)" for a b ob' x
    by (rule quiet_marking, rule within_intros tame_store_outcome; simp)+
  have "keeps (may_submit iref) (marking iref ap ip) (\<lambda>_ _. True) (submit_exchange (vi_ref v) ob rv l) g" for rv l
    using assms by (auto simp: submit_exchange_def keeps_perform may_submit_def submits_def)
  then show ?thesis
    unfolding submit_reserved_def Let_def
  proof (rule keeps_bindI, goal_cases)
    case (1 x h)
    show ?case
      by (cases x) (auto intro!: marking.keeps_harmless within_bind rest)
  qed
qed

lemma submit_marks:
  assumes "exchange_of lib i iref aref"
  shows "keeps (may_submit iref) (marking iref (attempt_path aref) (intent_path iref)) (\<lambda>_ _. True)
    (submit_command lib s rid want) g"
proof -
  have quiet: "within (\<lambda>c. \<not> submits iref c) open_site" "within (\<lambda>c. \<not> submits iref c) close_site"
      "within (\<lambda>c. \<not> submits iref c) requests_made" "within (\<lambda>c. \<not> submits iref c) (fresh_review sel l x)"
      "within (\<lambda>c. \<not> submits iref c) (exchange_status lib s rid)" for sel l x
    by (rule quiet_marking, rule within_intros)+
  have load: "within (\<lambda>c. \<not> submits iref c) (load_intent lib s rid)"
    by (rule quiet_marking, rule within_intros)
  have review: "keeps (may_submit iref) (marking iref (attempt_path aref) (intent_path iref)) (\<lambda>_ _. True)
      (review_and_reserve lib s rid v) g" if "authentic_intent lib v" for v g
    unfolding review_and_reserve_def Let_def
    by (auto intro!: marking.keeps_harmless_bind [OF quiet(1)] marking.keeps_harmless_bind [OF quiet(2)]
        marking.keeps_harmless_bind [OF quiet(3)] marking.keeps_harmless_bind [OF quiet(4)]
        marking.keeps_harmless_bind [OF quiet(5)]
        keeps_bindI [OF reserve_exchange_marks [OF assms that]] submit_reserved_marks split: store_splits)
  show ?thesis
    unfolding submit_command_def
  proof (rule keeps_bindI [OF keeps_returns [OF marking.within_keeps [OF load] load_intent_authentic]], goal_cases)
    case (1 loaded h)
    show ?case
    proof (cases loaded)
      case (Inr v)
      then have "authentic_intent lib v" using 1 by blast
      then show ?thesis
        unfolding Inr sum.case
        by (auto intro!: marking.keeps_harmless_bind [OF quiet(1)] marking.keeps_harmless_bind [OF quiet(5)] review
            split: prod.split)
    qed simp
  qed
qed

section \<open>Prepare\<close>

lemma prepare_draws:
  assumes "exchange_of lib i iref aref"
  shows "keeps (may_make (intent_path iref)) (drawing lib (in_operation i)) (\<lambda>_ _. True) (prepare lib rp input) g"
proof -
  have quiet: "within (\<lambda>c. \<not> makes (intent_path iref) c) (ctx_err :: bool ex_prog)"
      "within (\<lambda>c. \<not> makes (intent_path iref) c) (read_clock :: int ex_prog)"
    by (auto simp: call_defs perform_def makes_def)
  have drawn: "keeps (may_make (intent_path iref)) (drawing lib (in_operation i))
      (\<lambda>e h. \<forall>r. e = Some r \<longrightarrow> operation_id_of lib r = in_operation i \<longrightarrow> \<not> h) entropy g" for g
    unfolding entropy_def keeps_perform may_make_def makes_def drawing_def draws_def
    by (auto split: reply.split site_reply.split)
  have fresh: "keeps (may_make (intent_path iref)) (drawing lib (in_operation i)) (\<lambda>_ _. True)
      (import_record (ex_go lib) c intent_kind raw l) h"
    if r: "operation_id_of lib r \<noteq> in_operation i"
      and enc: "encode_intent lib (rp_limits rp) (new_intent input (operation_id_of lib r) now) = Inr raw" for r now raw c l h
  proof -
    obtain m where m: "cd_marshal (ex_intent lib) (new_intent input (operation_id_of lib r) now) = Some m" "raw = m @ [line_feed]"
      using encode_record_Inr [OF enc [unfolded encode_intent_def]] by blast
    have "record_id_of (ex_go lib) intent_kind raw \<noteq> rr_id iref"
    proof
      assume "record_id_of (ex_go lib) intent_kind raw = rr_id iref"
      then have "new_intent input (operation_id_of lib r) now = i"
        using identified_value [of lib "ex_intent lib" intent_kind i iref _ m "[]"] assms m
        by (simp add: exchange_of_def)
      then show False using r by (auto simp: new_intent_def)
    qed
    then have "record_relative_path intent_kind (record_id_of (ex_go lib) intent_kind raw) \<noteq> intent_path iref"
      using digest_paths [of intent_kind "ex_go lib" intent_kind raw intent_kind] identifies_id [of lib "ex_intent lib" intent_kind i iref] assms
      unfolding exchange_of_def intent_path_def by metis
    then have "within (tame (\<lambda>_. True) (\<lambda>q. q \<noteq> intent_path iref) no_submit) (import_record (ex_go lib) c intent_kind raw l)"
      by (rule tame_import_record)
    then have "within (\<lambda>c. \<not> makes (intent_path iref) c) (import_record (ex_go lib) c intent_kind raw l)"
      by (rule tame_drawing) simp_all
    then show ?thesis by (rule drawing.keeps_harmless) simp
  qed
  have new: "keeps (may_make (intent_path iref)) (drawing lib (in_operation i)) (\<lambda>_ _. True)
      (case encode_intent lib (rp_limits rp) (new_intent input (operation_id_of lib r) now) of
         Inl e \<Rightarrow> Return (no_import, Inl e)
       | Inr raw \<Rightarrow>
           bind (import_record (ex_go lib) (rp_collected rp) intent_kind raw (record_limits_of (rp_limits rp)))
             (\<lambda>(receipt, imported). case imported of
                Inl e \<Rightarrow> Return (receipt, Inl (StoreError e))
              | Inr ref \<Rightarrow>
                  if compute_record_ref (ex_go lib) intent_kind raw \<noteq> Some ref \<or> ir_already receipt \<or> ir_writes receipt \<noteq> 1
                  then Return (receipt, Inl ExchangeFailed)
                  else Return (receipt, Inr (new_intent input (operation_id_of lib r) now, ref)))) h"
    if "operation_id_of lib r \<noteq> in_operation i" for r now h
  proof (cases "encode_intent lib (rp_limits rp) (new_intent input (operation_id_of lib r) now)")
    case (Inr raw)
    show ?thesis
      unfolding Inr sum.case
      by (rule keeps_bindI [OF fresh [OF that Inr]]) (simp split: prod.split sum.split)
  qed simp
  show ?thesis
  proof (cases "valid_prepare_input lib input")
    case True
    show ?thesis
      unfolding prepare_def Let_def not_True_eq_False if_False eqTrueI [OF True]
    proof (rule drawing.keeps_harmless_bind [OF quiet(1)], goal_cases)
      case (1 cancelled h)
      show ?case
      proof (cases cancelled)
        case False
        show ?thesis
          unfolding if_not_P [OF False]
        proof (rule keeps_bindI [OF drawn], goal_cases)
          case (1 random h)
          show ?case
          proof (cases random)
            case (Some r)
            show ?thesis
            proof (cases "operation_id_of lib r = in_operation i")
              case True
              with 1 Some have "h = False" by simp
              then show ?thesis using drawn_stays by simp
            next
              case False
              show ?thesis
                unfolding Some option.case
                by (rule drawing.keeps_harmless_bind [OF quiet(2)]) (rule new [OF False])
            qed
          qed simp
        qed
      qed simp
    qed
  qed (simp add: prepare_def)
qed

end
