(* ===== verification/Interleaving.thy ===== *)
theory Interleaving
  imports ExchangeProtocol
begin

text \<open>
  Any number of ptctl processes on one store, interleaved call by call, killed at any moment and interrupted by losses of
  power that undo directory changes which were not yet flushed. Whatever happens, at most one request is sent for an
  intent, provided that the operation identity of the intent is not drawn again and its digests have no second preimage.
\<close>

section \<open>Commands\<close>

definition in_session :: "repository \<Rightarrow> (session \<Rightarrow> 'a ex_prog) \<Rightarrow> unit ex_prog" where
  "in_session rp f =
     bind (open_session rp) (\<lambda>opened. case opened of Inl _ \<Rightarrow> Return () | Inr s \<Rightarrow> bind (f s) (\<lambda>_. Return ()))"

text \<open>A process runs one command. Any other use of the store neither removes attempts nor publishes intents.\<close>

inductive command :: "exlib \<Rightarrow> unit ex_prog \<Rightarrow> bool" for lib where
  prepare_command: "command lib (bind (prepare lib rp input) (\<lambda>_. Return ()))"
| submit: "command lib (in_session rp (\<lambda>s. submit_command lib s rid want))"
| status: "command lib (in_session rp (\<lambda>s. exchange_status lib s rid))"
| list_command: "command lib (in_session rp (list_operations lib))"
| prune_command: "command lib (in_session rp (\<lambda>s. prune lib s rid operation))"
| forget_command: "command lib (in_session rp (\<lambda>s. forget lib s rid operation))"
| foreign: "within (tame (other_kind attempt_kind) (other_kind intent_kind) no_submit) p \<Longrightarrow> command lib p"

section \<open>The disk\<close>

text \<open>The names that exist, and those whose last change a loss of power may undo.\<close>

record disk =
  dk_present :: "bytes set"
  dk_unsynced :: "bytes set"

definition in_directory :: "directory \<Rightarrow> bytes \<Rightarrow> bool" where
  "in_directory x p \<longleftrightarrow> has_prefix p ((case x of Objects \<Rightarrow> objects_dir | Temporary \<Rightarrow> temporary_dir) @ ''/'')"

definition add_name :: "bytes \<Rightarrow> disk \<Rightarrow> disk" where
  "add_name p d = \<lparr>dk_present = insert p (dk_present d), dk_unsynced = insert p (dk_unsynced d)\<rparr>"

definition delete_name :: "bytes \<Rightarrow> disk \<Rightarrow> disk" where
  "delete_name p d = \<lparr>dk_present = dk_present d - {p}, dk_unsynced = insert p (dk_unsynced d)\<rparr>"

definition flush :: "directory \<Rightarrow> disk \<Rightarrow> disk" where
  "flush x d = d\<lparr>dk_unsynced := {p \<in> dk_unsynced d. \<not> in_directory x p}\<rparr>"

definition changes_names :: "site_call call \<Rightarrow> bool" where
  "changes_names c =
     (case c of
        OpenObject p \<Rightarrow> True | LinkObject p q \<Rightarrow> True | UnlinkName p \<Rightarrow> True | CreateStaging p \<Rightarrow> True
      | SyncDirectory x \<Rightarrow> True | _ \<Rightarrow> False)"

text \<open>A call that fails may still have had its effect; one that succeeds has had it.\<close>

inductive disk_step :: "disk \<Rightarrow> site_call call \<Rightarrow> site_reply reply \<Rightarrow> disk \<Rightarrow> bool" where
  opened: "p \<in> dk_present d \<Longrightarrow> disk_step d (OpenObject p) (OpenReply (Opened h i)) d"
| absent: "p \<notin> dk_present d \<Longrightarrow> disk_step d (OpenObject p) (OpenReply Absent) d"
| not_opened: "r \<noteq> OpenReply Absent \<Longrightarrow> \<forall>h i. r \<noteq> OpenReply (Opened h i) \<Longrightarrow> disk_step d (OpenObject p) r d"
| linked: "q \<notin> dk_present d \<Longrightarrow> disk_step d (LinkObject p q) r (add_name q d)"
| not_linked: "r \<noteq> LinkReply Linked \<Longrightarrow> disk_step d (LinkObject p q) r d"
| unlinked: "p \<in> dk_present d \<Longrightarrow> disk_step d (UnlinkName p) r (delete_name p d)"
| not_unlinked: "r \<noteq> UnlinkReply Unlinked \<Longrightarrow> disk_step d (UnlinkName p) r d"
| created: "p \<notin> dk_present d \<Longrightarrow> disk_step d (CreateStaging p) r (add_name p d)"
| not_created: "\<forall>h. r \<noteq> Handle (Some h) \<Longrightarrow> disk_step d (CreateStaging p) r d"
| flushed: "disk_step d (SyncDirectory x) r (flush x d)"
| not_flushed: "r \<noteq> Flag True \<Longrightarrow> disk_step d (SyncDirectory x) r d"
| unchanged: "\<not> changes_names c \<Longrightarrow> disk_step d c r d"

section \<open>The world\<close>

record world =
  wd_disk :: disk
  wd_live :: "nat \<Rightarrow> unit ex_prog option"
  wd_sent :: "bytes list"

text \<open>The identity of the intent in whose name a call sends a request.\<close>

definition sent_by :: "site_call call \<Rightarrow> bytes list" where
  "sent_by c = (case c of Other x \<Rightarrow> (case x of SubmitExchange ref ob rv l \<Rightarrow> [rr_id ref] | _ \<Rightarrow> []) | _ \<Rightarrow> [])"

inductive world_step :: "exlib \<Rightarrow> bytes \<Rightarrow> world \<Rightarrow> world \<Rightarrow> bool" for lib operation where
  start: "wd_live w pid = None \<Longrightarrow> command lib p \<Longrightarrow>
    world_step lib operation w (w\<lparr>wd_live := (wd_live w)(pid \<mapsto> p)\<rparr>)"
| act: "wd_live w pid = Some (Call c k) \<Longrightarrow> disk_step (wd_disk w) c r d \<Longrightarrow> \<not> draws lib operation c r \<Longrightarrow>
    world_step lib operation w
      \<lparr>wd_disk = d, wd_live = (wd_live w)(pid \<mapsto> k r), wd_sent = sent_by c @ wd_sent w\<rparr>"
| stop: "world_step lib operation w (w\<lparr>wd_live := (wd_live w)(pid := None)\<rparr>)"
| power_loss: "\<forall>p. p \<notin> dk_unsynced (wd_disk w) \<longrightarrow> (p \<in> names \<longleftrightarrow> p \<in> dk_present (wd_disk w)) \<Longrightarrow>
    world_step lib operation w
      \<lparr>wd_disk = \<lparr>dk_present = names, dk_unsynced = {}\<rparr>, wd_live = (\<lambda>_. None), wd_sent = wd_sent w\<rparr>"

inductive_cases disk_step_cases: "disk_step d c r d'"
inductive_cases world_step_cases: "world_step lib operation w w'"

section \<open>Every command is guarded\<close>

definition guarded :: "exlib \<Rightarrow> intent_record \<Rightarrow> record_ref \<Rightarrow> record_ref \<Rightarrow> unit ex_prog \<Rightarrow> nat \<Rightarrow> nat \<Rightarrow> bool" where
  "guarded lib i iref aref p c m \<longleftrightarrow>
     keeps (may_unlink (attempt_path aref)) (clearing (intent_path iref)) (\<lambda>_ _. True) p c \<and>
     keeps (may_submit iref) (marking iref (attempt_path aref) (intent_path iref)) (\<lambda>_ _. True) p m \<and>
     keeps (may_make (intent_path iref)) (drawing lib (in_operation i)) (\<lambda>_ _. True) p True"

lemma tame_open_session [within_intros]: "within (tame U L no_submit) (open_session rp)"
  by (auto simp: open_session_def intro!: within_bind within_intros)

lemma keeps_then_unit:
  "keeps allow update (\<lambda>_ _. True) p g \<Longrightarrow> keeps allow update (\<lambda>_ _. True) (bind p (\<lambda>_. Return ())) g"
  by (rule keeps_bindI) simp_all

lemma in_session_keeps:
  assumes "keeps allow update (\<lambda>_ _. True) (open_session rp) g" "\<And>s g. keeps allow update (\<lambda>_ _. True) (f s) g"
  shows "keeps allow update (\<lambda>_ _. True) (in_session rp f) g"
  unfolding in_session_def
  by (rule keeps_bindI [OF assms(1)]) (auto intro!: keeps_then_unit assms(2) split: sum.split)

lemma harmless_clearing:
  "within (tame (other_kind attempt_kind) L X) p \<Longrightarrow>
    keeps (may_unlink (attempt_path aref)) (clearing ip) (\<lambda>_ _. True) p g"
  by (rule clearing.keeps_harmless, erule tame_clearing) simp_all

lemma harmless_marking:
  "within (tame U L no_submit) p \<Longrightarrow> keeps (may_submit iref) (marking iref ap ip) (\<lambda>_ _. True) p g"
  by (rule marking.keeps_harmless, erule tame_marking) simp

lemma harmless_drawing:
  "within (tame U (other_kind intent_kind) X) p \<Longrightarrow>
    keeps (may_make (intent_path iref)) (drawing lib operation) (\<lambda>_ _. True) p g"
  by (rule drawing.keeps_harmless, erule tame_drawing) simp_all

lemma tame_prepare: "within (tame U (\<lambda>_. True) no_submit) (prepare lib rp input)"
  by (auto simp: prepare_def Let_def intro!: within_bind within_intros tame_import_record split: store_splits)

lemma guarded_session:
  assumes "\<And>s g. keeps (may_unlink (attempt_path aref)) (clearing (intent_path iref)) (\<lambda>_ _. True) (f s) g"
    and "\<And>s g. keeps (may_submit iref) (marking iref (attempt_path aref) (intent_path iref)) (\<lambda>_ _. True) (f s) g"
    and "\<And>s g. keeps (may_make (intent_path iref)) (drawing lib (in_operation i)) (\<lambda>_ _. True) (f s) g"
  shows "guarded lib i iref aref (in_session rp f) c m"
proof -
  have session: "within (tame (other_kind attempt_kind) (other_kind intent_kind) no_submit) (open_session rp)"
    by (rule within_intros)
  show ?thesis
    unfolding guarded_def
    by (intro conjI in_session_keeps harmless_clearing [OF session] harmless_marking [OF session]
        harmless_drawing [OF session] assms)
qed

lemma guarded_tame:
  "(\<And>s. within (tame (other_kind attempt_kind) (other_kind intent_kind) no_submit) (f s)) \<Longrightarrow>
    guarded lib i iref aref (in_session rp f) c m"
  by (rule guarded_session) (blast intro: harmless_clearing harmless_marking harmless_drawing)+

lemma command_guarded:
  assumes "exchange_of lib i iref aref" "command lib p"
  shows "guarded lib i iref aref p c m"
  using assms(2)
proof cases
  case (prepare_command rp input)
  show ?thesis
    unfolding prepare_command guarded_def
    using keeps_then_unit [OF harmless_clearing [OF tame_prepare]] keeps_then_unit [OF harmless_marking [OF tame_prepare]]
      keeps_then_unit [OF prepare_draws [OF assms(1)]] by blast
next
  case (submit rp rid want)
  show ?thesis
    unfolding submit
    by (rule guarded_session)
       (blast intro: harmless_clearing harmless_drawing tame_submit [OF refl] submit_marks [OF assms(1)])+
next
  case (prune_command rp rid operation)
  show ?thesis
    unfolding prune_command
    by (rule guarded_session)
       (blast intro: harmless_marking harmless_drawing tame_prune [OF refl] prune_clears [OF assms(1)])+
next
  case (forget_command rp rid operation)
  have "within (tame (other_kind attempt_kind) (other_kind intent_kind) no_submit) (forget lib s rid operation)" for s
    by (rule tame_forget) (auto intro!: other_kind_path)
  then show ?thesis unfolding forget_command by (rule guarded_tame)
next
  case foreign
  then show ?thesis
    unfolding guarded_def by (blast intro: harmless_clearing harmless_marking harmless_drawing)
qed (auto intro!: guarded_tame within_intros)

section \<open>The invariant\<close>

definition gone :: "record_ref \<Rightarrow> disk \<Rightarrow> bool" where
  "gone iref d \<longleftrightarrow> intent_path iref \<notin> dk_present d \<and> intent_path iref \<notin> dk_unsynced d"

definition marked :: "record_ref \<Rightarrow> disk \<Rightarrow> bool" where
  "marked aref d \<longleftrightarrow> attempt_path aref \<in> dk_present d \<and> attempt_path aref \<notin> dk_unsynced d"

text \<open>What the ghosts of a process say about the disk: how far it is in clearing and in marking.\<close>

definition ghosts_true :: "record_ref \<Rightarrow> record_ref \<Rightarrow> disk \<Rightarrow> (nat \<Rightarrow> nat) \<Rightarrow> (nat \<Rightarrow> nat) \<Rightarrow> bool" where
  "ghosts_true iref aref d c m \<longleftrightarrow>
     (\<forall>pid. (1 \<le> c pid \<longrightarrow> intent_path iref \<notin> dk_present d) \<and> (2 \<le> c pid \<longrightarrow> gone iref d) \<and>
       (\<not> gone iref d \<longrightarrow> (1 \<le> m pid \<longrightarrow> attempt_path aref \<in> dk_present d) \<and> (2 \<le> m pid \<longrightarrow> marked aref d)))"

text \<open>Who may still send: one process at most, and none after a request.\<close>

definition one_sender :: "record_ref \<Rightarrow> record_ref \<Rightarrow> disk \<Rightarrow> (nat \<Rightarrow> nat) \<Rightarrow> nat \<Rightarrow> bool" where
  "one_sender iref aref d m sent \<longleftrightarrow>
     sent \<le> 1 \<and> (\<forall>pid pid'. 3 \<le> m pid \<and> 3 \<le> m pid' \<longrightarrow> pid = pid') \<and> (1 \<le> sent \<longrightarrow> (\<forall>pid. m pid < 3)) \<and>
     (\<not> gone iref d \<longrightarrow>
       (\<forall>pid pid'. 1 \<le> m pid \<and> 1 \<le> m pid' \<longrightarrow> pid = pid') \<and> (1 \<le> sent \<longrightarrow> marked aref d \<and> (\<forall>pid. m pid = 0)))"

definition all_guarded :: "exlib \<Rightarrow> intent_record \<Rightarrow> record_ref \<Rightarrow> record_ref \<Rightarrow> (nat \<Rightarrow> unit ex_prog option) \<Rightarrow>
    (nat \<Rightarrow> nat) \<Rightarrow> (nat \<Rightarrow> nat) \<Rightarrow> bool" where
  "all_guarded lib i iref aref live c m \<longleftrightarrow>
     (\<forall>pid. case live pid of None \<Rightarrow> c pid = 0 \<and> m pid = 0 | Some p \<Rightarrow> guarded lib i iref aref p (c pid) (m pid))"

definition consistent :: "exlib \<Rightarrow> intent_record \<Rightarrow> record_ref \<Rightarrow> record_ref \<Rightarrow> world \<Rightarrow> (nat \<Rightarrow> nat) \<Rightarrow> (nat \<Rightarrow> nat) \<Rightarrow> bool" where
  "consistent lib i iref aref w c m \<longleftrightarrow>
     all_guarded lib i iref aref (wd_live w) c m \<and> ghosts_true iref aref (wd_disk w) c m \<and>
     one_sender iref aref (wd_disk w) m (count_list (wd_sent w) (rr_id iref))"

section \<open>What a call does to the disk\<close>

lemma path_directories [simp]: "in_directory Objects (intent_path iref)" "in_directory Objects (attempt_path aref)"
  by (simp_all add: in_directory_def intent_path_def attempt_path_def record_relative_path_def has_prefix_def)

lemmas name_changes = add_name_def delete_name_def flush_def makes_def changes_names_def

lemma stays_absent:
  assumes "disk_step d e r d'" "\<not> makes p e"
  shows "(p \<notin> dk_present d \<longrightarrow> p \<notin> dk_present d') \<and> (p \<notin> dk_present d \<and> p \<notin> dk_unsynced d \<longrightarrow> p \<notin> dk_unsynced d')"
  using assms by cases (auto simp: name_changes)

lemma stays_present:
  assumes "disk_step d e r d'" "e \<noteq> UnlinkName p"
  shows "(p \<in> dk_present d \<longrightarrow> p \<in> dk_present d') \<and> (p \<in> dk_present d \<and> p \<notin> dk_unsynced d \<longrightarrow> p \<notin> dk_unsynced d')"
  using assms by cases (auto simp: name_changes)

lemma clearing_true:
  assumes "disk_step d e r d'" "h = clearing (intent_path iref) g e r" "\<not> makes (intent_path iref) e"
    and "1 \<le> g \<longrightarrow> intent_path iref \<notin> dk_present d" "2 \<le> g \<longrightarrow> gone iref d"
  shows "(1 \<le> h \<longrightarrow> intent_path iref \<notin> dk_present d') \<and> (2 \<le> h \<longrightarrow> gone iref d')"
  using assms stays_absent [OF assms(1,3)]
  by cases (auto simp: clearing_def gone_def name_changes split: if_splits call.splits)

lemma marking_true:
  assumes "disk_step d e r d'" "e \<noteq> UnlinkName (attempt_path aref)"
    and "h = marking iref (attempt_path aref) (intent_path iref) g e r"
    and "1 \<le> g \<longrightarrow> attempt_path aref \<in> dk_present d" "2 \<le> g \<longrightarrow> marked aref d"
  shows "(1 \<le> h \<longrightarrow> attempt_path aref \<in> dk_present d') \<and> (2 \<le> h \<longrightarrow> marked aref d')"
  using assms stays_present [OF assms(1,2)]
  by cases (auto simp: marking_def marked_def name_changes split: if_splits call.splits)

lemma marking_progress:
  assumes "disk_step d e r d'" "h = marking iref (attempt_path aref) (intent_path iref) g e r"
  shows "\<not> submits iref e \<Longrightarrow> (h = g \<or> g < h \<and> g < 3 \<and> (g = 0 \<longrightarrow> attempt_path aref \<notin> dk_present d) \<and> (3 \<le> h \<longrightarrow> g = 2 \<and> \<not> gone iref d))"
    and "submits iref e \<Longrightarrow> h = 0 \<and> d' = d"
  using assms
  by (cases; auto simp: marking_def submits_def gone_def changes_names_def split: if_splits call.splits site_call.splits)+

lemma gone_stays: "disk_step d e r d' \<Longrightarrow> \<not> makes (intent_path iref) e \<Longrightarrow> gone iref d \<Longrightarrow> gone iref d'"
  using stays_absent by (auto simp: gone_def)

lemma marked_stays: "disk_step d e r d' \<Longrightarrow> e \<noteq> UnlinkName (attempt_path aref) \<Longrightarrow> marked aref d \<Longrightarrow> marked aref d'"
  using stays_present by (auto simp: marked_def)

lemma sent_count: "count_list (sent_by e) (rr_id iref) = (if submits iref e then 1 else 0)"
  by (auto simp: sent_by_def submits_def split: call.split site_call.split)

section \<open>Every step keeps the invariant\<close>

lemma ghosts_step:
  assumes "ghosts_true iref aref d c m" "disk_step d e r d'" "\<not> makes (intent_path iref) e"
    and "may_unlink (attempt_path aref) (c pid) e"
  shows "ghosts_true iref aref d' (c(pid := clearing (intent_path iref) (c pid) e r))
    (m(pid := marking iref (attempt_path aref) (intent_path iref) (m pid) e r))"
proof -
  have old: "1 \<le> c q \<longrightarrow> intent_path iref \<notin> dk_present d" "2 \<le> c q \<longrightarrow> gone iref d"
    "\<not> gone iref d \<longrightarrow> (1 \<le> m q \<longrightarrow> attempt_path aref \<in> dk_present d) \<and> (2 \<le> m q \<longrightarrow> marked aref d)" for q
    using assms(1) by (auto simp: ghosts_true_def)
  have keep: "\<not> gone iref d \<and> e \<noteq> UnlinkName (attempt_path aref)" if "\<not> gone iref d'"
    using that gone_stays [OF assms(2,3)] assms(4) old(2) [of pid] by (auto simp: may_unlink_def)
  note clear = clearing_true [OF assms(2) refl assms(3) old(1,2) [of pid]]
  note mark = marking_true [OF assms(2) _ refl, of aref "m pid" iref]
  have "(1 \<le> c q \<longrightarrow> intent_path iref \<notin> dk_present d') \<and> (2 \<le> c q \<longrightarrow> gone iref d')" for q
    using old(1,2) [of q] stays_absent [OF assms(2,3)] gone_stays [OF assms(2,3)] by blast
  moreover have "(1 \<le> m q \<longrightarrow> attempt_path aref \<in> dk_present d') \<and> (2 \<le> m q \<longrightarrow> marked aref d')" if "\<not> gone iref d'" for q
    using keep [OF that] old(3) [of q] stays_present [OF assms(2)] marked_stays [OF assms(2)] by blast
  moreover have "(1 \<le> h \<longrightarrow> attempt_path aref \<in> dk_present d') \<and> (2 \<le> h \<longrightarrow> marked aref d')"
    if "\<not> gone iref d'" "h = marking iref (attempt_path aref) (intent_path iref) (m pid) e r" for h
    using mark keep [OF that(1)] old(3) [of pid] that(2) by blast
  ultimately show ?thesis using clear by (simp add: ghosts_true_def)
qed

lemma one_sender_update:
  assumes "one_sender iref aref d m sent" "gone iref d \<longrightarrow> gone iref d'" "gone iref d \<longrightarrow> h < 3"
    and "\<not> gone iref d \<longrightarrow> (\<forall>q. q \<noteq> pid \<longrightarrow> m q = 0) \<and> sent = 0"
  shows "one_sender iref aref d' (m(pid := h)) sent"
proof (cases "gone iref d")
  case True
  have "sent \<le> 1" "3 \<le> m q \<and> 3 \<le> m q' \<longrightarrow> q = q'" "1 \<le> sent \<longrightarrow> m q < 3" for q q'
    using assms(1) by (auto simp: one_sender_def)
  moreover have "gone iref d'" "h < 3" using True assms(2,3) by auto
  ultimately show ?thesis by (simp add: one_sender_def)
next
  case False
  then show ?thesis using assms(4) by (auto simp: one_sender_def)
qed

lemma sender_step:
  assumes "one_sender iref aref d m sent" "ghosts_true iref aref d c m" "disk_step d e r d'"
    and "\<not> makes (intent_path iref) e" "may_unlink (attempt_path aref) (c pid) e" "may_submit iref (m pid) e"
  shows "one_sender iref aref d' (m(pid := marking iref (attempt_path aref) (intent_path iref) (m pid) e r))
    ((if submits iref e then 1 else 0) + sent)"
proof (cases "submits iref e")
  case True
  then have ready: "3 \<le> m pid" using assms(6) by (simp add: may_submit_def)
  have step: "marking iref (attempt_path aref) (intent_path iref) (m pid) e r = 0" "d' = d"
    using marking_progress(2) [OF assms(3) refl True] by auto
  have "\<not> gone iref d \<longrightarrow> marked aref d" using ready assms(2) by (auto simp: ghosts_true_def dest!: spec [of _ pid])
  moreover have others: "\<not> 3 \<le> m q" if "q \<noteq> pid" for q using that ready assms(1) by (auto simp: one_sender_def)
  moreover have "m q = 0" if "q \<noteq> pid" "\<not> gone iref d" for q
  proof -
    have "1 \<le> m pid" using ready by simp
    moreover have "1 \<le> m q \<and> 1 \<le> m pid \<longrightarrow> q = pid" using assms(1) that(2) by (simp add: one_sender_def)
    ultimately show ?thesis using that(1) by auto
  qed
  moreover have "sent = 0" using ready assms(1) by (auto simp: one_sender_def Suc_le_eq dest: spec [of _ pid])
  moreover have "m q < 3" if "q \<noteq> pid" for q using others [OF that] by simp
  ultimately show ?thesis
    unfolding one_sender_def step by (auto simp: True)
next
  case False
  let ?h = "marking iref (attempt_path aref) (intent_path iref) (m pid) e r"
  have keep: "\<not> gone iref d \<and> e \<noteq> UnlinkName (attempt_path aref)" if "\<not> gone iref d'"
    using that gone_stays [OF assms(3,4)] assms(2,5) by (auto simp: may_unlink_def ghosts_true_def)
  have marks: "1 \<le> m q \<longrightarrow> attempt_path aref \<in> dk_present d" if "\<not> gone iref d" for q
    using that assms(2) by (auto simp: ghosts_true_def)
  note progress = marking_progress(1) [OF assms(3) refl False, of aref "m pid"]
  show ?thesis
  proof (cases "?h = m pid")
    case True
    then show ?thesis
      using False assms(1) keep marked_stays [OF assms(3)] by (auto simp: one_sender_def fun_upd_idem)
  next
    case moved: False
    then have h: "m pid < ?h" "m pid < 3" "m pid = 0 \<longrightarrow> attempt_path aref \<notin> dk_present d"
        "3 \<le> ?h \<longrightarrow> m pid = 2 \<and> \<not> gone iref d"
      using progress by auto
    have alone: "m q = 0" if "q \<noteq> pid" "\<not> gone iref d" for q
    proof (cases "m pid = 0")
      case True
      then show ?thesis using h(3) marks [OF that(2), of q] by auto
    next
      case pos: False
      have "1 \<le> m q \<and> 1 \<le> m pid \<longrightarrow> q = pid" using assms(1) that(2) by (simp add: one_sender_def)
      then show ?thesis using that(1) pos by auto
    qed
    have fresh: "sent = 0" if "\<not> gone iref d"
      using that h(3) moved assms(1) marks [OF that, of pid]
      by (cases "m pid = 0") (auto simp: one_sender_def marked_def)
    have "one_sender iref aref d' (m(pid := ?h)) sent"
      by (rule one_sender_update [OF assms(1)])
         (use h(4) alone fresh gone_stays [OF assms(3,4)] in \<open>auto simp: not_le\<close>)
    then show ?thesis using False by simp
  qed
qed

lemma all_guarded_update:
  assumes "all_guarded lib i iref aref live c m"
    and "case x of None \<Rightarrow> c' = 0 \<and> m' = 0 | Some p \<Rightarrow> guarded lib i iref aref p c' m'"
  shows "all_guarded lib i iref aref (live(pid := x)) (c(pid := c')) (m(pid := m'))"
  unfolding all_guarded_def
proof
  fix q
  show "case (live(pid := x)) q of None \<Rightarrow> (c(pid := c')) q = 0 \<and> (m(pid := m')) q = 0
    | Some p \<Rightarrow> guarded lib i iref aref p ((c(pid := c')) q) ((m(pid := m')) q)"
    using assms by (cases "q = pid"; cases x; cases "live q") (auto simp: all_guarded_def dest: spec [of _ q])
qed

lemma consistent_act:
  assumes "consistent lib i iref aref w c m" "wd_live w pid = Some (Call e k)"
    and "disk_step (wd_disk w) e r d'" "\<not> draws lib (in_operation i) e r"
  shows "consistent lib i iref aref
    \<lparr>wd_disk = d', wd_live = (wd_live w)(pid \<mapsto> k r), wd_sent = sent_by e @ wd_sent w\<rparr>
    (c(pid := clearing (intent_path iref) (c pid) e r))
    (m(pid := marking iref (attempt_path aref) (intent_path iref) (m pid) e r))"
proof -
  have "guarded lib i iref aref (Call e k) (c pid) (m pid)"
    using assms(1,2) by (auto simp: consistent_def all_guarded_def dest: spec [of _ pid])
  then have allowed: "may_unlink (attempt_path aref) (c pid) e" "may_submit iref (m pid) e" "\<not> makes (intent_path iref) e"
    and following: "guarded lib i iref aref (k r) (clearing (intent_path iref) (c pid) e r)
      (marking iref (attempt_path aref) (intent_path iref) (m pid) e r)"
    using assms(4) by (auto simp: guarded_def may_make_def drawing_def dest!: spec [of _ r])
  show ?thesis
    using assms(1) following all_guarded_update [where live = "wd_live w" and x = "Some (k r)" and pid = pid]
      ghosts_step [OF _ assms(3) allowed(3), where pid = pid and c = c and m = m] allowed(1,2)
      sender_step [OF _ _ assms(3) allowed(3), where pid = pid and c = c and m = m]
    by (auto simp: consistent_def sent_count)
qed

lemma consistent_step:
  assumes "consistent lib i iref aref w c m" "world_step lib (in_operation i) w w'" "exchange_of lib i iref aref"
  shows "\<exists>c m. consistent lib i iref aref w' c m"
  using assms(2)
proof cases
  case (start pid p)
  have "c pid = 0 \<and> m pid = 0" using assms(1) start(2) by (auto simp: consistent_def all_guarded_def dest: spec [of _ pid])
  then have "consistent lib i iref aref w' c m"
    using assms(1) command_guarded [OF assms(3) start(3)]
      all_guarded_update [where live = "wd_live w" and c = c and m = m and x = "Some p" and c' = "c pid" and m' = "m pid" and pid = pid]
    unfolding start(1) by (auto simp: consistent_def fun_upd_idem)
  then show ?thesis by blast
next
  case (act pid e k r d)
  then show ?thesis using consistent_act [OF assms(1)] by blast
next
  case (stop pid)
  have "consistent lib i iref aref w' (c(pid := 0)) (m(pid := 0))"
    using assms(1) all_guarded_update [where live = "wd_live w" and x = None and pid = pid] unfolding stop
    by (auto simp: consistent_def ghosts_true_def one_sender_def)
  then show ?thesis by blast
next
  case (power_loss names)
  have "gone iref (wd_disk w) \<Longrightarrow> gone iref (wd_disk w')" "marked aref (wd_disk w) \<Longrightarrow> marked aref (wd_disk w')"
    using power_loss by (auto simp: gone_def marked_def)
  then have "consistent lib i iref aref w' (\<lambda>_. 0) (\<lambda>_. 0)"
    using assms(1) unfolding power_loss(1) by (auto simp: consistent_def all_guarded_def ghosts_true_def one_sender_def)
  then show ?thesis by blast
qed

lemma consistent_reachable:
  assumes "exchange_of lib i iref aref" "(world_step lib (in_operation i))\<^sup>*\<^sup>* w w'"
    and "wd_live w = (\<lambda>_. None)" "rr_id iref \<notin> set (wd_sent w)"
  shows "\<exists>c m. consistent lib i iref aref w' c m"
  using assms(2)
proof (induction rule: rtranclp_induct)
  case base
  have "consistent lib i iref aref w (\<lambda>_. 0) (\<lambda>_. 0)"
    using assms(3,4) by (simp add: consistent_def all_guarded_def ghosts_true_def one_sender_def)
  then show ?case by blast
next
  case (step y z)
  then show ?case using consistent_step [OF _ _ assms(1)] by blast
qed

end
