(* ===== verification/IdealStore.thy ===== *)
theory IdealStore
  imports RecordStoreProps
begin

text \<open>
  A store on a file system without faults, on which programs are executed to their end: names lead to files, links add
  names to the same file, and every call succeeds when it can. \<open>execute\<close> is total because a program is a finite tree.
\<close>

section \<open>Names, files and handles\<close>

record ideal =
  id_names :: "(bytes \<times> nat) list"
  id_content :: "nat \<Rightarrow> bytes"
  id_handles :: "nat \<Rightarrow> nat"
  id_offset :: "nat \<Rightarrow> nat"
  id_next :: nat
  id_dirty :: "bytes list"

definition info_of :: "ideal \<Rightarrow> nat \<Rightarrow> file_info" where
  "info_of s n = \<lparr>fi_id = n, fi_size = int (length (id_content s n)), fi_mtime = 0, fi_regular = True,
     fi_link_like = False, fi_dir = False\<rparr>"

text \<open>Opening a file takes the next handle; a new file and its handle share their number.\<close>

definition new_handle :: "nat \<Rightarrow> ideal \<Rightarrow> ideal" where
  "new_handle n s =
     s\<lparr>id_handles := (id_handles s)(id_next s := n), id_offset := (id_offset s)(id_next s := 0), id_next := id_next s + 1\<rparr>"

definition new_file :: "bytes \<Rightarrow> ideal \<Rightarrow> ideal" where
  "new_file p s =
     (new_handle (id_next s) s)\<lparr>id_names := (p, id_next s) # id_names s, id_content := (id_content s)(id_next s := []),
        id_dirty := p # id_dirty s\<rparr>"

text \<open>A read goes from the offset of the handle to the end.\<close>

definition rest_of :: "nat \<Rightarrow> ideal \<Rightarrow> bytes" where
  "rest_of h s = drop (id_offset s h) (id_content s (id_handles s h))"

definition to_end :: "nat \<Rightarrow> ideal \<Rightarrow> ideal" where
  "to_end h s = s\<lparr>id_offset := (id_offset s)(h := length (id_content s (id_handles s h)))\<rparr>"

definition write_file :: "nat \<Rightarrow> bytes \<Rightarrow> ideal \<Rightarrow> ideal" where
  "write_file h b s =
     s\<lparr>id_content := (id_content s)(id_handles s h := id_content s (id_handles s h) @ b)\<rparr>"

definition link_file :: "nat \<Rightarrow> bytes \<Rightarrow> ideal \<Rightarrow> ideal" where
  "link_file n q s = s\<lparr>id_names := (q, n) # id_names s, id_dirty := q # id_dirty s\<rparr>"

definition unlink_file :: "bytes \<Rightarrow> ideal \<Rightarrow> ideal" where
  "unlink_file p s = s\<lparr>id_names := filter (\<lambda>e. fst e \<noteq> p) (id_names s), id_dirty := p # id_dirty s\<rparr>"

definition directory_path :: "directory \<Rightarrow> bytes" where
  "directory_path x = (case x of Objects \<Rightarrow> objects_dir | Temporary \<Rightarrow> temporary_dir) @ ''/''"

definition flush_names :: "directory \<Rightarrow> ideal \<Rightarrow> ideal" where
  "flush_names x s = s\<lparr>id_dirty := filter (\<lambda>p. \<not> has_prefix p (directory_path x)) (id_dirty s)\<rparr>"

definition names_in :: "directory \<Rightarrow> ideal \<Rightarrow> bytes list" where
  "names_in x s =
     map (\<lambda>e. drop (length (directory_path x)) (fst e)) (filter (\<lambda>e. has_prefix (fst e) (directory_path x)) (id_names s))"

text \<open>The directories are the files 0 and 1.\<close>

definition directory_file :: "directory \<Rightarrow> nat" where
  "directory_file x = (case x of Objects \<Rightarrow> 0 | Temporary \<Rightarrow> 1)"

definition content_steps :: "bytes \<Rightarrow> read_step list" where
  "content_steps b = (if b = [] then [EndOfData] else [Chunk b, EndOfData])"

section \<open>Execution\<close>

text \<open>Calls that are not the store's are answered by a function.\<close>

fun respond :: "('x \<Rightarrow> 'y) \<Rightarrow> bytes \<Rightarrow> 'x call \<Rightarrow> ideal \<Rightarrow> 'y reply \<times> ideal" where
  "respond other random CtxErr s = (Flag False, s)"
| "respond other random CheckRoot s = (Flag True, s)"
| "respond other random (OpenObject p) s =
     (case map_of (id_names s) p of
        None \<Rightarrow> (OpenReply Absent, s)
      | Some n \<Rightarrow> (OpenReply (Opened (id_next s) (info_of s n)), new_handle n s))"
| "respond other random (ReadObject h) s = (Steps (content_steps (rest_of h s)), to_end h s)"
| "respond other random (StatObject h) s = (Info (Some (info_of s (id_handles s h))), s)"
| "respond other random (CloseObject h) s = (Flag True, s)"
| "respond other random (OpenDirectory x) s =
     (DirectoryReply (Some (id_next s, info_of s (directory_file x))), new_handle (directory_file x) s)"
| "respond other random (ReadDirectory h n) s =
     (Names (Some (take (nat n) (names_in (if id_handles s h = 0 then Objects else Temporary) s))), s)"
| "respond other random RandomSuffix s = (Random (Some random), s)"
| "respond other random (CreateStaging p) s =
     (if map_of (id_names s) p \<noteq> None then (Handle None, s) else (Handle (Some (id_next s)), new_file p s))"
| "respond other random (WriteStaging h b) s = (Flag True, write_file h b s)"
| "respond other random (SyncStaging h) s = (Flag True, s)"
| "respond other random (LinkObject p q) s =
     (case map_of (id_names s) p of
        None \<Rightarrow> (LinkReply LinkFailed, s)
      | Some n \<Rightarrow> if map_of (id_names s) q \<noteq> None then (LinkReply Exists, s) else (LinkReply Linked, link_file n q s))"
| "respond other random (UnlinkName p) s =
     (if map_of (id_names s) p = None then (UnlinkReply Missing, s) else (UnlinkReply Unlinked, unlink_file p s))"
| "respond other random (SyncDirectory x) s = (Flag True, flush_names x s)"
| "respond other random (StatName p) s = (Info (map_option (info_of s) (map_of (id_names s) p)), s)"
| "respond other random ReadClock s = (Instant 1, s)"
| "respond other random (Other x) s = (OtherReply (other x), s)"

primrec execute :: "('x \<Rightarrow> 'y) \<Rightarrow> bytes \<Rightarrow> ('x, 'y, 'a) store_prog \<Rightarrow> ideal \<Rightarrow> 'a \<times> ideal" where
  "execute other random (Return x) = (\<lambda>s. (x, s))"
| "execute other random (Call c k) =
     (\<lambda>s. case respond other random c s of (r, s') \<Rightarrow> execute other random (k r) s')"

lemma execute_bind [simp]:
  "execute other random (bind p f) s = (case execute other random p s of (x, s') \<Rightarrow> execute other random (f x) s')"
  by (induction p arbitrary: s) (auto split: prod.split)

lemma execute_calls [simp]:
  "execute other random ctx_err s = (False, s)"
  "execute other random check_root s = (True, s)"
  "execute other random (open_object p) s =
     (case map_of (id_names s) p of None \<Rightarrow> (Absent, s) | Some n \<Rightarrow> (Opened (id_next s) (info_of s n), new_handle n s))"
  "execute other random (read_object h) s = (content_steps (rest_of h s), to_end h s)"
  "execute other random (stat_object h) s = (Some (info_of s (id_handles s h)), s)"
  "execute other random (close_object h) s = (True, s)"
  "execute other random random_suffix s = (Some random, s)"
  "execute other random (create_staging p) s =
     (if map_of (id_names s) p \<noteq> None then (None, s) else (Some (id_next s), new_file p s))"
  "execute other random (write_staging h b) s = (True, write_file h b s)"
  "execute other random (sync_staging h) s = (True, s)"
  "execute other random (link_object p q) s =
     (case map_of (id_names s) p of
        None \<Rightarrow> (LinkFailed, s)
      | Some n \<Rightarrow> if map_of (id_names s) q \<noteq> None then (Exists, s) else (Linked, link_file n q s))"
  "execute other random (unlink_name p) s =
     (if map_of (id_names s) p = None then (Missing, s) else (Unlinked, unlink_file p s))"
  "execute other random (sync_directory x) s = (True, flush_names x s)"
  by (simp_all add: call_defs perform_def split: option.split)

lemma respond_next: "respond other random c s = (r, s') \<Longrightarrow> id_next s \<le> id_next s'"
  by (cases c)
     (auto simp: new_handle_def new_file_def to_end_def write_file_def link_file_def unlink_file_def flush_names_def
       split: option.splits if_splits)

lemma execute_next: "execute other random p s = (x, s') \<Longrightarrow> id_next s \<le> id_next s'"
proof (induction p arbitrary: s)
  case (Call c k)
  obtain r s1 where r: "respond other random c s = (r, s1)" by (cases "respond other random c s")
  then have "id_next s1 \<le> id_next s'" using Call by auto
  then show ?case using respond_next [OF r] by simp
qed simp

lemma new_handle_fields [simp]:
  "id_names (new_handle n s) = id_names s" "id_content (new_handle n s) = id_content s"
  "id_handles (new_handle n s) = (id_handles s)(id_next s := n)" "id_next (new_handle n s) = Suc (id_next s)"
  "id_dirty (new_handle n s) = id_dirty s"
  by (simp_all add: new_handle_def)

lemma to_end_fields [simp]:
  "id_names (to_end h s) = id_names s" "id_content (to_end h s) = id_content s" "id_handles (to_end h s) = id_handles s"
  "id_next (to_end h s) = id_next s" "id_dirty (to_end h s) = id_dirty s" "info_of (to_end h s) n = info_of s n"
  by (simp_all add: to_end_def info_of_def)

lemma rest_of_new [simp]:
  "rest_of (id_next s) (new_handle n s) = id_content s n" "rest_of h (to_end h s) = []"
  by (simp_all add: rest_of_def new_handle_def to_end_def)

lemma info_fields [simp]:
  "fi_size (info_of s n) = int (length (id_content s n))" "same_object (info_of s n) (info_of s n)"
  "info_of (new_handle m s) n = info_of s n" "stable_object (info_of s n) (Some (info_of s n)) True (Opened h (info_of s n))"
  by (simp_all add: info_of_def same_object_def stable_object_def)

lemma drain_content:
  "int (length b) \<le> maximum \<Longrightarrow>
    drain_record_reader maximum 0 new_digest_reader (content_steps b) = (None, \<lparr>dr_total = int (length b), dr_data = b\<rparr>)"
  by (simp add: content_steps_def digest_read_def new_digest_reader_def)

lemma polled_content [simp]: "polled c (content_steps b) = content_steps b"
  by (simp add: polled_def content_steps_def)

lemma execute_verify:
  assumes "map_of (id_names s) p = Some n" "int (length (id_content s n)) \<le> maximum"
    and "record_id_of lib kind (id_content s n) = i"
  shows "execute other random (verify_record_relative lib c p kind i maximum) s =
    (Inr (int (length (id_content s n))), new_handle n (to_end (id_next s) (new_handle n s)))"
  using assms by (simp add: verify_record_relative_def close_reopened_def stable_object_def drain_content)

lemma execute_verify_absent:
  "map_of (id_names s) p = None \<Longrightarrow>
    execute other random (verify_record_relative lib c p kind i maximum) s = (Inl RecordNotFound, s)"
  by (simp add: verify_record_relative_def)

lemma write_file_fields [simp]:
  "id_names (write_file h b s) = id_names s" "id_handles (write_file h b s) = id_handles s"
  "id_next (write_file h b s) = id_next s" "id_dirty (write_file h b s) = id_dirty s"
  by (simp_all add: write_file_def)

lemma write_twice: "write_file h b (write_file h a s) = write_file h (a @ b) s"
  by (simp add: write_file_def)

lemma write_nothing: "write_file h [] s = s"
  by (simp add: write_file_def)

lemma execute_copy:
  "copied + length source \<le> maximum \<Longrightarrow>
    execute other random (copy_sealed_record h maximum source copied) s =
      ((None, copied + length source), write_file h source s)"
proof (induction source arbitrary: copied s rule: measure_induct_rule [where f = length])
  case (less source)
  show ?case
  proof (cases "source = []")
    case True
    then show ?thesis by (subst copy_sealed_record.simps) (simp add: write_nothing)
  next
    case False
    define n where "n = min (if maximum - copied < 32767 then maximum - copied + 1 else 32768) (length source)"
    have n: "0 < n" "n \<le> length source" "n \<le> maximum - copied" "length source \<le> maximum - copied"
      using False less.prems by (auto simp: n_def)
    then have IH: "execute other random (copy_sealed_record h maximum (drop n source) (copied + n)) s' =
        ((None, copied + length source), write_file h (drop n source) s')" for s'
      using less.IH [of "drop n source" "copied + n" s'] less.prems False by simp
    show ?thesis
      by (subst copy_sealed_record.simps) (use False n IH less.prems in \<open>simp add: n_def [symmetric] Let_def write_twice\<close>)
  qed
qed

section \<open>Importing, then loading\<close>

lemma map_of_unlinked [simp]: "map_of (id_names (unlink_file p s)) q = (if q = p then None else map_of (id_names s) q)"
proof -
  have "map_of (filter (\<lambda>e. fst e \<noteq> p) xs) q = (if q = p then None else map_of xs q)" for xs :: "(bytes \<times> nat) list"
    by (induction xs) auto
  then show ?thesis by (simp add: unlink_file_def)
qed

lemma state_fields [simp]:
  "id_content (unlink_file p s) = id_content s" "id_handles (unlink_file p s) = id_handles s" "id_next (unlink_file p s) = id_next s"
  "id_names (flush_names x s) = id_names s" "id_content (flush_names x s) = id_content s"
  "id_handles (flush_names x s) = id_handles s" "id_next (flush_names x s) = id_next s"
  "id_names (link_file n q s) = (q, n) # id_names s" "id_content (link_file n q s) = id_content s"
  "id_handles (link_file n q s) = id_handles s" "id_next (link_file n q s) = id_next s"
  by (simp_all add: unlink_file_def flush_names_def link_file_def)

text \<open>The record is stored: its name leads to a file with exactly its bytes.\<close>

definition stored :: "golib \<Rightarrow> bytes \<Rightarrow> bytes \<Rightarrow> ideal \<Rightarrow> bool" where
  "stored lib kind payload s \<longleftrightarrow>
     (\<exists>n. map_of (id_names s) (record_relative_path kind (record_id_of lib kind payload)) = Some n \<and>
       id_content s n = payload)"

definition ref_of :: "golib \<Rightarrow> bytes \<Rightarrow> bytes \<Rightarrow> record_ref" where
  "ref_of lib kind payload = \<lparr>rr_kind = kind, rr_id = record_id_of lib kind payload, rr_size = int (length payload)\<rparr>"

lemma staging_not_record [simp]:
  "import_staging_path r \<noteq> record_relative_path k i" "record_relative_path k i \<noteq> import_staging_path r"
  using temporary_paths by metis+

lemma execute_import_publish:
  assumes "id_names s = (t, n) # names" "map_of names t = None" "id_content s n = payload" "t = import_staging_path r"
    and "map_of (id_names s) (record_relative_path kind (record_id_of lib kind payload)) = None"
    and "int (length payload) \<le> rl_record_bytes limits" "ir_bytes receipt = int (length payload)"
  shows "\<exists>s'. execute other random (import_publish lib limits (ref_of lib kind payload) t receipt) s =
      ((receipt\<lparr>ir_writes := 1\<rparr>, Inr (ref_of lib kind payload), True), s') \<and>
    id_names s' = (record_relative_path kind (record_id_of lib kind payload), n) # names \<and> id_content s' = id_content s"
proof -
  have "filter (\<lambda>e. fst e \<noteq> t) names = names"
    using assms(2) by (auto simp: map_of_eq_None_iff filter_id_conv)
  then show ?thesis
    using assms
    by (simp add: import_publish_def publish_no_replace_def platform_publish_def Let_def ref_of_def unlink_file_def
        execute_verify [where n = n])
qed

lemma execute_import_staged:
  assumes "id_names s = (t, n) # names" "map_of names t = None" "id_handles s h = n" "id_content s n = []"
    and "t = import_staging_path r"
    and "map_of (id_names s) (record_relative_path kind (record_id_of lib kind payload)) = None"
    and "int (length payload) \<le> rl_record_bytes limits"
  shows "\<exists>s'. execute other random (import_staged lib limits kind payload t h) s =
      ((\<lparr>ir_writes = 1, ir_already = False, ir_bytes = int (length payload)\<rparr>, Inr (ref_of lib kind payload), True), s') \<and>
    id_names s' = (record_relative_path kind (record_id_of lib kind payload), n) # names \<and>
    id_content s' = (id_content s)(n := payload)"
proof -
  let ?s = "write_file h payload s"
  let ?s2 = "new_handle n (to_end (id_next ?s) (new_handle n ?s))"
  have content: "id_content ?s = (id_content s)(n := payload)" using assms(3,4) by (simp add: write_file_def)
  have copy: "execute other random (copy_sealed_record h (nat (rl_record_bytes limits)) payload 0) s =
      ((None, length payload), ?s)"
    using execute_copy [of 0 payload "nat (rl_record_bytes limits)"] assms(7) by (simp add: le_nat_iff)
  have staged: "execute other random (verify_record_relative lib True t kind (record_id_of lib kind payload) (rl_record_bytes limits)) ?s =
      (Inr (int (length payload)), ?s2)"
    using execute_verify [of ?s t n "rl_record_bytes limits" lib kind, OF _ _ refl] assms(1,7) content by simp
  obtain s' where publish: "execute other random (import_publish lib limits (ref_of lib kind payload) t
      (no_import\<lparr>ir_bytes := int (length payload)\<rparr>)) ?s2 =
      ((no_import\<lparr>ir_bytes := int (length payload), ir_writes := 1\<rparr>, Inr (ref_of lib kind payload), True), s')"
    "id_names s' = (record_relative_path kind (record_id_of lib kind payload), n) # names" "id_content s' = id_content ?s"
    using execute_import_publish [of ?s2 t n names payload r kind lib limits "no_import\<lparr>ir_bytes := int (length payload)\<rparr>"]
      assms content by auto
  then show ?thesis
    using copy staged assms(6,7) content
    by (simp add: import_staged_def Let_def execute_verify_absent ref_of_def no_import_def)
qed

lemma execute_import:
  assumes "valid_record_kind kind" "valid_record_limits limits" "bs_open b" "int (length payload) \<le> rl_record_bytes limits"
    and "map_of (id_names s) (record_relative_path kind (record_id_of lib kind payload)) = None"
    and "map_of (id_names s) (import_staging_path random) = None"
  shows "\<exists>s'. execute other random (bound_import_record lib b kind payload limits) s =
      ((\<lparr>ir_writes = 1, ir_already = False, ir_bytes = int (length payload)\<rparr>, Inr (ref_of lib kind payload)), s') \<and>
    id_names s' = (record_relative_path kind (record_id_of lib kind payload), id_next s) # id_names s \<and>
    id_content s' = (id_content s)(id_next s := payload)"
proof -
  let ?s = "new_file (import_staging_path random) s"
  have "id_names ?s = (import_staging_path random, id_next s) # id_names s" "id_handles ?s (id_next s) = id_next s"
      "id_content ?s (id_next s) = []"
      "map_of (id_names ?s) (record_relative_path kind (record_id_of lib kind payload)) = None"
      "(id_content ?s)(id_next s := payload) = (id_content s)(id_next s := payload)"
    using assms(5) by (simp_all add: new_file_def)
  from execute_import_staged [OF this(1) assms(6) this(2,3) refl this(4) assms(4), of other random] this(5)
  obtain s' where "execute other random (import_staged lib limits kind payload (import_staging_path random) (id_next s)) ?s =
      ((\<lparr>ir_writes = 1, ir_already = False, ir_bytes = int (length payload)\<rparr>, Inr (ref_of lib kind payload), True), s')"
    "id_names s' = (record_relative_path kind (record_id_of lib kind payload), id_next s) # id_names s"
    "id_content s' = (id_content s)(id_next s := payload)"
    by auto
  then show ?thesis
    using assms by (simp add: bound_import_record_def bound_ready_def import_record_session_def Let_def)
qed

definition loaded_whole :: "record_ref \<Rightarrow> 'v \<Rightarrow> ('e, 'v) loaded" where
  "loaded_whole ref v = \<lparr>ld_bytes_read = rr_size ref, ld_consumer_bytes = rr_size ref, ld_result = Inr ref, ld_consumed = Some (Inr v)\<rparr>"

lemma execute_load:
  assumes "valid_record_kind kind" "valid_record_id (record_id_of lib kind payload)" "valid_record_limits limits" "bs_open b"
    and "int (length payload) \<le> rl_record_bytes limits" "stored lib kind payload s" "consume None payload = Inr v"
  shows "\<exists>s'. execute other random (bound_load_record lib b kind (record_id_of lib kind payload) limits consume) s =
      (loaded_whole (ref_of lib kind payload) v, s') \<and>
    id_names s' = id_names s \<and> id_content s' = id_content s"
proof -
  obtain n where n: "map_of (id_names s) (record_relative_path kind (record_id_of lib kind payload)) = Some n"
      "id_content s n = payload"
    using assms(6) by (auto simp: stored_def)
  have steps: "consume_record_reader (rl_record_bytes limits) new_digest_reader (content_steps payload) =
      (None, \<lparr>dr_total = int (length payload), dr_data = payload\<rparr>)"
    using assms(5) by (simp add: content_steps_def digest_read_def new_digest_reader_def)
  show ?thesis
    using assms n steps
    by (simp add: bound_load_record_def bound_ready_def load_record_session_def Let_def close_reopened_def stable_object_def
        ref_of_def loaded_whole_def) (simp add: content_steps_def digest_read_def)
qed

text \<open>
  Claim C33. On a store without faults, importing a record whose object and staging name are free ends, publishes exactly
  one object and returns the reference of the payload; loading that reference afterwards ends and hands back exactly the
  payload.
\<close>

theorem import_then_load:
  assumes "valid_record_kind kind" "valid_record_limits limits" "bs_open b" "digest_sizes lib"
    and "int (length payload) \<le> rl_record_bytes limits"
    and "map_of (id_names s) (record_relative_path kind (record_id_of lib kind payload)) = None"
    and "map_of (id_names s) (import_staging_path random) = None"
  shows "\<exists>ref s'. execute other random (bound_import_record lib b kind payload limits) s =
      ((\<lparr>ir_writes = 1, ir_already = False, ir_bytes = int (length payload)\<rparr>, Inr ref), s') \<and>
    compute_record_ref lib kind payload = Some ref \<and>
    (\<exists>ld s''. execute other random (bound_load_record lib b kind (rr_id ref) limits (\<lambda>e d. if e = None then Inr d else Inl e)) s' =
        (ld, s'') \<and> ld_result ld = Inr ref \<and> ld_consumed ld = Some (Inr payload))"
proof -
  obtain s' where import: "execute other random (bound_import_record lib b kind payload limits) s =
      ((\<lparr>ir_writes = 1, ir_already = False, ir_bytes = int (length payload)\<rparr>, Inr (ref_of lib kind payload)), s')"
      "stored lib kind payload s'"
    using execute_import [OF assms(1,2,3,5,6,7), of other] by (auto simp: stored_def)
  have "\<not> length payload > 67108864" using assms(2,5) by (simp add: valid_record_limits_def)
  then have "compute_record_ref lib kind payload = Some (ref_of lib kind payload)"
    using assms(1) by (simp add: compute_record_ref_def ref_of_def)
  moreover have "rr_id (ref_of lib kind payload) = record_id_of lib kind payload" by (simp add: ref_of_def)
  ultimately show ?thesis
    using import execute_load [OF assms(1) record_id_of_valid [OF assms(4)] assms(2,3,5) import(2),
      of "\<lambda>e d. if e = None then Inr d else Inl e" payload other random] by (auto simp: loaded_whole_def)
qed

theorem import_then_load_witness:
  "\<exists>ref s'. execute (\<lambda>_ :: unit. ()) [] (bound_import_record sample_lib \<lparr>bs_store_id = ''s'', bs_open = True\<rparr> intent_kind ''payload'' default_record_limits)
        \<lparr>id_names = [], id_content = (\<lambda>_. []), id_handles = (\<lambda>_. 0), id_offset = (\<lambda>_. 0), id_next = 2, id_dirty = []\<rparr> =
      ((\<lparr>ir_writes = 1, ir_already = False, ir_bytes = 7\<rparr>, Inr ref), s') \<and>
    compute_record_ref sample_lib intent_kind ''payload'' = Some ref \<and>
    (\<exists>ld s''. execute (\<lambda>_ :: unit. ()) [] (bound_load_record sample_lib \<lparr>bs_store_id = ''s'', bs_open = True\<rparr> intent_kind (rr_id ref)
        default_record_limits (\<lambda>e d. if e = None then Inr d else Inl e)) s' =
        (ld, s'') \<and> ld_result ld = Inr ref \<and> ld_consumed ld = Some (Inr ''payload''))"
  using import_then_load [of intent_kind default_record_limits "\<lparr>bs_store_id = ''s'', bs_open = True\<rparr>" sample_lib "''payload''"
      "\<lparr>id_names = [], id_content = (\<lambda>_. []), id_handles = (\<lambda>_. 0), id_offset = (\<lambda>_. 0), id_next = 2, id_dirty = []\<rparr>" "[]" "\<lambda>_ :: unit. ()"]
  by (simp add: digest_sizes_sample valid_record_limits_def default_record_limits_def valid_record_kind_def all_record_kinds_def)

end
