(* ===== verification/IdealRead.thy ===== *)
theory IdealRead
  imports IdealStore "HOL-Library.Multiset"
begin

text \<open>
  What the reading operations of the store return on a store without faults, as a function of its names and contents:
  a listing returns exactly the records of a kind, loads and verifications find what the names lead to.
\<close>

section \<open>Programs that leave names and contents\<close>

definition reads :: "('x \<Rightarrow> 'y) \<Rightarrow> bytes \<Rightarrow> (bytes \<times> nat) list \<Rightarrow> (nat \<Rightarrow> bytes) \<Rightarrow> ('x, 'y, 'a) store_prog \<Rightarrow> 'a \<Rightarrow> bool" where
  "reads other random names content p x \<longleftrightarrow>
     (\<forall>s. id_names s = names \<longrightarrow> id_content s = content \<longrightarrow>
       (\<exists>s'. execute other random p s = (x, s') \<and> id_names s' = names \<and> id_content s' = content))"

lemma readsI:
  "(\<And>s. id_names s = names \<Longrightarrow> id_content s = content \<Longrightarrow>
      \<exists>s'. execute other random p s = (x, s') \<and> id_names s' = names \<and> id_content s' = content) \<Longrightarrow>
    reads other random names content p x"
  by (simp add: reads_def)

lemma readsD:
  "reads other random names content p x \<Longrightarrow> id_names s = names \<Longrightarrow> id_content s = content \<Longrightarrow>
    \<exists>s'. execute other random p s = (x, s') \<and> id_names s' = names \<and> id_content s' = content"
  by (simp add: reads_def)

lemma reads_return [simp]: "reads other random names content (Return x) y \<longleftrightarrow> x = y"
proof
  let ?s = "\<lparr>id_names = names, id_content = content, id_handles = \<lambda>_. 0, id_offset = \<lambda>_. 0, id_next = 0, id_dirty = []\<rparr>"
  assume "reads other random names content (Return x) y"
  from readsD [OF this, of ?s] show "x = y" by simp
qed (simp add: reads_def)

lemma reads_bind:
  assumes "reads other random names content p x" "reads other random names content (f x) y"
  shows "reads other random names content (bind p f) y"
proof (rule readsI)
  fix s :: ideal
  assume s: "id_names s = names" "id_content s = content"
  obtain s' where first: "execute other random p s = (x, s')" "id_names s' = names" "id_content s' = content"
    using readsD [OF assms(1) s] by blast
  show "\<exists>s'. execute other random (bind p f) s = (y, s') \<and> id_names s' = names \<and> id_content s' = content"
    using readsD [OF assms(2) first(2,3)] by (simp add: first(1))
qed

lemma execute_directory [simp]:
  "execute other random (open_directory x) s =
    (Some (id_next s, info_of s (directory_file x)), new_handle (directory_file x) s)"
  "execute other random (read_directory h n) s =
    (Some (take (nat n) (names_in (if id_handles s h = 0 then Objects else Temporary) s)), s)"
  by (simp_all add: call_defs perform_def)

definition file_of :: "(nat \<Rightarrow> bytes) \<Rightarrow> nat \<Rightarrow> file_info" where
  "file_of content n = \<lparr>fi_id = n, fi_size = int (length (content n)), fi_mtime = 0, fi_regular = True,
     fi_link_like = False, fi_dir = False\<rparr>"

lemma info_of_file: "info_of s n = file_of (id_content s) n"
  by (simp add: info_of_def file_of_def)

lemma reads_simple:
  "reads other random names content ctx_err False"
  "reads other random names content check_root True"
  "reads other random names content (close_object h) True"
  by (simp_all add: reads_def)

lemma reads_bound: "bs_open b \<Longrightarrow> reads other random names content (bound_ready b) None"
  unfolding bound_ready_def by (rule reads_bind [OF reads_simple(1)]) simp

section \<open>Listing\<close>

text \<open>What the store holds of one kind, in the order of a list of object names.\<close>

definition entry_records :: "(bytes \<times> nat) list \<Rightarrow> (nat \<Rightarrow> bytes) \<Rightarrow> bytes \<Rightarrow> bytes \<Rightarrow> record_ref list" where
  "entry_records names content kind n =
     (case (classify_object_name n, map_of names (objects_dir @ ''/'' @ n)) of
        (Some (Some (k, i)), Some m) \<Rightarrow>
          (if k = kind then [\<lparr>rr_kind = k, rr_id = i, rr_size = int (length (content m))\<rparr>] else [])
      | _ \<Rightarrow> [])"

definition records_of :: "(bytes \<times> nat) list \<Rightarrow> (nat \<Rightarrow> bytes) \<Rightarrow> bytes \<Rightarrow> bytes list \<Rightarrow> record_ref list" where
  "records_of names content kind ns = concat (map (entry_records names content kind) ns)"

lemma records_of_simps [simp]:
  "records_of names content kind [] = []"
  "records_of names content kind (n # ns) = entry_records names content kind n @ records_of names content kind ns"
  by (simp_all add: records_of_def)

lemma entry_records_known [simp]:
  "classify_object_name n = Some (Some (k, i)) \<Longrightarrow> map_of names (objects_dir @ ''/'' @ n) = Some m \<Longrightarrow>
    entry_records names content kind n =
      (if k = kind then [\<lparr>rr_kind = k, rr_id = i, rr_size = int (length (content m))\<rparr>] else [])"
  by (simp add: entry_records_def)

definition object_names :: "(bytes \<times> nat) list \<Rightarrow> bytes list" where
  "object_names names =
     map (\<lambda>e. drop (length (objects_dir @ ''/'')) (fst e)) (filter (\<lambda>e. has_prefix (fst e) (objects_dir @ ''/'')) names)"

text \<open>Every object is a record of at most 64 MiB.\<close>

definition only_records :: "(bytes \<times> nat) list \<Rightarrow> (nat \<Rightarrow> bytes) \<Rightarrow> bytes list \<Rightarrow> bool" where
  "only_records names content ns \<longleftrightarrow>
     (\<forall>n \<in> set ns. \<exists>k i m. classify_object_name n = Some (Some (k, i)) \<and>
       map_of names (objects_dir @ ''/'' @ n) = Some m \<and> length (content m) \<le> 67108864)"

definition path_sum :: "bytes list \<Rightarrow> int" where
  "path_sum ns = (\<Sum>n \<leftarrow> ns. int (length objects_dir + 1 + length n))"

lemma reads_binding: "reads other random names content (verify_list_binding (file_of content 0)) True"
  by (rule readsI) (auto simp: verify_list_binding_def info_of_file directory_file_def same_object_def)

lemma path_sum_Cons: "path_sum (n # ns) = int (length objects_dir + 1 + length n) + path_sum ns"
  by (simp add: path_sum_def)

lemma path_sum_nonneg: "0 \<le> path_sum ns"
  by (induction ns) (simp_all add: path_sum_def)

lemma reads_opened:
  assumes "map_of names p = Some m" "\<And>h. reads other random names content (f (Opened h (file_of content m))) y"
  shows "reads other random names content (bind (open_object p) f) y"
  by (rule readsI) (use assms(1) readsD [OF assms(2)] in \<open>auto simp: info_of_file\<close>)

text \<open>One step of a listing.\<close>

definition add_entry :: "bytes \<Rightarrow> list_result \<Rightarrow> list_result" where
  "add_entry n r = r\<lparr>lr_entries := lr_entries r + 1, lr_path_bytes := lr_path_bytes r + int (length objects_dir + 1 + length n)\<rparr>"

definition add_match :: "record_ref \<Rightarrow> list_result \<Rightarrow> list_result" where
  "add_match ref r = r\<lparr>lr_matched := lr_matched r + 1, lr_records := lr_records r @ [ref]\<rparr>"

lemma reads_entry:
  assumes "classify_object_name n = Some (Some (k, i))" "map_of names (objects_dir @ ''/'' @ n) = Some m"
    and "length (content m) \<le> 67108864" "int (length objects_dir + 1 + length n) \<le> rl_path_bytes limits - lr_path_bytes r"
    and "k = kind \<Longrightarrow> lr_matched r + 1 \<le> rl_records limits"
    and "k = kind \<Longrightarrow> reads other random names content (list_entries kind limits b ns
      (add_match \<lparr>rr_kind = k, rr_id = i, rr_size = int (length (content m))\<rparr> (add_entry n r))) y"
    and "k \<noteq> kind \<Longrightarrow> reads other random names content (list_entries kind limits b ns (add_entry n r)) y"
  shows "reads other random names content (list_entries kind limits b (n # ns) r) y"
  unfolding list_entries.simps
  apply (rule reads_bind [OF reads_simple(1)])
  apply (unfold Let_def)
  apply (subst if_not_P, simp)
  apply (subst if_not_P)
  using assms(4) apply simp
  apply (unfold assms(1) option.case)
  apply (rule reads_opened [OF assms(2)])
  apply (unfold open_reply.case)
  apply (rule reads_bind [OF reads_simple(3)])
  using assms(3,5,6,7) apply (cases "k = kind")
  apply (simp_all add: file_of_def add_entry_def add_match_def)
  done

lemma reads_entries:
  assumes "only_records names content ns" "lr_path_bytes r + path_sum ns \<le> rl_path_bytes limits"
    and "lr_matched r + int (length (records_of names content kind ns)) \<le> rl_records limits"
  shows "reads other random names content (list_entries kind limits (file_of content 0) ns r)
    (r\<lparr>lr_entries := lr_entries r + int (length ns), lr_path_bytes := lr_path_bytes r + path_sum ns,
       lr_matched := lr_matched r + int (length (records_of names content kind ns)),
       lr_records := sort_key rr_id (lr_records r @ records_of names content kind ns), lr_complete := True\<rparr>, None)"
  using assms
proof (induction ns arbitrary: r)
  case Nil
  show ?case by (auto intro!: reads_bind [OF reads_binding] simp: path_sum_def)
next
  case (Cons n ns)
  obtain k i m where n: "classify_object_name n = Some (Some (k, i))" "map_of names (objects_dir @ ''/'' @ n) = Some m"
      "length (content m) \<le> 67108864"
    using Cons.prems(1) by (auto simp: only_records_def)
  have rest: "only_records names content ns" using Cons.prems(1) by (simp add: only_records_def)
  show ?case
  proof (rule reads_entry [where names = names and content = content, OF n], goal_cases)
    case 1
    show ?case using Cons.prems(2) path_sum_nonneg [of ns] by (simp add: path_sum_Cons)
  next
    case 2
    then show ?case using Cons.prems(3) n by simp
  next
    case 3
    then show ?case
      using Cons.IH [OF rest, of "add_match \<lparr>rr_kind = k, rr_id = i, rr_size = int (length (content m))\<rparr> (add_entry n r)"]
        Cons.prems(2,3) n by (simp add: add_match_def add_entry_def path_sum_Cons algebra_simps)
  next
    case 4
    then show ?case
      using Cons.IH [OF rest, of "add_entry n r"] Cons.prems(2,3) n by (simp add: add_entry_def path_sum_Cons algebra_simps)
  qed
qed

lemma path_sum_sort [simp]: "path_sum (sort ns) = path_sum ns"
proof -
  have "mset (map (\<lambda>n. int (length objects_dir + 1 + length n)) (sort ns)) =
      mset (map (\<lambda>n. int (length objects_dir + 1 + length n)) ns)"
    by simp
  then show ?thesis unfolding path_sum_def by (metis sum_mset_sum_list)
qed

lemma names_in_objects: "names_in Objects s = object_names (id_names s)"
  by (simp add: names_in_def object_names_def directory_path_def)

lemma reads_directory:
  assumes "int (length (object_names names)) \<le> rl_entries limits"
    and "reads other random names content
      (list_entries kind limits (file_of content 0) (sort (object_names names)) empty_list) y"
  shows "reads other random names content (list_records_session kind limits) y"
proof (rule readsI)
  fix s :: ideal
  assume s: "id_names s = names" "id_content s = content"
  have all: "take (nat (rl_entries limits + 1)) (object_names names) = object_names names"
    using assms(1) by simp
  show "\<exists>s'. execute other random (list_records_session kind limits) s = (y, s') \<and> id_names s' = names \<and> id_content s' = content"
    using assms(1) readsD [OF assms(2)]
    by (simp add: list_records_session_def s names_in_objects all directory_prefix_def directory_file_def info_of_file
        same_object_def)
qed

lemma reads_list:
  assumes "valid_record_list kind limits" "bs_open b" "only_records names content (object_names names)"
    and "int (length (object_names names)) \<le> rl_entries limits" "path_sum (object_names names) \<le> rl_path_bytes limits"
    and "int (length (records_of names content kind (sort (object_names names)))) \<le> rl_records limits"
  shows "reads other random names content (bound_list_records b kind limits)
    (empty_list\<lparr>lr_entries := int (length (object_names names)), lr_path_bytes := path_sum (object_names names),
       lr_matched := int (length (records_of names content kind (sort (object_names names)))),
       lr_records := sort_key rr_id (records_of names content kind (sort (object_names names))), lr_complete := True\<rparr>, None)"
  unfolding bound_list_records_def
proof (rule reads_bind [OF reads_bound [OF assms(2)]])
  have "only_records names content (sort (object_names names))" using assms(3) by (simp add: only_records_def)
  from reads_entries [OF this, of empty_list limits kind other random] assms(5,6)
  show "reads other random names content
      (case None of
         Some e \<Rightarrow> Return (empty_list\<lparr>lr_stop := if e = CtxCancelled then ''context_cancelled'' else []\<rparr>, Some e)
       | None \<Rightarrow> if \<not> valid_record_list kind limits then Return (empty_list, Some StoreFailed)
           else list_records_session kind limits)
      (empty_list\<lparr>lr_entries := int (length (object_names names)), lr_path_bytes := path_sum (object_names names),
         lr_matched := int (length (records_of names content kind (sort (object_names names)))),
         lr_records := sort_key rr_id (records_of names content kind (sort (object_names names))), lr_complete := True\<rparr>, None)"
    using assms(1,4) by (auto intro!: reads_directory simp: empty_list_def)
qed

lemma object_path: "(has_prefix p d \<and> drop (length d) p = n) \<longleftrightarrow> p = d @ n"
  by (auto simp: has_prefix_def) (metis append_take_drop_id)

lemma set_object_names: "n \<in> set (object_names names) \<longleftrightarrow> map_of names (objects_dir @ ''/'' @ n) \<noteq> None"
proof -
  have "n \<in> set (object_names names) \<longleftrightarrow> (\<exists>e \<in> set names. fst e = (objects_dir @ ''/'') @ n)"
    unfolding object_path [symmetric] by (auto simp: object_names_def)
  then show ?thesis by (force simp: map_of_eq_None_iff)
qed

lemma set_entry_records:
  "r \<in> set (entry_records names content kind n) \<longleftrightarrow>
    classify_object_name n = Some (Some (kind, rr_id r)) \<and> rr_kind r = kind \<and>
      (\<exists>m. map_of names (objects_dir @ ''/'' @ n) = Some m \<and> rr_size r = int (length (content m)))"
  by (cases r; cases "map_of names (objects_dir @ ''/'' @ n)") (auto simp: entry_records_def split: option.splits)

lemma set_records_of:
  "r \<in> set (records_of names content kind ns) \<longleftrightarrow>
    (\<exists>n. n \<in> set ns \<and> classify_object_name n = Some (Some (kind, rr_id r)) \<and> rr_kind r = kind \<and>
      (\<exists>m. map_of names (objects_dir @ ''/'' @ n) = Some m \<and> rr_size r = int (length (content m))))"
  by (auto simp: records_of_def set_entry_records)

lemma record_path_name: "\<exists>n. record_relative_path k i = objects_dir @ ''/'' @ n"
  by (simp add: record_relative_path_def)

lemma set_listed:
  "set (records_of names content kind (sort (object_names names))) =
    {r. rr_kind r = kind \<and> valid_record_kind kind \<and> valid_record_id (rr_id r) \<and>
      (\<exists>m. map_of names (record_relative_path kind (rr_id r)) = Some m \<and> rr_size r = int (length (content m)))}"
  (is "?l = ?r")
proof (rule set_eqI)
  fix r
  show "r \<in> ?l \<longleftrightarrow> r \<in> ?r"
    using record_path_name [of kind "rr_id r"]
    by (auto simp: set_records_of set_object_names classify_object_name_record)
qed

text \<open>
  Claim C34. On a store without faults that holds nothing but records, in numbers within the limits, listing a kind ends
  with a complete list: every record of the kind with its size, nothing else, sorted by identity.
\<close>

theorem list_records_exact:
  assumes "valid_record_kind kind" "valid_record_limits limits" "bs_open b"
    and "only_records (id_names s) (id_content s) (object_names (id_names s))"
    and "int (length (object_names (id_names s))) \<le> rl_entries limits"
    and "path_sum (object_names (id_names s)) \<le> rl_path_bytes limits"
    and "int (length (records_of (id_names s) (id_content s) kind (sort (object_names (id_names s))))) \<le> rl_records limits"
  shows "\<exists>listed s'. execute other random (bound_list_records b kind limits) s = ((listed, None), s') \<and>
    lr_complete listed \<and> sorted (map rr_id (lr_records listed)) \<and>
    set (lr_records listed) =
      {r. rr_kind r = kind \<and> valid_record_id (rr_id r) \<and>
        (\<exists>n. map_of (id_names s) (record_relative_path kind (rr_id r)) = Some n \<and> rr_size r = int (length (id_content s n)))}"
  using readsD [OF reads_list [OF _ assms(3-7), of other random] refl refl] assms(1,2)
  by (auto simp: valid_record_list_def set_listed)

definition one_record :: ideal where
  "one_record = \<lparr>id_names = [(record_relative_path intent_kind (record_id_of sample_lib intent_kind []), 2)],
     id_content = (\<lambda>_. []), id_handles = (\<lambda>_. 0), id_offset = (\<lambda>_. 0), id_next = 3, id_dirty = []\<rparr>"

definition one_name :: bytes where
  "one_name = record_prefix @ intent_kind @ ''-'' @ hex_encode (gl_sha256 sample_lib (record_preimage intent_kind [])) @ record_suffix"

lemma one_record_path: "record_relative_path intent_kind (record_id_of sample_lib intent_kind []) = objects_dir @ ''/'' @ one_name"
  by (simp add: record_relative_path_def record_id_of_def one_name_def)

lemma objects_length: "length objects_dir = 7"
  by (simp add: objects_dir_def)

lemma one_record_facts:
  "object_names (id_names one_record) = [one_name]" "map_of (id_names one_record) (objects_dir @ ''/'' @ one_name) = Some 2"
  "classify_object_name one_name = Some (Some (intent_kind, record_id_of sample_lib intent_kind []))"
  "id_content one_record n = []" "length one_name = 108"
  using digest_sizes_sample
  by (simp_all add: one_record_def one_record_path object_names_def has_prefix_def classify_object_name_record
      valid_record_kind_def all_record_kinds_def record_id_of_valid)
     (simp add: one_name_def digest_sizes_def record_prefix_def record_suffix_def intent_kind_def)

theorem list_records_exact_witness:
  "\<exists>listed s'. execute (\<lambda>_ :: unit. ()) [] (bound_list_records \<lparr>bs_store_id = ''s'', bs_open = True\<rparr> intent_kind default_record_limits)
      one_record = ((listed, None), s') \<and>
    lr_complete listed \<and> sorted (map rr_id (lr_records listed)) \<and>
    set (lr_records listed) =
      {r. rr_kind r = intent_kind \<and> valid_record_id (rr_id r) \<and>
        (\<exists>n. map_of (id_names one_record) (record_relative_path intent_kind (rr_id r)) = Some n \<and>
          rr_size r = int (length (id_content one_record n)))}"
  by (rule list_records_exact)
     (simp_all add: one_record_facts only_records_def path_sum_def objects_length valid_record_kind_def all_record_kinds_def
       valid_record_limits_def default_record_limits_def one_record_facts(2) [unfolded append.simps])

end
