(* ===== verification/SubmitRun.thy ===== *)
theory SubmitRun
  imports IdealRead ExchangeCommands
begin

text \<open>
  The submit command on a store without faults: when the intent is prepared, the site answers and the fresh review agrees
  with the intent, the attempt is reserved and the request is sent. These are the executions the protocol is for; that no
  other execution sends a second request is shown in the theories on interleavings.
\<close>

section \<open>Session operations\<close>

lemma reads_session_ready: "\<not> sn_closed s \<Longrightarrow> reads other random names content (session_ready s) None"
  unfolding session_ready_def by (rule reads_bind [OF reads_simple(1)]) simp

lemma limits_valid:
  assumes "valid_store_limits l"
  shows "valid_record_limits (record_limits_of l)" "valid_record_limits (list_limits_of l)"
  using assms
  by (auto simp: valid_store_limits_def valid_record_limits_def record_limits_of_def list_limits_of_def default_record_limits_def)

lemma record_limits_bytes [simp]: "rl_record_bytes (record_limits_of l) = el_record_bytes l"
  by (simp add: record_limits_of_def)

lemma reads_session_load:
  assumes "valid_store_limits (sn_limits s)" "bs_open (sn_bound s)" "digest_sizes (ex_go lib)" "valid_record_kind kind"
    and "map_of names (record_relative_path kind (record_id_of (ex_go lib) kind payload)) = Some n" "content n = payload"
    and "int (length payload) \<le> el_record_bytes (sn_limits s)" "consume None payload = Inr v"
  shows "reads other random names content (session_load lib s kind (record_id_of (ex_go lib) kind payload) consume)
    (loaded_whole (ref_of (ex_go lib) kind payload) v)"
proof (rule readsI)
  fix st :: ideal
  assume st: "id_names st = names" "id_content st = content"
  then have "stored (ex_go lib) kind payload st" using assms(5,6) by (auto simp: stored_def)
  from execute_load [where consume = consume and payload = payload and kind = kind and lib = "ex_go lib" and other = other
      and random = random, OF assms(4) record_id_of_valid [OF assms(3)] limits_valid(1) [OF assms(1)] assms(2) _ this assms(8)]
  show "\<exists>s'. execute other random (session_load lib s kind (record_id_of (ex_go lib) kind payload) consume) st =
      (loaded_whole (ref_of (ex_go lib) kind payload) v, s') \<and> id_names s' = names \<and> id_content s' = content"
    using assms(7) st by (simp add: session_load_def)
qed

lemma reads_session_load_absent:
  assumes "valid_store_limits (sn_limits s)" "bs_open (sn_bound s)" "valid_record_kind kind" "valid_record_id rid"
    and "map_of names (record_relative_path kind rid) = None"
  shows "reads other random names content (session_load lib s kind rid consume) (not_loaded RecordNotFound)"
  using assms limits_valid(1) [OF assms(1)]
  by (intro readsI) (simp add: session_load_def bound_load_record_def bound_ready_def load_record_session_def Let_def)

text \<open>Each reference is that of a stored payload within the limits.\<close>

definition holds :: "golib \<Rightarrow> int \<Rightarrow> (bytes \<times> nat) list \<Rightarrow> (nat \<Rightarrow> bytes) \<Rightarrow> record_ref \<Rightarrow> bool" where
  "holds lib maximum names content r \<longleftrightarrow>
     (\<exists>payload n. r = ref_of lib (rr_kind r) payload \<and> int (length payload) \<le> maximum \<and>
       map_of names (record_relative_path (rr_kind r) (rr_id r)) = Some n \<and> content n = payload)"

lemma reads_verify_records:
  assumes "\<forall>r \<in> set rs. holds lib (rl_record_bytes limits) names content r"
  shows "\<exists>b. reads other random names content (verify_records lib limits rs receipt)
    (receipt\<lparr>sr_complete := True, sr_verified := sr_verified receipt + length rs, sr_bytes := b\<rparr>, None)"
  using assms
proof (induction rs arbitrary: receipt)
  case Nil
  show ?case by (rule exI [of _ "sr_bytes receipt"]) (auto intro!: reads_bind [OF reads_simple(2)])
next
  case (Cons r rs)
  obtain payload n where r: "r = ref_of lib (rr_kind r) payload" "int (length payload) \<le> rl_record_bytes limits"
      "map_of names (record_relative_path (rr_kind r) (rr_id r)) = Some n" "content n = payload"
    using Cons.prems by (auto simp: holds_def)
  have id: "rr_id r = record_id_of lib (rr_kind r) payload" "rr_size r = int (length payload)"
    using r(1) by (metis ref_of_def record_ref.select_convs)+
  have one: "reads other random names content
      (verify_record_relative lib True (record_relative_path (rr_kind r) (rr_id r)) (rr_kind r) (rr_id r) (rl_record_bytes limits))
      (Inr (int (length payload)))"
    by (rule readsI) (use r(2-4) id(1) in \<open>simp add: execute_verify [where n = n]\<close>)
  obtain b where rest: "reads other random names content
      (verify_records lib limits rs (receipt\<lparr>sr_verified := sr_verified receipt + 1, sr_bytes := sr_bytes receipt + int (length payload)\<rparr>))
      (receipt\<lparr>sr_complete := True, sr_verified := sr_verified receipt + 1 + length rs, sr_bytes := b\<rparr>, None)"
    using Cons.IH [of "receipt\<lparr>sr_verified := sr_verified receipt + 1, sr_bytes := sr_bytes receipt + int (length payload)\<rparr>"]
      Cons.prems by auto
  show ?case
    using rest by (auto intro!: exI [of _ b] reads_bind [OF one] simp: id(2))
qed

lemma reads_verify_set:
  assumes "valid_store_limits (sn_limits s)" "bs_open (sn_bound s)" "digest_sizes (ex_go lib)"
    and "rs \<noteq> []" "length rs \<le> 16" "distinct (map rr_kind rs)" "\<forall>r \<in> set rs. valid_record_kind (rr_kind r)"
    and "\<forall>r \<in> set rs. holds (ex_go lib) (el_record_bytes (sn_limits s)) names content r"
  shows "\<exists>b. reads other random names content (session_verify_set lib s rs)
    (\<lparr>sr_complete = True, sr_verified = length rs, sr_bytes = b\<rparr>, None)"
proof -
  have "record_identity_valid r" if "r \<in> set rs" for r
  proof -
    obtain payload where "r = ref_of (ex_go lib) (rr_kind r) payload" using assms(8) \<open>r \<in> set rs\<close> by (auto simp: holds_def)
    then have "rr_id r = record_id_of (ex_go lib) (rr_kind r) payload" "rr_size r = int (length payload)"
      by (metis ref_of_def record_ref.select_convs)+
    then show ?thesis using assms(3,7) that by (simp add: record_identity_valid_def record_id_of_valid)
  qed
  moreover have "distinct (map (\<lambda>r. (rr_kind r, rr_id r)) rs)"
    using assms(6) by (auto simp: distinct_map inj_on_def)
  ultimately have "valid_record_set rs (record_limits_of (sn_limits s))"
    using assms(4,5) limits_valid(1) [OF assms(1)] by (simp add: valid_record_set_def list_all_iff)
  moreover obtain b where "reads other random names content (verify_records (ex_go lib) (record_limits_of (sn_limits s)) rs no_set)
      (no_set\<lparr>sr_complete := True, sr_verified := sr_verified no_set + length rs, sr_bytes := b\<rparr>, None)"
    using reads_verify_records [of rs "ex_go lib" "record_limits_of (sn_limits s)" names content other random no_set] assms(8) by auto
  ultimately show ?thesis
    unfolding session_verify_set_def bound_verify_record_set_def
    by (auto intro!: exI [of _ b] reads_bind [OF reads_bound [OF assms(2)]] simp: verify_record_set_session_def no_set_def)
qed

section \<open>A store with nothing but intents and attempts\<close>

definition quiet :: "session \<Rightarrow> (bytes \<times> nat) list \<Rightarrow> (nat \<Rightarrow> bytes) \<Rightarrow> bool" where
  "quiet s names content \<longleftrightarrow>
     only_records names content (object_names names) \<and> int (length (object_names names)) \<le> el_entries (sn_limits s) \<and>
     path_sum (object_names names) \<le> el_path_bytes (sn_limits s) \<and>
     (\<forall>n \<in> set (object_names names). \<forall>k i. classify_object_name n = Some (Some (k, i)) \<longrightarrow>
       k \<notin> {outcome_kind, retention_kind, forget_kind})"

definition ready :: "exlib \<Rightarrow> session \<Rightarrow> bool" where
  "ready lib s \<longleftrightarrow> valid_store_limits (sn_limits s) \<and> bs_open (sn_bound s) \<and> \<not> sn_closed s \<and> digest_sizes (ex_go lib)"

lemma list_limits_fields [simp]:
  "rl_entries (list_limits_of l) = el_entries l" "rl_records (list_limits_of l) = el_records l"
  "rl_path_bytes (list_limits_of l) = el_path_bytes l"
  by (simp_all add: list_limits_of_def)

lemma records_of_quiet:
  assumes "quiet s names content" "kind \<in> {outcome_kind, retention_kind, forget_kind}"
  shows "records_of names content kind (sort (object_names names)) = []"
proof -
  have "entry_records names content kind n = []" if n: "n \<in> set (object_names names)" for n
  proof -
    obtain k i m where "classify_object_name n = Some (Some (k, i))" "map_of names (objects_dir @ ''/'' @ n) = Some m"
      using assms(1) n by (auto simp: quiet_def only_records_def)
    then show ?thesis using assms n by (auto simp: quiet_def)
  qed
  then show ?thesis by (simp add: records_of_def)
qed

lemma kinds_valid [simp]:
  "valid_record_kind intent_kind" "valid_record_kind attempt_kind" "valid_record_kind outcome_kind"
  "valid_record_kind retention_kind" "valid_record_kind forget_kind"
  by (simp_all add: valid_record_kind_def all_record_kinds_def)

lemma reads_session_list:
  assumes "ready lib s" "quiet s names content" "kind \<in> {outcome_kind, retention_kind, forget_kind}"
  shows "\<exists>listed. reads other random names content (session_list s kind) (listed, None) \<and>
    lr_complete listed \<and> lr_records listed = []"
proof -
  have "valid_record_list kind (list_limits_of (sn_limits s))" "0 \<le> el_records (sn_limits s)"
    using assms(1,3) limits_valid [of "sn_limits s"]
    by (auto simp: ready_def valid_record_list_def valid_store_limits_def valid_record_limits_def)
  from reads_list [OF this(1), of "sn_bound s" names content other random] this(2) records_of_quiet [OF assms(2,3)] assms(1,2)
  show ?thesis by (auto simp: session_list_def ready_def quiet_def)
qed

lemma reads_list_retention:
  assumes "ready lib s" "quiet s names content" "kind \<in> {outcome_kind, retention_kind, forget_kind}"
  shows "\<exists>u. reads other random names content (list_retention_kind s kind usage) (u, Inr [])"
proof -
  obtain listed where "reads other random names content (session_list s kind) (listed, None)" "lr_complete listed"
      "lr_records listed = []"
    using reads_session_list [OF assms] by blast
  then show ?thesis unfolding list_retention_kind_def by (auto simp: Let_def intro!: reads_bind)
qed

lemma reads_scan_stable:
  assumes "ready lib s" "quiet s names content" "kind \<in> {outcome_kind, retention_kind, forget_kind}"
  shows "\<exists>u. reads other random names content (scan_stable s kind load match usage) (u, Inr None)"
proof -
  obtain u where u: "reads other random names content (list_retention_kind s kind usage) (u, Inr [])"
    using reads_list_retention [OF assms] by blast
  obtain u2 where u2: "reads other random names content (list_retention_kind s kind u) (u2, Inr [])"
    using reads_list_retention [OF assms] by blast
  have "reads other random names content (scan_stable s kind load match usage) (u2, Inr None)"
    unfolding scan_stable_def by (rule reads_bind [OF u]) (auto intro!: reads_bind [OF u2])
  then show ?thesis by blast
qed

lemma reads_scan_outcomes:
  assumes "ready lib s" "quiet s names content"
  shows "\<exists>u. reads other random names content (scan_outcomes lib s i iref a aref) (u, [], Inr None)"
proof -
  obtain listed where "reads other random names content (session_list s outcome_kind) (listed, None)" "lr_complete listed"
      "lr_records listed = []"
    using reads_session_list [OF assms] by blast
  then show ?thesis unfolding scan_outcomes_def by (auto simp: Let_def intro!: reads_bind)
qed

section \<open>The prepared intent\<close>

text \<open>The intent is stored and its attempt, which has an encoding, is not.\<close>

definition intent_stored :: "exlib \<Rightarrow> session \<Rightarrow> intent_record \<Rightarrow> bytes \<Rightarrow> (bytes \<times> nat) list \<Rightarrow> (nat \<Rightarrow> bytes) \<Rightarrow> bool" where
  "intent_stored lib s i raw names content \<longleftrightarrow>
     decode_intent lib (sn_limits s) None raw = Inr i \<and>
     (\<exists>n. map_of names (record_relative_path intent_kind (record_id_of (ex_go lib) intent_kind raw)) = Some n \<and> content n = raw)"

definition verified_of :: "exlib \<Rightarrow> session \<Rightarrow> nat \<Rightarrow> intent_record \<Rightarrow> bytes \<Rightarrow> verified_intent" where
  "verified_of lib s address i raw =
     (let ref = ref_of (ex_go lib) intent_kind raw in
      \<lparr>vi_record = i, vi_ref = ref, vi_store = store_of s,
       vi_authority = Some \<lparr>ia_address = address, ia_session = sn_address s, ia_store = store_of s, ia_intent = rr_id ref,
         ia_operation = in_operation i\<rparr>\<rparr>)"

lemma reads_site:
  "reads other random names content allocate (case other Allocate of Address a \<Rightarrow> a | _ \<Rightarrow> 0)"
  "reads other random names content open_site (case other OpenSite of SiteFlag b \<Rightarrow> b | _ \<Rightarrow> False)"
  "reads other random names content requests_made (case other RequestsMade of Count n \<Rightarrow> n | _ \<Rightarrow> 0)"
  "reads other random names content (fresh_review sel l x) (case other (FreshReview sel l x) of
     ReviewReply (Some ob) receipt True \<Rightarrow> Some (ob, receipt) | _ \<Rightarrow> None)"
  by (auto simp: reads_def site_call_defs perform_def split: site_reply.split)

lemma decode_valid:
  assumes "decode_intent lib l None raw = Inr i"
  shows "valid_intent lib i" "int (length raw) \<le> el_record_bytes l"
  using assms decode_record_Inr [OF assms [unfolded decode_intent_def]]
  by (auto simp: decode_intent_def decode_record_def split: if_splits)

lemma verified_valid:
  assumes "ready lib s" "valid_intent lib i"
  shows "intent_valid_for lib (verified_of lib s address i raw) s"
  using assms
  by (simp add: ready_def intent_valid_for_def intent_verified_def verified_of_def session_is_open_def Let_def ref_of_def)

lemma ref_of_fields [simp]:
  "rr_kind (ref_of lib kind payload) = kind" "rr_id (ref_of lib kind payload) = record_id_of lib kind payload"
  "rr_size (ref_of lib kind payload) = int (length payload)"
  by (simp_all add: ref_of_def)

lemma reads_load_intent:
  assumes "ready lib s" "intent_stored lib s i raw names content"
  shows "\<exists>a. reads other random names content (load_intent lib s (record_id_of (ex_go lib) intent_kind raw))
    (Inr (verified_of lib s a i raw))"
proof -
  let ?a = "case other Allocate of Address a \<Rightarrow> a | _ \<Rightarrow> 0"
  obtain n where n: "map_of names (record_relative_path intent_kind (record_id_of (ex_go lib) intent_kind raw)) = Some n"
      "content n = raw" "decode_intent lib (sn_limits s) None raw = Inr i"
    using assms(2) by (auto simp: intent_stored_def)
  have load: "reads other random names content
      (session_load lib s intent_kind (record_id_of (ex_go lib) intent_kind raw) (decode_intent lib (sn_limits s)))
      (loaded_whole (ref_of (ex_go lib) intent_kind raw) i)"
    by (rule reads_session_load [where content = content, OF _ _ _ _ n(1,2)]) (use assms(1) n(3) decode_valid(2) [OF n(3)] in \<open>simp_all add: ready_def\<close>)
  have "reads other random names content (load_intent lib s (record_id_of (ex_go lib) intent_kind raw))
    (Inr (verified_of lib s ?a i raw))"
    unfolding load_intent_def
    using assms(1) decode_valid(1) [OF n(3)] verified_valid [OF assms(1) decode_valid(1) [OF n(3)], of ?a raw]
    by (auto intro!: reads_bind [OF reads_session_ready] reads_bind [OF load] reads_bind [OF reads_site(1)]
        simp: ready_def record_id_of_valid loaded_whole_def decoded_value_def verified_of_def Let_def)
  then show ?thesis by blast
qed

text \<open>The status of an intent whose attempt is not stored.\<close>

lemma holds_stored:
  assumes "intent_stored lib s i raw names content"
  shows "holds (ex_go lib) (el_record_bytes (sn_limits s)) names content (ref_of (ex_go lib) intent_kind raw)"
  using assms decode_valid(2) by (auto simp: intent_stored_def holds_def)

lemma encoded:
  assumes "encode_attempt lib l a = Inr raw"
  shows "int (length raw) \<le> el_record_bytes l" "valid_attempt lib a" "valid_store_limits l"
  using assms by (auto simp: encode_attempt_def encode_record_def split: if_splits option.splits)

lemma computed:
  assumes "encode_attempt lib l a = Inr raw"
  shows "compute_record_ref (ex_go lib) attempt_kind raw = Some (ref_of (ex_go lib) attempt_kind raw)"
proof -
  have "\<not> length raw > 67108864" using encoded [OF assms] by (simp add: valid_store_limits_def)
  then show ?thesis by (simp add: compute_record_ref_def ref_of_def)
qed

lemma reads_status_of_intent:
  assumes "ready lib s" "quiet s names content" "intent_stored lib s i raw names content"
    and "encode_attempt lib (sn_limits s) (attempt_from_intent i (ref_of (ex_go lib) intent_kind raw)) = Inr enc"
    and "map_of names (record_relative_path attempt_kind (record_id_of (ex_go lib) attempt_kind enc)) = None"
  shows "\<exists>st'. reads other random names content (status_of_intent lib s (verified_of lib s a i raw) st) (st', None) \<and>
    st_complete st' \<and> st_state st' = ''prepared''"
proof -
  let ?v = "verified_of lib s a i raw"
  have v: "vi_record ?v = i" "vi_ref ?v = ref_of (ex_go lib) intent_kind raw" by (simp_all add: verified_of_def Let_def)
  obtain u where scan: "reads other random names content
      (scan_outcomes lib s i (vi_ref ?v) (attempt_from_intent i (vi_ref ?v)) (ref_of (ex_go lib) attempt_kind enc)) (u, [], Inr None)"
    using reads_scan_outcomes [OF assms(1,2)] by blast
  have load: "reads other random names content
      (session_load lib s attempt_kind (record_id_of (ex_go lib) attempt_kind enc) (decode_attempt lib (sn_limits s)))
      (not_loaded RecordNotFound)"
    by (rule reads_session_load_absent) (use assms(1,5) in \<open>simp_all add: ready_def record_id_of_valid\<close>)
  have "\<exists>b. reads other random names content (session_verify_set lib s [vi_ref ?v])
      (\<lparr>sr_complete = True, sr_verified = length [vi_ref ?v], sr_bytes = b\<rparr>, None)"
    by (rule reads_verify_set) (use assms(1) holds_stored [OF assms(3)] v in \<open>simp_all add: ready_def\<close>)
  then obtain b where set: "reads other random names content (session_verify_set lib s [vi_ref ?v])
      (\<lparr>sr_complete = True, sr_verified = length [vi_ref ?v], sr_bytes = b\<rparr>, None)" by blast
  have "reads other random names content (status_of_intent lib s ?v st)
      (st\<lparr>st_scan := u, st_state := ''prepared'', st_complete := True\<rparr>, None)"
    unfolding status_of_intent_def Let_def v(1)
    using assms(4) computed [OF assms(4)]
    by (auto simp: v Let_def not_loaded_def intro!: reads_bind [OF scan [unfolded v]] reads_bind [OF load]
        reads_bind [OF set [unfolded v]])
  then show ?thesis by (intro exI conjI) auto
qed

lemma reads_exchange_status:
  assumes "ready lib s" "quiet s names content" "intent_stored lib s i raw names content"
    and "encode_attempt lib (sn_limits s) (attempt_from_intent i (ref_of (ex_go lib) intent_kind raw)) = Inr enc"
    and "map_of names (record_relative_path attempt_kind (record_id_of (ex_go lib) attempt_kind enc)) = None"
  shows "\<exists>st. reads other random names content (exchange_status lib s (record_id_of (ex_go lib) intent_kind raw)) (st, None) \<and>
    st_complete st \<and> st_state st = ''prepared''"
proof -
  let ?rid = "record_id_of (ex_go lib) intent_kind raw"
  obtain u where forget: "reads other random names content (find_forget_by_intent lib s ?rid no_usage) (u, Inr None)"
    unfolding find_forget_by_intent_def using reads_scan_stable [OF assms(1,2)] by blast
  obtain u2 where retention: "reads other random names content (find_retention_by_intent lib s ?rid u) (u2, Inr None)"
    unfolding find_retention_by_intent_def using reads_scan_stable [OF assms(1,2)] by blast
  obtain a where load: "reads other random names content (load_intent lib s ?rid) (Inr (verified_of lib s a i raw))"
    using reads_load_intent [OF assms(1,3)] by blast
  let ?v = "verified_of lib s a i raw"
  let ?st = "(initial_status s)\<lparr>st_usage := u2, st_intent := Some (vi_record ?v, vi_ref ?v), st_store := vi_store ?v\<rparr>"
  obtain st where st: "reads other random names content (status_of_intent lib s ?v ?st) (st, None)" "st_complete st"
      "st_state st = ''prepared''"
    using reads_status_of_intent [OF assms] by blast
  have "reads other random names content (exchange_status lib s ?rid) (st, None)"
    unfolding exchange_status_def
    using assms(1) st(1) forget retention load
    by (auto simp: Let_def ready_def intro!: reads_bind [OF reads_session_ready] reads_bind [OF forget] reads_bind [OF retention]
        reads_bind [OF load])
  then show ?thesis using st by blast
qed

section \<open>Reserving the attempt\<close>

lemma reads_record_present:
  assumes "ready lib s" "intent_stored lib s i raw names content"
  shows "reads other random names content (record_present lib s (ref_of (ex_go lib) intent_kind raw)) (Inr True)"
proof -
  obtain n where n: "map_of names (record_relative_path intent_kind (record_id_of (ex_go lib) intent_kind raw)) = Some n"
      "content n = raw" "decode_intent lib (sn_limits s) None raw = Inr i"
    using assms(2) by (auto simp: intent_stored_def)
  have load: "reads other random names content
      (session_load lib s intent_kind (record_id_of (ex_go lib) intent_kind raw)
        (\<lambda>err _. case err of Some e \<Rightarrow> Inl (StoreError e) | None \<Rightarrow> Inr ()))
      (loaded_whole (ref_of (ex_go lib) intent_kind raw) ())"
    by (rule reads_session_load [where content = content, OF _ _ _ _ n(1,2)])
       (use assms(1) decode_valid(2) [OF n(3)] in \<open>simp_all add: ready_def\<close>)
  show ?thesis
    unfolding record_present_def ref_of_fields by (auto intro!: reads_bind [OF load] simp: loaded_whole_def)
qed

lemma intent_not_attempt: "intent_kind \<noteq> attempt_kind"
  by (simp add: intent_kind_def attempt_kind_def)

lemma reads_confirm:
  assumes "ready lib s" "quiet s names content" "intent_stored lib s i raw names content"
    and "encode_attempt lib (sn_limits s) (attempt_from_intent i (ref_of (ex_go lib) intent_kind raw)) = Inr enc"
    and "map_of names (record_relative_path attempt_kind (record_id_of (ex_go lib) attempt_kind enc)) = Some n" "content n = enc"
  shows "\<exists>reserved. reads other random names content
    (confirm_reservation lib s (verified_of lib s a i raw) (attempt_from_intent i (ref_of (ex_go lib) intent_kind raw))
      (ref_of (ex_go lib) attempt_kind enc) receipt)
    (receipt\<lparr>rs_acquired := True\<rparr>, Inr reserved)"
proof -
  let ?v = "verified_of lib s a i raw" and ?iref = "ref_of (ex_go lib) intent_kind raw"
    and ?aref = "ref_of (ex_go lib) attempt_kind enc"
  let ?a = "attempt_from_intent i ?iref" and ?addr = "case other Allocate of Address a \<Rightarrow> a | _ \<Rightarrow> 0"
  let ?reserved = "\<lparr>ra_record = ?a, ra_ref = ?aref, ra_store = store_of s, ra_session = sn_address s, ra_intent = a,
    ra_authority_store = store_of s, ra_attempt_id = rr_id ?aref, ra_outcome = None\<rparr>"
  have v: "vi_record ?v = i" "vi_ref ?v = ?iref" "map_option ia_address (vi_authority ?v) = Some a"
      "(case vi_authority ?v of Some i \<Rightarrow> ia_address i | None \<Rightarrow> 0) = a"
    by (simp_all add: verified_of_def Let_def)
  have intent: "valid_intent lib i" using assms(3) decode_valid(1) by (auto simp: intent_stored_def)
  have holds: "holds (ex_go lib) (el_record_bytes (sn_limits s)) names content ?aref"
    using encoded(1) [OF assms(4)] assms(5,6) by (auto simp: holds_def)
  obtain u where scan: "reads other random names content (scan_outcomes lib s i ?iref ?a ?aref) (u, [], Inr None)"
    using reads_scan_outcomes [OF assms(1,2)] by blast
  have "\<exists>b. reads other random names content (session_verify_set lib s [?iref, ?aref])
      (\<lparr>sr_complete = True, sr_verified = length [?iref, ?aref], sr_bytes = b\<rparr>, None)"
    by (rule reads_verify_set)
       (use assms(1) holds_stored [OF assms(3)] holds in \<open>simp_all add: ready_def intent_not_attempt\<close>)
  then obtain b where set: "reads other random names content (session_verify_set lib s [?iref, ?aref])
      (\<lparr>sr_complete = True, sr_verified = length [?iref, ?aref], sr_bytes = b\<rparr>, None)" by blast
  have "reserved_valid_for lib ?reserved s ?v"
    using encoded(2) [OF assms(4)] intent verified_valid [OF assms(1) intent] assms(1)
    by (simp add: reserved_valid_for_def reserved_verified_def v attempt_matches_intent_def attempt_from_intent_def
        session_is_open_def ready_def)
  then have "reads other random names content (confirm_reservation lib s ?v ?a ?aref receipt)
      (receipt\<lparr>rs_acquired := True\<rparr>, Inr ?reserved)"
    unfolding confirm_reservation_def v
    by (auto intro!: reads_bind [OF scan] reads_bind [OF set] reads_bind [OF reads_site(1)] simp: Let_def)
  then show ?thesis by blast
qed

text \<open>The store after the attempt was published.\<close>

definition with_attempt :: "exlib \<Rightarrow> bytes \<Rightarrow> nat \<Rightarrow> (bytes \<times> nat) list \<Rightarrow> (bytes \<times> nat) list" where
  "with_attempt lib enc n names =
     (record_relative_path attempt_kind (record_id_of (ex_go lib) attempt_kind enc), n) # names"

text \<open>
  Everything a first submission relies on: the intent stored and its attempt not, no other records that matter, room in the
  listings for one more object, and file numbers not used before.
\<close>

definition prepared :: "exlib \<Rightarrow> session \<Rightarrow> intent_record \<Rightarrow> bytes \<Rightarrow> bytes \<Rightarrow> bytes \<Rightarrow> ideal \<Rightarrow> bool" where
  "prepared lib s i raw enc random st \<longleftrightarrow>
     ready lib s \<and> quiet s (id_names st) (id_content st) \<and> intent_stored lib s i raw (id_names st) (id_content st) \<and>
     encode_attempt lib (sn_limits s) (attempt_from_intent i (ref_of (ex_go lib) intent_kind raw)) = Inr enc \<and>
     map_of (id_names st) (record_relative_path attempt_kind (record_id_of (ex_go lib) attempt_kind enc)) = None \<and>
     map_of (id_names st) (import_staging_path random) = None \<and>
     int (length (object_names (with_attempt lib enc 0 (id_names st)))) \<le> el_entries (sn_limits s) \<and>
     path_sum (object_names (with_attempt lib enc 0 (id_names st))) \<le> el_path_bytes (sn_limits s) \<and>
     (\<forall>m \<in> snd ` set (id_names st). m < id_next st)"

lemma attempt_name:
  assumes "record_relative_path attempt_kind x = objects_dir @ ''/'' @ n"
  shows "object_names ((record_relative_path attempt_kind x, m) # names) = n # object_names names"
  using assms by (simp add: object_names_def has_prefix_def)

lemma map_of_value: "map_of xs p = Some n \<Longrightarrow> n \<in> snd ` set xs"
  by (force dest: map_of_SomeD)

lemma after_attempt:
  assumes "prepared lib s i raw enc random st" "id_next st \<le> m"
  shows "quiet s (with_attempt lib enc m (id_names st)) ((id_content st)(m := enc))"
    and "intent_stored lib s i raw (with_attempt lib enc m (id_names st)) ((id_content st)(m := enc))"
proof -
  let ?p = "record_relative_path attempt_kind (record_id_of (ex_go lib) attempt_kind enc)"
  obtain n where n: "?p = objects_dir @ ''/'' @ n" using record_path_name by blast
  have names: "object_names (with_attempt lib enc m (id_names st)) = n # object_names (id_names st)"
    and names0: "object_names (with_attempt lib enc 0 (id_names st)) = n # object_names (id_names st)"
    unfolding with_attempt_def by (rule attempt_name [OF n])+
  have c: "classify_object_name n = Some (Some (attempt_kind, record_id_of (ex_go lib) attempt_kind enc))"
    unfolding classify_object_name_record using assms n by (simp add: prepared_def ready_def record_id_of_valid)
  have size: "length enc \<le> 67108864"
    using assms encoded [of lib "sn_limits s" "attempt_from_intent i (ref_of (ex_go lib) intent_kind raw)" enc]
    by (auto simp: prepared_def ready_def valid_store_limits_def)
  have old: "\<exists>k i q. classify_object_name x = Some (Some (k, i)) \<and>
      map_of (with_attempt lib enc m (id_names st)) (objects_dir @ ''/'' @ x) = Some q \<and>
      length (((id_content st)(m := enc)) q) \<le> 67108864" if x: "x \<in> set (object_names (id_names st))" for x
  proof -
    obtain k i q where q: "classify_object_name x = Some (Some (k, i))" "map_of (id_names st) (objects_dir @ ''/'' @ x) = Some q"
        "length (id_content st q) \<le> 67108864"
      using assms x by (auto simp: prepared_def quiet_def only_records_def)
    have "q \<noteq> m" using map_of_value [OF q(2)] assms by (fastforce simp: prepared_def)
    moreover have "objects_dir @ ''/'' @ x \<noteq> ?p" using q(2) assms by (auto simp: prepared_def)
    ultimately show ?thesis using q by (auto simp: with_attempt_def)
  qed
  show "quiet s (with_attempt lib enc m (id_names st)) ((id_content st)(m := enc))"
    unfolding quiet_def
  proof (intro conjI)
    have "map_of (with_attempt lib enc m (id_names st)) (objects_dir @ ''/'' @ n) = Some m"
      using n by (simp add: with_attempt_def)
    then show "only_records (with_attempt lib enc m (id_names st)) ((id_content st)(m := enc))
        (object_names (with_attempt lib enc m (id_names st)))"
      unfolding only_records_def names using old c size by (auto simp del: append_Cons)
    show "int (length (object_names (with_attempt lib enc m (id_names st)))) \<le> el_entries (sn_limits s)"
        "path_sum (object_names (with_attempt lib enc m (id_names st))) \<le> el_path_bytes (sn_limits s)"
      using assms(1) unfolding prepared_def names names0 by simp_all
    have "attempt_kind \<notin> {outcome_kind, retention_kind, forget_kind}"
      by (simp add: attempt_kind_def outcome_kind_def retention_kind_def forget_kind_def)
    then show "\<forall>x \<in> set (object_names (with_attempt lib enc m (id_names st))). \<forall>k i.
        classify_object_name x = Some (Some (k, i)) \<longrightarrow> k \<notin> {outcome_kind, retention_kind, forget_kind}"
      unfolding names using assms(1) c by (auto simp: prepared_def quiet_def)
  qed
  obtain q where q: "map_of (id_names st) (record_relative_path intent_kind (record_id_of (ex_go lib) intent_kind raw)) = Some q"
      "id_content st q = raw"
    using assms by (auto simp: prepared_def intent_stored_def)
  have "q \<noteq> m" using map_of_value [OF q(1)] assms by (fastforce simp: prepared_def)
  then show "intent_stored lib s i raw (with_attempt lib enc m (id_names st)) ((id_content st)(m := enc))"
    using q assms by (auto simp: intent_stored_def prepared_def with_attempt_def)
qed

text \<open>The attempt record is in the store, whole and under its name.\<close>

definition attempt_held :: "exlib \<Rightarrow> bytes \<Rightarrow> ideal \<Rightarrow> bool" where
  "attempt_held lib enc st \<longleftrightarrow>
     (\<exists>n. map_of (id_names st) (record_relative_path attempt_kind (record_id_of (ex_go lib) attempt_kind enc)) = Some n \<and>
        id_content st n = enc)"

lemma execute_reserve:
  assumes "prepared lib s i raw enc random st" "fresh_review_matches_intent lib i (Some ob) r"
    and "id_names st1 = id_names st" "id_content st1 = id_content st" "id_next st \<le> id_next st1"
  shows "\<exists>reserved st2. execute other random (reserve_attempt lib s (verified_of lib s a i raw) (Some ob) r) st1 =
    ((\<lparr>rs_writes = 1, rs_already = False, rs_acquired = True\<rparr>, Inr reserved), st2) \<and> attempt_held lib enc st2"
proof -
  let ?v = "verified_of lib s a i raw" and ?iref = "ref_of (ex_go lib) intent_kind raw"
    and ?aref = "ref_of (ex_go lib) attempt_kind enc"
  have v: "vi_record ?v = i" "vi_ref ?v = ?iref" by (simp_all add: verified_of_def Let_def)
  have pre: "ready lib s" "intent_stored lib s i raw (id_names st) (id_content st)"
      "encode_attempt lib (sn_limits s) (attempt_from_intent i ?iref) = Inr enc"
      "map_of (id_names st) (record_relative_path attempt_kind (record_id_of (ex_go lib) attempt_kind enc)) = None"
      "map_of (id_names st) (import_staging_path random) = None"
    using assms(1) by (auto simp: prepared_def)
  have intent: "valid_intent lib i" using pre(2) decode_valid(1) by (auto simp: intent_stored_def)
  obtain st2 where ready: "execute other random (session_ready s) st1 = (None, st2)"
      "id_names st2 = id_names st" "id_content st2 = id_content st"
    using readsD [OF reads_session_ready assms(3,4), of s other random] pre(1) by (auto simp: ready_def)
  obtain st3 where present: "execute other random (record_present lib s ?iref) st2 = (Inr True, st3)"
      "id_names st3 = id_names st" "id_content st3 = id_content st"
    using readsD [OF reads_record_present [OF pre(1,2)] ready(2,3), of other random] by blast
  have grown: "id_next st \<le> id_next st3"
    using assms(5) execute_next [OF ready(1)] execute_next [OF present(1)] by simp
  have import: "\<exists>st4. execute other random (session_import lib s attempt_kind enc) st3 =
      ((\<lparr>ir_writes = 1, ir_already = False, ir_bytes = int (length enc)\<rparr>, Inr ?aref), st4) \<and>
    id_names st4 = with_attempt lib enc (id_next st3) (id_names st) \<and> id_content st4 = (id_content st)(id_next st3 := enc)"
    using execute_import [of attempt_kind "record_limits_of (sn_limits s)" "sn_bound s" enc st3 "ex_go lib" random other]
      pre present(2,3) limits_valid(1) [of "sn_limits s"] encoded(1) [OF pre(3)]
    by (simp add: ready_def session_import_def with_attempt_def)
  then obtain st4 where st4: "execute other random (session_import lib s attempt_kind enc) st3 =
      ((\<lparr>ir_writes = 1, ir_already = False, ir_bytes = int (length enc)\<rparr>, Inr ?aref), st4)"
    "id_names st4 = with_attempt lib enc (id_next st3) (id_names st)" "id_content st4 = (id_content st)(id_next st3 := enc)"
    by blast
  note after = after_attempt [OF assms(1) grown]
  obtain reserved where confirm: "reads other random (id_names st4) (id_content st4)
      (confirm_reservation lib s ?v (attempt_from_intent i ?iref) ?aref \<lparr>rs_writes = 1, rs_already = False, rs_acquired = False\<rparr>)
      (\<lparr>rs_writes = 1, rs_already = False, rs_acquired = True\<rparr>, Inr reserved)"
    using reads_confirm [OF pre(1) after pre(3), of "id_next st3" other random a
        "\<lparr>rs_writes = 1, rs_already = False, rs_acquired = False\<rparr>"] st4(2,3)
    by (auto simp: with_attempt_def)
  have held: "attempt_held lib enc st'" if "id_names st' = id_names st4" "id_content st' = id_content st4" for st'
    using that st4(2,3) by (simp add: attempt_held_def with_attempt_def)
  obtain st5 where st5: "execute other random (confirm_reservation lib s ?v (attempt_from_intent i ?iref) ?aref
        \<lparr>rs_writes = 1, rs_already = False, rs_acquired = False\<rparr>) st4 =
      ((\<lparr>rs_writes = 1, rs_already = False, rs_acquired = True\<rparr>, Inr reserved), st5)" "attempt_held lib enc st5"
    using readsD [OF confirm refl refl] held by blast
  show ?thesis
    using st5 ready(1) present(1) st4(1) assms(2) pre(3) computed [OF pre(3)]
      verified_valid [OF pre(1) intent, of a raw]
    by (auto simp: reserve_attempt_def v no_reserve_def publication_consistent_def Let_def)
qed

end
