(* ===== verification/JsonKeys.thy ===== *)
theory JsonKeys
  imports ExchangeTypes
begin

text \<open>
  The scan for duplicate object keys, which runs over the tokens of every decoded record: it always ends, and it accepts
  exactly the values in which no object repeats a key.
\<close>

declare reject_duplicate_keys.simps [code]

section \<open>The scan ends\<close>

text \<open>A scan consumes at least one token, so enclosing loops get shorter streams.\<close>

definition ends_within :: "scan_mode \<Rightarrow> json_token list \<Rightarrow> bool" where
  "ends_within mode ts \<longleftrightarrow>
     (\<exists>r. reject_duplicate_keys mode ts = Some r \<and> (\<forall>rest. r = Some rest \<longrightarrow> length rest < length ts))"

lemma ends_members:
  assumes "\<And>us mode. length us < length ts \<Longrightarrow> ends_within mode us"
  shows "ends_within (ScanMembers seen) ts"
proof (cases ts)
  case (Cons t rest)
  obtain r where r: "reject_duplicate_keys ScanValue rest = Some r" "\<forall>us. r = Some us \<longrightarrow> length us < length rest"
    using assms [of rest ScanValue] Cons by (auto simp: ends_within_def)
  have "ends_within (ScanMembers (key # seen)) us" if "r = Some us" for us key
    using that r(2) assms Cons by (metis length_Cons less_Suc_eq less_trans)
  then show ?thesis
    using r unfolding Cons ends_within_def
    by (subst reject_duplicate_keys.simps) (cases t; cases r; fastforce)
qed (simp add: ends_within_def reject_duplicate_keys.simps more_tokens_def)

lemma ends_value:
  assumes "\<And>us mode. length us < length ts \<Longrightarrow> ends_within mode us"
  shows "ends_within ScanValue ts"
proof (cases ts)
  case (Cons t rest)
  have "ends_within mode rest" for mode using assms Cons by simp
  then show ?thesis
    unfolding Cons ends_within_def
    by (subst reject_duplicate_keys.simps) (cases t; force intro: less_SucI)
qed (simp add: ends_within_def reject_duplicate_keys.simps)

lemma ends_elements:
  assumes "\<And>us mode. length us < length ts \<Longrightarrow> ends_within mode us"
  shows "ends_within ScanElements ts"
proof (cases ts)
  case (Cons t rest)
  obtain r where r: "reject_duplicate_keys ScanValue ts = Some r" "\<forall>us. r = Some us \<longrightarrow> length us < length ts"
    using ends_value [OF assms] by (auto simp: ends_within_def)
  have "\<exists>q. reject_duplicate_keys ScanElements us = Some q \<and> (\<forall>vs. q = Some vs \<longrightarrow> length vs < length ts)"
    if "r = Some us" for us
  proof -
    have "length us < length ts" using that r(2) by simp
    then show ?thesis using assms [of us ScanElements] unfolding ends_within_def by (meson less_trans)
  qed
  then show ?thesis
    using r unfolding ends_within_def
    by (subst reject_duplicate_keys.simps) (cases r; auto simp: Cons)
qed (simp add: ends_within_def reject_duplicate_keys.simps more_tokens_def)

lemma scan_ends: "ends_within mode ts"
proof (induction ts arbitrary: mode rule: measure_induct_rule [where f = length])
  case (less ts)
  then show ?case by (cases mode) (blast intro: ends_members ends_value ends_elements)+
qed

text \<open>
  Claim C35. The scan for duplicate keys, a recursion in the program with nested loops over a token stream, returns on every
  stream of tokens, valid or not, and it has consumed at least one token when it succeeds.
\<close>

theorem reject_duplicate_keys_returns:
  "\<exists>r. reject_duplicate_keys mode ts = Some r \<and> (case r of None \<Rightarrow> True | Some rest \<Rightarrow> length rest < length ts)"
  using scan_ends [of mode ts] by (auto simp: ends_within_def split: option.split)

section \<open>The scan accepts values without duplicate keys\<close>

datatype json = Plain bytes | Text bytes | Array "json list" | Object "(bytes \<times> json) list"

fun tokens_of :: "json \<Rightarrow> json_token list" where
  "tokens_of (Plain b) = [Scalar b]"
| "tokens_of (Text b) = [JString b]"
| "tokens_of (Array vs) = Delim CHR ''['' # concat (map tokens_of vs) @ [Delim CHR '']'']"
| "tokens_of (Object ms) = Delim CHR ''{'' # concat (map (\<lambda>(k, v). JString k # tokens_of v) ms) @ [Delim CHR ''}'']"

fun unique_keys :: "json \<Rightarrow> bool" where
  "unique_keys (Array vs) = list_all unique_keys vs"
| "unique_keys (Object ms) = (distinct (map fst ms) \<and> list_all (\<lambda>(k, v). unique_keys v) ms)"
| "unique_keys _ = True"

lemma tokens_start: "more_tokens (tokens_of v @ rest)"
  by (cases v) (simp_all add: more_tokens_def)

lemma scan_array:
  assumes "\<And>v rest. v \<in> set vs \<Longrightarrow>
    reject_duplicate_keys ScanValue (tokens_of v @ rest) = Some (if unique_keys v then Some rest else None)"
  shows "reject_duplicate_keys ScanElements (concat (map tokens_of vs) @ Delim CHR '']'' # rest) =
    Some (if list_all unique_keys vs then Some rest else None)"
  using assms
proof (induction vs)
  case Nil
  show ?case by (subst reject_duplicate_keys.simps) (simp add: more_tokens_def)
next
  case (Cons v vs)
  show ?case
    by (subst reject_duplicate_keys.simps) (simp add: tokens_start Cons)
qed

lemma scan_object:
  assumes "\<And>k v rest. (k, v) \<in> set ms \<Longrightarrow>
    reject_duplicate_keys ScanValue (tokens_of v @ rest) = Some (if unique_keys v then Some rest else None)"
  shows "reject_duplicate_keys (ScanMembers seen)
      (concat (map (\<lambda>(k, v). JString k # tokens_of v) ms) @ Delim CHR ''}'' # rest) =
    Some (if distinct (map fst ms) \<and> set (map fst ms) \<inter> set seen = {} \<and> list_all (\<lambda>(k, v). unique_keys v) ms
      then Some rest else None)"
  using assms
proof (induction ms arbitrary: seen)
  case Nil
  show ?case by (subst reject_duplicate_keys.simps) (simp add: more_tokens_def)
next
  case (Cons m ms)
  obtain k v where m: "m = (k, v)" by (cases m)
  have member: "reject_duplicate_keys ScanValue (tokens_of v @ rest) = Some (if unique_keys v then Some rest else None)" for rest
    using Cons.prems [of k v] m by simp
  have rest: "reject_duplicate_keys (ScanMembers (k # seen))
      (concat (map (\<lambda>(k, v). JString k # tokens_of v) ms) @ Delim CHR ''}'' # rest) =
    Some (if distinct (map fst ms) \<and> set (map fst ms) \<inter> set (k # seen) = {} \<and> list_all (\<lambda>(k, v). unique_keys v) ms
      then Some rest else None)"
    by (rule Cons.IH, rule Cons.prems) (rule list.set_intros(2))
  show ?case
    by (subst reject_duplicate_keys.simps) (auto simp: more_tokens_def m member rest)
qed

lemma scan_value:
  "reject_duplicate_keys ScanValue (tokens_of v @ rest) = Some (if unique_keys v then Some rest else None)"
proof (induction v arbitrary: rest rule: tokens_of.induct)
  case (3 vs)
  then show ?case by (subst reject_duplicate_keys.simps) (simp add: scan_array)
next
  case (4 ms)
  have "reject_duplicate_keys ScanValue (tokens_of v @ us) = Some (if unique_keys v then Some us else None)"
    if "(k, v) \<in> set ms" for k v us
    using 4 [OF that refl] .
  then show ?case by (subst reject_duplicate_keys.simps) (simp add: scan_object)
qed (subst reject_duplicate_keys.simps, simp)+

text \<open>
  Claim C36. On the tokens of any JSON value, the scan succeeds and leaves no token exactly when no object in the value, at
  any depth, has two members with the same key.
\<close>

theorem reject_duplicate_keys_exact:
  "reject_duplicate_keys ScanValue (tokens_of v) = Some (Some []) \<longleftrightarrow> unique_keys v"
  using scan_value [of v "[]"] by simp

end
