(* ===== verification/SubmitSample.thy ===== *)
theory SubmitSample
  imports SubmitRun JsonKeys
begin

text \<open>
  A concrete library, site and store on which the submit command runs: one record of each kind with a one-letter encoding,
  and a digest that tells these records apart and maps everything else to zeros.
\<close>

definition sample_origin :: bytes where
  "sample_origin = ''https://a.b''"

definition sample_config :: exchange_config where
  "sample_config = \<lparr>xc_origin = sample_origin, xc_review_route = ''review'', xc_action_route = ''action''\<rparr>"

definition sample_id :: "char \<Rightarrow> bytes" where
  "sample_id c = sha256_prefix @ hex_encode (replicate 32 c)"

definition sample_time :: go_time where
  "sample_time = \<lparr>t_instant = 1, t_utc = True\<rparr>"

definition sample_intent :: intent_record where
  "sample_intent = \<lparr>in_schema = intent_schema, in_operation = sample_id CHR ''o'', in_site = ''site'', in_selector = ''s'',
     in_review = sample_id NUL, in_origin = sample_origin, in_review_route = ''review'', in_action_route = ''action'',
     in_input_mode = ''none'', in_created = sample_time, in_review_limits = default_review_limits,
     in_exchange_limits = default_exchange_limits\<rparr>"

definition sample_ref :: "bytes \<Rightarrow> char \<Rightarrow> record_ref" where
  "sample_ref kind c = \<lparr>rr_kind = kind, rr_id = sample_id c, rr_size = 2\<rparr>"

definition sample_attempt :: attempt_record where
  "sample_attempt = attempt_from_intent sample_intent (sample_ref intent_kind CHR ''i'')"

definition sample_receipt :: exchange_receipt where
  "sample_receipt = \<lparr>xr_effect = submit_effect, xr_site = ''site'', xr_selector = ''s'', xr_expected_review = sample_id NUL,
     xr_fresh_review = sample_id NUL, xr_origin = sample_origin, xr_review_route = ''review'', xr_action_route = ''action'',
     xr_start = sample_time, xr_end = sample_time, xr_complete = True, xr_attempted = True, xr_response_complete = True,
     xr_outcome = confirmed, xr_confirmation = ''done'', xr_limits = default_exchange_limits,
     xr_used = \<lparr>xu_total = 2, xu_reviews = 1, xu_submissions = 1, xu_retries = 0, xu_redirects = 0, xu_fields = 1,
       xu_form_bytes = 1, xu_response_bytes = 1, xu_response_known = True\<rparr>, xr_stop = []\<rparr>"

definition sample_outcome :: outcome_record where
  "sample_outcome = \<lparr>oc_schema = outcome_schema, oc_operation = sample_id CHR ''o'', oc_intent = sample_id CHR ''i'',
     oc_attempt = sample_id CHR ''a'', oc_recorded = sample_time, oc_receipt = sample_receipt\<rparr>"

text \<open>One record of each kind, encoded as one letter; its digest is that letter.\<close>

definition sample_codec :: "'v \<Rightarrow> char \<Rightarrow> 'v codec" where
  "sample_codec v c = \<lparr>cd_marshal = (\<lambda>w. if w = v then Some [c] else None),
     cd_decode = (\<lambda>raw. if raw = [c, line_feed] then Some v else None)\<rparr>"

definition sample_digest :: "bytes \<Rightarrow> bytes" where
  "sample_digest d = replicate 32
     (if d = record_preimage intent_kind [CHR ''i'', line_feed] then CHR ''i''
      else if d = record_preimage attempt_kind [CHR ''a'', line_feed] then CHR ''a''
      else if d = record_preimage outcome_kind [CHR ''x'', line_feed] then CHR ''x'' else NUL)"

definition sample_exlib :: exlib where
  "sample_exlib = \<lparr>ex_go = sample_lib\<lparr>gl_sha256 := sample_digest\<rparr>,
     ex_parse_url = (\<lambda>_. Some \<lparr>pu_scheme = ''https'', pu_host = ''a.b'', pu_hostname = ''a.b'', pu_port = [], pu_user = False,
       pu_path = [], pu_raw_path = [], pu_raw_query = [], pu_fragment = []\<rparr>),
     ex_json_valid = (\<lambda>_. True), ex_tokens = (\<lambda>_. [Scalar []]),
     ex_intent = sample_codec sample_intent CHR ''i'', ex_attempt = sample_codec sample_attempt CHR ''a'',
     ex_outcome = sample_codec sample_outcome CHR ''x'',
     ex_retention = \<lparr>cd_marshal = (\<lambda>_. None), cd_decode = (\<lambda>_. None)\<rparr>,
     ex_forget = \<lparr>cd_marshal = (\<lambda>_. None), cd_decode = (\<lambda>_. None)\<rparr>\<rparr>"

definition sample_review :: observed_review where
  "sample_review = \<lparr>ov_address = 0,
     ov_review = \<lparr>of_site = ''site'', of_selector = ''s'', of_review_id = sample_id NUL, of_balance = [],
       of_columns = [''x'', ''y''], of_availability = ''available'', of_input_mode = ''none'', of_action_method = ''post'',
       of_action_route = ''action'', of_form_shape = sample_id NUL, of_evidence = review_basis\<rparr>,
     ov_receipt = \<lparr>vr_effect = review_effect, vr_site = ''site'', vr_selector = ''s'', vr_origin = sample_origin,
       vr_route = ''review'', vr_start = sample_time, vr_end = sample_time, vr_complete = True, vr_limits = default_review_limits,
       vr_used = \<lparr>vu_requests = 1, vu_retries = 0, vu_redirects = 0, vu_response_bytes = 1, vu_response_known = True,
         vu_forms = 1, vu_fields = 1, vu_tokens = 1, vu_text_bytes = 1\<rparr>, vr_stop = []\<rparr>,
     ov_authority = True\<rparr>"

definition sample_site :: "nat \<Rightarrow> site_call \<Rightarrow> site_reply" where
  "sample_site n c =
     (case c of
        Entropy \<Rightarrow> EntropyReply None
      | Allocate \<Rightarrow> Address 7
      | OpenSite \<Rightarrow> SiteFlag True
      | FreshReview sel l x \<Rightarrow> ReviewReply (Some sample_review) (ov_receipt sample_review) True
      | SubmitExchange ref ob rv l \<Rightarrow>
          ExchangeReply (Some \<lparr>ox_address = 0, ox_receipt = sample_receipt, ox_authority = True\<rparr>) sample_receipt True
      | RequestsMade \<Rightarrow> Count (int n)
      | CloseSite \<Rightarrow> SiteFlag True)"

definition sample_state :: ideal where
  "sample_state = \<lparr>id_names = [(record_relative_path intent_kind (sample_id CHR ''i''), 2)],
     id_content = (\<lambda>_. [])(2 := [CHR ''i'', line_feed]), id_handles = (\<lambda>_. 0), id_offset = (\<lambda>_. 0), id_next = 3, id_dirty = []\<rparr>"

definition sample_session :: session where
  "sample_session = \<lparr>sn_address = 7, sn_limits = default_store_limits,
     sn_bound = \<lparr>bs_store_id = ''store'', bs_open = True\<rparr>, sn_closed = False\<rparr>"

definition sample_invocation :: invocation where
  "sample_invocation = \<lparr>iv_site = ''site'', iv_selector = ''s'', iv_review = sample_id NUL, iv_config = sample_config\<rparr>"

section \<open>Identities\<close>

lemma sample_preimages [simp]:
  "record_preimage kind d = record_preimage kind e \<longleftrightarrow> d = e"
  "record_preimage attempt_kind d \<noteq> record_preimage intent_kind e" "record_preimage intent_kind d \<noteq> record_preimage attempt_kind e"
  "record_preimage intent_kind d \<noteq> record_preimage outcome_kind e" "record_preimage attempt_kind d \<noteq> record_preimage outcome_kind e"
  by (simp_all add: record_preimage_def intent_kind_def attempt_kind_def outcome_kind_def)

lemma sample_sha [simp]: "gl_sha256 (ex_go sample_exlib) = sample_digest"
  by (simp add: sample_exlib_def)

lemma sample_record_id:
  "record_id_of (ex_go sample_exlib) intent_kind d = sample_id (if d = [CHR ''i'', line_feed] then CHR ''i'' else NUL)"
  "record_id_of (ex_go sample_exlib) attempt_kind d = sample_id (if d = [CHR ''a'', line_feed] then CHR ''a'' else NUL)"
  by (simp_all add: record_id_of_def sample_digest_def sample_id_def)

lemma sample_id_inject [simp]: "sample_id a = sample_id b \<longleftrightarrow> a = b"
  by (auto simp: sample_id_def dest: arg_cong [where f = hd])

lemma sample_ids_valid [simp]: "valid_record_id (sample_id c)" "valid_sha256_id (sample_id c)"
proof -
  let ?lib = "sample_lib\<lparr>gl_sha256 := \<lambda>_. replicate 32 c\<rparr>"
  have "digest_sizes ?lib" using digest_sizes_sample by (simp add: digest_sizes_def)
  from record_id_of_valid [OF this, of undefined undefined] show "valid_record_id (sample_id c)"
    by (simp add: record_id_of_def sample_id_def)
  moreover have "map ascii_lower sha256_prefix = sha256_prefix" by code_simp
  ultimately show "valid_sha256_id (sample_id c)"
    by (auto simp: valid_record_id_def valid_sha256_id_def lower_hex_digest_def sample_id_def)
qed

lemma sample_digest_sizes: "digest_sizes (ex_go sample_exlib)"
  using digest_sizes_sample by (simp add: digest_sizes_def sample_exlib_def sample_digest_def)

lemma sample_codec_faithful: "c \<noteq> line_feed \<Longrightarrow> faithful_codec (sample_codec v c)"
  by (auto simp: faithful_codec_def sample_codec_def split: if_splits)

section \<open>Validity\<close>

lemma sample_texts [simp]:
  "safe_text ''site'' 128" "safe_text ''s'' 128" "safe_text ''post'' 16" "safe_text ''x'' 4096" "safe_text ''y'' 4096"
  "map ascii_lower ''a.b'' = ''a.b''" "valid_route_id ''review''" "valid_route_id ''action''"
  by code_simp+

lemma sample_config_valid: "valid_config sample_exlib sample_config"
  by (simp add: valid_config_def valid_canonical_origin_def sample_config_def sample_origin_def sample_exlib_def sample_lib_def
      has_suffix_def del: list.map)

lemma sample_intent_valid: "valid_intent sample_exlib sample_intent"
  using sample_config_valid
  by (simp add: valid_intent_def sample_intent_def intent_config_def sample_config_def time_ok_def sample_time_def
      valid_review_limits_def default_review_limits_def valid_exchange_limits_def default_exchange_limits_def)

lemma sample_attempt_valid: "valid_attempt sample_exlib sample_attempt"
  using sample_config_valid
  by (simp add: valid_attempt_def sample_attempt_def attempt_from_intent_def sample_intent_def sample_config_def sample_ref_def)

lemma sample_review_id: "compute_review_id sample_exlib (ov_review sample_review) = Some (sample_id NUL)"
  by (simp add: compute_review_id_def sample_review_def valid_review_projection_def sample_digest_def record_preimage_def
      record_digest_domain_def sample_id_def [of NUL, symmetric])

lemma sample_review_acceptable:
  "fresh_review_acceptable sample_exlib sample_intent sample_review (ov_receipt sample_review) 1"
proof -
  have origin: "valid_canonical_origin sample_exlib sample_origin"
    using sample_config_valid by (simp add: valid_config_def sample_config_def)
  have "review_verified sample_exlib sample_review"
    using sample_review_id origin
    by (simp add: review_verified_def valid_observed_review_def sample_review_def Let_def valid_review_projection_def
        time_ok_def sample_time_def valid_review_limits_def default_review_limits_def review_basis_def)
  then show ?thesis
    using sample_review_id origin
    by (simp add: fresh_review_acceptable_def review_matches_receipt_def review_matches_def sample_review_def Let_def
        sample_intent_def sample_time_def valid_review_limits_def default_review_limits_def)
qed

section \<open>The store\<close>

abbreviation sample_raw :: bytes where
  "sample_raw \<equiv> [CHR ''i'', line_feed]"

abbreviation sample_enc :: bytes where
  "sample_enc \<equiv> [CHR ''a'', line_feed]"

lemma sample_iref: "ref_of (ex_go sample_exlib) intent_kind sample_raw = sample_ref intent_kind CHR ''i''"
  by (simp add: ref_of_def sample_ref_def sample_record_id)

lemma sample_attempt_from: "attempt_from_intent sample_intent (sample_ref intent_kind CHR ''i'') = sample_attempt"
  by (simp add: sample_attempt_def)

lemma sample_limits_valid: "valid_store_limits default_store_limits"
  by (simp add: valid_store_limits_def default_store_limits_def valid_record_limits_def)

lemma sample_decodes: "decode_intent sample_exlib default_store_limits None sample_raw = Inr sample_intent"
proof -
  have "reject_duplicate_keys ScanValue [Scalar []] = Some (Some [])" by code_simp
  then show ?thesis
    using sample_limits_valid sample_intent_valid
    by (simp add: decode_intent_def decode_record_def sample_exlib_def sample_codec_def default_store_limits_def)
qed

lemma sample_encodes: "encode_attempt sample_exlib default_store_limits sample_attempt = Inr sample_enc"
  using sample_limits_valid sample_attempt_valid
  by (simp add: encode_attempt_def encode_record_def sample_exlib_def sample_codec_def default_store_limits_def)

text \<open>Names of objects, by the letter of their identity.\<close>

definition sample_name :: "bytes \<Rightarrow> char \<Rightarrow> bytes" where
  "sample_name kind c = record_prefix @ kind @ ''-'' @ hex_encode (replicate 32 c) @ record_suffix"

lemma sample_path: "record_relative_path kind (sample_id c) = objects_dir @ ''/'' @ sample_name kind c"
  by (simp add: record_relative_path_def sample_id_def sample_name_def)

lemma sample_names:
  "object_names ((objects_dir @ ''/'' @ n, m) # names) = n # object_names names"
  by (simp add: object_names_def has_prefix_def)

lemma sample_name_length: "length (sample_name intent_kind c) = 108" "length (sample_name attempt_kind c) = 109"
  by (simp_all add: sample_name_def record_prefix_def record_suffix_def intent_kind_def attempt_kind_def)

lemma sample_classified: "valid_record_kind kind \<Longrightarrow> classify_object_name (sample_name kind c) = Some (Some (kind, sample_id c))"
  unfolding classify_object_name_record by (simp add: sample_path)

lemma sample_kinds: "intent_kind \<notin> {outcome_kind, retention_kind, forget_kind}"
  by (simp add: intent_kind_def outcome_kind_def retention_kind_def forget_kind_def)

lemma sample_state_fields:
  "id_names sample_state = [(objects_dir @ ''/'' @ sample_name intent_kind CHR ''i'', 2)]"
  "id_content sample_state = (\<lambda>_. [])(2 := sample_raw)" "id_next sample_state = 3"
  by (simp_all add: sample_state_def sample_path)

lemma sample_quiet: "quiet sample_session (id_names sample_state) (id_content sample_state)"
proof -
  have names: "object_names (id_names sample_state) = [sample_name intent_kind CHR ''i'']"
    unfolding sample_state_fields sample_names by (simp add: object_names_def)
  have "only_records (id_names sample_state) (id_content sample_state) [sample_name intent_kind CHR ''i'']"
    by (simp add: only_records_def sample_classified sample_state_fields)
  then show ?thesis
    unfolding quiet_def names
    using sample_kinds
    by (simp add: sample_classified path_sum_def sample_name_length objects_length sample_session_def default_store_limits_def)
qed

lemma sample_paths_differ:
  "record_relative_path attempt_kind (sample_id c) \<noteq> record_relative_path intent_kind (sample_id d)"
  using record_relative_path_kind [of attempt_kind intent_kind] intent_not_attempt by auto

lemma sample_prepared: "prepared sample_exlib sample_session sample_intent sample_raw sample_enc [] sample_state"
proof -
  have limits: "sn_limits sample_session = default_store_limits" by (simp add: sample_session_def)
  have "ready sample_exlib sample_session"
    using sample_limits_valid sample_digest_sizes by (simp add: ready_def sample_session_def)
  moreover have "intent_stored sample_exlib sample_session sample_intent sample_raw (id_names sample_state) (id_content sample_state)"
    by (simp add: intent_stored_def limits sample_decodes sample_record_id sample_path sample_state_fields)
  moreover have "map_of (id_names sample_state) (record_relative_path attempt_kind (sample_id c)) = None" for c
    using sample_paths_differ by (auto simp: sample_state_def)
  moreover have "map_of (id_names sample_state) (import_staging_path []) = None"
    by (simp add: sample_state_def)
  moreover have "object_names (with_attempt sample_exlib sample_enc 0 (id_names sample_state)) =
      [sample_name attempt_kind CHR ''a'', sample_name intent_kind CHR ''i'']"
    unfolding with_attempt_def sample_record_id sample_path sample_state_fields
    by (simp only: simp_thms if_True sample_names) (simp add: object_names_def)
  moreover have "el_entries default_store_limits = 25000" "el_path_bytes default_store_limits = 16777216"
    by (simp_all add: default_store_limits_def)
  ultimately show ?thesis
    using sample_quiet
    by (simp add: prepared_def limits sample_iref sample_attempt_from sample_encodes sample_record_id path_sum_def
        sample_name_length objects_length sample_state_fields(3))
       (simp add: sample_state_def)
qed

end
