(* ===== verification/AtMostOnce.thy ===== *)
theory AtMostOnce
  imports Interleaving SubmitSample
begin

text \<open>
  At most one request per intent, over every interleaving, kill and loss of power; and a complete run of the submit
  command on a store without faults, as one of the histories the theorems speak about.
\<close>

section \<open>Executions are histories\<close>

definition disk_of :: "ideal \<Rightarrow> disk" where
  "disk_of s = \<lparr>dk_present = fst ` set (id_names s), dk_unsynced = set (id_dirty s)\<rparr>"

text \<open>The requests of an execution, latest first.\<close>

primrec requests :: "(site_call \<Rightarrow> site_reply) \<Rightarrow> bytes \<Rightarrow> 'a ex_prog \<Rightarrow> ideal \<Rightarrow> bytes list" where
  "requests other random (Return x) = (\<lambda>s. [])"
| "requests other random (Call c k) =
     (\<lambda>s. case respond other random c s of (r, s') \<Rightarrow> requests other random (k r) s' @ sent_by c)"

lemma absent_iff: "map_of xs p = None \<longleftrightarrow> p \<notin> fst ` set xs"
  by (induction xs) auto

lemma respond_disk:
  assumes "respond other random c s = (r, s')"
  shows "disk_step (disk_of s) c r (disk_of s')"
proof (cases "changes_names c")
  case False
  then have "disk_of s' = disk_of s"
    using assms by (cases c) (auto simp: changes_names_def disk_of_def)
  then show ?thesis using False by (simp add: unchanged)
next
  case True
  have added: "disk_of (link_file n q s) = add_name q (disk_of s)" "disk_of (new_file q s) = add_name q (disk_of s)"
      "disk_of (unlink_file q s) = delete_name q (disk_of s)" "disk_of (flush_names x s) = flush x (disk_of s)" for n q x
    by (auto simp: disk_of_def link_file_def new_file_def new_handle_def unlink_file_def flush_names_def add_name_def
        delete_name_def flush_def in_directory_def directory_path_def)
  have same: "disk_of (new_handle n s) = disk_of s" for n by (simp add: disk_of_def new_handle_def)
  have present: "p \<in> dk_present (disk_of s) \<longleftrightarrow> map_of (id_names s) p \<noteq> None" for p
    by (simp add: disk_of_def absent_iff)
  show ?thesis
  proof (cases c)
    case (OpenObject p)
    show ?thesis
    proof (cases "map_of (id_names s) p")
      case None
      then show ?thesis using assms present [of p] by (auto simp: OpenObject intro: absent)
    next
      case (Some n)
      then have "p \<in> dk_present (disk_of s)" using present [of p] by simp
      moreover have "r = OpenReply (Opened (id_next s) (info_of s n))" "disk_of s' = disk_of s"
        using Some assms by (auto simp: OpenObject same)
      ultimately show ?thesis using disk_step.opened by (simp add: OpenObject)
    qed
  next
    case (LinkObject p q)
    show ?thesis
    proof (cases "map_of (id_names s) p \<noteq> None \<and> map_of (id_names s) q = None")
      case True
      then have "q \<notin> dk_present (disk_of s)" "disk_of s' = add_name q (disk_of s)"
        using assms present [of q] by (auto simp: LinkObject added)
      then show ?thesis using disk_step.linked [of q "disk_of s" p r] by (simp add: LinkObject)
    next
      case False
      then have "r \<noteq> LinkReply Linked" "s' = s" using assms by (auto simp: LinkObject split: option.splits)
      then show ?thesis using disk_step.not_linked by (simp add: LinkObject)
    qed
  next
    case (UnlinkName p)
    show ?thesis
    proof (cases "map_of (id_names s) p = None")
      case True
      then have "r \<noteq> UnlinkReply Unlinked" "s' = s" using assms by (auto simp: UnlinkName)
      then show ?thesis using disk_step.not_unlinked by (simp add: UnlinkName)
    next
      case False
      then have "p \<in> dk_present (disk_of s)" "disk_of s' = delete_name p (disk_of s)"
        using assms present [of p] by (auto simp: UnlinkName added)
      then show ?thesis using disk_step.unlinked [of p "disk_of s" r] by (simp add: UnlinkName)
    qed
  next
    case (CreateStaging p)
    show ?thesis
    proof (cases "map_of (id_names s) p = None")
      case True
      then have "p \<notin> dk_present (disk_of s)" "disk_of s' = add_name p (disk_of s)"
        using assms present [of p] by (auto simp: CreateStaging added)
      then show ?thesis using disk_step.created [of p "disk_of s" r] by (simp add: CreateStaging)
    next
      case False
      then have "\<forall>h. r \<noteq> Handle (Some h)" "s' = s" using assms by (auto simp: CreateStaging)
      then show ?thesis using disk_step.not_created by (simp add: CreateStaging)
    qed
  next
    case (SyncDirectory x)
    then have "disk_of s' = flush x (disk_of s)" using assms by (auto simp: added)
    then show ?thesis using disk_step.flushed [of "disk_of s" x r] by (simp add: SyncDirectory)
  qed (use True in \<open>simp_all add: changes_names_def\<close>)
qed

lemma execution_reachable:
  assumes "\<not> draws lib operation (Other Entropy) (OtherReply (other Entropy))"
    and "wd_live w pid = Some p" "wd_disk w = disk_of s"
  shows "(world_step lib operation)\<^sup>*\<^sup>* w
    \<lparr>wd_disk = disk_of (snd (execute other random p s)), wd_live = (wd_live w)(pid \<mapsto> Return (fst (execute other random p s))),
     wd_sent = requests other random p s @ wd_sent w\<rparr>"
  using assms(2,3)
proof (induction p arbitrary: w s)
  case (Return x)
  then have "\<lparr>wd_disk = disk_of s, wd_live = (wd_live w)(pid \<mapsto> Return x), wd_sent = wd_sent w\<rparr> = w"
    by (simp add: fun_upd_idem)
  then show ?case
    by (simp only: execute.simps requests.simps fst_conv snd_conv append_Nil rtranclp.rtrancl_refl)
next
  case (Call c k)
  obtain r s' where r: "respond other random c s = (r, s')" by (cases "respond other random c s")
  let ?w = "\<lparr>wd_disk = disk_of s', wd_live = (wd_live w)(pid \<mapsto> k r), wd_sent = sent_by c @ wd_sent w\<rparr>"
  have "\<not> draws lib operation c r"
    using assms(1) r by (cases c) (auto simp: draws_def split: option.splits if_splits)
  then have "world_step lib operation w ?w"
    using Call.prems respond_disk [OF r] by (intro act) simp_all
  moreover have "(world_step lib operation)\<^sup>*\<^sup>* ?w
    \<lparr>wd_disk = disk_of (snd (execute other random (k r) s')),
     wd_live = (wd_live ?w)(pid \<mapsto> Return (fst (execute other random (k r) s'))),
     wd_sent = requests other random (k r) s' @ wd_sent ?w\<rparr>"
    by (rule Call.IH) simp_all
  ultimately have "(world_step lib operation)\<^sup>*\<^sup>* w
    \<lparr>wd_disk = disk_of (snd (execute other random (k r) s')),
     wd_live = (wd_live ?w)(pid \<mapsto> Return (fst (execute other random (k r) s'))),
     wd_sent = requests other random (k r) s' @ wd_sent ?w\<rparr>"
    by (rule converse_rtranclp_into_rtranclp)
  then show ?case by (simp add: r del: fun_upd_apply)
qed

lemma requests_bind:
  "requests other random (bind p f) s =
    (case execute other random p s of (x, s') \<Rightarrow> requests other random (f x) s' @ requests other random p s)"
  by (induction p arbitrary: s) (auto split: prod.split)

section \<open>The request is sent\<close>

text \<open>The requests with the store at the time of each, latest first.\<close>

primrec sends :: "(site_call \<Rightarrow> site_reply) \<Rightarrow> bytes \<Rightarrow> 'a ex_prog \<Rightarrow> ideal \<Rightarrow> (bytes \<times> ideal) list" where
  "sends other random (Return x) = (\<lambda>s. [])"
| "sends other random (Call c k) =
     (\<lambda>s. case respond other random c s of (r, s') \<Rightarrow> sends other random (k r) s' @ map (\<lambda>q. (q, s)) (sent_by c))"

lemma requests_sends: "requests other random p s = map fst (sends other random p s)"
  by (induction p arbitrary: s) (auto simp: o_def split: prod.split)

lemma sends_bind:
  "sends other random (bind p f) s =
    (case execute other random p s of (x, s') \<Rightarrow> sends other random (f x) s' @ sends other random p s)"
  by (induction p arbitrary: s) (auto split: prod.split)

definition sent_when :: "(site_call \<Rightarrow> site_reply) \<Rightarrow> bytes \<Rightarrow> bytes \<Rightarrow> (ideal \<Rightarrow> bool) \<Rightarrow> 'a ex_prog \<Rightarrow> ideal \<Rightarrow> bool" where
  "sent_when other random q Q p s \<longleftrightarrow> (\<exists>st. (q, st) \<in> set (sends other random p s) \<and> Q st)"

lemma sent_when_requests: "sent_when other random q Q p s \<Longrightarrow> q \<in> set (requests other random p s)"
  by (force simp: sent_when_def requests_sends)

lemma sent_after:
  "execute other random p s = (x, s') \<Longrightarrow> sent_when other random q Q (f x) s' \<Longrightarrow> sent_when other random q Q (bind p f) s"
  by (auto simp: sent_when_def sends_bind)

lemma sent_after_reads:
  assumes "reads other random names content p x" "id_names s = names" "id_content s = content" "m \<le> id_next s"
    and "\<And>s'. id_names s' = names \<Longrightarrow> id_content s' = content \<Longrightarrow> m \<le> id_next s' \<Longrightarrow> sent_when other random q Q (f x) s'"
  shows "sent_when other random q Q (bind p f) s"
proof -
  obtain s' where s': "execute other random p s = (x, s')" "id_names s' = names" "id_content s' = content"
    using readsD [OF assms(1-3)] by blast
  have "m \<le> id_next s'" using execute_next [OF s'(1)] assms(4) by simp
  then show ?thesis by (intro sent_after [OF s'(1)] assms(5) s'(2,3))
qed

lemma acceptable_matches:
  "fresh_review_acceptable lib i ob r n \<Longrightarrow> fresh_review_matches_intent lib i (Some ob) r"
  by (simp add: fresh_review_acceptable_def fresh_review_matches_intent_def Let_def)

lemma sent_by_submit:
  "Q st \<Longrightarrow> sent_when other random (rr_id (vi_ref v)) Q (submit_reserved lib s rid v reserved ob) st"
  unfolding submit_reserved_def submit_exchange_def Let_def
  by (auto simp: sent_when_def sends_bind perform_def sent_by_def split: prod.split)

lemma sent_by_review:
  assumes "prepared lib s i raw enc random st" "fresh_review_acceptable lib i ob r 1"
    and "other (FreshReview (in_selector i) (in_review_limits i) (in_exchange_limits i)) = ReviewReply (Some ob) r True"
    and "other RequestsMade = Count 1"
    and "id_names st1 = id_names st" "id_content st1 = id_content st" "id_next st \<le> id_next st1"
  shows "sent_when other random (record_id_of (ex_go lib) intent_kind raw) (attempt_held lib enc)
    (review_and_reserve lib s rid (verified_of lib s a i raw)) st1"
proof -
  let ?v = "verified_of lib s a i raw"
  have v: "vi_record ?v = i" "rr_id (vi_ref ?v) = record_id_of (ex_go lib) intent_kind raw" by (simp_all add: verified_of_def Let_def)
  have review: "reads other random (id_names st) (id_content st)
      (fresh_review (in_selector i) (in_review_limits i) (in_exchange_limits i)) (Some (ob, r))"
    using reads_site(4) [of other random _ _ "in_selector i" "in_review_limits i" "in_exchange_limits i"] assms(3) by simp
  have count: "reads other random (id_names st) (id_content st) requests_made 1"
    using reads_site(3) [of other random] assms(4) by simp
  have "valid_intent lib i" using assms(1) decode_valid(1) by (auto simp: prepared_def intent_stored_def)
  then have one: "bounded_counter 1 (xl_session_requests (in_exchange_limits i) + 1) = 1"
    by (auto simp: valid_intent_def valid_exchange_limits_def bounded_counter_def)
  have "sent_when other random (record_id_of (ex_go lib) intent_kind raw) (attempt_held lib enc)
      (bind (reserve_attempt lib s ?v (Some ob) r) (\<lambda>(receipt, reserved).
        case reserved of
          Inl _ \<Rightarrow> bind close_site (\<lambda>_. bind (exchange_status lib s rid) (\<lambda>_. Return ReservationFailed))
        | Inr reserved \<Rightarrow>
            if \<not> rs_acquired receipt
            then bind close_site (\<lambda>_. bind (exchange_status lib s rid) (\<lambda>_. Return ReservationFailed))
            else submit_reserved lib s rid ?v reserved ob)) st2"
    if state: "id_names st2 = id_names st" "id_content st2 = id_content st" "id_next st \<le> id_next st2" for st2
  proof -
    obtain reserved st3 where reserve: "execute other random (reserve_attempt lib s ?v (Some ob) r) st2 =
        ((\<lparr>rs_writes = 1, rs_already = False, rs_acquired = True\<rparr>, Inr reserved), st3)"
      and held: "attempt_held lib enc st3"
      using execute_reserve [OF assms(1) acceptable_matches [OF assms(2)] state, of other a] by blast
    from held show ?thesis
      by (intro sent_after [OF reserve]) (simp add: sent_by_submit [where v = ?v, unfolded v])
  qed
  then show ?thesis
    unfolding review_and_reserve_def Let_def v
    using assms(2) one
    by (intro sent_after_reads [OF review assms(5-7)] sent_after_reads [OF count]) simp_all
qed

lemma submit_sends:
  assumes "prepared lib s i raw enc random st" "fresh_review_acceptable lib i ob r 1" "intent_matches_invocation lib i want"
    and "other OpenSite = SiteFlag True" "other RequestsMade = Count 1"
    and "other (FreshReview (in_selector i) (in_review_limits i) (in_exchange_limits i)) = ReviewReply (Some ob) r True"
  shows "sent_when other random (record_id_of (ex_go lib) intent_kind raw) (attempt_held lib enc)
    (submit_command lib s (record_id_of (ex_go lib) intent_kind raw) want) st"
proof -
  have pre: "ready lib s" "quiet s (id_names st) (id_content st)" "intent_stored lib s i raw (id_names st) (id_content st)"
      "encode_attempt lib (sn_limits s) (attempt_from_intent i (ref_of (ex_go lib) intent_kind raw)) = Inr enc"
      "map_of (id_names st) (record_relative_path attempt_kind (record_id_of (ex_go lib) attempt_kind enc)) = None"
    using assms(1) by (auto simp: prepared_def)
  obtain a where load: "reads other random (id_names st) (id_content st)
      (load_intent lib s (record_id_of (ex_go lib) intent_kind raw)) (Inr (verified_of lib s a i raw))"
    using reads_load_intent [OF pre(1,3)] by blast
  obtain q where status: "reads other random (id_names st) (id_content st)
      (exchange_status lib s (record_id_of (ex_go lib) intent_kind raw)) (q, None)" "st_complete q" "st_state q = ''prepared''"
    using reads_exchange_status [OF pre] by blast
  have site: "reads other random (id_names st) (id_content st) open_site True"
    using reads_site(2) [of other random] assms(4) by simp
  have v: "vi_record (verified_of lib s a i raw) = i" by (simp add: verified_of_def Let_def)
  have step: "sent_when other random (record_id_of (ex_go lib) intent_kind raw) (attempt_held lib enc)
      (if \<not> True then Return SiteUnavailable
       else review_and_reserve lib s (record_id_of (ex_go lib) intent_kind raw) (verified_of lib s a i raw)) st1"
    if "id_names st1 = id_names st" "id_content st1 = id_content st" "id_next st \<le> id_next st1" for st1
    using sent_by_review [OF assms(1,2,6,5) that] by simp
  show ?thesis
    unfolding submit_command_def
    using assms(3) status(2,3) step
    by (intro sent_after_reads [OF load refl refl le_refl])
       (auto simp: v intro!: sent_after_reads [OF status(1)] sent_after_reads [OF site])
qed

text \<open>
  Claim C31. On a store without faults that holds the intent, not its attempt, and no outcome, retention or forget
  record of any operation, with a site that opens and a fresh review that agrees with the intent, the submit command
  sends the request, and it sends it at a time when the attempt record derived from the intent is in the store,
  whole and under its name: the attempt is reserved first.
\<close>

theorem submit_sends_request:
  assumes "prepared lib s i raw enc random st" "fresh_review_acceptable lib i ob r 1" "intent_matches_invocation lib i want"
    and "other OpenSite = SiteFlag True" "other RequestsMade = Count 1"
    and "other (FreshReview (in_selector i) (in_review_limits i) (in_exchange_limits i)) = ReviewReply (Some ob) r True"
  shows "record_id_of (ex_go lib) intent_kind raw \<in>
      set (requests other random (submit_command lib s (record_id_of (ex_go lib) intent_kind raw) want) st) \<and>
    (\<exists>st' n. (record_id_of (ex_go lib) intent_kind raw, st') \<in>
        set (sends other random (submit_command lib s (record_id_of (ex_go lib) intent_kind raw) want) st) \<and>
      map_of (id_names st') (record_relative_path attempt_kind (record_id_of (ex_go lib) attempt_kind enc)) = Some n \<and>
      id_content st' n = enc)"
proof
  note sent = submit_sends [OF assms]
  then show "record_id_of (ex_go lib) intent_kind raw \<in>
      set (requests other random (submit_command lib s (record_id_of (ex_go lib) intent_kind raw) want) st)"
    by (rule sent_when_requests)
  from sent show "\<exists>st' n. (record_id_of (ex_go lib) intent_kind raw, st') \<in>
        set (sends other random (submit_command lib s (record_id_of (ex_go lib) intent_kind raw) want) st) \<and>
      map_of (id_names st') (record_relative_path attempt_kind (record_id_of (ex_go lib) attempt_kind enc)) = Some n \<and>
      id_content st' n = enc"
    unfolding sent_when_def attempt_held_def by blast
qed

text \<open>The command on the concrete store, and the exchange it belongs to.\<close>

lemma sample_invocation_matches: "intent_matches_invocation sample_exlib sample_intent sample_invocation"
  using sample_intent_valid by (simp add: intent_matches_invocation_def sample_intent_def sample_invocation_def sample_config_def)

lemma sample_codecs:
  "ex_intent sample_exlib = sample_codec sample_intent CHR ''i''" "ex_attempt sample_exlib = sample_codec sample_attempt CHR ''a''"
  by (simp_all add: sample_exlib_def)

lemma sample_identifies:
  "(kind, c) \<in> {(intent_kind, CHR ''i''), (attempt_kind, CHR ''a'')} \<Longrightarrow>
    identifies sample_exlib (sample_codec v c) kind v (sample_ref kind c)"
  by (auto simp: identifies_def sample_record_id sample_ref_def sample_codec_def split: if_splits)

lemma sample_exchange:
  "exchange_of sample_exlib sample_intent (sample_ref intent_kind CHR ''i'') (sample_ref attempt_kind CHR ''a'')"
  by (simp add: exchange_of_def sample_attempt_from sample_codecs sample_codec_faithful sample_identifies)

theorem submit_sends_request_witness:
  "\<exists>st' n. (sample_id CHR ''i'', st') \<in>
      set (sends (sample_site 1) [] (submit_command sample_exlib sample_session (sample_id CHR ''i'') sample_invocation) sample_state) \<and>
    map_of (id_names st') (record_relative_path attempt_kind (sample_id CHR ''a'')) = Some n \<and> id_content st' n = sample_enc"
  using submit_sends_request [OF sample_prepared sample_review_acceptable sample_invocation_matches, of "sample_site 1"]
  by (simp add: sample_record_id sample_site_def sample_intent_def sample_review_def)

text \<open>One process on the concrete store, from its start to its end.\<close>

definition sample_command :: "unit ex_prog" where
  "sample_command =
     in_session \<lparr>rp_store_id = ''store'', rp_collected = False, rp_limits = default_store_limits\<rparr>
       (\<lambda>s. submit_command sample_exlib s (sample_id CHR ''i'') sample_invocation)"

definition sample_before :: world where
  "sample_before = \<lparr>wd_disk = disk_of sample_state, wd_live = (\<lambda>_. None), wd_sent = []\<rparr>"

definition sample_after :: world where
  "sample_after =
     \<lparr>wd_disk = disk_of (snd (execute (sample_site 1) [] sample_command sample_state)),
      wd_live = [0 \<mapsto> Return (fst (execute (sample_site 1) [] sample_command sample_state))],
      wd_sent = requests (sample_site 1) [] sample_command sample_state\<rparr>"

lemma sample_reachable: "(world_step sample_exlib (in_operation sample_intent))\<^sup>*\<^sup>* sample_before sample_after"
proof -
  let ?w = "sample_before\<lparr>wd_live := (wd_live sample_before)(0 \<mapsto> sample_command)\<rparr>"
  have "command sample_exlib sample_command" unfolding sample_command_def by (rule command.submit)
  then have started: "world_step sample_exlib (in_operation sample_intent) sample_before ?w"
    by (intro start) (simp_all add: sample_before_def)
  have "(world_step sample_exlib (in_operation sample_intent))\<^sup>*\<^sup>* ?w
    \<lparr>wd_disk = disk_of (snd (execute (sample_site 1) [] sample_command sample_state)),
     wd_live = (wd_live ?w)(0 \<mapsto> Return (fst (execute (sample_site 1) [] sample_command sample_state))),
     wd_sent = requests (sample_site 1) [] sample_command sample_state @ wd_sent ?w\<rparr>"
    by (rule execution_reachable) (simp_all add: draws_def sample_site_def sample_before_def)
  then have "(world_step sample_exlib (in_operation sample_intent))\<^sup>*\<^sup>* ?w sample_after"
    by (simp add: sample_after_def sample_before_def)
  with started show ?thesis by (rule converse_rtranclp_into_rtranclp)
qed

lemma reads_open_session:
  "reads other random names content (open_session rp)
    (Inr \<lparr>sn_address = (case other Allocate of Address a \<Rightarrow> a | _ \<Rightarrow> 0), sn_limits = rp_limits rp,
       sn_bound = \<lparr>bs_store_id = rp_store_id rp, bs_open = True\<rparr>, sn_closed = False\<rparr>)"
  unfolding open_session_def
  by (rule reads_bind [OF reads_simple(1)]) (auto intro!: reads_bind [OF reads_simple(2)] reads_bind [OF reads_site(1)])

lemma prepared_later:
  "prepared lib s i raw enc random st \<Longrightarrow> id_names st' = id_names st \<Longrightarrow> id_content st' = id_content st \<Longrightarrow>
    id_next st \<le> id_next st' \<Longrightarrow> prepared lib s i raw enc random st'"
  by (fastforce simp: prepared_def)

lemma sample_sent: "sample_id CHR ''i'' \<in> set (wd_sent sample_after)"
proof -
  let ?f = "\<lambda>s. submit_command sample_exlib s (sample_id CHR ''i'') sample_invocation"
  have session: "reads (sample_site 1) [] (id_names sample_state) (id_content sample_state)
      (open_session \<lparr>rp_store_id = ''store'', rp_collected = False, rp_limits = default_store_limits\<rparr>) (Inr sample_session)"
    using reads_open_session [of "sample_site 1" "[]" "id_names sample_state" "id_content sample_state"
        "\<lparr>rp_store_id = ''store'', rp_collected = False, rp_limits = default_store_limits\<rparr>"]
    by (simp add: sample_site_def sample_session_def)
  have "sent_when (sample_site 1) [] (sample_id CHR ''i'') (attempt_held sample_exlib sample_enc) (bind (?f sample_session) (\<lambda>_. Return ())) st"
    if "id_names st = id_names sample_state" "id_content st = id_content sample_state" "id_next sample_state \<le> id_next st" for st
    using submit_sends [OF prepared_later [OF sample_prepared that] sample_review_acceptable sample_invocation_matches,
        of "sample_site 1"]
    by (auto simp: sent_when_def sends_bind sample_record_id sample_site_def sample_intent_def sample_review_def split: prod.split)
  then have "sent_when (sample_site 1) [] (sample_id CHR ''i'') (attempt_held sample_exlib sample_enc) sample_command sample_state"
    unfolding sample_command_def in_session_def
    by (intro sent_after_reads [OF session refl refl le_refl]) simp
  then have "sample_id CHR ''i'' \<in> set (requests (sample_site 1) [] sample_command sample_state)"
    by (rule sent_when_requests)
  then show ?thesis by (simp add: sample_after_def)
qed

text \<open>
  Claim C1. Processes run prepare, submit, status, list, prune and forget commands on one store in any number and any
  interleaving of their calls, are stopped anywhere, and lose power with any of the unflushed directory changes undone.
  Starting with no process and no request sent for the intent, at most one request is ever sent for it.
\<close>

theorem at_most_one_request:
  assumes "exchange_of lib i iref aref" "(world_step lib (in_operation i))\<^sup>*\<^sup>* w w'"
    and "wd_live w = (\<lambda>_. None)" "rr_id iref \<notin> set (wd_sent w)"
  shows "count_list (wd_sent w') (rr_id iref) \<le> 1"
  using consistent_reachable [OF assms] by (auto simp: consistent_def one_sender_def)


theorem at_most_one_request_witness:
  "count_list (wd_sent sample_after) (sample_id CHR ''i'') = 1"
proof -
  have "count_list (wd_sent sample_after) (rr_id (sample_ref intent_kind CHR ''i'')) \<le> 1"
    using at_most_one_request [OF sample_exchange sample_reachable] by (simp add: sample_before_def)
  then show ?thesis
    using sample_sent by (simp add: sample_ref_def le_Suc_eq count_list_0_iff)
qed

text \<open>
  Claim C4. In every world reached this way, once a request was sent for the intent, either its attempt marker is on the
  disk in a form that no loss of power undoes, or the intent is gone from the disk for good.
\<close>

theorem request_leaves_marker:
  assumes "exchange_of lib i iref aref" "(world_step lib (in_operation i))\<^sup>*\<^sup>* w w'"
    and "wd_live w = (\<lambda>_. None)" "rr_id iref \<notin> set (wd_sent w)" "rr_id iref \<in> set (wd_sent w')"
  shows "attempt_path aref \<in> dk_present (wd_disk w') - dk_unsynced (wd_disk w') \<or>
    intent_path iref \<notin> dk_present (wd_disk w') \<union> dk_unsynced (wd_disk w')"
  using consistent_reachable [OF assms(1-4)] assms(5)
  by (auto simp: consistent_def one_sender_def gone_def marked_def Suc_le_eq count_list_0_iff)


theorem request_leaves_marker_witness:
  "sample_id CHR ''i'' \<in> set (wd_sent sample_after) \<and>
    (if intent_path (sample_ref intent_kind CHR ''i'') \<in> dk_present (wd_disk sample_after) \<union> dk_unsynced (wd_disk sample_after)
     then attempt_path (sample_ref attempt_kind CHR ''a'') \<in> dk_present (wd_disk sample_after) - dk_unsynced (wd_disk sample_after)
     else True)"
  using request_leaves_marker [OF sample_exchange sample_reachable] sample_sent
  by (auto simp: sample_before_def sample_ref_def)

end
