(* ===== verification/StatusProps.thy ===== *)
theory StatusProps
  imports ExchangeCommands
begin

text \<open>
  What a status can say. Whatever the store answers, a status without an error is complete and consistent: its state, its
  intent, attempt, outcome and tombstones fit together.
\<close>

section \<open>Well-formed statuses\<close>

definition outcome_state :: "status \<Rightarrow> outcome_record \<Rightarrow> bool" where
  "outcome_state st oc \<longleftrightarrow>
     (case (st_retention st, st_forget st) of
        (None, None) \<Rightarrow> st_state st = state_from_outcome (xr_outcome (oc_receipt oc))
      | (Some _, None) \<Rightarrow> st_state st \<in> {''pruning'', ''pruned''}
      | (Some _, Some _) \<Rightarrow> st_state st = ''forgetting''
      | (None, Some _) \<Rightarrow> False)"

definition well_formed_status :: "exlib \<Rightarrow> status \<Rightarrow> bool" where
  "well_formed_status lib st \<longleftrightarrow>
     st_complete st \<and>
     (case st_intent st of
        None \<Rightarrow> False
      | Some (i, iref) \<Rightarrow>
          rr_kind iref = intent_kind \<and> valid_intent lib i \<and>
          (case (st_attempt st, st_outcome st) of
             (None, None) \<Rightarrow> st_state st = ''prepared'' \<and> st_retention st = None \<and> st_forget st = None
           | (None, Some _) \<Rightarrow> False
           | (Some (a, aref), None) \<Rightarrow>
               attempt_matches_intent lib a i iref \<and> st_state st = ''attempt_reserved_submission_unknown'' \<and>
               st_retention st = None \<and> st_forget st = None
           | (Some (a, aref), Some (oc, ocref)) \<Rightarrow>
               attempt_matches_intent lib a i iref \<and>
               outcome_matches lib oc i iref a aref \<and> outcome_state st oc))"

definition status_result :: "exlib \<Rightarrow> status \<times> exchange_error option \<Rightarrow> bool" where
  "status_result lib x \<longleftrightarrow> (case snd x of None \<Rightarrow> well_formed_status lib (fst x) | Some _ \<Rightarrow> \<not> st_complete (fst x))"

section \<open>Parts of a status\<close>

lemma returns_any: "(\<And>x. returns R (f x)) \<Longrightarrow> returns R (bind p f)"
  by (simp add: returns_bind returns_True)

lemma scan_candidates_result:
  assumes "\<forall>oc ref. found = Some (oc, ref) \<longrightarrow> outcome_matches lib oc i iref a aref"
  shows "returns (\<lambda>(_, _, r). \<forall>oc ref. r = Inr (Some (oc, ref)) \<longrightarrow> outcome_matches lib oc i iref a aref)
    (scan_candidates lib s i iref a aref rs usage found)"
  using assms
proof (induction rs arbitrary: usage found)
  case (Cons r rs)
  note IH = Cons.IH
  show ?case
  proof (cases "rr_size r < 0 \<or> rr_size r > el_status_bytes (sn_limits s) - su_bytes usage")
    case False
    show ?thesis
      unfolding scan_candidates.simps if_not_P [OF False] Let_def
      by (rule returns_bindI [where Q = "\<lambda>_. True"])
         (use Cons.prems IH in \<open>auto split: sum.splits option.splits intro: returns_True\<close>)
  qed simp
qed simp

lemma scan_outcomes_result:
  "returns (\<lambda>(_, _, r). \<forall>oc ref. r = Inr (Some (oc, ref)) \<longrightarrow> outcome_matches lib oc i iref a aref)
    (scan_outcomes lib s i iref a aref)"
  unfolding scan_outcomes_def Let_def
  by (rule returns_bindI [where Q = "\<lambda>_. True"])
     (auto split: option.splits intro: returns_True scan_candidates_result [where found = None, simplified])

lemma load_intent_valid:
  "returns (\<lambda>r. \<forall>v. r = Inr v \<longrightarrow> valid_intent lib (vi_record v) \<and> rr_kind (vi_ref v) = intent_kind) (load_intent lib s i)"
  unfolding load_intent_def
  by (auto simp: returns_bind Let_def intent_valid_for_def intent_verified_def split: option.splits sum.splits
      intro!: returns_True)

lemma find_by_intent_result:
  "returns (\<lambda>x. \<forall>r ref. snd x = Inr (Some (r, ref)) \<longrightarrow> valid_retention lib r) (find_retention_by_intent lib s i u)"
  "returns (\<lambda>x. \<forall>f ref. snd x = Inr (Some (f, ref)) \<longrightarrow> valid_retention lib (fg_retention f)) (find_forget_by_intent lib s i u)"
proof -
  have "returns (\<lambda>x. \<forall>r ref. snd x = Inr (Some (r, ref)) \<longrightarrow> valid_retention lib r \<and> rr_id (rt_intent_ref r) = i)
      (find_retention_by_intent lib s i u)"
    unfolding find_retention_by_intent_def
    by (rule scan_stable_result [where Q = "\<lambda>r ref. valid_retention lib r"]) (rule returns_mono [OF load_retention_result], auto)
  then show "returns (\<lambda>x. \<forall>r ref. snd x = Inr (Some (r, ref)) \<longrightarrow> valid_retention lib r) (find_retention_by_intent lib s i u)"
    by (rule returns_mono) blast
  have "returns (\<lambda>x. \<forall>f ref. snd x = Inr (Some (f, ref)) \<longrightarrow> valid_retention lib (fg_retention f) \<and> rr_id (rt_intent_ref (fg_retention f)) = i)
      (find_forget_by_intent lib s i u)"
    unfolding find_forget_by_intent_def
    by (rule scan_stable_result [where Q = "\<lambda>f ref. valid_retention lib (fg_retention f)"])
       (rule returns_mono [OF load_forget_result], auto simp: valid_forget_def)
  then show "returns (\<lambda>x. \<forall>f ref. snd x = Inr (Some (f, ref)) \<longrightarrow> valid_retention lib (fg_retention f)) (find_forget_by_intent lib s i u)"
    by (rule returns_mono) blast
qed

section \<open>The status of an operation\<close>

text \<open>A status before anything about the operation but the intent is known.\<close>

definition open_status :: "status \<Rightarrow> bool" where
  "open_status st \<longleftrightarrow> \<not> st_complete st \<and> st_attempt st = None \<and> st_outcome st = None \<and> st_retention st = None \<and> st_forget st = None"

lemma attempt_matches_unique: "attempt_matches_intent lib a i ref \<Longrightarrow> a = attempt_from_intent i ref"
  by (cases a) (simp add: attempt_matches_intent_def attempt_from_intent_def valid_attempt_def)

lemma attempt_status_result:
  assumes "open_status st" "st_intent st = Some (vi_record v, vi_ref v)" "valid_intent lib (vi_record v)"
    and "rr_kind (vi_ref v) = intent_kind"
    and "\<forall>oc ref. found = Some (oc, ref) \<longrightarrow>
      outcome_matches lib oc (vi_record v) (vi_ref v) (attempt_from_intent (vi_record v) (vi_ref v)) aref"
  shows "returns (status_result lib) (status_of_attempt lib s v a aref found st)"
proof (cases "attempt_matches_intent lib a (vi_record v) (vi_ref v)")
  case True
  then show ?thesis
    using assms attempt_matches_unique [OF True]
    by (cases found) (auto simp: status_of_attempt_def Let_def status_result_def well_formed_status_def
        outcome_state_def open_status_def intro!: returns_any)
next
  case False
  then show ?thesis
    using assms(1) unfolding status_of_attempt_def by (simp add: status_result_def open_status_def)
qed

lemma intent_status_result:
  assumes "open_status st" "st_intent st = Some (vi_record v, vi_ref v)" "valid_intent lib (vi_record v)"
    and "rr_kind (vi_ref v) = intent_kind"
  shows "returns (status_result lib) (status_of_intent lib s v st)"
proof -
  have failed: "status_result lib (st', Some e)" if "\<not> st_complete st'" for st' e
    using that by (simp add: status_result_def)
  have scanned: "returns (status_result lib)
      (bind (session_load lib s attempt_kind i d) (\<lambda>ld.
         case ld_result ld of
           Inl e \<Rightarrow>
             if e = RecordNotFound then
               if found \<noteq> None then Return (st\<lparr>st_scan := u\<rparr>, Some CorruptExchange)
               else bind (session_verify_set lib s [vi_ref v]) (\<lambda>(set, err).
                 if err \<noteq> None \<or> \<not> sr_complete set
                 then Return (st\<lparr>st_scan := u\<rparr>, Some (if err = Some CtxCancelled then StoreError CtxCancelled else CorruptExchange))
                 else Return (st\<lparr>st_scan := u, st_state := ''prepared'', st_complete := True\<rparr>, None))
             else Return (st\<lparr>st_scan := u\<rparr>, Some (if e = CtxCancelled then StoreError e else load_error ld e))
         | Inr _ \<Rightarrow>
             (case decoded_value ld of
                None \<Rightarrow> Return (st\<lparr>st_scan := u\<rparr>, Some CorruptExchange)
              | Some loaded \<Rightarrow> status_of_attempt lib s v loaded aref found (st\<lparr>st_scan := u\<rparr>))))"
    if "\<forall>oc ref. found = Some (oc, ref) \<longrightarrow>
      outcome_matches lib oc (vi_record v) (vi_ref v) (attempt_from_intent (vi_record v) (vi_ref v)) aref"
    for found u i d aref
    using assms attempt_status_result [of "st\<lparr>st_scan := u\<rparr>" v lib found aref] that
    by (auto simp: status_result_def well_formed_status_def open_status_def
        split: sum.split option.split intro!: returns_any)
  let ?a = "attempt_from_intent (vi_record v) (vi_ref v)"
  have incomplete: "\<not> st_complete st" using assms(1) by (simp add: open_status_def)
  show ?thesis
  proof (cases "encode_attempt lib (sn_limits s) ?a")
    case (Inl e)
    then show ?thesis using incomplete by (simp add: status_of_intent_def failed)
  next
    case raw: (Inr raw)
    show ?thesis
    proof (cases "compute_record_ref (ex_go lib) attempt_kind raw")
      case None
      then show ?thesis using incomplete raw by (simp add: status_of_intent_def failed)
    next
      case (Some aref)
      show ?thesis
        unfolding status_of_intent_def Let_def raw sum.case Some option.case
      proof (rule returns_bindI [OF scan_outcomes_result], goal_cases)
        case (1 x)
        obtain u stop r where x: "x = (u, stop, r)" by (cases x) auto
        show ?case
        proof (cases r)
          case (Inl e)
          then show ?thesis using incomplete by (simp add: x failed)
        next
          case (Inr found)
          show ?thesis unfolding x Inr prod.case sum.case by (rule scanned) (use 1 in \<open>simp add: x Inr\<close>)
        qed
      qed
    qed
  qed
qed

lemma retention_status_result:
  assumes "open_status st" "valid_retention lib r"
  shows "returns (status_result lib) (status_of_retention lib s r ref st)"
  using assms
  by (auto simp: status_of_retention_def Let_def status_result_def well_formed_status_def open_status_def
      apply_retention_status_def outcome_state_def valid_retention_def attempt_matches_intent_def
      split: sum.split intro!: returns_any)

lemma status_after_retention:
  assumes "\<forall>r ref. found = Inr (Some (r, ref)) \<longrightarrow> valid_retention lib r" "open_status st"
  shows "returns (status_result lib)
    (case found of
       Inl e \<Rightarrow> Return (st\<lparr>st_stop := retention_stop_reason (Some e)\<rparr>, Some e)
     | Inr (Some (r, rref)) \<Rightarrow> status_of_retention lib s r rref st
     | Inr None \<Rightarrow>
         bind (load_intent lib s rid) (\<lambda>loaded.
           case loaded of
             Inl e \<Rightarrow> Return (st, Some e)
           | Inr v \<Rightarrow> status_of_intent lib s v (st\<lparr>st_intent := Some (vi_record v, vi_ref v), st_store := vi_store v\<rparr>)))"
proof -
  have opened: "open_status (st\<lparr>st_intent := x, st_store := y\<rparr>)" for x y using assms(2) by (simp add: open_status_def)
  have "returns (status_result lib)
      (bind (load_intent lib s rid) (\<lambda>loaded.
         case loaded of
           Inl e \<Rightarrow> Return (st, Some e)
         | Inr v \<Rightarrow> status_of_intent lib s v (st\<lparr>st_intent := Some (vi_record v, vi_ref v), st_store := vi_store v\<rparr>)))"
    by (rule returns_bindI [OF load_intent_valid])
       (use assms(2) opened in \<open>auto simp: status_result_def open_status_def split: sum.split intro: intent_status_result\<close>)
  then show ?thesis
    using assms retention_status_result [OF assms(2)]
    by (auto simp: status_result_def open_status_def split: sum.split option.split)
qed

lemma status_after_forget:
  assumes "\<forall>f ref. found = Inr (Some (f, ref)) \<longrightarrow> valid_retention lib (fg_retention f)" "open_status st"
  shows "returns (status_result lib)
    (case found of
       Inl e \<Rightarrow> Return (st\<lparr>st_stop := retention_stop_reason (Some e)\<rparr>, Some e)
     | Inr (Some (f, fref)) \<Rightarrow>
         Return (if fg_store f \<noteq> store_of s then (st, Some CorruptExchange)
           else ((apply_retention_status st (fg_retention f) (fg_retention_ref f))
                   \<lparr>st_forget := Some (f, fref), st_state := ''forgetting'', st_complete := True\<rparr>, None))
     | Inr None \<Rightarrow>
         bind (find_retention_by_intent lib s rid u) (\<lambda>(usage, retention).
           case retention of
             Inl e \<Rightarrow> Return (st\<lparr>st_usage := usage, st_stop := retention_stop_reason (Some e)\<rparr>, Some e)
           | Inr (Some (r, rref)) \<Rightarrow> status_of_retention lib s r rref (st\<lparr>st_usage := usage\<rparr>)
           | Inr None \<Rightarrow>
               bind (load_intent lib s rid) (\<lambda>loaded.
                 case loaded of
                   Inl e \<Rightarrow> Return (st\<lparr>st_usage := usage\<rparr>, Some e)
                 | Inr v \<Rightarrow> status_of_intent lib s v
                     (st\<lparr>st_usage := usage, st_intent := Some (vi_record v, vi_ref v), st_store := vi_store v\<rparr>))))"
proof -
  have "returns (status_result lib)
      (bind (find_retention_by_intent lib s rid u) (\<lambda>(usage, retention).
         case retention of
           Inl e \<Rightarrow> Return (st\<lparr>st_usage := usage, st_stop := retention_stop_reason (Some e)\<rparr>, Some e)
         | Inr (Some (r, rref)) \<Rightarrow> status_of_retention lib s r rref (st\<lparr>st_usage := usage\<rparr>)
         | Inr None \<Rightarrow>
             bind (load_intent lib s rid) (\<lambda>loaded.
               case loaded of
                 Inl e \<Rightarrow> Return (st\<lparr>st_usage := usage\<rparr>, Some e)
               | Inr v \<Rightarrow> status_of_intent lib s v
                   (st\<lparr>st_usage := usage, st_intent := Some (vi_record v, vi_ref v), st_store := vi_store v\<rparr>))))"
  proof (rule returns_bindI [OF find_by_intent_result(1)], goal_cases)
    case (1 x)
    obtain usage r where x: "x = (usage, r)" by (cases x)
    have "open_status (st\<lparr>st_usage := usage\<rparr>)" using assms(2) by (simp add: open_status_def)
    then show ?case using 1 status_after_retention [of r lib "st\<lparr>st_usage := usage\<rparr>"] by (simp add: x)
  qed
  then show ?thesis
    using assms
    by (auto simp: status_result_def open_status_def well_formed_status_def apply_retention_status_def outcome_state_def
        valid_retention_def attempt_matches_intent_def split: sum.split option.split)
qed

lemma exchange_status_result: "returns (status_result lib) (exchange_status lib s rid)"
proof -
  have start: "open_status ((initial_status s)\<lparr>st_usage := u\<rparr>)" for u by (simp add: open_status_def initial_status_def)
  show ?thesis
    unfolding exchange_status_def Let_def
  proof (rule returns_any, goal_cases)
    case (1 err)
    show ?case
    proof (cases err)
      case (Some e)
      then show ?thesis by (simp add: status_result_def initial_status_def)
    next
      case None
      show ?thesis
        unfolding None option.case
      proof (rule returns_bindI [OF find_by_intent_result(2)], goal_cases)
        case (1 x)
        obtain usage r where x: "x = (usage, r)" by (cases x)
        show ?case
          unfolding x prod.case by (rule status_after_forget [OF _ start]) (use 1 in \<open>simp add: x\<close>)
      qed
    qed
  qed
qed

text \<open>
  Claim C32. Whatever the store answers, a status ends either with an error and incomplete, or complete and consistent: the
  intent is valid, an attempt is the one of the intent and an outcome is one of the attempt; the state is \<open>prepared\<close>
  without an attempt, \<open>attempt_reserved_submission_unknown\<close> with an attempt alone, the state of the outcome with both, and
  that of the tombstones when there are any.
\<close>

theorem exchange_status_well_formed: "returns (status_result lib) (exchange_status lib s rid)"
  by (rule exchange_status_result)

section \<open>Cancelled reads\<close>

text \<open>
  A context that is cancelled while a tombstone is read makes the decoder fail with the cancellation; \<open>Prune\<close> and
  \<open>Status\<close> then stop with \<open>integrity_failed\<close> although the record may be intact.
\<close>

lemma cancelled_read_reported_as_corrupt:
  assumes "valid_store_limits l" "ld_consumed ld = Some (decode_retention lib l (Some CtxCancelled) given)"
  shows "load_error ld CtxCancelled = CorruptExchange"
    and "retention_stop_reason (Some (load_error ld CtxCancelled)) = ''integrity_failed''"
    and "retention_stop_reason (Some (StoreError CtxCancelled)) = ''context_cancelled''"
  using assms
  by (simp_all add: decode_retention_def decode_record_def load_error_def retention_stop_reason_def)

end
