(* ===== verification/ClientPath.thy ===== *)
theory ClientPath
  imports PathRules
begin

text \<open>
  \<open>internal/reconcile/path.go\<close>: paths in the namespace of a downloader, which may run on another operating system. They
  are parsed, compared and joined as text only. One pass over the sorted keys of a set of files decides whether any two of
  them collide or lie below each other.
\<close>

section \<open>Definitions\<close>

record client_path =
  cp_windows :: bool
  cp_volume :: bytes
  cp_parts :: "bytes list"

datatype client_path_error =
    ClientPathInvalid
  | ClientPathControl
  | PosixNotAbsolute
  | UncInvalid
  | NotDriveAbsolute
  | EmptyOrRelative
  | WindowsComponent
  | WindowsControl
  | RelativeCount
  | RelativeComponent nat
  | RelativeTooLong
  | RelativeRejected path_error
  | JoinedTooLong
  | ClientPathsCollide int int
  | ClientPathsPrefix int int

definition max_client_path_bytes :: nat where
  "max_client_path_bytes = 32768"

definition is_ascii_letter :: "char \<Rightarrow> bool" where
  "is_ascii_letter c \<longleftrightarrow> (CHR ''A'' \<le> c \<and> c \<le> CHR ''Z'') \<or> (CHR ''a'' \<le> c \<and> c \<le> CHR ''z'')"

text \<open>\<open>unicode.IsControl\<close>\<close>

definition is_control :: "nat \<Rightarrow> bool" where
  "is_control r \<longleftrightarrow> r < 32 \<or> (127 \<le> r \<and> r < 160)"

fun strict_parts_error :: "bool \<Rightarrow> bytes list \<Rightarrow> client_path_error option" where
  "strict_parts_error win [] = None"
| "strict_parts_error win (part # rest) =
     (if part = [] \<or> part = ''.'' \<or> part = ''..'' then Some EmptyOrRelative
      else if win \<and> (contains_any part ''<>:\"|?*'' \<or> has_suffix part ''.'' \<or> has_suffix part '' '') then Some WindowsComponent
      else if win \<and> list_ex is_control (runes part) then Some WindowsControl
      else strict_parts_error win rest)"

definition strict_path_parts :: "bytes \<Rightarrow> char \<Rightarrow> bool \<Rightarrow> client_path_error + bytes list" where
  "strict_path_parts value separator win =
     (let value = trim_suffix value [separator] in
      if value = [] then Inr []
      else
        let parts = split_on separator value in
        case strict_parts_error win parts of Some e \<Rightarrow> Inl e | None \<Rightarrow> Inr parts)"

definition parse_windows_client_path :: "bytes \<Rightarrow> client_path_error + client_path" where
  "parse_windows_client_path value =
     (let value = replace_byte CHR ''/'' BSL value in
      if has_prefix value [BSL, BSL] then
        (case strict_path_parts (trim_prefix value [BSL, BSL]) BSL True of
           Inl _ \<Rightarrow> Inl UncInvalid
         | Inr parts \<Rightarrow>
             if length parts < 2 then Inl UncInvalid
             else Inr \<lparr>cp_windows = True, cp_volume = [BSL, BSL] @ parts ! 0 @ [BSL] @ parts ! 1, cp_parts = drop 2 parts\<rparr>)
      else if length value < 3 \<or> \<not> is_ascii_letter (value ! 0) \<or> value ! 1 \<noteq> CHR '':'' \<or> value ! 2 \<noteq> BSL
      then Inl NotDriveAbsolute
      else
        (case strict_path_parts (drop 3 value) BSL True of
           Inl e \<Rightarrow> Inl e
         | Inr parts \<Rightarrow> Inr \<lparr>cp_windows = True, cp_volume = map ascii_upper (take 2 value), cp_parts = parts\<rparr>))"

definition parse_client_path :: "bytes \<Rightarrow> bool \<Rightarrow> client_path_error + client_path" where
  "parse_client_path value win =
     (if value = [] \<or> length value > max_client_path_bytes \<or> \<not> utf8_valid value \<or> 65533 \<in> set (runes value)
      then Inl ClientPathInvalid
      else if list_ex (\<lambda>r. r = 0 \<or> r < 32 \<or> r = 127) (runes value) then Inl ClientPathControl
      else if win then parse_windows_client_path value
      else if \<not> has_prefix value ''/'' \<or> BSL \<in> set value then Inl PosixNotAbsolute
      else
        (case strict_path_parts (trim_prefix value ''/'') CHR ''/'' False of
           Inl e \<Rightarrow> Inl e
         | Inr parts \<Rightarrow> Inr \<lparr>cp_windows = False, cp_volume = [], cp_parts = parts\<rparr>))"

definition canonical :: "client_path \<Rightarrow> bytes" where
  "canonical p =
     (if \<not> cp_windows p then ''/'' @ join ''/'' (cp_parts p)
      else if cp_parts p = [] then
        (if has_prefix (cp_volume p) [BSL, BSL] then cp_volume p else cp_volume p @ [BSL])
      else cp_volume p @ [BSL] @ join [BSL] (cp_parts p))"

definition normalize_client_path :: "bytes \<Rightarrow> bool \<Rightarrow> client_path_error + bytes" where
  "normalize_client_path value win = (case parse_client_path value win of Inl e \<Rightarrow> Inl e | Inr p \<Rightarrow> Inr (canonical p))"

definition client_path_equal :: "client_path \<Rightarrow> client_path \<Rightarrow> bool" where
  "client_path_equal p q \<longleftrightarrow> cp_windows p = cp_windows q \<and> cp_volume p = cp_volume q \<and> cp_parts p = cp_parts q"

definition equal_client_paths :: "bytes \<Rightarrow> bytes \<Rightarrow> bool \<Rightarrow> client_path_error + bool" where
  "equal_client_paths left right win =
     (case parse_client_path left win of
        Inl e \<Rightarrow> Inl e
      | Inr first \<Rightarrow>
          (case parse_client_path right win of Inl e \<Rightarrow> Inl e | Inr second \<Rightarrow> Inr (client_path_equal first second)))"

definition public_path :: "golib \<Rightarrow> client_path \<Rightarrow> bool \<Rightarrow> bytes" where
  "public_path lib p show_it =
     (if show_it then canonical p
      else ''sha256:'' @ hex_encode (gl_sha256 lib (''ptctl-client-path-v1'' @ [NUL] @ canonical p)))"

definition client_path_reference :: "golib \<Rightarrow> bytes \<Rightarrow> bool \<Rightarrow> client_path_error + bytes" where
  "client_path_reference lib value win =
     (case parse_client_path value win of Inl e \<Rightarrow> Inl e | Inr p \<Rightarrow> Inr (public_path lib p False))"

text \<open>The loop over relative components, with the index and the bytes so far.\<close>

fun relative_error :: "nat \<Rightarrow> nat \<Rightarrow> bytes list \<Rightarrow> client_path_error option" where
  "relative_error index total_bytes [] = None"
| "relative_error index total_bytes (c # cs) =
     (if c = [] \<or> \<not> utf8_valid c \<or> 65533 \<in> set (runes c) \<or> contains_any c [CHR ''/'', BSL] then Some (RelativeComponent index)
      else if total_bytes + length c > max_client_path_bytes then Some RelativeTooLong
      else relative_error (index + 1) (total_bytes + length c) cs)"

definition parse_client_relative_components :: "golib \<Rightarrow> bytes list \<Rightarrow> bool \<Rightarrow> client_path_error + bytes list" where
  "parse_client_relative_components lib components win =
     (if components = [] \<or> length components > 128 then Inl RelativeCount
      else case relative_error 0 0 components of
          Some e \<Rightarrow> Inl e
        | None \<Rightarrow>
            (case validate_components lib components \<lparr>windows = win, case_sensitive = True, unicode_normalization = False\<rparr> of
               Inl e \<Rightarrow> Inl (RelativeRejected e)
             | Inr _ \<Rightarrow> Inr components))"

definition join_relative :: "client_path \<Rightarrow> bytes list \<Rightarrow> client_path" where
  "join_relative p components = p\<lparr>cp_parts := cp_parts p @ components\<rparr>"

definition join_client_path :: "golib \<Rightarrow> bytes \<Rightarrow> bytes list \<Rightarrow> bool \<Rightarrow> client_path_error + bytes" where
  "join_client_path lib base relative win =
     (case parse_client_path base win of
        Inl e \<Rightarrow> Inl e
      | Inr p \<Rightarrow>
          (case parse_client_relative_components lib relative win of
             Inl e \<Rightarrow> Inl e
           | Inr components \<Rightarrow>
               let joined = join_relative p components in
               if length (canonical joined) > max_client_path_bytes then Inl JoinedTooLong else Inr (canonical joined)))"

definition client_path_within :: "client_path \<Rightarrow> client_path \<Rightarrow> bool" where
  "client_path_within p root \<longleftrightarrow>
     cp_windows p = cp_windows root \<and> cp_volume p = cp_volume root \<and> length (cp_parts root) \<le> length (cp_parts p) \<and>
     take (length (cp_parts root)) (cp_parts p) = cp_parts root"

definition simple_fold_key :: "golib \<Rightarrow> bytes \<Rightarrow> bytes" where
  "simple_fold_key lib value =
     concat (map (\<lambda>r. utf8_encode (foldl (\<lambda>m f. if f < m then f else m) r (gl_fold_orbit lib r))) (runes value))"

definition fold_if :: "golib \<Rightarrow> bool \<Rightarrow> bytes \<Rightarrow> bytes" where
  "fold_if lib win v = (if win then simple_fold_key lib v else v)"

definition client_namespace_key :: "golib \<Rightarrow> client_path \<Rightarrow> bytes" where
  "client_namespace_key lib p =
     fold_if lib (cp_windows p) (cp_volume p) @ [NUL] @ join [NUL] (map (fold_if lib (cp_windows p)) (cp_parts p))"

definition client_path_prefix :: "golib \<Rightarrow> client_path \<Rightarrow> client_path \<Rightarrow> bool" where
  "client_path_prefix lib parent child \<longleftrightarrow>
     cp_windows parent = cp_windows child \<and> length (cp_parts parent) < length (cp_parts child) \<and>
     fold_if lib (cp_windows parent) (cp_volume parent) = fold_if lib (cp_windows parent) (cp_volume child) \<and>
     map (fold_if lib (cp_windows parent)) (cp_parts parent) =
       map (fold_if lib (cp_windows parent)) (take (length (cp_parts parent)) (cp_parts child))"

text \<open>The first loop of \<open>validateClientPathSet\<close>, in the order in which the map is visited.\<close>

fun collect_client_keys :: "golib \<Rightarrow> (int \<times> client_path) list \<Rightarrow> (bytes \<rightharpoonup> int) \<Rightarrow> (bytes \<times> int \<times> client_path) list \<Rightarrow>
    client_path_error + (bytes \<times> int \<times> client_path) list" where
  "collect_client_keys lib [] seen items = Inr items"
| "collect_client_keys lib ((index, p) # rest) seen items =
     (let key = client_namespace_key lib p in
      case seen key of
        Some previous \<Rightarrow> Inl (ClientPathsCollide previous index)
      | None \<Rightarrow> collect_client_keys lib rest (seen(key \<mapsto> index)) (items @ [(key, index, p)]))"

fun adjacent_client_prefix :: "golib \<Rightarrow> (bytes \<times> int \<times> client_path) list \<Rightarrow> client_path_error + unit" where
  "adjacent_client_prefix lib ((k1, i1, p1) # (k2, i2, p2) # rest) =
     (if client_path_prefix lib p1 p2 then Inl (ClientPathsPrefix i1 i2)
      else adjacent_client_prefix lib ((k2, i2, p2) # rest))"
| "adjacent_client_prefix lib _ = Inr ()"

definition validate_parsed_set :: "golib \<Rightarrow> (int \<times> client_path) list \<Rightarrow> client_path_error + unit" where
  "validate_parsed_set lib paths =
     (case collect_client_keys lib paths Map.empty [] of
        Inl e \<Rightarrow> Inl e
      | Inr items \<Rightarrow> adjacent_client_prefix lib (sort_key fst items))"

fun parse_all :: "(int \<times> bytes) list \<Rightarrow> bool \<Rightarrow> client_path_error + (int \<times> client_path) list" where
  "parse_all [] win = Inr []"
| "parse_all ((index, value) # rest) win =
     (case parse_client_path value win of
        Inl e \<Rightarrow> Inl e
      | Inr p \<Rightarrow> (case parse_all rest win of Inl e \<Rightarrow> Inl e | Inr ps \<Rightarrow> Inr ((index, p) # ps)))"

definition validate_client_path_set :: "golib \<Rightarrow> (int \<times> bytes) list \<Rightarrow> bool \<Rightarrow> client_path_error + unit" where
  "validate_client_path_set lib values win =
     (case parse_all values win of Inl e \<Rightarrow> Inl e | Inr paths \<Rightarrow> validate_parsed_set lib paths)"

end
