(* ===== verification/ClientPathProps.thy ===== *)
theory ClientPathProps
  imports ClientPath "HOL-Library.Sublist"
begin

text \<open>
  The neighbour scan over client paths decides the quadratic condition: accepted sets are exactly those in which no two
  folded paths are in conflict.
\<close>

section \<open>Keys as segments\<close>

definition segments :: "golib \<Rightarrow> client_path \<Rightarrow> bytes list" where
  "segments lib p =
     fold_if lib (cp_windows p) (cp_volume p) #
     (if cp_parts p = [] then [[]] else map (fold_if lib (cp_windows p)) (cp_parts p))"

definition nul_free :: "golib \<Rightarrow> client_path \<Rightarrow> bool" where
  "nul_free lib p \<longleftrightarrow> (\<forall>s \<in> set (segments lib p). NUL \<notin> set s)"

lemma key_segments: "client_namespace_key lib p = join [NUL] (segments lib p)"
  by (cases "cp_parts p") (simp_all add: client_namespace_key_def segments_def)

lemma split_key: "nul_free lib p \<Longrightarrow> split_on NUL (client_namespace_key lib p) = segments lib p"
  unfolding key_segments by (rule split_on_join) (auto simp: nul_free_def segments_def)

lemma split_on_append: "split_on c (p @ c # s) = split_on c p @ split_on c s"
  by (induction p) (auto split: list.splits)

lemma longer_segments:
  assumes "nul_free lib p" "nul_free lib r" "client_namespace_key lib r = client_namespace_key lib p @ NUL # t"
  shows "segments lib r = segments lib p @ split_on NUL t"
  using assms(3) split_key [OF assms(1)] split_key [OF assms(2)] by (simp add: split_on_append)

lemma prefix_of_longer:
  assumes "segments lib r = segments lib p @ tail_of" "tail_of \<noteq> []" "cp_parts p \<noteq> []" "cp_windows p = cp_windows r"
  shows "client_path_prefix lib p r"
proof -
  have parts: "cp_parts r \<noteq> []" using assms(1-3) by (cases "cp_parts p") (auto simp: segments_def)
  then have eq: "map (fold_if lib (cp_windows p)) (cp_parts r) = map (fold_if lib (cp_windows p)) (cp_parts p) @ tail_of"
      "fold_if lib (cp_windows p) (cp_volume r) = fold_if lib (cp_windows p) (cp_volume p)"
    using assms(1,3,4) by (simp_all add: segments_def)
  have "length (map (fold_if lib (cp_windows p)) (cp_parts r)) = length (map (fold_if lib (cp_windows p)) (cp_parts p) @ tail_of)"
    using eq(1) by (rule arg_cong)
  then have "length (cp_parts p) < length (cp_parts r)" using assms(2) by (cases tail_of) simp_all
  moreover have "map (fold_if lib (cp_windows p)) (take (length (cp_parts p)) (cp_parts r)) =
      map (fold_if lib (cp_windows p)) (cp_parts p)"
    unfolding take_map [symmetric] eq(1) by simp
  ultimately show ?thesis using assms(4) eq(2) by (simp add: client_path_prefix_def)
qed

text \<open>The key of a root is a prefix of the keys below it; any other key is followed there by a NUL.\<close>

lemma prefix_key:
  assumes "client_path_prefix lib p q"
  shows "\<exists>t. client_namespace_key lib q = client_namespace_key lib p @ (if cp_parts p = [] then t else NUL # t)"
proof -
  let ?f = "fold_if lib (cp_windows p)"
  let ?n = "length (cp_parts p)"
  have w: "cp_windows q = cp_windows p" "?f (cp_volume q) = ?f (cp_volume p)" "?n < length (cp_parts q)"
      "map ?f (take ?n (cp_parts q)) = map ?f (cp_parts p)"
    using assms by (auto simp: client_path_prefix_def)
  have parts: "map ?f (cp_parts q) = map ?f (cp_parts p) @ map ?f (drop ?n (cp_parts q))"
    using w(4) by (metis append_take_drop_id map_append)
  have rest: "map ?f (drop ?n (cp_parts q)) \<noteq> []" using w(3) by simp
  show ?thesis
  proof (cases "cp_parts p = []")
    case True
    then show ?thesis using w(1,2) by (simp add: client_namespace_key_def)
  next
    case False
    then have "join [NUL] (map ?f (cp_parts q)) =
        join [NUL] (map ?f (cp_parts p)) @ [NUL] @ join [NUL] (map ?f (drop ?n (cp_parts q)))"
      unfolding parts using rest by (intro join_append) simp_all
    then show ?thesis using False w(1,2) by (simp add: client_namespace_key_def)
  qed
qed

lemma lex_between_prefix: "k < x \<Longrightarrow> x \<le> k @ t \<Longrightarrow> \<exists>u. x = k @ u \<and> u \<noteq> ([] :: bytes)"
proof (induction k arbitrary: x)
  case Nil
  then show ?case by (cases x) auto
next
  case (Cons a k)
  then obtain c u where x: "x = c # u" by (cases x) auto
  from Cons.prems x have "c = a" by auto
  with Cons x show ?case by auto
qed

lemma between_prefix:
  assumes "client_path_prefix lib p q" "nul_free lib p" "nul_free lib r" "cp_windows p = cp_windows r"
    and "client_namespace_key lib p < client_namespace_key lib r" "client_namespace_key lib r \<le> client_namespace_key lib q"
  shows "client_path_prefix lib p r"
proof -
  obtain t where t: "client_namespace_key lib q = client_namespace_key lib p @ (if cp_parts p = [] then t else NUL # t)"
    using prefix_key [OF assms(1)] by blast
  show ?thesis
  proof (cases "cp_parts p = []")
    case False
    then have "has_prefix (client_namespace_key lib r) (client_namespace_key lib p @ [NUL])"
      using assms(5,6) t by (intro lex_between) auto
    then obtain u where "client_namespace_key lib r = client_namespace_key lib p @ NUL # u" by (auto simp: has_prefix_iff)
    from prefix_of_longer [OF longer_segments [OF assms(2,3) this] _ False assms(4)] show ?thesis by simp
  next
    case True
    then obtain u where u: "client_namespace_key lib r = client_namespace_key lib p @ u" "u \<noteq> []"
      using lex_between_prefix [OF assms(5)] assms(6) t by auto
    let ?v = "fold_if lib (cp_windows p) (cp_volume p)"
    have "client_namespace_key lib p = ?v @ [NUL]" using True by (simp add: client_namespace_key_def)
    moreover have "NUL \<notin> set ?v" using assms(2) by (simp add: nul_free_def segments_def)
    ultimately have "segments lib r = ?v # split_on NUL u"
      using u(1) split_key [OF assms(3)] by (simp add: split_on_append_sep)
    then have "fold_if lib (cp_windows p) (cp_volume r) = ?v" "(if cp_parts r = [] then [[]] else map (fold_if lib (cp_windows p)) (cp_parts r)) = split_on NUL u"
      by (simp_all only: segments_def list.inject assms(4))
    moreover have "split_on NUL u \<noteq> [[]]" using u(2) by (metis join.simps(2) join_split_on)
    ultimately show ?thesis using True assms(4) by (auto simp: client_path_prefix_def split: if_splits)
  qed
qed

lemma append_not_less: "(k :: bytes) \<le> k @ t"
  by (induction k) auto

lemma prefix_less:
  assumes "client_path_prefix lib p q" "client_namespace_key lib p \<noteq> client_namespace_key lib q"
  shows "client_namespace_key lib p < client_namespace_key lib q"
proof -
  obtain t where "client_namespace_key lib q = client_namespace_key lib p @ t" using prefix_key [OF assms(1)] by blast
  then have "client_namespace_key lib p \<le> client_namespace_key lib q" by (simp add: append_not_less)
  then show ?thesis using assms(2) by simp
qed

section \<open>The scan\<close>

lemma adjacent_client_sound:
  "adjacent_client_prefix lib items = Inl e \<Longrightarrow>
    \<exists>p \<in> set (map (snd \<circ> snd) items). \<exists>q \<in> set (map (snd \<circ> snd) items). client_path_prefix lib p q"
  by (induction lib items rule: adjacent_client_prefix.induct) (auto split: if_splits)

text \<open>The items carry the keys of their paths.\<close>

definition keyed :: "golib \<Rightarrow> bool \<Rightarrow> (bytes \<times> int \<times> client_path) list \<Rightarrow> bool" where
  "keyed lib win items \<longleftrightarrow>
     (\<forall>(k, i, p) \<in> set items. k = client_namespace_key lib p \<and> nul_free lib p \<and> cp_windows p = win)"

lemma adjacent_client_complete:
  assumes "adjacent_client_prefix lib items = Inr ()" "sorted_wrt (<) (map fst items)" "keyed lib win items"
    and "(k, i, p) \<in> set items" "(l, j, q) \<in> set items"
  shows "\<not> client_path_prefix lib p q"
  using assms
proof (induction lib items rule: adjacent_client_prefix.induct)
  case (1 lib k1 i1 p1 k2 i2 p2 rest)
  let ?rest = "(k2, i2, p2) # rest"
  have first: "\<not> client_path_prefix lib p1 p2" and later: "adjacent_client_prefix lib ?rest = Inr ()"
    using "1.prems"(1) by (auto split: if_splits)
  have keyed: "keyed lib win ?rest" using "1.prems"(3) by (simp add: keyed_def)
  have keys: "k = client_namespace_key lib p" "l = client_namespace_key lib q" "k1 = client_namespace_key lib p1"
      "k2 = client_namespace_key lib p2" "nul_free lib p1" "nul_free lib p2" "cp_windows p1 = cp_windows p2"
    using "1.prems"(3-5) by (auto simp: keyed_def)
  have less: "k1 < k2" "sorted_wrt (<) (map fst ?rest)" "\<forall>x \<in> set ?rest. k1 < fst x" "\<forall>x \<in> set ?rest. k2 \<le> fst x"
    using "1.prems"(2) by (auto intro: less_imp_le)
  show ?case
  proof
    assume c: "client_path_prefix lib p q"
    have "k \<noteq> l"
    proof
      assume "k = l"
      then have "(k, i, p) = (l, j, q)"
        using "1.prems"(2,4,5) by (metis distinct_map eq_key_imp_eq_value map_of_eq_Some_iff prod.inject
          map_of_is_SomeI option.inject strict_sorted_iff)
      then show False using c by (simp add: client_path_prefix_def)
    qed
    then have "k < l" using prefix_less [OF c] keys by simp
    then have q: "(l, j, q) \<in> set ?rest" using "1.prems"(4,5) less(3) by auto
    show False
    proof (cases "(k, i, p) = (k1, i1, p1)")
      case True
      have "k2 \<le> l" using less(4) q by force
      then have "client_path_prefix lib p1 p2"
        using c True keys less(1) by (intro between_prefix [of lib p1 q p2]) auto
      then show False using first by simp
    next
      case False
      then have "(k, i, p) \<in> set ?rest" using "1.prems"(4) by auto
      from "1.IH" [OF _ later less(2) keyed this q] first c show False by simp
    qed
  qed
qed (auto simp: client_path_prefix_def)

lemma collect_client_keys_Inr:
  "collect_client_keys lib paths seen items = Inr items' \<longleftrightarrow>
    distinct (map (client_namespace_key lib \<circ> snd) paths) \<and>
    (\<forall>x \<in> set paths. seen (client_namespace_key lib (snd x)) = None) \<and>
    items' = items @ map (\<lambda>(i, p). (client_namespace_key lib p, i, p)) paths"
proof (induction lib paths seen items rule: collect_client_keys.induct)
  case (2 lib i p rest seen items)
  show ?case
  proof (cases "seen (client_namespace_key lib p)")
    case None
    let ?k = "client_namespace_key lib p"
    have "(\<forall>x \<in> set rest. (seen(?k \<mapsto> i)) (client_namespace_key lib (snd x)) = None) \<longleftrightarrow>
        ?k \<notin> (client_namespace_key lib \<circ> snd) ` set rest \<and> (\<forall>x \<in> set rest. seen (client_namespace_key lib (snd x)) = None)"
      by (force split: if_splits)
    then show ?thesis using 2 [OF refl None] None by (simp add: Let_def del: fun_upd_apply) blast
  qed (auto simp: Let_def)
qed auto

lemma distinct_sorted_keys: "distinct (map fst kis) \<Longrightarrow> distinct (map fst (sort_key fst kis))"
  by (simp add: distinct_map)

lemma validate_parsed_iff:
  assumes "\<forall>x \<in> set paths. nul_free lib (snd x) \<and> cp_windows (snd x) = win"
  shows "validate_parsed_set lib paths = Inr () \<longleftrightarrow>
    distinct (map (client_namespace_key lib \<circ> snd) paths) \<and>
    (\<forall>p \<in> set (map snd paths). \<forall>q \<in> set (map snd paths). \<not> client_path_prefix lib p q)"
proof (cases "distinct (map (client_namespace_key lib \<circ> snd) paths)")
  case False
  then show ?thesis
    by (auto simp: validate_parsed_set_def collect_client_keys_Inr split: sum.split)
next
  case True
  let ?items = "map (\<lambda>(i, p). (client_namespace_key lib p, i, p)) paths"
  let ?sorted = "sort_key fst ?items"
  have collect: "collect_client_keys lib paths Map.empty [] = Inr ?items"
    using True by (simp add: collect_client_keys_Inr)
  have "map fst ?items = map (client_namespace_key lib \<circ> snd) paths" by (simp add: case_prod_beta comp_def)
  then have "distinct (map fst ?items)" using True by (simp only:)
  then have "distinct (map fst ?sorted)" by (rule distinct_sorted_keys)
  then have strict: "sorted_wrt (<) (map fst ?sorted)" by (simp add: strict_sorted_iff)
  have keyed: "keyed lib win ?sorted" using assms by (auto simp: keyed_def)
  have members: "set (map (snd \<circ> snd) ?sorted) = set (map snd paths)" by force
  show ?thesis
  proof (cases "adjacent_client_prefix lib ?sorted")
    case (Inl e)
    then show ?thesis
      using adjacent_client_sound [OF Inl] True collect unfolding members by (auto simp: validate_parsed_set_def)
  next
    case (Inr u)
    have "\<not> client_path_prefix lib p q" if "p \<in> set (map snd paths)" "q \<in> set (map snd paths)" for p q
      using adjacent_client_complete [OF _ strict keyed] Inr that by force
    then show ?thesis using Inr True collect by (auto simp: validate_parsed_set_def)
  qed
qed

section \<open>Parsed paths have no NUL\<close>

text \<open>\<open>unicode.SimpleFold\<close> never leads from another rune to zero.\<close>

definition folds_away_from_nul :: "golib \<Rightarrow> bool" where
  "folds_away_from_nul lib \<longleftrightarrow> (\<forall>r. r = 0 \<or> 0 \<notin> set (gl_fold_orbit lib r))"

lemma byte_val_zero [simp]: "byte_val NUL = 0"
  by (simp add: byte_val_def)

lemma first_rune_zero: "first_rune (c # cs) = Some (0, w) \<Longrightarrow> c = NUL"
  using byte_val_inject [of c NUL] by (auto simp: first_rune_def Let_def cont_byte_def split: if_splits list.splits)

lemma runes_no_zero: "NUL \<notin> set bs \<Longrightarrow> 0 \<notin> set (runes bs)"
proof (induction bs rule: runes.induct)
  case (2 c cs)
  show ?case
  proof (cases "first_rune (c # cs)")
    case None
    then show ?thesis using 2 by simp
  next
    case (Some rw)
    obtain r w where rw: "rw = (r, w)" by (cases rw)
    have "r \<noteq> 0" using Some rw first_rune_zero 2(3) by fastforce
    moreover have "NUL \<notin> set (drop (w - 1) cs)" using 2(3) by (auto dest: in_set_dropD)
    ultimately show ?thesis using 2(2) [OF Some [unfolded rw] refl] Some rw by simp
  qed
qed simp

lemma char_of_no_nul: "0 < n \<Longrightarrow> n < 256 \<Longrightarrow> char_of (n :: nat) \<noteq> NUL"
  using byte_val_char_of [of n] by force

lemma tail_no_nul: "char_of (128 + n mod 64 :: nat) \<noteq> NUL"
proof (rule char_of_no_nul)
  show "128 + n mod 64 < 256" using mod_less_divisor [of 64 n] by linarith
qed simp

lemma encode_no_nul: "r \<noteq> 0 \<Longrightarrow> NUL \<notin> set (utf8_encode r)"
proof -
  assume r: "r \<noteq> 0"
  have one: "char_of r \<noteq> NUL" if "r < 128" using char_of_no_nul [of r] r that by simp
  have two: "char_of (192 + r div 64) \<noteq> NUL" if "r < 2048" using that by (intro char_of_no_nul) linarith+
  have three: "char_of (224 + r div 4096) \<noteq> NUL" if "r < 65536" using that by (intro char_of_no_nul) linarith+
  have four: "char_of (240 + r div 262144) \<noteq> NUL" if "r \<le> 1114111" using that by (intro char_of_no_nul) linarith+
  show ?thesis
    using one two three four tail_no_nul [of r] tail_no_nul [of "r div 64"] tail_no_nul [of "r div 4096"]
    unfolding utf8_encode_def by (auto simp del: char_of_nat split: if_splits)
qed

lemma least_fold_member: "foldl (\<lambda>m f. if f < m then f else m) r fs \<in> insert (r :: nat) (set fs)"
proof (induction fs arbitrary: r)
  case (Cons a fs)
  show ?case using Cons [of "if a < r then a else r"] by (auto split: if_split_asm)
qed simp

lemma fold_no_nul:
  assumes "folds_away_from_nul lib" "NUL \<notin> set v"
  shows "NUL \<notin> set (fold_if lib win v)"
proof -
  have least: "foldl (\<lambda>m f. if f < m then f else m) r (gl_fold_orbit lib r) \<noteq> 0" if "r \<in> set (runes v)" for r
  proof -
    have "r \<noteq> 0" using runes_no_zero [OF assms(2)] that by metis
    then have "0 \<notin> insert r (set (gl_fold_orbit lib r))" using assms(1) [unfolded folds_away_from_nul_def, THEN spec, of r] by simp
    then show ?thesis using least_fold_member [of r "gl_fold_orbit lib r"] by metis
  qed
  have "NUL \<notin> set (simple_fold_key lib v)"
    unfolding simple_fold_key_def set_concat set_map using encode_no_nul [OF least] by blast
  then show ?thesis using assms(2) by (simp add: fold_if_def)
qed

lemma cont_byte_nul [simp]: "\<not> cont_byte NUL"
  by (simp add: cont_byte_def)

lemma first_rune_tail:
  assumes "first_rune (c # cs) = Some (r, w)"
  shows "\<forall>d \<in> set (take (w - 1) cs). cont_byte d"
proof -
  let ?a = "byte_val c"
  consider "?a < 128" | "194 \<le> ?a \<and> ?a \<le> 223" | "224 \<le> ?a \<and> ?a \<le> 239" | "240 \<le> ?a \<and> ?a \<le> 244"
    | "128 \<le> ?a" "\<not> (194 \<le> ?a \<and> ?a \<le> 223)" "\<not> (224 \<le> ?a \<and> ?a \<le> 239)" "\<not> (240 \<le> ?a \<and> ?a \<le> 244)" by linarith
  then show ?thesis
  proof cases
    case 1
    then show ?thesis using assms by (simp add: first_rune_def)
  next
    case 2
    then have "\<not> ?a < 128" by linarith
    then show ?thesis using 2 assms by (cases cs) (simp_all add: first_rune_def split: if_split_asm)
  next
    case 3
    then have "\<not> ?a < 128" "\<not> (194 \<le> ?a \<and> ?a \<le> 223)" by linarith+
    with 3 have "first_rune (c # cs) = (case cs of c1 # c2 # _ \<Rightarrow>
        if cont_byte c1 \<and> cont_byte c2 \<and> (?a = 224 \<longrightarrow> 160 \<le> byte_val c1) \<and> (?a = 237 \<longrightarrow> byte_val c1 \<le> 159)
        then Some ((?a - 224) * 4096 + (byte_val c1 - 128) * 64 + (byte_val c2 - 128), 3) else None | _ \<Rightarrow> None)"
      unfolding first_rune_def Let_def list.case by (simp only: if_True if_False simp_thms)
    then show ?thesis using assms by (cases cs rule: remdups_adj.cases) (auto split: if_split_asm)
  next
    case 4
    then have "\<not> ?a < 128" "\<not> (194 \<le> ?a \<and> ?a \<le> 223)" "\<not> (224 \<le> ?a \<and> ?a \<le> 239)" by linarith+
    then show ?thesis using 4 assms unfolding first_rune_def Let_def list.case by (simp only: if_True if_False simp_thms) (simp split: list.split_asm if_split_asm; fastforce?)
  next
    case 5
    then have "\<not> ?a < 128" by linarith
    then show ?thesis using 5 assms unfolding first_rune_def Let_def list.case by (simp only: if_False simp_thms option.distinct)
  qed
qed

lemma first_rune_bytes:
  assumes "first_rune (c # cs) = Some (r, w)" "r \<noteq> 0"
  shows "NUL \<notin> set (take w (c # cs))"
proof -
  have "c \<noteq> NUL" using assms by (auto simp: first_rune_def)
  moreover have "NUL \<notin> set (take (w - 1) cs)" using first_rune_tail [OF assms(1)] cont_byte_nul by blast
  moreover have "take w (c # cs) = c # take (w - 1) cs" using first_rune_width [OF assms(1)] by (cases w) simp_all
  ultimately show ?thesis by simp
qed

lemma valid_no_nul: "utf8_valid bs \<Longrightarrow> 0 \<notin> set (runes bs) \<Longrightarrow> NUL \<notin> set bs"
proof (induction bs rule: utf8_valid.induct)
  case (2 c cs)
  then obtain r w where rw: "first_rune (c # cs) = Some (r, w)" "utf8_valid (drop (w - 1) cs)"
    by (auto split: option.splits)
  then have "NUL \<notin> set (drop (w - 1) cs)" "r \<noteq> 0" using 2 by auto
  moreover have "c # cs = take w (c # cs) @ drop (w - 1) cs"
    using first_rune_width [OF rw(1)] by (cases w) simp_all
  ultimately show ?case using first_rune_bytes [OF rw(1)] by (metis Un_iff set_append)
qed simp

lemma strict_parts_error_None:
  "strict_parts_error win ps = None \<longleftrightarrow>
    (\<forall>p \<in> set ps. p \<noteq> [] \<and> p \<noteq> ''.'' \<and> p \<noteq> ''..'' \<and>
      (win \<longrightarrow> \<not> contains_any p ''<>:\"|?*'' \<and> \<not> has_suffix p ''.'' \<and> \<not> has_suffix p '' '' \<and> \<not> list_ex is_control (runes p)))"
  by (induction ps) auto

lemma set_trim_suffix: "set (trim_suffix v s) \<subseteq> set v"
  by (auto simp: trim_suffix_def dest: in_set_takeD)

lemma set_trim_prefix: "set (trim_prefix v s) \<subseteq> set v"
  by (auto simp: trim_prefix_def dest: in_set_dropD)

lemma set_join_member: "p \<in> set ps \<Longrightarrow> set p \<subseteq> set (join s ps)"
  by (induction s ps rule: join.induct) auto

lemma set_split_member: "p \<in> set (split_on c v) \<Longrightarrow> set p \<subseteq> set v"
  using set_join_member [of p "split_on c v" "[c]"] by simp

lemma strict_parts_members:
  assumes "strict_path_parts v sep win = Inr parts"
  shows "strict_parts_error win parts = None \<and> (\<forall>p \<in> set parts. set p \<subseteq> set v \<and> p \<noteq> [] \<and> sep \<notin> set p)"
proof (cases "trim_suffix v [sep] = []")
  case True
  then show ?thesis using assms by (simp add: strict_path_parts_def)
next
  case False
  then have "parts = split_on sep (trim_suffix v [sep])" "strict_parts_error win parts = None"
    using assms by (auto simp: strict_path_parts_def Let_def split: option.splits)
  then show ?thesis
    using set_split_member [of _ sep "trim_suffix v [sep]"] set_trim_suffix [of v "[sep]"] split_on_no_sep [of _ sep "trim_suffix v [sep]"]
    by (auto simp: strict_parts_error_None)
qed

lemma set_replace_byte: "set (replace_byte a b v) \<subseteq> insert b (set v)"
  by (auto simp: replace_byte_def)

lemma ascii_upper_nul: "ascii_upper c = NUL \<longleftrightarrow> c = NUL"
proof (cases "97 \<le> byte_val c \<and> byte_val c \<le> 122")
  case True
  then have "char_of (byte_val c - 32) \<noteq> NUL" by (intro char_of_no_nul) linarith+
  then show ?thesis using True by (auto simp: ascii_upper_def)
qed (auto simp: ascii_upper_def)

lemma windows_parsed_cases:
  assumes "parse_windows_client_path w = Inr p"
  obtains (unc) parts where "strict_path_parts (trim_prefix (replace_byte CHR ''/'' BSL w) [BSL, BSL]) BSL True = Inr parts" "2 \<le> length parts"
      "p = \<lparr>cp_windows = True, cp_volume = [BSL, BSL] @ parts ! 0 @ [BSL] @ parts ! 1, cp_parts = drop 2 parts\<rparr>"
  | (drive) parts where "strict_path_parts (drop 3 (replace_byte CHR ''/'' BSL w)) BSL True = Inr parts"
      "\<not> has_prefix (replace_byte CHR ''/'' BSL w) [BSL, BSL]" "3 \<le> length w" "is_ascii_letter (replace_byte CHR ''/'' BSL w ! 0)"
      "replace_byte CHR ''/'' BSL w ! 1 = CHR '':''" "replace_byte CHR ''/'' BSL w ! 2 = BSL"
      "p = \<lparr>cp_windows = True, cp_volume = map ascii_upper (take 2 (replace_byte CHR ''/'' BSL w)), cp_parts = parts\<rparr>"
proof -
  define v where "v = replace_byte CHR ''/'' BSL w"
  have len: "length v = length w" by (simp add: v_def replace_byte_def)
  show thesis
  proof (cases "has_prefix v [BSL, BSL]")
    case True
    then show thesis
      using assms unc unfolding parse_windows_client_path_def v_def [symmetric] Let_def
      by (simp only: if_True split: sum.split_asm if_split_asm) (simp_all only: sum.inject sum.distinct linorder_not_less)
  next
    case False
    then have "\<not> (length v < 3 \<or> \<not> is_ascii_letter (v ! 0) \<or> v ! 1 \<noteq> CHR '':'' \<or> v ! 2 \<noteq> BSL)"
      using assms unfolding parse_windows_client_path_def v_def [symmetric] Let_def
      by (simp only: if_False split: if_split_asm) (simp_all only: sum.distinct not_False_eq_True)
    moreover from this obtain parts where "strict_path_parts (drop 3 v) BSL True = Inr parts"
        "p = \<lparr>cp_windows = True, cp_volume = map ascii_upper (take 2 v), cp_parts = parts\<rparr>"
      using assms False unfolding parse_windows_client_path_def v_def [symmetric] Let_def
      by (cases "strict_path_parts (drop 3 v) BSL True") (simp_all only: if_False sum.case sum.inject sum.distinct)
    ultimately show thesis using drive [folded v_def] False len by (metis linorder_not_less)
  qed
qed

lemma windows_parsed_bytes:
  assumes "parse_windows_client_path w = Inr p" "NUL \<notin> set w"
  shows "cp_windows p \<and> NUL \<notin> set (cp_volume p) \<and> (\<forall>q \<in> set (cp_parts p). NUL \<notin> set q)"
proof -
  let ?v = "replace_byte CHR ''/'' BSL w"
  have v: "NUL \<notin> set ?v" using assms(2) set_replace_byte [of "CHR ''/''" BSL w] by auto
  from assms(1) show ?thesis
  proof (cases rule: windows_parsed_cases)
    case (unc parts)
    then have "\<forall>q \<in> set parts. NUL \<notin> set q"
      using strict_parts_members [OF unc(1)] set_trim_prefix [of ?v "[BSL, BSL]"] v by blast
    moreover have "parts ! 0 \<in> set parts" "parts ! 1 \<in> set parts" using unc(2) by (auto intro: nth_mem)
    ultimately show ?thesis using unc(3) by (auto dest: in_set_dropD)
  next
    case (drive parts)
    have sub: "set (drop 3 ?v) \<subseteq> set ?v" "set (take 2 ?v) \<subseteq> set ?v" by (rule set_drop_subset, rule set_take_subset)
    have "NUL \<notin> ascii_upper ` set (take 2 ?v)" using sub(2) v ascii_upper_nul by (metis imageE subsetD)
    moreover have "\<forall>q \<in> set parts. NUL \<notin> set q" using strict_parts_members [OF drive(1)] sub(1) v by blast
    ultimately show ?thesis unfolding drive(7) by simp
  qed
qed

lemma parsed_bytes:
  assumes "parse_client_path v win = Inr p"
  shows "cp_windows p = win \<and> NUL \<notin> set (cp_volume p) \<and> (\<forall>q \<in> set (cp_parts p). NUL \<notin> set q)"
proof -
  have "utf8_valid v" "0 \<notin> set (runes v)"
    using assms by (auto simp: parse_client_path_def list_ex_iff split: if_splits)
  then have v: "NUL \<notin> set v" by (rule valid_no_nul)
  show ?thesis
  proof (cases win)
    case True
    then have "parse_windows_client_path v = Inr p" using assms by (auto simp: parse_client_path_def split: if_splits)
    from windows_parsed_bytes [OF this v] True show ?thesis by simp
  next
    case False
    then obtain parts where parts: "strict_path_parts (trim_prefix v ''/'') CHR ''/'' False = Inr parts"
        "p = \<lparr>cp_windows = False, cp_volume = [], cp_parts = parts\<rparr>"
      using assms by (auto simp: parse_client_path_def split: if_splits sum.splits)
    then show ?thesis using strict_parts_members [OF parts(1)] set_trim_prefix [of v "''/''"] v False by auto
  qed
qed

lemma parsed_nul_free:
  assumes "parse_client_path v win = Inr p" "folds_away_from_nul lib"
  shows "nul_free lib p \<and> cp_windows p = win"
  using parsed_bytes [OF assms(1)] fold_no_nul [OF assms(2)] by (auto simp: nul_free_def segments_def)

lemma parse_all_members:
  "parse_all vs win = Inr paths \<Longrightarrow> (i, p) \<in> set paths \<Longrightarrow> \<exists>v. (i, v) \<in> set vs \<and> parse_client_path v win = Inr p"
  by (induction vs win arbitrary: paths rule: parse_all.induct) (fastforce split: sum.splits)+

section \<open>The contract\<close>

text \<open>
  A path as its folded volume and folded components: one path collides with another, or one of the two files would have to
  be a directory of the other, exactly when one of these lists is a prefix of the other.
\<close>

definition folded_path :: "golib \<Rightarrow> client_path \<Rightarrow> bytes list" where
  "folded_path lib p = fold_if lib (cp_windows p) (cp_volume p) # map (fold_if lib (cp_windows p)) (cp_parts p)"

lemma client_path_prefix_iff:
  assumes "cp_windows p = cp_windows q"
  shows "client_path_prefix lib p q \<longleftrightarrow> strict_prefix (folded_path lib p) (folded_path lib q)"
proof -
  define xs where "xs = map (fold_if lib (cp_windows p)) (cp_parts p)"
  define ys where "ys = map (fold_if lib (cp_windows p)) (cp_parts q)"
  have lengths: "length xs = length (cp_parts p)" "length ys = length (cp_parts q)" by (simp_all add: xs_def ys_def)
  have "strict_prefix xs ys \<longleftrightarrow> length xs < length ys \<and> xs = take (length xs) ys"
    by (metis prefix_def append_eq_conv_conj prefix_length_less strict_prefix_def nat_less_le take_is_prefix)
  then show ?thesis
    using lengths unfolding client_path_prefix_def folded_path_def take_map [symmetric] assms [symmetric]
      xs_def [symmetric] ys_def [symmetric] by auto
qed

lemma runes_nonempty: "v \<noteq> [] \<Longrightarrow> runes v \<noteq> []"
  by (cases v) (auto split: option.split)

lemma utf8_encode_nonempty: "utf8_encode r \<noteq> []"
  by (simp add: utf8_encode_def)

lemma fold_if_nonempty: "v \<noteq> [] \<Longrightarrow> fold_if lib win v \<noteq> []"
  using runes_nonempty [of v] utf8_encode_nonempty
  by (cases "runes v") (simp_all add: fold_if_def simple_fold_key_def)

lemma folded_parts_nonempty: "[] \<notin> set (cp_parts p) \<Longrightarrow> [] \<notin> set (map (fold_if lib win) (cp_parts p))"
  using fold_if_nonempty [of _ lib win] by (metis (no_types) image_iff set_map)

lemma key_inject:
  assumes "nul_free lib p" "nul_free lib q" "cp_windows p = cp_windows q" "[] \<notin> set (cp_parts p)" "[] \<notin> set (cp_parts q)"
  shows "client_namespace_key lib p = client_namespace_key lib q \<longleftrightarrow> folded_path lib p = folded_path lib q"
proof
  define xs where "xs = map (fold_if lib (cp_windows p)) (cp_parts p)"
  define ys where "ys = map (fold_if lib (cp_windows p)) (cp_parts q)"
  have empty: "cp_parts p = [] \<longleftrightarrow> xs = []" "cp_parts q = [] \<longleftrightarrow> ys = []" by (simp_all add: xs_def ys_def)
  have "[] \<notin> set xs" "[] \<notin> set ys" unfolding xs_def ys_def using folded_parts_nonempty assms(4,5) by blast+
  then have parts: "(if xs = [] then [[]] else xs) = (if ys = [] then [[]] else ys) \<Longrightarrow> xs = ys" by (auto split: if_split_asm)
  assume "client_namespace_key lib p = client_namespace_key lib q"
  then have "segments lib p = segments lib q" using split_key [OF assms(1)] split_key [OF assms(2)] by metis
  then show "folded_path lib p = folded_path lib q"
    using parts unfolding segments_def folded_path_def assms(3) [symmetric] empty
    by (simp only: list.inject xs_def [symmetric] ys_def [symmetric])
qed (simp only: client_namespace_key_def folded_path_def assms(3) list.inject)

lemma parsed_parts_nonempty:
  assumes "parse_client_path v win = Inr p"
  shows "[] \<notin> set (cp_parts p)"
proof (cases win)
  case True
  then have "parse_windows_client_path v = Inr p" using assms by (auto simp: parse_client_path_def split: if_splits)
  then show ?thesis
    by (cases rule: windows_parsed_cases) (auto dest!: strict_parts_members in_set_dropD)
next
  case False
  then show ?thesis using assms by (auto simp: parse_client_path_def dest!: strict_parts_members split: if_splits sum.splits)
qed

lemma distinct_map_pairs:
  "distinct (map f xs) \<longleftrightarrow> (\<forall>i < length xs. \<forall>j < length xs. i \<noteq> j \<longrightarrow> f (xs ! i) \<noteq> f (xs ! j))"
  by (auto simp: distinct_conv_nth)

text \<open>
  Claim C37. The scan accepts a set of client paths exactly when every path parses and no two of them are in conflict: with
  volumes and components folded the way the namespace folds them, no path equals another or lies below another. The scan
  compares neighbours of the sorted keys only, and decides this condition on all pairs, in whatever order the map is
  visited. The hypothesis is the documented behaviour of \<open>unicode.SimpleFold\<close>: only the zero rune folds to zero.
\<close>

theorem client_path_set_accepted_iff:
  assumes "folds_away_from_nul lib"
  shows "validate_client_path_set lib vs win = Inr () \<longleftrightarrow>
    (\<exists>paths. parse_all vs win = Inr paths \<and>
      (\<forall>i < length paths. \<forall>j < length paths. i \<noteq> j \<longrightarrow>
        \<not> prefix (folded_path lib (snd (paths ! i))) (folded_path lib (snd (paths ! j)))))"
proof (cases "parse_all vs win")
  case (Inr paths)
  have parsed: "\<exists>v. parse_client_path v win = Inr (snd x)" if "x \<in> set paths" for x
    using parse_all_members [OF Inr, of "fst x" "snd x"] that by auto
  have each: "nul_free lib (snd x) \<and> cp_windows (snd x) = win \<and> [] \<notin> set (cp_parts (snd x))" if "x \<in> set paths" for x
    using parsed [OF that] parsed_nul_free [OF _ assms] parsed_parts_nonempty by blast
  have key: "client_namespace_key lib (snd x) = client_namespace_key lib (snd y) \<longleftrightarrow>
      folded_path lib (snd x) = folded_path lib (snd y)" if "x \<in> set paths" "y \<in> set paths" for x y
    using each [OF that(1)] each [OF that(2)] by (intro key_inject) simp_all
  have below: "client_path_prefix lib (snd x) (snd y) \<longleftrightarrow> strict_prefix (folded_path lib (snd x)) (folded_path lib (snd y))"
    if "x \<in> set paths" "y \<in> set paths" for x y
    using each [OF that(1)] each [OF that(2)] by (intro client_path_prefix_iff) simp
  define F where "F i = folded_path lib (snd (paths ! i))" for i
  have key': "\<forall>i < length paths. \<forall>j < length paths.
      client_namespace_key lib (snd (paths ! i)) = client_namespace_key lib (snd (paths ! j)) \<longleftrightarrow> F i = F j"
    and below': "\<forall>i < length paths. \<forall>j < length paths.
      client_path_prefix lib (snd (paths ! i)) (snd (paths ! j)) \<longleftrightarrow> strict_prefix (F i) (F j)"
    by (auto simp only: F_def key below nth_mem)
  have same: "F i = F j \<Longrightarrow> prefix (F i) (F j)" for i j by simp
  have "validate_client_path_set lib vs win = Inr () \<longleftrightarrow>
      distinct (map (client_namespace_key lib \<circ> snd) paths) \<and>
      (\<forall>i < length paths. \<forall>j < length paths. \<not> client_path_prefix lib (snd (paths ! i)) (snd (paths ! j)))"
    using validate_parsed_iff [of paths lib win] each Inr
    by (simp add: validate_client_path_set_def all_set_conv_all_nth)
  also have "\<dots> \<longleftrightarrow> (\<forall>i < length paths. \<forall>j < length paths. i \<noteq> j \<longrightarrow> F i \<noteq> F j) \<and>
      (\<forall>i < length paths. \<forall>j < length paths. \<not> strict_prefix (F i) (F j))"
    using key' below' by (simp add: distinct_map_pairs)
  also have "\<dots> \<longleftrightarrow> (\<forall>i < length paths. \<forall>j < length paths. i \<noteq> j \<longrightarrow> \<not> prefix (F i) (F j))"
    unfolding strict_prefix_def using same by blast
  finally show ?thesis using Inr by (simp add: F_def)
qed (simp add: validate_client_path_set_def)

lemma sample_lib_folds: "folds_away_from_nul sample_lib"
  by (simp add: folds_away_from_nul_def sample_lib_def)

text \<open>The file \<open>/a/b\<close> next to \<open>/a-c\<close> is accepted; next to \<open>/a\<close> it is not, with a path sorted in between.\<close>

lemma sample_client_paths:
  "parse_all [(0, ''/a/b''), (1, ''/a-c'')] False =
     Inr [(0, \<lparr>cp_windows = False, cp_volume = [], cp_parts = [''a'', ''b'']\<rparr>),
          (1, \<lparr>cp_windows = False, cp_volume = [], cp_parts = [''a-c'']\<rparr>)]"
  "parse_all [(0, ''/a/b''), (1, ''/a-c''), (2, ''/a/'')] False =
     Inr [(0, \<lparr>cp_windows = False, cp_volume = [], cp_parts = [''a'', ''b'']\<rparr>),
          (1, \<lparr>cp_windows = False, cp_volume = [], cp_parts = [''a-c'']\<rparr>),
          (2, \<lparr>cp_windows = False, cp_volume = [], cp_parts = [''a'']\<rparr>)]"
  by (simp_all add: parse_client_path_def max_client_path_bytes_def strict_path_parts_def first_rune_def byte_val_def
      trim_prefix_def trim_suffix_def has_prefix_def has_suffix_def)

theorem client_path_set_accepted_iff_witness:
  "validate_client_path_set sample_lib [(0, ''/a/b''), (1, ''/a-c'')] False = Inr () \<and>
   validate_client_path_set sample_lib [(0, ''/a/b''), (1, ''/a-c''), (2, ''/a/'')] False \<noteq> Inr ()"
proof (rule conjI)
  show "validate_client_path_set sample_lib [(0, ''/a/b''), (1, ''/a-c'')] False = Inr ()"
    unfolding client_path_set_accepted_iff [OF sample_lib_folds] sample_client_paths(1)
    by (simp add: All_less_Suc folded_path_def fold_if_def numeral_2_eq_2)
  show "validate_client_path_set sample_lib [(0, ''/a/b''), (1, ''/a-c''), (2, ''/a/'')] False \<noteq> Inr ()"
    unfolding client_path_set_accepted_iff [OF sample_lib_folds] sample_client_paths(2)
    by (simp add: All_less_Suc folded_path_def fold_if_def numeral_3_eq_3)
qed

end
