(* ===== verification/SeedPlan.thy ===== *)
theory SeedPlan
  imports Source
begin

text \<open>
  \<open>internal/seed/plan.go\<close> with \<open>ProbeReadOnly\<close> of \<open>internal/storage/probe.go\<close>: from a verified source and a target root to
  the plan of a materialisation. Planning only reads; the plan names, for every entry of the manifest, what would be
  written, where, and from which verified file.
\<close>

section \<open>The target root\<close>

datatype probe_warning = CapabilitiesNotProbed | SemanticsNotMeasured

record probe_result =
  pr_path :: bytes
  pr_resolved :: bytes
  pr_exists :: bool
  pr_directory :: bool
  pr_semantics :: path_semantics
  pr_semantics_evidence :: bytes
  pr_write_probe :: bytes
  pr_random_read :: bytes
  pr_seedable_view :: bytes
  pr_warnings :: "probe_warning list"

datatype plan_error =
    PlanCancelled | UnsupportedStrategy | SourceNotForMetafile | SourceNotVerified | SelectionInvalid
  | ResolveSourceRoot | ResolveStorage | InspectStorage | StorageNotDirectory | UnsafeTargetLayout path_error
  | TargetRejected join_error | RelativizeTarget | InspectPrefix bytes | PrefixIsLink bytes
  | TargetExists bytes | InspectTarget bytes | SourceUnbound int | SourceRejected verify_error | TargetUnmapped int join_error

definition probe_read_only :: "'w names \<Rightarrow> 'w os \<Rightarrow> path_semantics \<Rightarrow> bytes \<Rightarrow> ('w, plan_error, probe_result) act" where
  "probe_read_only ns os sem path =
     bnd (call (nm_abs ns path) ResolveStorage) (\<lambda>root_abs.
     bnd (call (os_stat os root_abs) InspectStorage) (\<lambda>info.
     bnd (guard (fi_dir info) StorageNotDirectory) (\<lambda>_.
     bnd (lookup (nm_eval ns root_abs) ResolveStorage) (\<lambda>resolved.
     ret \<lparr>pr_path = root_abs, pr_resolved = resolved, pr_exists = True, pr_directory = True, pr_semantics = sem,
          pr_semantics_evidence = ''host_os_assumption'', pr_write_probe = ''not_run'', pr_random_read = ''unknown'',
          pr_seedable_view = ''unknown'', pr_warnings = [CapabilitiesNotProbed, SemanticsNotMeasured]\<rparr>))))"

section \<open>The plan\<close>

record plan_operation =
  po_manifest_index :: int
  po_torrent_path :: bytes
  po_kind :: bytes
  po_source :: bytes
  po_source_precondition :: "source_precondition option"
  po_target :: bytes
  po_client_target :: bytes
  po_bytes :: int64

text \<open>The texts of warnings and blockers, in the order of the source.\<close>

datatype plan_warning =
    NoChangesMade | WriteNeedsOwnProof | ExactRootRepeats | ProbeWarning probe_warning | NoRootIdentity | RootIdentityIncluded
  | MappingLexicalOnly

datatype plan_blocker =
    SemanticsInferred | NoClientMapping | NoSiteIdentity | NeedsReviewedPlan | NoSourceCapability | LacksRootIdentity
  | MappedLexically

record seed_plan =
  sp_id :: bytes
  sp_torrent_name :: bytes
  sp_info_hash_v1 :: bytes
  sp_info_hash_v2 :: bytes
  sp_variant_id :: bytes
  sp_evidence :: bytes
  sp_effect :: bytes
  sp_ready :: bool
  sp_readiness :: bytes
  sp_source_mode :: bytes
  sp_source_selection :: bytes
  sp_source_root :: bytes
  sp_target_root :: bytes
  sp_target_identity :: bytes
  sp_client_mapping :: bytes
  sp_strategy :: bytes
  sp_estimated_read :: int64
  sp_estimated_write :: int64
  sp_operations :: "plan_operation list"
  sp_verification :: verification_result
  sp_warnings :: "plan_warning list"
  sp_blockers :: "plan_blocker list"

definition sprint_int :: "int \<Rightarrow> bytes" where
  "sprint_int i = (if i < 0 then CHR ''-'' # decimal (nat (- i)) else decimal (nat i))"

definition operation_line :: "plan_operation \<Rightarrow> bytes" where
  "operation_line op =
     sprint_int (po_manifest_index op) @ [NUL] @ po_kind op @ [NUL] @ po_source op @ [NUL] @ po_target op @ [NUL] @
     po_client_target op @ [NUL] @ sprint_int (po_bytes op)"

definition plan_id :: "golib \<Rightarrow> seed_plan \<Rightarrow> bytes" where
  "plan_id lib p =
     (let lines =
        [sp_info_hash_v1 p, sp_info_hash_v2 p, sp_variant_id p, vr_source_snapshot_id (sp_verification p), sp_source_mode p,
         sp_source_root p, sp_target_root p, sp_target_identity p, sp_readiness p, sp_client_mapping p] @
        (if sp_source_selection p \<noteq> [] then [''source-selection'' @ [NUL] @ sp_source_selection p] else []) @
        sort (map operation_line (sp_operations p))
      in hex_encode (take 12 (gl_sha256 lib (join [CHR 0x0A] lines))))"

definition plan_evidence :: "bytes \<Rightarrow> bytes" where
  "plan_evidence version =
     (if version = ''v1'' then ''source_observation:v1_piece_verified''
      else if version = ''v2'' then ''source_observation:v2_merkle_verified''
      else if version = ''hybrid'' then ''source_observation:single_pass_v1_piece_and_v2_merkle_verified''
      else ''source_observation:unsupported'')"

definition target_components :: "meta_info \<Rightarrow> file_entry \<Rightarrow> bytes list" where
  "target_components meta entry = (if m_multi_file meta then m_name_raw meta # f_raw_path entry else [m_name_raw meta])"

text \<open>The directories above a target, down from the root: the first that does not exist ends the check.\<close>

fun prefix_loop :: "'w names \<Rightarrow> bytes \<Rightarrow> bytes list \<Rightarrow> ('w, plan_error, unit) act" where
  "prefix_loop ns current [] = ret ()"
| "prefix_loop ns current (part # parts) =
     (let current = path_join [current, part] in
      (\<lambda>w. case nm_lstat ns current w of
          (Inl NotExist, w) \<Rightarrow> (Inr (), w)
        | (Inl OtherError, w) \<Rightarrow> (Inl (InspectPrefix current), w)
        | (Inr info, w) \<Rightarrow> if fi_link_like info then (Inl (PrefixIsLink current), w) else prefix_loop ns current parts w))"

definition reject_symlink_prefix :: "'w names \<Rightarrow> bytes \<Rightarrow> bytes \<Rightarrow> ('w, plan_error, unit) act" where
  "reject_symlink_prefix ns root target =
     (case path_rel root target of
        None \<Rightarrow> fail RelativizeTarget
      | Some rel \<Rightarrow> prefix_loop ns root (butlast (split_on CHR ''/'' rel)))"

definition as_plan :: "('e \<Rightarrow> plan_error) \<Rightarrow> ('w, 'e, 'a) act \<Rightarrow> ('w, plan_error, 'a) act" where
  "as_plan f m w = (case m w of (Inl e, w) \<Rightarrow> (Inl (f e), w) | (Inr x, w) \<Rightarrow> (Inr x, w))"

lemma as_plan_Inr [act_simps]: "as_plan f m w = (Inr x, w') \<longleftrightarrow> m w = (Inr x, w')"
  by (auto simp: as_plan_def split: prod.splits sum.splits)

definition poll_plan :: "'w os \<Rightarrow> ('w, plan_error, unit) act" where
  "poll_plan os = as_plan (\<lambda>_. PlanCancelled) (check_ctx os)"

definition require_absent :: "'w names \<Rightarrow> bytes \<Rightarrow> ('w, plan_error, unit) act" where
  "require_absent ns target w =
     (case nm_lstat ns target w of
        (Inr _, w) \<Rightarrow> (Inl (TargetExists target), w)
      | (Inl NotExist, w) \<Rightarrow> (Inr (), w)
      | (Inl OtherError, w) \<Rightarrow> (Inl (InspectTarget target), w))"

text \<open>One round of the loop over the manifest: the operation, and what it adds to the bytes to read.\<close>

definition plan_operation_for :: "golib \<Rightarrow> path_semantics \<Rightarrow> 'w os \<Rightarrow> verified_source \<Rightarrow> bytes \<Rightarrow> nat \<Rightarrow> file_entry \<Rightarrow> bytes \<Rightarrow>
    ('w, plan_error, plan_operation \<times> int64) act" where
  "plan_operation_for lib sem os verified strategy index entry target =
     (let op = \<lparr>po_manifest_index = int index, po_torrent_path = join ''/'' (f_path entry), po_kind = strategy, po_source = [],
                po_source_precondition = None, po_target = target, po_client_target = [], po_bytes = f_length entry\<rparr> in
      if is_padding entry then ret (op\<lparr>po_kind := ''padding''\<rparr>, 0)
      else if f_length entry = 0 then ret (op\<lparr>po_kind := ''empty''\<rparr>, 0)
      else
        case source_path verified (int index) of
          None \<Rightarrow> fail (SourceUnbound (int index))
        | Some source \<Rightarrow>
            bnd (as_plan SourceRejected (source_precondition_of lib sem os verified (int index))) (\<lambda>precondition.
            ret (op\<lparr>po_source := source, po_source_precondition := Some precondition\<rparr>, f_length entry)))"

fun plan_operations :: "golib \<Rightarrow> 'w names \<Rightarrow> 'w os \<Rightarrow> path_semantics \<Rightarrow> meta_info \<Rightarrow> verified_source \<Rightarrow> bytes \<Rightarrow> bytes \<Rightarrow>
    nat \<Rightarrow> file_entry list \<Rightarrow> int64 \<Rightarrow> int64 \<Rightarrow> plan_operation list \<Rightarrow>
    ('w, plan_error, int64 \<times> int64 \<times> plan_operation list) act" where
  "plan_operations lib ns os sem meta verified root strategy index [] to_read to_write ops = ret (to_read, to_write, ops)"
| "plan_operations lib ns os sem meta verified root strategy index (entry # entries) to_read to_write ops =
     bnd (poll_plan os) (\<lambda>_.
     bnd (as_plan TargetRejected (planned_join lib ns root (target_components meta entry) sem)) (\<lambda>target.
     bnd (reject_symlink_prefix ns root target) (\<lambda>_.
     bnd (require_absent ns target) (\<lambda>_.
     bnd (plan_operation_for lib sem os verified strategy index entry target) (\<lambda>(op, n).
     plan_operations lib ns os sem meta verified root strategy (index + 1) entries
       (wrap64 (to_read + n)) (wrap64 (to_write + f_length entry)) (ops @ [op]))))))"

text \<open>The plan before its operations.\<close>

definition initial_plan :: "meta_info \<Rightarrow> verified_source \<Rightarrow> bytes \<Rightarrow> bytes \<Rightarrow> bytes \<Rightarrow> bytes \<Rightarrow> probe_result \<Rightarrow> bytes \<Rightarrow> seed_plan" where
  "initial_plan meta verified source_mode selection source_root strategy probe identity =
     \<lparr>sp_id = [], sp_torrent_name = m_name meta, sp_info_hash_v1 = m_info_hash_v1 meta, sp_info_hash_v2 = m_info_hash_v2 meta,
      sp_variant_id = m_variant_id meta, sp_evidence = plan_evidence (m_version meta), sp_effect = ''none'', sp_ready = False,
      sp_readiness = ''layout_only'', sp_source_mode = source_mode, sp_source_selection = selection, sp_source_root = source_root,
      sp_target_root = pr_resolved probe, sp_target_identity = identity, sp_client_mapping = ''not_requested'',
      sp_strategy = strategy, sp_estimated_read = 0, sp_estimated_write = 0, sp_operations = [],
      sp_verification = vs_result verified,
      sp_warnings = [NoChangesMade, WriteNeedsOwnProof] @ (if source_mode = ''exact_root'' then [ExactRootRepeats] else []) @
        map ProbeWarning (pr_warnings probe) @ [if identity = [] then NoRootIdentity else RootIdentityIncluded],
      sp_blockers = [SemanticsInferred, NoClientMapping, NoSiteIdentity, NeedsReviewedPlan] @
        (if source_mode = ''exact_root'' then [NoSourceCapability] else []) @ (if identity = [] then [LacksRootIdentity] else [])\<rparr>"

text \<open>
  \<open>bind_root\<close> is \<open>fsbind.BindExisting\<close> on the resolved root, closed again: the identity of the directory, or none.
\<close>

definition build_materialize_plan :: "golib \<Rightarrow> 'w names \<Rightarrow> 'w os \<Rightarrow> (bytes \<Rightarrow> 'w \<Rightarrow> bytes option \<times> 'w) \<Rightarrow> path_semantics \<Rightarrow>
    meta_info \<Rightarrow> verified_source \<Rightarrow> bytes \<Rightarrow> bytes \<Rightarrow> bytes \<Rightarrow> bytes \<Rightarrow> bytes \<Rightarrow> ('w, plan_error, seed_plan) act" where
  "build_materialize_plan lib ns os bind_root sem meta verified source_mode selection source_root target_root strategy =
     bnd (poll_plan os) (\<lambda>_.
     let strategy = (if strategy = [] then ''copy'' else strategy) in
     if strategy \<noteq> ''copy'' then fail UnsupportedStrategy
     else if \<not> source_for verified meta then fail SourceNotForMetafile
     else if \<not> vr_verified (vs_result verified) then fail SourceNotVerified
     else
       bnd (probe_read_only ns os sem target_root) (\<lambda>probe w.
       case bind_root (pr_resolved probe) w of (bound, w) \<Rightarrow>
         let identity = (case bound of None \<Rightarrow> [] | Some i \<Rightarrow> i) in
         case validate_manifest_paths_with_padding lib (map (target_components meta) (m_files meta))
             (map is_padding (m_files meta)) (pr_semantics probe) of
           Inl e \<Rightarrow> (Inl (UnsafeTargetLayout e), w)
         | Inr _ \<Rightarrow>
             bnd (plan_operations lib ns os (pr_semantics probe) meta verified (pr_resolved probe) strategy 0 (m_files meta) 0 0 [])
               (\<lambda>(to_read, to_write, ops).
                let p = (initial_plan meta verified source_mode selection source_root strategy probe identity)
                    \<lparr>sp_estimated_read := to_read, sp_estimated_write := to_write, sp_operations := ops\<rparr>
                in ret (p\<lparr>sp_id := plan_id lib p\<rparr>)) w))"

section \<open>The entry points\<close>

text \<open>A verified source is handed back with the error of a plan that was built on it.\<close>

definition build_plan_with_exact_source :: "golib \<Rightarrow> 'w names \<Rightarrow> 'w os \<Rightarrow> (bytes \<Rightarrow> 'w \<Rightarrow> bytes option \<times> 'w) \<Rightarrow> path_semantics \<Rightarrow>
    meta_info \<Rightarrow> bytes \<Rightarrow> bytes \<Rightarrow> bytes \<Rightarrow> 'w \<Rightarrow> ((plan_error + seed_plan) \<times> verified_source option) \<times> 'w" where
  "build_plan_with_exact_source lib ns os bind_root sem meta source_root target_root strategy w =
     (case verify_content_source lib ns os sem meta source_root w of
        (Inl e, w) \<Rightarrow> ((Inl (SourceRejected e), None), w)
      | (Inr verified, w) \<Rightarrow>
          if \<not> vr_verified (vs_result verified) then ((Inl SourceNotVerified, None), w)
          else
            (case nm_abs ns source_root w of
               (None, w) \<Rightarrow> ((Inl ResolveSourceRoot, Some verified), w)
             | (Some root_abs, w) \<Rightarrow>
                 (case build_materialize_plan lib ns os bind_root sem meta verified ''exact_root'' [] (path_clean root_abs)
                    target_root strategy w of
                    (r, w) \<Rightarrow> ((r, Some verified), w))))"

definition build_exact_plan :: "golib \<Rightarrow> 'w names \<Rightarrow> 'w os \<Rightarrow> (bytes \<Rightarrow> 'w \<Rightarrow> bytes option \<times> 'w) \<Rightarrow> path_semantics \<Rightarrow>
    meta_info \<Rightarrow> bytes \<Rightarrow> bytes \<Rightarrow> bytes \<Rightarrow> ('w, plan_error, seed_plan) act" where
  "build_exact_plan lib ns os bind_root sem meta source_root target_root strategy w =
     (case build_plan_with_exact_source lib ns os bind_root sem meta source_root target_root strategy w of ((r, _), w) \<Rightarrow> (r, w))"

definition build_plan_from_verified :: "golib \<Rightarrow> 'w names \<Rightarrow> 'w os \<Rightarrow> (bytes \<Rightarrow> 'w \<Rightarrow> bytes option \<times> 'w) \<Rightarrow> path_semantics \<Rightarrow>
    meta_info \<Rightarrow> verified_source \<Rightarrow> bytes \<Rightarrow> bytes \<Rightarrow> ('w, plan_error, seed_plan) act" where
  "build_plan_from_verified lib ns os bind_root sem meta verified =
     build_materialize_plan lib ns os bind_root sem meta verified ''discovered_map'' [] []"

definition canonical_selection_id :: "bytes \<Rightarrow> bool" where
  "canonical_selection_id v \<longleftrightarrow>
     length v = 71 \<and> has_prefix v ''sha256:'' \<and> map ascii_lower v = v \<and>
     (case hex_decode (trim_prefix v ''sha256:'') of None \<Rightarrow> False | Some d \<Rightarrow> length d = 32)"

definition build_plan_from_indexed :: "golib \<Rightarrow> 'w names \<Rightarrow> 'w os \<Rightarrow> (bytes \<Rightarrow> 'w \<Rightarrow> bytes option \<times> 'w) \<Rightarrow> path_semantics \<Rightarrow>
    meta_info \<Rightarrow> verified_source \<Rightarrow> bytes \<Rightarrow> bytes \<Rightarrow> bytes \<Rightarrow> ('w, plan_error, seed_plan) act" where
  "build_plan_from_indexed lib ns os bind_root sem meta verified target_root strategy selection =
     (if \<not> canonical_selection_id selection then fail SelectionInvalid
      else build_materialize_plan lib ns os bind_root sem meta verified ''indexed_explicit_map'' selection [] target_root strategy)"

section \<open>Projecting the targets to the client\<close>

fun map_operations :: "golib \<Rightarrow> 'w names \<Rightarrow> bytes \<Rightarrow> bytes \<Rightarrow> bool \<Rightarrow> plan_operation list \<Rightarrow> ('w, plan_error, plan_operation list) act" where
  "map_operations lib ns host_root client_root win [] = ret []"
| "map_operations lib ns host_root client_root win (op # ops) =
     bnd (as_plan (TargetUnmapped (po_manifest_index op)) (map_host_to_client lib ns host_root (po_target op) client_root win)) (\<lambda>m.
     bnd (map_operations lib ns host_root client_root win ops) (\<lambda>rest.
     ret (op\<lparr>po_client_target := pm_client_path m\<rparr> # rest)))"

definition map_plan_targets :: "golib \<Rightarrow> 'w names \<Rightarrow> seed_plan \<Rightarrow> bytes \<Rightarrow> bytes \<Rightarrow> bool \<Rightarrow> ('w, plan_error, seed_plan) act" where
  "map_plan_targets lib ns p host_root client_root win =
     bnd (map_operations lib ns host_root client_root win (sp_operations p)) (\<lambda>ops.
     let p = p\<lparr>sp_operations := ops, sp_client_mapping := ''lexical_only'',
               sp_blockers := filter (\<lambda>b. b \<noteq> NoClientMapping) (sp_blockers p) @ [MappedLexically],
               sp_warnings := sp_warnings p @ [MappingLexicalOnly]\<rparr>
     in ret (p\<lparr>sp_id := plan_id lib p\<rparr>))"

end
