(* ===== verification/SeedPlanProps.thy ===== *)
theory SeedPlanProps
  imports SeedPlan SourceProps
begin

text \<open>
  What a plan says: its targets are the manifest below the resolved root, free and reached through no link; its operations
  cover the manifest with the files that were verified; and an exact plan exists only for content that was read.
\<close>

section \<open>Targets\<close>

text \<open>\<open>filepath.Abs\<close> leaves a clean absolute path as it is.\<close>

definition abs_stays :: "'w names \<Rightarrow> bool" where
  "abs_stays ns \<longleftrightarrow> (\<forall>rs w p w'. clean_components rs \<longrightarrow> nm_abs ns (abs_path rs) w = (Some p, w') \<longrightarrow> p = abs_path rs)"

text \<open>
  The directories of a relative path, from the root down, as they were answered for: each existed and was no link, up to
  the first that did not exist.
\<close>

fun prefix_checked :: "'w names \<Rightarrow> bytes list \<Rightarrow> bytes list \<Rightarrow> bool" where
  "prefix_checked ns rs [] = True"
| "prefix_checked ns rs (c # cs) \<longleftrightarrow>
     (\<exists>w w'. nm_lstat ns (abs_path (rs @ [c])) w = (Inl NotExist, w')) \<or>
     (\<exists>info w w'. nm_lstat ns (abs_path (rs @ [c])) w = (Inr info, w') \<and> \<not> fi_link_like info \<and> prefix_checked ns (rs @ [c]) cs)"

lemma prefix_loop_checked:
  "prefix_loop ns (abs_path rs) cs w = (Inr (), w') \<Longrightarrow> clean_components rs \<Longrightarrow> clean_components cs \<Longrightarrow> prefix_checked ns rs cs"
proof (induction cs arbitrary: rs w)
  case (Cons c cs)
  have j: "path_join [abs_path rs, c] = abs_path (rs @ [c])" using Cons.prems(2,3) path_join_abs [of rs "[c]"] by simp
  show ?case
  proof (cases "nm_lstat ns (abs_path (rs @ [c])) w")
    case (Pair r w1)
    show ?thesis
    proof (cases r)
      case (Inl e)
      then show ?thesis using Cons.prems(1) Pair by (cases e) (auto simp: Let_def j)
    next
      case (Inr info)
      then have "\<not> fi_link_like info" "prefix_loop ns (abs_path (rs @ [c])) cs w1 = (Inr (), w')"
        using Cons.prems(1) Pair by (simp_all add: Let_def j split: if_splits)
      with Cons.IH [OF this(2)] Cons.prems(2,3) Pair Inr show ?thesis unfolding prefix_checked.simps by auto metis
    qed
  qed
qed simp

lemma path_rel_below:
  assumes "clean_components rs" "clean_components cs" "cs \<noteq> []"
  shows "path_rel (abs_path rs) (abs_path (rs @ cs)) = Some (join ''/'' cs)"
proof -
  have "confined_relative_path (abs_path rs) (abs_path (rs @ cs)) = Some (join ''/'' cs)"
    using assms by (subst confined_abs) auto
  then show ?thesis by (auto simp: confined_relative_path_def split: option.splits if_splits)
qed

lemma reject_symlink_prefix_checked:
  assumes "reject_symlink_prefix ns (abs_path rs) (abs_path (rs @ cs)) w = (Inr (), w')"
    and "clean_components rs" "clean_components cs" "cs \<noteq> []"
  shows "prefix_checked ns rs (butlast cs)"
proof -
  have "split_on CHR ''/'' (join ''/'' cs) = cs"
    using assms(3,4) by (intro split_on_join) (auto simp: clean_component_def)
  then have loop: "prefix_loop ns (abs_path rs) (butlast cs) w = (Inr (), w')"
    using assms by (simp add: reject_symlink_prefix_def path_rel_below)
  have "clean_components (butlast cs)" using assms(3) by (auto dest: in_set_butlastD)
  then show ?thesis by (rule prefix_loop_checked [OF loop assms(2)])
qed

lemma planned_join_below:
  assumes "planned_join lib ns (abs_path rs) cs sem w = (Inr t, w')" "abs_stays ns" "clean_components rs"
  shows "clean_components cs \<and> cs \<noteq> [] \<and> t = abs_path (rs @ cs)"
proof -
  from assms(1) have v: "validate_components lib cs sem = Inr ()"
    by (auto simp: planned_join_def fail_eq split: sum.splits)
  with assms(1) obtain p w1 where "nm_abs ns (abs_path rs) w = (Some p, w1)" by (auto simp: planned_join_def act_simps)
  moreover from this have "p = abs_path rs" using assms(2,3) unfolding abs_stays_def by blast
  ultimately have "planned_join lib ns (abs_path rs) cs sem w = (Inr (abs_path (rs @ cs)), w1)"
    using planned_join_value [of ns "abs_path rs" w rs w1 lib cs sem] v assms(3) by simp
  then show ?thesis using assms(1) validated_clean [OF v] by simp
qed

lemma require_absent_Inr: "require_absent ns t w = (Inr (), w') \<longleftrightarrow> nm_lstat ns t w = (Inl NotExist, w')"
  by (auto simp: require_absent_def split: prod.splits sum.splits lookup_error.splits)

section \<open>Operations\<close>

text \<open>What the operation of one entry is, given its target.\<close>

definition operation_of :: "golib \<Rightarrow> path_semantics \<Rightarrow> 'w os \<Rightarrow> verified_source \<Rightarrow> bytes \<Rightarrow> nat \<Rightarrow> file_entry \<Rightarrow> plan_operation \<Rightarrow> bool" where
  "operation_of lib sem os verified strategy i entry op \<longleftrightarrow>
     po_manifest_index op = int i \<and> po_torrent_path op = join ''/'' (f_path entry) \<and> po_bytes op = f_length entry \<and>
     po_client_target op = [] \<and>
     (if is_padding entry then po_kind op = ''padding'' \<and> po_source op = [] \<and> po_source_precondition op = None
      else if f_length entry = 0 then po_kind op = ''empty'' \<and> po_source op = [] \<and> po_source_precondition op = None
      else po_kind op = strategy \<and> source_path verified (int i) = Some (po_source op) \<and>
        (\<exists>c w w'. source_precondition_of lib sem os verified (int i) w = (Inr c, w') \<and> po_source_precondition op = Some c))"

definition target_of :: "'w names \<Rightarrow> meta_info \<Rightarrow> bytes list \<Rightarrow> file_entry \<Rightarrow> plan_operation \<Rightarrow> bool" where
  "target_of ns meta rs entry op \<longleftrightarrow>
     clean_components (target_components meta entry) \<and> po_target op = abs_path (rs @ target_components meta entry) \<and>
     prefix_checked ns rs (butlast (target_components meta entry)) \<and>
     (\<exists>w w'. nm_lstat ns (po_target op) w = (Inl NotExist, w'))"

definition bytes_to_read :: "file_entry list \<Rightarrow> int" where
  "bytes_to_read entries = sum_list (map f_length (filter (\<lambda>e. \<not> is_padding e) entries))"

lemma plan_operation_for_Inr:
  assumes "plan_operation_for lib sem os verified strategy i entry target w = (Inr (op, n), w')"
  shows "operation_of lib sem os verified strategy i entry op \<and> po_target op = target \<and> n = (if is_padding entry then 0 else f_length entry)"
proof (cases "is_padding entry \<or> f_length entry = 0")
  case True
  then show ?thesis using assms by (auto simp: plan_operation_for_def operation_of_def ret_eq Let_def split: if_splits)
next
  case False
  then show ?thesis
    using assms
    by (cases "source_path verified (int i)") (auto simp: plan_operation_for_def operation_of_def Let_def act_simps, blast)
qed

lemma wrap64_add [simp]: "wrap64 (wrap64 a + b) = wrap64 (a + b)"
proof -
  have "(wrap64 a + b + 9223372036854775808) mod 18446744073709551616 =
      ((a + 9223372036854775808) mod 18446744073709551616 + b) mod 18446744073709551616"
    by (simp add: wrap64_def algebra_simps)
  also have "\<dots> = ((a + 9223372036854775808) + b) mod 18446744073709551616" by (rule mod_add_left_eq)
  also have "\<dots> = (a + b + 9223372036854775808) mod 18446744073709551616" by (simp add: algebra_simps)
  finally show ?thesis by (simp add: wrap64_def)
qed

lemma plan_operations_Inr:
  assumes "plan_operations lib ns os sem meta verified (abs_path rs) strategy i entries r0 n0 ops0 w = (Inr (r, n, ops), w')"
    and "abs_stays ns" "clean_components rs" "in_int64 r0" "in_int64 n0"
  shows "\<exists>new. ops = ops0 @ new \<and> length new = length entries \<and>
    (\<forall>k < length entries. target_of ns meta rs (entries ! k) (new ! k) \<and>
       operation_of lib sem os verified strategy (i + k) (entries ! k) (new ! k)) \<and>
    r = wrap64 (r0 + bytes_to_read entries) \<and> n = wrap64 (n0 + sum_list (map f_length entries))"
  using assms(1,4,5)
proof (induction entries arbitrary: i r0 n0 ops0 w)
  case Nil
  then show ?case by (simp add: ret_eq bytes_to_read_def wrap64_id)
next
  case (Cons entry entries)
  let ?cs = "target_components meta entry"
  from Cons.prems obtain t op d w1 w2 w3 w4 w5 where
    join: "planned_join lib ns (abs_path rs) ?cs sem w1 = (Inr t, w2)"
    and pre: "reject_symlink_prefix ns (abs_path rs) t w2 = (Inr (), w3)"
    and free: "require_absent ns t w3 = (Inr (), w4)"
    and op: "plan_operation_for lib sem os verified strategy i entry t w4 = (Inr (op, d), w5)"
    and rest: "plan_operations lib ns os sem meta verified (abs_path rs) strategy (i + 1) entries
      (wrap64 (r0 + d)) (wrap64 (n0 + f_length entry)) (ops0 @ [op]) w5 = (Inr (r, n, ops), w')"
    by (auto simp: bnd_Inr as_plan_Inr)
  from planned_join_below [OF join assms(2,3)] have t: "clean_components ?cs" "?cs \<noteq> []" "t = abs_path (rs @ ?cs)" by auto
  note o = plan_operation_for_Inr [OF op]
  have "target_of ns meta rs entry op"
    using t o reject_symlink_prefix_checked [OF pre [unfolded t(3)] assms(3) t(1,2)] free
    by (auto simp: target_of_def require_absent_Inr)
  then have here: "target_of ns meta rs entry op \<and> operation_of lib sem os verified strategy i entry op" using o by simp
  from Cons.IH [OF rest wrap64_in_range wrap64_in_range] obtain new where new: "ops = (ops0 @ [op]) @ new" "length new = length entries"
      "\<forall>k < length entries. target_of ns meta rs (entries ! k) (new ! k) \<and>
         operation_of lib sem os verified strategy (i + 1 + k) (entries ! k) (new ! k)"
      "r = wrap64 (wrap64 (r0 + d) + bytes_to_read entries)"
      "n = wrap64 (wrap64 (n0 + f_length entry) + sum_list (map f_length entries))" by blast
  have "\<forall>k < length (entry # entries). target_of ns meta rs ((entry # entries) ! k) ((op # new) ! k) \<and>
      operation_of lib sem os verified strategy (i + k) ((entry # entries) ! k) ((op # new) ! k)"
    using here new(3) by (auto simp: nth_Cons split: nat.splits)
  moreover have "r = wrap64 (r0 + bytes_to_read (entry # entries))"
    using new(4) o by (simp add: bytes_to_read_def add.assoc)
  moreover have "n = wrap64 (n0 + sum_list (map f_length (entry # entries)))" using new(5) by (simp add: add.assoc)
  ultimately show ?case using new(1,2) by (intro exI [of _ "op # new"]) simp
qed

section \<open>Layout\<close>

lemma raw_prefix_conflict:
  assumes "prefix p q" "p \<noteq> []"
  shows "p = q \<or> dir_conflict (path_key lib sem p) (path_key lib sem q)"
proof (cases "p = q")
  case False
  with assms(1) obtain r rs where q: "q = p @ r # rs" by (metis strict_prefixE' strict_prefix_def)
  have "path_key lib sem q = path_key lib sem p @ [NUL] @ join [NUL] (map (fold_component lib sem) (r # rs))"
    unfolding path_key_def q map_append using assms(2) by (intro join_append) simp_all
  then show ?thesis by (auto simp: dir_conflict_def has_prefix_iff)
qed simp

lemma accepted_prefix_shared:
  assumes "validate_manifest_paths_with_padding lib paths padding sem = Inr ()"
    and "i < length paths" "j < length paths" "i \<noteq> j" "prefix (paths ! i) (paths ! j)"
  shows "paths ! i = paths ! j \<and> padding ! i \<and> padding ! j"
proof -
  have acc: "\<forall>p \<in> set paths. validate_components lib p sem = Inr ()" "shares_only_padding (Some padding) (keys_of lib sem paths)"
      "\<forall>p \<in> set paths. \<forall>q \<in> set paths. \<not> dir_conflict (path_key lib sem p) (path_key lib sem q)"
    using assms(1) by (auto simp: validate_manifest_paths_with_padding_def manifest_paths_accepted split: if_splits)
  have "paths ! i \<noteq> []" using acc(1) validated_clean [of lib "paths ! i" sem] assms(2) nth_mem by blast
  from raw_prefix_conflict [OF assms(5) this] acc(3) assms(2,3) have eq: "paths ! i = paths ! j" using nth_mem by blast
  have "is_pad (Some padding) (min i j) \<and> is_pad (Some padding) (max i j)"
    using acc(2) eq assms(2-4) unfolding shares_only_padding_def
    by (metis length_map max_def min_def nth_map nat_neq_iff less_imp_le not_le)
  then show ?thesis using eq by (auto simp: is_pad_def min_def max_def split: if_splits)
qed

lemma plan_id_of_id [simp]: "plan_id lib (p\<lparr>sp_id := x\<rparr>) = plan_id lib p"
  by (simp add: plan_id_def)

text \<open>The steps of a plan that was built.\<close>

lemma plan_steps:
  assumes "build_materialize_plan lib ns os bind_root sem meta verified mode selection source_root target_root strategy w = (Inr p, w')"
  obtains w1 probe w2 bound w3 to_read to_write ops where "source_for verified meta" "vr_verified (vs_result verified)"
    "poll_plan os w = (Inr (), w1)" "probe_read_only ns os sem target_root w1 = (Inr probe, w2)"
    "bind_root (pr_resolved probe) w2 = (bound, w3)"
    "validate_manifest_paths_with_padding lib (map (target_components meta) (m_files meta)) (map is_padding (m_files meta))
      (pr_semantics probe) = Inr ()"
    "plan_operations lib ns os (pr_semantics probe) meta verified (pr_resolved probe) ''copy'' 0 (m_files meta) 0 0 [] w3 =
      (Inr (to_read, to_write, ops), w')"
    "p = (let p = (initial_plan meta verified mode selection source_root ''copy'' probe (case bound of None \<Rightarrow> [] | Some i \<Rightarrow> i))
        \<lparr>sp_estimated_read := to_read, sp_estimated_write := to_write, sp_operations := ops\<rparr> in p\<lparr>sp_id := plan_id lib p\<rparr>)"
proof -
  from assms have src: "source_for verified meta" "vr_verified (vs_result verified)"
    by (auto simp: build_materialize_plan_def bnd_Inr Let_def fail_eq split: if_splits)
  define step where "step probe w = (case bind_root (pr_resolved probe) w of (bound, w) \<Rightarrow>
         case validate_manifest_paths_with_padding lib (map (target_components meta) (m_files meta))
             (map is_padding (m_files meta)) (pr_semantics probe) of
           Inl e \<Rightarrow> (Inl (UnsafeTargetLayout e), w)
         | Inr _ \<Rightarrow>
             bnd (plan_operations lib ns os (pr_semantics probe) meta verified (pr_resolved probe) ''copy'' 0 (m_files meta) 0 0 [])
               (\<lambda>(to_read, to_write, ops).
                let p = (initial_plan meta verified mode selection source_root ''copy'' probe (case bound of None \<Rightarrow> [] | Some i \<Rightarrow> i))
                    \<lparr>sp_estimated_read := to_read, sp_estimated_write := to_write, sp_operations := ops\<rparr>
                in ret (p\<lparr>sp_id := plan_id lib p\<rparr>)) w)" for probe w
  from assms src obtain w1 probe w2 where
    probe: "poll_plan os w = (Inr (), w1)" "probe_read_only ns os sem target_root w1 = (Inr probe, w2)"
    and step: "step probe w2 = (Inr p, w')"
    unfolding build_materialize_plan_def step_def by (auto simp: bnd_Inr Let_def fail_eq split: if_splits)
  obtain bound w3 where bound: "bind_root (pr_resolved probe) w2 = (bound, w3)" by fastforce
  from step have
    layout: "validate_manifest_paths_with_padding lib (map (target_components meta) (m_files meta)) (map is_padding (m_files meta))
      (pr_semantics probe) = Inr ()"
    unfolding step_def bound
    by (cases "validate_manifest_paths_with_padding lib (map (target_components meta) (m_files meta)) (map is_padding (m_files meta))
      (pr_semantics probe)") auto
  with step bound show thesis
    by (auto simp: step_def bnd_Inr Let_def ret_eq intro!: that [OF src probe bound layout])
qed

lemma build_materialize_plan_Inr:
  assumes "build_materialize_plan lib ns os bind_root sem meta verified mode selection source_root target_root strategy w = (Inr p, w')"
    and "resolves_clean ns" "abs_stays ns"
  shows "\<exists>rs. clean_components rs \<and> sp_target_root p = abs_path rs \<and> length (sp_operations p) = length (m_files meta) \<and>
    (\<forall>k < length (m_files meta). target_of ns meta rs (m_files meta ! k) (sp_operations p ! k) \<and>
       operation_of lib sem os verified ''copy'' k (m_files meta ! k) (sp_operations p ! k)) \<and>
    validate_manifest_paths_with_padding lib (map (target_components meta) (m_files meta)) (map is_padding (m_files meta)) sem = Inr () \<and>
    sp_estimated_read p = wrap64 (bytes_to_read (m_files meta)) \<and>
    sp_estimated_write p = wrap64 (sum_list (map f_length (m_files meta))) \<and>
    source_for verified meta \<and> vr_verified (vs_result verified) \<and> sp_verification p = vs_result verified \<and>
    sp_variant_id p = m_variant_id meta \<and> sp_id p = plan_id lib p"
  using assms(1)
proof (cases rule: plan_steps)
  case (1 w1 probe w2 bound w3 to_read to_write ops)
  note steps = this
  from steps(4) obtain w5 where "nm_eval ns (pr_path probe) w5 = (Inr (pr_resolved probe), w2)" "pr_semantics probe = sem"
    by (auto simp: probe_read_only_def act_simps)
  with assms(2) obtain rs where rs: "clean_components rs" "pr_resolved probe = abs_path rs" "pr_semantics probe = sem"
    unfolding resolves_clean_def by blast
  have "sp_id p = plan_id lib p" by (simp add: steps(8) Let_def)
  moreover have "sp_target_root p = pr_resolved probe" "sp_operations p = ops" "sp_estimated_read p = to_read"
      "sp_estimated_write p = to_write" "sp_verification p = vs_result verified" "sp_variant_id p = m_variant_id meta"
    by (simp_all add: steps(8) Let_def initial_plan_def)
  moreover have "in_int64 0" by (simp add: in_int64_def max_int64_def)
  ultimately show ?thesis
    using plan_operations_Inr [OF steps(7) [unfolded rs(2,3)] assms(3) rs(1)] steps(1,2,6) rs
    by (intro exI [of _ rs]) simp
qed

section \<open>Planning reads no content\<close>

context recording_names
begin

lemma log_probe: "probe_read_only ns os sem path w = (Inr probe, w') \<Longrightarrow> log w' = log w"
  unfolding probe_read_only_def by (auto simp: act_simps) (metis log_abs log_stat log_eval snd_conv)

lemma log_planned_join: "planned_join lib ns root cs sem w = (Inr t, w') \<Longrightarrow> log w' = log w"
  by (auto simp: planned_join_def bnd_Inr guard_Inr fail_eq ret_eq Let_def split: sum.splits dest!: log_lookup)

lemma log_prefix_loop: "prefix_loop ns current cs w = (Inr (), w') \<Longrightarrow> log w' = log w"
proof (induction cs arbitrary: current w)
  case (Cons c cs)
  let ?q = "path_join [current, c]"
  have q: "log (snd (nm_lstat ns ?q w)) = log w" by (rule log_name)
  obtain r w1 where r: "nm_lstat ns ?q w = (r, w1)" by fastforce
  with Cons q show ?case
    by (cases r) (auto simp: Let_def split: lookup_error.splits if_splits)
qed (simp add: ret_eq)

lemma log_reject: "reject_symlink_prefix ns root t w = (Inr (), w') \<Longrightarrow> log w' = log w"
  by (auto simp: reject_symlink_prefix_def fail_eq split: option.splits dest!: log_prefix_loop)

lemma log_absent: "require_absent ns t w = (Inr (), w') \<Longrightarrow> log w' = log w"
  using log_name [of t w] by (simp add: require_absent_Inr)

lemma log_precondition: "source_precondition_of lib sem os source i w = (Inr c, w') \<Longrightarrow> log w' = log w"
  by (auto simp: source_precondition_of_def match_source_snapshot_def bnd_Inr fail_eq ret_eq split: option.splits if_splits
      dest!: log_call log_inspect_bound)

lemma log_plan_operation: "plan_operation_for lib sem os verified strategy i entry t w = (Inr x, w') \<Longrightarrow> log w' = log w"
  by (auto simp: plan_operation_for_def bnd_Inr as_plan_Inr fail_eq ret_eq Let_def split: option.splits if_splits
      dest!: log_precondition)

lemma log_poll_plan: "poll_plan os w = (Inr (), w') \<Longrightarrow> log w' = log w"
  by (auto simp: poll_plan_def as_plan_Inr dest!: log_check_ctx)

lemma log_plan_operations:
  "plan_operations lib ns os sem meta verified root strategy i entries r n ops w = (Inr x, w') \<Longrightarrow> log w' = log w"
proof (induction entries arbitrary: i r n ops w)
  case (Cons entry entries)
  then show ?case
    by (fastforce simp: bnd_Inr as_plan_Inr dest!: log_poll_plan log_planned_join log_reject log_absent log_plan_operation)
qed (simp add: ret_eq)

lemma log_build_plan:
  assumes "build_materialize_plan lib ns os bind_root sem meta verified mode selection source_root target_root strategy w = (Inr p, w')"
    and bind: "\<And>q v. log (snd (bind_root q v)) = log v"
  shows "log w' = log w"
  using assms(1)
proof (cases rule: plan_steps)
  case (1 w1 probe w2 bound w3 to_read to_write ops)
  have "log w3 = log w2" using bind [of "pr_resolved probe" w2] 1(5) by simp
  then show ?thesis using log_poll_plan [OF 1(3)] log_probe [OF 1(4)] log_plan_operations [OF 1(7)] by simp
qed

end

section \<open>Verifying the content of an exact root\<close>

lemma verify_content_source_decided:
  assumes "parse_metainfo lib data = Inr meta" "digest_sizes lib"
    and "verify_content_source lib (logging_names ns) (logging os) sem meta path (w, l) = (Inr vs, (w', l'))"
  shows "\<exists>segs read. l' = l @ read \<and> manifest_bytes (m_files meta) segs read \<and>
    (vr_verified (vs_result vs) \<longleftrightarrow> manifest_verdict lib meta segs)"
proof -
  from assms(3) obtain specs w1 l1 where
    res: "resolve_files lib (logging_names ns) (logging os) sem meta path (w, l) = (Inr specs, (w1, l1))"
    and run: "verify_resolved lib (logging os) meta specs (w1, l1) = (Inr (vs_result vs), (w', l'))"
    by (auto simp: verify_content_source_def act_simps)
  have "l1 = l" using logging.log_resolve_files [OF res] by simp
  have len: "length specs = length (m_files meta)"
    using run by (auto simp: verify_resolved_def verify_v1_resolved_def verify_hybrid_resolved_def verify_v2_resolved_def
        Let_def bnd_Inr fail_eq split: if_splits prod.splits sum.splits)
  from verify_resolved_decided [OF assms(1,2) resolve_files_specs [OF res len] run] \<open>l1 = l\<close> show ?thesis by simp
qed

section \<open>Properties\<close>

text \<open>
  Claim C38. A plan that is built targets the manifest below the resolved root and nothing else: every operation's target
  is the root followed by the entry's components, it was found absent, the directories above it that exist were found not
  to be links, and no target is another target or a directory above it, unless both are padding.
\<close>

theorem plan_targets_safe:
  assumes "build_materialize_plan lib ns os bind_root sem meta verified mode selection source_root target_root strategy w = (Inr p, w')"
    and "resolves_clean ns" "abs_stays ns"
  shows "\<exists>rs. clean_components rs \<and> sp_target_root p = abs_path rs \<and> length (sp_operations p) = length (m_files meta) \<and>
    (\<forall>k < length (m_files meta). target_of ns meta rs (m_files meta ! k) (sp_operations p ! k)) \<and>
    (\<forall>i < length (m_files meta). \<forall>j < length (m_files meta). i \<noteq> j \<longrightarrow>
       prefix (target_components meta (m_files meta ! i)) (target_components meta (m_files meta ! j)) \<longrightarrow>
       target_components meta (m_files meta ! i) = target_components meta (m_files meta ! j) \<and>
       is_padding (m_files meta ! i) \<and> is_padding (m_files meta ! j))"
proof -
  from build_materialize_plan_Inr [OF assms] obtain rs where rs: "clean_components rs" "sp_target_root p = abs_path rs"
      "length (sp_operations p) = length (m_files meta)"
      "\<forall>k < length (m_files meta). target_of ns meta rs (m_files meta ! k) (sp_operations p ! k)"
    and layout: "validate_manifest_paths_with_padding lib (map (target_components meta) (m_files meta)) (map is_padding (m_files meta)) sem = Inr ()"
    by blast
  from accepted_prefix_shared [OF layout] rs show ?thesis by (intro exI [of _ rs]) simp
qed

text \<open>
  Claim C39. A plan covers the manifest of a verified source entry by entry, in order: padding and empty files have no
  source, every other entry is copied from the path that the verification bound to it, under the size and modification
  time of its snapshot. For a parsed metafile the estimates are the exact number of content bytes and of all bytes, and the
  identity of the plan is computed from the plan as it is returned.
\<close>

theorem plan_covers_manifest:
  assumes "build_materialize_plan lib ns os bind_root sem meta verified mode selection source_root target_root strategy w = (Inr p, w')"
    and "resolves_clean ns" "abs_stays ns" "parse_metainfo lib data = Inr meta"
  shows "source_for verified meta \<and> vr_verified (vs_result verified) \<and> sp_verification p = vs_result verified \<and>
    length (sp_operations p) = length (m_files meta) \<and>
    (\<forall>k < length (m_files meta). operation_of lib sem os verified ''copy'' k (m_files meta ! k) (sp_operations p ! k)) \<and>
    sp_estimated_read p = bytes_to_read (m_files meta) \<and> sp_estimated_write p = m_total_length meta \<and>
    sp_variant_id p = m_variant_id meta \<and> sp_id p = plan_id lib p"
proof -
  have "lengths_ok meta" using assms(4) by (rule parse_metainfo_facts)
  then have l: "\<forall>f \<in> set (m_files meta). 0 \<le> f_length f" "m_total_length meta = sum_list (map f_length (m_files meta))"
      "m_total_length meta \<le> max_int64" by (auto simp: lengths_ok_def)
  have "bytes_to_read es \<le> sum_list (map f_length es) \<and> 0 \<le> bytes_to_read es" if "\<forall>f \<in> set es. 0 \<le> f_length f" for es
    using that by (induction es) (auto simp: bytes_to_read_def)
  from this [OF l(1)] l(2,3) have "in_int64 (bytes_to_read (m_files meta))" "in_int64 (sum_list (map f_length (m_files meta)))"
    by (auto simp: in_int64_def)
  then show ?thesis using build_materialize_plan_Inr [OF assms(1-3)] l(2) by (auto simp: wrap64_id)
qed

text \<open>
  Claim C40. An exact plan exists only for content that was read: when the plan of a source root is built, on any file
  system, the bytes that were read are the segments of the manifest and hash to its piece digests and file roots, and
  planning after the verification read nothing more.
\<close>

theorem exact_plan_of_read_content:
  assumes "parse_metainfo lib data = Inr meta" "digest_sizes lib"
    and "build_plan_with_exact_source lib (logging_names ns) (logging os) (\<lambda>q. logged (bind_root q) (\<lambda>_. [])) sem meta source_root
      target_root strategy (w, []) = ((Inr p, source), (w', read))"
  shows "\<exists>segs. manifest_bytes (m_files meta) segs read \<and> manifest_verdict lib meta segs"
proof -
  from assms(3) obtain verified w1 l1 root_abs v2 where
    ver: "verify_content_source lib (logging_names ns) (logging os) sem meta source_root (w, []) = (Inr verified, (w1, l1))"
      "vr_verified (vs_result verified)"
    and ab: "nm_abs (logging_names ns) source_root (w1, l1) = (Some root_abs, v2)"
    and plan: "build_materialize_plan lib (logging_names ns) (logging os) (\<lambda>q. logged (bind_root q) (\<lambda>_. [])) sem meta verified
      ''exact_root'' [] (path_clean root_abs) target_root strategy v2 = (Inr p, (w', read))"
    by (auto simp: build_plan_with_exact_source_def split: prod.splits sum.splits if_splits option.splits)
  have "snd v2 = l1" using logging.log_abs [of ns source_root "(w1, l1)"] ab by simp
  moreover have "snd (w', read) = snd v2"
    by (rule logging.log_build_plan [OF plan]) (simp add: logged_def split: prod.splits)
  ultimately have "read = l1" by simp
  with verify_content_source_decided [OF assms(1,2) ver(1)] ver(2) show ?thesis by auto
qed

section \<open>A concrete plan\<close>

definition one_root :: "bytes \<Rightarrow> nat \<times> bytes \<Rightarrow> bytes option \<times> nat \<times> bytes" where
  "one_root q = logged (\<lambda>w. (Some ''id'', w)) (\<lambda>_. [])"

lemma one_content_run:
  assumes "m_version m = ''hybrid''" "m_files m = [one_entry]" "m_piece_length m = 16384" "m_piece_hashes m = [pad_to 20 ''b'']"
    "\<not> m_multi_file m" "m_total_length m = 1" "m_info_hash_v1 m \<noteq> []" "m_info_hash_v2 m \<noteq> []"
  shows "\<exists>vs. verify_content_source sample_lib (logging_names one_file_names) (logging one_file_os) posix_semantics m ''/srv/a'' (0, []) =
      (Inr vs, (1, ''b'')) \<and>
    vr_verified (vs_result vs) \<and> vs_bindings vs = [one_binding] \<and> vs_variant vs = m_variant_id m \<and>
    vr_snapshot_authority (vs_result vs) \<and> vr_snapshots (vs_result vs) = [(''/srv/a'', one_file_info)]"
proof -
  from one_hybrid_run [OF assms(2-4,6-8), of 0 "[]"] obtain r where
    run: "verify_hybrid_resolved sample_lib (logging one_file_os) m [one_spec] (0, []) = (Inr r, (1, ''b''))"
    and r: "vr_verified r" "vr_snapshot_authority r" "vr_snapshots r = [(''/srv/a'', one_file_info)]" by auto
  have "content_bindings [one_spec] = [one_binding]"
    by (simp add: content_bindings_def one_spec_def content_spec_def padding_spec_def one_binding_def one_path_clean)
  then show ?thesis
    using run r assms(1) by (simp add: verify_content_source_def bnd_def one_resolved [OF assms(2,5)] verify_resolved_def ret_def)
qed

lemma one_target: "path_join [''/dst'', ''a''] = ''/dst/a''" "clean_components [''dst'']" "clean_components [''a'']"
  using path_join_abs [of "[''dst'']" "[''a'']"] by (simp_all add: clean_component_def abs_path_def)

lemma one_plan_run:
  assumes "m_files m = [one_entry]" "\<not> m_multi_file m" "m_name_raw m = ''a''" "m_variant_id m \<noteq> []"
    and "vr_verified (vs_result vs)" "vs_bindings vs = [one_binding]" "vs_variant vs = m_variant_id m"
      "vr_snapshot_authority (vs_result vs)" "vr_snapshots (vs_result vs) = [(''/srv/a'', one_file_info)]"
  shows "\<exists>p. build_materialize_plan sample_lib (logging_names one_file_names) (logging one_file_os) one_root posix_semantics m vs
      mode selection root ''/dst'' [] (w, l) = (Inr p, (w, l)) \<and>
    sp_target_root p = ''/dst'' \<and> map po_target (sp_operations p) = [''/dst/a'']"
proof -
  let ?ns = "logging_names one_file_names" and ?os = "logging one_file_os"
  have abs: "nm_abs ?ns q s = (Some q, s)" "abs_path [''dst''] = ''/dst''" "abs_path ([''dst''] @ [''a'']) = ''/dst/a''" for q s
    by (simp_all add: logging_names_def logged_def one_file_names_def abs_path_def split: prod.splits)
  have poll: "poll_plan ?os s = (Inr (), s)" for s
    by (simp add: poll_plan_def as_plan_def check_ctx_def logging_def logged_def one_file_os_def split: prod.splits)
  have probe: "\<exists>probe. probe_read_only ?ns ?os posix_semantics ''/dst'' (w, l) = (Inr probe, (w, l)) \<and>
      pr_resolved probe = ''/dst'' \<and> pr_semantics probe = posix_semantics"
    by (simp add: probe_read_only_def bnd_def call_def lookup_def guard_def ret_def logging_names_def logging_def logged_def
        one_file_names_def one_file_os_def one_dir_info_def)
  have layout: "validate_manifest_paths_with_padding sample_lib [[''a'']] [is_padding one_entry] posix_semantics = Inr ()"
    by (simp add: validate_manifest_paths_with_padding_def validate_manifest_paths_def sample_validate)
  have join: "planned_join sample_lib ?ns ''/dst'' [''a''] posix_semantics s = (Inr ''/dst/a'', s)" for s
    using planned_join_value [of ?ns "''/dst''" s "[''dst'']" s sample_lib "[''a'']" posix_semantics] abs one_target
    by (simp add: sample_validate)
  have "path_rel ''/dst'' ''/dst/a'' = Some ''a''"
    using path_rel_below [of "[''dst'']" "[''a'']"] one_target abs by simp
  then have prefix: "reject_symlink_prefix ?ns ''/dst'' ''/dst/a'' s = (Inr (), s)" for s
    by (simp add: reject_symlink_prefix_def ret_def)
  have absent: "require_absent ?ns ''/dst/a'' (w, l) = (Inr (), (w, l))"
    by (simp add: require_absent_def logging_names_def logged_def one_file_names_def)
  have binding: "find_binding [one_binding] 0 = Some one_binding"
    by (simp add: find_binding_def sort_search.simps one_binding_def)
  have "snapshot_matches sample_lib posix_semantics [(''/srv/a'', one_file_info)] ''/srv/a'' one_file_info"
    by (simp add: snapshot_matches_def same_snapshot_path_def same_info_def)
  then have pre: "source_precondition_of sample_lib posix_semantics ?os vs 0 (w, l) = (Inr (1, 0), (w, l))"
    using assms(6,8,9) binding
    by (simp add: source_precondition_of_def one_binding_def match_source_snapshot_def bnd_def call_def logging_def logged_def
        one_file_os_def ret_def one_file_info_def)
  have entry: "\<not> is_padding one_entry" "f_length one_entry = 1" by (simp_all add: one_entry_def file_at_def is_padding_def)
  have op: "\<exists>op. plan_operation_for sample_lib posix_semantics ?os vs ''copy'' 0 one_entry ''/dst/a'' (w, l) = (Inr (op, 1), (w, l)) \<and>
      po_target op = ''/dst/a''"
    using entry pre assms(6) binding
    by (simp add: plan_operation_for_def source_path_def bnd_def as_plan_def ret_def Let_def)
  have components: "target_components m one_entry = [''a'']" using assms(2,3) by (simp add: target_components_def)
  from probe op show ?thesis
    using assms(1,4,5,7) components layout
    by (auto simp: build_materialize_plan_def poll bnd_def source_for_def one_root_def logged_def join prefix absent as_plan_def
        ret_def Let_def initial_plan_def)
qed

lemma one_names_laws: "resolves_clean (logging_names one_file_names)" "abs_stays (logging_names one_file_names)"
proof -
  have "''/srv/a'' = abs_path [''srv'', ''a'']" "clean_components [''srv'', ''a'']" "''/dst'' = abs_path [''dst'']"
    using one_target(2) by (simp_all add: abs_path_def clean_component_def)
  then have "\<exists>cs. clean_components cs \<and> q = abs_path cs" if "q = ''/srv/a'' \<or> q = ''/dst''" for q
    using that one_target(2) by metis
  then show "resolves_clean (logging_names one_file_names)"
    by (auto simp: resolves_clean_def logging_names_def logged_def one_file_names_def split: if_splits)
  show "abs_stays (logging_names one_file_names)"
    by (simp add: abs_stays_def logging_names_def logged_def one_file_names_def split: prod.splits)
qed

text \<open>The plan of the file \<open>/srv/a\<close> to the directory \<open>/dst\<close>, from the parsed metafile to the operations.\<close>

lemma one_planned:
  obtains m vs p where "parse_metainfo sample_lib (encode one_hybrid) = Inr m" "m_files m = [one_entry]"
    "verify_content_source sample_lib (logging_names one_file_names) (logging one_file_os) posix_semantics m ''/srv/a'' (0, []) =
      (Inr vs, (1, ''b''))"
    "vr_verified (vs_result vs)"
    "build_materialize_plan sample_lib (logging_names one_file_names) (logging one_file_os) one_root posix_semantics m vs
      ''exact_root'' [] ''/srv/a'' ''/dst'' [] (1, ''b'') = (Inr p, (1, ''b''))"
    "map po_target (sp_operations p) = [''/dst/a'']"
proof (rule one_hybrid_parsed)
  fix m
  assume m: "parse_metainfo sample_lib (encode one_hybrid) = Inr m" "m_version m = ''hybrid''" "m_files m = [one_entry]"
    "m_piece_length m = 16384" "m_piece_hashes m = [pad_to 20 ''b'']" "\<not> m_multi_file m" "m_total_length m = 1"
    "m_info_hash_v1 m \<noteq> []" "m_info_hash_v2 m \<noteq> []" "m_name_raw m = ''a''" "m_variant_id m \<noteq> []"
  from one_content_run [OF m(2-9)] obtain vs where vs:
    "verify_content_source sample_lib (logging_names one_file_names) (logging one_file_os) posix_semantics m ''/srv/a'' (0, []) =
      (Inr vs, (1, ''b''))"
    "vr_verified (vs_result vs)" "vs_bindings vs = [one_binding]" "vs_variant vs = m_variant_id m"
    "vr_snapshot_authority (vs_result vs)" "vr_snapshots (vs_result vs) = [(''/srv/a'', one_file_info)]" by blast
  from one_plan_run [OF m(3,6,10,11) vs(2-6), of "''exact_root''" "[]" "''/srv/a''" 1 "''b''"]
  show thesis by (elim exE conjE) (rule that [OF m(1,3) vs(1,2)])
qed

theorem plan_targets_safe_witness:
  "\<exists>(m :: meta_info) (p :: seed_plan) rs. clean_components rs \<and> sp_target_root p = abs_path rs \<and> length (sp_operations p) = 1 \<and>
    target_of (logging_names one_file_names) m rs one_entry (sp_operations p ! 0) \<and> map po_target (sp_operations p) = [''/dst/a'']"
proof (rule one_planned)
  fix m vs p
  assume m: "m_files m = [one_entry]" "map po_target (sp_operations p) = [''/dst/a'']"
    "build_materialize_plan sample_lib (logging_names one_file_names) (logging one_file_os) one_root posix_semantics m vs
      ''exact_root'' [] ''/srv/a'' ''/dst'' [] (1, ''b'') = (Inr p, (1, ''b''))"
  from plan_targets_safe [OF m(3) one_names_laws] m(1) obtain rs where
    rs: "clean_components rs" "sp_target_root p = abs_path rs" "length (sp_operations p) = 1"
    "target_of (logging_names one_file_names) m rs one_entry (sp_operations p ! 0)" by auto
  show ?thesis by (rule exI [of _ m], rule exI [of _ p], rule exI [of _ rs], intro conjI rs m(2))
qed

theorem plan_covers_manifest_witness:
  "\<exists>vs p. sp_estimated_read p = 1 \<and>
    operation_of sample_lib posix_semantics (logging one_file_os) vs ''copy'' 0 one_entry (sp_operations p ! 0) \<and>
    sp_id p = plan_id sample_lib p \<and> map po_target (sp_operations p) = [''/dst/a'']"
proof (rule one_planned)
  fix m vs p
  assume m: "m_files m = [one_entry]" "map po_target (sp_operations p) = [''/dst/a'']"
    "parse_metainfo sample_lib (encode one_hybrid) = Inr m"
    "build_materialize_plan sample_lib (logging_names one_file_names) (logging one_file_os) one_root posix_semantics m vs
      ''exact_root'' [] ''/srv/a'' ''/dst'' [] (1, ''b'') = (Inr p, (1, ''b''))"
  have "bytes_to_read [one_entry] = 1" by (simp add: bytes_to_read_def one_entry_def file_at_def is_padding_def)
  with plan_covers_manifest [OF m(4) one_names_laws m(3)] m(1) have c: "sp_estimated_read p = 1"
    "operation_of sample_lib posix_semantics (logging one_file_os) vs ''copy'' 0 one_entry (sp_operations p ! 0)"
    "sp_id p = plan_id sample_lib p" by simp_all
  show ?thesis by (rule exI [of _ vs], rule exI [of _ p], intro conjI c m(2))
qed

theorem exact_plan_of_read_content_witness:
  "\<exists>(m :: meta_info) segs. parse_metainfo sample_lib (encode one_hybrid) = Inr m \<and> manifest_bytes [one_entry] segs ''b'' \<and>
    manifest_verdict sample_lib m segs"
proof (rule one_planned)
  fix m vs p
  assume m: "parse_metainfo sample_lib (encode one_hybrid) = Inr m" "m_files m = [one_entry]"
    and v: "verify_content_source sample_lib (logging_names one_file_names) (logging one_file_os) posix_semantics m ''/srv/a'' (0, []) =
      (Inr vs, (1, ''b''))" "vr_verified (vs_result vs)"
    and b: "build_materialize_plan sample_lib (logging_names one_file_names) (logging one_file_os) one_root posix_semantics m vs
      ''exact_root'' [] ''/srv/a'' ''/dst'' [] (1, ''b'') = (Inr p, (1, ''b''))"
  have "nm_abs (logging_names one_file_names) ''/srv/a'' (1, ''b'') = (Some ''/srv/a'', (1, ''b''))"
    by (simp add: logging_names_def logged_def one_file_names_def)
  moreover have "one_root = (\<lambda>q. logged (\<lambda>w. (Some ''id'', w)) (\<lambda>_. []))" by (simp add: one_root_def fun_eq_iff)
  ultimately have "build_plan_with_exact_source sample_lib (logging_names one_file_names) (logging one_file_os)
      (\<lambda>q. logged (\<lambda>w. (Some ''id'', w)) (\<lambda>_. [])) posix_semantics m ''/srv/a'' ''/dst'' [] (0, []) = ((Inr p, Some vs), (1, ''b''))"
    using v b by (simp add: build_plan_with_exact_source_def one_path_clean)
  from exact_plan_of_read_content [OF m(1) digest_sizes_sample this] m show ?thesis by auto
qed

end
