(* ===== verification/Spec2Isabelle.thy ===== *)
theory Spec2Isabelle
  imports MetaInfoProps MatchProps AtMostOnce StatusProps ClientPathProps SeedPlanProps
begin

text \<open>
  Verification of ptctl, a command line tool that inspects torrent metafiles, proves that files on disk are the content
  a metafile describes, and plans and journals what is done with them. The development models the packages under
  \<open>internal/\<close> that decide: what a metafile means, which paths are safe, whether bytes match, which files match, and how an
  exchange of bonus points, which must not be submitted twice, is recorded.

  \<^bold>\<open>Parts, from the bottom.\<close> \<open>Prelude\<close> has the shared list, byte, result and 64-bit integer facts and their
  collections. \<open>GoLib\<close> is what the code uses of Go's standard library: the digests, Unicode folding and URL parsing
  are fields of the record \<open>golib\<close> (every theorem holds for all of them; \<open>sample_lib\<close> is one instance, used by
  witnesses), UTF-8, hexadecimal, base64 and \<open>filepath.Clean\<close> are written out. \<open>Actions\<close> is the error and state
  monad in which everything that touches files is written.

  \<^item> \<open>Bencode\<close>, \<open>BencodeSpec\<close>: \<open>internal/metafile/bencode.go\<close>. The decoder with its limits and offsets; it accepts
    exactly the canonical encodings of well-formed values.
  \<^item> \<open>PathRules\<close>: the lexical half of \<open>internal/storage/path.go\<close> (components, manifests, client roots), and
    \<open>PathJoin\<close>: the half that asks the host (\<open>SecureJoinExisting\<close>, \<open>PlannedJoin\<close>, \<open>MapHostToClient\<close>). The calls
    \<open>Abs\<close>, \<open>Lstat\<close> and \<open>EvalSymlinks\<close> are the record \<open>names\<close>.
  \<^item> \<open>Merkle\<close>: \<open>internal/metafile/merkle.go\<close>. The accumulator of 64 levels computes the recursive tree of BEP 52.
  \<^item> \<open>MetaInfo\<close>, \<open>MetaInfoProps\<close>: \<open>internal/metafile/metainfo.go\<close>. \<open>Parse\<close> and what every accepted manifest satisfies.
  \<^item> \<open>SourceFiles\<close>: files as the verifier uses them. The record \<open>os\<close> has the calls, with any behaviour and any state;
    \<open>logging\<close> adds the log of the bytes that reads delivered, over which the verdicts are stated. The sequence reader.
  \<^item> \<open>Verify\<close>, \<open>VerifyV2\<close>, \<open>Resolve\<close>: \<open>internal/metafile/verify.go\<close>, with \<open>VerifyProps\<close>, \<open>VerifyV2Props\<close> and \<open>VerifyEnd\<close>:
    a result says verified exactly when the bytes that were read, once each, are the content of the manifest.
  \<^item> \<open>Source\<close>, \<open>SourceProps\<close>: \<open>internal/metafile/source.go\<close>. Explicit source maps, re-verification, the bounded
    consumer, v2 roots of single files.
  \<^item> \<open>Match\<close>, \<open>MatchProps\<close>: \<open>internal/metafile/match.go\<close>. The search over candidates: what the limits bound, that every
    match was verified in the run with the bindings it reports, and that pruning loses nothing. \<open>OsInvariant\<close>: what
    every call of the system keeps, every function that reads content keeps, whatever it returns.
  \<^item> \<open>SeedPlan\<close>, \<open>SeedPlanProps\<close>: \<open>internal/seed/plan.go\<close> and \<open>storage/probe.go\<close>. The plan of a materialisation: its targets
    are safe, its operations cover the manifest, and an exact plan exists only for content that was read.
  \<^item> \<open>ClientPath\<close>, \<open>ClientPathProps\<close>: \<open>internal/reconcile/path.go\<close>. Paths of a downloader as text; the scan over
    neighbours of the sorted keys decides whether any two files of a set are in conflict.

  The second half models the sealed-record store and the exchange built on it, where the order of calls matters.

  \<^item> \<open>Program\<close>: programs as trees of atomic calls with any replies, so that they can be interleaved and stopped between
    two calls; monitors of the calls they make.
  \<^item> \<open>RecordStore\<close>, \<open>RecordStoreProps\<close>: the record half of \<open>internal/metastore\<close> (names of objects, import by staging,
    link and flush, verified loads, listings, exact removal, bound sessions). Names and identities correspond one to one.
  \<^item> \<open>ExchangeTypes\<close>: the five sealed records of \<open>internal/bonusexchange\<close>, their validity and canonical encoding, with the
    receipts and reviews of \<open>internal/site\<close> they hold. \<open>JsonKeys\<close>: the scan for duplicate keys returns on every token
    stream (it is a \<open>partial_function\<close>, so this is a theorem) and accepts exactly the values without duplicates.
  \<^item> \<open>Exchange\<close>: \<open>repository.go\<close> up to the stored outcome; \<open>Retention\<close>: \<open>retention.go\<close>, \<open>Status\<close>, \<open>ListOperations\<close> and the
    submit command of \<open>internal/cli/site_bonus_exchange.go\<close>. \<open>StatusProps\<close>: a status without an error is consistent.
  \<^item> \<open>ExchangeGuards\<close>, \<open>ExchangeCommands\<close>, \<open>ExchangeProtocol\<close>: the three monitors of the protocol and the operations that
    they accept: an attempt is unlinked only after its intent is durably gone (\<open>clearing\<close>), a request is sent only after
    this process published the attempt durably and then saw the intent (\<open>marking\<close>), an intent is published only under
    a freshly drawn operation (\<open>drawing\<close>).
  \<^item> \<open>Interleaving\<close>: worlds of a disk, any number of processes running commands, and the requests sent; a step is one
    call, a start, a stop or a loss of power that undoes any unflushed directory changes. The invariant of the protocol.
  \<^item> \<open>IdealStore\<close>, \<open>IdealRead\<close>, \<open>SubmitRun\<close>, \<open>SubmitSample\<close>: the programs executed on a store without faults: import and load,
    listings, status, reservation; a concrete library, site and store.
  \<^item> \<open>AtMostOnce\<close>: executions are histories of the worlds; at most one request per intent over all histories, the marker it
    leaves, and the submit command sends one when nothing fails.

  \<^bold>\<open>Interfaces.\<close> \<open>strict_codec\<close> is a decoder whose accepted documents are exactly the encodings of acceptable values
  (interpreted for bencode); \<open>recording_reader\<close> (Merkle) is what the segment hash needs of a reader; \<open>recording_os\<close> and
  \<open>recording_names\<close> are what the verifier needs of a file system with a log, interpreted on \<open>logging\<close> for every
  system; \<open>os_invariant\<close> is a predicate on the system's state that its calls keep, interpreted for the growth of the log;
  \<open>search_predicate\<close> is a predicate that the calls and the single steps of the search keep, interpreted once for the
  limits and once for the origin of the matches; \<open>monitor\<close> is a ghost state that harmless calls leave permitted, interpreted for
  the three monitors of the exchange.

  \<^bold>\<open>Correspondence.\<close> A Go struct is a record with a prefix per type, an error value is a constructor of the package's
  error datatype (without its text), a function that may fail returns a sum, a method that changes its receiver
  returns it. Go's \<open>int64\<close> is \<open>int\<close> with the range and wrap-around written out where a value can leave it. A loop is
  structural recursion, or a \<open>function\<close> with a measure on what is left to read; no fuel is used anywhere, and the one
  \<open>partial_function\<close> is proved to return. Calls of the store succeed, fail, or fail after their effect, as the replies
  and \<open>disk_step\<close> allow; an execution is total because a program is a finite tree. A poll of the context is a call with any answer. Where \<open>sort.Slice\<close> leaves the order of equal
  keys open, the stable order is taken. The host is POSIX; clients may be Windows.

  \<^bold>\<open>Hypotheses of the protocol.\<close> \<open>exchange_of\<close>: the JSON codecs decode what they encode, and the two digests of the
  exchange have no second preimage; the operation identity of the intent is not drawn a second time from the random
  source (a premise of the steps). \<open>SubmitSample\<close> has an instance in which a request is sent. \<open>resolves_clean\<close> and
  \<open>abs_stays\<close> state what \<open>filepath.EvalSymlinks\<close> and \<open>filepath.Abs\<close> document for absolute paths.

  \<^bold>\<open>Not modelled.\<close> Nil receivers and arguments; the text of errors and of JSON output; errors of system calls that wrap
  a context error. Of the store: the torrent artifacts and bindings, its initialisation, the Windows calls. Of the
  exchange: flags, credentials, reports. Other packages: source discovery (\<open>seed\<close> but its plan), platform calls (\<open>fsbind\<close>, the inventory walks), HTTP and page
  parsing (\<open>site\<close>, \<open>downloader\<close>), the rest of the command line, and the journaled engines that combine them
  (\<open>materialize\<close>, \<open>clientadopt\<close>, \<open>clientactivate\<close>, \<open>clientstop\<close>, \<open>clientremove\<close>, \<open>sourceretire\<close>, \<open>reconcile\<close> but its paths): their
  journals are file protocols of their own, each of the size of the exchange.
\<close>

end
